(* ===== verification/Prelude.thy ===== *)
theory Prelude
  imports Main "HOL-Library.Word" "HOL-Library.List_Lexorder" "HOL-Library.Char_ord"
begin

text \<open>
  Shared vocabulary of the development: the Go integer types with their wrap-around,
  byte strings, the collections of simplification rules the component theories fill,
  and generic facts on lists, options and maps.

  Conventions. A Go \<^verbatim>\<open>string\<close> is a \<^typ>\<open>string\<close> whose characters are
  its bytes, and \<^verbatim>\<open><\<close> on strings is the lexicographic order on bytes, which is the
  order of \<open>List_Lexorder\<close> over \<open>Char_ord\<close>.
  A \<^verbatim>\<open>[]byte\<close> is a list of 8-bit words.
  An \<^verbatim>\<open>int64\<close> is an \<^typ>\<open>int\<close> and a \<^verbatim>\<open>uint64\<close> a \<^typ>\<open>nat\<close>; every operation
  of the source that can leave the 64-bit range is followed by \<open>wrap64\<close> or \<open>u64\<close>.
  A \<^verbatim>\<open>time.Time\<close> is the number of nanoseconds since the Unix epoch.
  A result with an error is a sum, \<open>Inl\<close> the error.
\<close>

type_synonym byte = "8 word"
type_synonym bytes = "byte list"
type_synonym int64 = int
type_synonym uint64 = nat
type_synonym gotime = int

named_theorems kv_defs \<open>definitions of the state machine's operations\<close>
named_theorems kv_frame \<open>fields an operation of the state machine leaves unchanged\<close>
named_theorems raft_defs \<open>definitions of the consensus node's operations\<close>
named_theorems raft_frame \<open>fields an operation of the consensus node leaves unchanged\<close>

section \<open>Fixed-width integers\<close>

definition max_int64 :: int where
  "max_int64 = 2 ^ 63 - 1"

definition min_int64 :: int where
  "min_int64 = - (2 ^ 63)"

definition max_uint64 :: nat where
  "max_uint64 = 2 ^ 64 - 1"

definition is_int64 :: "int \<Rightarrow> bool" where
  "is_int64 i \<longleftrightarrow> min_int64 \<le> i \<and> i \<le> max_int64"

text \<open>Two's complement reduction into the signed range, and reduction modulo \<open>2 ^ 64\<close>.\<close>

definition wrap64 :: "int \<Rightarrow> int" where
  "wrap64 i = (i + 2 ^ 63) mod 2 ^ 64 - 2 ^ 63"

definition u64 :: "nat \<Rightarrow> nat" where
  "u64 n = n mod 2 ^ 64"

lemma wrap64_id [simp]: "is_int64 i \<Longrightarrow> wrap64 i = i"
  by (simp add: is_int64_def wrap64_def min_int64_def max_int64_def)

lemma is_int64_wrap64 [simp]: "is_int64 (wrap64 i)"
proof -
  have "(i + 2 ^ 63) mod 2 ^ 64 < (2 ^ 64 :: int)" and "0 \<le> (i + 2 ^ 63) mod (2 ^ 64 :: int)"
    by simp_all
  then show ?thesis
    by (simp add: is_int64_def wrap64_def min_int64_def max_int64_def)
qed

lemma u64_id [simp]: "n < 2 ^ 64 \<Longrightarrow> u64 n = n"
  by (simp add: u64_def)

lemma u64_less [simp]: "u64 n < 2 ^ 64"
  by (simp add: u64_def)

section \<open>Lists\<close>

lemma find_append:
  "find P (xs @ ys) = (case find P xs of None \<Rightarrow> find P ys | Some x \<Rightarrow> Some x)"
  by (induction xs) auto

lemma find_Some_split:
  "find P xs = Some x \<Longrightarrow> \<exists>pre post. xs = pre @ x # post \<and> P x \<and> (\<forall>y \<in> set pre. \<not> P y)"
proof (induction xs)
  case (Cons a xs)
  show ?case
  proof (cases "P a")
    case True
    with Cons.prems show ?thesis by (auto intro: exI [of _ "[]"])
  next
    case False
    with Cons obtain pre post where "xs = pre @ x # post" "P x" "\<forall>y \<in> set pre. \<not> P y"
      by auto
    with False have "a # xs = (a # pre) @ x # post \<and> P x \<and> (\<forall>y \<in> set (a # pre). \<not> P y)"
      by simp
    then show ?thesis by blast
  qed
qed simp

lemma last_filter_split:
  "filter P xs \<noteq> [] \<Longrightarrow>
     \<exists>p q. xs = p @ last (filter P xs) # q \<and> P (last (filter P xs)) \<and> (\<forall>b \<in> set q. \<not> P b)"
proof (induction xs rule: rev_induct)
  case (snoc x xs)
  show ?case
  proof (cases "P x")
    case True
    then show ?thesis by (intro exI [of _ xs] exI [of _ "[]"]) simp
  next
    case False
    with snoc obtain p q where "xs = p @ last (filter P xs) # q" "P (last (filter P xs))"
      "\<forall>b \<in> set q. \<not> P b"
      by auto
    with False show ?thesis
      by (intro exI [of _ p] exI [of _ "q @ [x]"]) auto
  qed
qed simp

lemma last_filter_unique:
  assumes "xs = p @ a # q" "distinct xs" "P a"
  shows "last (filter P xs) = a \<longleftrightarrow> (\<forall>b \<in> set q. \<not> P b)"
proof
  assume "last (filter P xs) = a"
  moreover have "last (filter P xs) = last (a # filter P q)"
    using assms by simp
  ultimately have "filter P q = []"
    using assms(1,2) last_in_set [of "filter P q"] by (auto split: if_splits)
  then show "\<forall>b \<in> set q. \<not> P b" by (simp add: filter_empty_conv)
qed (use assms in simp)

lemma append_Cons_eq_cases:
  assumes "xs @ ys = p @ b # q"
  obtains q' where "xs = p @ b # q'" "q = q' @ ys" | p' where "p = xs @ p'" "ys = p' @ b # q"
  using assms by (auto simp: append_eq_append_conv2 append_eq_Cons_conv Cons_eq_append_conv)

lemma sorted_wrt_insert_mid:
  "sorted_wrt R (xs @ ys) \<Longrightarrow> (\<And>x. x \<in> set xs \<Longrightarrow> R x e) \<Longrightarrow> (\<And>y. y \<in> set ys \<Longrightarrow> R e y) \<Longrightarrow>
     sorted_wrt R (xs @ e # ys)"
  by (simp add: sorted_wrt_append)

lemma distinct_map_insert_mid:
  "distinct (map f (xs @ ys)) \<Longrightarrow> f e \<notin> f ` set (xs @ ys) \<Longrightarrow> distinct (map f (xs @ e # ys))"
  by auto

lemma sorted_wrt_map_inj_distinct:
  "sorted_wrt R xs \<Longrightarrow> (\<And>x. \<not> R x x) \<Longrightarrow> distinct xs"
  by (induction xs) auto

lemma take_Suc_drop_split:
  "n < length xs \<Longrightarrow> xs = take n xs @ xs ! n # drop (Suc n) xs"
  by (rule id_take_nth_drop)

section \<open>Maps\<close>

lemma map_upd_None [simp]: "m(k := None) = m \<longleftrightarrow> m k = None"
  by (auto simp: fun_eq_iff)

lemma dom_map_upd_None [simp]: "dom (m(k := None)) = dom m - {k}"
  by auto

end
