(* ===== verification/RaftTypes.thy ===== *)
theory RaftTypes
  imports Prelude
begin

text \<open>
  The vocabulary the consensus layer and the state machine share
  (\<^verbatim>\<open>internal/raft/statemachine.go\<close>, \<^verbatim>\<open>internal/raft/errors.go\<close>): log entries, their
  types and the errors of the consensus layer. An \<^verbatim>\<open>EntryType\<close> is a Go \<^verbatim>\<open>int\<close>: values
  other than the three named ones arrive from the wire unchanged.
\<close>

type_synonym EntryType = int

definition EntryKV :: EntryType where "EntryKV = 0"
definition EntryMembership :: EntryType where "EntryMembership = 1"
definition EntryNoop :: EntryType where "EntryNoop = 2"

lemmas entry_type_defs = EntryKV_def EntryMembership_def EntryNoop_def

record LogEntry =
  Index :: uint64
  Term :: uint64
  Type :: EntryType
  Command :: bytes

text \<open>
  The errors of the package. The wrapped ones (\<^verbatim>\<open>fmt.Errorf("%w: ...")\<close>) are compared in
  the source with \<^verbatim>\<open>errors.Is\<close>, so only the wrapped error is kept; \<open>OtherError\<close> is an error
  of the file system or of a library.
\<close>

datatype raft_error =
    ErrOutOfRange | ErrNonContiguousLog | ErrCorruptLog | ErrStorageUnavailable | ErrNotLeader
  | ErrLeaderNotReady | ErrLogCompacted | ErrSnapshotStale | ErrSnapshotBoundaryMismatch
  | ErrInvalidSnapshot | ErrSnapshotUnavailable | ErrSnapshotOffset | ErrSnapshotChecksum
  | ErrSnapshotChunkMismatch | ErrNodeUnhealthy | ErrMembershipChangePending | ErrProposeChannelFull
  | OtherError string

end
