(* ===== verification/WAL.thy ===== *)
theory WAL
  imports RaftTypes
begin

unbundle bit_operations_syntax

text \<open>
  The byte format of the write-ahead log (\<^verbatim>\<open>internal/raft/log.go\<close>): a header with the
  snapshot boundary and its checksum, then one record per entry: length, checksum, payload.
  The protobuf codec of an entry is generated code and an argument; the checksum and the
  little-endian integers are modelled.
\<close>

section \<open>Integers and checksum\<close>

fun put_le :: "nat \<Rightarrow> nat \<Rightarrow> bytes" where
  "put_le 0 n = []"
| "put_le (Suc k) n = of_nat (n mod 256) # put_le k (n div 256)"

fun get_le :: "bytes \<Rightarrow> nat" where
  "get_le [] = 0"
| "get_le (b # bs) = unat b + 256 * get_le bs"

definition put_u32 :: "nat \<Rightarrow> bytes" where "put_u32 n = put_le 4 (n mod 2 ^ 32)"
definition put_u64 :: "uint64 \<Rightarrow> bytes" where "put_u64 n = put_le 8 (n mod 2 ^ 64)"

lemma length_put_le [simp]: "length (put_le k n) = k"
  by (induction k arbitrary: n) auto

lemma get_put_le: "get_le (put_le k n) = n mod 256 ^ k"
proof (induction k arbitrary: n)
  case (Suc k)
  have "unat (of_nat (n mod 256) :: byte) = n mod 256" by (simp add: unat_of_nat)
  then have "get_le (put_le (Suc k) n) = n mod 256 + 256 * (n div 256 mod 256 ^ k)"
    by (simp add: Suc)
  also have "\<dots> = n mod (256 * 256 ^ k)" by (metis add.commute mod_mult2_eq)
  finally show ?case by simp
qed simp

lemma length_put_u32 [simp]: "length (put_u32 n) = 4" by (simp add: put_u32_def)
lemma length_put_u64 [simp]: "length (put_u64 n) = 8" by (simp add: put_u64_def)

lemma get_put_u32 [simp]: "get_le (put_u32 n) = n mod 2 ^ 32"
  by (simp add: put_u32_def get_put_le)

lemma get_put_u64 [simp]: "get_le (put_u64 n) = n mod 2 ^ 64"
  by (simp add: put_u64_def get_put_le)

text \<open>\<^verbatim>\<open>crc32.ChecksumIEEE\<close>: the reflected polynomial EDB88320, bit by bit.\<close>

definition crc_bit :: "32 word \<Rightarrow> 32 word" where
  "crc_bit c = (if bit c 0 then drop_bit 1 c XOR 0xEDB88320 else drop_bit 1 c)"

definition crc_byte :: "32 word \<Rightarrow> byte \<Rightarrow> 32 word" where
  "crc_byte c b = (crc_bit ^^ 8) (c XOR ucast b)"

definition crc32 :: "bytes \<Rightarrow> nat" where
  "crc32 bs = unat (NOT (foldl crc_byte (- 1) bs))"

lemma crc32_less: "crc32 bs < 2 ^ 32"
  using unsigned_less [of "NOT (foldl crc_byte (- 1) bs)"] by (simp add: crc32_def)

section \<open>Writing\<close>

definition walMagic :: bytes where
  "walMagic = [75, 86, 69, 82, 87, 65, 76, 49]"

definition maxWALRecordSize :: nat where
  "maxWALRecordSize = 64 * 2 ^ 20"

definition writeWALHeader :: "uint64 \<Rightarrow> uint64 \<Rightarrow> bytes" where
  "writeWALHeader baseIndex baseTerm =
     (let boundary = put_u64 baseIndex @ put_u64 baseTerm in walMagic @ boundary @ put_u32 (crc32 boundary))"

definition writeWALRecord :: "(LogEntry \<Rightarrow> bytes) \<Rightarrow> LogEntry \<Rightarrow> bytes" where
  "writeWALRecord marshal entry =
     (let data = marshal entry in put_u32 (length data) @ put_u32 (crc32 data) @ data)"

definition wal_records :: "(LogEntry \<Rightarrow> bytes) \<Rightarrow> LogEntry list \<Rightarrow> bytes" where
  "wal_records marshal es = concat (map (writeWALRecord marshal) es)"

definition wal_image :: "(LogEntry \<Rightarrow> bytes) \<Rightarrow> uint64 \<Rightarrow> uint64 \<Rightarrow> LogEntry list \<Rightarrow> bytes" where
  "wal_image marshal baseIndex baseTerm es = writeWALHeader baseIndex baseTerm @ wal_records marshal es"

section \<open>Reading\<close>

text \<open>
  \<^verbatim>\<open>readWALRecords\<close> from the rest of the file: the entries and the bytes of this part that
  stay in the file. A record the file ends inside of is cut off; a record whose length,
  checksum or payload is wrong is an error.
\<close>

function readWALRecords :: "(bytes \<Rightarrow> LogEntry option) \<Rightarrow> bytes \<Rightarrow> raft_error + LogEntry list \<times> bytes" where
  "readWALRecords unmarshal file =
     (if file = [] then Inr ([], [])
      else if length file < 4 then Inr ([], [])
      else
        (let len = get_le (take 4 file) in
         if maxWALRecordSize < len then Inl ErrCorruptLog
         else if length file < 8 then Inr ([], [])
         else if length file < 8 + len then Inr ([], [])
         else
           (let buffer = take len (drop 8 file) in
            if crc32 buffer \<noteq> get_le (take 4 (drop 4 file)) then Inl ErrCorruptLog
            else case unmarshal buffer of
                   None \<Rightarrow> Inl ErrCorruptLog
                 | Some entry \<Rightarrow>
                     (case readWALRecords unmarshal (drop (8 + len) file) of
                        Inl e \<Rightarrow> Inl e
                      | Inr (entries, kept) \<Rightarrow> Inr (entry # entries, take (8 + len) file @ kept)))))"
  by pat_completeness auto
termination
  by (relation "measure (\<lambda>(u, f). length f)") auto

declare readWALRecords.simps [simp del]

text \<open>\<^verbatim>\<open>readWALHeader\<close> after the magic: the boundary and the rest of the file.\<close>

definition readWALHeader :: "bytes \<Rightarrow> raft_error + (uint64 \<times> uint64) \<times> bytes" where
  "readWALHeader file =
     (if length file < 16 then Inl ErrCorruptLog
      else if length file < 20 then Inl ErrCorruptLog
      else
        (let boundary = take 16 file in
         if crc32 boundary \<noteq> get_le (take 4 (drop 16 file)) then Inl ErrCorruptLog
         else
           (let bi = get_le (take 8 boundary); bt = get_le (drop 8 boundary) in
            if bi = 0 \<and> bt \<noteq> 0 then Inl ErrCorruptLog else Inr ((bi, bt), drop 20 file))))"

fun validateEntrySequence :: "LogEntry list \<Rightarrow> uint64 \<Rightarrow> raft_error option" where
  "validateEntrySequence [] expected = None"
| "validateEntrySequence (e # es) expected =
     (if Index e \<noteq> expected then Some ErrNonContiguousLog else validateEntrySequence es (u64 (expected + 1)))"

section \<open>Round trip\<close>

text \<open>What the log relies on of the codec: a payload within the limit that decodes to its entry.\<close>

definition codec_ok :: "(LogEntry \<Rightarrow> bytes) \<Rightarrow> (bytes \<Rightarrow> LogEntry option) \<Rightarrow> LogEntry \<Rightarrow> bool" where
  "codec_ok marshal unmarshal e \<longleftrightarrow> unmarshal (marshal e) = Some e \<and> length (marshal e) \<le> maxWALRecordSize"

lemma small_length: "n \<le> maxWALRecordSize \<Longrightarrow> n mod 2 ^ 32 = n"
  by (simp add: maxWALRecordSize_def)

lemma length_writeWALRecord [simp]: "length (writeWALRecord marshal e) = 8 + length (marshal e)"
  by (simp add: writeWALRecord_def Let_def)

lemma read_record:
  assumes "codec_ok marshal unmarshal e"
  shows "readWALRecords unmarshal (writeWALRecord marshal e @ rest) =
     (case readWALRecords unmarshal rest of
        Inl er \<Rightarrow> Inl er
      | Inr (entries, kept) \<Rightarrow> Inr (e # entries, writeWALRecord marshal e @ kept))"
proof -
  let ?d = "marshal e" and ?f = "writeWALRecord marshal e @ rest"
  have len: "length ?d \<le> maxWALRecordSize" "unmarshal ?d = Some e" using assms by (simp_all add: codec_ok_def)
  have parts: "take 4 ?f = put_u32 (length ?d)" "take 4 (drop 4 ?f) = put_u32 (crc32 ?d)"
    "take (length ?d) (drop 8 ?f) = ?d" "drop (8 + length ?d) ?f = rest" "take (8 + length ?d) ?f = writeWALRecord marshal e"
    by (simp_all add: writeWALRecord_def Let_def)
  have "8 + length ?d \<le> length ?f" by simp
  then have l: "\<not> length ?f < 4" "\<not> length ?f < 8" "\<not> length ?f < 8 + length ?d"
    by auto
  have l4: "?f \<noteq> []" using l(1) by force
  have n: "get_le (put_u32 (length ?d)) = length ?d" using small_length [OF len(1)] by simp
  have c: "get_le (put_u32 (crc32 ?d)) = crc32 ?d" using crc32_less by simp
  have nl: "\<not> maxWALRecordSize < length ?d" using len(1) by simp
  show ?thesis
    by (subst readWALRecords.simps)
      (simp only: Let_def parts n c l l4 nl len(2) if_False not_True_eq_False option.case simp_thms)
qed

lemma read_torn:
  assumes "t < length (writeWALRecord marshal e)" "length (marshal e) \<le> maxWALRecordSize"
  shows "readWALRecords unmarshal (take t (writeWALRecord marshal e)) = Inr ([], [])"
proof (cases "t < 4")
  case True
  then show ?thesis using assms(1) by (subst readWALRecords.simps) simp
next
  case False
  let ?f = "take t (writeWALRecord marshal e)"
  have len: "length ?f = t" using assms(1) by simp
  have "take 4 ?f = put_u32 (length (marshal e))" using False by (simp add: writeWALRecord_def Let_def min_def)
  then have n: "get_le (take 4 ?f) = length (marshal e)" using small_length [OF assms(2)] by simp
  have "t < 8 + length (marshal e)" using assms(1) by simp
  then show ?thesis
    using False assms(2) by (subst readWALRecords.simps) (simp only: Let_def n len if_False if_True not_le [symmetric] not_False_eq_True
        split: if_split, auto)
qed

lemma read_records:
  assumes "\<And>e. e \<in> set es \<Longrightarrow> codec_ok marshal unmarshal e"
    and "readWALRecords unmarshal rest = Inr (es', kept)"
  shows "readWALRecords unmarshal (wal_records marshal es @ rest) = Inr (es @ es', wal_records marshal es @ kept)"
  using assms(1)
proof (induction es)
  case (Cons e es)
  then show ?case by (simp add: wal_records_def read_record)
qed (simp add: assms(2) wal_records_def)

lemma readWALRecords_Nil [simp]: "readWALRecords unmarshal [] = Inr ([], [])"
  by (subst readWALRecords.simps) simp

text \<open>A file cut anywhere inside its records gives the entries whose records are complete.\<close>

lemma read_cut:
  assumes "\<And>e. e \<in> set es \<Longrightarrow> codec_ok marshal unmarshal e"
  shows "\<exists>k. readWALRecords unmarshal (take t (wal_records marshal es)) = Inr (take k es, wal_records marshal (take k es)) \<and>
     (k < length es \<longrightarrow> t < length (wal_records marshal (take (Suc k) es)))"
  using assms
proof (induction es arbitrary: t)
  case Nil
  then show ?case by (simp add: wal_records_def)
next
  case (Cons e es)
  let ?r = "writeWALRecord marshal e"
  show ?case
  proof (cases "t < length ?r")
    case True
    then have "readWALRecords unmarshal (take t (wal_records marshal (e # es))) = Inr ([], [])"
      using read_torn [OF True] Cons.prems [of e] by (simp add: wal_records_def codec_ok_def)
    then show ?thesis using True by (intro exI [of _ 0]) (simp add: wal_records_def)
  next
    case False
    have tk: "take t (wal_records marshal (e # es)) = ?r @ take (t - length ?r) (wal_records marshal es)"
      using False by (simp add: wal_records_def)
    obtain k where k: "readWALRecords unmarshal (take (t - length ?r) (wal_records marshal es)) = Inr (take k es, wal_records marshal (take k es))"
      "k < length es \<longrightarrow> t - length ?r < length (wal_records marshal (take (Suc k) es))"
      using Cons.IH [of "t - length ?r"] Cons.prems by auto
    have c: "codec_ok marshal unmarshal e" using Cons.prems by simp
    have "readWALRecords unmarshal (take t (wal_records marshal (e # es))) = Inr (take (Suc k) (e # es), wal_records marshal (take (Suc k) (e # es)))"
      unfolding tk using read_record [OF c, of "take (t - length ?r) (wal_records marshal es)"] k(1) by (simp add: wal_records_def)
    moreover have "Suc k < length (e # es) \<longrightarrow> t < length (wal_records marshal (take (Suc (Suc k)) (e # es)))"
      using k(2) False by (auto simp: wal_records_def)
    ultimately show ?thesis by blast
  qed
qed

lemma read_header:
  assumes "bi < 2 ^ 64" "bt < 2 ^ 64" "bi = 0 \<longrightarrow> bt = 0"
  shows "readWALHeader (drop 8 (writeWALHeader bi bt @ rest)) = Inr ((bi, bt), rest)"
proof -
  let ?b = "put_u64 bi @ put_u64 bt"
  let ?f = "?b @ put_u32 (crc32 ?b) @ rest"
  have "drop 8 (writeWALHeader bi bt @ rest) = ?f" by (simp add: writeWALHeader_def walMagic_def Let_def)
  moreover have "take 16 ?f = ?b" "take 4 (drop 16 ?f) = put_u32 (crc32 ?b)" "drop 20 ?f = rest" "take 8 ?b = put_u64 bi" "drop 8 ?b = put_u64 bt"
    by simp_all
  moreover have "get_le (put_u32 (crc32 ?b)) = crc32 ?b" using crc32_less by simp
  moreover have "get_le (put_u64 bi) = bi" "get_le (put_u64 bt) = bt" using assms by simp_all
  ultimately show ?thesis
    using assms(3) by (simp only: readWALHeader_def Let_def) (auto simp del: get_put_u32 get_put_u64)
qed

end
