(* ===== verification/RaftLog.thy ===== *)
theory RaftLog
  imports WAL
begin

text \<open>
  The Raft log (\<^verbatim>\<open>internal/raft/log.go\<close>): the live entries after a snapshot boundary, with
  every change written to the WAL file before it takes effect in memory. The record holds the
  fields of \<^verbatim>\<open>RaftLog\<close> and the contents of its file on disk. Where a system call can fail,
  the operation takes a fault as an argument, naming the call that fails and what reached
  the disk; \<open>None\<close> is a run without failures. A rename replaces the file atomically.
\<close>

section \<open>State\<close>

record RaftLog =
  entries :: "LogEntry list"
  dataDir :: string
  walFile :: bool \<comment> \<open>whether the file is open for appending\<close>
  baseIndex :: uint64
  baseTerm :: uint64
  boundaryKnown :: bool
  syncWrites :: bool
  storageErr :: "raft_error option"
  walHasHeader :: bool
  legacyWAL :: bool
  disk :: "bytes option"

definition newRaftLog :: RaftLog where
  "newRaftLog = \<lparr>entries = [], dataDir = [], walFile = False, baseIndex = 0, baseTerm = 0, boundaryKnown = True,
     syncWrites = False, storageErr = None, walHasHeader = False, legacyWAL = False, disk = None\<rparr>"

section \<open>The file\<close>

text \<open>The system calls of \<^verbatim>\<open>persistStateToDiskLocked\<close>, in order.\<close>

datatype persist_fault =
    FOpenTmp | FWriteHeader | FWriteRecord nat | FSyncTmp | FCloseTmp | FRename | FSyncDir | FOpenWal | FCloseOld

text \<open>
  Those of \<^verbatim>\<open>appendWALToDiskLocked\<close>: a failing write leaves some bytes of the record in the
  file, and the flag says whether the truncation back to the old end succeeds.
\<close>

datatype append_fault = FSeek | FWrite nat nat bool | FSync bool

definition failStorageLocked :: "RaftLog \<Rightarrow> RaftLog \<times> raft_error option" where
  "failStorageLocked l =
     (case storageErr l of
        None \<Rightarrow> (l\<lparr>storageErr := Some ErrStorageUnavailable\<rparr>, Some ErrStorageUnavailable)
      | Some e \<Rightarrow> (l, Some e))"

definition persistStateToDiskLocked ::
  "(LogEntry \<Rightarrow> bytes) \<Rightarrow> persist_fault option \<Rightarrow> LogEntry list \<Rightarrow> uint64 \<Rightarrow> uint64 \<Rightarrow> RaftLog \<Rightarrow> RaftLog \<times> raft_error option" where
  "persistStateToDiskLocked marshal fault es bi bt l =
     (if dataDir l = [] then (l, None)
      else case storageErr l of
             Some e \<Rightarrow> (l, Some e)
           | None \<Rightarrow>
               (let renamed = l\<lparr>disk := Some (wal_image marshal bi bt es)\<rparr>;
                    ok = (renamed\<lparr>walFile := True, walHasHeader := True, legacyWAL := False\<rparr>, None)
                in case fault of
                     None \<Rightarrow> ok
                   | Some (FWriteRecord i) \<Rightarrow> if i < length es then failStorageLocked l else ok
                   | Some FSyncDir \<Rightarrow> failStorageLocked renamed
                   | Some FOpenWal \<Rightarrow> failStorageLocked renamed
                   | Some FCloseOld \<Rightarrow> if walFile l then failStorageLocked (renamed\<lparr>walFile := True\<rparr>) else ok
                   | Some _ \<Rightarrow> failStorageLocked l))"

definition wal_content :: "RaftLog \<Rightarrow> bytes" where
  "wal_content l = (case disk l of None \<Rightarrow> [] | Some b \<Rightarrow> b)"

text \<open>\<^verbatim>\<open>failAppendLocked\<close>: truncate to the old end; \<open>torn\<close> is what stays when that fails.\<close>

definition failAppendLocked :: "bool \<Rightarrow> bytes \<Rightarrow> RaftLog \<Rightarrow> RaftLog \<times> raft_error option" where
  "failAppendLocked truncated torn l =
     failStorageLocked (if truncated then l else l\<lparr>disk := Some (wal_content l @ torn)\<rparr>)"

definition appendWALToDiskLocked ::
  "(LogEntry \<Rightarrow> bytes) \<Rightarrow> append_fault option \<Rightarrow> LogEntry list \<Rightarrow> RaftLog \<Rightarrow> RaftLog \<times> raft_error option" where
  "appendWALToDiskLocked marshal fault es l =
     (if dataDir l = [] \<or> es = [] then (l, None)
      else case storageErr l of
             Some e \<Rightarrow> (l, Some e)
           | None \<Rightarrow>
               if \<not> walFile l then failStorageLocked l
               else
                 (let ok = (l\<lparr>disk := Some (wal_content l @ wal_records marshal es)\<rparr>, None)
                  in case fault of
                       None \<Rightarrow> ok
                     | Some FSeek \<Rightarrow> failStorageLocked l
                     | Some (FWrite i n truncated) \<Rightarrow>
                         if i < length es
                         then failAppendLocked truncated (wal_records marshal (take i es) @ take n (writeWALRecord marshal (es ! i))) l
                         else ok
                     | Some (FSync truncated) \<Rightarrow>
                         if syncWrites l then failAppendLocked truncated (wal_records marshal es) l else ok))"

text \<open>\<^verbatim>\<open>loadFromDisk\<close>: a torn tail is also removed from the file.\<close>

definition loadFromDisk :: "(bytes \<Rightarrow> LogEntry option) \<Rightarrow> RaftLog \<Rightarrow> RaftLog \<times> raft_error option" where
  "loadFromDisk unmarshal l =
     (case disk l of
        None \<Rightarrow> (l, None)
      | Some file \<Rightarrow>
          if length file < 8 then (l\<lparr>disk := Some []\<rparr>, None)
          else
            (let magic = (take 8 file = walMagic);
                 header = (if magic then map_sum id (\<lambda>(b, rest). (b, take 28 file, rest)) (readWALHeader (drop 8 file))
                           else Inr ((0, 0), [], file));
                 l1 = (if magic then l\<lparr>walHasHeader := True, boundaryKnown := True\<rparr> else l\<lparr>legacyWAL := True\<rparr>)
             in case header of
                  Inl e \<Rightarrow> (l1, Some e)
                | Inr ((bi0, bt0), pre, rest) \<Rightarrow>
                    (let l2 = (if magic then l1\<lparr>baseIndex := bi0, baseTerm := bt0\<rparr> else l1)
                     in case readWALRecords unmarshal rest of
                          Inl e \<Rightarrow> (l2, Some e)
                        | Inr (es, kept) \<Rightarrow>
                            (let l3 = l2\<lparr>disk := Some (pre @ kept)\<rparr>
                             in if legacyWAL l3 \<and> es \<noteq> [] \<and> Index (hd es) = 0 then (l3, Some ErrCorruptLog)
                                else
                                  (let l4 = (if legacyWAL l3 \<and> es \<noteq> []
                                             then l3\<lparr>baseIndex := Index (hd es) - 1, baseTerm := 0, boundaryKnown := (Index (hd es) - 1 = 0)\<rparr>
                                             else l3)
                                   in case validateEntrySequence es (u64 (baseIndex l4 + 1)) of
                                        Some e \<Rightarrow> (l4, Some e)
                                      | None \<Rightarrow> (l4\<lparr>entries := es\<rparr>, None))))))"

definition newRaftLogWithWAL ::
  "(LogEntry \<Rightarrow> bytes) \<Rightarrow> (bytes \<Rightarrow> LogEntry option) \<Rightarrow> persist_fault option \<Rightarrow> string \<Rightarrow> bool \<Rightarrow> bytes option \<Rightarrow> raft_error + RaftLog" where
  "newRaftLogWithWAL marshal unmarshal fault dir sync file =
     (let log0 = newRaftLog\<lparr>dataDir := dir, syncWrites := sync, disk := file\<rparr>
      in if dir = [] then Inr log0
         else case loadFromDisk unmarshal log0 of
                (_, Some e) \<Rightarrow> Inl e
              | (log, None) \<Rightarrow>
                  if \<not> walHasHeader log \<and> \<not> legacyWAL log
                  then (case persistStateToDiskLocked marshal fault (entries log) (baseIndex log) (baseTerm log) log of
                          (_, Some e) \<Rightarrow> Inl e
                        | (log', None) \<Rightarrow> Inr log')
                  else if legacyWAL log \<and> baseIndex log = 0
                  then (case persistStateToDiskLocked marshal fault (entries log) 0 0 log of
                          (_, Some e) \<Rightarrow> Inl e
                        | (log', None) \<Rightarrow> Inr log')
                  else Inr (log\<lparr>walFile := True\<rparr>))"

text \<open>\<^verbatim>\<open>Close\<close> syncs and closes the file.\<close>

definition Close :: "RaftLog \<Rightarrow> RaftLog" where
  "Close l = l\<lparr>walFile := False\<rparr>"

section \<open>Reading the log\<close>

definition LastIndex :: "RaftLog \<Rightarrow> uint64" where
  "LastIndex l = (if entries l = [] then baseIndex l else Index (last (entries l)))"

definition LastTerm :: "RaftLog \<Rightarrow> uint64" where
  "LastTerm l = (if entries l = [] then baseTerm l else Term (last (entries l)))"

definition Boundary :: "RaftLog \<Rightarrow> uint64 \<times> uint64 \<times> bool" where
  "Boundary l = (baseIndex l, baseTerm l, boundaryKnown l)"

definition termAtLocked :: "uint64 \<Rightarrow> RaftLog \<Rightarrow> raft_error + uint64" where
  "termAtLocked index l =
     (if index = baseIndex l then
        (if index = 0 then Inr 0 else if \<not> boundaryKnown l then Inl ErrLogCompacted else Inr (baseTerm l))
      else if index < baseIndex l then Inl ErrLogCompacted
      else
        (let offset = index - baseIndex l - 1
         in if length (entries l) \<le> offset then Inl ErrOutOfRange else Inr (Term (entries l ! offset))))"

definition TermAt :: "uint64 \<Rightarrow> RaftLog \<Rightarrow> raft_error + uint64" where
  "TermAt index l = termAtLocked index l"

definition GetEntry :: "uint64 \<Rightarrow> RaftLog \<Rightarrow> raft_error + LogEntry" where
  "GetEntry index l =
     (if index = 0 \<and> baseIndex l = 0 then Inl ErrOutOfRange
      else if index \<le> baseIndex l then Inl ErrLogCompacted
      else
        (let offset = index - baseIndex l - 1
         in if length (entries l) \<le> offset then Inl ErrOutOfRange else Inr (entries l ! offset)))"

definition GetEntriesFrom :: "uint64 \<Rightarrow> RaftLog \<Rightarrow> raft_error + LogEntry list" where
  "GetEntriesFrom index l =
     (if index = 0 \<and> baseIndex l = 0 then Inl ErrOutOfRange
      else if index \<le> baseIndex l then Inl ErrLogCompacted
      else
        (let offset = index - baseIndex l - 1
         in if length (entries l) \<le> offset then Inr [] else Inr (drop offset (entries l))))"

definition FirstIndex :: "RaftLog \<Rightarrow> uint64" where
  "FirstIndex l = u64 (baseIndex l + 1)"

section \<open>Changing the log\<close>

definition Append :: "(LogEntry \<Rightarrow> bytes) \<Rightarrow> append_fault option \<Rightarrow> LogEntry list \<Rightarrow> RaftLog \<Rightarrow> RaftLog \<times> raft_error option" where
  "Append marshal fault es l =
     (if es = [] then (l, None)
      else case storageErr l of
             Some e \<Rightarrow> (l, Some e)
           | None \<Rightarrow>
               (case validateEntrySequence es (u64 (baseIndex l + length (entries l) + 1)) of
                  Some e \<Rightarrow> (l, Some e)
                | None \<Rightarrow>
                    (case appendWALToDiskLocked marshal fault es l of
                       (l1, Some e) \<Rightarrow> (l1, Some e)
                     | (l1, None) \<Rightarrow> (l1\<lparr>entries := entries l1 @ es\<rparr>, None))))"

definition TruncateAfter :: "(LogEntry \<Rightarrow> bytes) \<Rightarrow> persist_fault option \<Rightarrow> uint64 \<Rightarrow> RaftLog \<Rightarrow> RaftLog \<times> raft_error option" where
  "TruncateAfter marshal fault index l =
     (if index < baseIndex l then (l, Some ErrLogCompacted)
      else
        (let lastIndex = u64 (baseIndex l + length (entries l)) in
         if lastIndex \<le> index then (l, None)
         else
           (let candidate = take (index - baseIndex l) (entries l)
            in case persistStateToDiskLocked marshal fault candidate (baseIndex l) (baseTerm l) l of
                 (l1, Some e) \<Rightarrow> (l1, Some e)
               | (l1, None) \<Rightarrow> (l1\<lparr>entries := candidate\<rparr>, None))))"

definition CompactUpTo :: "(LogEntry \<Rightarrow> bytes) \<Rightarrow> persist_fault option \<Rightarrow> uint64 \<Rightarrow> RaftLog \<Rightarrow> RaftLog \<times> raft_error option" where
  "CompactUpTo marshal fault index l =
     (if index \<le> baseIndex l then (l, None)
      else
        (let lastIndex = u64 (baseIndex l + length (entries l)) in
         if lastIndex < index then (l, Some ErrOutOfRange)
         else case termAtLocked index l of
                Inl e \<Rightarrow> (l, Some e)
              | Inr term \<Rightarrow>
                  (let candidate = drop (index - baseIndex l) (entries l)
                   in case persistStateToDiskLocked marshal fault candidate index term l of
                        (l1, Some e) \<Rightarrow> (l1, Some e)
                      | (l1, None) \<Rightarrow>
                          (l1\<lparr>entries := candidate, baseIndex := index, baseTerm := term, boundaryKnown := True\<rparr>, None))))"

text \<open>The suffix \<^verbatim>\<open>RestoreSnapshotBoundary\<close> keeps when the boundary moves forward.\<close>

definition matching_suffix :: "uint64 \<Rightarrow> uint64 \<Rightarrow> RaftLog \<Rightarrow> LogEntry list" where
  "matching_suffix index term l =
     (if index \<le> u64 (baseIndex l + length (entries l)) \<and> Term (entries l ! (index - baseIndex l - 1)) = term
      then drop (index - baseIndex l) (entries l) else [])"

definition RestoreSnapshotBoundary :: "(LogEntry \<Rightarrow> bytes) \<Rightarrow> persist_fault option \<Rightarrow> uint64 \<Rightarrow> uint64 \<Rightarrow> RaftLog \<Rightarrow> RaftLog \<times> raft_error option" where
  "RestoreSnapshotBoundary marshal fault index term l =
     (if index < baseIndex l then (l, Some ErrSnapshotStale)
      else if index = baseIndex l \<and> boundaryKnown l \<and> baseTerm l \<noteq> term then (l, Some ErrSnapshotBoundaryMismatch)
      else
        (let candidate = (if index = baseIndex l then entries l else matching_suffix index term l)
         in case validateEntrySequence candidate (u64 (index + 1)) of
              Some e \<Rightarrow> (l, Some e)
            | None \<Rightarrow>
                (case persistStateToDiskLocked marshal fault candidate index term l of
                   (l1, Some e) \<Rightarrow> (l1, Some e)
                 | (l1, None) \<Rightarrow>
                     (l1\<lparr>entries := candidate, baseIndex := index, baseTerm := term, boundaryKnown := True\<rparr>, None))))"

definition persistToDisk :: "(LogEntry \<Rightarrow> bytes) \<Rightarrow> persist_fault option \<Rightarrow> RaftLog \<Rightarrow> RaftLog \<times> raft_error option" where
  "persistToDisk marshal fault l = persistStateToDiskLocked marshal fault (entries l) (baseIndex l) (baseTerm l) l"

declare Append_def [raft_defs] TruncateAfter_def [raft_defs] CompactUpTo_def [raft_defs]
  RestoreSnapshotBoundary_def [raft_defs] persistToDisk_def [raft_defs]

end
