(* ===== verification/RaftNode.thy ===== *)
theory RaftNode
  imports RaftLog "HOL-Library.AList"
begin

text \<open>
  A consensus node: its state (\<^verbatim>\<open>RaftNode\<close> in \<^verbatim>\<open>internal/raft/raft.go\<close>), the persistent term
  and vote (\<^verbatim>\<open>persistent_state.go\<close>), the cluster configuration (\<^verbatim>\<open>membership.go\<close>), and the
  helpers all handlers use. The state machine is a type parameter. Handlers are functions from
  the node to the node: the code holds \<^verbatim>\<open>r.mu\<close> throughout except while it saves the term and
  the vote, so a handler is one step. Goroutines the code starts are separate steps; values sent
  on waiter channels are collected in \<open>notified\<close>, and a full \<^verbatim>\<open>commitCh\<close> is a flag.
  The clock is an argument; \<open>savefails\<close> says whether the write of the state file fails.
\<close>

section \<open>Cluster configuration\<close>

text \<open>A \<^verbatim>\<open>map[string]string\<close> whose size is asked for: an association list without duplicates.\<close>

type_synonym peers = "(string \<times> string) list"

definition AddPeer :: "string \<Rightarrow> string \<Rightarrow> peers \<Rightarrow> peers" where
  "AddPeer nodeID addr c = AList.update nodeID addr c"

definition RemovePeer :: "string \<Rightarrow> peers \<Rightarrow> peers" where
  "RemovePeer nodeID c = AList.delete nodeID c"

definition HasPeer :: "string \<Rightarrow> peers \<Rightarrow> bool" where
  "HasPeer nodeID c = (map_of c nodeID \<noteq> None)"

definition Size :: "peers \<Rightarrow> nat" where
  "Size c = length c"

definition Majority :: "peers \<Rightarrow> nat" where
  "Majority c = Size c div 2 + 1"

text \<open>The peers a loop over the configuration visits: all but the node itself.\<close>

definition other_peers :: "string \<Rightarrow> peers \<Rightarrow> string list" where
  "other_peers self c = filter (\<lambda>p. p \<noteq> self) (map fst c)"

section \<open>Persistent term and vote\<close>

text \<open>
  The state file is kept as the value it encodes, \<open>None\<close> before the first write; it is replaced
  by a rename, so a failed write leaves it as it was.
\<close>

record PersistentState =
  ps_term :: uint64
  ps_vote :: string
  ps_dir :: string
  ps_file :: "(uint64 \<times> string) option"

definition newPersistentState :: "string \<Rightarrow> (uint64 \<times> string) option \<Rightarrow> PersistentState" where
  "newPersistentState dir file =
     (if dir = [] then \<lparr>ps_term = 0, ps_vote = [], ps_dir = dir, ps_file = file\<rparr>
      else case file of
             None \<Rightarrow> \<lparr>ps_term = 0, ps_vote = [], ps_dir = dir, ps_file = file\<rparr>
           | Some (t, v) \<Rightarrow> \<lparr>ps_term = t, ps_vote = v, ps_dir = dir, ps_file = file\<rparr>)"

definition SaveTermAndVote :: "bool \<Rightarrow> uint64 \<Rightarrow> string \<Rightarrow> PersistentState \<Rightarrow> PersistentState" where
  "SaveTermAndVote savefails term vote ps =
     (let ps1 = ps\<lparr>ps_term := term, ps_vote := vote\<rparr>
      in if ps_dir ps = [] then ps1
         else if savefails then ps1
         else ps1\<lparr>ps_file := Some (term, vote)\<rparr>)"

section \<open>The node\<close>

datatype NodeState = Follower | PreCandidate | Candidate | Leader

record Config =
  NodeID :: string
  Peers :: peers
  ElectionTimeoutMin :: int64
  ElectionTimeoutMax :: int64
  HeartbeatInterval :: int64
  MaxLogEntriesPerRPC :: int64
  SnapshotThreshold :: uint64
  SnapshotChunkSize :: int64
  MaxSnapshotSize :: uint64
  DataDir :: string
  SyncWrites :: bool
  InitialElectionDelay :: int64

definition DefaultConfig :: "string \<Rightarrow> Config" where
  "DefaultConfig nodeID =
     \<lparr>NodeID = nodeID, Peers = [], ElectionTimeoutMin = 150000000, ElectionTimeoutMax = 300000000, HeartbeatInterval = 50000000,
      MaxLogEntriesPerRPC = 100, SnapshotThreshold = 10000, SnapshotChunkSize = 262144, MaxSnapshotSize = 4 * 2 ^ 30,
      DataDir = ''./data'', SyncWrites = False, InitialElectionDelay = 0\<rparr>"

record SnapshotMeta =
  LastIncludedIndex :: uint64
  LastIncludedTerm :: uint64
  ClusterConfig :: peers

text \<open>\<open>is_data\<close> is the contents of \<^verbatim>\<open>file\<close> when there is one, of \<^verbatim>\<open>data\<close> otherwise.\<close>

record installSnapshotState =
  is_meta :: SnapshotMeta
  is_checksum :: bytes
  is_totalSize :: uint64
  is_nextOffset :: uint64
  is_file :: bool
  is_data :: bytes

text \<open>
  The calls on the peer table of the transport, in order, and the interface of the state
  machine; \<open>None\<close> is a call that panics or does not return.
\<close>

datatype transport_op = TransportAddPeer string string | TransportRemovePeer string

record 'sm StateMachine =
  sm_Apply :: "LogEntry \<Rightarrow> 'sm \<Rightarrow> ('sm \<times> raft_error option) option"
  sm_Snapshot :: "'sm \<Rightarrow> raft_error + bytes"
  sm_Restore :: "bytes \<Rightarrow> 'sm \<Rightarrow> 'sm \<times> raft_error option"

text \<open>
  The fields of the source, and at the end what the node has sent to waiters and to the
  transport and the snapshot files in its directory.
\<close>

record 'sm RaftNode =
  config :: Config
  state :: NodeState
  currentTerm :: uint64
  votedFor :: string
  rlog :: RaftLog
  persistentState :: PersistentState
  stateMachine :: 'sm
  commitIndex :: uint64
  lastApplied :: uint64
  nextIndex :: "string \<rightharpoonup> uint64"
  matchIndex :: "string \<rightharpoonup> uint64"
  clusterConfig :: peers
  pendingMembership :: bool
  snapshotMeta :: SnapshotMeta
  snapshotData :: bytes
  installSnapshot :: "installSnapshotState option"
  fatalErr :: "raft_error option"
  lastHeartbeat :: gotime
  leaderID :: string
  noopCommitted :: bool
  commitCh :: bool
  waiters :: "uint64 \<rightharpoonup> nat"
  notified :: "(nat \<times> raft_error option) list"
  transportOps :: "transport_op list"
  snapshotFile :: "bytes option"
  legacyMetaFile :: "bytes option"

text \<open>A missing key of a Go map reads as 0.\<close>

definition idx :: "(string \<rightharpoonup> uint64) \<Rightarrow> string \<Rightarrow> uint64" where
  "idx m k = (case m k of None \<Rightarrow> 0 | Some v \<Rightarrow> v)"

definition markFatalLocked :: "'sm RaftNode \<Rightarrow> 'sm RaftNode" where
  "markFatalLocked r =
     r\<lparr>fatalErr := (if fatalErr r = None then Some ErrNodeUnhealthy else fatalErr r), state := Follower, noopCommitted := False\<rparr>"

definition markStorageFailureLocked :: "raft_error \<Rightarrow> 'sm RaftNode \<Rightarrow> 'sm RaftNode" where
  "markStorageFailureLocked err r = (if err = ErrStorageUnavailable then markFatalLocked r else r)"

text \<open>
  \<^verbatim>\<open>stepDown\<close> releases the node's lock while it saves the term and the vote it has read. Its parts are
  what it does before, the save, and what it does after: every waiter is told \<^verbatim>\<open>ErrNotLeader\<close>, in the
  order \<open>order\<close> of the map iteration. \<open>stepDown\<close> is their composition when nothing comes between.
\<close>

definition stepDown_begin :: "gotime \<Rightarrow> uint64 \<Rightarrow> 'sm RaftNode \<Rightarrow> 'sm RaftNode" where
  "stepDown_begin now term r =
     (let r1 = r\<lparr>state := Follower\<rparr>;
          r2 = (if currentTerm r1 < term then r1\<lparr>currentTerm := term, votedFor := []\<rparr> else r1)
      in r2\<lparr>leaderID := [], noopCommitted := False, lastHeartbeat := now\<rparr>)"

definition save_state :: "bool \<Rightarrow> uint64 \<Rightarrow> string \<Rightarrow> 'sm RaftNode \<Rightarrow> 'sm RaftNode" where
  "save_state savefails termToSave votedForToSave r =
     r\<lparr>persistentState := SaveTermAndVote savefails termToSave votedForToSave (persistentState r)\<rparr>"

definition stepDown_end :: "uint64 list \<Rightarrow> 'sm RaftNode \<Rightarrow> 'sm RaftNode" where
  "stepDown_end order r =
     r\<lparr>notified := notified r @ List.map_filter (\<lambda>i. map_option (\<lambda>w. (w, Some ErrNotLeader)) (waiters r i)) order,
       waiters := Map.empty\<rparr>"

definition stepDown :: "bool \<Rightarrow> gotime \<Rightarrow> uint64 list \<Rightarrow> uint64 \<Rightarrow> 'sm RaftNode \<Rightarrow> 'sm RaftNode" where
  "stepDown savefails now order term r =
     (let r1 = stepDown_begin now term r in stepDown_end order (save_state savefails (currentTerm r1) (votedFor r1) r1))"

text \<open>
  \<^verbatim>\<open>advanceCommitIndex\<close>: the highest index above the commit index whose entry is of the
  current term and is on a majority. The scan goes down from the last index; an index without
  an entry is passed over and an entry of another term ends it.
\<close>

definition replica_count :: "uint64 \<Rightarrow> 'sm RaftNode \<Rightarrow> nat" where
  "replica_count n r =
     1 + length (filter (\<lambda>p. n \<le> idx (matchIndex r) p) (other_peers (NodeID (config r)) (clusterConfig r)))"

function commit_scan :: "'sm RaftNode \<Rightarrow> uint64 \<Rightarrow> 'sm RaftNode" where
  "commit_scan r n =
     (if n \<le> commitIndex r then r
      else case GetEntry n (rlog r) of
             Inl _ \<Rightarrow> commit_scan r (n - 1)
           | Inr entry \<Rightarrow>
               if Term entry \<noteq> currentTerm r then r
               else if Majority (clusterConfig r) \<le> replica_count n r then r\<lparr>commitIndex := n, commitCh := True\<rparr>
               else commit_scan r (n - 1))"
  by pat_completeness auto
termination
  by (relation "measure (\<lambda>(r, n). n)") auto

declare commit_scan.simps [simp del]

definition advanceCommitIndex :: "'sm RaftNode \<Rightarrow> 'sm RaftNode" where
  "advanceCommitIndex r = (if state r \<noteq> Leader then r else commit_scan r (LastIndex (rlog r)))"

text \<open>\<^verbatim>\<open>initLeaderState\<close>: reset the per-peer indices, append a no-op, advance the commit index.\<close>

definition reset_peers :: "string list \<Rightarrow> uint64 \<Rightarrow> 'sm RaftNode \<Rightarrow> 'sm RaftNode" where
  "reset_peers ps lastIndex r =
     r\<lparr>nextIndex := (\<lambda>p. if p \<in> set ps then Some (u64 (lastIndex + 1)) else nextIndex r p),
       matchIndex := (\<lambda>p. if p \<in> set ps then Some 0 else matchIndex r p)\<rparr>"

definition initLeaderState ::
  "(LogEntry \<Rightarrow> bytes) \<Rightarrow> append_fault option \<Rightarrow> 'sm RaftNode \<Rightarrow> 'sm RaftNode \<times> raft_error option" where
  "initLeaderState marshal fault r =
     (case fatalErr r of
        Some e \<Rightarrow> (r, Some e)
      | None \<Rightarrow>
          (let lastIndex = LastIndex (rlog r);
               r1 = reset_peers (other_peers (NodeID (config r)) (clusterConfig r)) lastIndex r;
               entry = \<lparr>Index = u64 (LastIndex (rlog r1) + 1), Term = currentTerm r1, Type = EntryNoop, Command = []\<rparr>
           in case Append marshal fault [entry] (rlog r1) of
                (l, Some e) \<Rightarrow> (r1\<lparr>rlog := l\<rparr>, Some e)
              | (l, None) \<Rightarrow> (advanceCommitIndex (r1\<lparr>rlog := l\<rparr>), None)))"

definition LeaderAddr :: "'sm RaftNode \<Rightarrow> string" where
  "LeaderAddr r =
     (if state r = Leader then []
      else if leaderID r = [] then []
      else case map_of (clusterConfig r) (leaderID r) of None \<Rightarrow> [] | Some addr \<Rightarrow> addr)"

lemma stepDown_eq:
  "stepDown savefails now order term r =
     (let r1 = r\<lparr>state := Follower\<rparr>;
          r2 = (if currentTerm r1 < term then r1\<lparr>currentTerm := term, votedFor := []\<rparr> else r1);
          r3 = r2\<lparr>leaderID := [], noopCommitted := False, lastHeartbeat := now\<rparr>;
          r4 = r3\<lparr>persistentState := SaveTermAndVote savefails (currentTerm r3) (votedFor r3) (persistentState r3)\<rparr>
      in r4\<lparr>notified := notified r4 @ List.map_filter (\<lambda>i. map_option (\<lambda>w. (w, Some ErrNotLeader)) (waiters r4 i)) order,
            waiters := Map.empty\<rparr>)"
  by (simp add: stepDown_def stepDown_begin_def stepDown_end_def save_state_def Let_def)

declare markFatalLocked_def [raft_defs] markStorageFailureLocked_def [raft_defs] stepDown_eq [raft_defs]

section \<open>Frame\<close>

lemma stepDown_simps [simp]:
  "state (stepDown sf now w t r) = Follower"
  "currentTerm (stepDown sf now w t r) = max t (currentTerm r)"
  "votedFor (stepDown sf now w t r) = (if currentTerm r < t then [] else votedFor r)"
  "rlog (stepDown sf now w t r) = rlog r"
  "config (stepDown sf now w t r) = config r"
  "clusterConfig (stepDown sf now w t r) = clusterConfig r"
  "commitIndex (stepDown sf now w t r) = commitIndex r"
  "lastApplied (stepDown sf now w t r) = lastApplied r"
  "fatalErr (stepDown sf now w t r) = fatalErr r"
  "snapshotMeta (stepDown sf now w t r) = snapshotMeta r"
  "installSnapshot (stepDown sf now w t r) = installSnapshot r"
  "stateMachine (stepDown sf now w t r) = stateMachine r"
  "snapshotFile (stepDown sf now w t r) = snapshotFile r"
  "legacyMetaFile (stepDown sf now w t r) = legacyMetaFile r"
  "snapshotData (stepDown sf now w t r) = snapshotData r"
  "nextIndex (stepDown sf now w t r) = nextIndex r"
  "matchIndex (stepDown sf now w t r) = matchIndex r"
  "leaderID (stepDown sf now w t r) = []"
  "noopCommitted (stepDown sf now w t r) = False"
  "persistentState (stepDown sf now w t r) = SaveTermAndVote sf (max t (currentTerm r)) (if currentTerm r < t then [] else votedFor r) (persistentState r)"
  by (simp_all add: stepDown_eq Let_def max_def)

lemma stepDown_begin_fields [simp]:
  "state (stepDown_begin now t r) = Follower"
  "currentTerm (stepDown_begin now t r) = max t (currentTerm r)"
  "votedFor (stepDown_begin now t r) = (if currentTerm r < t then [] else votedFor r)"
  "rlog (stepDown_begin now t r) = rlog r" "config (stepDown_begin now t r) = config r"
  "clusterConfig (stepDown_begin now t r) = clusterConfig r" "commitIndex (stepDown_begin now t r) = commitIndex r"
  "fatalErr (stepDown_begin now t r) = fatalErr r" "matchIndex (stepDown_begin now t r) = matchIndex r"
  "persistentState (stepDown_begin now t r) = persistentState r" "leaderID (stepDown_begin now t r) = []"
  by (simp_all add: stepDown_begin_def Let_def max_def)

lemma save_state_fields [simp]:
  "state (save_state sf t v r) = state r" "currentTerm (save_state sf t v r) = currentTerm r" "votedFor (save_state sf t v r) = votedFor r"
  "rlog (save_state sf t v r) = rlog r" "config (save_state sf t v r) = config r" "clusterConfig (save_state sf t v r) = clusterConfig r"
  "commitIndex (save_state sf t v r) = commitIndex r" "fatalErr (save_state sf t v r) = fatalErr r" "matchIndex (save_state sf t v r) = matchIndex r"
  "leaderID (save_state sf t v r) = leaderID r" "lastHeartbeat (save_state sf t v r) = lastHeartbeat r"
  by (simp_all add: save_state_def)

lemma commit_scan_frame: "\<exists>c s. commit_scan r n = r\<lparr>commitIndex := c, commitCh := s\<rparr>"
proof (induction r n rule: commit_scan.induct)
  case (1 r n)
  have id: "\<exists>c s. r = r\<lparr>commitIndex := c, commitCh := s\<rparr>" by (rule exI [of _ "commitIndex r"], rule exI [of _ "commitCh r"]) simp
  show ?case
    using 1 id by (subst commit_scan.simps) (auto split: sum.splits)
qed

lemma commit_scan_fields [simp]:
  "state (commit_scan r n) = state r" "currentTerm (commit_scan r n) = currentTerm r" "votedFor (commit_scan r n) = votedFor r"
  "rlog (commit_scan r n) = rlog r" "config (commit_scan r n) = config r" "clusterConfig (commit_scan r n) = clusterConfig r"
  "persistentState (commit_scan r n) = persistentState r" "matchIndex (commit_scan r n) = matchIndex r"
  "fatalErr (commit_scan r n) = fatalErr r" "lastApplied (commit_scan r n) = lastApplied r"
  using commit_scan_frame [of r n] by auto

lemma advanceCommitIndex_fields [simp]:
  "state (advanceCommitIndex r) = state r" "currentTerm (advanceCommitIndex r) = currentTerm r" "votedFor (advanceCommitIndex r) = votedFor r"
  "rlog (advanceCommitIndex r) = rlog r" "config (advanceCommitIndex r) = config r" "clusterConfig (advanceCommitIndex r) = clusterConfig r"
  "persistentState (advanceCommitIndex r) = persistentState r" "matchIndex (advanceCommitIndex r) = matchIndex r"
  "fatalErr (advanceCommitIndex r) = fatalErr r" "lastApplied (advanceCommitIndex r) = lastApplied r"
  by (simp_all add: advanceCommitIndex_def)

end
