(* ===== verification/SHA256.thy ===== *)
theory SHA256
  imports Prelude
begin

unbundle bit_operations_syntax

text \<open>
  \<^verbatim>\<open>crypto/sha256\<close>, which \<^verbatim>\<open>internal/raft/snapshot.go\<close> uses to protect snapshot files and
  transfers: padding, message schedule and compression on 32-bit words.
\<close>

text \<open>
  The constants are the first 32 fractional bits of square roots and cube roots of primes:
  \<open>root_bits k n b\<close> is the largest number below \<open>2 ^ b\<close> whose \<open>k\<close>-th power is at most \<open>n\<close>.
\<close>

fun root_bits :: "nat \<Rightarrow> nat \<Rightarrow> nat \<Rightarrow> nat \<Rightarrow> nat" where
  "root_bits k n 0 acc = acc"
| "root_bits k n (Suc b) acc = root_bits k n b (if (acc + 2 ^ b) ^ k \<le> n then acc + 2 ^ b else acc)"

definition frac_root :: "nat \<Rightarrow> nat \<Rightarrow> 32 word" where
  "frac_root k p = of_nat (root_bits k (p * 2 ^ (32 * k)) 36 0)"

definition sha_init :: "32 word list" where
  "sha_init = map (frac_root 2) [2, 3, 5, 7, 11, 13, 17, 19]"

definition sha_const :: "32 word list" where
  "sha_const = map (frac_root 3) (filter (\<lambda>p. \<forall>d \<in> set [2..<p]. \<not> d dvd p) [2..<312])"

definition rotr :: "nat \<Rightarrow> 32 word \<Rightarrow> 32 word" where
  "rotr n w = drop_bit n w OR push_bit (32 - n) w"

text \<open>Big-endian integers: the inverse is not needed.\<close>

fun put_be :: "nat \<Rightarrow> nat \<Rightarrow> bytes" where
  "put_be 0 n = []"
| "put_be (Suc k) n = put_be k (n div 256) @ [of_nat (n mod 256)]"

definition word_be :: "bytes \<Rightarrow> 32 word" where
  "word_be bs = foldl (\<lambda>w b. push_bit 8 w OR ucast b) 0 bs"

definition sha_pad :: "bytes \<Rightarrow> bytes" where
  "sha_pad msg = msg @ [0x80] @ replicate ((119 - length msg mod 64) mod 64) 0 @ put_be 8 (8 * length msg mod 2 ^ 64)"

fun chunks :: "nat \<Rightarrow> nat \<Rightarrow> 'a list \<Rightarrow> 'a list list" where
  "chunks 0 n xs = []"
| "chunks (Suc k) n xs = take n xs # chunks k n (drop n xs)"

fun sha_schedule :: "nat \<Rightarrow> 32 word list \<Rightarrow> 32 word list" where
  "sha_schedule 0 ws = ws"
| "sha_schedule (Suc k) ws =
     (let i = length ws; w2 = ws ! (i - 2); w15 = ws ! (i - 15);
          s1 = rotr 17 w2 XOR rotr 19 w2 XOR drop_bit 10 w2;
          s0 = rotr 7 w15 XOR rotr 18 w15 XOR drop_bit 3 w15
      in sha_schedule k (ws @ [s1 + ws ! (i - 7) + s0 + ws ! (i - 16)]))"

fun sha_round :: "32 word \<times> 32 word \<Rightarrow> 32 word list \<Rightarrow> 32 word list" where
  "sha_round (k, w) [a, b, c, d, e, f, g, h] =
     (let t1 = h + (rotr 6 e XOR rotr 11 e XOR rotr 25 e) + ((e AND f) XOR (NOT e AND g)) + k + w;
          t2 = (rotr 2 a XOR rotr 13 a XOR rotr 22 a) + ((a AND b) XOR (a AND c) XOR (b AND c))
      in [t1 + t2, a, b, c, d + t1, e, f, g])"
| "sha_round kw s = s"

definition sha_block :: "32 word list \<Rightarrow> bytes \<Rightarrow> 32 word list" where
  "sha_block hs block =
     (let ws = sha_schedule 48 (map word_be (chunks 16 4 block))
      in map2 (+) hs (fold sha_round (zip sha_const ws) hs))"

definition sha256 :: "bytes \<Rightarrow> bytes" where
  "sha256 msg =
     (let padded = sha_pad msg
      in concat (map (\<lambda>w. put_be 4 (unat w)) (foldl sha_block sha_init (chunks (length padded div 64) 64 padded))))"

lemma length_put_be [simp]: "length (put_be k n) = k"
  by (induction k arbitrary: n) auto

lemma length_sha_round: "length (sha_round kw s) = length s"
  by (cases "(kw, s)" rule: sha_round.cases) (auto simp: Let_def)

lemma length_fold_sha_round: "length (fold sha_round kws s) = length s"
  by (induction kws arbitrary: s) (simp_all add: length_sha_round)

lemma length_foldl_sha_block: "length (foldl sha_block hs bs) = length hs"
  by (induction bs arbitrary: hs) (simp_all add: sha_block_def Let_def length_fold_sha_round)

text \<open>A digest has 32 bytes.\<close>

lemma length_sha256 [simp]: "length (sha256 msg) = 32"
proof -
  have "length (foldl sha_block sha_init bs) = 8" for bs by (simp add: length_foldl_sha_block sha_init_def)
  moreover have "sum_list (map length (map (\<lambda>w. put_be 4 (unat w)) ws)) = 4 * length ws" for ws :: "32 word list"
    by (induction ws) simp_all
  ultimately show ?thesis by (simp add: sha256_def Let_def length_concat)
qed

end
