(* ===== verification/RaftSnapshot.thy ===== *)
theory RaftSnapshot
  imports RaftNode SHA256
begin

text \<open>
  Snapshots (\<^verbatim>\<open>internal/raft/snapshot.go\<close>): the artifact file, taking a snapshot, loading it at
  start, sending it in chunks and installing it. The JSON codec of the metadata is the pair of
  arguments \<open>mjson\<close> and \<open>ujson\<close>. A run-time panic is \<open>None\<close>.
\<close>

section \<open>The artifact\<close>

definition snapshotMagic :: bytes where
  "snapshotMagic = [75, 86, 69, 82, 83, 78, 80, 49]"

definition snapshotFormatVersion :: nat where "snapshotFormatVersion = 1"
definition defaultSnapshotChunkSize :: int64 where "defaultSnapshotChunkSize = 256 * 2 ^ 10"
definition defaultMaxSnapshotSize :: uint64 where "defaultMaxSnapshotSize = 4 * 2 ^ 30"
definition maxSnapshotMetadataSize :: nat where "maxSnapshotMetadataSize = 16 * 2 ^ 20"
definition headerSize :: nat where "headerSize = 8 + 4 + 4 + 8 + 32"
definition maxInt :: nat where "maxInt = 2 ^ 63 - 1"

definition encodeSnapshotArtifact :: "(SnapshotMeta \<Rightarrow> bytes) \<Rightarrow> SnapshotMeta \<Rightarrow> bytes \<Rightarrow> raft_error + bytes" where
  "encodeSnapshotArtifact mjson meta data =
     (let metadata = mjson meta in
      if maxSnapshotMetadataSize < length metadata then Inl ErrInvalidSnapshot
      else Inr (snapshotMagic @ put_u32 snapshotFormatVersion @ put_u32 (length metadata) @ put_u64 (length data) @
                sha256 (metadata @ data) @ metadata @ data))"

definition validateSnapshotMeta :: "SnapshotMeta \<Rightarrow> raft_error option" where
  "validateSnapshotMeta meta =
     (if LastIncludedIndex meta = 0 \<or> LastIncludedTerm meta = 0 then Some ErrInvalidSnapshot
      else if Size (ClusterConfig meta) = 0 then Some ErrInvalidSnapshot
      else None)"

text \<open>
  The sum of the lengths is a \<^verbatim>\<open>uint64\<close> and wraps; when the metadata does not end inside the
  artifact, \<^verbatim>\<open>artifact[metadataEnd:]\<close> panics.
\<close>

definition decodeSnapshotArtifact ::
  "(bytes \<Rightarrow> SnapshotMeta option) \<Rightarrow> bytes \<Rightarrow> (raft_error + SnapshotMeta \<times> bytes) option" where
  "decodeSnapshotArtifact ujson artifact =
     (if length artifact < headerSize \<or> take 8 artifact \<noteq> snapshotMagic then Some (Inl ErrInvalidSnapshot)
      else if get_le (take 4 (drop 8 artifact)) \<noteq> snapshotFormatVersion then Some (Inl ErrInvalidSnapshot)
      else
        (let metadataLength = get_le (take 4 (drop 12 artifact));
             dataLength = get_le (take 8 (drop 16 artifact))
         in if maxSnapshotMetadataSize < metadataLength then Some (Inl ErrInvalidSnapshot)
            else if u64 (headerSize + metadataLength + dataLength) \<noteq> length artifact then Some (Inl ErrInvalidSnapshot)
            else if length artifact < headerSize + metadataLength then None
            else
              (let metadata = take metadataLength (drop headerSize artifact);
                   data = drop (headerSize + metadataLength) artifact
               in if take 32 (drop 24 artifact) \<noteq> sha256 (metadata @ data) then Some (Inl ErrInvalidSnapshot)
                  else case ujson metadata of
                         None \<Rightarrow> Some (Inl ErrInvalidSnapshot)
                       | Some meta \<Rightarrow>
                           (case validateSnapshotMeta meta of
                              Some e \<Rightarrow> Some (Inl e)
                            | None \<Rightarrow> Some (Inr (meta, data))))))"

text \<open>
  \<^verbatim>\<open>atomicWrite\<close>: every failure up to the rename leaves the file as it was; only the sync of
  the directory comes after it.
\<close>

datatype write_fault = WriteFailed | DirSyncFailed

definition atomicWrite :: "write_fault option \<Rightarrow> bytes \<Rightarrow> bytes option \<Rightarrow> bytes option \<times> raft_error option" where
  "atomicWrite fault data file =
     (case fault of
        None \<Rightarrow> (Some data, None)
      | Some WriteFailed \<Rightarrow> (file, Some (OtherError ''write''))
      | Some DirSyncFailed \<Rightarrow> (Some data, Some (OtherError ''sync'')))"

definition persistSnapshot ::
  "(SnapshotMeta \<Rightarrow> bytes) \<Rightarrow> write_fault option \<Rightarrow> SnapshotMeta \<Rightarrow> bytes \<Rightarrow> 'sm RaftNode \<Rightarrow> 'sm RaftNode \<times> raft_error option" where
  "persistSnapshot mjson fault meta data r =
     (if DataDir (config r) = [] then (r, None)
      else case encodeSnapshotArtifact mjson meta data of
             Inl e \<Rightarrow> (r, Some e)
           | Inr artifact \<Rightarrow> (case atomicWrite fault artifact (snapshotFile r) of (f, err) \<Rightarrow> (r\<lparr>snapshotFile := f\<rparr>, err)))"

text \<open>
  \<^verbatim>\<open>loadSnapshotArtifact\<close>: the metadata, the data and whether they are in the old format;
  \<open>unreadable\<close> says that reading the data file fails for another reason than its absence.
\<close>

definition loadSnapshotArtifact ::
  "(bytes \<Rightarrow> SnapshotMeta option) \<Rightarrow> bool \<Rightarrow> 'sm RaftNode \<Rightarrow> (raft_error + (SnapshotMeta \<times> bytes \<times> bool) option) option" where
  "loadSnapshotArtifact ujson unreadable r =
     (if DataDir (config r) = [] then Some (Inr None)
      else if unreadable then Some (Inl (OtherError ''read''))
      else case snapshotFile r of
             None \<Rightarrow> if legacyMetaFile r \<noteq> None then Some (Inl ErrInvalidSnapshot) else Some (Inr None)
           | Some artifact \<Rightarrow>
               if 8 \<le> length artifact \<and> take 8 artifact = snapshotMagic
               then map_option (map_sum id (\<lambda>(meta, data). Some (meta, data, False))) (decodeSnapshotArtifact ujson artifact)
               else case legacyMetaFile r of
                      None \<Rightarrow> Some (Inl ErrInvalidSnapshot)
                    | Some metadata \<Rightarrow>
                        (case ujson metadata of
                           None \<Rightarrow> Some (Inl ErrInvalidSnapshot)
                         | Some meta0 \<Rightarrow>
                             (let meta = (if Size (ClusterConfig meta0) = 0 then meta0\<lparr>ClusterConfig := clusterConfig r\<rparr> else meta0)
                              in case validateSnapshotMeta meta of
                                   Some e \<Rightarrow> Some (Inl e)
                                 | None \<Rightarrow> Some (Inr (Some (meta, artifact, True))))))"

text \<open>The calls on the transport when the configuration is replaced.\<close>

definition reconcileTransportPeers :: "peers \<Rightarrow> peers \<Rightarrow> 'sm RaftNode \<Rightarrow> 'sm RaftNode" where
  "reconcileTransportPeers oldConfig newConfig r =
     (let self = NodeID (config r);
          removed = filter (\<lambda>p. p \<noteq> self \<and> map_of newConfig p = None) (map fst oldConfig);
          added = filter (\<lambda>(p, a). p \<noteq> self \<and> map_of oldConfig p \<noteq> Some a) newConfig
      in r\<lparr>transportOps := transportOps r @ map TransportRemovePeer removed @ map (\<lambda>(p, a). TransportAddPeer p a) added\<rparr>)"

text \<open>The fields a restored snapshot sets, at start and on installation.\<close>

definition adopt_snapshot :: "SnapshotMeta \<Rightarrow> bytes \<Rightarrow> 'sm RaftNode \<Rightarrow> 'sm RaftNode" where
  "adopt_snapshot meta data r =
     r\<lparr>snapshotMeta := meta, snapshotData := data, commitIndex := max (commitIndex r) (LastIncludedIndex meta),
       lastApplied := max (lastApplied r) (LastIncludedIndex meta), clusterConfig := ClusterConfig meta\<rparr>"

definition loadSnapshotFromDisk ::
  "(LogEntry \<Rightarrow> bytes) \<Rightarrow> (SnapshotMeta \<Rightarrow> bytes) \<Rightarrow> (bytes \<Rightarrow> SnapshotMeta option) \<Rightarrow> 'sm StateMachine \<Rightarrow> bool \<Rightarrow> bool \<Rightarrow>
     persist_fault option \<Rightarrow> write_fault option \<Rightarrow> 'sm RaftNode \<Rightarrow> ('sm RaftNode \<times> raft_error option) option" where
  "loadSnapshotFromDisk marshal mjson ujson sm unremovable unreadable pf wr r =
     (if DataDir (config r) \<noteq> [] \<and> unremovable then Some (r, Some (OtherError ''remove''))
      else case loadSnapshotArtifact ujson unreadable r of
             None \<Rightarrow> None
           | Some (Inl e) \<Rightarrow> Some (r, Some e)
           | Some (Inr None) \<Rightarrow>
               if 0 < baseIndex (rlog r) \<and> \<not> boundaryKnown (rlog r) then Some (r, Some ErrCorruptLog) else Some (r, None)
           | Some (Inr (Some (meta, data, legacy))) \<Rightarrow>
               (case RestoreSnapshotBoundary marshal pf (LastIncludedIndex meta) (LastIncludedTerm meta) (rlog r) of
                  (l, Some e) \<Rightarrow> Some (r\<lparr>rlog := l\<rparr>, Some e)
                | (l, None) \<Rightarrow>
                    (case sm_Restore sm data (stateMachine r) of
                       (s, Some e) \<Rightarrow> Some (r\<lparr>rlog := l, stateMachine := s\<rparr>, Some e)
                     | (s, None) \<Rightarrow>
                         (let r1 = reconcileTransportPeers (clusterConfig r) (ClusterConfig meta)
                                     (adopt_snapshot meta data (r\<lparr>rlog := l, stateMachine := s\<rparr>))
                          in if legacy then Some (persistSnapshot mjson wr meta data r1) else Some (r1, None)))))"

section \<open>Taking a snapshot\<close>

text \<open>
  One call, with the state machine's lock held from the reading of \<^verbatim>\<open>lastApplied\<close> to the copy of
  the data.
\<close>

definition takeSnapshot ::
  "(LogEntry \<Rightarrow> bytes) \<Rightarrow> (SnapshotMeta \<Rightarrow> bytes) \<Rightarrow> 'sm StateMachine \<Rightarrow> persist_fault option \<Rightarrow> write_fault option \<Rightarrow>
     'sm RaftNode \<Rightarrow> 'sm RaftNode \<times> raft_error option" where
  "takeSnapshot marshal mjson sm pf wr r =
     (case fatalErr r of
        Some e \<Rightarrow> (r, Some e)
      | None \<Rightarrow>
          if lastApplied r = 0 \<or> lastApplied r \<le> LastIncludedIndex (snapshotMeta r) then (r, None)
          else case TermAt (lastApplied r) (rlog r) of
                 Inl e \<Rightarrow> (r, Some e)
               | Inr lastIncludedTerm \<Rightarrow>
                   (case sm_Snapshot sm (stateMachine r) of
                      Inl e \<Rightarrow> (r, Some e)
                    | Inr data \<Rightarrow>
                        (let meta = \<lparr>LastIncludedIndex = lastApplied r, LastIncludedTerm = lastIncludedTerm, ClusterConfig = clusterConfig r\<rparr>
                         in case persistSnapshot mjson wr meta data r of
                              (r1, Some e) \<Rightarrow> (r1, Some e)
                            | (r1, None) \<Rightarrow>
                                (let r2 = r1\<lparr>snapshotMeta := meta, snapshotData := data\<rparr>
                                 in case CompactUpTo marshal pf (lastApplied r) (rlog r2) of
                                      (l, Some e) \<Rightarrow> (markFatalLocked (r2\<lparr>rlog := l\<rparr>), Some e)
                                    | (l, None) \<Rightarrow> (r2\<lparr>rlog := l\<rparr>, None)))))"

section \<open>Sending a snapshot\<close>

record InstallSnapshotRequest =
  in_Term :: uint64
  in_LeaderID :: string
  in_LastIncludedIndex :: uint64
  in_LastIncludedTerm :: uint64
  in_Offset :: uint64
  in_Done :: bool
  in_TotalSize :: uint64
  in_Checksum :: bytes
  in_ClusterConfig :: peers
  in_Data :: bytes

text \<open>What \<^verbatim>\<open>sendSnapshot\<close> copies under the lock.\<close>

definition sendSnapshot_start :: "'sm RaftNode \<Rightarrow> raft_error + uint64 \<times> SnapshotMeta \<times> bytes" where
  "sendSnapshot_start r =
     (if state r \<noteq> Leader then Inl ErrNotLeader
      else if LastIncludedIndex (snapshotMeta r) = 0 then Inl ErrSnapshotUnavailable
      else Inr (currentTerm r, snapshotMeta r, snapshotData r))"

definition chunk_size :: "Config \<Rightarrow> nat" where
  "chunk_size cfg = nat (if SnapshotChunkSize cfg \<le> 0 then defaultSnapshotChunkSize else SnapshotChunkSize cfg)"

text \<open>
  The chunk at an offset; the offset and the chunk size are at most \<open>2 ^ 63 - 1\<close>, so their sum
  does not wrap.
\<close>

definition chunk_request :: "Config \<Rightarrow> uint64 \<Rightarrow> SnapshotMeta \<Rightarrow> bytes \<Rightarrow> uint64 \<Rightarrow> InstallSnapshotRequest" where
  "chunk_request cfg term meta data offset =
     (let end' = min (offset + chunk_size cfg) (length data)
      in \<lparr>in_Term = term, in_LeaderID = NodeID cfg, in_LastIncludedIndex = LastIncludedIndex meta,
          in_LastIncludedTerm = LastIncludedTerm meta, in_Offset = offset, in_Done = (end' = length data),
          in_TotalSize = length data, in_Checksum = sha256 data, in_ClusterConfig = ClusterConfig meta,
          in_Data = take (end' - offset) (drop offset data)\<rparr>)"

text \<open>The requests of the loop when every answer lets it go on.\<close>

function chunk_requests :: "Config \<Rightarrow> uint64 \<Rightarrow> SnapshotMeta \<Rightarrow> bytes \<Rightarrow> uint64 \<Rightarrow> InstallSnapshotRequest list" where
  "chunk_requests cfg term meta data offset =
     (let req = chunk_request cfg term meta data offset
      in if in_Done req then [req] else req # chunk_requests cfg term meta data (offset + chunk_size cfg))"
  by pat_completeness auto
termination
proof (relation "measure (\<lambda>(cfg, term, meta, data, offset). length data - offset)")
  fix cfg tm meta dat offset x
  assume x: "x = chunk_request cfg tm meta dat offset" "\<not> in_Done x"
  have "0 < chunk_size cfg" by (simp add: chunk_size_def defaultSnapshotChunkSize_def)
  then show "((cfg, tm, meta, dat, offset + chunk_size cfg), cfg, tm, meta, dat, offset) \<in> measure (\<lambda>(cfg, term, meta, data, offset). length data - offset)"
    using x by (auto simp: chunk_request_def Let_def min_def split: if_splits)
qed simp

declare chunk_requests.simps [simp del]

text \<open>What the sender does with the answer to a chunk.\<close>

datatype send_next = SendNext uint64 | SendDone "raft_error option"

definition sendSnapshot_response ::
  "bool \<Rightarrow> gotime \<Rightarrow> uint64 list \<Rightarrow> string \<Rightarrow> InstallSnapshotRequest \<Rightarrow> uint64 \<Rightarrow> 'sm RaftNode \<Rightarrow> 'sm RaftNode \<times> send_next" where
  "sendSnapshot_response sf now order peer req respTerm r =
     (if currentTerm r < respTerm then (stepDown sf now order respTerm r, SendDone (Some ErrNotLeader))
      else if state r \<noteq> Leader \<or> currentTerm r \<noteq> in_Term req then (r, SendDone (Some ErrNotLeader))
      else if in_Done req
      then
        (let i = in_LastIncludedIndex req;
             r1 = (if idx (nextIndex r) peer < u64 (i + 1) then r\<lparr>nextIndex := (nextIndex r)(peer \<mapsto> u64 (i + 1))\<rparr> else r)
         in (if idx (matchIndex r1) peer < i then r1\<lparr>matchIndex := (matchIndex r1)(peer \<mapsto> i)\<rparr> else r1, SendDone None))
      else (r, SendNext (in_Offset req + length (in_Data req))))"

section \<open>Installing a snapshot\<close>

definition validateInstallSnapshotRequest :: "InstallSnapshotRequest \<Rightarrow> 'sm RaftNode \<Rightarrow> raft_error option" where
  "validateInstallSnapshotRequest req r =
     (if in_LastIncludedIndex req = 0 \<or> in_LastIncludedTerm req = 0 then Some ErrInvalidSnapshot
      else if length (in_Checksum req) \<noteq> 32 then Some ErrInvalidSnapshot
      else if Size (in_ClusterConfig req) = 0 then Some ErrInvalidSnapshot
      else
        (let maxSize = (if MaxSnapshotSize (config r) = 0 then defaultMaxSnapshotSize else MaxSnapshotSize (config r));
             chunkEnd = u64 (in_Offset req + length (in_Data req))
         in if maxSize < in_TotalSize req then Some ErrInvalidSnapshot
            else if chunkEnd < in_Offset req \<or> in_TotalSize req < chunkEnd then Some ErrInvalidSnapshot
            else if in_Done req \<noteq> (chunkEnd = in_TotalSize req) then Some ErrInvalidSnapshot
            else None))"

text \<open>The faults of the transfer file: opening it, reading it back, writing \<open>n\<close> bytes only, syncing.\<close>

datatype file_fault = OpenFails | ReadFails | WriteFails nat | SyncFails

definition newInstallSnapshotState ::
  "file_fault option \<Rightarrow> InstallSnapshotRequest \<Rightarrow> bytes \<Rightarrow> 'sm RaftNode \<Rightarrow> raft_error + installSnapshotState" where
  "newInstallSnapshotState ff req checksum r =
     (let s = \<lparr>is_meta = \<lparr>LastIncludedIndex = in_LastIncludedIndex req, LastIncludedTerm = in_LastIncludedTerm req,
                 ClusterConfig = in_ClusterConfig req\<rparr>,
               is_checksum = checksum, is_totalSize = in_TotalSize req, is_nextOffset = 0,
               is_file = (DataDir (config r) \<noteq> []), is_data = []\<rparr>
      in if DataDir (config r) = []
         then (if maxInt < in_TotalSize req then Inl ErrInvalidSnapshot else Inr s)
         else if ff = Some OpenFails then Inl (OtherError ''open'') else Inr s)"

text \<open>A missing key of a Go map reads as the empty string.\<close>

definition mapsEqual :: "peers \<Rightarrow> peers \<Rightarrow> bool" where
  "mapsEqual left right \<longleftrightarrow>
     length left = length right \<and>
     (\<forall>(key, value) \<in> set left. (case map_of right key of None \<Rightarrow> [] | Some v \<Rightarrow> v) = value)"

definition matches :: "InstallSnapshotRequest \<Rightarrow> bytes \<Rightarrow> installSnapshotState \<Rightarrow> bool" where
  "matches req checksum s \<longleftrightarrow>
     LastIncludedIndex (is_meta s) = in_LastIncludedIndex req \<and> LastIncludedTerm (is_meta s) = in_LastIncludedTerm req \<and>
     is_totalSize s = in_TotalSize req \<and> is_checksum s = checksum \<and> mapsEqual (ClusterConfig (is_meta s)) (in_ClusterConfig req)"

definition write_at :: "nat \<Rightarrow> bytes \<Rightarrow> bytes \<Rightarrow> bytes" where
  "write_at offset new old = take offset old @ new @ drop (offset + length new) old"

definition appendChunk ::
  "file_fault option \<Rightarrow> uint64 \<Rightarrow> bytes \<Rightarrow> installSnapshotState \<Rightarrow> installSnapshotState \<times> raft_error option" where
  "appendChunk ff offset data s =
     (let chunkEnd = u64 (offset + length data) in
      if is_nextOffset s < offset \<or> (is_nextOffset s < chunkEnd \<and> offset < is_nextOffset s) then (s, Some ErrSnapshotOffset)
      else if offset < is_nextOffset s
      then (if is_file s \<and> ff = Some ReadFails then (s, Some (OtherError ''read''))
            else if take (length data) (drop offset (is_data s)) \<noteq> data then (s, Some ErrSnapshotChunkMismatch)
            else (s, None))
      else if is_file s
      then (case ff of
              Some (WriteFails n) \<Rightarrow> (s\<lparr>is_data := write_at offset (take n data) (is_data s)\<rparr>, Some (OtherError ''write''))
            | _ \<Rightarrow> (s\<lparr>is_data := write_at offset data (is_data s), is_nextOffset := chunkEnd\<rparr>, None))
      else (s\<lparr>is_data := is_data s @ data, is_nextOffset := chunkEnd\<rparr>, None))"

definition bytes_of :: "file_fault option \<Rightarrow> installSnapshotState \<Rightarrow> raft_error + bytes" where
  "bytes_of ff s =
     (if maxInt < is_totalSize s then Inl ErrInvalidSnapshot
      else if \<not> is_file s then Inr (is_data s)
      else if ff = Some SyncFails then Inl (OtherError ''sync'')
      else if ff = Some ReadFails then Inl (OtherError ''read'')
      else Inr (take (is_totalSize s) (is_data s) @ replicate (is_totalSize s - length (is_data s)) 0))"

definition discardInstallSnapshotLocked :: "'sm RaftNode \<Rightarrow> 'sm RaftNode" where
  "discardInstallSnapshotLocked r = r\<lparr>installSnapshot := None\<rparr>"

definition finalizeInstalledSnapshot ::
  "(LogEntry \<Rightarrow> bytes) \<Rightarrow> (SnapshotMeta \<Rightarrow> bytes) \<Rightarrow> 'sm StateMachine \<Rightarrow> persist_fault option \<Rightarrow> write_fault option \<Rightarrow>
     SnapshotMeta \<Rightarrow> bytes \<Rightarrow> 'sm RaftNode \<Rightarrow> 'sm RaftNode \<times> raft_error option" where
  "finalizeInstalledSnapshot marshal mjson sm pf wr meta data r =
     (case persistSnapshot mjson wr meta data r of
        (r1, Some e) \<Rightarrow> (r1, Some e)
      | (r1, None) \<Rightarrow>
          (case RestoreSnapshotBoundary marshal pf (LastIncludedIndex meta) (LastIncludedTerm meta) (rlog r1) of
             (l, Some e) \<Rightarrow> (markFatalLocked (r1\<lparr>rlog := l\<rparr>), Some e)
           | (l, None) \<Rightarrow>
               (case sm_Restore sm data (stateMachine r1) of
                  (s, Some e) \<Rightarrow> (markFatalLocked (r1\<lparr>rlog := l, stateMachine := s\<rparr>), Some e)
                | (s, None) \<Rightarrow>
                    (let r2 = adopt_snapshot meta data (r1\<lparr>rlog := l, stateMachine := s\<rparr>);
                         r3 = (if lastApplied r2 < commitIndex r2 then r2\<lparr>commitCh := True\<rparr> else r2)
                     in (reconcileTransportPeers (clusterConfig r1) (ClusterConfig meta) r3, None)))))"

text \<open>The transfer a chunk belongs to: the running one, or a new one when the chunk is the first.\<close>

definition open_transfer ::
  "file_fault option \<Rightarrow> InstallSnapshotRequest \<Rightarrow> 'sm RaftNode \<Rightarrow> 'sm RaftNode \<times> (raft_error + installSnapshotState)" where
  "open_transfer ff req r =
     (if (case installSnapshot r of None \<Rightarrow> True | Some s \<Rightarrow> \<not> matches req (in_Checksum req) s)
      then
        (if in_Offset req \<noteq> 0 then (r, Inl ErrSnapshotOffset)
         else
           (let r1 = discardInstallSnapshotLocked r
            in case newInstallSnapshotState ff req (in_Checksum req) r1 of
                 Inl e \<Rightarrow> (r1, Inl e)
               | Inr s \<Rightarrow> (r1\<lparr>installSnapshot := Some s\<rparr>, Inr s)))
      else (r, Inr (the (installSnapshot r))))"

text \<open>The last chunk: compare the checksum and replace the state.\<close>

definition finish_transfer ::
  "(LogEntry \<Rightarrow> bytes) \<Rightarrow> (SnapshotMeta \<Rightarrow> bytes) \<Rightarrow> 'sm StateMachine \<Rightarrow> persist_fault option \<Rightarrow> write_fault option \<Rightarrow> file_fault option \<Rightarrow>
     installSnapshotState \<Rightarrow> 'sm RaftNode \<Rightarrow> 'sm RaftNode \<times> uint64 \<times> raft_error option" where
  "finish_transfer marshal mjson sm pf wr ff s r =
     (if is_nextOffset s \<noteq> is_totalSize s then (r, currentTerm r, Some ErrSnapshotOffset)
      else case bytes_of ff s of
             Inl e \<Rightarrow> (r, currentTerm r, Some e)
           | Inr data \<Rightarrow>
               if sha256 data \<noteq> is_checksum s then (discardInstallSnapshotLocked r, currentTerm r, Some ErrSnapshotChecksum)
               else
                 (case finalizeInstalledSnapshot marshal mjson sm pf wr (is_meta s) data r of
                    (r1, Some e) \<Rightarrow> (r1, currentTerm r1, Some e)
                  | (r1, None) \<Rightarrow> (discardInstallSnapshotLocked r1, currentTerm r1, None)))"

text \<open>The handler after the checks: receive the chunk and finish with the last one.\<close>

definition receive_chunk ::
  "(LogEntry \<Rightarrow> bytes) \<Rightarrow> (SnapshotMeta \<Rightarrow> bytes) \<Rightarrow> 'sm StateMachine \<Rightarrow> persist_fault option \<Rightarrow> write_fault option \<Rightarrow> file_fault option \<Rightarrow>
     InstallSnapshotRequest \<Rightarrow> 'sm RaftNode \<Rightarrow> 'sm RaftNode \<times> uint64 \<times> raft_error option" where
  "receive_chunk marshal mjson sm pf wr ff req r =
     (case open_transfer ff req r of
        (r1, Inl e) \<Rightarrow> (r1, currentTerm r1, Some e)
      | (r1, Inr s) \<Rightarrow>
          (case appendChunk ff (in_Offset req) (in_Data req) s of
             (s1, Some e) \<Rightarrow> (r1\<lparr>installSnapshot := Some s1\<rparr>, currentTerm r1, Some e)
           | (s1, None) \<Rightarrow>
               (let r2 = r1\<lparr>installSnapshot := Some s1\<rparr>
                in if \<not> in_Done req then (r2, currentTerm r2, None)
                   else finish_transfer marshal mjson sm pf wr ff s1 r2)))"

definition handleInstallSnapshot ::
  "(LogEntry \<Rightarrow> bytes) \<Rightarrow> (SnapshotMeta \<Rightarrow> bytes) \<Rightarrow> 'sm StateMachine \<Rightarrow> persist_fault option \<Rightarrow> write_fault option \<Rightarrow> file_fault option \<Rightarrow>
     bool \<Rightarrow> gotime \<Rightarrow> uint64 list \<Rightarrow> InstallSnapshotRequest option \<Rightarrow> 'sm RaftNode \<Rightarrow> 'sm RaftNode \<times> uint64 \<times> raft_error option" where
  "handleInstallSnapshot marshal mjson sm pf wr ff sf now order reqp r =
     (case reqp of
        None \<Rightarrow> (r, currentTerm r, Some ErrInvalidSnapshot)
      | Some req \<Rightarrow>
          if fatalErr r \<noteq> None then (r, currentTerm r, fatalErr r)
          else if in_Term req < currentTerm r then (r, currentTerm r, None)
          else
            (let r1 = (if currentTerm r < in_Term req \<or> state r \<noteq> Follower then stepDown sf now order (in_Term req) r else r);
                 r2 = r1\<lparr>leaderID := in_LeaderID req, lastHeartbeat := now\<rparr>;
                 term = currentTerm r2
             in if in_LastIncludedIndex req < LastIncludedIndex (snapshotMeta r2) \<or> in_LastIncludedIndex req \<le> commitIndex r2
                then (r2, term, None)
                else if in_LastIncludedIndex req = LastIncludedIndex (snapshotMeta r2)
                then (r2, term, if in_LastIncludedTerm req \<noteq> LastIncludedTerm (snapshotMeta r2) then Some ErrSnapshotBoundaryMismatch else None)
                else case validateInstallSnapshotRequest req r2 of
                       Some e \<Rightarrow> (r2, term, Some e)
                     | None \<Rightarrow>
                         if in_Term req < currentTerm r2 then (r2, currentTerm r2, None)
                         else if in_LastIncludedIndex req \<le> commitIndex r2 then (r2, currentTerm r2, None)
                         else receive_chunk marshal mjson sm pf wr ff req r2))"

text \<open>\<^verbatim>\<open>closeInstallSnapshot\<close>, called when the node stops.\<close>

definition closeInstallSnapshot :: "'sm RaftNode \<Rightarrow> 'sm RaftNode" where
  "closeInstallSnapshot r = discardInstallSnapshotLocked r"

end
