(* ===== verification/Membership.thy ===== *)
theory Membership
  imports RaftNode
begin

text \<open>
  Membership changes (\<^verbatim>\<open>internal/raft/membership.go\<close>): one server is added or removed by an
  entry of the log, and the configuration changes when the entry is applied. The JSON codec of
  a change is the pair of arguments \<open>mjson\<close> and \<open>ujson\<close>.
\<close>

type_synonym ChangeType = int

definition AddServer :: ChangeType where "AddServer = 0"
definition RemoveServer :: ChangeType where "RemoveServer = 1"

record MembershipChange =
  mc_Type :: ChangeType
  mc_NodeID :: string
  mc_Address :: string

text \<open>
  \<^verbatim>\<open>ProposeMembershipChange\<close> up to the replication goroutines, and its end, which looks at the
  commit index once more.
\<close>

definition ProposeMembershipChange ::
  "(LogEntry \<Rightarrow> bytes) \<Rightarrow> (MembershipChange \<Rightarrow> bytes) \<Rightarrow> append_fault option \<Rightarrow> MembershipChange \<Rightarrow> 'sm RaftNode \<Rightarrow>
     'sm RaftNode \<times> raft_error option" where
  "ProposeMembershipChange marshal mjson fault change r =
     (if state r \<noteq> Leader then (r, Some ErrNotLeader)
      else if pendingMembership r then (r, Some ErrMembershipChangePending)
      else
        (let entry = \<lparr>Index = u64 (LastIndex (rlog r) + 1), Term = currentTerm r, Type = EntryMembership, Command = mjson change\<rparr>
         in case Append marshal fault [entry] (rlog r) of
              (l, Some e) \<Rightarrow> (markStorageFailureLocked e (r\<lparr>rlog := l\<rparr>), Some e)
            | (l, None) \<Rightarrow> (r\<lparr>rlog := l, pendingMembership := True\<rparr>, None)))"

definition ProposeMembershipChange_finish :: "'sm RaftNode \<Rightarrow> 'sm RaftNode" where
  "ProposeMembershipChange_finish r = advanceCommitIndex r"

definition applyMembership ::
  "(bytes \<Rightarrow> MembershipChange option) \<Rightarrow> bool \<Rightarrow> gotime \<Rightarrow> uint64 list \<Rightarrow> LogEntry \<Rightarrow> 'sm RaftNode \<Rightarrow> 'sm RaftNode \<times> raft_error option" where
  "applyMembership ujson sf now order entry r =
     (case ujson (Command entry) of
        None \<Rightarrow> (r, Some (OtherError ''json''))
      | Some change \<Rightarrow>
          (let p = mc_NodeID change;
               (newConfig, r1) =
                 (if mc_Type change = AddServer
                  then (AddPeer p (mc_Address change) (clusterConfig r),
                        r\<lparr>nextIndex := (nextIndex r)(p \<mapsto> u64 (LastIndex (rlog r) + 1)), matchIndex := (matchIndex r)(p \<mapsto> 0),
                          transportOps := transportOps r @ [TransportAddPeer p (mc_Address change)]\<rparr>)
                  else if mc_Type change = RemoveServer
                  then (RemovePeer p (clusterConfig r),
                        let r0 = r\<lparr>nextIndex := (nextIndex r)(p := None), matchIndex := (matchIndex r)(p := None),
                                   transportOps := transportOps r @ [TransportRemovePeer p]\<rparr>
                        in if p = NodeID (config r) then stepDown sf now order (currentTerm r0) r0 else r0)
                  else (clusterConfig r, r))
           in (r1\<lparr>clusterConfig := newConfig, pendingMembership := False\<rparr>, None)))"

end
