(* ===== verification/RaftLoop.thy ===== *)
theory RaftLoop
  imports RaftSnapshot Membership
begin

text \<open>
  The loops of a node (\<^verbatim>\<open>internal/raft/raft.go\<close>): proposing commands in batches, applying
  committed entries to the state machine, starting and stopping a node.
\<close>

section \<open>Proposing\<close>

text \<open>
  \<^verbatim>\<open>Propose\<close> up to its wait for the answer: \<open>queued\<close> is the number of requests in
  \<^verbatim>\<open>proposeCh\<close>, whose capacity is 1000.
\<close>

definition Propose :: "nat \<Rightarrow> 'sm RaftNode \<Rightarrow> raft_error option" where
  "Propose queued r =
     (case fatalErr r of
        Some e \<Rightarrow> Some e
      | None \<Rightarrow> if state r \<noteq> Leader then Some ErrNotLeader else if 1000 \<le> queued then Some ErrProposeChannelFull else None)"

text \<open>A request of the batch: the command and the channel on which its caller waits.\<close>

type_synonym proposeRequest = "bytes \<times> nat"

definition answer_all :: "raft_error option \<Rightarrow> proposeRequest list \<Rightarrow> 'sm RaftNode \<Rightarrow> 'sm RaftNode" where
  "answer_all err batch r = r\<lparr>notified := notified r @ map (\<lambda>(_, ch). (ch, err)) batch\<rparr>"

text \<open>
  \<^verbatim>\<open>flush\<close> in three parts, because the lock is released while the log is written: the entries
  to append, or the node with every request refused; the append; the rest.
\<close>

definition flush_entries :: "proposeRequest list \<Rightarrow> 'sm RaftNode \<Rightarrow> LogEntry list" where
  "flush_entries batch r =
     map (\<lambda>(i, cmd, _). \<lparr>Index = u64 (LastIndex (rlog r) + (i + 1)), Term = currentTerm r, Type = EntryKV, Command = cmd\<rparr>)
       (enumerate 0 batch)"

definition flush_finish ::
  "LogEntry list \<Rightarrow> proposeRequest list \<Rightarrow> raft_error option \<Rightarrow> 'sm RaftNode \<Rightarrow> 'sm RaftNode" where
  "flush_finish es batch err r =
     (if state r \<noteq> Leader then answer_all (Some ErrNotLeader) batch r
      else case err of
             Some e \<Rightarrow> answer_all (Some e) batch (markStorageFailureLocked e r)
           | None \<Rightarrow>
               (let r1 = r\<lparr>waiters := waiters r ++ map_of (rev (map2 (\<lambda>e (_, ch). (Index e, ch)) es batch))\<rparr>;
                    ps = other_peers (NodeID (config r)) (clusterConfig r);
                    r2 = r1\<lparr>nextIndex := (\<lambda>p. if p \<in> set ps \<and> idx (nextIndex r1) p = 0 then Some (Index (hd es)) else nextIndex r1 p)\<rparr>
                in advanceCommitIndex r2))"

definition flush ::
  "(LogEntry \<Rightarrow> bytes) \<Rightarrow> append_fault option \<Rightarrow> proposeRequest list \<Rightarrow> 'sm RaftNode \<Rightarrow> 'sm RaftNode" where
  "flush marshal fault batch r =
     (if batch = [] then r
      else if state r \<noteq> Leader then answer_all (Some ErrNotLeader) batch r
      else
        (let es = flush_entries batch r
         in case Append marshal fault es (rlog r) of (l, err) \<Rightarrow> flush_finish es batch err (r\<lparr>rlog := l\<rparr>)))"

section \<open>Applying\<close>

text \<open>
  One round of the inner loop of \<^verbatim>\<open>applyEntriesLoop\<close>. When the entry cannot be read, the code
  unlocks \<^verbatim>\<open>r.mu\<close> twice, which stops the program: \<open>None\<close>. The flag of the result says that a
  snapshot is due. \<^verbatim>\<open>r.lastApplied + 1\<close> is at most the commit index and does not wrap.
\<close>

definition apply_answer :: "LogEntry \<Rightarrow> raft_error option \<Rightarrow> 'sm RaftNode \<Rightarrow> 'sm RaftNode" where
  "apply_answer entry applyErr r =
     (case waiters r (Index entry) of
        None \<Rightarrow> r
      | Some ch \<Rightarrow> r\<lparr>notified := notified r @ [(ch, applyErr)], waiters := (waiters r)(Index entry := None)\<rparr>)"

text \<open>The part after the entry is read, for which the code takes the locks anew.\<close>

definition apply_rest ::
  "(bytes \<Rightarrow> MembershipChange option) \<Rightarrow> bool \<Rightarrow> gotime \<Rightarrow> uint64 list \<Rightarrow> 'sm StateMachine \<Rightarrow> uint64 \<Rightarrow> LogEntry \<Rightarrow> 'sm RaftNode \<Rightarrow>
     ('sm RaftNode \<times> bool) option" where
  "apply_rest ujson sf now order sm nextToApply entry r =
     (case (if Type entry = EntryMembership then Some (applyMembership ujson sf now order entry r)
            else map_option (\<lambda>(s, e). (r\<lparr>stateMachine := s\<rparr>, e)) (sm_Apply sm entry (stateMachine r))) of
        None \<Rightarrow> None
      | Some (r1, applyErr) \<Rightarrow>
          (let r2 = r1\<lparr>lastApplied := nextToApply\<rparr>;
               r3 = (if Type entry = EntryNoop \<and> state r2 = Leader \<and> Term entry = currentTerm r2 then r2\<lparr>noopCommitted := True\<rparr> else r2);
               r4 = apply_answer entry applyErr r3
           in Some (r4, 0 < SnapshotThreshold (config r4) \<and> lastApplied r4 mod SnapshotThreshold (config r4) = 0)))"

definition apply_one ::
  "(bytes \<Rightarrow> MembershipChange option) \<Rightarrow> bool \<Rightarrow> gotime \<Rightarrow> uint64 list \<Rightarrow> 'sm StateMachine \<Rightarrow> 'sm RaftNode \<Rightarrow> ('sm RaftNode \<times> bool) option" where
  "apply_one ujson sf now order sm r =
     (case GetEntry (lastApplied r + 1) (rlog r) of
        Inl _ \<Rightarrow> None
      | Inr entry \<Rightarrow> apply_rest ujson sf now order sm (lastApplied r + 1) entry r)"

lemma apply_one_indices:
  "apply_one ujson sf now order sm r = Some (r', due) \<Longrightarrow> lastApplied r' = lastApplied r + 1 \<and> commitIndex r' = commitIndex r"
  by (auto simp: apply_one_def apply_rest_def applyMembership_def apply_answer_def Let_def split: option.splits sum.splits if_splits prod.splits)

text \<open>
  The loop on one signal of \<^verbatim>\<open>commitCh\<close>; \<open>sms i\<close> is the state machine as it behaves when entry
  \<open>i\<close> is applied, since its clock and its random draws differ from call to call.
\<close>

function apply_entries ::
  "(bytes \<Rightarrow> MembershipChange option) \<Rightarrow> bool \<Rightarrow> gotime \<Rightarrow> uint64 list \<Rightarrow> (uint64 \<Rightarrow> 'sm StateMachine) \<Rightarrow> 'sm RaftNode \<Rightarrow> 'sm RaftNode option" where
  "apply_entries ujson sf now order sms r =
     (if commitIndex r \<le> lastApplied r then Some r
      else case apply_one ujson sf now order (sms (lastApplied r + 1)) r of
             None \<Rightarrow> None
           | Some (r1, _) \<Rightarrow> apply_entries ujson sf now order sms r1)"
  by pat_completeness auto
termination
  by (relation "measure (\<lambda>(u, sf, n, o', sms, r). commitIndex r - lastApplied r)") (auto dest!: apply_one_indices)

declare apply_entries.simps [simp del]

definition applyEntriesLoop ::
  "(bytes \<Rightarrow> MembershipChange option) \<Rightarrow> bool \<Rightarrow> gotime \<Rightarrow> uint64 list \<Rightarrow> (uint64 \<Rightarrow> 'sm StateMachine) \<Rightarrow> 'sm RaftNode \<Rightarrow> 'sm RaftNode option" where
  "applyEntriesLoop ujson sf now order sms r =
     (if fatalErr r \<noteq> None then Some (r\<lparr>commitCh := False\<rparr>)
      else apply_entries ujson sf now order sms (r\<lparr>commitCh := False\<rparr>))"

section \<open>Starting and stopping\<close>

text \<open>The files of a node's directory, with the state file as the value it encodes.\<close>

record node_files =
  nf_state :: "(uint64 \<times> string) option"
  nf_wal :: "bytes option"
  nf_snapshot :: "bytes option"
  nf_meta :: "bytes option"

definition files_of :: "'sm RaftNode \<Rightarrow> node_files" where
  "files_of r = \<lparr>nf_state = ps_file (persistentState r), nf_wal = disk (rlog r), nf_snapshot = snapshotFile r, nf_meta = legacyMetaFile r\<rparr>"

text \<open>The node before its snapshot is loaded.\<close>

definition new_node :: "gotime \<Rightarrow> Config \<Rightarrow> PersistentState \<Rightarrow> RaftLog \<Rightarrow> 'sm \<Rightarrow> node_files \<Rightarrow> 'sm RaftNode" where
  "new_node now cfg ps raftLog s0 files =
     \<lparr>config = cfg, state = Follower, currentTerm = ps_term ps, votedFor = ps_vote ps, rlog = raftLog,
      persistentState = ps, stateMachine = s0, commitIndex = 0, lastApplied = 0, nextIndex = Map.empty,
      matchIndex = Map.empty, clusterConfig = AList.update (NodeID cfg) [] (Peers cfg), pendingMembership = False,
      snapshotMeta = \<lparr>LastIncludedIndex = 0, LastIncludedTerm = 0, ClusterConfig = []\<rparr>, snapshotData = [],
      installSnapshot = None, fatalErr = None, lastHeartbeat = now + InitialElectionDelay cfg, leaderID = [],
      noopCommitted = False, commitCh = False, waiters = Map.empty, notified = [], transportOps = [],
      snapshotFile = nf_snapshot files, legacyMetaFile = nf_meta files\<rparr>"

definition NewRaftNode ::
  "(LogEntry \<Rightarrow> bytes) \<Rightarrow> (bytes \<Rightarrow> LogEntry option) \<Rightarrow> (SnapshotMeta \<Rightarrow> bytes) \<Rightarrow> (bytes \<Rightarrow> SnapshotMeta option) \<Rightarrow> gotime \<Rightarrow>
     Config \<Rightarrow> 'sm StateMachine \<Rightarrow> 'sm \<Rightarrow> node_files \<Rightarrow> (raft_error + 'sm RaftNode) option" where
  "NewRaftNode marshal unmarshal mjson ujson now cfg sm s0 files =
     (let ps = newPersistentState (DataDir cfg) (nf_state files)
      in case newRaftLogWithWAL marshal unmarshal None (DataDir cfg) (SyncWrites cfg) (nf_wal files) of
           Inl e \<Rightarrow> Some (Inl e)
         | Inr raftLog \<Rightarrow>
             (case loadSnapshotFromDisk marshal mjson ujson sm False False None None (new_node now cfg ps raftLog s0 files) of
                None \<Rightarrow> None
              | Some (_, Some e) \<Rightarrow> Some (Inl e)
              | Some (r1, None) \<Rightarrow> Some (Inr r1)))"

definition Stop :: "'sm RaftNode \<Rightarrow> 'sm RaftNode" where
  "Stop r = (let r1 = closeInstallSnapshot r in r1\<lparr>rlog := Close (rlog r1)\<rparr>)"

definition resetHeartbeat :: "gotime \<Rightarrow> 'sm RaftNode \<Rightarrow> 'sm RaftNode" where
  "resetHeartbeat now r = r\<lparr>lastHeartbeat := now\<rparr>"

end
