(* ===== verification/RaftLogProps.thy ===== *)
theory RaftLogProps
  imports RaftLog
begin

text \<open>
  The log's invariant (indices without gaps after the boundary) and its agreement with the
  file: while no system call has failed, what a restart would read back is what is in memory;
  a failure leaves memory as it was and stops all further changes.
\<close>

section \<open>Contiguous indices\<close>

definition contiguous :: "uint64 \<Rightarrow> LogEntry list \<Rightarrow> bool" where
  "contiguous b es \<longleftrightarrow> (\<forall>i < length es. Index (es ! i) = b + 1 + i)"

lemma contiguous_Nil [simp]: "contiguous b []"
  by (simp add: contiguous_def)

lemma contiguous_Cons: "contiguous b (e # es) \<longleftrightarrow> Index e = b + 1 \<and> contiguous (b + 1) es"
  by (auto simp: contiguous_def nth_Cons split: nat.splits)

lemma contiguous_append: "contiguous b (xs @ ys) \<longleftrightarrow> contiguous b xs \<and> contiguous (b + length xs) ys"
  by (induction xs arbitrary: b) (auto simp: contiguous_Cons)

lemma contiguous_take: "contiguous b es \<Longrightarrow> contiguous b (take k es)"
  by (simp add: contiguous_def)

lemma contiguous_drop: "contiguous b es \<Longrightarrow> k \<le> length es \<Longrightarrow> contiguous (b + k) (drop k es)"
  by (simp add: contiguous_def add.assoc)

lemma validate_contiguous:
  "b + length es < 2 ^ 64 \<Longrightarrow> validateEntrySequence es (u64 (b + 1)) = None \<longleftrightarrow> contiguous b es"
proof (induction es arbitrary: b)
  case (Cons e es)
  have "u64 (b + 1) = b + 1" using Cons.prems by simp
  then show ?case using Cons.IH [of "b + 1"] Cons.prems by (auto simp: contiguous_Cons)
qed simp

definition log_wf :: "RaftLog \<Rightarrow> bool" where
  "log_wf l \<longleftrightarrow>
     contiguous (baseIndex l) (entries l) \<and> baseIndex l + length (entries l) < 2 ^ 64 \<and> baseTerm l < 2 ^ 64 \<and>
     (baseIndex l = 0 \<longrightarrow> baseTerm l = 0 \<and> boundaryKnown l)"

lemma log_wf_newRaftLog: "log_wf newRaftLog"
  by (simp add: log_wf_def newRaftLog_def)

lemma LastIndex_eq: "log_wf l \<Longrightarrow> LastIndex l = baseIndex l + length (entries l)"
  by (cases "entries l" rule: rev_cases) (simp_all add: LastIndex_def log_wf_def contiguous_append contiguous_Cons)

lemma GetEntry_eq:
  assumes "log_wf l"
  shows "GetEntry i l = Inr e \<longleftrightarrow> e \<in> set (entries l) \<and> Index e = i"
proof -
  let ?es = "entries l" and ?b = "baseIndex l"
  have c: "\<And>j. j < length ?es \<Longrightarrow> Index (?es ! j) = ?b + 1 + j" using assms by (simp add: log_wf_def contiguous_def)
  show ?thesis
  proof
    assume "GetEntry i l = Inr e"
    then have "?b < i" "i - ?b - 1 < length ?es" "e = ?es ! (i - ?b - 1)" by (auto simp: GetEntry_def Let_def not_le split: if_splits)
    then show "e \<in> set ?es \<and> Index e = i" using c by auto
  next
    assume "e \<in> set ?es \<and> Index e = i"
    then obtain j where "j < length ?es" "?es ! j = e" "i = ?b + 1 + j" using c by (metis in_set_conv_nth)
    then show "GetEntry i l = Inr e" by (simp add: GetEntry_def)
  qed
qed

lemma TermAt_entry:
  "log_wf l \<Longrightarrow> j < length (entries l) \<Longrightarrow> termAtLocked (baseIndex l + 1 + j) l = Inr (Term (entries l ! j))"
  by (simp add: termAtLocked_def)

section \<open>Restart\<close>

type_synonym log_view = "uint64 \<times> uint64 \<times> LogEntry list"

definition log_view :: "RaftLog \<Rightarrow> log_view" where
  "log_view l = (baseIndex l, baseTerm l, entries l)"

text \<open>What a restart reads from the file.\<close>

definition recovered :: "(bytes \<Rightarrow> LogEntry option) \<Rightarrow> RaftLog \<Rightarrow> log_view option" where
  "recovered unmarshal l =
     (case loadFromDisk unmarshal (newRaftLog\<lparr>dataDir := dataDir l, disk := disk l\<rparr>) of
        (l', None) \<Rightarrow> Some (log_view l')
      | (_, Some _) \<Rightarrow> None)"

definition view_wf :: "log_view \<Rightarrow> bool" where
  "view_wf v \<longleftrightarrow> (case v of (bi, bt, es) \<Rightarrow>
     contiguous bi es \<and> bi + length es < 2 ^ 64 \<and> bt < 2 ^ 64 \<and> (bi = 0 \<longrightarrow> bt = 0))"

lemma log_wf_view: "log_wf l \<Longrightarrow> view_wf (log_view l)"
  by (simp add: log_wf_def view_wf_def log_view_def)

lemma recovered_header:
  assumes "view_wf (bi, bt, es)" "disk l = Some (writeWALHeader bi bt @ rest)"
    and "readWALRecords unmarshal rest = Inr (es', kept)" "contiguous bi es'" "bi + length es' < 2 ^ 64"
  shows "recovered unmarshal l = Some (bi, bt, es')"
proof -
  have h: "take 8 (writeWALHeader bi bt @ rest) = walMagic" "length (writeWALHeader bi bt) = 28"
    by (simp_all add: writeWALHeader_def walMagic_def Let_def)
  have "readWALHeader (drop 8 (writeWALHeader bi bt @ rest)) = Inr ((bi, bt), rest)"
    using assms(1) by (intro read_header) (auto simp: view_wf_def)
  moreover have "validateEntrySequence es' (u64 (bi + 1)) = None"
    using validate_contiguous [OF assms(5)] assms(4) by simp
  ultimately show ?thesis
    using assms(2,3) h
    by (simp add: recovered_def loadFromDisk_def Let_def log_view_def newRaftLog_def del: drop_append take_append)
qed

lemma recovered_image:
  assumes "view_wf (bi, bt, es)" "disk l = Some (wal_image marshal bi bt es)"
    and "\<And>e. e \<in> set es \<Longrightarrow> codec_ok marshal unmarshal e"
  shows "recovered unmarshal l = Some (bi, bt, es)"
proof -
  have "readWALRecords unmarshal (wal_records marshal es) = Inr (es, wal_records marshal es)"
    using read_records [OF assms(3), of es "[]" "[]" "[]"] by simp
  then show ?thesis
    using recovered_header [OF assms(1)] assms(1,2) by (simp add: wal_image_def view_wf_def)
qed

text \<open>A file cut inside records appended after \<open>es\<close> still gives all of \<open>es\<close>.\<close>

lemma recovered_cut:
  assumes "view_wf (bi, bt, es @ new)" "disk l = Some (wal_image marshal bi bt es @ take t (wal_records marshal new))"
    and codec: "\<And>e. e \<in> set (es @ new) \<Longrightarrow> codec_ok marshal unmarshal e"
  shows "\<exists>k. recovered unmarshal l = Some (bi, bt, es @ take k new)"
proof -
  obtain k where k: "readWALRecords unmarshal (take t (wal_records marshal new)) = Inr (take k new, wal_records marshal (take k new))"
    using read_cut [of new marshal unmarshal t] codec by auto
  have "readWALRecords unmarshal (wal_records marshal es @ take t (wal_records marshal new)) =
      Inr (es @ take k new, wal_records marshal es @ wal_records marshal (take k new))"
    by (rule read_records) (use codec k in auto)
  moreover have "contiguous bi (es @ take k new)" "bi + length (es @ take k new) < 2 ^ 64"
    using assms(1) contiguous_take by (auto simp: view_wf_def contiguous_append)
  ultimately have "recovered unmarshal l = Some (bi, bt, es @ take k new)"
    using assms(1,2) by (intro recovered_header [where es = "es @ new"]) (simp_all add: wal_image_def)
  then show ?thesis ..
qed

section \<open>Changes and the file\<close>

text \<open>
  The invariant of a log with a data directory: well-formed, entries the codec can write, and,
  unless a system call has failed, an open file that holds exactly the log.
\<close>

definition durable_inv :: "(LogEntry \<Rightarrow> bytes) \<Rightarrow> (bytes \<Rightarrow> LogEntry option) \<Rightarrow> RaftLog \<Rightarrow> bool" where
  "durable_inv marshal unmarshal l \<longleftrightarrow>
     log_wf l \<and> dataDir l \<noteq> [] \<and> (\<forall>e \<in> set (entries l). codec_ok marshal unmarshal e) \<and>
     (storageErr l = None \<longrightarrow>
        walFile l \<and> \<not> legacyWAL l \<and> disk l = Some (wal_image marshal (baseIndex l) (baseTerm l) (entries l)))"

lemma persist_outcome:
  assumes "dataDir l \<noteq> []" "storageErr l = None" "walFile l"
  obtains
    (ok) "persistStateToDiskLocked marshal fault es bi bt l =
        (l\<lparr>disk := Some (wal_image marshal bi bt es), walFile := True, walHasHeader := True, legacyWAL := False\<rparr>, None)"
  | (failed) d where "persistStateToDiskLocked marshal fault es bi bt l = (l\<lparr>disk := d, storageErr := Some ErrStorageUnavailable\<rparr>, Some ErrStorageUnavailable)"
      "d = disk l \<or> d = Some (wal_image marshal bi bt es)"
proof -
  have open': "l\<lparr>disk := x, walFile := True, storageErr := y\<rparr> = l\<lparr>disk := x, storageErr := y\<rparr>" for x y
    using assms(3) by simp
  let ?p = "persistStateToDiskLocked marshal fault es bi bt l" and ?img = "Some (wal_image marshal bi bt es)"
  let ?ok = "(l\<lparr>disk := ?img, walFile := True, walHasHeader := True, legacyWAL := False\<rparr>, None)"
  have "?p = ?ok \<or> ?p = (l\<lparr>storageErr := Some ErrStorageUnavailable\<rparr>, Some ErrStorageUnavailable) \<or>
      ?p = (l\<lparr>disk := ?img, storageErr := Some ErrStorageUnavailable\<rparr>, Some ErrStorageUnavailable)"
  proof (cases fault)
    case (Some f)
    then show ?thesis
      using assms by (cases f) (simp_all add: persistStateToDiskLocked_def failStorageLocked_def open' Let_def)
  qed (use assms in \<open>simp add: persistStateToDiskLocked_def\<close>)
  moreover have "l\<lparr>storageErr := Some ErrStorageUnavailable\<rparr> = l\<lparr>disk := disk l, storageErr := Some ErrStorageUnavailable\<rparr>" by simp
  ultimately show thesis using ok failed by metis
qed

lemma append_outcome:
  assumes "dataDir l \<noteq> []" "storageErr l = None" "walFile l" "es \<noteq> []"
  obtains
    (ok) "appendWALToDiskLocked marshal fault es l = (l\<lparr>disk := Some (wal_content l @ wal_records marshal es)\<rparr>, None)"
  | (failed) d where "appendWALToDiskLocked marshal fault es l = (l\<lparr>disk := d, storageErr := Some ErrStorageUnavailable\<rparr>, Some ErrStorageUnavailable)"
      "d = disk l \<or> (\<exists>t. d = Some (wal_content l @ take t (wal_records marshal es)))"
proof -
  have torn: "\<exists>t. wal_records marshal (take i es) @ take n (writeWALRecord marshal (es ! i)) = take t (wal_records marshal es)"
    if "i < length es" for i n
  proof -
    let ?m = "min n (length (writeWALRecord marshal (es ! i)))"
    have "wal_records marshal es = wal_records marshal (take i es) @ writeWALRecord marshal (es ! i) @ wal_records marshal (drop (Suc i) es)"
      using id_take_nth_drop [OF that] by (metis concat_append list.simps(9) concat.simps(2) map_append wal_records_def)
    then have "take (length (wal_records marshal (take i es)) + ?m) (wal_records marshal es) =
        wal_records marshal (take i es) @ take n (writeWALRecord marshal (es ! i))" by (simp add: min_def)
    then show ?thesis by metis
  qed
  have all: "\<exists>t. wal_records marshal es = take t (wal_records marshal es)" by (rule exI [of _ "length (wal_records marshal es)"]) simp
  show thesis
  proof (cases fault)
    case None
    then show ?thesis using assms by (intro ok) (simp add: appendWALToDiskLocked_def)
  next
    case (Some f)
    show ?thesis
    proof (cases f)
      case FSeek
      then show ?thesis using Some assms
        by (intro failed [of "disk l"]) (simp_all add: appendWALToDiskLocked_def failStorageLocked_def)
    next
      case (FWrite i n tr)
      show ?thesis
      proof (cases "i < length es")
        case True
        let ?d = "if tr then disk l else Some (wal_content l @ wal_records marshal (take i es) @ take n (writeWALRecord marshal (es ! i)))"
        have "appendWALToDiskLocked marshal fault es l = (l\<lparr>disk := ?d, storageErr := Some ErrStorageUnavailable\<rparr>, Some ErrStorageUnavailable)"
          using Some FWrite True assms by (simp add: appendWALToDiskLocked_def failAppendLocked_def failStorageLocked_def Let_def)
        then show ?thesis using torn [OF True, of n] by (intro failed [of ?d]) auto
      next
        case False
        then show ?thesis using Some FWrite assms by (intro ok) (simp add: appendWALToDiskLocked_def Let_def)
      qed
    next
      case (FSync tr)
      show ?thesis
      proof (cases "syncWrites l")
        case True
        let ?d = "if tr then disk l else Some (wal_content l @ wal_records marshal es)"
        have "appendWALToDiskLocked marshal fault es l = (l\<lparr>disk := ?d, storageErr := Some ErrStorageUnavailable\<rparr>, Some ErrStorageUnavailable)"
          using Some FSync True assms by (simp add: appendWALToDiskLocked_def failAppendLocked_def failStorageLocked_def Let_def)
        then show ?thesis using all by (intro failed [of ?d]) auto
      next
        case False
        then show ?thesis using Some FSync assms by (intro ok) (simp add: appendWALToDiskLocked_def Let_def)
      qed
    qed
  qed
qed

text \<open>The operations that change the log, with the view each one aims at.\<close>

datatype log_op =
    OpAppend "append_fault option" "LogEntry list"
  | OpTruncate "persist_fault option" uint64
  | OpCompact "persist_fault option" uint64
  | OpRestore "persist_fault option" uint64 uint64

fun log_apply :: "(LogEntry \<Rightarrow> bytes) \<Rightarrow> log_op \<Rightarrow> RaftLog \<Rightarrow> RaftLog \<times> raft_error option" where
  "log_apply marshal (OpAppend f es) l = Append marshal f es l"
| "log_apply marshal (OpTruncate f i) l = TruncateAfter marshal f i l"
| "log_apply marshal (OpCompact f i) l = CompactUpTo marshal f i l"
| "log_apply marshal (OpRestore f i t) l = RestoreSnapshotBoundary marshal f i t l"

text \<open>Arguments within the 64-bit range and entries the codec can write.\<close>

fun op_allowed :: "(LogEntry \<Rightarrow> bytes) \<Rightarrow> (bytes \<Rightarrow> LogEntry option) \<Rightarrow> log_op \<Rightarrow> RaftLog \<Rightarrow> bool" where
  "op_allowed marshal unmarshal (OpAppend f es) l \<longleftrightarrow>
     (\<forall>e \<in> set es. codec_ok marshal unmarshal e) \<and> baseIndex l + length (entries l) + length es < 2 ^ 64"
| "op_allowed marshal unmarshal (OpTruncate f i) l \<longleftrightarrow> True"
| "op_allowed marshal unmarshal (OpCompact f i) l \<longleftrightarrow> (\<forall>e \<in> set (entries l). Term e < 2 ^ 64)"
| "op_allowed marshal unmarshal (OpRestore f i t) l \<longleftrightarrow> i < 2 ^ 64 \<and> t < 2 ^ 64 \<and> (i = 0 \<longrightarrow> t = 0)"

text \<open>What a restart may find after an operation failed.\<close>

fun crash_views :: "log_op \<Rightarrow> RaftLog \<Rightarrow> log_view set" where
  "crash_views (OpAppend f es) l = {(baseIndex l, baseTerm l, entries l @ take k es) | k. True}"
| "crash_views (OpTruncate f i) l = {log_view l, (baseIndex l, baseTerm l, take (i - baseIndex l) (entries l))}"
| "crash_views (OpCompact f i) l =
     {log_view l, (i, Term (entries l ! (i - baseIndex l - 1)), drop (i - baseIndex l) (entries l))}"
| "crash_views (OpRestore f i t) l =
     {log_view l, (i, t, if i = baseIndex l then entries l else matching_suffix i t l)}"

text \<open>
  A step is good when it either changes nothing, or ends healthy with the file up to date, or
  fails with memory unchanged and one of the possible views in the file.
\<close>

definition good_step :: "(LogEntry \<Rightarrow> bytes) \<Rightarrow> (bytes \<Rightarrow> LogEntry option) \<Rightarrow> log_op \<Rightarrow> RaftLog \<Rightarrow> bool" where
  "good_step marshal unmarshal op l \<longleftrightarrow>
     (case log_apply marshal op l of
        (l', err) \<Rightarrow>
          durable_inv marshal unmarshal l' \<and>
          (if storageErr l' = None then (err \<noteq> None \<longrightarrow> l' = l) \<and> recovered unmarshal l' = Some (log_view l')
           else err \<noteq> None \<and> log_view l' = log_view l \<and> (\<exists>v \<in> crash_views op l. recovered unmarshal l' = Some v)))"

lemma durable_recovered:
  "durable_inv marshal unmarshal l \<Longrightarrow> storageErr l = None \<Longrightarrow> recovered unmarshal l = Some (log_view l)"
  using recovered_image [of "baseIndex l" "baseTerm l" "entries l" l marshal unmarshal] log_wf_view [of l]
  by (simp add: durable_inv_def log_view_def)

lemma good_same:
  "durable_inv marshal unmarshal l \<Longrightarrow> storageErr l = None \<Longrightarrow> log_apply marshal op l = (l, err) \<Longrightarrow> good_step marshal unmarshal op l"
  by (simp add: good_step_def durable_recovered)

lemma durable_failed:
  assumes "durable_inv marshal unmarshal l"
  shows "durable_inv marshal unmarshal (l\<lparr>disk := d, storageErr := Some e\<rparr>)"
    "log_view (l\<lparr>disk := d, storageErr := Some e\<rparr>) = log_view l"
  using assms by (simp_all add: durable_inv_def log_wf_def log_view_def)

lemma recovered_disk: "disk l = disk l' \<Longrightarrow> dataDir l = dataDir l' \<Longrightarrow> recovered unmarshal l = recovered unmarshal l'"
  by (simp add: recovered_def)

text \<open>The operations that rewrite the file, with the fields they set at the end.\<close>

lemma rewrite_good:
  assumes inv: "durable_inv marshal unmarshal l" "storageErr l = None"
    and new: "view_wf (bi, bt, es)" "\<And>e. e \<in> set es \<Longrightarrow> codec_ok marshal unmarshal e"
    and op: "log_apply marshal op l = (case persistStateToDiskLocked marshal fault es bi bt l of
         (l1, Some e) \<Rightarrow> (l1, Some e) | (l1, None) \<Rightarrow> (fin l1, None))"
    and fin: "\<And>l1. \<exists>bk. fin l1 = l1\<lparr>entries := es, baseIndex := bi, baseTerm := bt, boundaryKnown := bk\<rparr> \<and> (bi = 0 \<longrightarrow> boundaryKnown l1 \<longrightarrow> bk)"
      "bi = 0 \<Longrightarrow> boundaryKnown l"
    and cv: "log_view l \<in> crash_views op l" "(bi, bt, es) \<in> crash_views op l"
  shows "good_step marshal unmarshal op l"
proof -
  have d: "dataDir l \<noteq> []" "walFile l" using inv by (auto simp: durable_inv_def)
  let ?img = "Some (wal_image marshal bi bt es)"
  from d(1) inv(2) d(2) show ?thesis
  proof (cases rule: persist_outcome [where marshal = marshal and fault = fault and es = es and bi = bi and bt = bt])
    case ok
    let ?l1 = "l\<lparr>disk := ?img, walFile := True, walHasHeader := True, legacyWAL := False\<rparr>"
    obtain bk where bk: "fin ?l1 = ?l1\<lparr>entries := es, baseIndex := bi, baseTerm := bt, boundaryKnown := bk\<rparr>" "bi = 0 \<longrightarrow> bk"
      using fin(1) [of ?l1] fin(2) by auto
    have "durable_inv marshal unmarshal (fin ?l1)"
      using new d(1) inv(2) bk(2) by (auto simp: durable_inv_def log_wf_def view_wf_def bk(1))
    moreover have "storageErr (fin ?l1) = None" using inv(2) by (simp add: bk(1))
    ultimately show ?thesis using ok op by (simp add: good_step_def durable_recovered)
  next
    case (failed x)
    let ?l' = "l\<lparr>disk := x, storageErr := Some ErrStorageUnavailable\<rparr>"
    have "recovered unmarshal ?l' = Some (log_view l) \<or> recovered unmarshal ?l' = Some (bi, bt, es)"
      using failed(2) durable_recovered [OF inv] recovered_disk [of ?l' l] recovered_image [OF new(1) _ new(2), of ?l'] by auto
    then show ?thesis
      using failed(1) op durable_failed [OF inv(1)] cv by (auto simp: good_step_def)
  qed
qed

lemma append_good:
  assumes inv: "durable_inv marshal unmarshal l" "storageErr l = None" and al: "op_allowed marshal unmarshal (OpAppend f es) l"
  shows "good_step marshal unmarshal (OpAppend f es) l"
proof (cases "es = [] \<or> validateEntrySequence es (u64 (baseIndex l + length (entries l) + 1)) \<noteq> None")
  case True
  then have "\<exists>e. Append marshal f es l = (l, e)" using inv(2) by (auto simp: Append_def)
  then show ?thesis using good_same [OF inv, of "OpAppend f es"] by auto
next
  case False
  let ?b = "baseIndex l + length (entries l)"
  have ct: "contiguous ?b es" using False validate_contiguous [of ?b es] al by simp
  have d: "dataDir l \<noteq> []" "walFile l" "disk l = Some (wal_image marshal (baseIndex l) (baseTerm l) (entries l))" "log_wf l"
    using inv by (auto simp: durable_inv_def)
  have v: "view_wf (baseIndex l, baseTerm l, entries l @ es)"
    using d(4) ct al by (auto simp: log_wf_def view_wf_def contiguous_append)
  have codec: "\<And>e. e \<in> set (entries l @ es) \<Longrightarrow> codec_ok marshal unmarshal e"
    using inv(1) al by (auto simp: durable_inv_def)
  have content: "wal_content l = wal_image marshal (baseIndex l) (baseTerm l) (entries l)" by (simp add: wal_content_def d(3))
  have img: "wal_image marshal (baseIndex l) (baseTerm l) (entries l @ es) = wal_content l @ wal_records marshal es"
    by (simp add: content wal_image_def wal_records_def)
  have ap: "Append marshal f es l = (case appendWALToDiskLocked marshal f es l of
      (l1, Some e) \<Rightarrow> (l1, Some e) | (l1, None) \<Rightarrow> (l1\<lparr>entries := entries l1 @ es\<rparr>, None))"
    using False inv(2) by (simp add: Append_def)
  have ne: "es \<noteq> []" using False by simp
  from d(1) inv(2) d(2) ne show ?thesis
  proof (cases rule: append_outcome [where marshal = marshal and fault = f])
    case ok
    let ?l' = "l\<lparr>disk := Some (wal_content l @ wal_records marshal es), entries := entries l @ es\<rparr>"
    have "durable_inv marshal unmarshal ?l'"
      using inv v codec d by (auto simp: durable_inv_def log_wf_def view_wf_def img)
    moreover have "storageErr ?l' = None" using inv(2) by simp
    ultimately show ?thesis using ok ap by (simp add: good_step_def durable_recovered)
  next
    case (failed x)
    let ?l' = "l\<lparr>disk := x, storageErr := Some ErrStorageUnavailable\<rparr>"
    have "\<exists>k. recovered unmarshal ?l' = Some (baseIndex l, baseTerm l, entries l @ take k es)"
      using failed(2)
    proof
      assume "x = disk l"
      then have "recovered unmarshal ?l' = Some (log_view l)" using durable_recovered [OF inv] recovered_disk [of ?l' l] by simp
      then show ?thesis by (intro exI [of _ 0]) (simp add: log_view_def)
    next
      assume "\<exists>t. x = Some (wal_content l @ take t (wal_records marshal es))"
      then obtain t where "disk ?l' = Some (wal_image marshal (baseIndex l) (baseTerm l) (entries l) @ take t (wal_records marshal es))"
        by (auto simp: content)
      then show ?thesis using recovered_cut [OF v _ codec] by blast
    qed
    then show ?thesis
      using failed(1) ap durable_failed [OF inv(1)] by (auto simp: good_step_def)
  qed
qed

lemma truncate_good:
  assumes inv: "durable_inv marshal unmarshal l" "storageErr l = None"
  shows "good_step marshal unmarshal (OpTruncate f i) l"
proof (cases "i < baseIndex l \<or> u64 (baseIndex l + length (entries l)) \<le> i")
  case True
  then have "\<exists>e. TruncateAfter marshal f i l = (l, e)" by (auto simp: TruncateAfter_def Let_def)
  then show ?thesis using good_same [OF inv, of "OpTruncate f i"] by auto
next
  case False
  have wf: "log_wf l" using inv by (simp add: durable_inv_def)
  show ?thesis
  proof (rule rewrite_good [OF inv])
    show "view_wf (baseIndex l, baseTerm l, take (i - baseIndex l) (entries l))"
      using wf by (auto simp: view_wf_def log_wf_def contiguous_take)
    show "log_apply marshal (OpTruncate f i) l = (case persistStateToDiskLocked marshal f (take (i - baseIndex l) (entries l)) (baseIndex l) (baseTerm l) l of
         (l1, Some e) \<Rightarrow> (l1, Some e)
       | (l1, None) \<Rightarrow> (l1\<lparr>entries := take (i - baseIndex l) (entries l), baseIndex := baseIndex l, baseTerm := baseTerm l\<rparr>, None))"
    proof -
      have "\<And>l1 e. persistStateToDiskLocked marshal f es bi bt l = (l1, e) \<Longrightarrow> baseIndex l1 = baseIndex l \<and> baseTerm l1 = baseTerm l" for es bi bt
        by (auto simp: persistStateToDiskLocked_def failStorageLocked_def Let_def split: if_splits option.splits persist_fault.splits)
      then show ?thesis using False by (auto simp: TruncateAfter_def Let_def split: prod.splits option.splits)
    qed
    show "\<exists>bk. l1\<lparr>entries := take (i - baseIndex l) (entries l), baseIndex := baseIndex l, baseTerm := baseTerm l\<rparr> =
        l1\<lparr>entries := take (i - baseIndex l) (entries l), baseIndex := baseIndex l, baseTerm := baseTerm l, boundaryKnown := bk\<rparr> \<and>
        (baseIndex l = 0 \<longrightarrow> boundaryKnown l1 \<longrightarrow> bk)" for l1 :: RaftLog
      by (rule exI [of _ "boundaryKnown l1"]) simp
  qed (use wf inv(1) in \<open>auto simp: log_wf_def durable_inv_def dest: in_set_takeD\<close>)
qed

lemma boundary_good:
  assumes inv: "durable_inv marshal unmarshal l" "storageErr l = None"
    and v: "view_wf (bi, bt, es)" "set es \<subseteq> set (entries l)" "bi = 0 \<longrightarrow> baseIndex l = 0"
    and op: "log_apply marshal op l = (case persistStateToDiskLocked marshal f es bi bt l of
         (l1, Some e) \<Rightarrow> (l1, Some e)
       | (l1, None) \<Rightarrow> (l1\<lparr>entries := es, baseIndex := bi, baseTerm := bt, boundaryKnown := True\<rparr>, None))"
    and cv: "log_view l \<in> crash_views op l" "(bi, bt, es) \<in> crash_views op l"
  shows "good_step marshal unmarshal op l"
  using inv(1) v(2,3) by (intro rewrite_good [OF inv v(1) _ op _ _ cv]) (auto simp: durable_inv_def log_wf_def)

lemma compact_good:
  assumes inv: "durable_inv marshal unmarshal l" "storageErr l = None" and al: "op_allowed marshal unmarshal (OpCompact f i) l"
  shows "good_step marshal unmarshal (OpCompact f i) l"
proof -
  have wf: "log_wf l" using inv by (simp add: durable_inv_def)
  have u: "u64 (baseIndex l + length (entries l)) = baseIndex l + length (entries l)" using wf by (simp add: log_wf_def)
  show ?thesis
  proof (cases "i \<le> baseIndex l \<or> baseIndex l + length (entries l) < i")
    case True
    then have "\<exists>e. CompactUpTo marshal f i l = (l, e)" by (auto simp: CompactUpTo_def Let_def u)
    then show ?thesis using good_same [OF inv, of "OpCompact f i"] by auto
  next
    case False
    let ?k = "i - baseIndex l"
    have k: "0 < ?k" "?k \<le> length (entries l)" "i = baseIndex l + ?k" using False by auto
    have t: "termAtLocked i l = Inr (Term (entries l ! (?k - 1)))"
      using k TermAt_entry [OF wf, of "?k - 1"] by simp
    have "Term (entries l ! (?k - 1)) < 2 ^ 64" using al k by simp
    then have "view_wf (i, Term (entries l ! (?k - 1)), drop ?k (entries l))"
      using wf k contiguous_drop [of "baseIndex l" "entries l" ?k] by (auto simp: view_wf_def log_wf_def)
    then show ?thesis
      using False t u k by (intro boundary_good [OF inv]) (auto simp: CompactUpTo_def Let_def dest: in_set_dropD)
  qed
qed

lemma matching_suffix_ok:
  assumes wf: "log_wf l" and i: "baseIndex l < i" "i < 2 ^ 64"
  shows "contiguous i (matching_suffix i t l)" "set (matching_suffix i t l) \<subseteq> set (entries l)" "i + length (matching_suffix i t l) < 2 ^ 64"
proof -
  have u: "u64 (baseIndex l + length (entries l)) = baseIndex l + length (entries l)" using wf by (simp add: log_wf_def)
  show "contiguous i (matching_suffix i t l)"
    using wf i contiguous_drop [of "baseIndex l" "entries l" "i - baseIndex l"]
    by (auto simp: matching_suffix_def u log_wf_def)
  show "set (matching_suffix i t l) \<subseteq> set (entries l)" by (auto simp: matching_suffix_def dest: in_set_dropD)
  show "i + length (matching_suffix i t l) < 2 ^ 64" using wf i by (auto simp: matching_suffix_def u log_wf_def)
qed

lemma restore_good:
  assumes inv: "durable_inv marshal unmarshal l" "storageErr l = None" and al: "op_allowed marshal unmarshal (OpRestore f i t) l"
  shows "good_step marshal unmarshal (OpRestore f i t) l"
proof -
  let ?c = "if i = baseIndex l then entries l else matching_suffix i t l"
  have wf: "log_wf l" using inv by (simp add: durable_inv_def)
  show ?thesis
  proof (cases "i < baseIndex l \<or> (i = baseIndex l \<and> boundaryKnown l \<and> baseTerm l \<noteq> t) \<or> validateEntrySequence ?c (u64 (i + 1)) \<noteq> None")
    case True
    then have "\<exists>e. RestoreSnapshotBoundary marshal f i t l = (l, e)" by (auto simp: RestoreSnapshotBoundary_def Let_def)
    then show ?thesis using good_same [OF inv, of "OpRestore f i t"] by auto
  next
    case False
    have c: "contiguous i ?c" "set ?c \<subseteq> set (entries l)" "i + length ?c < 2 ^ 64"
      using matching_suffix_ok [OF wf, of i t] al wf False by (auto simp: log_wf_def)
    then have v: "view_wf (i, t, ?c)" using al by (simp add: view_wf_def)
    have z: "i = 0 \<longrightarrow> baseIndex l = 0" using False by simp
    have "log_apply marshal (OpRestore f i t) l = (case persistStateToDiskLocked marshal f ?c i t l of
         (l1, Some e) \<Rightarrow> (l1, Some e)
       | (l1, None) \<Rightarrow> (l1\<lparr>entries := ?c, baseIndex := i, baseTerm := t, boundaryKnown := True\<rparr>, None))"
      using False by (cases "i = baseIndex l") (auto simp: RestoreSnapshotBoundary_def Let_def)
    from boundary_good [OF inv v c(2) z this] show ?thesis by (simp add: log_view_def)
  qed
qed

lemma op_good:
  "durable_inv marshal unmarshal l \<Longrightarrow> storageErr l = None \<Longrightarrow> op_allowed marshal unmarshal op l \<Longrightarrow> good_step marshal unmarshal op l"
  by (cases op) (simp_all add: append_good truncate_good compact_good restore_good del: op_allowed.simps)

lemma op_stuck:
  assumes "storageErr l \<noteq> None" "dataDir l \<noteq> []"
  shows "\<exists>err. log_apply marshal op l = (l, err)"
proof -
  have "persistStateToDiskLocked marshal f es bi bt l = (l, storageErr l)" for f es bi bt
    using assms by (auto simp: persistStateToDiskLocked_def)
  then show ?thesis
    using assms by (cases op) (auto simp: Append_def TruncateAfter_def CompactUpTo_def RestoreSnapshotBoundary_def Let_def split: option.splits sum.splits)
qed

section \<open>Fail-stop storage\<close>

fun run_ops :: "('op \<Rightarrow> 's \<Rightarrow> 's) \<Rightarrow> 'op list \<Rightarrow> 's \<Rightarrow> 's" where
  "run_ops step [] s = s"
| "run_ops step (p # ps) s = run_ops step ps (step p s)"

fun all_allowed :: "('op \<Rightarrow> 's \<Rightarrow> 's) \<Rightarrow> ('op \<Rightarrow> 's \<Rightarrow> bool) \<Rightarrow> 'op list \<Rightarrow> 's \<Rightarrow> bool" where
  "all_allowed step allowed [] s \<longleftrightarrow> True"
| "all_allowed step allowed (p # ps) s \<longleftrightarrow> allowed p s \<and> all_allowed step allowed ps (step p s)"

text \<open>
  The contract the consensus layer relies on: while the storage is healthy a restart recovers
  what is in memory; the operation that fails leaves memory as it was and one of a known set of
  views on disk; after a failure nothing changes any more.
\<close>

locale fail_stop =
  fixes step :: "'op \<Rightarrow> 's \<Rightarrow> 's"
    and allowed :: "'op \<Rightarrow> 's \<Rightarrow> bool"
    and inv :: "'s \<Rightarrow> bool"
    and failed :: "'s \<Rightarrow> bool"
    and view :: "'s \<Rightarrow> 'v"
    and recov :: "'s \<Rightarrow> 'v option"
    and crash :: "'op \<Rightarrow> 's \<Rightarrow> 'v set"
  assumes inv_step: "inv s \<Longrightarrow> allowed p s \<Longrightarrow> inv (step p s)"
    and healthy: "inv s \<Longrightarrow> \<not> failed s \<Longrightarrow> recov s = Some (view s)"
    and failing: "inv s \<Longrightarrow> \<not> failed s \<Longrightarrow> allowed p s \<Longrightarrow> failed (step p s) \<Longrightarrow>
          view (step p s) = view s \<and> (\<exists>v \<in> crash p s. recov (step p s) = Some v)"
    and stuck: "inv s \<Longrightarrow> failed s \<Longrightarrow> step p s = s"
begin

lemma run_stuck: "inv s \<Longrightarrow> failed s \<Longrightarrow> run_ops step ps s = s"
  by (induction ps) (simp_all add: stuck)

lemma run_recovers:
  assumes "inv s" "\<not> failed s" "all_allowed step allowed ps s"
  shows "inv (run_ops step ps s) \<and>
     (if failed (run_ops step ps s)
      then \<exists>pre p post. ps = pre @ p # post \<and> \<not> failed (run_ops step pre s) \<and> view (run_ops step ps s) = view (run_ops step pre s) \<and>
             (\<exists>v \<in> crash p (run_ops step pre s). recov (run_ops step ps s) = Some v)
      else recov (run_ops step ps s) = Some (view (run_ops step ps s)))"
  using assms
proof (induction ps arbitrary: s)
  case Nil
  then show ?case by (simp add: healthy)
next
  case (Cons p ps)
  have i: "inv (step p s)" using Cons.prems inv_step by simp
  show ?case
  proof (cases "failed (step p s)")
    case True
    have "p # ps = [] @ p # ps" "\<not> failed (run_ops step [] s)" using Cons.prems(2) by simp_all
    then show ?thesis
      using failing [OF Cons.prems(1,2) _ True] Cons.prems(3) run_stuck [OF i True] i True
      by (auto intro!: exI [of _ "[]"])
  next
    case False
    note IH = Cons.IH [OF i False]
    show ?thesis
    proof (cases "failed (run_ops step ps (step p s))")
      case True
      then obtain pre q post where q: "ps = pre @ q # post" "\<not> failed (run_ops step pre (step p s))"
        "view (run_ops step ps (step p s)) = view (run_ops step pre (step p s))"
        "\<exists>v \<in> crash q (run_ops step pre (step p s)). recov (run_ops step ps (step p s)) = Some v"
        using IH Cons.prems(3) by auto
      have "\<exists>pre' p' post'. p # ps = pre' @ p' # post' \<and> \<not> failed (run_ops step pre' s) \<and>
          view (run_ops step (p # ps) s) = view (run_ops step pre' s) \<and>
          (\<exists>v \<in> crash p' (run_ops step pre' s). recov (run_ops step (p # ps) s) = Some v)"
        using q by (intro exI [of _ "p # pre"] exI [of _ q] exI [of _ post]) simp
      then show ?thesis using IH Cons.prems(3) True by simp
    next
      case f: False
      then show ?thesis using IH Cons.prems(3) by simp
    qed
  qed
qed

end

interpretation wal: fail_stop "\<lambda>op l. fst (log_apply marshal op l)" "op_allowed marshal unmarshal" "durable_inv marshal unmarshal"
  "\<lambda>l. storageErr l \<noteq> None" log_view "recovered unmarshal" crash_views
  for marshal unmarshal
proof
  fix l p
  assume i: "durable_inv marshal unmarshal l" and a: "op_allowed marshal unmarshal p l"
  show "durable_inv marshal unmarshal (fst (log_apply marshal p l))"
  proof (cases "storageErr l = None")
    case True
    with op_good [OF i _ a] show ?thesis by (auto simp: good_step_def split: prod.splits)
  next
    case False
    then show ?thesis using op_stuck [of l marshal p] i by (auto simp: durable_inv_def)
  qed
next
  fix l
  assume "durable_inv marshal unmarshal l" "\<not> storageErr l \<noteq> None"
  then show "recovered unmarshal l = Some (log_view l)" by (simp add: durable_recovered)
next
  fix l p
  assume "durable_inv marshal unmarshal l" "\<not> storageErr l \<noteq> None" "op_allowed marshal unmarshal p l" "storageErr (fst (log_apply marshal p l)) \<noteq> None"
  then show "log_view (fst (log_apply marshal p l)) = log_view l \<and> (\<exists>v \<in> crash_views p l. recovered unmarshal (fst (log_apply marshal p l)) = Some v)"
    using op_good [of marshal unmarshal l p] by (auto simp: good_step_def split: prod.splits)
next
  fix l p
  assume "durable_inv marshal unmarshal l" "storageErr l \<noteq> None"
  then show "fst (log_apply marshal p l) = l" using op_stuck [of l marshal p] by (auto simp: durable_inv_def)
qed

section \<open>Properties\<close>

lemma fresh_durable:
  assumes "dir \<noteq> []" "newRaftLogWithWAL marshal unmarshal None dir sync None = Inr l"
  shows "durable_inv marshal unmarshal l" "storageErr l = None"
  using assms by (auto simp: newRaftLogWithWAL_def loadFromDisk_def newRaftLog_def persistStateToDiskLocked_def Let_def
      durable_inv_def log_wf_def)

text \<open>
  C7: the log survives a restart. From a fresh directory, after any sequence of \<^verbatim>\<open>Append\<close>,
  \<^verbatim>\<open>TruncateAfter\<close>, \<^verbatim>\<open>CompactUpTo\<close> and \<^verbatim>\<open>RestoreSnapshotBoundary\<close> calls, successful or refused,
  in which no system call failed, the indices are contiguous and the file reads back as
  exactly the boundary and the entries in memory. After a failed system call memory is what
  it was before that call, and the file reads back as one of the views that call can leave.
\<close>

theorem log_survives_restart:
  assumes "dir \<noteq> []" "newRaftLogWithWAL marshal unmarshal None dir sync None = Inr l0"
    "all_allowed (\<lambda>op l. fst (log_apply marshal op l)) (op_allowed marshal unmarshal) ops l0"
  shows "let l = run_ops (\<lambda>op l. fst (log_apply marshal op l)) ops l0 in
     log_wf l \<and>
     (if storageErr l = None then recovered unmarshal l = Some (log_view l)
      else \<exists>pre p post. ops = pre @ p # post \<and>
             (let lp = run_ops (\<lambda>op l. fst (log_apply marshal op l)) pre l0 in
              storageErr lp = None \<and> log_view l = log_view lp \<and> (\<exists>v \<in> crash_views p lp. recovered unmarshal l = Some v)))"
  using wal.run_recovers [of marshal unmarshal l0 ops] fresh_durable [OF assms(1,2)] assms(3)
  by (auto simp: Let_def durable_inv_def split: if_splits)

theorem log_survives_restart_witness:
  "\<exists>l0. newRaftLogWithWAL (\<lambda>_. [7]) (\<lambda>_. Some \<lparr>Index = 1, Term = 1, Type = 0, Command = []\<rparr>) None ''d'' True None = Inr l0 \<and>
     (let l = run_ops (\<lambda>op l. fst (log_apply (\<lambda>_. [7]) op l)) [OpAppend None [\<lparr>Index = 1, Term = 1, Type = 0, Command = []\<rparr>]] l0 in
      recovered (\<lambda>_. Some \<lparr>Index = 1, Term = 1, Type = 0, Command = []\<rparr>) l = Some (0, 0, [\<lparr>Index = 1, Term = 1, Type = 0, Command = []\<rparr>]))"
proof -
  let ?e = "\<lparr>Index = 1, Term = 1, Type = 0, Command = []\<rparr>" and ?m = "\<lambda>_ :: LogEntry. [7] :: bytes" and ?u = "\<lambda>_ :: bytes. Some \<lparr>Index = 1, Term = 1, Type = 0, Command = []\<rparr>"
  obtain l0 where l0: "newRaftLogWithWAL ?m ?u None ''d'' True None = Inr l0" "baseIndex l0 = 0" "entries l0 = []" "baseTerm l0 = 0" "storageErr l0 = None" "walFile l0" "dataDir l0 = ''d''"
    by (auto simp: newRaftLogWithWAL_def loadFromDisk_def newRaftLog_def persistStateToDiskLocked_def Let_def)
  have "all_allowed (\<lambda>op l. fst (log_apply ?m op l)) (op_allowed ?m ?u) [OpAppend None [?e]] l0"
    by (simp add: l0 codec_ok_def maxWALRecordSize_def)
  from log_survives_restart [OF _ l0(1) this] show ?thesis
    using l0 by (simp add: Let_def Append_def appendWALToDiskLocked_def log_view_def)
qed

text \<open>
  C28: no acknowledged entry is lost to a torn write. When the WAL ends anywhere inside records
  that were being appended after the entries \<open>es\<close>, a restart reads all of \<open>es\<close>, in order,
  followed by the new entries whose records are complete.
\<close>

theorem torn_append_keeps_entries:
  assumes "view_wf (bi, bt, es @ new)" "\<And>e. e \<in> set (es @ new) \<Longrightarrow> codec_ok marshal unmarshal e"
  shows "\<exists>k. recovered unmarshal (newRaftLog\<lparr>dataDir := dir, disk := Some (wal_image marshal bi bt es @ take t (wal_records marshal new))\<rparr>)
      = Some (bi, bt, es @ take k new)"
  by (rule recovered_cut [OF assms(1) _ assms(2)]) simp_all

theorem torn_append_keeps_entries_witness:
  "\<exists>k. recovered (\<lambda>_. Some \<lparr>Index = 1, Term = 1, Type = 0, Command = []\<rparr>)
      (newRaftLog\<lparr>dataDir := ''d'', disk := Some (wal_image (\<lambda>_. [7]) 0 0 [] @ take 5 (wal_records (\<lambda>_. [7]) [\<lparr>Index = 1, Term = 1, Type = 0, Command = []\<rparr>]))\<rparr>)
      = Some (0, 0, [] @ take k [\<lparr>Index = 1, Term = 1, Type = 0, Command = []\<rparr>])"
  by (rule torn_append_keeps_entries) (simp_all add: view_wf_def contiguous_def codec_ok_def maxWALRecordSize_def)

text \<open>
  A successful \<^verbatim>\<open>CompactUpTo\<close> changes nothing a reader can still ask for: every entry
  after the new boundary and the last index stay, the term of the boundary is still known, and
  everything below it is reported as compacted.
\<close>

theorem compact_keeps_suffix:
  assumes wf: "log_wf l" and ok: "CompactUpTo marshal fault i l = (l', None)" "baseIndex l < i"
  shows "LastIndex l' = LastIndex l \<and> TermAt i l' = TermAt i l \<and> baseIndex l' = i \<and>
     (\<forall>j. (i < j \<longrightarrow> GetEntry j l' = GetEntry j l) \<and> (j < i \<longrightarrow> TermAt j l' = Inl ErrLogCompacted))"
proof -
  let ?k = "i - baseIndex l" and ?es = "entries l"
  have u: "u64 (baseIndex l + length ?es) = baseIndex l + length ?es" using wf by (simp add: log_wf_def)
  have k: "0 < ?k" "?k \<le> length ?es" "i = baseIndex l + ?k"
    using ok by (auto simp: CompactUpTo_def u Let_def split: if_splits)
  have t: "termAtLocked i l = Inr (Term (?es ! (?k - 1)))" using k TermAt_entry [OF wf, of "?k - 1"] by simp
  obtain l1 where l1: "persistStateToDiskLocked marshal fault (drop ?k ?es) i (Term (?es ! (?k - 1))) l = (l1, None)"
    "l' = l1\<lparr>entries := drop ?k ?es, baseIndex := i, baseTerm := Term (?es ! (?k - 1)), boundaryKnown := True\<rparr>"
    using ok k t by (auto simp: CompactUpTo_def u Let_def split: if_splits option.splits prod.splits)
  have l': "entries l' = drop ?k ?es" "baseIndex l' = i" "baseTerm l' = Term (?es ! (?k - 1))" "boundaryKnown l'"
    by (simp_all add: l1(2))
  have "LastIndex l' = LastIndex l"
  proof (cases "?k = length ?es")
    case True
    then show ?thesis using LastIndex_eq [OF wf] k by (simp add: LastIndex_def [of l'] l')
  next
    case False
    then show ?thesis using k by (auto simp: LastIndex_def l' last_drop)
  qed
  moreover have "GetEntry j l' = GetEntry j l" if "i < j" for j
    using that k by (auto simp: GetEntry_def l' Let_def add.commute)
  moreover have "TermAt i l' = TermAt i l" using t k by (simp add: TermAt_def, simp add: termAtLocked_def l')
  moreover have "TermAt j l' = Inl ErrLogCompacted" if "j < i" for j
    using that by (simp add: TermAt_def termAtLocked_def l')
  ultimately show ?thesis using l'(2) by blast
qed

theorem compact_keeps_suffix_witness:
  "LastIndex (fst (CompactUpTo (\<lambda>_. []) None 1 (newRaftLog\<lparr>entries := [\<lparr>Index = 1, Term = 3, Type = 0, Command = []\<rparr>, \<lparr>Index = 2, Term = 3, Type = 0, Command = []\<rparr>]\<rparr>))) = 2"
proof -
  let ?l = "newRaftLog\<lparr>entries := [\<lparr>Index = 1, Term = 3, Type = 0, Command = []\<rparr>, \<lparr>Index = 2, Term = 3, Type = 0, Command = []\<rparr>]\<rparr>"
  have "log_wf ?l" by (simp add: log_wf_def newRaftLog_def contiguous_Cons)
  moreover have "CompactUpTo (\<lambda>_. []) None 1 ?l = (fst (CompactUpTo (\<lambda>_. []) None 1 ?l), None)"
    by (simp add: CompactUpTo_def newRaftLog_def termAtLocked_def persistStateToDiskLocked_def)
  ultimately have "LastIndex (fst (CompactUpTo (\<lambda>_. []) None 1 ?l)) = LastIndex ?l"
    using compact_keeps_suffix [of ?l "\<lambda>_. []" None 1] by (simp add: newRaftLog_def)
  then show ?thesis by (simp add: LastIndex_def)
qed

end
