(* ===== verification/Election.thy ===== *)
theory Election
  imports RaftNode
begin

text \<open>
  Elections (\<^verbatim>\<open>internal/raft/election.go\<close>). The code runs one goroutine per peer that shares
  the local variables of \<^verbatim>\<open>startPreVote\<close> or \<^verbatim>\<open>startElection\<close>; these variables are the record
  \<open>ballot\<close>, and what a goroutine does with its peer's answer is a step of its own.
\<close>

section \<open>Messages\<close>

record RequestVoteRequest =
  rv_Term :: uint64
  rv_CandidateID :: string
  rv_LastLogIndex :: uint64
  rv_LastLogTerm :: uint64
  rv_PreVote :: bool

record RequestVoteResponse =
  rvr_Term :: uint64
  rvr_VoteGranted :: bool

text \<open>The locals of a running (pre-)election; \<open>b_fired\<close> is the \<^verbatim>\<open>sync.Once\<close>.\<close>

record ballot =
  b_term :: uint64
  b_votes :: nat
  b_majority :: nat
  b_peers :: "string list"
  b_fired :: bool

section \<open>Granting votes\<close>


definition leader_alive :: "gotime \<Rightarrow> 'sm RaftNode \<Rightarrow> bool" where
  "leader_alive now r =
     (if state r = Leader then True
      else if state r = Follower \<and> leaderID r \<noteq> [] then now - lastHeartbeat r < ElectionTimeoutMin (config r)
      else False)"

definition log_up_to_date :: "RequestVoteRequest \<Rightarrow> RaftLog \<Rightarrow> bool" where
  "log_up_to_date req l \<longleftrightarrow>
     LastTerm l < rv_LastLogTerm req \<or> (rv_LastLogTerm req = LastTerm l \<and> LastIndex l \<le> rv_LastLogIndex req)"

text \<open>
  \<^verbatim>\<open>handleRequestVote\<close> releases the node's lock in \<^verbatim>\<open>stepDown\<close> and again while a vote is saved. Its parts
  are the checks at the start (\<open>None\<close> is a refusal, a \<^verbatim>\<open>nil\<close> request is \<open>None\<close>), the decision, which ends
  with an answer or with a vote to save, and the answer after the save. \<open>now\<close> is the reading for
  \<^verbatim>\<open>time.Since\<close> and the heartbeat times.
\<close>

definition vote_response :: "bool \<Rightarrow> 'sm RaftNode \<Rightarrow> RequestVoteResponse" where
  "vote_response granted r = \<lparr>rvr_Term = currentTerm r, rvr_VoteGranted = granted\<rparr>"

definition vote_checks :: "gotime \<Rightarrow> RequestVoteRequest option \<Rightarrow> 'sm RaftNode \<Rightarrow> RequestVoteRequest option" where
  "vote_checks now reqp r =
     (if fatalErr r \<noteq> None then None
      else case reqp of
             None \<Rightarrow> None
           | Some req \<Rightarrow>
               if rv_Term req < currentTerm r then None
               else if leader_alive now r then None
               else Some req)"

datatype vote_result = VoteAnswer RequestVoteResponse | VoteSave uint64 string

definition vote_part :: "gotime \<Rightarrow> RequestVoteRequest \<Rightarrow> 'sm RaftNode \<Rightarrow> 'sm RaftNode \<times> vote_result" where
  "vote_part now req r =
     (let upToDate = log_up_to_date req (rlog r)
      in if rv_PreVote req then (r, VoteAnswer (vote_response upToDate r))
         else
           (let canVote = (votedFor r = [] \<or> votedFor r = rv_CandidateID req)
            in if canVote \<and> upToDate
               then (r\<lparr>votedFor := rv_CandidateID req, lastHeartbeat := now\<rparr>, VoteSave (currentTerm r) (rv_CandidateID req))
               else (r, VoteAnswer (vote_response False r))))"

text \<open>
  The handler when nothing comes between its parts. \<open>sf1\<close> and \<open>sf2\<close> say whether the two writes of
  the state file fail; \<open>order\<close> is the iteration order over the waiters.
\<close>

definition handleRequestVote ::
  "bool \<Rightarrow> bool \<Rightarrow> gotime \<Rightarrow> uint64 list \<Rightarrow> RequestVoteRequest option \<Rightarrow> 'sm RaftNode \<Rightarrow> 'sm RaftNode \<times> RequestVoteResponse" where
  "handleRequestVote sf1 sf2 now order reqp r =
     (case vote_checks now reqp r of
        None \<Rightarrow> (r, vote_response False r)
      | Some req \<Rightarrow>
          (let r1 = (if \<not> rv_PreVote req \<and> currentTerm r < rv_Term req then stepDown sf1 now order (rv_Term req) r else r)
           in case vote_part now req r1 of
                (r2, VoteAnswer resp) \<Rightarrow> (r2, resp)
              | (r2, VoteSave termToSave votedForToSave) \<Rightarrow>
                  (let r3 = save_state sf2 termToSave votedForToSave r2 in (r3, vote_response True r3))))"

lemma handleRequestVote_eq:
  "handleRequestVote sf1 sf2 now order reqp r =
     (let refuse = (\<lambda>x. (x, \<lparr>rvr_Term = currentTerm x, rvr_VoteGranted = False\<rparr>));
          grant = (\<lambda>x. (x, \<lparr>rvr_Term = currentTerm x, rvr_VoteGranted = True\<rparr>))
      in if fatalErr r \<noteq> None then refuse r
         else case reqp of
                None \<Rightarrow> refuse r
              | Some req \<Rightarrow>
                  if rv_Term req < currentTerm r then refuse r
                  else if leader_alive now r then refuse r
                  else
                    (let r1 = (if \<not> rv_PreVote req \<and> currentTerm r < rv_Term req then stepDown sf1 now order (rv_Term req) r else r);
                         upToDate = log_up_to_date req (rlog r1)
                     in if rv_PreVote req then (if upToDate then grant r1 else refuse r1)
                        else if (votedFor r1 = [] \<or> votedFor r1 = rv_CandidateID req) \<and> upToDate
                        then grant (r1\<lparr>votedFor := rv_CandidateID req, lastHeartbeat := now,
                                       persistentState := SaveTermAndVote sf2 (currentTerm r1) (rv_CandidateID req) (persistentState r1)\<rparr>)
                        else refuse r1))"
  by (cases reqp) (auto simp: handleRequestVote_def vote_checks_def vote_part_def vote_response_def save_state_def Let_def)

section \<open>Asking for votes\<close>

text \<open>\<^verbatim>\<open>startPreVote\<close> up to the goroutines: the ballot and the request, or a direct election.\<close>

datatype prevote_start = PreVoteSkipped | PreVoteWon | PreVoteSent RequestVoteRequest ballot

definition startPreVote :: "gotime \<Rightarrow> 'sm RaftNode \<Rightarrow> 'sm RaftNode \<times> prevote_start" where
  "startPreVote now r =
     (if fatalErr r \<noteq> None \<or> state r = Leader then (r, PreVoteSkipped)
      else
        (let r1 = r\<lparr>state := PreCandidate, lastHeartbeat := now\<rparr>;
             nextTerm = u64 (currentTerm r1 + 1);
             ps = other_peers (NodeID (config r1)) (clusterConfig r1);
             majority = Majority (clusterConfig r1)
         in if majority \<le> 1 then (r1, PreVoteWon)
            else (r1, PreVoteSent
                    \<lparr>rv_Term = nextTerm, rv_CandidateID = NodeID (config r1), rv_LastLogIndex = LastIndex (rlog r1),
                     rv_LastLogTerm = LastTerm (rlog r1), rv_PreVote = True\<rparr>
                    \<lparr>b_term = nextTerm, b_votes = 1, b_majority = majority, b_peers = ps, b_fired = False\<rparr>)))"

text \<open>
  A goroutine of \<^verbatim>\<open>startPreVote\<close> with its answer; the last result says whether the real
  election starts. \<^verbatim>\<open>nextTerm-1\<close> is a \<^verbatim>\<open>uint64\<close> expression.
\<close>

definition preVoteResponse ::
  "bool \<Rightarrow> gotime \<Rightarrow> uint64 list \<Rightarrow> RequestVoteResponse \<Rightarrow> ballot \<Rightarrow> 'sm RaftNode \<Rightarrow> 'sm RaftNode \<times> ballot \<times> bool" where
  "preVoteResponse sf now order resp b r =
     (let prevTerm = u64 (b_term b + 2 ^ 64 - 1) in
      if prevTerm < rvr_Term resp then (stepDown sf now order (rvr_Term resp) r, b, False)
      else if \<not> rvr_VoteGranted resp then (r, b, False)
      else
        (let b1 = b\<lparr>b_votes := b_votes b + 1\<rparr>
         in if b_majority b1 \<le> b_votes b1 \<and> \<not> b_fired b1
            then (r, b1\<lparr>b_fired := True\<rparr>, state r = PreCandidate \<and> currentTerm r = prevTerm)
            else (r, b1, False)))"

text \<open>
  \<^verbatim>\<open>startElection\<close> up to the goroutines. The node's lock is released while its vote for itself is
  saved; afterwards the state and the term are looked at again.
\<close>

datatype election_start = ElectionSkipped | ElectionWon uint64 | ElectionSent RequestVoteRequest ballot

definition startElection_begin :: "gotime \<Rightarrow> 'sm RaftNode \<Rightarrow> 'sm RaftNode option" where
  "startElection_begin now r =
     (if fatalErr r \<noteq> None \<or> state r = Leader then None
      else Some (r\<lparr>state := Candidate, currentTerm := u64 (currentTerm r + 1), votedFor := NodeID (config r), lastHeartbeat := now\<rparr>))"

definition startElection_check :: "uint64 \<Rightarrow> 'sm RaftNode \<Rightarrow> election_start" where
  "startElection_check term r =
     (if state r \<noteq> Candidate \<or> currentTerm r \<noteq> term then ElectionSkipped
      else
        (let ps = other_peers (NodeID (config r)) (clusterConfig r);
             majority = Majority (clusterConfig r)
         in if majority \<le> 1 then ElectionWon term
            else ElectionSent
                   \<lparr>rv_Term = term, rv_CandidateID = NodeID (config r), rv_LastLogIndex = LastIndex (rlog r),
                    rv_LastLogTerm = LastTerm (rlog r), rv_PreVote = False\<rparr>
                   \<lparr>b_term = term, b_votes = 1, b_majority = majority, b_peers = ps, b_fired = False\<rparr>))"

definition startElection :: "bool \<Rightarrow> gotime \<Rightarrow> 'sm RaftNode \<Rightarrow> 'sm RaftNode \<times> election_start" where
  "startElection sf now r =
     (case startElection_begin now r of
        None \<Rightarrow> (r, ElectionSkipped)
      | Some r1 \<Rightarrow>
          (let r2 = save_state sf (currentTerm r1) (votedFor r1) r1 in (r2, startElection_check (currentTerm r1) r2)))"

lemma startElection_eq:
  "startElection sf now r =
     (if fatalErr r \<noteq> None \<or> state r = Leader then (r, ElectionSkipped)
      else
        (let r1 = r\<lparr>state := Candidate, currentTerm := u64 (currentTerm r + 1), votedFor := NodeID (config r), lastHeartbeat := now\<rparr>;
             term = currentTerm r1;
             r2 = r1\<lparr>persistentState := SaveTermAndVote sf term (votedFor r1) (persistentState r1)\<rparr>;
             ps = other_peers (NodeID (config r2)) (clusterConfig r2);
             majority = Majority (clusterConfig r2)
         in if majority \<le> 1 then (r2, ElectionWon term)
            else (r2, ElectionSent
                    \<lparr>rv_Term = term, rv_CandidateID = NodeID (config r2), rv_LastLogIndex = LastIndex (rlog r2),
                     rv_LastLogTerm = LastTerm (rlog r2), rv_PreVote = False\<rparr>
                    \<lparr>b_term = term, b_votes = 1, b_majority = majority, b_peers = ps, b_fired = False\<rparr>)))"
  by (simp add: startElection_def startElection_begin_def startElection_check_def save_state_def Let_def)

text \<open>The transition to leader, taken when the votes are enough and the term is still the same.\<close>

definition becomeLeader :: "(LogEntry \<Rightarrow> bytes) \<Rightarrow> append_fault option \<Rightarrow> uint64 \<Rightarrow> 'sm RaftNode \<Rightarrow> 'sm RaftNode" where
  "becomeLeader marshal fault term r =
     (if state r = Candidate \<and> currentTerm r = term
      then (case initLeaderState marshal fault (r\<lparr>state := Leader\<rparr>) of
              (r1, Some _) \<Rightarrow> markFatalLocked r1
            | (r1, None) \<Rightarrow> r1)
      else r)"

text \<open>\<^verbatim>\<open>sendRequestVote\<close> once the answer is there: whether the vote counts.\<close>

definition sendRequestVote_answer ::
  "bool \<Rightarrow> gotime \<Rightarrow> uint64 list \<Rightarrow> uint64 \<Rightarrow> RequestVoteResponse \<Rightarrow> 'sm RaftNode \<Rightarrow> 'sm RaftNode \<times> bool" where
  "sendRequestVote_answer sf now order term resp r =
     (if currentTerm r < rvr_Term resp then (stepDown sf now order (rvr_Term resp) r, False)
      else if currentTerm r \<noteq> term \<or> state r \<noteq> Candidate then (r, False)
      else if rvr_Term resp < term then (r, False)
      else (r, rvr_VoteGranted resp))"

text \<open>
  A goroutine of \<^verbatim>\<open>startElection\<close> with its answer: the vote is counted without the node's lock, and
  the goroutine that reaches the majority first takes the lock again to become leader.
\<close>

definition count_vote :: "ballot \<Rightarrow> ballot \<times> bool" where
  "count_vote b =
     (let b1 = b\<lparr>b_votes := b_votes b + 1\<rparr>
      in if b_majority b1 \<le> b_votes b1 \<and> \<not> b_fired b1 then (b1\<lparr>b_fired := True\<rparr>, True) else (b1, False))"

definition electionResponse ::
  "(LogEntry \<Rightarrow> bytes) \<Rightarrow> append_fault option \<Rightarrow> bool \<Rightarrow> gotime \<Rightarrow> uint64 list \<Rightarrow> RequestVoteResponse \<Rightarrow> ballot \<Rightarrow> 'sm RaftNode \<Rightarrow> 'sm RaftNode \<times> ballot" where
  "electionResponse marshal fault sf now order resp b r =
     (case sendRequestVote_answer sf now order (b_term b) resp r of
        (r1, granted) \<Rightarrow>
          if \<not> granted then (r1, b)
          else
            (case count_vote b of
               (b1, enough) \<Rightarrow> (if enough then becomeLeader marshal fault (b_term b) r1 else r1, b1)))"

lemma electionResponse_eq:
  "electionResponse marshal fault sf now order resp b r =
     (case sendRequestVote_answer sf now order (b_term b) resp r of
        (r1, granted) \<Rightarrow>
          if \<not> granted then (r1, b)
          else
            (let b1 = b\<lparr>b_votes := b_votes b + 1\<rparr>
             in if b_majority b1 \<le> b_votes b1 \<and> \<not> b_fired b1
                then (becomeLeader marshal fault (b_term b) r1, b1\<lparr>b_fired := True\<rparr>)
                else (r1, b1)))"
  by (auto simp: electionResponse_def count_vote_def Let_def split: prod.split)

text \<open>One expiry of the election timer: whether a pre-vote starts.\<close>

definition electionTimer :: "int64 \<Rightarrow> gotime \<Rightarrow> 'sm RaftNode \<Rightarrow> bool" where
  "electionTimer timeout now r = (if state r = Leader then False else timeout \<le> now - lastHeartbeat r)"

definition randomizedElectionTimeout :: "int64 \<Rightarrow> int64 \<Rightarrow> int64 \<Rightarrow> int64" where
  "randomizedElectionTimeout minTimeout maxTimeout draw =
     (if maxTimeout \<le> minTimeout then minTimeout
      else minTimeout + draw mod (maxTimeout - minTimeout + 1))"

declare handleRequestVote_eq [raft_defs] startPreVote_def [raft_defs] preVoteResponse_def [raft_defs]
  startElection_eq [raft_defs] becomeLeader_def [raft_defs] sendRequestVote_answer_def [raft_defs] electionResponse_eq [raft_defs]

section \<open>Votes\<close>

lemma initLeaderState_fields:
  "initLeaderState marshal fault r = (r', e) \<Longrightarrow>
     state r' = state r \<and> currentTerm r' = currentTerm r \<and> votedFor r' = votedFor r \<and> config r' = config r \<and>
     clusterConfig r' = clusterConfig r \<and> persistentState r' = persistentState r"
  by (auto simp: initLeaderState_def reset_peers_def Let_def split: option.splits prod.splits)

lemma becomeLeader_fields [simp]:
  "currentTerm (becomeLeader marshal fault term r) = currentTerm r"
  "votedFor (becomeLeader marshal fault term r) = votedFor r"
  "config (becomeLeader marshal fault term r) = config r"
  "clusterConfig (becomeLeader marshal fault term r) = clusterConfig r"
  "persistentState (becomeLeader marshal fault term r) = persistentState r"
  by (auto simp: becomeLeader_def markFatalLocked_def dest: initLeaderState_fields split: prod.splits option.splits)

lemma becomeLeader_state:
  "state (becomeLeader marshal fault term r) = Leader \<Longrightarrow> state r = Leader \<or> (state r = Candidate \<and> currentTerm r = term)"
  by (auto simp: becomeLeader_def split: if_splits)

end
