(* ===== verification/Replication.thy ===== *)
theory Replication
  imports RaftNode
begin

text \<open>
  Log replication (\<^verbatim>\<open>internal/raft/replication.go\<close>): the follower's side of \<^verbatim>\<open>AppendEntries\<close>,
  the leader's loop for one peer split at the RPC, heartbeats, and the read index.
\<close>

section \<open>Messages\<close>

record AppendEntriesRequest =
  ae_Term :: uint64
  ae_LeaderID :: string
  ae_PrevLogIndex :: uint64
  ae_PrevLogTerm :: uint64
  ae_Entries :: "LogEntry list"
  ae_LeaderCommit :: uint64

record AppendEntriesResponse =
  aer_Term :: uint64
  aer_Success :: bool
  aer_ConflictIndex :: uint64
  aer_ConflictTerm :: uint64

section \<open>The follower\<close>

text \<open>Walk back over the entries of the conflicting term, not below the boundary.\<close>

function conflict_loop :: "RaftLog \<Rightarrow> uint64 \<Rightarrow> uint64 \<Rightarrow> uint64" where
  "conflict_loop l previousTerm ci =
     (if ci \<le> baseIndex l + 1 then ci
      else case TermAt (ci - 1) l of
             Inl _ \<Rightarrow> ci
           | Inr t \<Rightarrow> if t \<noteq> previousTerm then ci else conflict_loop l previousTerm (ci - 1))"
  by pat_completeness auto
termination
  by (relation "measure (\<lambda>(l, p, ci). ci)") auto

declare conflict_loop.simps [simp del]

text \<open>The loop over the entries: whether they are in the log now, or how it ended otherwise.\<close>

datatype entries_result = EntriesApplied | EntriesFailed raft_error | EntriesConflict

fun ae_entries :: "(LogEntry \<Rightarrow> bytes) \<Rightarrow> persist_fault option \<Rightarrow> append_fault option \<Rightarrow> LogEntry list \<Rightarrow> RaftLog \<Rightarrow> RaftLog \<times> entries_result" where
  "ae_entries marshal pf af [] l = (l, EntriesApplied)"
| "ae_entries marshal pf af (e # es) l =
     (case TermAt (Index e) l of
        Inr existingTerm \<Rightarrow>
          if existingTerm = Term e then ae_entries marshal pf af es l
          else (case TruncateAfter marshal pf (Index e - 1) l of
                  (l1, Some er) \<Rightarrow> (l1, EntriesFailed er)
                | (l1, None) \<Rightarrow>
                    (case Append marshal af (e # es) l1 of
                       (l2, Some er) \<Rightarrow> (l2, EntriesFailed er)
                     | (l2, None) \<Rightarrow> (l2, EntriesApplied)))
      | Inl er0 \<Rightarrow>
          if er0 = ErrOutOfRange
          then (case Append marshal af (e # es) l of
                  (l1, Some er) \<Rightarrow> (l1, EntriesFailed er)
                | (l1, None) \<Rightarrow> (l1, EntriesApplied))
          else (l, EntriesConflict))"

text \<open>The check of the previous entry: the refusal to send, if there is one.\<close>

definition prev_check :: "AppendEntriesRequest \<Rightarrow> 'sm RaftNode \<Rightarrow> AppendEntriesResponse option" where
  "prev_check req r =
     (let l = rlog r;
          refuse = (\<lambda>ci ct. Some \<lparr>aer_Term = currentTerm r, aer_Success = False, aer_ConflictIndex = ci, aer_ConflictTerm = ct\<rparr>)
      in if ae_PrevLogIndex req = 0
         then (if 0 < baseIndex l then refuse (FirstIndex l) 0 else None)
         else case TermAt (ae_PrevLogIndex req) l of
                Inl er \<Rightarrow> refuse (if er = ErrLogCompacted then FirstIndex l else u64 (LastIndex l + 1)) 0
              | Inr previousTerm \<Rightarrow>
                  if previousTerm \<noteq> ae_PrevLogTerm req
                  then refuse (conflict_loop l previousTerm (ae_PrevLogIndex req)) previousTerm
                  else None)"

definition commit_from_leader :: "uint64 \<Rightarrow> 'sm RaftNode \<Rightarrow> 'sm RaftNode" where
  "commit_from_leader leaderCommit r =
     (if commitIndex r < leaderCommit
      then r\<lparr>commitIndex := min leaderCommit (LastIndex (rlog r)), commitCh := True\<rparr> else r)"

definition ae_response :: "bool \<Rightarrow> 'sm RaftNode \<Rightarrow> AppendEntriesResponse" where
  "ae_response ok r = \<lparr>aer_Term = currentTerm r, aer_Success = ok, aer_ConflictIndex = 0, aer_ConflictTerm = 0\<rparr>"

text \<open>The handler after the term checks.\<close>

definition ae_log_part ::
  "(LogEntry \<Rightarrow> bytes) \<Rightarrow> persist_fault option \<Rightarrow> append_fault option \<Rightarrow> AppendEntriesRequest \<Rightarrow> 'sm RaftNode \<Rightarrow>
     'sm RaftNode \<times> AppendEntriesResponse \<times> raft_error option" where
  "ae_log_part marshal pf af req r =
     (if ae_Entries req \<noteq> [] \<and> ae_PrevLogIndex req = max_uint64 then (r, ae_response False r, Some ErrNonContiguousLog)
      else case (if ae_Entries req \<noteq> [] then validateEntrySequence (ae_Entries req) (ae_PrevLogIndex req + 1) else None) of
             Some e \<Rightarrow> (r, ae_response False r, Some e)
           | None \<Rightarrow>
               (case prev_check req r of
                  Some resp \<Rightarrow> (r, resp, None)
                | None \<Rightarrow>
                    (case ae_entries marshal pf af (ae_Entries req) (rlog r) of
                       (l1, EntriesFailed e) \<Rightarrow>
                         (let r1 = markStorageFailureLocked e (r\<lparr>rlog := l1\<rparr>) in (r1, ae_response False r1, Some e))
                     | (l1, EntriesConflict) \<Rightarrow>
                         (r\<lparr>rlog := l1\<rparr>, (ae_response False r)\<lparr>aer_ConflictIndex := FirstIndex l1\<rparr>, None)
                     | (l1, EntriesApplied) \<Rightarrow>
                         (let r1 = commit_from_leader (ae_LeaderCommit req) (r\<lparr>rlog := l1\<rparr>) in (r1, ae_response True r1, None)))))"

text \<open>
  The checks at the start, up to the release of the lock in \<^verbatim>\<open>stepDown\<close>, and what follows when the
  lock is held again; nothing looks at the term a second time.
\<close>

definition ae_checks :: "AppendEntriesRequest option \<Rightarrow> 'sm RaftNode \<Rightarrow> raft_error option + AppendEntriesRequest" where
  "ae_checks reqp r =
     (case fatalErr r of
        Some e \<Rightarrow> Inl (Some e)
      | None \<Rightarrow>
          (case reqp of
             None \<Rightarrow> Inl None
           | Some req \<Rightarrow> if ae_Term req < currentTerm r then Inl None else Inr req))"

definition ae_resume ::
  "(LogEntry \<Rightarrow> bytes) \<Rightarrow> persist_fault option \<Rightarrow> append_fault option \<Rightarrow> gotime \<Rightarrow> AppendEntriesRequest \<Rightarrow> 'sm RaftNode \<Rightarrow>
     'sm RaftNode \<times> AppendEntriesResponse \<times> raft_error option" where
  "ae_resume marshal pf af now req r = ae_log_part marshal pf af req (r\<lparr>leaderID := ae_LeaderID req, lastHeartbeat := now\<rparr>)"

definition processAppendEntries ::
  "(LogEntry \<Rightarrow> bytes) \<Rightarrow> persist_fault option \<Rightarrow> append_fault option \<Rightarrow> bool \<Rightarrow> gotime \<Rightarrow> uint64 list \<Rightarrow> AppendEntriesRequest option \<Rightarrow>
     'sm RaftNode \<Rightarrow> 'sm RaftNode \<times> AppendEntriesResponse \<times> raft_error option" where
  "processAppendEntries marshal pf af sf now order reqp r =
     (case ae_checks reqp r of
        Inl e \<Rightarrow> (r, ae_response False r, e)
      | Inr req \<Rightarrow>
          ae_resume marshal pf af now req
            (if currentTerm r < ae_Term req \<or> state r \<noteq> Follower then stepDown sf now order (ae_Term req) r else r))"

lemma processAppendEntries_eq:
  "processAppendEntries marshal pf af sf now order reqp r =
     (case fatalErr r of
        Some e \<Rightarrow> (r, ae_response False r, Some e)
      | None \<Rightarrow>
          (case reqp of
             None \<Rightarrow> (r, ae_response False r, None)
           | Some req \<Rightarrow>
               if ae_Term req < currentTerm r then (r, ae_response False r, None)
               else
                 (let r1 = (if currentTerm r < ae_Term req \<or> state r \<noteq> Follower then stepDown sf now order (ae_Term req) r else r);
                      r2 = r1\<lparr>leaderID := ae_LeaderID req, lastHeartbeat := now\<rparr>
                  in ae_log_part marshal pf af req r2)))"
  by (simp add: processAppendEntries_def ae_checks_def ae_resume_def Let_def split: option.split)

definition handleAppendEntries ::
  "(LogEntry \<Rightarrow> bytes) \<Rightarrow> persist_fault option \<Rightarrow> append_fault option \<Rightarrow> bool \<Rightarrow> gotime \<Rightarrow> uint64 list \<Rightarrow> AppendEntriesRequest option \<Rightarrow>
     'sm RaftNode \<Rightarrow> 'sm RaftNode \<times> AppendEntriesResponse" where
  "handleAppendEntries marshal pf af sf now order reqp r =
     (case processAppendEntries marshal pf af sf now order reqp r of (r1, resp, _) \<Rightarrow> (r1, resp))"

section \<open>The leader\<close>

text \<open>One round of \<^verbatim>\<open>replicateTo\<close> up to the RPC.\<close>

datatype repl_action = ReplError raft_error | ReplSnapshot | ReplSend uint64 AppendEntriesRequest

definition clip_next :: "uint64 \<Rightarrow> uint64 \<Rightarrow> uint64" where
  "clip_next lastIndex ni =
     (let n1 = (if ni = 0 then 1 else ni) in if u64 (lastIndex + 1) < n1 then u64 (lastIndex + 1) else n1)"

definition limit_entries :: "int64 \<Rightarrow> LogEntry list \<Rightarrow> LogEntry list" where
  "limit_entries limit es = (if 0 < limit \<and> limit < int (length es) then take (nat limit) es else es)"

definition replicateTo_request :: "uint64 \<Rightarrow> 'sm RaftNode \<Rightarrow> repl_action" where
  "replicateTo_request ni r =
     (case fatalErr r of
        Some e \<Rightarrow> ReplError e
      | None \<Rightarrow>
          if state r \<noteq> Leader then ReplError ErrNotLeader
          else
            (let l = rlog r; next = clip_next (LastIndex l) ni in
             if next \<le> baseIndex l then ReplSnapshot
             else case TermAt (next - 1) l of
                    Inl er \<Rightarrow> if er = ErrLogCompacted then ReplSnapshot else ReplError er
                  | Inr prevLogTerm \<Rightarrow>
                      (case GetEntriesFrom next l of
                         Inl er \<Rightarrow> if er = ErrLogCompacted then ReplSnapshot else ReplError er
                       | Inr es \<Rightarrow>
                           ReplSend next
                             \<lparr>ae_Term = currentTerm r, ae_LeaderID = NodeID (config r), ae_PrevLogIndex = next - 1,
                              ae_PrevLogTerm = prevLogTerm,
                              ae_Entries = limit_entries (MaxLogEntriesPerRPC (config r)) es,
                              ae_LeaderCommit = commitIndex r\<rparr>)))"

text \<open>The rest of the round, with the answer to \<open>req\<close>: done, or another round from an index.\<close>

datatype repl_next = ReplDone "raft_error option" | ReplContinue uint64

definition record_match :: "string \<Rightarrow> uint64 \<Rightarrow> 'sm RaftNode \<Rightarrow> 'sm RaftNode" where
  "record_match peer newMatch r =
     (let r1 = (if idx (nextIndex r) peer < u64 (newMatch + 1) then r\<lparr>nextIndex := (nextIndex r)(peer \<mapsto> u64 (newMatch + 1))\<rparr> else r)
      in if idx (matchIndex r1) peer < newMatch then r1\<lparr>matchIndex := (matchIndex r1)(peer \<mapsto> newMatch)\<rparr> else r1)"

definition back_off :: "uint64 \<Rightarrow> AppendEntriesResponse \<Rightarrow> uint64" where
  "back_off ni resp =
     (let n1 = (if 0 < aer_ConflictIndex resp then aer_ConflictIndex resp else if 1 < ni then ni - 1 else ni)
      in if n1 = 0 then 1 else n1)"

definition replicateTo_response ::
  "bool \<Rightarrow> gotime \<Rightarrow> uint64 list \<Rightarrow> string \<Rightarrow> uint64 \<Rightarrow> AppendEntriesRequest \<Rightarrow> AppendEntriesResponse \<Rightarrow> 'sm RaftNode \<Rightarrow> 'sm RaftNode \<times> repl_next" where
  "replicateTo_response sf now order peer ni req resp r =
     (if currentTerm r < aer_Term resp then (stepDown sf now order (aer_Term resp) r, ReplDone (Some ErrNotLeader))
      else if state r \<noteq> Leader \<or> currentTerm r \<noteq> ae_Term req then (r, ReplDone (Some ErrNotLeader))
      else if aer_Success resp
      then
        (let newMatch = u64 (ae_PrevLogIndex req + length (ae_Entries req));
             r1 = advanceCommitIndex (record_match peer newMatch r)
         in (r1, if u64 (newMatch + 1) \<le> LastIndex (rlog r1) then ReplContinue (u64 (newMatch + 1)) else ReplDone None))
      else
        (let n1 = back_off ni resp in (r\<lparr>nextIndex := (nextIndex r)(peer \<mapsto> n1)\<rparr>, ReplContinue n1)))"

text \<open>\<^verbatim>\<open>sendHeartbeatOnce\<close>: the request, and the step with an answer.\<close>

definition heartbeat_request :: "'sm RaftNode \<Rightarrow> AppendEntriesRequest" where
  "heartbeat_request r =
     \<lparr>ae_Term = currentTerm r, ae_LeaderID = NodeID (config r), ae_PrevLogIndex = 0, ae_PrevLogTerm = 0, ae_Entries = [], ae_LeaderCommit = 0\<rparr>"

definition heartbeat_response :: "bool \<Rightarrow> gotime \<Rightarrow> uint64 list \<Rightarrow> AppendEntriesResponse \<Rightarrow> 'sm RaftNode \<Rightarrow> 'sm RaftNode" where
  "heartbeat_response sf now order resp r =
     (if currentTerm r < aer_Term resp then stepDown sf now order (aer_Term resp) r else r)"

section \<open>The read index\<close>

record read_round =
  rr_index :: uint64
  rr_term :: uint64
  rr_size :: nat
  rr_majority :: nat

definition ReadIndex_start :: "'sm RaftNode \<Rightarrow> raft_error + read_round" where
  "ReadIndex_start r =
     (case fatalErr r of
        Some e \<Rightarrow> Inl e
      | None \<Rightarrow>
          if state r \<noteq> Leader then Inl ErrNotLeader
          else if \<not> noopCommitted r then Inl ErrLeaderNotReady
          else Inr \<lparr>rr_index = commitIndex r, rr_term = currentTerm r, rr_size = Size (clusterConfig r), rr_majority = Majority (clusterConfig r)\<rparr>)"

text \<open>What a peer's answer contributes; \<open>None\<close> is a failed RPC.\<close>

definition read_confirms :: "uint64 \<Rightarrow> AppendEntriesResponse option \<Rightarrow> bool" where
  "read_confirms term resp = (case resp of None \<Rightarrow> False | Some a \<Rightarrow> \<not> term < aer_Term a)"

text \<open>The loop over the confirmations, in the order in which they arrive.\<close>

datatype read_outcome = ReadConfirmed | ReadNotLeader | ReadWaiting

fun read_loop :: "nat \<Rightarrow> nat \<Rightarrow> nat \<Rightarrow> nat \<Rightarrow> bool list \<Rightarrow> read_outcome" where
  "read_loop majority sz tot confirmed [] = (if tot < sz then ReadWaiting else ReadNotLeader)"
| "read_loop majority sz tot confirmed (ok # oks) =
     (if sz \<le> tot then ReadNotLeader
      else
        (let tot' = tot + 1; confirmed' = (if ok then confirmed + 1 else confirmed) in
         if majority \<le> confirmed' then ReadConfirmed
         else if sz - majority < tot' - confirmed' then ReadNotLeader
         else read_loop majority sz tot' confirmed' oks))"

text \<open>The leader's own confirmation is in the channel before any other.\<close>

definition ReadIndex_collect :: "read_round \<Rightarrow> AppendEntriesResponse option list \<Rightarrow> read_outcome" where
  "ReadIndex_collect rr answers =
     (if rr_size rr = 1 then ReadConfirmed
      else read_loop (rr_majority rr) (rr_size rr) 0 0 (True # map (read_confirms (rr_term rr)) answers))"

definition waitForApply :: "uint64 \<Rightarrow> 'sm RaftNode \<Rightarrow> uint64 option" where
  "waitForApply index r = (if index \<le> lastApplied r then Some index else None)"

declare ae_log_part_def [raft_defs] processAppendEntries_eq [raft_defs] replicateTo_response_def [raft_defs]

end
