(* ===== verification/Quorum.thy ===== *)
theory Quorum
  imports RaftNode
begin

text \<open>
  Majorities of a cluster configuration (\<^verbatim>\<open>ClusterConfig.Majority\<close>): the interface elections
  and commitment rely on is that two quorums share a member.
\<close>

section \<open>Interface\<close>

locale quorums =
  fixes quorum :: "'a set \<Rightarrow> bool"
  assumes overlap: "quorum A \<Longrightarrow> quorum B \<Longrightarrow> A \<inter> B \<noteq> {}"
begin

text \<open>When no voter votes twice, two candidates with a quorum of votes are the same.\<close>

lemma one_winner:
  assumes "quorum A" "quorum B" "\<And>p. p \<in> A \<Longrightarrow> V p c" "\<And>p. p \<in> B \<Longrightarrow> V p d"
    and "\<And>p x y. V p x \<Longrightarrow> V p y \<Longrightarrow> x = y"
  shows "c = d"
proof -
  obtain p where "p \<in> A" "p \<in> B" using overlap [OF assms(1,2)] by blast
  then show ?thesis using assms(3-5) by blast
qed

text \<open>What a quorum has seen, a member of every other quorum has seen.\<close>

lemma seen_by_every_quorum:
  assumes "quorum A" "\<And>p. p \<in> A \<Longrightarrow> seen p" "quorum B"
  shows "\<exists>p \<in> B. seen p"
  using overlap [OF assms(1,3)] assms(2) by blast

end

text \<open>Two quorum systems that can follow each other.\<close>

locale quorum_change = old: quorums old_quorum + new: quorums new_quorum
  for old_quorum new_quorum :: "'a set \<Rightarrow> bool" +
  assumes cross: "old_quorum A \<Longrightarrow> new_quorum B \<Longrightarrow> A \<inter> B \<noteq> {}"
begin

lemma one_winner_across:
  assumes "old_quorum A" "new_quorum B" "\<And>p. p \<in> A \<Longrightarrow> V p c" "\<And>p. p \<in> B \<Longrightarrow> V p d"
    and "\<And>p x y. V p x \<Longrightarrow> V p y \<Longrightarrow> x = y"
  shows "c = d"
proof -
  obtain p where "p \<in> A" "p \<in> B" using cross [OF assms(1,2)] by blast
  then show ?thesis using assms(3-5) by blast
qed

end

section \<open>Majorities\<close>

definition members :: "peers \<Rightarrow> string set" where
  "members c = fst ` set c"

definition is_quorum :: "peers \<Rightarrow> string set \<Rightarrow> bool" where
  "is_quorum c Q \<longleftrightarrow> Q \<subseteq> members c \<and> Majority c \<le> card Q"

lemma finite_members [simp]: "finite (members c)"
  by (simp add: members_def)

lemma card_members: "card (members c) \<le> Size c"
  unfolding members_def Size_def by (metis card_image_le card_length finite_set le_trans)

lemma overlap_by_counting:
  assumes "finite U" "A \<subseteq> U" "B \<subseteq> U" "card U < card A + card B"
  shows "A \<inter> B \<noteq> {}"
proof
  assume "A \<inter> B = {}"
  then have "card (A \<union> B) = card A + card B"
    using assms(1-3) by (intro card_Un_disjoint) (auto intro: finite_subset)
  moreover have "card (A \<union> B) \<le> card U" using assms(1-3) by (intro card_mono) auto
  ultimately show False using assms(4) by simp
qed

interpretation maj: quorums "is_quorum c"
  for c
proof
  fix A B
  assume "is_quorum c A" "is_quorum c B"
  then show "A \<inter> B \<noteq> {}"
    using card_members [of c] by (intro overlap_by_counting [of "members c"]) (auto simp: is_quorum_def Majority_def)
qed

section \<open>Adding and removing one server\<close>

lemma members_AddPeer: "members (AddPeer p a c) = insert p (members c)"
  using AList.dom_update [of p a c] by (simp add: AddPeer_def members_def)

lemma members_RemovePeer: "members (RemovePeer p c) = members c - {p}"
  proof -
  have "fst ` set (AList.delete p c) = set (removeAll p (map fst c))" by (metis AList.delete_keys list.set_map)
  then show ?thesis by (simp add: RemovePeer_def members_def)
qed

lemma Size_members: "distinct (map fst c) \<Longrightarrow> Size c = card (members c)"
  by (metis Size_def members_def distinct_card length_map list.set_map)

lemma distinct_AddPeer: "distinct (map fst c) \<Longrightarrow> distinct (map fst (AddPeer p a c))"
  by (simp add: AddPeer_def AList.distinct_update)

lemma distinct_RemovePeer: "distinct (map fst c) \<Longrightarrow> distinct (map fst (RemovePeer p c))"
  by (simp add: RemovePeer_def AList.distinct_delete)

lemma change_overlap:
  assumes c: "distinct (map fst c)" "distinct (map fst d)" and sub: "members c \<subseteq> insert p (members d)" "members d \<subseteq> insert p (members c)"
    and q: "is_quorum c A" "is_quorum d B"
  shows "A \<inter> B \<noteq> {}"
proof -
  let ?U = "members c \<union> members d"
  have sz: "Size c = card (members c)" "Size d = card (members d)" using Size_members c by auto
  have "card (members c) \<le> card (insert p (members d))" "card (members d) \<le> card (insert p (members c))"
    using sub by (auto intro!: card_mono)
  then have le: "card (members c) \<le> Suc (card (members d))" "card (members d) \<le> Suc (card (members c))"
    using card_insert_le_m1 [of "Suc (card (members d))" "members d" p] card_insert_le_m1 [of "Suc (card (members c))" "members c" p] by auto
  have U: "card ?U \<le> max (card (members c)) (card (members d)) \<or> (p \<in> members c) \<noteq> (p \<in> members d)"
  proof (cases "(p \<in> members c) = (p \<in> members d)")
    case True
    then have "members c = members d" using sub by blast
    then show ?thesis by simp
  qed simp
  have big: "card ?U = max (card (members c)) (card (members d))" if "(p \<in> members c) \<noteq> (p \<in> members d)"
  proof (cases "p \<in> members c")
    case True
    then have "?U = members c" using sub that by blast
    moreover have "card (members d) \<le> card ?U" by (intro card_mono) auto
    ultimately show ?thesis by simp
  next
    case False
    then have "?U = members d" using sub that by blast
    moreover have "card (members c) \<le> card ?U" by (intro card_mono) auto
    ultimately show ?thesis by simp
  qed
  show ?thesis
  proof (rule overlap_by_counting [of ?U])
    show "A \<subseteq> ?U" "B \<subseteq> ?U" using q by (auto simp: is_quorum_def)
    have "card (members c) div 2 + 1 + (card (members d) div 2 + 1) \<le> card A + card B"
      using q sz by (simp add: is_quorum_def Majority_def)
    then show "card ?U < card A + card B" using U big le by (auto simp: max_def split: if_splits)
  qed simp
qed

interpretation add: quorum_change "is_quorum c" "\<lambda>Q. distinct (map fst c) \<and> is_quorum (AddPeer p a c) Q"
  for c p a
proof
  fix A B
  assume "distinct (map fst c) \<and> is_quorum (AddPeer p a c) A" "distinct (map fst c) \<and> is_quorum (AddPeer p a c) B"
  then show "A \<inter> B \<noteq> {}" using maj.overlap by blast
next
  fix A B
  assume "is_quorum c A" "distinct (map fst c) \<and> is_quorum (AddPeer p a c) B"
  then show "A \<inter> B \<noteq> {}"
    by (intro change_overlap [of c "AddPeer p a c" p]) (auto simp: distinct_AddPeer members_AddPeer)
qed

interpretation rem: quorum_change "is_quorum c" "\<lambda>Q. distinct (map fst c) \<and> is_quorum (RemovePeer p c) Q"
  for c p
proof
  fix A B
  assume "distinct (map fst c) \<and> is_quorum (RemovePeer p c) A" "distinct (map fst c) \<and> is_quorum (RemovePeer p c) B"
  then show "A \<inter> B \<noteq> {}" using maj.overlap by blast
next
  fix A B
  assume "is_quorum c A" "distinct (map fst c) \<and> is_quorum (RemovePeer p c) B"
  then show "A \<inter> B \<noteq> {}"
    by (intro change_overlap [of c "RemovePeer p c" p]) (auto simp: distinct_RemovePeer members_RemovePeer)
qed

end
