(* ===== verification/Cluster.thy ===== *)
theory Cluster
  imports Election Replication RaftLoop Quorum
begin

text \<open>
  A cluster of nodes that exchange votes, and election safety. The steps are the handlers of the
  nodes, whole and in the pieces between two releases of a node's lock: elections with their
  requests and answers on a network that may lose, repeat, delay and reorder messages, the saving
  of term and vote, which may fail and happen in any order, every other handler with arbitrary
  contents of its messages, and the crash of a node followed by a start from its files. The
  configuration is fixed, terms do not wrap, and a node starts again only when its state file holds
  the term and the vote it had in memory.
\<close>

section \<open>State and steps\<close>

text \<open>
  A running election is its locals with the peers whose goroutine has finished and those whose
  vote was counted. A goroutine that waits for the lock of its node is a continuation: a handler of
  a vote request in \<^verbatim>\<open>stepDown\<close> or saving its vote, an election that saves its own vote, an election
  with enough votes. Like a message it may be taken up more than once, which stands for several
  goroutines at the same place. \<open>saves\<close> are the terms and votes that were read to be saved. \<open>votes\<close>
  records who voted for whom in which term; no step reads it.
\<close>

datatype continuation =
    Voting string string RequestVoteRequest
  | Voted string string RequestVoteRequest
  | Electing string uint64
  | Winning string uint64

fun runs_on :: "continuation \<Rightarrow> string" where
  "runs_on (Voting n p req) = p"
| "runs_on (Voted n p req) = p"
| "runs_on (Electing n t) = n"
| "runs_on (Winning n t) = n"

record 'sm cluster =
  nodes :: "string \<Rightarrow> 'sm RaftNode"
  ballots :: "string \<Rightarrow> uint64 \<Rightarrow> (ballot \<times> string set \<times> string set) option"
  requests :: "(string \<times> string \<times> RequestVoteRequest) set"
  answers :: "(string \<times> string \<times> RequestVoteRequest \<times> RequestVoteResponse) set"
  saves :: "(string \<times> uint64 \<times> string) set"
  waiting :: "continuation set"
  votes :: "(string \<times> uint64 \<times> string) set"

definition put_node :: "string \<Rightarrow> 'sm RaftNode \<Rightarrow> 'sm cluster \<Rightarrow> 'sm cluster" where
  "put_node n r s = s\<lparr>nodes := (nodes s)(n := r)\<rparr>"

text \<open>
  The handlers that take no part in an election, on one node, and what is left of them when they were
  interrupted: the rest of an \<^verbatim>\<open>AppendEntries\<close> or an \<^verbatim>\<open>InstallSnapshot\<close> after \<^verbatim>\<open>stepDown\<close>, the end of a
  flush, the application of an entry. \<open>quiet_piece\<close> stands for every other piece of code between two
  releases of the lock that leaves the term and the vote alone and makes nobody candidate or leader,
  such as the end of \<^verbatim>\<open>stepDown\<close> and the write of a batch to the log.
\<close>

inductive quiet_step :: "'sm RaftNode \<Rightarrow> 'sm RaftNode \<Rightarrow> bool" where
  quiet_prevote: "startPreVote now r = (r', res) \<Longrightarrow> quiet_step r r'"
| quiet_prevote_answer: "preVoteResponse sf now order resp b r = (r', b', go) \<Longrightarrow> quiet_step r r'"
| quiet_prevote_request: "rv_PreVote req \<Longrightarrow> handleRequestVote sf sf' now order (Some req) r = (r', resp) \<Longrightarrow> quiet_step r r'"
| quiet_append: "processAppendEntries marshal pf af sf now order reqp r = (r', resp, err) \<Longrightarrow> quiet_step r r'"
| quiet_replicate: "replicateTo_response sf now order peer ni req resp r = (r', res') \<Longrightarrow> quiet_step r r'"
| quiet_heartbeat: "heartbeat_response sf now order resp r = r' \<Longrightarrow> quiet_step r r'"
| quiet_flush: "flush marshal af batch r = r' \<Longrightarrow> quiet_step r r'"
| quiet_flushed: "flush_finish es batch err' r = r' \<Longrightarrow> quiet_step r r'"
| quiet_propose: "ProposeMembershipChange marshal mjson' af change r = (r', err') \<Longrightarrow> quiet_step r r'"
| quiet_finish: "ProposeMembershipChange_finish r = r' \<Longrightarrow> quiet_step r r'"
| quiet_apply: "apply_one ujson sf now order sm r = Some (r', due) \<Longrightarrow> quiet_step r r'"
| quiet_snapshot: "takeSnapshot marshal mjson sm pf wr r = (r', err') \<Longrightarrow> quiet_step r r'"
| quiet_send: "sendSnapshot_response sf now order peer req' t r = (r', nx) \<Longrightarrow> quiet_step r r'"
| quiet_install: "handleInstallSnapshot marshal mjson sm pf wr ff sf now order reqp' r = (r', t, err') \<Longrightarrow> quiet_step r r'"
| quiet_resume: "ae_resume marshal pf af now req'' r = (r', resp'', err) \<Longrightarrow> quiet_step r r'"
| quiet_chunk: "receive_chunk marshal mjson sm pf wr ff chunk (r\<lparr>leaderID := x, lastHeartbeat := now\<rparr>) = (r', t, err') \<Longrightarrow> quiet_step r r'"
| quiet_applied: "apply_rest ujson sf now order sm i entry r = Some (r', due) \<Longrightarrow> quiet_step r r'"
| quiet_piece: "config r' = config r \<Longrightarrow> currentTerm r' = currentTerm r \<Longrightarrow> votedFor r' = votedFor r \<Longrightarrow>
     state r' = state r \<or> state r' = Follower \<or> state r' = PreCandidate \<Longrightarrow> quiet_step r r'"

text \<open>The state file holds the term and the vote the node has in memory.\<close>

definition saved :: "'sm RaftNode \<Rightarrow> bool" where
  "saved r \<longleftrightarrow>
     DataDir (config r) \<noteq> [] \<and> ps_dir (persistentState r) = DataDir (config r) \<and>
     (ps_file (persistentState r) = Some (currentTerm r, votedFor r) \<or>
      ps_file (persistentState r) = None \<and> currentTerm r = 0 \<and> votedFor r = [])"

text \<open>
  The first group are the handlers run to their end at once. The second group are their pieces: the
  start of a \<^verbatim>\<open>stepDown\<close>, for whatever reason, and a save that was due; the handler of a vote request
  up to the lock's release in \<^verbatim>\<open>stepDown\<close>, its decision, and its answer; an election up to the save,
  after it, the count of a vote, and the step to leader. The vote of a handler that was overtaken by
  a later term is not recorded, since it is no vote in the term of the request.
\<close>

inductive cluster_step :: "peers \<Rightarrow> 'sm cluster \<Rightarrow> 'sm cluster \<Rightarrow> bool"
  for c :: peers where
  elect: "n \<in> members c \<Longrightarrow> startElection sf now (nodes s n) = (r', ElectionSent req b) \<Longrightarrow> currentTerm (nodes s n) + 1 < 2 ^ 64 \<Longrightarrow>
     cluster_step c s ((put_node n r' s)
       \<lparr>votes := insert (n, rv_Term req, n) (votes s),
        ballots := (ballots s)(n := (ballots s n)(rv_Term req \<mapsto> (b, {}, {}))),
        requests := requests s \<union> {(n, p, req) | p. p \<in> set (b_peers b)}\<rparr>)"
| elect_alone: "n \<in> members c \<Longrightarrow> startElection sf now (nodes s n) = (r', ElectionWon t) \<Longrightarrow> currentTerm (nodes s n) + 1 < 2 ^ 64 \<Longrightarrow>
     cluster_step c s ((put_node n (becomeLeader marshal af t r') s)\<lparr>votes := insert (n, t, n) (votes s)\<rparr>)"
| vote: "(n, p, req) \<in> requests s \<Longrightarrow> handleRequestVote sf sf' now order (Some req) (nodes s p) = (r', resp) \<Longrightarrow>
     cluster_step c s ((put_node p r' s)
       \<lparr>votes := (if rvr_VoteGranted resp then insert (p, rv_Term req, n) (votes s) else votes s),
        answers := insert (n, p, req, resp) (answers s)\<rparr>)"
| tally: "(n, p, req, resp) \<in> answers s \<Longrightarrow> ballots s n (rv_Term req) = Some (b, finished, counted) \<Longrightarrow> p \<notin> finished \<Longrightarrow>
     electionResponse marshal af sf now order resp b (nodes s n) = (r', b') \<Longrightarrow>
     cluster_step c s ((put_node n r' s)
       \<lparr>ballots := (ballots s)(n := (ballots s n)(rv_Term req \<mapsto>
          (b', insert p finished, if b_votes b' = b_votes b then counted else insert p counted)))\<rparr>)"
| quiet: "n \<in> members c \<Longrightarrow> quiet_step (nodes s n) r' \<Longrightarrow> clusterConfig r' = c \<Longrightarrow> cluster_step c s (put_node n r' s)"
| restart: "n \<in> members c \<Longrightarrow> NewRaftNode marshal unmarshal mjson ujson' now (config (nodes s n)) sm s0 (files_of (nodes s n)) = Some (Inr r') \<Longrightarrow>
     clusterConfig r' = c \<Longrightarrow> saved (nodes s n) \<Longrightarrow>
     cluster_step c s ((put_node n r' s)
       \<lparr>ballots := (ballots s)(n := Map.empty), saves := {x \<in> saves s. fst x \<noteq> n}, waiting := {g \<in> waiting s. runs_on g \<noteq> n}\<rparr>)"
| step_down: "n \<in> members c \<Longrightarrow> stepDown_begin now t (nodes s n) = r' \<Longrightarrow>
     cluster_step c s ((put_node n r' s)\<lparr>saves := insert (n, currentTerm r', votedFor r') (saves s)\<rparr>)"
| save: "(n, t, v) \<in> saves s \<Longrightarrow> n \<in> members c \<Longrightarrow> cluster_step c s (put_node n (save_state sf t v (nodes s n)) s)"
| vote_begin: "(n, p, req) \<in> requests s \<Longrightarrow> vote_checks now (Some req) (nodes s p) = Some req' \<Longrightarrow> stepDown_begin now (rv_Term req) (nodes s p) = r' \<Longrightarrow>
     cluster_step c s ((put_node p (if currentTerm (nodes s p) < rv_Term req then r' else nodes s p) s)
       \<lparr>saves := (if currentTerm (nodes s p) < rv_Term req then insert (p, currentTerm r', votedFor r') (saves s) else saves s),
        waiting := insert (Voting n p req) (waiting s)\<rparr>)"
| vote_cast: "Voting n p req \<in> waiting s \<Longrightarrow> vote_part now req (nodes s p) = (r', VoteSave t v) \<Longrightarrow>
     cluster_step c s ((put_node p r' s)
       \<lparr>votes := (if t = rv_Term req then insert (p, t, v) (votes s) else votes s), saves := insert (p, t, v) (saves s),
        waiting := insert (Voted n p req) (waiting s)\<rparr>)"
| vote_refuse: "Voting n p req \<in> waiting s \<Longrightarrow> vote_part now req (nodes s p) = (r', VoteAnswer resp) \<Longrightarrow>
     cluster_step c s ((put_node p r' s)\<lparr>answers := insert (n, p, req, resp) (answers s)\<rparr>)"
| vote_answer: "Voted n p req \<in> waiting s \<Longrightarrow>
     cluster_step c s (s\<lparr>answers := insert (n, p, req, vote_response True (nodes s p)) (answers s)\<rparr>)"
| elect_begin: "n \<in> members c \<Longrightarrow> startElection_begin now (nodes s n) = Some r' \<Longrightarrow> currentTerm (nodes s n) + 1 < 2 ^ 64 \<Longrightarrow>
     cluster_step c s ((put_node n r' s)
       \<lparr>votes := insert (n, currentTerm r', n) (votes s), saves := insert (n, currentTerm r', votedFor r') (saves s),
        waiting := insert (Electing n (currentTerm r')) (waiting s)\<rparr>)"
| elect_send: "Electing n t \<in> waiting s \<Longrightarrow> startElection_check t (nodes s n) = ElectionSent req b \<Longrightarrow>
     cluster_step c s (s\<lparr>ballots := (ballots s)(n := (ballots s n)(t \<mapsto> (b, {}, {}))),
        requests := requests s \<union> {(n, p, req) | p. p \<in> set (b_peers b)}\<rparr>)"
| elect_wins: "Electing n t \<in> waiting s \<Longrightarrow> startElection_check t (nodes s n) = ElectionWon t' \<Longrightarrow>
     cluster_step c s (s\<lparr>waiting := insert (Winning n t') (waiting s)\<rparr>)"
| count: "(n, p, req, resp) \<in> answers s \<Longrightarrow> ballots s n (rv_Term req) = Some (b, finished, counted) \<Longrightarrow> p \<notin> finished \<Longrightarrow>
     sendRequestVote_answer sf now order (b_term b) resp (nodes s n) = (r', True) \<Longrightarrow> count_vote b = (b', enough) \<Longrightarrow>
     cluster_step c s (s\<lparr>ballots := (ballots s)(n := (ballots s n)(rv_Term req \<mapsto> (b', insert p finished, insert p counted))),
        waiting := (if enough then insert (Winning n (b_term b)) (waiting s) else waiting s)\<rparr>)"
| win: "Winning n t \<in> waiting s \<Longrightarrow> cluster_step c s (put_node n (becomeLeader marshal af t (nodes s n)) s)"

text \<open>The start: members with non-empty names, their own directory, and nobody leading yet.\<close>

definition cluster_init :: "peers \<Rightarrow> 'sm cluster \<Rightarrow> bool" where
  "cluster_init c s \<longleftrightarrow>
     (\<forall>n \<in> members c. NodeID (config (nodes s n)) = n \<and> clusterConfig (nodes s n) = c \<and> state (nodes s n) \<noteq> Leader) \<and>
     [] \<notin> members c \<and> ballots s = (\<lambda>n t. None) \<and> requests s = {} \<and> answers s = {} \<and>
     saves s = {} \<and> waiting s = {} \<and> votes s = {}"

section \<open>Quiet handlers\<close>

text \<open>
  What every handler outside elections keeps: the term does not fall, the vote of a term is
  not changed, and nobody becomes leader or candidate.
\<close>

definition calm :: "'sm RaftNode \<Rightarrow> 'sm RaftNode \<Rightarrow> bool" where
  "calm r r' \<longleftrightarrow>
     config r' = config r \<and> currentTerm r \<le> currentTerm r' \<and>
     (currentTerm r' = currentTerm r \<longrightarrow> votedFor r' = votedFor r) \<and>
     (state r' = Leader \<longrightarrow> state r = Leader \<and> currentTerm r' = currentTerm r) \<and>
     (state r' = Candidate \<longrightarrow> state r = Candidate \<and> currentTerm r' = currentTerm r)"

lemma calm_refl [simp]: "calm r r"
  by (simp add: calm_def)

lemma calm_trans: "calm r r1 \<Longrightarrow> calm r1 r2 \<Longrightarrow> calm r r2"
  by (auto simp: calm_def)

lemma calm_stepDown [simp]: "calm r (stepDown sf now order t r)"
  by (auto simp: calm_def)

lemma calm_stepDown_begin [simp]: "calm r (stepDown_begin now t r)"
  by (auto simp: calm_def)

lemma calm_fields:
  "config r' = config r \<Longrightarrow> currentTerm r' = currentTerm r \<Longrightarrow> votedFor r' = votedFor r \<Longrightarrow>
     state r' = state r \<or> state r' \<noteq> Leader \<and> state r' \<noteq> Candidate \<Longrightarrow> calm r r'"
  by (auto simp: calm_def)

lemma calm_save [simp]: "calm r (save_state sf t v r)"
  by (rule calm_fields) simp_all

lemma calm_after_stepDown:
  "calm (if b then stepDown sf now order t r else r) r' \<Longrightarrow> calm r r'"
  by (cases b) (auto intro: calm_trans [OF calm_stepDown])

lemma calm_append_log: "ae_log_part marshal pf af req r = (r', resp, err) \<Longrightarrow> calm r r'"
  by (rule calm_fields)
    (auto simp: ae_log_part_def commit_from_leader_def markStorageFailureLocked_def markFatalLocked_def Let_def
      split: if_splits option.splits prod.splits entries_result.splits)

lemma calm_update: "calm r (r\<lparr>rlog := a\<rparr>)" "calm r (r\<lparr>stateMachine := b\<rparr>)" "calm r (r\<lparr>installSnapshot := c\<rparr>)"
  "calm r (r\<lparr>snapshotFile := d\<rparr>)" "calm r (r\<lparr>commitCh := e\<rparr>)" "calm r (r\<lparr>leaderID := f, lastHeartbeat := g\<rparr>)"
  "calm r (r\<lparr>rlog := a, stateMachine := b\<rparr>)" "calm r (markFatalLocked r)" "calm r (adopt_snapshot meta data r)"
  "calm r (reconcileTransportPeers old new r)" "calm r (r\<lparr>lastApplied := h\<rparr>)" "calm r (r\<lparr>noopCommitted := i\<rparr>)"
  "calm r (apply_answer entry ae r)" "calm r (r\<lparr>clusterConfig := j, pendingMembership := k\<rparr>)"
  by (rule calm_fields; simp add: markFatalLocked_def adopt_snapshot_def reconcileTransportPeers_def apply_answer_def Let_def split: option.split)+

lemmas calm_then = calm_update [THEN [2] calm_trans]

lemma calm_persist: "persistSnapshot mjson wr meta data r = (r1, e) \<Longrightarrow> calm r r1"
  by (auto simp: persistSnapshot_def split: if_splits sum.splits prod.splits intro: calm_update)

lemma calm_finalize:
  assumes "finalizeInstalledSnapshot marshal mjson sm pf wr meta data r = (r', err)"
  shows "calm r r'"
proof -
  obtain r1 e where r1: "persistSnapshot mjson wr meta data r = (r1, e)" by fastforce
  then have c: "calm r r1" by (rule calm_persist)
  show ?thesis
    using assms r1 c
    by (auto simp: finalizeInstalledSnapshot_def Let_def split: option.splits prod.splits if_splits intro!: calm_then)
qed

lemma calm_open: "open_transfer ff req r = (r1, x) \<Longrightarrow> calm r r1"
  by (auto simp: open_transfer_def discardInstallSnapshotLocked_def Let_def split: if_splits option.splits sum.splits intro: calm_update)

lemma calm_finish: "finish_transfer marshal mjson sm pf wr ff s r = (r', t, err) \<Longrightarrow> calm r r'"
  by (auto simp: finish_transfer_def discardInstallSnapshotLocked_def split: if_splits sum.splits prod.splits option.splits
      intro: calm_update calm_then calm_finalize)

lemma calm_chunk:
  assumes "receive_chunk marshal mjson sm pf wr ff req r = (r', t, err)"
  shows "calm r r'"
proof -
  obtain r1 x where o: "open_transfer ff req r = (r1, x)" by fastforce
  have c: "calm r r1" by (rule calm_open [OF o])
  show ?thesis
  proof (cases x)
    case (Inl e)
    then show ?thesis using assms o c by (simp add: receive_chunk_def)
  next
    case (Inr s)
    obtain s1 e where s1: "appendChunk ff (in_Offset req) (in_Data req) s = (s1, e)" by fastforce
    let ?r2 = "r1\<lparr>installSnapshot := Some s1\<rparr>"
    have c2: "calm r ?r2" using c by (rule calm_then)
    have "r' = ?r2 \<or> finish_transfer marshal mjson sm pf wr ff s1 ?r2 = (r', t, err)"
      using assms o Inr s1 by (auto simp: receive_chunk_def Let_def split: option.splits if_splits)
    then show ?thesis using c2 calm_trans [OF c2 calm_finish] by blast
  qed
qed

text \<open>The first lines of the handlers of a leader's messages.\<close>

lemma calm_heard: "calm r ((if b then stepDown sf now order t r else r)\<lparr>leaderID := x, lastHeartbeat := y\<rparr>)"
  by (rule calm_after_stepDown) (rule calm_update)

lemma calm_append:
  assumes "processAppendEntries marshal pf af sf now order reqp r = (r', resp, err)"
  shows "calm r r'"
proof (cases reqp)
  case (Some req)
  define r1 where "r1 = (if currentTerm r < ae_Term req \<or> state r \<noteq> Follower then stepDown sf now order (ae_Term req) r else r)\<lparr>leaderID := ae_LeaderID req, lastHeartbeat := now\<rparr>"
  have c1: "calm r r1" unfolding r1_def by (rule calm_heard)
  have "r' = r \<or> ae_log_part marshal pf af req r1 = (r', resp, err)"
    using assms unfolding processAppendEntries_eq Some Let_def option.case r1_def [symmetric] by (auto split: option.splits if_splits)
  then show ?thesis using calm_trans [OF c1 calm_append_log] by auto
qed (use assms in \<open>auto simp: processAppendEntries_eq split: option.splits\<close>)

lemma calm_install:
  assumes "handleInstallSnapshot marshal mjson sm pf wr ff sf now order reqp r = (r', t, err)"
  shows "calm r r'"
proof (cases reqp)
  case (Some req)
  define r1 where "r1 = (if currentTerm r < in_Term req \<or> state r \<noteq> Follower then stepDown sf now order (in_Term req) r else r)\<lparr>leaderID := in_LeaderID req, lastHeartbeat := now\<rparr>"
  have c1: "calm r r1" unfolding r1_def by (rule calm_heard)
  have "r' = r \<or> r' = r1 \<or> receive_chunk marshal mjson sm pf wr ff req r1 = (r', t, err)"
    using assms unfolding handleInstallSnapshot_def Some Let_def option.case r1_def [symmetric] by (auto split: option.splits if_splits)
  then show ?thesis using c1 calm_trans [OF c1 calm_chunk] by auto
qed (use assms in \<open>simp add: handleInstallSnapshot_def\<close>)

lemma calm_membership: "calm r (fst (applyMembership ujson sf now order entry r))"
proof (cases "ujson (Command entry)")
  case (Some ch)
  let ?r0 = "r\<lparr>nextIndex := (nextIndex r)(mc_NodeID ch := None), matchIndex := (matchIndex r)(mc_NodeID ch := None),
      transportOps := transportOps r @ [TransportRemovePeer (mc_NodeID ch)]\<rparr>"
  have "calm r ?r0" by (rule calm_fields) simp_all
  then have "calm r (stepDown sf now order (currentTerm r) ?r0)" using calm_stepDown calm_trans by blast
  then show ?thesis
    using Some by (auto simp: applyMembership_def Let_def intro: calm_then calm_fields)
qed (simp add: applyMembership_def)

lemma calm_apply_rest:
  assumes "apply_rest ujson sf now order sm i entry r = Some (r', due)"
  shows "calm r r'"
proof -
  define res where "res = (if Type entry = EntryMembership then Some (applyMembership ujson sf now order entry r)
      else map_option (\<lambda>(s, e). (r\<lparr>stateMachine := s\<rparr>, e)) (sm_Apply sm entry (stateMachine r)))"
  obtain r1 ae where r1: "res = Some (r1, ae)"
    using assms by (auto simp: apply_rest_def Let_def res_def [symmetric] split: option.splits)
  have c: "calm r r1"
    using r1 calm_membership [of r ujson sf now order entry] calm_update(2) unfolding res_def by (auto split: if_splits)
  have "r' = apply_answer entry ae (if Type entry = EntryNoop \<and> state r1 = Leader \<and> Term entry = currentTerm r1
      then r1\<lparr>lastApplied := i, noopCommitted := True\<rparr> else r1\<lparr>lastApplied := i\<rparr>)"
    using assms r1 unfolding apply_rest_def Let_def res_def [symmetric] by (auto simp add: res_def [symmetric])
  then show ?thesis by (auto intro!: calm_then(11-13) c)
qed

lemma calm_apply: "apply_one ujson sf now order sm r = Some (r', due) \<Longrightarrow> calm r r'"
  by (auto simp: apply_one_def split: sum.splits intro: calm_apply_rest)

lemma calm_flushed: "calm r (flush_finish es batch err r)"
  by (rule calm_fields; cases err; cases "state r = Leader")
    (auto simp: flush_finish_def answer_all_def markStorageFailureLocked_def markFatalLocked_def Let_def)

lemma calm_quiet: "quiet_step r r' \<Longrightarrow> calm r r'"
proof (induction rule: quiet_step.induct)
  case quiet_prevote
  then show ?case by (auto simp: startPreVote_def Let_def split: if_splits intro!: calm_fields)
next
  case quiet_prevote_answer
  then show ?case by (auto simp: preVoteResponse_def Let_def split: if_splits)
next
  case quiet_prevote_request
  then show ?case by (auto simp: handleRequestVote_eq Let_def split: if_splits)
next
  case quiet_append
  then show ?case by (rule calm_append)
next
  case quiet_replicate
  then show ?case by (auto simp: replicateTo_response_def record_match_def Let_def split: if_splits intro: calm_fields)
next
  case quiet_heartbeat
  then show ?case by (auto simp: heartbeat_response_def)
next
  case quiet_flush
  then show ?case
    by (auto simp: flush_def flush_finish_def answer_all_def markStorageFailureLocked_def markFatalLocked_def Let_def
        split: if_splits prod.splits option.splits intro!: calm_fields)
next
  case quiet_propose
  then show ?case
    by (auto simp: ProposeMembershipChange_def markStorageFailureLocked_def markFatalLocked_def Let_def
        split: if_splits prod.splits option.splits intro!: calm_fields)
next
  case quiet_finish
  then show ?case by (auto simp: ProposeMembershipChange_finish_def intro!: calm_fields)
next
  case quiet_apply
  from quiet_apply(1) show ?case by (rule calm_apply)
next
  case quiet_snapshot
  then show ?case
    by (auto simp: takeSnapshot_def persistSnapshot_def markFatalLocked_def Let_def
        split: if_splits prod.splits option.splits sum.splits intro!: calm_fields)
next
  case quiet_send
  then show ?case by (auto simp: sendSnapshot_response_def Let_def split: if_splits intro: calm_fields)
next
  case quiet_install
  from quiet_install(1) show ?case by (rule calm_install)
next
  case quiet_flushed
  then show ?case using calm_flushed by blast
next
  case quiet_resume
  then show ?case unfolding ae_resume_def by (rule calm_trans [OF calm_update(6) calm_append_log])
next
  case quiet_chunk
  from quiet_chunk(1) show ?case by (rule calm_trans [OF calm_update(6) calm_chunk])
next
  case quiet_applied
  from quiet_applied(1) show ?case by (rule calm_apply_rest)
next
  case quiet_piece
  then show ?case by (intro calm_fields) auto
qed

text \<open>A restart is quiet too: the term and the vote come back from the state file.\<close>

lemma load_fields:
  assumes "loadSnapshotFromDisk marshal mjson ujson sm x y pf wr r = Some (r', err)"
  shows "config r' = config r \<and> persistentState r' = persistentState r \<and> currentTerm r' = currentTerm r \<and>
     votedFor r' = votedFor r \<and> state r' = state r \<and> fatalErr r' = fatalErr r \<and> leaderID r' = leaderID r"
proof -
  have p: "config r1 = config r0 \<and> persistentState r1 = persistentState r0 \<and> currentTerm r1 = currentTerm r0 \<and>
     votedFor r1 = votedFor r0 \<and> state r1 = state r0 \<and> fatalErr r1 = fatalErr r0 \<and> leaderID r1 = leaderID r0" if "persistSnapshot mjson wr meta data r0 = (r1, e)" for meta data r0 r1 e
    using that by (auto simp: persistSnapshot_def split: if_splits sum.splits prod.splits)
  show ?thesis
    using assms
    by (auto simp: loadSnapshotFromDisk_def adopt_snapshot_def reconcileTransportPeers_def Let_def dest!: p
        split: if_splits option.splits sum.splits prod.splits)
qed

lemma restarted:
  assumes "NewRaftNode marshal unmarshal mjson ujson now cfg sm s0 files = Some (Inr r')"
  shows "config r' = cfg \<and> persistentState r' = newPersistentState (DataDir cfg) (nf_state files) \<and>
     currentTerm r' = ps_term (persistentState r') \<and> votedFor r' = ps_vote (persistentState r') \<and> state r' = Follower \<and>
     fatalErr r' = None \<and> leaderID r' = []"
proof -
  obtain raftLog e where "loadSnapshotFromDisk marshal mjson ujson sm False False None None
      (new_node now cfg (newPersistentState (DataDir cfg) (nf_state files)) raftLog s0 files) = Some (r', e)"
    using assms by (auto simp: NewRaftNode_def Let_def split: sum.splits option.splits prod.splits)
  from load_fields [OF this] show ?thesis by (simp add: new_node_def)
qed

lemma calm_restart:
  assumes "NewRaftNode marshal unmarshal mjson ujson now (config r) sm s0 (files_of r) = Some (Inr r')" and sv: "saved r"
  shows "calm r r' \<and> state r' \<noteq> Leader"
  using restarted [OF assms(1)] sv
  by (auto simp: calm_def saved_def files_of_def newPersistentState_def split: option.splits)

section \<open>Election steps\<close>

lemma startElection_sent:
  assumes "startElection sf now r = (r', ElectionSent req b)" "currentTerm r + 1 < 2 ^ 64"
  shows "config r' = config r \<and> clusterConfig r' = clusterConfig r \<and> state r' = Candidate \<and>
     currentTerm r' = currentTerm r + 1 \<and> votedFor r' = NodeID (config r) \<and>
     rv_Term req = currentTerm r + 1 \<and> rv_CandidateID req = NodeID (config r) \<and> \<not> rv_PreVote req \<and>
     b_term b = currentTerm r + 1 \<and> b_votes b = 1 \<and> b_majority b = Majority (clusterConfig r) \<and>
     b_peers b = other_peers (NodeID (config r)) (clusterConfig r)"
  using assms by (auto simp: startElection_eq Let_def split: if_splits)

lemma startElection_won:
  assumes "startElection sf now r = (r', ElectionWon t)" "currentTerm r + 1 < 2 ^ 64"
  shows "config r' = config r \<and> clusterConfig r' = clusterConfig r \<and> t = currentTerm r + 1 \<and>
     currentTerm r' = t \<and> votedFor r' = NodeID (config r) \<and> Majority (clusterConfig r) \<le> 1"
  using assms by (auto simp: startElection_eq Let_def split: if_splits)

text \<open>A granted vote is the only one of its term.\<close>

lemma vote_granted:
  assumes "handleRequestVote sf sf' now order (Some req) r = (r', resp)" "rvr_VoteGranted resp" "\<not> rv_PreVote req"
  shows "config r' = config r \<and> clusterConfig r' = clusterConfig r \<and> currentTerm r' = rv_Term req \<and>
     votedFor r' = rv_CandidateID req \<and> currentTerm r \<le> rv_Term req \<and> state r' \<noteq> Leader \<and>
     (currentTerm r = rv_Term req \<longrightarrow> votedFor r = [] \<or> votedFor r = rv_CandidateID req)"
  using assms by (auto simp: handleRequestVote_eq leader_alive_def Let_def split: if_splits)

lemma vote_refused:
  assumes "handleRequestVote sf sf' now order (Some req) r = (r', resp)" "\<not> rvr_VoteGranted resp"
  shows "calm r r' \<and> clusterConfig r' = clusterConfig r"
  using assms by (auto simp: handleRequestVote_eq Let_def split: if_splits)

text \<open>The pieces of the handlers.\<close>

lemma vote_part_cast:
  "vote_part now req r = (r', VoteSave t v) \<Longrightarrow> r' = r\<lparr>votedFor := v, lastHeartbeat := now\<rparr> \<and> t = currentTerm r \<and> v = rv_CandidateID req \<and>
     (votedFor r = [] \<or> votedFor r = v) \<and> log_up_to_date req (rlog r)"
  by (auto simp: vote_part_def Let_def split: if_splits)

lemma vote_part_refused: "vote_part now req r = (r', VoteAnswer resp) \<Longrightarrow> r' = r \<and> (rv_PreVote req \<or> \<not> rvr_VoteGranted resp)"
  by (auto simp: vote_part_def vote_response_def Let_def split: if_splits)

lemma elect_begun:
  "startElection_begin now r = Some r' \<Longrightarrow> currentTerm r + 1 < 2 ^ 64 \<Longrightarrow>
     r' = r\<lparr>state := Candidate, currentTerm := currentTerm r + 1, votedFor := NodeID (config r), lastHeartbeat := now\<rparr> \<and> state r \<noteq> Leader"
  by (auto simp: startElection_begin_def split: if_splits)

lemma election_checked:
  "startElection_check t r = ElectionSent req b \<Longrightarrow> state r = Candidate \<and> currentTerm r = t \<and> rv_Term req = t \<and> rv_CandidateID req = NodeID (config r) \<and>
     \<not> rv_PreVote req \<and> rv_LastLogIndex req = LastIndex (rlog r) \<and> rv_LastLogTerm req = LastTerm (rlog r) \<and>
     b_term b = t \<and> b_votes b = 1 \<and> b_majority b = Majority (clusterConfig r) \<and> b_peers b = other_peers (NodeID (config r)) (clusterConfig r)"
  "startElection_check t r = ElectionWon t' \<Longrightarrow> state r = Candidate \<and> currentTerm r = t \<and> t' = t \<and> Majority (clusterConfig r) \<le> 1"
  by (auto simp: startElection_check_def Let_def split: if_splits)

lemma vote_counts:
  "sendRequestVote_answer sf now order t resp r = (r', True) \<Longrightarrow> r' = r \<and> rvr_VoteGranted resp \<and> rvr_Term resp \<le> t \<and> state r = Candidate \<and> currentTerm r = t"
  "count_vote b = (b', enough) \<Longrightarrow> b_votes b' = Suc (b_votes b) \<and> b_term b' = b_term b \<and> b_majority b' = b_majority b \<and> (enough \<longrightarrow> b_majority b \<le> b_votes b')"
  by (auto simp: sendRequestVote_answer_def count_vote_def Let_def split: if_splits)

lemma election_answer:
  assumes "electionResponse marshal af sf now order resp b r = (r', b')"
  obtains (uncounted) "b' = b" "calm r r'" "clusterConfig r' = clusterConfig r"
  | (counted) "rvr_VoteGranted resp" "rvr_Term resp \<le> b_term b" "b_votes b' = Suc (b_votes b)" "b_term b' = b_term b" "b_majority b' = b_majority b" "calm r r'" "clusterConfig r' = clusterConfig r"
  | (won) "rvr_VoteGranted resp" "rvr_Term resp \<le> b_term b" "b_votes b' = Suc (b_votes b)" "b_term b' = b_term b" "b_majority b' = b_majority b" "b_majority b \<le> b_votes b'"
      "r' = becomeLeader marshal af (b_term b) r" "state r = Candidate" "currentTerm r = b_term b"
proof -
  obtain r1 g where a: "sendRequestVote_answer sf now order (b_term b) resp r = (r1, g)" by fastforce
  show thesis
  proof (cases g)
    case True
    then have "sendRequestVote_answer sf now order (b_term b) resp r = (r1, True)" using a by simp
    note v = vote_counts(1) [OF this]
    obtain b1 e where c: "count_vote b = (b1, e)" by fastforce
    have "b' = b1" "r' = (if e then becomeLeader marshal af (b_term b) r else r)" using assms a True c v by (auto simp: electionResponse_def)
    then show ?thesis using that(2,3) v vote_counts(2) [OF c] by (cases e) auto
  next
    case False
    have "r' = r1" "b' = b" using assms a False by (auto simp: electionResponse_def)
    moreover have "calm r r1" "clusterConfig r1 = clusterConfig r" using a by (auto simp: sendRequestVote_answer_def split: if_splits)
    ultimately show ?thesis using that(1) by blast
  qed
qed

lemma quiet_pieces: "quiet_step r (stepDown_end order r)" "quiet_step r (r\<lparr>rlog := l\<rparr>)"
  by (rule quiet_piece; simp add: stepDown_end_def)+

section \<open>Invariant\<close>

definition nodes_ok :: "peers \<Rightarrow> 'sm cluster \<Rightarrow> bool" where
  "nodes_ok c s \<longleftrightarrow> (\<forall>n \<in> members c. n \<noteq> [] \<and> NodeID (config (nodes s n)) = n \<and> clusterConfig (nodes s n) = c)"

definition votes_ok :: "peers \<Rightarrow> 'sm cluster \<Rightarrow> bool" where
  "votes_ok c s \<longleftrightarrow>
     (\<forall>p t x. (p, t, x) \<in> votes s \<longrightarrow> p \<in> members c \<and> x \<noteq> [] \<and> t \<le> currentTerm (nodes s p) \<and>
        (t = currentTerm (nodes s p) \<longrightarrow> votedFor (nodes s p) = x)) \<and>
     (\<forall>p t x y. (p, t, x) \<in> votes s \<longrightarrow> (p, t, y) \<in> votes s \<longrightarrow> x = y)"

definition msgs_ok :: "peers \<Rightarrow> 'sm cluster \<Rightarrow> bool" where
  "msgs_ok c s \<longleftrightarrow>
     (\<forall>n p req. (n, p, req) \<in> requests s \<longrightarrow>
        n \<in> members c \<and> p \<in> members c \<and> p \<noteq> n \<and> rv_CandidateID req = n \<and> \<not> rv_PreVote req) \<and>
     (\<forall>n p req resp. (n, p, req, resp) \<in> answers s \<longrightarrow>
        n \<in> members c \<and> p \<in> members c \<and> p \<noteq> n \<and> (rvr_VoteGranted resp \<longrightarrow> (p, rv_Term req, n) \<in> votes s \<or> rv_Term req < rvr_Term resp))"

text \<open>A candidate with enough votes, and its own among them.\<close>

definition elected :: "peers \<Rightarrow> 'sm cluster \<Rightarrow> string \<Rightarrow> uint64 \<Rightarrow> bool" where
  "elected c s n t \<longleftrightarrow> (n, t, n) \<in> votes s \<and> (\<exists>Q. is_quorum c Q \<and> (\<forall>p \<in> Q. (p, t, n) \<in> votes s))"

text \<open>What a goroutine that waits for the lock relies on.\<close>

fun waits_ok :: "peers \<Rightarrow> 'sm cluster \<Rightarrow> continuation \<Rightarrow> bool" where
  "waits_ok c s (Voting n p req) \<longleftrightarrow> (n, p, req) \<in> requests s \<and> rv_Term req \<le> currentTerm (nodes s p)"
| "waits_ok c s (Voted n p req) \<longleftrightarrow> (n, p, req) \<in> requests s \<and> ((p, rv_Term req, n) \<in> votes s \<or> rv_Term req < currentTerm (nodes s p))"
| "waits_ok c s (Electing n t) \<longleftrightarrow> n \<in> members c \<and> (n, t, n) \<in> votes s"
| "waits_ok c s (Winning n t) \<longleftrightarrow> n \<in> members c \<and> elected c s n t"

definition waiting_ok :: "peers \<Rightarrow> 'sm cluster \<Rightarrow> bool" where
  "waiting_ok c s \<longleftrightarrow> (\<forall>g \<in> waiting s. waits_ok c s g)"

definition ballots_ok :: "peers \<Rightarrow> 'sm cluster \<Rightarrow> bool" where
  "ballots_ok c s \<longleftrightarrow>
     (\<forall>n t b f k. ballots s n t = Some (b, f, k) \<longrightarrow>
        b_term b = t \<and> b_majority b = Majority c \<and> k \<subseteq> f \<and> finite k \<and> n \<notin> k \<and> insert n k \<subseteq> members c \<and>
        b_votes b = Suc (card k) \<and> (\<forall>p \<in> insert n k. (p, t, n) \<in> votes s))"

definition leaders_ok :: "peers \<Rightarrow> 'sm cluster \<Rightarrow> bool" where
  "leaders_ok c s \<longleftrightarrow>
     (\<forall>n \<in> members c. state (nodes s n) = Leader \<longrightarrow>
        elected c s n (currentTerm (nodes s n)))"

definition election_inv :: "peers \<Rightarrow> 'sm cluster \<Rightarrow> bool" where
  "election_inv c s \<longleftrightarrow> nodes_ok c s \<and> votes_ok c s \<and> msgs_ok c s \<and> ballots_ok c s \<and> leaders_ok c s \<and> waiting_ok c s"

lemma put_node_fields [simp]:
  "nodes (put_node n r s) = (nodes s)(n := r)" "ballots (put_node n r s) = ballots s" "requests (put_node n r s) = requests s"
  "answers (put_node n r s) = answers s" "votes (put_node n r s) = votes s"
  "saves (put_node n r s) = saves s" "waiting (put_node n r s) = waiting s"
  by (simp_all add: put_node_def)

lemma inv_init: "cluster_init c s \<Longrightarrow> election_inv c s"
  by (auto simp: cluster_init_def election_inv_def nodes_ok_def votes_ok_def msgs_ok_def ballots_ok_def leaders_ok_def waiting_ok_def)

lemma inv_parts:
  assumes "election_inv c s"
  shows "nodes_ok c s" "votes_ok c s" "msgs_ok c s" "ballots_ok c s" "leaders_ok c s" "waiting_ok c s"
  using assms by (simp_all add: election_inv_def)

text \<open>More votes, more requests and higher terms keep what was elected and what is waited for.\<close>

lemma elected_grows: "elected c s n t \<Longrightarrow> votes s \<subseteq> votes s' \<Longrightarrow> elected c s' n t"
  unfolding elected_def by blast

lemma waits_ok_grows:
  assumes "waits_ok c s g" "votes s \<subseteq> votes s'" "requests s \<subseteq> requests s'" "\<And>n. currentTerm (nodes s n) \<le> currentTerm (nodes s' n)"
  shows "waits_ok c s' g"
proof (cases g)
  case (Voting n p req)
  then show ?thesis using assms(1,3) assms(4) [of p] by auto
next
  case (Voted n p req)
  then show ?thesis using assms(1,2,3) assms(4) [of p] by auto
next
  case (Electing n t)
  then show ?thesis using assms(1,2) by auto
next
  case (Winning n t)
  then show ?thesis using assms(1) elected_grows [OF _ assms(2)] by auto
qed

lemma waiting_ok_grows:
  assumes "waiting_ok c s" "votes s \<subseteq> votes s'" "requests s \<subseteq> requests s'" "\<And>n. currentTerm (nodes s n) \<le> currentTerm (nodes s' n)"
    "\<And>g. g \<in> waiting s' \<Longrightarrow> g \<in> waiting s \<or> waits_ok c s' g"
  shows "waiting_ok c s'"
  unfolding waiting_ok_def
proof
  fix g
  assume "g \<in> waiting s'"
  then have "g \<in> waiting s \<or> waits_ok c s' g" by (rule assms(5))
  then show "waits_ok c s' g" using assms(1) waits_ok_grows [OF _ assms(2-4)] unfolding waiting_ok_def by blast
qed

text \<open>Parts of the state that the invariant does not look at, and continuations that rely on what holds.\<close>

lemma inv_saves: "election_inv c s \<Longrightarrow> election_inv c (s\<lparr>saves := x\<rparr>)"
  unfolding election_inv_def nodes_ok_def votes_ok_def msgs_ok_def ballots_ok_def leaders_ok_def elected_def waiting_ok_def
  by (auto elim!: waits_ok_grows)

lemma inv_waiting:
  assumes "election_inv c s" "\<And>g. g \<in> x \<Longrightarrow> g \<in> waiting s \<or> waits_ok c s g"
  shows "election_inv c (s\<lparr>waiting := x\<rparr>)"
proof -
  have "waits_ok c (s\<lparr>waiting := x\<rparr>) g" if "waits_ok c s g" for g using that by (rule waits_ok_grows) simp_all
  then have "waiting_ok c (s\<lparr>waiting := x\<rparr>)" using assms unfolding election_inv_def waiting_ok_def by auto
  then show ?thesis using assms(1) unfolding election_inv_def nodes_ok_def votes_ok_def msgs_ok_def ballots_ok_def leaders_ok_def elected_def by auto
qed

lemma inv_wait: "election_inv c s \<Longrightarrow> waits_ok c s g \<Longrightarrow> election_inv c (s\<lparr>waiting := insert g (waiting s)\<rparr>)"
  by (rule inv_waiting) auto

text \<open>A calm change of one node.\<close>

lemma inv_calm:
  assumes i: "election_inv c s" and n: "n \<in> members c" and k: "calm (nodes s n) r'" "clusterConfig r' = c"
  shows "election_inv c (put_node n r' s)"
proof -
  have "nodes_ok c (put_node n r' s)" using i n k by (auto simp: election_inv_def nodes_ok_def calm_def)
  moreover have "votes_ok c (put_node n r' s)"
    using i k unfolding election_inv_def votes_ok_def calm_def by (auto, fastforce+)
  moreover have "leaders_ok c (put_node n r' s)"
    using i k by (auto simp: election_inv_def leaders_ok_def calm_def elected_def)
  moreover have "waiting_ok c (put_node n r' s)"
    by (rule waiting_ok_grows [OF inv_parts(6) [OF i]]) (use k in \<open>auto simp: calm_def\<close>)
  ultimately show ?thesis using i by (auto simp: election_inv_def msgs_ok_def ballots_ok_def)
qed

lemma inv_drop_ballots: "election_inv c s \<Longrightarrow> election_inv c (s\<lparr>ballots := (ballots s)(n := Map.empty)\<rparr>)"
  unfolding election_inv_def nodes_ok_def votes_ok_def msgs_ok_def ballots_ok_def leaders_ok_def elected_def waiting_ok_def
  by (auto split: if_splits elim!: waits_ok_grows)

text \<open>A node that moves to a new vote: the other parts of the invariant follow the votes.\<close>

lemma inv_new_vote:
  assumes i: "election_inv c s" and n: "n \<in> members c"
    and r': "config r' = config (nodes s n)" "clusterConfig r' = c"
    and v: "t = currentTerm r'" "votedFor r' = x" "x \<noteq> []" "currentTerm (nodes s n) \<le> t"
      "currentTerm (nodes s n) = t \<Longrightarrow> votedFor (nodes s n) = [] \<or> votedFor (nodes s n) = x"
    and l: "state r' = Leader \<Longrightarrow> (n, t, n) \<in> insert (n, t, x) (votes s) \<and> (\<exists>Q. is_quorum c Q \<and> (\<forall>p \<in> Q. (p, t, n) \<in> insert (n, t, x) (votes s)))"
  shows "election_inv c ((put_node n r' s)\<lparr>votes := insert (n, t, x) (votes s)\<rparr>)"
proof -
  let ?s' = "(put_node n r' s)\<lparr>votes := insert (n, t, x) (votes s)\<rparr>"
  have old: "y = x" if "(n, t, y) \<in> votes s" for y
  proof -
    have "t \<le> currentTerm (nodes s n)" "t = currentTerm (nodes s n) \<longrightarrow> votedFor (nodes s n) = y" "y \<noteq> []"
      using i that by (auto simp: election_inv_def votes_ok_def)
    then show ?thesis using v by auto
  qed
  have "nodes_ok c ?s'" using i n r' by (auto simp: election_inv_def nodes_ok_def)
  moreover have "votes_ok c ?s'"
  proof -
    have a: "p \<in> members c \<and> y \<noteq> [] \<and> u \<le> currentTerm (nodes ?s' p) \<and> (u = currentTerm (nodes ?s' p) \<longrightarrow> votedFor (nodes ?s' p) = y)"
      if "(p, u, y) \<in> votes ?s'" for p u y
    proof (cases "(p, u, y) = (n, t, x)")
      case False
      then have o: "(p, u, y) \<in> votes s" using that by auto
      then have "p \<in> members c" "y \<noteq> []" "u \<le> currentTerm (nodes s p)" "u = currentTerm (nodes s p) \<longrightarrow> votedFor (nodes s p) = y"
        using i by (auto simp: election_inv_def votes_ok_def)
      moreover have "u < t \<or> u = t" if "p = n" using calculation(3) v(4) that by auto
      ultimately show ?thesis
        using v(1,2) old o by (cases "p = n") (auto simp: v(1))
    qed (use n v(1-3) in simp)
    have b: "y = z" if "(p, u, y) \<in> votes ?s'" "(p, u, z) \<in> votes ?s'" for p u y z
    proof -
      have "\<forall>p t x y. (p, t, x) \<in> votes s \<longrightarrow> (p, t, y) \<in> votes s \<longrightarrow> x = y" using i by (simp add: election_inv_def votes_ok_def)
      then show ?thesis using that old by auto
    qed
    show ?thesis unfolding votes_ok_def using a b by blast
  qed
  moreover have "leaders_ok c ?s'"
    unfolding leaders_ok_def
  proof (intro ballI impI)
    fix m
    assume m: "m \<in> members c" "state (nodes ?s' m) = Leader"
    show "elected c ?s' m (currentTerm (nodes ?s' m))"
    proof (cases "m = n")
      case True
      then show ?thesis using l m(2) v(1) by (simp add: elected_def)
    next
      case False
      then have "elected c s m (currentTerm (nodes s m))" using i m by (auto simp: election_inv_def leaders_ok_def)
      then show ?thesis using False elected_grows [of c s m "currentTerm (nodes s m)" ?s'] by auto
    qed
  qed
  moreover have "waiting_ok c ?s'"
    by (rule waiting_ok_grows [OF inv_parts(6) [OF i]]) (use v(1,4) in auto)
  moreover have "msgs_ok c ?s'" "ballots_ok c ?s'" using i by (auto simp: election_inv_def msgs_ok_def ballots_ok_def)
  ultimately show ?thesis by (simp add: election_inv_def)
qed

text \<open>Messages and ballots that agree with the votes can be added.\<close>

lemma inv_set_ballot:
  assumes "election_inv c x" "b_term b = t" "b_majority b = Majority c" "k \<subseteq> f" "finite k" "n \<notin> k"
    "insert n k \<subseteq> members c" "b_votes b = Suc (card k)" "\<forall>q \<in> insert n k. (q, t, n) \<in> votes x"
  shows "election_inv c (x\<lparr>ballots := (ballots x)(n := (ballots x n)(t \<mapsto> (b, f, k)))\<rparr>)"
  using assms unfolding election_inv_def nodes_ok_def votes_ok_def msgs_ok_def ballots_ok_def leaders_ok_def elected_def waiting_ok_def
  by (auto split: if_splits elim!: waits_ok_grows)

lemma inv_add_requests:
  assumes "election_inv c x" "\<And>p. p \<in> P \<Longrightarrow> p \<in> members c \<and> p \<noteq> n" "n \<in> members c" "rv_CandidateID req = n" "\<not> rv_PreVote req"
  shows "election_inv c (x\<lparr>requests := requests x \<union> {(n, p, req) | p. p \<in> P}\<rparr>)"
  using assms unfolding election_inv_def nodes_ok_def votes_ok_def msgs_ok_def ballots_ok_def leaders_ok_def elected_def waiting_ok_def
  by (auto elim!: waits_ok_grows)

lemma inv_add_answer:
  assumes "election_inv c x" "n \<in> members c" "p \<in> members c" "p \<noteq> n" "rvr_VoteGranted resp \<Longrightarrow> (p, rv_Term req, n) \<in> votes x \<or> rv_Term req < rvr_Term resp"
  shows "election_inv c (x\<lparr>answers := insert (n, p, req, resp) (answers x)\<rparr>)"
  using assms unfolding election_inv_def nodes_ok_def votes_ok_def msgs_ok_def ballots_ok_def leaders_ok_def elected_def waiting_ok_def
  by (auto elim!: waits_ok_grows)

lemma inv_vote:
  assumes i: "election_inv c s" and m: "(n, p, req) \<in> requests s"
    and h: "handleRequestVote sf sf' now order (Some req) (nodes s p) = (r', resp)"
  shows "election_inv c ((put_node p r' s)
       \<lparr>votes := (if rvr_VoteGranted resp then insert (p, rv_Term req, n) (votes s) else votes s),
        answers := insert (n, p, req, resp) (answers s)\<rparr>)"
proof -
  have n: "n \<in> members c" "p \<in> members c" "p \<noteq> n" "rv_CandidateID req = n" "\<not> rv_PreVote req"
    using i m by (auto simp: election_inv_def msgs_ok_def)
  have p: "clusterConfig (nodes s p) = c" "n \<noteq> []" using i n(1,2) by (auto simp: election_inv_def nodes_ok_def)
  show ?thesis
  proof (cases "rvr_VoteGranted resp")
    case True
    note g = vote_granted [OF h True n(5)]
    have "election_inv c ((put_node p r' s)\<lparr>votes := insert (p, rv_Term req, n) (votes s)\<rparr>)"
      by (rule inv_new_vote [OF i n(2)]) (use g p n in auto)
    from inv_add_answer [OF this n(1-3), of resp req] show ?thesis using True by simp
  next
    case False
    note g = vote_refused [OF h False]
    have "election_inv c (put_node p r' s)" using g p(1) by (intro inv_calm [OF i n(2)]) auto
    from inv_add_answer [OF this n(1-3), of resp req] show ?thesis using False by (simp add: put_node_def)
  qed
qed

text \<open>A node that has just voted for itself opens its ballot.\<close>

lemma inv_open_ballot:
  assumes i: "election_inv c s" and n: "n \<in> members c" "(n, t, n) \<in> votes s"
    and b: "b_term b = t" "b_votes b = 1" "b_majority b = Majority c" "b_peers b = other_peers n c" "rv_CandidateID req = n" "\<not> rv_PreVote req"
  shows "election_inv c (s\<lparr>ballots := (ballots s)(n := (ballots s n)(t \<mapsto> (b, {}, {}))), requests := requests s \<union> {(n, p, req) | p. p \<in> set (b_peers b)}\<rparr>)"
proof -
  have ps: "q \<in> members c \<and> q \<noteq> n" if "q \<in> set (b_peers b)" for q
    using that b by (auto simp: other_peers_def members_def)
  have "election_inv c (s\<lparr>ballots := (ballots s)(n := (ballots s n)(t \<mapsto> (b, {}, {})))\<rparr>)"
    using inv_set_ballot [OF i, of b t "{}" "{}" n] b n by simp
  from inv_add_requests [OF this ps n(1) b(5,6)] show ?thesis by simp
qed

lemma inv_elect:
  assumes i: "election_inv c s" and n: "n \<in> members c" and t: "currentTerm (nodes s n) + 1 < 2 ^ 64"
    and e: "startElection sf now (nodes s n) = (r', ElectionSent req b)"
  shows "election_inv c ((put_node n r' s)
       \<lparr>votes := insert (n, rv_Term req, n) (votes s),
        ballots := (ballots s)(n := (ballots s n)(rv_Term req \<mapsto> (b, {}, {}))),
        requests := requests s \<union> {(n, p, req) | p. p \<in> set (b_peers b)}\<rparr>)"
proof -
  have p: "clusterConfig (nodes s n) = c" "n \<noteq> []" "NodeID (config (nodes s n)) = n"
    using i n by (auto simp: election_inv_def nodes_ok_def)
  note f = startElection_sent [OF e t]
  have "election_inv c ((put_node n r' s)\<lparr>votes := insert (n, rv_Term req, n) (votes s)\<rparr>)"
    by (rule inv_new_vote [OF i n]) (use f p in auto)
  from inv_open_ballot [OF this n, of "rv_Term req" b req] show ?thesis using f p by simp
qed

text \<open>A counted answer, and a node with enough votes.\<close>

lemma ballot_ok:
  assumes "election_inv c s" "ballots s n t = Some (b, finished, counted)"
  shows "b_term b = t \<and> b_majority b = Majority c \<and> counted \<subseteq> finished \<and> finite counted \<and> n \<notin> counted \<and>
      insert n counted \<subseteq> members c \<and> b_votes b = Suc (card counted) \<and> (\<forall>q \<in> insert n counted. (q, t, n) \<in> votes s)"
  using assms unfolding election_inv_def ballots_ok_def by blast

lemma inv_win:
  assumes i: "election_inv c s" and n: "n \<in> members c" "elected c s n t"
  shows "election_inv c (put_node n (becomeLeader marshal af t (nodes s n)) s)"
proof (cases "state (nodes s n) = Candidate \<and> currentTerm (nodes s n) = t")
  case True
  have self: "votedFor (nodes s n) = n" "n \<noteq> []" "clusterConfig (nodes s n) = c"
    using i n True by (auto simp: election_inv_def votes_ok_def nodes_ok_def elected_def)
  have "election_inv c ((put_node n (becomeLeader marshal af t (nodes s n)) s)\<lparr>votes := insert (n, t, n) (votes s)\<rparr>)"
    by (rule inv_new_vote [OF i n(1)]) (use self True n(2) in \<open>auto simp: elected_def\<close>)
  moreover have "insert (n, t, n) (votes s) = votes s" using n(2) by (auto simp: elected_def)
  ultimately show ?thesis by (simp add: put_node_def)
next
  case False
  then have "becomeLeader marshal af t (nodes s n) = nodes s n" by (auto simp: becomeLeader_def)
  then show ?thesis using i by (simp add: put_node_def)
qed

lemma inv_counted:
  assumes i: "election_inv c s" and p: "n \<in> members c" "p \<in> members c" "p \<noteq> n" "(p, t, n) \<in> votes s"
    and b: "ballots s n t = Some (b, finished, counted)" "p \<notin> finished" "b_votes b' = Suc (b_votes b)" "b_term b' = b_term b" "b_majority b' = b_majority b"
  shows "election_inv c (s\<lparr>ballots := (ballots s)(n := (ballots s n)(t \<mapsto> (b', insert p finished, insert p counted)))\<rparr>)"
    "b_majority b \<le> b_votes b' \<Longrightarrow> elected c s n t"
proof -
  note ok = ballot_ok [OF i b(1)]
  have pk: "p \<notin> counted" using ok b(2) by auto
  show "election_inv c (s\<lparr>ballots := (ballots s)(n := (ballots s n)(t \<mapsto> (b', insert p finished, insert p counted)))\<rparr>)"
    by (rule inv_set_ballot [OF i]) (use ok p b(3-5) pk in auto)
  show "elected c s n t" if "b_majority b \<le> b_votes b'"
  proof -
    have "is_quorum c (insert n (insert p counted))" using ok p that b(3) pk by (simp add: is_quorum_def)
    then show ?thesis using ok p(4) unfolding elected_def by blast
  qed
qed

lemma answer_recorded:
  assumes "election_inv c s" "(n, p, req, resp) \<in> answers s" "rvr_VoteGranted resp" "rvr_Term resp \<le> rv_Term req"
  shows "(p, rv_Term req, n) \<in> votes s"
  using assms unfolding election_inv_def msgs_ok_def by (meson leD)

lemma inv_tally:
  assumes i: "election_inv c s" and a: "(n, p, req, resp) \<in> answers s"
    and b: "ballots s n (rv_Term req) = Some (b, finished, counted)" "p \<notin> finished"
    and e: "electionResponse marshal af sf now order resp b (nodes s n) = (r', b')"
  shows "election_inv c ((put_node n r' s)
       \<lparr>ballots := (ballots s)(n := (ballots s n)(rv_Term req \<mapsto>
          (b', insert p finished, if b_votes b' = b_votes b then counted else insert p counted)))\<rparr>)"
proof -
  let ?t = "rv_Term req"
  have n: "n \<in> members c" "p \<in> members c" "p \<noteq> n" using i a by (auto simp: election_inv_def msgs_ok_def)
  have r: "clusterConfig (nodes s n) = c" using i n by (auto simp: election_inv_def nodes_ok_def)
  note ok = ballot_ok [OF i b(1)]
  from e show ?thesis
  proof (cases rule: election_answer)
    case uncounted
    have "election_inv c (put_node n r' s)" using uncounted r by (intro inv_calm [OF i n(1)]) auto
    from inv_set_ballot [OF this, of b' ?t counted "insert p finished" n] show ?thesis using uncounted ok by auto
  next
    case counted
    have v: "(p, ?t, n) \<in> votes s" using answer_recorded [OF i a counted(1)] counted(2) ok by simp
    have "election_inv c (put_node n r' s)" using counted r by (intro inv_calm [OF i n(1)]) auto
    from inv_counted(1) [OF this n] show ?thesis using counted(3-5) v b by simp
  next
    case won
    have v: "(p, ?t, n) \<in> votes s" using answer_recorded [OF i a won(1)] won(2) ok by simp
    have "elected c s n ?t" by (rule inv_counted(2) [OF i n v b won(3-5)]) (rule won(6))
    then have "election_inv c (put_node n r' s)" using inv_win [OF i n(1)] won(7) ok by simp
    from inv_counted(1) [OF this n] show ?thesis using won(3-5) v b by simp
  qed
qed

lemma inv_alone:
  assumes i: "election_inv c s" and n: "n \<in> members c" and t: "currentTerm (nodes s n) + 1 < 2 ^ 64"
    and e: "startElection sf now (nodes s n) = (r', ElectionWon t)"
  shows "election_inv c ((put_node n (becomeLeader marshal af t r') s)\<lparr>votes := insert (n, t, n) (votes s)\<rparr>)"
proof -
  have p: "clusterConfig (nodes s n) = c" "n \<noteq> []" "NodeID (config (nodes s n)) = n"
    using i n by (auto simp: election_inv_def nodes_ok_def)
  note f = startElection_won [OF e t]
  have "is_quorum c {n}" using f p n by (simp add: is_quorum_def)
  then show ?thesis using f p by (intro inv_new_vote [OF i n]) auto
qed

section \<open>Interrupted steps\<close>

text \<open>A vote for a request of an earlier term: no vote of the node's term is recorded, or one for the same candidate.\<close>

lemma inv_unrecorded:
  assumes i: "election_inv c s" and n: "n \<in> members c"
    and r': "config r' = config (nodes s n)" "clusterConfig r' = c" "currentTerm r' = currentTerm (nodes s n)" "state r' = state (nodes s n)"
    and v: "votedFor (nodes s n) = [] \<or> votedFor (nodes s n) = votedFor r'"
  shows "election_inv c (put_node n r' s)"
proof -
  have "nodes_ok c (put_node n r' s)" using i n r' by (auto simp: election_inv_def nodes_ok_def)
  moreover have "votes_ok c (put_node n r' s)"
    using i r'(3) v unfolding election_inv_def votes_ok_def by auto
  moreover have "leaders_ok c (put_node n r' s)"
    using i r'(3,4) by (auto simp: election_inv_def leaders_ok_def elected_def)
  moreover have "waiting_ok c (put_node n r' s)"
    by (rule waiting_ok_grows [OF inv_parts(6) [OF i]]) (use r'(3) in auto)
  ultimately show ?thesis using i by (auto simp: election_inv_def msgs_ok_def ballots_ok_def)
qed

lemma inv_step_down:
  assumes i: "election_inv c s" and n: "n \<in> members c"
  shows "election_inv c ((put_node n (stepDown_begin now t (nodes s n)) s)\<lparr>saves := x\<rparr>)"
  by (rule inv_saves, rule inv_calm [OF i n]) (use i n in \<open>auto simp: election_inv_def nodes_ok_def\<close>)

lemma inv_vote_begin:
  assumes i: "election_inv c s" and m: "(n, p, req) \<in> requests s"
  shows "election_inv c ((put_node p (if currentTerm (nodes s p) < rv_Term req then stepDown_begin now (rv_Term req) (nodes s p) else nodes s p) s)
       \<lparr>saves := x, waiting := insert (Voting n p req) (waiting s)\<rparr>)"
proof -
  have p: "p \<in> members c" using i m by (auto simp: election_inv_def msgs_ok_def)
  have "election_inv c ((put_node p (stepDown_begin now (rv_Term req) (nodes s p)) s)\<lparr>saves := x\<rparr>)" by (rule inv_step_down [OF i p])
  moreover have "election_inv c ((put_node p (nodes s p) s)\<lparr>saves := x\<rparr>)" using inv_saves [OF i] by (simp add: put_node_def)
  ultimately have 1: "election_inv c ((put_node p (if currentTerm (nodes s p) < rv_Term req then stepDown_begin now (rv_Term req) (nodes s p) else nodes s p) s)\<lparr>saves := x\<rparr>)"
    (is "election_inv c ?s1") by simp
  have "waits_ok c ?s1 (Voting n p req)" using m by auto
  from inv_wait [OF 1 this] show ?thesis by simp
qed

lemma inv_vote_cast:
  assumes i: "election_inv c s" and w: "Voting n p req \<in> waiting s" and v: "vote_part now req (nodes s p) = (r', VoteSave t v)"
  shows "election_inv c ((put_node p r' s)
       \<lparr>votes := (if t = rv_Term req then insert (p, t, v) (votes s) else votes s), saves := x, waiting := insert (Voted n p req) (waiting s)\<rparr>)"
proof -
  have q: "(n, p, req) \<in> requests s" "rv_Term req \<le> currentTerm (nodes s p)" using inv_parts(6) [OF i] w by (auto simp: waiting_ok_def)
  then have n: "n \<in> members c" "p \<in> members c" "rv_CandidateID req = n" using i by (auto simp: election_inv_def msgs_ok_def)
  have p: "clusterConfig (nodes s p) = c" "n \<noteq> []" using i n by (auto simp: election_inv_def nodes_ok_def)
  note f = vote_part_cast [OF v]
  let ?s1 = "(put_node p r' s)\<lparr>votes := (if t = rv_Term req then insert (p, t, v) (votes s) else votes s)\<rparr>"
  have "election_inv c ?s1"
  proof (cases "t = rv_Term req")
    case True
    have "election_inv c ((put_node p r' s)\<lparr>votes := insert (p, t, v) (votes s)\<rparr>)"
    proof (rule inv_new_vote [OF i n(2)])
      assume l: "state r' = Leader"
      then have "elected c s p t" using i n(2) f by (auto simp: election_inv_def leaders_ok_def)
      then show "(p, t, p) \<in> insert (p, t, v) (votes s) \<and> (\<exists>Q. is_quorum c Q \<and> (\<forall>q \<in> Q. (q, t, p) \<in> insert (p, t, v) (votes s)))"
        unfolding elected_def by blast
    qed (use f p n in auto)
    then show ?thesis using True by simp
  next
    case False
    have "election_inv c (put_node p r' s)" by (rule inv_unrecorded [OF i n(2)]) (use f p in auto)
    then show ?thesis using False by (simp add: put_node_def)
  qed
  then have 1: "election_inv c (?s1\<lparr>saves := x\<rparr>)" by (rule inv_saves)
  have "waits_ok c (?s1\<lparr>saves := x\<rparr>) (Voted n p req)" using q f n by auto
  from inv_wait [OF 1 this] show ?thesis by simp
qed

lemma inv_vote_answer:
  assumes i: "election_inv c s" and w: "Voted n p req \<in> waiting s"
  shows "election_inv c (s\<lparr>answers := insert (n, p, req, vote_response True (nodes s p)) (answers s)\<rparr>)"
proof -
  have q: "(n, p, req) \<in> requests s" "(p, rv_Term req, n) \<in> votes s \<or> rv_Term req < currentTerm (nodes s p)"
    using inv_parts(6) [OF i] w by (auto simp: waiting_ok_def)
  then have "n \<in> members c" "p \<in> members c" "p \<noteq> n" using i by (auto simp: election_inv_def msgs_ok_def)
  then show ?thesis by (rule inv_add_answer [OF i]) (use q(2) in \<open>simp add: vote_response_def\<close>)
qed

lemma inv_vote_refuse:
  assumes i: "election_inv c s" and w: "Voting n p req \<in> waiting s" and v: "vote_part now req (nodes s p) = (r', VoteAnswer resp)"
  shows "election_inv c ((put_node p r' s)\<lparr>answers := insert (n, p, req, resp) (answers s)\<rparr>)"
proof -
  have "(n, p, req) \<in> requests s" using inv_parts(6) [OF i] w by (auto simp: waiting_ok_def)
  then have n: "n \<in> members c" "p \<in> members c" "p \<noteq> n" "\<not> rv_PreVote req" using i by (auto simp: election_inv_def msgs_ok_def)
  have "r' = nodes s p" "\<not> rvr_VoteGranted resp" using vote_part_refused [OF v] n(4) by auto
  then show ?thesis using inv_add_answer [OF i n(1-3), of resp req] by (simp add: put_node_def)
qed

lemma inv_elect_begin:
  assumes i: "election_inv c s" and n: "n \<in> members c" and e: "startElection_begin now (nodes s n) = Some r'" "currentTerm (nodes s n) + 1 < 2 ^ 64"
  shows "election_inv c ((put_node n r' s)\<lparr>votes := insert (n, currentTerm r', n) (votes s), saves := x, waiting := insert (Electing n (currentTerm r')) (waiting s)\<rparr>)"
proof -
  note f = elect_begun [OF e]
  have p: "clusterConfig (nodes s n) = c" "n \<noteq> []" "NodeID (config (nodes s n)) = n" using i n by (auto simp: election_inv_def nodes_ok_def)
  have 1: "election_inv c ((put_node n r' s)\<lparr>votes := insert (n, currentTerm r', n) (votes s)\<rparr>)"
    by (rule inv_new_vote [OF i n]) (use f p in auto)
  from inv_wait [OF inv_saves [OF this, of x], of "Electing n (currentTerm r')"] show ?thesis using n by simp
qed

lemma inv_elect_send:
  assumes i: "election_inv c s" and w: "Electing n t \<in> waiting s" and e: "startElection_check t (nodes s n) = ElectionSent req b"
  shows "election_inv c (s\<lparr>ballots := (ballots s)(n := (ballots s n)(t \<mapsto> (b, {}, {}))), requests := requests s \<union> {(n, p, req) | p. p \<in> set (b_peers b)}\<rparr>)"
proof -
  have n: "n \<in> members c" "(n, t, n) \<in> votes s" using inv_parts(6) [OF i] w by (auto simp: waiting_ok_def)
  then have "clusterConfig (nodes s n) = c" "NodeID (config (nodes s n)) = n" using i by (auto simp: election_inv_def nodes_ok_def)
  then show ?thesis using election_checked(1) [OF e] by (intro inv_open_ballot [OF i n]) auto
qed

lemma inv_elect_wins:
  assumes i: "election_inv c s" and w: "Electing n t \<in> waiting s" and e: "startElection_check t (nodes s n) = ElectionWon t'"
  shows "election_inv c (s\<lparr>waiting := insert (Winning n t') (waiting s)\<rparr>)"
proof -
  have n: "n \<in> members c" "(n, t, n) \<in> votes s" using inv_parts(6) [OF i] w by (auto simp: waiting_ok_def)
  then have "clusterConfig (nodes s n) = c" using i by (auto simp: election_inv_def nodes_ok_def)
  then have "is_quorum c {n}" "t' = t" using election_checked(2) [OF e] n by (auto simp: is_quorum_def)
  then have "elected c s n t'" using n(2) unfolding elected_def by blast
  then show ?thesis using n(1) by (intro inv_wait [OF i]) simp
qed

lemma inv_count:
  assumes i: "election_inv c s" and a: "(n, p, req, resp) \<in> answers s" and b: "ballots s n (rv_Term req) = Some (b, finished, counted)" "p \<notin> finished"
    and e: "sendRequestVote_answer sf now order (b_term b) resp (nodes s n) = (r', True)" "count_vote b = (b', enough)"
  shows "election_inv c (s\<lparr>ballots := (ballots s)(n := (ballots s n)(rv_Term req \<mapsto> (b', insert p finished, insert p counted))),
        waiting := (if enough then insert (Winning n (b_term b)) (waiting s) else waiting s)\<rparr>)"
proof -
  let ?t = "rv_Term req" and ?s1 = "s\<lparr>ballots := (ballots s)(n := (ballots s n)(rv_Term req \<mapsto> (b', insert p finished, insert p counted)))\<rparr>"
  have n: "n \<in> members c" "p \<in> members c" "p \<noteq> n" using i a by (auto simp: election_inv_def msgs_ok_def)
  note ok = ballot_ok [OF i b(1)] and v = vote_counts(1) [OF e(1)] and w = vote_counts(2) [OF e(2)]
  have v': "(p, ?t, n) \<in> votes s" using answer_recorded [OF i a] v ok by simp
  have w': "b_votes b' = Suc (b_votes b)" "b_term b' = b_term b" "b_majority b' = b_majority b" using w by simp_all
  have 1: "election_inv c ?s1" by (rule inv_counted(1) [OF i n v' b w'])
  have "elected c s n ?t" if enough using inv_counted(2) [OF i n v' b w'] w that by blast
  then have "waits_ok c ?s1 (Winning n (b_term b))" if enough using that n(1) ok by (simp add: elected_def)
  then show ?thesis using inv_wait [OF 1, of "Winning n (b_term b)"] 1 by (cases enough) simp_all
qed

lemma inv_step: "cluster_step c s s' \<Longrightarrow> election_inv c s \<Longrightarrow> election_inv c s'"
proof (induction rule: cluster_step.induct)
  case (quiet n s r')
  then show ?case by (intro inv_calm calm_quiet)
next
  case (restart n marshal unmarshal mjson ujson' now s sm s0 r')
  have "calm (nodes s n) r'" using calm_restart [OF restart(2,4)] by simp
  then have "election_inv c (put_node n r' s)" using restart by (intro inv_calm)
  from inv_waiting [OF inv_saves [OF inv_drop_ballots [OF this, of n]], of "{g \<in> waiting s. runs_on g \<noteq> n}"] show ?case by simp
next
  case elect
  from elect(4,1,3,2) show ?case by (rule inv_elect)
next
  case elect_alone
  from elect_alone(4,1,3,2) show ?case by (rule inv_alone)
next
  case vote
  from vote(3,1,2) show ?case by (rule inv_vote)
next
  case tally
  from tally(5,1-4) show ?case by (rule inv_tally)
next
  case step_down
  then show ?case using inv_step_down by blast
next
  case (save n t v s sf)
  then show ?case by (intro inv_calm) (auto simp: election_inv_def nodes_ok_def)
next
  case (vote_begin n p req s now req' r')
  show ?case unfolding vote_begin(3) [symmetric] by (rule inv_vote_begin [OF vote_begin(4,1)])
next
  case vote_cast
  from vote_cast(3,1,2) show ?case by (rule inv_vote_cast)
next
  case vote_refuse
  from vote_refuse(3,1,2) show ?case by (rule inv_vote_refuse)
next
  case vote_answer
  from vote_answer(2,1) show ?case by (rule inv_vote_answer)
next
  case elect_begin
  from elect_begin(4,1-3) show ?case by (rule inv_elect_begin)
next
  case elect_send
  from elect_send(3,1,2) show ?case by (rule inv_elect_send)
next
  case elect_wins
  from elect_wins(3,1,2) show ?case by (rule inv_elect_wins)
next
  case count
  from count(6,1-5) show ?case by (rule inv_count)
next
  case (win n t s marshal af)
  then have "n \<in> members c" "elected c s n t" using inv_parts(6) [OF win(2)] by (auto simp: waiting_ok_def)
  then show ?case by (rule inv_win [OF win(2)])
qed

lemma inv_reachable: "(cluster_step c)\<^sup>*\<^sup>* s s' \<Longrightarrow> election_inv c s \<Longrightarrow> election_inv c s'"
  by (induction rule: rtranclp_induct) (auto intro: inv_step)

lemma votes_grow: "(cluster_step c)\<^sup>*\<^sup>* s s' \<Longrightarrow> votes s \<subseteq> votes s'"
proof (induction rule: rtranclp_induct)
  case (step s' s'')
  from step(2) have "votes s' \<subseteq> votes s''" by cases auto
  then show ?case using step.IH by blast
qed simp

end
