(* ===== verification/ClusterProps.thy ===== *)
theory ClusterProps
  imports Cluster
begin

text \<open>The properties of elections.\<close>

section \<open>Votes\<close>

text \<open>
  A granted vote is unique and justified. When \<^verbatim>\<open>handleRequestVote\<close> grants a real vote, the
  node is in the candidate's term and was not its leader, the candidate's log is at least as up
  to date as its own, it had voted for nobody else in that term, the vote is in the state file
  before the answer unless writing it failed, and a request of any other candidate of the same
  term is refused from then on.
\<close>

theorem granted_vote:
  assumes "handleRequestVote sf1 sf2 now order (Some req) r = (r', resp)" "rvr_VoteGranted resp" "\<not> rv_PreVote req" "rv_CandidateID req \<noteq> []"
  shows "currentTerm r' = rv_Term req \<and> rvr_Term resp = rv_Term req \<and> votedFor r' = rv_CandidateID req \<and> state r \<noteq> Leader \<and>
     log_up_to_date req (rlog r) \<and>
     (currentTerm r = rv_Term req \<longrightarrow> votedFor r = [] \<or> votedFor r = rv_CandidateID req) \<and>
     (ps_dir (persistentState r) \<noteq> [] \<longrightarrow> \<not> sf2 \<longrightarrow> ps_file (persistentState r') = Some (rv_Term req, rv_CandidateID req)) \<and>
     (\<forall>sf sf' now' order' req'. rv_Term req' = rv_Term req \<longrightarrow> \<not> rv_PreVote req' \<longrightarrow> rv_CandidateID req' \<noteq> rv_CandidateID req \<longrightarrow>
        \<not> rvr_VoteGranted (snd (handleRequestVote sf sf' now' order' (Some req') r')))"
proof -
  have r': "currentTerm r' = rv_Term req" "rvr_Term resp = rv_Term req" "votedFor r' = rv_CandidateID req" "state r \<noteq> Leader" "log_up_to_date req (rlog r)"
    "currentTerm r = rv_Term req \<longrightarrow> votedFor r = [] \<or> votedFor r = rv_CandidateID req"
    "ps_dir (persistentState r) \<noteq> [] \<longrightarrow> \<not> sf2 \<longrightarrow> ps_file (persistentState r') = Some (rv_Term req, rv_CandidateID req)"
    using assms(1-3) by (auto simp: handleRequestVote_eq leader_alive_def SaveTermAndVote_def Let_def split: if_splits)
  have "\<not> rvr_VoteGranted (snd (handleRequestVote sf sf' now' order' (Some req') r'))"
    if "rv_Term req' = rv_Term req" "\<not> rv_PreVote req'" "rv_CandidateID req' \<noteq> rv_CandidateID req" for sf sf' now' order' req'
    using that r'(1,3) assms(4) by (simp add: handleRequestVote_eq Let_def)
  then show ?thesis using r' by blast
qed

text \<open>
  A pre-vote changes nothing. Whatever the answer, the node is the same afterwards: its term,
  its vote, its state and its files.
\<close>

theorem prevote_changes_nothing:
  "rv_PreVote req \<Longrightarrow> fst (handleRequestVote sf1 sf2 now order (Some req) r) = r"
  by (simp add: handleRequestVote_eq Let_def)

text \<open>
  C31: a vote whose write fails is forgotten. \<^verbatim>\<open>handleRequestVote\<close> ignores the error of
  \<^verbatim>\<open>SaveTermAndVote\<close>: when only the write of the vote fails, the vote is granted, and after a
  restart the node grants its vote in the same term to any other candidate with an up-to-date
  log.
\<close>

theorem failed_save_votes_twice:
  assumes "saved r" "currentTerm r < rv_Term req" "\<not> rv_PreVote req"
    and "handleRequestVote False True now order (Some req) r = (r1, resp)" "rvr_VoteGranted resp"
    and "NewRaftNode marshal unmarshal mjson ujson now' (config r) sm s0 (files_of r1) = Some (Inr r2)"
    and "rv_Term req' = rv_Term req" "\<not> rv_PreVote req'" "log_up_to_date req' (rlog r2)"
  shows "rvr_VoteGranted (snd (handleRequestVote False False now'' order' (Some req') r2)) \<and>
     rvr_Term (snd (handleRequestVote False False now'' order' (Some req') r2)) = rv_Term req"
proof -
  have "ps_file (persistentState r1) = Some (rv_Term req, [])" "DataDir (config r) \<noteq> []"
    using assms(1-5) by (auto simp: handleRequestVote_eq SaveTermAndVote_def saved_def Let_def split: if_splits)
  then have "currentTerm r2 = rv_Term req" "votedFor r2 = []" "state r2 = Follower" "fatalErr r2 = None" "leaderID r2 = []"
    using restarted [OF assms(6)] by (auto simp: files_of_def newPersistentState_def)
  then show ?thesis using assms(7-9) by (simp add: handleRequestVote_eq leader_alive_def Let_def)
qed

text \<open>
  A vote is forgotten when an older save comes late. \<^verbatim>\<open>stepDown\<close> reads the new term and the empty
  vote, releases the lock and is delayed; the node votes in that term, and the vote is saved and
  answered; then the delayed save overwrites it. After a restart the node grants its vote in the same
  term to any other candidate with an up-to-date log. No write fails.
\<close>

theorem delayed_save_forgets_vote:
  assumes "DataDir (config r) \<noteq> []" "ps_dir (persistentState r) = DataDir (config r)" "currentTerm r < t"
    and interrupted: "r1 = stepDown_begin now t r"
    and vote: "handleRequestVote sf False now1 order (Some req) r1 = (r2, resp)" "rvr_VoteGranted resp" "rv_Term req = t" "\<not> rv_PreVote req"
    and late: "r3 = save_state False (currentTerm r1) (votedFor r1) r2"
    and restart: "NewRaftNode marshal unmarshal mjson ujson now' (config r) sm s0 (files_of r3) = Some (Inr r4)"
    and other: "rv_Term req' = t" "\<not> rv_PreVote req'" "log_up_to_date req' (rlog r4)"
  shows "ps_file (persistentState r2) = Some (t, rv_CandidateID req) \<and> rvr_Term resp = t \<and>
     rvr_VoteGranted (snd (handleRequestVote False False now'' order' (Some req') r4)) \<and>
     rvr_Term (snd (handleRequestVote False False now'' order' (Some req') r4)) = t"
proof -
  have c: "currentTerm r1 = t" "votedFor r1 = []" "persistentState r1 = persistentState r" using assms(3) by (simp_all add: interrupted)
  have r2: "ps_file (persistentState r2) = Some (t, rv_CandidateID req)" "rvr_Term resp = t" "ps_dir (persistentState r2) = DataDir (config r)"
    using vote assms(1,2) c by (auto simp: handleRequestVote_eq SaveTermAndVote_def Let_def split: if_splits)
  have "ps_file (persistentState r3) = Some (t, [])" using r2(3) assms(1) c by (simp add: late save_state_def SaveTermAndVote_def)
  then have "currentTerm r4 = t" "votedFor r4 = []" "state r4 = Follower" "fatalErr r4 = None" "leaderID r4 = []"
    using restarted [OF restart] assms(1) by (auto simp: files_of_def newPersistentState_def)
  then show ?thesis using other r2(1,2) by (simp add: handleRequestVote_eq leader_alive_def Let_def)
qed

section \<open>Examples\<close>

text \<open>A cluster of two nodes at its first start.\<close>

definition demo_cfg :: "string \<Rightarrow> Config" where
  "demo_cfg n = (DefaultConfig n)\<lparr>Peers := [(''a'', []), (''b'', [])]\<rparr>"

definition demo_node :: "string \<Rightarrow> unit RaftNode" where
  "demo_node n =
     new_node 0 (demo_cfg n) (newPersistentState ''./data'' None) newRaftLog () \<lparr>nf_state = None, nf_wal = None, nf_snapshot = None, nf_meta = None\<rparr>"

definition demo_peers :: peers where
  "demo_peers = [(''a'', []), (''b'', [])]"

definition demo_cluster :: "unit cluster" where
  "demo_cluster = \<lparr>nodes = demo_node, ballots = (\<lambda>n t. None), requests = {}, answers = {}, saves = {}, waiting = {}, votes = {}\<rparr>"

lemmas demo_defs = demo_node_def demo_cfg_def demo_peers_def demo_cluster_def new_node_def DefaultConfig_def newPersistentState_def newRaftLog_def

definition demo_request :: RequestVoteRequest where
  "demo_request = \<lparr>rv_Term = 1, rv_CandidateID = ''a'', rv_LastLogIndex = 0, rv_LastLogTerm = 0, rv_PreVote = False\<rparr>"

definition demo_ballot :: ballot where
  "demo_ballot = \<lparr>b_term = 1, b_votes = 1, b_majority = 2, b_peers = [''b''], b_fired = False\<rparr>"

lemma demo_init: "cluster_init demo_peers demo_cluster"
  by (auto simp: cluster_init_def demo_defs members_def saved_def)

lemma demo_start: "\<exists>r. startElection False 0 (demo_node ''a'') = (r, ElectionSent demo_request demo_ballot)"
  by (simp add: startElection_eq demo_defs demo_request_def demo_ballot_def other_peers_def Majority_def Size_def LastIndex_def LastTerm_def Let_def)

lemma demo_vote: "\<exists>r. handleRequestVote False False 0 [] (Some demo_request) (demo_node ''b'') = (r, \<lparr>rvr_Term = 1, rvr_VoteGranted = True\<rparr>)"
  by (simp add: handleRequestVote_eq demo_defs demo_request_def leader_alive_def log_up_to_date_def LastIndex_def LastTerm_def Let_def)

definition demo_candidate :: "unit RaftNode" where
  "demo_candidate = fst (startElection False 0 (demo_node ''a''))"

definition demo_voter :: "unit RaftNode" where
  "demo_voter = fst (handleRequestVote False False 0 [] (Some demo_request) (demo_node ''b''))"

definition demo_leader :: "unit RaftNode" where
  "demo_leader = fst (electionResponse (\<lambda>_. []) None False 0 [] \<lparr>rvr_Term = 1, rvr_VoteGranted = True\<rparr> demo_ballot demo_candidate)"

lemmas demo_leader_defs = demo_leader_def demo_candidate_def startElection_eq demo_defs demo_ballot_def electionResponse_eq sendRequestVote_answer_def
  becomeLeader_def initLeaderState_def Append_def appendWALToDiskLocked_def reset_peers_def LastIndex_def Let_def Majority_def Size_def
  other_peers_def SaveTermAndVote_def advanceCommitIndex_def commit_scan.simps GetEntry_def replica_count_def idx_def

lemma demo_leader_fields: "state demo_leader = Leader" "currentTerm demo_leader = 1"
  by (simp_all add: demo_leader_defs)

text \<open>Node \<^verbatim>\<open>a\<close> starts an election, \<^verbatim>\<open>b\<close> votes for it, and \<^verbatim>\<open>a\<close> becomes leader.\<close>

lemma demo_steps:
  "\<exists>s1 s2 s3. cluster_step demo_peers demo_cluster s1 \<and> nodes s1 = demo_node(''a'' := demo_candidate) \<and>
     cluster_step demo_peers s1 s2 \<and> nodes s2 = demo_node(''a'' := demo_candidate, ''b'' := demo_voter) \<and>
     cluster_step demo_peers s2 s3 \<and> nodes s3 = demo_node(''a'' := demo_leader, ''b'' := demo_voter)"
proof -
  have a: "startElection False 0 (demo_node ''a'') = (demo_candidate, ElectionSent demo_request demo_ballot)" using demo_start by (auto simp: demo_candidate_def)
  have b: "handleRequestVote False False 0 [] (Some demo_request) (demo_node ''b'') = (demo_voter, \<lparr>rvr_Term = 1, rvr_VoteGranted = True\<rparr>)"
    using demo_vote by (auto simp: demo_voter_def)
  let ?resp = "\<lparr>rvr_Term = 1, rvr_VoteGranted = True\<rparr>" and ?m = "\<lambda>_. []"
  obtain bl where l: "electionResponse ?m None False 0 [] ?resp demo_ballot demo_candidate = (demo_leader, bl)"
    by (cases "electionResponse ?m None False 0 [] ?resp demo_ballot demo_candidate") (simp add: demo_leader_def)
  have mem: "''a'' \<in> members demo_peers" by (simp add: members_def demo_peers_def)
  let ?s1 = "(put_node ''a'' demo_candidate demo_cluster)\<lparr>votes := insert (''a'', rv_Term demo_request, ''a'') (votes demo_cluster),
     ballots := (ballots demo_cluster)(''a'' := (ballots demo_cluster ''a'')(rv_Term demo_request \<mapsto> (demo_ballot, {}, {}))),
     requests := requests demo_cluster \<union> {(''a'', p, demo_request) | p. p \<in> set (b_peers demo_ballot)}\<rparr>"
  have 1: "cluster_step demo_peers demo_cluster ?s1"
    by (rule cluster_step.elect [OF mem]) (use a in \<open>simp_all add: demo_cluster_def demo_node_def demo_cfg_def new_node_def newPersistentState_def\<close>)
  let ?s2 = "(put_node ''b'' demo_voter ?s1)\<lparr>votes := (if rvr_VoteGranted ?resp then insert (''b'', rv_Term demo_request, ''a'') (votes ?s1) else votes ?s1),
     answers := insert (''a'', ''b'', demo_request, ?resp) (answers ?s1)\<rparr>"
  have 2: "cluster_step demo_peers ?s1 ?s2"
    by (rule cluster_step.vote) (use b in \<open>simp_all add: demo_cluster_def put_node_def demo_ballot_def\<close>)
  let ?s3 = "(put_node ''a'' demo_leader ?s2)\<lparr>ballots := (ballots ?s2)(''a'' := (ballots ?s2 ''a'')(rv_Term demo_request \<mapsto>
          (bl, insert ''b'' {}, if b_votes bl = b_votes demo_ballot then {} else insert ''b'' {})))\<rparr>"
  have 3: "cluster_step demo_peers ?s2 ?s3"
    by (rule cluster_step.tally) (use l in \<open>simp_all add: put_node_def demo_request_def\<close>)
  have "nodes ?s1 = demo_node(''a'' := demo_candidate)" "nodes ?s2 = demo_node(''a'' := demo_candidate, ''b'' := demo_voter)"
    "nodes ?s3 = demo_node(''a'' := demo_leader, ''b'' := demo_voter)" by (auto simp: put_node_def demo_cluster_def)
  with 1 2 3 show ?thesis by blast
qed

lemma demo_run: "\<exists>s. (cluster_step demo_peers)\<^sup>*\<^sup>* demo_cluster s \<and> nodes s ''a'' = demo_leader \<and> nodes s ''b'' = demo_voter"
proof -
  obtain s1 s2 s3 where "cluster_step demo_peers demo_cluster s1" "cluster_step demo_peers s1 s2" "cluster_step demo_peers s2 s3"
    "nodes s3 = demo_node(''a'' := demo_leader, ''b'' := demo_voter)" using demo_steps by blast
  moreover from this have "(cluster_step demo_peers)\<^sup>*\<^sup>* demo_cluster s3" by (meson converse_rtranclp_into_rtranclp rtranclp.rtrancl_refl)
  ultimately show ?thesis by (intro exI [of _ s3]) simp
qed

section \<open>Safety\<close>

text \<open>
  C2: election safety. In a cluster with a fixed configuration, from the first start on, through
  any interleaving of elections, votes, log replication and snapshots, with messages lost, repeated
  and reordered, with handlers interrupted wherever they release their node's lock, with saves of
  term and vote that fail or come late and in another order, and with crashes and restarts that
  find the term and the vote the node had in memory: two nodes that lead in the same term, at the
  same time or at different times, are the same node.
\<close>

theorem election_safety:
  assumes "cluster_init c s0" "(cluster_step c)\<^sup>*\<^sup>* s0 s" "(cluster_step c)\<^sup>*\<^sup>* s s'"
    and "a \<in> members c" "b \<in> members c" "state (nodes s a) = Leader" "state (nodes s' b) = Leader"
    and "currentTerm (nodes s a) = currentTerm (nodes s' b)"
  shows "a = b"
proof -
  have i1: "election_inv c s" by (rule inv_reachable [OF assms(2) inv_init [OF assms(1)]])
  then have i2: "election_inv c s'" by (rule inv_reachable [OF assms(3)])
  note i = i1 i2
  obtain Q where Q: "is_quorum c Q" "\<forall>p \<in> Q. (p, currentTerm (nodes s a), a) \<in> votes s"
    using i(1) assms(4,6) by (auto simp: election_inv_def leaders_ok_def elected_def)
  obtain R where R: "is_quorum c R" "\<forall>p \<in> R. (p, currentTerm (nodes s a), b) \<in> votes s'"
    using i(2) assms(5,7,8) by (auto simp: election_inv_def leaders_ok_def elected_def)
  have "\<forall>p \<in> Q. (p, currentTerm (nodes s a), a) \<in> votes s'" using Q(2) votes_grow [OF assms(3)] by blast
  moreover have "x = y" if "(p, t, x) \<in> votes s'" "(p, t, y) \<in> votes s'" for p t x y
    using i2 that unfolding election_inv_def votes_ok_def by blast
  ultimately show ?thesis
    using R(2) maj.one_winner [OF Q(1) R(1), where V = "\<lambda>p x. (p, currentTerm (nodes s a), x) \<in> votes s'" and c = a and d = b] by blast
qed

theorem election_safety_witness:
  "\<exists>s b. (cluster_step demo_peers)\<^sup>*\<^sup>* demo_cluster s \<and> b \<in> members demo_peers \<and> state (nodes s b) = Leader \<and> ''a'' = b"
proof -
  obtain s where s: "(cluster_step demo_peers)\<^sup>*\<^sup>* demo_cluster s" "state (nodes s ''a'') = Leader" using demo_run demo_leader_fields by auto
  have m: "''a'' \<in> members demo_peers" by (simp add: members_def demo_peers_def)
  have "''a'' = ''a''" by (rule election_safety [OF demo_init s(1) rtranclp.rtrancl_refl m m s(2) s(2) refl])
  then show ?thesis using s m by (intro exI [of _ s] exI [of _ "''a''"]) simp
qed

theorem granted_vote_witness:
  "votedFor (fst (handleRequestVote False False 0 [] (Some demo_request) (demo_node ''b''))) = ''a''"
proof -
  obtain r where r: "handleRequestVote False False 0 [] (Some demo_request) (demo_node ''b'') = (r, \<lparr>rvr_Term = 1, rvr_VoteGranted = True\<rparr>)" using demo_vote ..
  show ?thesis using granted_vote [OF r] r by (simp add: demo_request_def)
qed

theorem prevote_changes_nothing_witness:
  "fst (handleRequestVote False False 0 [] (Some (demo_request\<lparr>rv_PreVote := True\<rparr>)) (demo_node ''b'')) = demo_node ''b''"
  by (rule prevote_changes_nothing) simp

definition unit_machine :: "unit StateMachine" where
  "unit_machine = \<lparr>sm_Apply = (\<lambda>e s. Some (s, None)), sm_Snapshot = (\<lambda>s. Inr []), sm_Restore = (\<lambda>d s. (s, None))\<rparr>"

theorem failed_save_votes_twice_witness:
  "\<exists>r1 r2. handleRequestVote False True 0 [] (Some demo_request) (demo_node ''b'') = (r1, \<lparr>rvr_Term = 1, rvr_VoteGranted = True\<rparr>) \<and>
     NewRaftNode (\<lambda>_. []) (\<lambda>_. None) (\<lambda>_. []) (\<lambda>_. None) 0 (demo_cfg ''b'') unit_machine () (files_of r1) = Some (Inr r2) \<and>
     rvr_VoteGranted (snd (handleRequestVote False False 0 [] (Some (demo_request\<lparr>rv_CandidateID := ''c''\<rparr>)) r2))"
proof -
  obtain r1 where r1: "handleRequestVote False True 0 [] (Some demo_request) (demo_node ''b'') = (r1, \<lparr>rvr_Term = 1, rvr_VoteGranted = True\<rparr>)"
    and f: "snapshotFile r1 = None" "legacyMetaFile r1 = None" "disk (rlog r1) = None"
    by (simp add: handleRequestVote_eq demo_defs demo_request_def leader_alive_def log_up_to_date_def LastIndex_def LastTerm_def Let_def)
  obtain r2 where r2: "NewRaftNode (\<lambda>_. []) (\<lambda>_. None) (\<lambda>_. []) (\<lambda>_. None) 0 (demo_cfg ''b'') unit_machine () (files_of r1) = Some (Inr r2)"
    and l: "LastIndex (rlog r2) = 0" "LastTerm (rlog r2) = 0"
    by (auto simp: NewRaftNode_def files_of_def f demo_defs newRaftLogWithWAL_def loadFromDisk_def persistStateToDiskLocked_def
        loadSnapshotFromDisk_def loadSnapshotArtifact_def LastIndex_def LastTerm_def Let_def)
  have c: "config (demo_node ''b'') = demo_cfg ''b''" by (simp add: demo_node_def new_node_def)
  have "rvr_VoteGranted (snd (handleRequestVote False False 0 [] (Some (demo_request\<lparr>rv_CandidateID := ''c''\<rparr>)) r2))"
    using failed_save_votes_twice [where r = "demo_node ''b''" and req = demo_request and req' = "demo_request\<lparr>rv_CandidateID := ''c''\<rparr>" and now'' = 0 and order' = "[]",
        OF _ _ _ r1 _ r2 [folded c]]
    by (simp add: l log_up_to_date_def demo_request_def saved_def demo_defs)
  then show ?thesis using r1 r2 by blast
qed

theorem delayed_save_forgets_vote_witness:
  "\<exists>r2 r4. handleRequestVote False False 0 [] (Some demo_request) (stepDown_begin 0 1 (demo_node ''b'')) = (r2, \<lparr>rvr_Term = 1, rvr_VoteGranted = True\<rparr>) \<and>
     NewRaftNode (\<lambda>_. []) (\<lambda>_. None) (\<lambda>_. []) (\<lambda>_. None) 0 (demo_cfg ''b'') unit_machine () (files_of (save_state False 1 [] r2)) = Some (Inr r4) \<and>
     rvr_VoteGranted (snd (handleRequestVote False False 0 [] (Some (demo_request\<lparr>rv_CandidateID := ''c''\<rparr>)) r4))"
proof -
  let ?r1 = "stepDown_begin 0 1 (demo_node ''b'')"
  obtain r2 where r2: "handleRequestVote False False 0 [] (Some demo_request) ?r1 = (r2, \<lparr>rvr_Term = 1, rvr_VoteGranted = True\<rparr>)"
    and f: "snapshotFile r2 = None" "legacyMetaFile r2 = None" "disk (rlog r2) = None"
    by (simp add: handleRequestVote_eq stepDown_begin_def demo_defs demo_request_def leader_alive_def log_up_to_date_def LastIndex_def LastTerm_def Let_def)
  define r3 where "r3 = save_state False 1 [] r2"
  have f3: "snapshotFile r3 = None" "legacyMetaFile r3 = None" "disk (rlog r3) = None" using f by (simp_all add: r3_def save_state_def)
  obtain r4 where r4: "NewRaftNode (\<lambda>_. []) (\<lambda>_. None) (\<lambda>_. []) (\<lambda>_. None) 0 (demo_cfg ''b'') unit_machine () (files_of r3) = Some (Inr r4)"
    and l: "LastIndex (rlog r4) = 0" "LastTerm (rlog r4) = 0"
    by (auto simp: NewRaftNode_def files_of_def f3 demo_defs newRaftLogWithWAL_def loadFromDisk_def persistStateToDiskLocked_def
        loadSnapshotFromDisk_def loadSnapshotArtifact_def LastIndex_def LastTerm_def Let_def)
  have c: "config (demo_node ''b'') = demo_cfg ''b''" by (simp add: demo_node_def new_node_def)
  have "rvr_VoteGranted (snd (handleRequestVote False False 0 [] (Some (demo_request\<lparr>rv_CandidateID := ''c''\<rparr>)) r4))"
    using delayed_save_forgets_vote [where r = "demo_node ''b''" and req = demo_request and req' = "demo_request\<lparr>rv_CandidateID := ''c''\<rparr>" and now'' = 0 and order' = "[]",
        OF _ _ _ refl r2 _ _ _ _ r4 [folded c]]
    by (simp add: r3_def l log_up_to_date_def demo_request_def demo_defs stepDown_begin_def)
  then show ?thesis using r2 r4 [unfolded r3_def] by blast
qed

end
