(* ===== verification/SnapshotProps.thy ===== *)
theory SnapshotProps
  imports RaftLoop RaftLogProps ClusterProps
begin

text \<open>The properties of snapshot files and snapshot transfers.\<close>

section \<open>The artifact\<close>

lemma unat_byte: "unat (b :: byte) < 256"
  using unsigned_less [of b] by simp

lemma put_get_le: "put_le (length bs) (get_le bs) = bs"
proof (induction bs)
  case (Cons b bs)
  have "(unat b + 256 * get_le bs) mod 256 = unat b" using unat_byte [of b] by simp
  moreover have "(unat b + 256 * get_le bs) div 256 = get_le bs" using unat_byte [of b] by simp
  ultimately show ?case using Cons by simp
qed simp

lemma get_le_less: "get_le bs < 256 ^ length bs"
proof (induction bs)
  case (Cons b bs)
  show ?case using Cons unat_byte [of b] by simp
qed simp

lemma put_get_u32: "length bs = 4 \<Longrightarrow> put_u32 (get_le bs) = bs"
  using put_get_le [of bs] get_le_less [of bs] by (simp add: put_u32_def)

lemma put_get_u64: "length bs = 8 \<Longrightarrow> put_u64 (get_le bs) = bs"
  using put_get_le [of bs] get_le_less [of bs] by (simp add: put_u64_def)

lemma u64_sum:
  assumes "x \<le> n" "y < 2 ^ 64" "n < 2 ^ 64" "u64 (x + y) = n"
  shows "y = n - x"
proof (cases "x + y < 2 ^ 64")
  case False
  then obtain z where z: "x + y = z + 2 ^ 64" by (metis le_add_diff_inverse2 not_less)
  then have "z < x" using assms(2) by linarith
  moreover have "u64 (x + y) = z" using z calculation assms(1,3) by (simp add: u64_def)
  ultimately show ?thesis using assms(1,4) by simp
qed (use assms in simp)

text \<open>The layout of an artifact with given metadata and data.\<close>

definition artifact_of :: "bytes \<Rightarrow> bytes \<Rightarrow> bytes" where
  "artifact_of metadata data =
     snapshotMagic @ put_u32 snapshotFormatVersion @ put_u32 (length metadata) @ put_u64 (length data) @ sha256 (metadata @ data) @ metadata @ data"

lemma length_snapshotMagic [simp]: "length snapshotMagic = 8"
  by (simp add: snapshotMagic_def)

lemma length_artifact [simp]: "length (artifact_of metadata data) = headerSize + length metadata + length data"
  by (simp add: artifact_of_def headerSize_def)

lemma artifact_parts:
  "take 8 (artifact_of md d) = snapshotMagic" "take 4 (drop 8 (artifact_of md d)) = put_u32 snapshotFormatVersion"
  "take 4 (drop 12 (artifact_of md d)) = put_u32 (length md)" "take 8 (drop 16 (artifact_of md d)) = put_u64 (length d)"
  "take 32 (drop 24 (artifact_of md d)) = sha256 (md @ d)" "take (length md) (drop headerSize (artifact_of md d)) = md"
  "drop (headerSize + length md) (artifact_of md d) = d"
  by (simp_all add: artifact_of_def headerSize_def)

lemma encode_artifact: "encodeSnapshotArtifact mjson meta data = Inr a \<longleftrightarrow> length (mjson meta) \<le> maxSnapshotMetadataSize \<and> a = artifact_of (mjson meta) data"
  by (auto simp: encodeSnapshotArtifact_def artifact_of_def Let_def)

lemma decode_artifact:
  assumes "length md \<le> maxSnapshotMetadataSize" "headerSize + length md + length d < 2 ^ 64" "ujson md = Some meta" "validateSnapshotMeta meta = None"
  shows "decodeSnapshotArtifact ujson (artifact_of md d) = Some (Inr (meta, d))"
proof -
  have v: "get_le (put_u32 snapshotFormatVersion) = snapshotFormatVersion" by (simp add: snapshotFormatVersion_def)
  have m: "get_le (put_u32 (length md)) = length md" using assms(1) by (simp add: maxSnapshotMetadataSize_def)
  have n: "get_le (put_u64 (length d)) = length d" using assms(2) by simp
  have l: "\<not> (length (artifact_of md d) < headerSize \<or> take 8 (artifact_of md d) \<noteq> snapshotMagic)" by (simp add: artifact_parts)
  show ?thesis
    unfolding decodeSnapshotArtifact_def if_not_P [OF l] artifact_parts v m n Let_def
    using assms by (simp add: artifact_parts)
qed

lemma decode_accepts:
  assumes "decodeSnapshotArtifact ujson a = Some (Inr (meta, d))" "length a < 2 ^ 64"
  shows "\<exists>md. a = artifact_of md d \<and> length md \<le> maxSnapshotMetadataSize \<and> ujson md = Some meta \<and> validateSnapshotMeta meta = None"
proof -
  let ?ml = "get_le (take 4 (drop 12 a))" and ?dl = "get_le (take 8 (drop 16 a))"
  let ?md = "take ?ml (drop headerSize a)"
  have a: "\<not> length a < headerSize" "take 8 a = snapshotMagic" "get_le (take 4 (drop 8 a)) = snapshotFormatVersion"
    "?ml \<le> maxSnapshotMetadataSize" "u64 (headerSize + ?ml + ?dl) = length a" "headerSize + ?ml \<le> length a"
    "take 32 (drop 24 a) = sha256 (?md @ drop (headerSize + ?ml) a)" "d = drop (headerSize + ?ml) a"
    "ujson ?md = Some meta" "validateSnapshotMeta meta = None"
    using assms(1) by (auto simp: decodeSnapshotArtifact_def Let_def not_le split: if_splits option.splits)
  have len: "56 \<le> length a" using a(1) by (simp add: headerSize_def)
  have dl: "?dl < 2 ^ 64" using get_le_less [of "take 8 (drop 16 a)"] len by (simp add: min_def split: if_splits)
  have d: "length d = ?dl" using u64_sum [OF a(6) dl assms(2) a(5)] by (simp add: a(8))
  have m: "length ?md = ?ml" using a(6) by simp
  have p: "put_u32 ?ml = take 4 (drop 12 a)" "put_u64 ?dl = take 8 (drop 16 a)" "put_u32 snapshotFormatVersion = take 4 (drop 8 a)"
    using len by (simp_all add: put_get_u32 put_get_u64 flip: a(3))
  have s: "take k (drop n a) @ drop (n + k) a = drop n a" for k n
    using append_take_drop_id [of k "drop n a"] by (simp add: add.commute)
  have r: "?md @ d = drop 56 a"
    using append_take_drop_id [of ?ml "drop 56 a"] by (simp add: a(8) headerSize_def add.commute)
  have "artifact_of ?md d = take 8 a @ take 4 (drop 8 a) @ take 4 (drop 12 a) @ take 8 (drop 16 a) @ take 32 (drop 24 a) @ drop 56 a"
    unfolding artifact_of_def m d p a(2) [symmetric] a(7) a(8) [symmetric] r by (rule refl)
  also have "\<dots> = a"
  proof -
    have "take 32 (drop 24 a) @ drop 56 a = drop 24 a" "take 8 (drop 16 a) @ drop 24 a = drop 16 a"
      "take 4 (drop 12 a) @ drop 16 a = drop 12 a" "take 4 (drop 8 a) @ drop 12 a = drop 8 a"
      using s [of 32 24] s [of 8 16] s [of 4 12] s [of 4 8] by simp_all
    then show ?thesis by (simp only: append_take_drop_id)
  qed
  finally have e: "a = artifact_of ?md d" by (rule sym)
  have "length ?md \<le> maxSnapshotMetadataSize" using a(4) by simp
  show ?thesis by (rule exI [of _ ?md], intro conjI) (fact e, fact, fact a(9), fact a(10))
qed

text \<open>
  C27: the snapshot file is read back as it was written, and nothing else is accepted: decoding
  an encoded artifact gives the metadata and the data, and an artifact that decodes has the
  layout of the encoder with a SHA-256 digest that matches its contents. \<open>mjson\<close> and \<open>ujson\<close> are
  the JSON codec of the metadata.
\<close>

theorem snapshot_artifact_round_trip:
  assumes "encodeSnapshotArtifact mjson meta data = Inr a" "ujson (mjson meta) = Some meta" "validateSnapshotMeta meta = None" "length a < 2 ^ 64"
  shows "decodeSnapshotArtifact ujson a = Some (Inr (meta, data)) \<and>
     (\<forall>b meta' data'. length b < 2 ^ 64 \<longrightarrow> decodeSnapshotArtifact ujson b = Some (Inr (meta', data')) \<longrightarrow>
        (\<exists>metadata. b = snapshotMagic @ put_u32 1 @ put_u32 (length metadata) @ put_u64 (length data') @ sha256 (metadata @ data') @ metadata @ data' \<and>
           ujson metadata = Some meta'))"
proof -
  have a: "a = artifact_of (mjson meta) data" "length (mjson meta) \<le> maxSnapshotMetadataSize" using assms(1) by (auto simp: encode_artifact)
  have "decodeSnapshotArtifact ujson a = Some (Inr (meta, data))"
    unfolding a(1) by (rule decode_artifact) (use assms a in auto)
  then show ?thesis using decode_accepts by (auto simp: artifact_of_def snapshotFormatVersion_def) (metis)
qed

text \<open>A codec that keeps the index, and a state machine whose state is the restored data.\<close>

definition demo_meta :: SnapshotMeta where
  "demo_meta = \<lparr>LastIncludedIndex = 3, LastIncludedTerm = 1, ClusterConfig = demo_peers\<rparr>"

definition demo_mjson :: "SnapshotMeta \<Rightarrow> bytes" where
  "demo_mjson meta = [of_nat (LastIncludedIndex meta)]"

definition demo_ujson :: "bytes \<Rightarrow> SnapshotMeta option" where
  "demo_ujson bs = (case bs of [b] \<Rightarrow> Some \<lparr>LastIncludedIndex = unat b, LastIncludedTerm = 1, ClusterConfig = demo_peers\<rparr> | _ \<Rightarrow> None)"

definition bytes_machine :: "bytes StateMachine" where
  "bytes_machine = \<lparr>sm_Apply = (\<lambda>e s. Some (s @ Command e, None)), sm_Snapshot = (\<lambda>s. Inr s), sm_Restore = (\<lambda>d s. (d, None))\<rparr>"

lemma demo_codec: "demo_ujson (demo_mjson demo_meta) = Some demo_meta" "validateSnapshotMeta demo_meta = None"
  "length (demo_mjson meta) \<le> maxSnapshotMetadataSize"
  by (simp_all add: demo_ujson_def demo_mjson_def demo_meta_def validateSnapshotMeta_def Size_def demo_peers_def maxSnapshotMetadataSize_def)

theorem snapshot_artifact_round_trip_witness:
  "\<exists>a. encodeSnapshotArtifact demo_mjson demo_meta [1, 2, 3] = Inr a \<and> decodeSnapshotArtifact demo_ujson a = Some (Inr (demo_meta, [1, 2, 3]))"
proof -
  let ?a = "artifact_of (demo_mjson demo_meta) [1, 2, 3]"
  have a: "encodeSnapshotArtifact demo_mjson demo_meta [1, 2, 3] = Inr ?a" using demo_codec(3) by (simp add: encode_artifact)
  have "length ?a < 2 ^ 64" by (simp add: headerSize_def demo_mjson_def)
  then show ?thesis using a snapshot_artifact_round_trip [where ujson = demo_ujson, OF a demo_codec(1,2)] by blast
qed

text \<open>
  A damaged length field stops the program. The sum of the lengths wraps around, so a header
  whose metadata length is one byte beyond the file passes the length check, and slicing the
  file panics before the checksum is looked at; a node with such a file cannot start.
\<close>

theorem wrapped_length_panics:
  "decodeSnapshotArtifact ujson (snapshotMagic @ put_u32 1 @ put_u32 1 @ put_u64 (2 ^ 64 - 1) @ replicate 32 0) = None"
proof -
  let ?a = "snapshotMagic @ put_u32 1 @ put_u32 1 @ put_u64 (2 ^ 64 - 1) @ replicate 32 0"
  have l: "length ?a = 56" by simp
  have p: "take 8 ?a = snapshotMagic" "take 4 (drop 8 ?a) = put_u32 1" "take 4 (drop 12 ?a) = put_u32 1" "take 8 (drop 16 ?a) = put_u64 (2 ^ 64 - 1)"
    by simp_all
  have g: "get_le (put_u32 1) = 1" "get_le (put_u64 (2 ^ 64 - 1)) = 2 ^ 64 - 1" by simp_all
  have n: "\<not> (length ?a < headerSize \<or> take 8 ?a \<noteq> snapshotMagic)" unfolding l p by (simp add: headerSize_def)
  show ?thesis
    unfolding decodeSnapshotArtifact_def if_not_P [OF n] p g Let_def l
    by (simp add: snapshotFormatVersion_def maxSnapshotMetadataSize_def headerSize_def u64_def)
qed

section \<open>The transfer\<close>

text \<open>A follower that receives messages in order, without failing system calls.\<close>

fun install_all ::
  "(LogEntry \<Rightarrow> bytes) \<Rightarrow> (SnapshotMeta \<Rightarrow> bytes) \<Rightarrow> 'sm StateMachine \<Rightarrow> gotime \<Rightarrow> InstallSnapshotRequest list \<Rightarrow> 'sm RaftNode \<Rightarrow>
     'sm RaftNode \<times> raft_error option list" where
  "install_all marshal mjson sm now [] r = (r, [])"
| "install_all marshal mjson sm now (q # qs) r =
     (case handleInstallSnapshot marshal mjson sm None None None False now [] (Some q) r of
        (r1, _, e) \<Rightarrow> (case install_all marshal mjson sm now qs r1 of (r2, es) \<Rightarrow> (r2, e # es)))"

text \<open>What the follower has after the chunks up to an offset.\<close>

definition transfer_at :: "bool \<Rightarrow> SnapshotMeta \<Rightarrow> bytes \<Rightarrow> nat \<Rightarrow> installSnapshotState" where
  "transfer_at file meta data n =
     \<lparr>is_meta = meta, is_checksum = sha256 data, is_totalSize = length data, is_nextOffset = n, is_file = file, is_data = take n data\<rparr>"

text \<open>A follower that may install a snapshot: not ahead of it and able to store it.\<close>

definition snapshot_limit :: "Config \<Rightarrow> uint64" where
  "snapshot_limit cfg = (if MaxSnapshotSize cfg = 0 then defaultMaxSnapshotSize else MaxSnapshotSize cfg)"

definition may_install :: "(LogEntry \<Rightarrow> bytes) \<Rightarrow> (SnapshotMeta \<Rightarrow> bytes) \<Rightarrow> 'sm StateMachine \<Rightarrow> uint64 \<Rightarrow> SnapshotMeta \<Rightarrow> bytes \<Rightarrow> 'sm RaftNode \<Rightarrow> RaftLog \<Rightarrow> 'sm \<Rightarrow> bool" where
  "may_install marshal mjson sm t meta data r l' s' \<longleftrightarrow>
     fatalErr r = None \<and> currentTerm r \<le> t \<and> commitIndex r < LastIncludedIndex meta \<and>
     LastIncludedIndex (snapshotMeta r) < LastIncludedIndex meta \<and> lastApplied r \<le> LastIncludedIndex meta \<and>
     length data \<le> snapshot_limit (config r) \<and> length data \<le> maxInt \<and>
     (DataDir (config r) \<noteq> [] \<longrightarrow> length (mjson meta) \<le> maxSnapshotMetadataSize) \<and>
     RestoreSnapshotBoundary marshal None (LastIncludedIndex meta) (LastIncludedTerm meta) (rlog r) = (l', None) \<and>
     sm_Restore sm data (stateMachine r) = (s', None)"

definition heard :: "gotime \<Rightarrow> InstallSnapshotRequest \<Rightarrow> 'sm RaftNode \<Rightarrow> 'sm RaftNode" where
  "heard now req r =
     (if currentTerm r < in_Term req \<or> state r \<noteq> Follower then stepDown False now [] (in_Term req) r else r)
       \<lparr>leaderID := in_LeaderID req, lastHeartbeat := now\<rparr>"

lemma heard_fields [simp]:
  "rlog (heard now req r) = rlog r" "config (heard now req r) = config r" "stateMachine (heard now req r) = stateMachine r"
  "snapshotMeta (heard now req r) = snapshotMeta r" "installSnapshot (heard now req r) = installSnapshot r"
  "commitIndex (heard now req r) = commitIndex r" "lastApplied (heard now req r) = lastApplied r" "fatalErr (heard now req r) = fatalErr r"
  "clusterConfig (heard now req r) = clusterConfig r" "snapshotFile (heard now req r) = snapshotFile r"
  "currentTerm r \<le> in_Term req \<Longrightarrow> currentTerm (heard now req r) = in_Term req"
  by (auto simp: heard_def)

lemma may_install_heard:
  "may_install marshal mjson sm t meta data r l' s' \<Longrightarrow> in_Term req = t \<Longrightarrow> may_install marshal mjson sm t meta data ((heard now req r)\<lparr>installSnapshot := x\<rparr>) l' s'"
  by (simp add: may_install_def)

lemma mapsEqual_refl: "distinct (map fst c) \<Longrightarrow> mapsEqual c c"
  by (auto simp: mapsEqual_def)

lemma chunk_size_pos [simp]: "0 < chunk_size cfg"
  by (simp add: chunk_size_def defaultSnapshotChunkSize_def)

lemma chunk_fields:
  fixes cfg t meta data n
  defines "q \<equiv> chunk_request cfg t meta data n"
  assumes "n \<le> length data"
  shows "in_Term q = t" "in_Offset q = n" "in_TotalSize q = length data" "in_Checksum q = sha256 data"
    "in_LastIncludedIndex q = LastIncludedIndex meta" "in_LastIncludedTerm q = LastIncludedTerm meta" "in_ClusterConfig q = ClusterConfig meta"
    "n + length (in_Data q) = min (n + chunk_size cfg) (length data)" "take n data @ in_Data q = take (min (n + chunk_size cfg) (length data)) data"
    "in_Done q \<longleftrightarrow> min (n + chunk_size cfg) (length data) = length data"
proof -
  let ?e = "min (n + chunk_size cfg) (length data)"
  have e: "n \<le> ?e" using assms(2) by simp
  show "n + length (in_Data q) = ?e" using assms(2) by (auto simp: q_def chunk_request_def Let_def)
  show "take n data @ in_Data q = take ?e data"
    using e by (simp add: q_def chunk_request_def Let_def take_add [symmetric])
qed (simp_all add: q_def chunk_request_def Let_def)

lemma chunk_valid:
  assumes "may_install marshal mjson sm t meta data r l' s'" "validateSnapshotMeta meta = None" "n \<le> length data"
  shows "validateInstallSnapshotRequest (chunk_request cfg t meta data n) r = None"
proof -
  note f = chunk_fields [OF assms(3), of cfg t meta]
  have u: "u64 (min (n + chunk_size cfg) (length data)) = min (n + chunk_size cfg) (length data)"
    using assms(1) by (intro u64_id) (auto simp: may_install_def maxInt_def)
  have "\<not> snapshot_limit (config r) < length data" using assms(1) by (simp add: may_install_def)
  then show ?thesis
    using assms(2,3) unfolding validateInstallSnapshotRequest_def snapshot_limit_def [symmetric] Let_def f u
    by (auto simp: validateSnapshotMeta_def split: if_splits)
qed

lemma handle_chunk:
  fixes cfg :: Config
  assumes "may_install marshal mjson sm t meta data r l' s'" "validateSnapshotMeta meta = None" "n \<le> length data"
  defines "q \<equiv> chunk_request cfg t meta data n"
  shows "handleInstallSnapshot marshal mjson sm None None None False now [] (Some q) r = receive_chunk marshal mjson sm None None None q (heard now q r)"
proof -
  note f = chunk_fields [OF assms(3), of cfg t meta, folded q_def]
  have m: "may_install marshal mjson sm t meta data (heard now q r) l' s'" using assms(1) f by (simp add: may_install_def)
  have v: "validateInstallSnapshotRequest q (heard now q r) = None" using chunk_valid [OF m assms(2,3), of cfg] by (simp add: q_def)
  show ?thesis
    unfolding handleInstallSnapshot_def option.case Let_def heard_def [symmetric]
    using assms(1) v f by (simp add: may_install_def)
qed

lemma open_chunk:
  assumes m: "may_install marshal mjson sm t meta data r l' s'" and c: "distinct (map fst (ClusterConfig meta))" and n: "n \<le> length data"
    and i: "installSnapshot r = None \<and> n = 0 \<or> installSnapshot r = Some (transfer_at (DataDir (config r) \<noteq> []) meta data n)"
  shows "open_transfer None (chunk_request cfg t meta data n) r =
     (r\<lparr>installSnapshot := Some (transfer_at (DataDir (config r) \<noteq> []) meta data n)\<rparr>, Inr (transfer_at (DataDir (config r) \<noteq> []) meta data n))"
proof -
  note f = chunk_fields [OF n, of cfg t meta]
  from i show ?thesis
  proof
    assume i: "installSnapshot r = None \<and> n = 0"
    have z: "n = 0" using i by simp
    have e: "\<lparr>LastIncludedIndex = LastIncludedIndex meta, LastIncludedTerm = LastIncludedTerm meta, ClusterConfig = ClusterConfig meta\<rparr> = meta"
      by (cases meta) simp
    show ?thesis
      using m i unfolding open_transfer_def newInstallSnapshotState_def f e
      by (simp add: z discardInstallSnapshotLocked_def transfer_at_def may_install_def Let_def)
  next
    assume i: "installSnapshot r = Some (transfer_at (DataDir (config r) \<noteq> []) meta data n)"
    have "matches (chunk_request cfg t meta data n) (sha256 data) (transfer_at (DataDir (config r) \<noteq> []) meta data n)"
      using c by (simp add: matches_def transfer_at_def f mapsEqual_refl)
    moreover have "r = r\<lparr>installSnapshot := Some (transfer_at (DataDir (config r) \<noteq> []) meta data n)\<rparr>" using i by simp
    ultimately show ?thesis using i by (simp add: open_transfer_def f)
  qed
qed

lemma append_chunk:
  assumes "n \<le> length data" "length data \<le> maxInt"
  shows "appendChunk None n (in_Data (chunk_request cfg t meta data n)) (transfer_at b meta data n) =
     (transfer_at b meta data (min (n + chunk_size cfg) (length data)), None)"
proof -
  note f = chunk_fields [OF assms(1), of cfg t meta]
  have "u64 (n + length (in_Data (chunk_request cfg t meta data n))) = min (n + chunk_size cfg) (length data)"
    unfolding f(8) using assms(2) by (intro u64_id) (auto simp: maxInt_def)
  then show ?thesis
    using f(9) assms(1) by (simp add: appendChunk_def transfer_at_def write_at_def Let_def)
qed

lemma finalize_installed:
  assumes "may_install marshal mjson sm t meta data r l' s'"
  shows "\<exists>r1. finalizeInstalledSnapshot marshal mjson sm None None meta data r = (r1, None) \<and> stateMachine r1 = s' \<and> rlog r1 = l' \<and>
     snapshotMeta r1 = meta \<and> snapshotData r1 = data \<and> commitIndex r1 = LastIncludedIndex meta \<and> lastApplied r1 = LastIncludedIndex meta \<and>
     clusterConfig r1 = ClusterConfig meta \<and> config r1 = config r \<and> currentTerm r1 = currentTerm r \<and> fatalErr r1 = None \<and>
     (DataDir (config r) \<noteq> [] \<longrightarrow> snapshotFile r1 = Some (artifact_of (mjson meta) data))"
proof -
  have "\<exists>x. persistSnapshot mjson None meta data r = (r\<lparr>snapshotFile := x\<rparr>, None) \<and> (DataDir (config r) \<noteq> [] \<longrightarrow> x = Some (artifact_of (mjson meta) data))"
  proof (cases "DataDir (config r) = []")
    case True
    then show ?thesis by (intro exI [of _ "snapshotFile r"]) (simp add: persistSnapshot_def)
  next
    case False
    then have "encodeSnapshotArtifact mjson meta data = Inr (artifact_of (mjson meta) data)" using assms by (simp add: encode_artifact may_install_def)
    then show ?thesis using False by (simp add: persistSnapshot_def atomicWrite_def)
  qed
  then obtain x where x: "persistSnapshot mjson None meta data r = (r\<lparr>snapshotFile := x\<rparr>, None)" "DataDir (config r) \<noteq> [] \<longrightarrow> x = Some (artifact_of (mjson meta) data)" by blast
  show ?thesis
    using assms x by (simp add: finalizeInstalledSnapshot_def adopt_snapshot_def reconcileTransportPeers_def may_install_def max_def Let_def)
qed

lemma finish_complete:
  assumes "finalizeInstalledSnapshot marshal mjson sm None None meta data r = (r2, None)" "length data \<le> maxInt"
  shows "finish_transfer marshal mjson sm None None None (transfer_at b meta data (length data)) r = (discardInstallSnapshotLocked r2, currentTerm r2, None)"
  using assms by (simp add: finish_transfer_def transfer_at_def bytes_of_def)

lemma transfer_from:
  assumes "may_install marshal mjson sm t meta data r l' s'" "validateSnapshotMeta meta = None" "distinct (map fst (ClusterConfig meta))" "n \<le> length data"
    and "installSnapshot r = None \<and> n = 0 \<or> installSnapshot r = Some (transfer_at (DataDir (config r) \<noteq> []) meta data n)"
  shows "\<exists>r' es. install_all marshal mjson sm now (chunk_requests cfg t meta data n) r = (r', es) \<and> set es \<subseteq> {None} \<and>
     stateMachine r' = s' \<and> rlog r' = l' \<and> snapshotMeta r' = meta \<and> snapshotData r' = data \<and> commitIndex r' = LastIncludedIndex meta \<and>
     lastApplied r' = LastIncludedIndex meta \<and> clusterConfig r' = ClusterConfig meta \<and> installSnapshot r' = None \<and> currentTerm r' = t \<and>
     (DataDir (config r) \<noteq> [] \<longrightarrow> snapshotFile r' = Some (artifact_of (mjson meta) data))"
  using assms
proof (induction cfg t meta data n arbitrary: r rule: chunk_requests.induct)
  case (1 cfg t meta data n)
  let ?q = "chunk_request cfg t meta data n" and ?b = "DataDir (config r) \<noteq> []" and ?e = "min (n + chunk_size cfg) (length data)"
  note f = chunk_fields [OF 1(5), of cfg t meta]
  let ?h = "heard now ?q r" and ?r1 = "(heard now ?q r)\<lparr>installSnapshot := Some (transfer_at ?b meta data ?e)\<rparr>"
  have m1: "may_install marshal mjson sm t meta data ?r1 l' s'" by (rule may_install_heard [OF 1(2) f(1)])
  have mh: "may_install marshal mjson sm t meta data ?h l' s'" using 1(2) f(1) by (simp add: may_install_def)
  have len: "length data \<le> maxInt" using 1(2) by (simp add: may_install_def)
  have t: "currentTerm ?h = t" using 1(2) f(1) by (simp add: may_install_def)
  have o: "open_transfer None ?q ?h = (?h\<lparr>installSnapshot := Some (transfer_at ?b meta data n)\<rparr>, Inr (transfer_at ?b meta data n))"
    using open_chunk [OF mh 1(4,5), of cfg] 1(6) by simp
  have rc: "receive_chunk marshal mjson sm None None None ?q ?h =
      (if \<not> in_Done ?q then (?r1, t, None) else finish_transfer marshal mjson sm None None None (transfer_at ?b meta data ?e) ?r1)"
    using o append_chunk [OF 1(5) len, of cfg t meta ?b] t by (simp add: receive_chunk_def f(2) Let_def)
  note h = handle_chunk [OF 1(2,3,5), of now cfg]
  show ?case
  proof (cases "in_Done ?q")
    case False
    have e: "?e = n + chunk_size cfg" "n + chunk_size cfg \<le> length data" using False f(10) by auto
    have "\<exists>r' es. install_all marshal mjson sm now (chunk_requests cfg t meta data (n + chunk_size cfg)) ?r1 = (r', es) \<and> set es \<subseteq> {None} \<and>
       stateMachine r' = s' \<and> rlog r' = l' \<and> snapshotMeta r' = meta \<and> snapshotData r' = data \<and> commitIndex r' = LastIncludedIndex meta \<and>
       lastApplied r' = LastIncludedIndex meta \<and> clusterConfig r' = ClusterConfig meta \<and> installSnapshot r' = None \<and> currentTerm r' = t \<and>
       (DataDir (config ?r1) \<noteq> [] \<longrightarrow> snapshotFile r' = Some (artifact_of (mjson meta) data))"
      by (rule 1(1) [OF refl False m1 1(3,4) e(2)]) (simp add: e(1))
    then show ?thesis
      using h rc False by (subst chunk_requests.simps) (auto simp: Let_def)
  next
    case True
    obtain r2 where r2: "finalizeInstalledSnapshot marshal mjson sm None None meta data ?r1 = (r2, None)" "stateMachine r2 = s'" "rlog r2 = l'"
      "snapshotMeta r2 = meta" "snapshotData r2 = data" "commitIndex r2 = LastIncludedIndex meta" "lastApplied r2 = LastIncludedIndex meta"
      "clusterConfig r2 = ClusterConfig meta" "currentTerm r2 = t" "DataDir (config r) \<noteq> [] \<longrightarrow> snapshotFile r2 = Some (artifact_of (mjson meta) data)"
      using finalize_installed [OF m1] t by auto
    have e: "?e = length data" using True f(10) by simp
    have "finish_transfer marshal mjson sm None None None (transfer_at ?b meta data ?e) ?r1 = (discardInstallSnapshotLocked r2, t, None)"
      using finish_complete [OF r2(1) len] r2(9) unfolding e by blast
    then show ?thesis
      using h rc True r2 by (subst chunk_requests.simps) (simp add: Let_def discardInstallSnapshotLocked_def)
  qed
qed

text \<open>
  A snapshot sent in chunks is installed. A follower without a transfer in progress that
  receives the messages of \<^verbatim>\<open>sendSnapshot\<close> in order, whatever the chunk size, accepts every one
  of them and ends with exactly the leader's data restored into its state machine, the
  boundary, the configuration and the indices of the metadata, and the artifact on disk.
\<close>

theorem snapshot_transfer_installs:
  assumes "sendSnapshot_start leader = Inr (t, meta, data)" "may_install marshal mjson sm t meta data r l' s'"
    and "validateSnapshotMeta meta = None" "distinct (map fst (ClusterConfig meta))" "installSnapshot r = None"
  shows "\<exists>r' es. install_all marshal mjson sm now (chunk_requests (config leader) t meta data 0) r = (r', es) \<and> set es \<subseteq> {None} \<and>
     stateMachine r' = s' \<and> rlog r' = l' \<and> snapshotMeta r' = snapshotMeta leader \<and> snapshotData r' = snapshotData leader \<and>
     commitIndex r' = LastIncludedIndex meta \<and> lastApplied r' = LastIncludedIndex meta \<and> clusterConfig r' = ClusterConfig meta \<and>
     installSnapshot r' = None \<and> currentTerm r' = currentTerm leader \<and>
     (DataDir (config r) \<noteq> [] \<longrightarrow> (\<exists>a. snapshotFile r' = Some a \<and> encodeSnapshotArtifact mjson meta data = Inr a))"
proof -
  have l: "t = currentTerm leader" "meta = snapshotMeta leader" "data = snapshotData leader"
    using assms(1) by (auto simp: sendSnapshot_start_def split: if_splits)
  have len: "DataDir (config r) \<noteq> [] \<longrightarrow> length (mjson meta) \<le> maxSnapshotMetadataSize" using assms(2) by (simp add: may_install_def)
  show ?thesis
    using transfer_from [OF assms(2-4), of 0 now "config leader"] assms(5) l len by (auto simp: encode_artifact)
qed

text \<open>A leader with a snapshot that it sends two bytes at a time, and a new follower.\<close>

definition demo_sender :: "unit RaftNode" where
  "demo_sender = demo_leader\<lparr>snapshotMeta := demo_meta, snapshotData := [1, 2, 3], config := (demo_cfg ''a'')\<lparr>SnapshotChunkSize := 2\<rparr>\<rparr>"

definition demo_receiver :: "bytes RaftNode" where
  "demo_receiver =
     new_node 0 (demo_cfg ''b'') (newPersistentState ''./data'' None) newRaftLog [] \<lparr>nf_state = None, nf_wal = None, nf_snapshot = None, nf_meta = None\<rparr>"

theorem snapshot_transfer_installs_witness:
  "\<exists>r' es. install_all (\<lambda>_. []) demo_mjson bytes_machine 0 (chunk_requests (config demo_sender) 1 demo_meta [1, 2, 3] 0) demo_receiver = (r', es) \<and>
     stateMachine r' = [1, 2, 3] \<and> lastApplied r' = 3"
proof -
  obtain l' where l': "RestoreSnapshotBoundary (\<lambda>_. []) None 3 1 (rlog demo_receiver) = (l', None)"
    by (simp add: RestoreSnapshotBoundary_def demo_receiver_def new_node_def newRaftLog_def matching_suffix_def persistStateToDiskLocked_def Let_def)
  have s: "sendSnapshot_start demo_sender = Inr (1, demo_meta, [1, 2, 3])"
    by (simp add: sendSnapshot_start_def demo_sender_def demo_leader_fields demo_meta_def)
  have m: "may_install (\<lambda>_. []) demo_mjson bytes_machine 1 demo_meta [1, 2, 3] demo_receiver l' [1, 2, 3]"
    using l' demo_codec(3)
    by (simp add: may_install_def demo_receiver_def new_node_def newPersistentState_def demo_meta_def snapshot_limit_def demo_cfg_def DefaultConfig_def maxInt_def bytes_machine_def)
  have "distinct (map fst (ClusterConfig demo_meta))" "installSnapshot demo_receiver = None"
    by (simp_all add: demo_meta_def demo_peers_def demo_receiver_def new_node_def)
  then show ?thesis using snapshot_transfer_installs [OF s m demo_codec(2), of 0] by (auto simp: demo_meta_def)
qed

end
