(* ===== verification/ReplicationProps.thy ===== *)
theory ReplicationProps
  imports RaftLogProps ClusterProps
begin

text \<open>
  The properties of log replication: what a follower's log is after \<^verbatim>\<open>AppendEntries\<close>, which
  entries a leader commits, and when a read is confirmed.
\<close>

section \<open>Successful changes of the log\<close>

lemma Append_ok:
  "Append marshal af es l = (l', None) \<Longrightarrow>
     entries l' = entries l @ es \<and> baseIndex l' = baseIndex l \<and> baseTerm l' = baseTerm l \<and> boundaryKnown l' = boundaryKnown l"
  by (auto simp: Append_def appendWALToDiskLocked_def failAppendLocked_def failStorageLocked_def Let_def
      split: if_splits option.splits prod.splits append_fault.splits)

lemma Append_error: "Append marshal af es l = (l', Some e) \<Longrightarrow>
     entries l' = entries l \<and> baseIndex l' = baseIndex l \<and> baseTerm l' = baseTerm l \<and> boundaryKnown l' = boundaryKnown l"
  by (auto simp: Append_def appendWALToDiskLocked_def failAppendLocked_def failStorageLocked_def Let_def
      split: if_splits option.splits prod.splits append_fault.splits)

lemma Append_contiguous:
  assumes "log_wf l" "Append marshal af es l = (l', None)" "baseIndex l + length (entries l) + length es < 2 ^ 64"
  shows "log_wf l'"
proof (cases "es = []")
  case False
  then have "validateEntrySequence es (u64 (baseIndex l + length (entries l) + 1)) = None"
    using assms(2) by (auto simp: Append_def split: option.splits)
  then have "contiguous (baseIndex l + length (entries l)) es" using validate_contiguous [of "baseIndex l + length (entries l)" es] assms(3) by simp
  then show ?thesis using assms(1,3) Append_ok [OF assms(2)] by (simp add: log_wf_def contiguous_append)
qed (use assms in \<open>simp add: Append_def\<close>)

lemma persist_frame:
  "persistStateToDiskLocked marshal pf es bi bt l = (l', err) \<Longrightarrow>
     entries l' = entries l \<and> baseIndex l' = baseIndex l \<and> baseTerm l' = baseTerm l \<and> boundaryKnown l' = boundaryKnown l"
  by (auto simp: persistStateToDiskLocked_def failStorageLocked_def Let_def
      split: if_splits option.splits persist_fault.splits)

lemma TruncateAfter_ok:
  assumes "log_wf l" "TruncateAfter marshal pf i l = (l', None)"
  shows "baseIndex l \<le> i \<and> entries l' = take (i - baseIndex l) (entries l) \<and> baseIndex l' = baseIndex l \<and> baseTerm l' = baseTerm l \<and>
     boundaryKnown l' = boundaryKnown l"
  using assms(1) assms(2)
  by (auto simp: TruncateAfter_def log_wf_def Let_def dest!: persist_frame split: if_splits option.splits prod.splits)

lemma log_wf_take:
  "log_wf l \<Longrightarrow> entries l' = take k (entries l) \<Longrightarrow> baseIndex l' = baseIndex l \<Longrightarrow> baseTerm l' = baseTerm l \<Longrightarrow> boundaryKnown l' = boundaryKnown l \<Longrightarrow> log_wf l'"
  by (auto simp: log_wf_def contiguous_take)

text \<open>
  The loop of \<^verbatim>\<open>processAppendEntries\<close> over the entries: the first \<open>i\<close> are in the log already; the
  rest, if any, replaces everything after them.
\<close>

definition merged :: "uint64 \<Rightarrow> LogEntry list \<Rightarrow> RaftLog \<Rightarrow> RaftLog \<Rightarrow> nat \<Rightarrow> bool" where
  "merged p es l l' i \<longleftrightarrow>
     i \<le> length es \<and> (\<forall>j < i. TermAt (Index (es ! j)) l = Inr (Term (es ! j))) \<and>
     baseIndex l' = baseIndex l \<and> baseTerm l' = baseTerm l \<and> boundaryKnown l' = boundaryKnown l \<and>
     (if i = length es then entries l' = entries l
      else TermAt (Index (es ! i)) l \<noteq> Inr (Term (es ! i)) \<and> entries l' = take (p + i - baseIndex l) (entries l) @ drop i es)"

lemma ae_entries_merged:
  assumes "log_wf l" "contiguous p es" "baseIndex l \<le> p" "p \<le> baseIndex l + length (entries l)" "p + length es < 2 ^ 64"
    and "ae_entries marshal pf af es l = (l', EntriesApplied)"
  shows "(\<exists>i. merged p es l l' i) \<and> log_wf l'"
  using assms(2-6)
proof (induction es arbitrary: p)
  case Nil
  then show ?case using assms(1) by (intro conjI exI [of _ 0]) (simp_all add: merged_def)
next
  case (Cons e es)
  have e: "Index e = p + 1" "contiguous (p + 1) es" using Cons.prems(1) by (auto simp: contiguous_Cons)
  show ?case
  proof (cases "TermAt (Index e) l")
    case (Inr t)
    then have le: "p + 1 \<le> baseIndex l + length (entries l)"
      using e(1) Cons.prems(2) by (auto simp: TermAt_def termAtLocked_def Let_def split: if_splits)
    show ?thesis
    proof (cases "t = Term e")
      case True
      have ae: "ae_entries marshal pf af es l = (l', EntriesApplied)" using Cons.prems(5) Inr True by simp
      from Cons.IH [OF e(2) _ _ _ ae] obtain i where i: "merged (p + 1) es l l' i" and w: "log_wf l'"
        using le Cons.prems(2,4) by auto
      have "merged p (e # es) l l' (Suc i)"
        using i Inr True e(1) by (auto simp: merged_def nth_Cons split: nat.splits)
      then show ?thesis using w by blast
    next
      case False
      then obtain l1 where l1: "TruncateAfter marshal pf p l = (l1, None)" "Append marshal af (e # es) l1 = (l', None)"
        using Cons.prems(5) Inr e(1) by (auto split: option.splits prod.splits)
      note tr = TruncateAfter_ok [OF assms(1) l1(1)]
      have w1: "log_wf l1" using log_wf_take [OF assms(1)] tr by blast
      have len: "baseIndex l1 + length (entries l1) = p" using tr Cons.prems(2,3) by simp
      have "log_wf l'" by (rule Append_contiguous [OF w1 l1(2)]) (use len Cons.prems(4) in simp)
      moreover have "merged p (e # es) l l' 0" using tr Append_ok [OF l1(2)] Inr False by (simp add: merged_def)
      ultimately show ?thesis by blast
    qed
  next
    case (Inl er)
    then have er: "er = ErrOutOfRange" "Append marshal af (e # es) l = (l', None)"
      using Cons.prems(5) by (auto split: if_splits option.splits prod.splits)
    have "baseIndex l + length (entries l) \<le> p"
      using Inl er(1) e(1) Cons.prems(2) by (auto simp: TermAt_def termAtLocked_def Let_def split: if_splits)
    then have p: "p = baseIndex l + length (entries l)" using Cons.prems(3) by simp
    have "log_wf l'" by (rule Append_contiguous [OF assms(1) er(2)]) (use p Cons.prems(4) in simp)
    moreover have "merged p (e # es) l l' 0" using Append_ok [OF er(2)] p Inl by (simp add: merged_def)
    ultimately show ?thesis by blast
  qed
qed

lemma TermAt_above: "TermAt (baseIndex l + Suc k) l = (if k < length (entries l) then Inr (Term (entries l ! k)) else Inl ErrOutOfRange)"
  by (simp add: TermAt_def termAtLocked_def)

lemma merged_facts:
  assumes m: "merged p es l l' i" and c: "contiguous p es" "baseIndex l \<le> p" "p \<le> baseIndex l + length (entries l)"
  shows "j < length es \<Longrightarrow> TermAt (Index (es ! j)) l' = Inr (Term (es ! j))"
    and "k \<le> p \<Longrightarrow> GetEntry k l' = GetEntry k l \<and> TermAt k l' = TermAt k l"
    and "(\<forall>e \<in> set es. Index e \<le> baseIndex l + length (entries l) \<longrightarrow> TermAt (Index e) l = Inr (Term e)) \<Longrightarrow> \<exists>new. entries l' = entries l @ new"
proof -
  let ?b = "baseIndex l" and ?d = "p - baseIndex l"
  have ix: "Index (es ! j) = ?b + Suc (?d + j)" if "j < length es" for j using c that by (simp add: contiguous_def)
  have b: "baseIndex l' = ?b" "baseTerm l' = baseTerm l" "boundaryKnown l' = boundaryKnown l" using m by (auto simp: merged_def)
  have il: "i \<le> length es" using m by (simp add: merged_def)
  have old: "?d + j < length (entries l) \<and> Term (entries l ! (?d + j)) = Term (es ! j)" if "j < i" for j
  proof -
    have "TermAt (Index (es ! j)) l = Inr (Term (es ! j))" using m that by (simp add: merged_def)
    then show ?thesis using ix [of j] that il TermAt_above [of l "?d + j"] by (auto split: if_splits)
  qed
  have di: "?d + i \<le> length (entries l)"
  proof (cases i)
    case 0
    then show ?thesis using c by simp
  next
    case (Suc n)
    then show ?thesis using old [of n] by simp
  qed
  have ent: "entries l' = (if i = length es then entries l else take (?d + i) (entries l) @ drop i es)"
    using m c(2) by (auto simp: merged_def)
  show "TermAt (Index (es ! j)) l' = Inr (Term (es ! j))" if "j < length es"
  proof (cases "j < i")
    case True
    then have "?d + j < length (entries l') \<and> entries l' ! (?d + j) = entries l ! (?d + j)"
      using old [OF True] di by (auto simp: ent nth_append)
    then show ?thesis using ix [OF that] old [OF True] TermAt_above [of l' "?d + j"] b(1) by simp
  next
    case False
    then have "i \<noteq> length es" using that by simp
    then have "?d + j < length (entries l') \<and> entries l' ! (?d + j) = es ! j"
      using False that di by (auto simp: ent nth_append)
    then show ?thesis using ix [OF that] TermAt_above [of l' "?d + j"] b(1) by simp
  qed
  show "GetEntry k l' = GetEntry k l \<and> TermAt k l' = TermAt k l" if "k \<le> p"
  proof (cases "k \<le> ?b")
    case True
    then show ?thesis by (simp add: GetEntry_def TermAt_def termAtLocked_def b)
  next
    case False
    define n where "n = k - ?b - 1"
    have n: "k = ?b + Suc n" "n < ?d" using False that by (auto simp: n_def)
    have "n < length (entries l') \<and> entries l' ! n = entries l ! n \<and> n < length (entries l)"
      using di n(2) by (auto simp: ent nth_append)
    then show ?thesis using n by (simp add: GetEntry_def TermAt_def termAtLocked_def b)
  qed
  show "\<exists>new. entries l' = entries l @ new"
    if no: "\<forall>e \<in> set es. Index e \<le> ?b + length (entries l) \<longrightarrow> TermAt (Index e) l = Inr (Term e)"
  proof (cases "i = length es")
    case True
    then show ?thesis by (simp add: ent)
  next
    case False
    then have lt: "i < length es" using il by simp
    then have "TermAt (Index (es ! i)) l \<noteq> Inr (Term (es ! i))" using m by (auto simp: merged_def)
    then have "\<not> Index (es ! i) \<le> ?b + length (entries l)" using no lt nth_mem by blast
    then have "?d + i = length (entries l)" using ix [OF lt] di by simp
    then show ?thesis using False by (simp add: ent)
  qed
qed

section \<open>The follower\<close>

lemma prev_check_passed:
  assumes "log_wf (rlog r)" "prev_check req r = None"
  shows "baseIndex (rlog r) \<le> ae_PrevLogIndex req \<and> ae_PrevLogIndex req \<le> baseIndex (rlog r) + length (entries (rlog r)) \<and>
     (0 < ae_PrevLogIndex req \<longrightarrow> TermAt (ae_PrevLogIndex req) (rlog r) = Inr (ae_PrevLogTerm req))"
  using assms(2)
  by (auto simp: prev_check_def Let_def TermAt_def termAtLocked_def split: if_splits sum.splits)

lemma prev_check_refuses: "prev_check req r = Some resp \<Longrightarrow> \<not> aer_Success resp"
  by (auto simp: prev_check_def Let_def split: if_splits sum.splits)

lemma ae_log_part_success:
  assumes a: "ae_log_part marshal pf af req r = (r', resp, err)" "aer_Success resp"
  obtains l' where "prev_check req r = None" "ae_Entries req \<noteq> [] \<longrightarrow> validateEntrySequence (ae_Entries req) (ae_PrevLogIndex req + 1) = None"
    "ae_entries marshal pf af (ae_Entries req) (rlog r) = (l', EntriesApplied)" "r' = commit_from_leader (ae_LeaderCommit req) (r\<lparr>rlog := l'\<rparr>)"
    "aer_Term resp = currentTerm r'" "err = None"
proof -
  obtain l1 res where e: "ae_entries marshal pf af (ae_Entries req) (rlog r) = (l1, res)" by fastforce
  have v: "ae_Entries req \<noteq> [] \<longrightarrow> ae_PrevLogIndex req \<noteq> max_uint64 \<and> validateEntrySequence (ae_Entries req) (ae_PrevLogIndex req + 1) = None"
  proof (rule ccontr)
    assume "\<not> ?thesis"
    then show False using a by (auto simp: ae_log_part_def ae_response_def split: if_splits option.splits)
  qed
  have ok: "(if ae_Entries req \<noteq> [] then validateEntrySequence (ae_Entries req) (ae_PrevLogIndex req + 1) else None) = None"
    "\<not> (ae_Entries req \<noteq> [] \<and> ae_PrevLogIndex req = max_uint64)" using v by auto
  have p: "prev_check req r = None"
  proof (cases "prev_check req r")
    case (Some x)
    then have "resp = x" using a(1) ok by (simp add: ae_log_part_def)
    then show ?thesis using prev_check_refuses [OF Some] a(2) by simp
  qed
  have part: "ae_log_part marshal pf af req r =
     (case res of
        EntriesFailed e \<Rightarrow> (let r1 = markStorageFailureLocked e (r\<lparr>rlog := l1\<rparr>) in (r1, ae_response False r1, Some e))
      | EntriesConflict \<Rightarrow> (r\<lparr>rlog := l1\<rparr>, (ae_response False r)\<lparr>aer_ConflictIndex := FirstIndex l1\<rparr>, None)
      | EntriesApplied \<Rightarrow> (let r1 = commit_from_leader (ae_LeaderCommit req) (r\<lparr>rlog := l1\<rparr>) in (r1, ae_response True r1, None)))"
    unfolding ae_log_part_def ok(1) if_not_P [OF ok(2)] option.case p e by (cases res) simp_all
  show thesis
  proof (cases res)
    case EntriesApplied
    then show ?thesis using part a e p v by (intro that [of l1]) (auto simp: ae_response_def Let_def)
  qed (use part a in \<open>auto simp: ae_response_def Let_def\<close>)
qed

lemma commit_from_leader_fields [simp]:
  "rlog (commit_from_leader lc r) = rlog r" "currentTerm (commit_from_leader lc r) = currentTerm r" "state (commit_from_leader lc r) = state r"
  "commitIndex (commit_from_leader lc r) = (if commitIndex r < lc then min lc (LastIndex (rlog r)) else commitIndex r)"
  by (simp_all add: commit_from_leader_def)

text \<open>
  C8: what a successful \<^verbatim>\<open>AppendEntries\<close> guarantees. The node is a follower in the leader's term;
  its log is contiguous, agrees with the leader at the previous index and on the term of every
  entry sent, is unchanged up to the previous index, and loses nothing unless one of its entries
  has another term than the entry sent for its index. When the commit index in the message is
  above the node's, the node's moves to the smaller of the one in the message and the last index of
  the log; otherwise (a heartbeat carries 0) it stays.
\<close>

theorem append_entries_success:
  assumes wf: "log_wf (rlog r)" and h: "processAppendEntries marshal pf af sf now order (Some req) r = (r', resp, err)" "aer_Success resp"
    and bound: "ae_PrevLogIndex req + length (ae_Entries req) < 2 ^ 64"
  shows "log_wf (rlog r') \<and> state r' = Follower \<and> currentTerm r' = ae_Term req \<and> aer_Term resp = ae_Term req \<and> err = None \<and>
     (0 < ae_PrevLogIndex req \<longrightarrow> TermAt (ae_PrevLogIndex req) (rlog r') = Inr (ae_PrevLogTerm req)) \<and>
     (\<forall>e \<in> set (ae_Entries req). TermAt (Index e) (rlog r') = Inr (Term e)) \<and>
     (\<forall>i \<le> ae_PrevLogIndex req. GetEntry i (rlog r') = GetEntry i (rlog r)) \<and>
     ((\<forall>e \<in> set (ae_Entries req). Index e \<le> LastIndex (rlog r) \<longrightarrow> TermAt (Index e) (rlog r) = Inr (Term e)) \<longrightarrow>
        (\<exists>new. entries (rlog r') = entries (rlog r) @ new)) \<and>
     commitIndex r' = (if commitIndex r < ae_LeaderCommit req then min (ae_LeaderCommit req) (LastIndex (rlog r')) else commitIndex r)"
proof -
  define r1 where "r1 = (if currentTerm r < ae_Term req \<or> state r \<noteq> Follower then stepDown sf now order (ae_Term req) r else r)\<lparr>leaderID := ae_LeaderID req, lastHeartbeat := now\<rparr>"
  have part: "ae_log_part marshal pf af req r1 = (r', resp, err)" and tm: "currentTerm r \<le> ae_Term req"
    using h unfolding processAppendEntries_eq option.case Let_def r1_def [symmetric]
    by (auto simp: ae_response_def split: option.splits if_splits)
  have r1: "rlog r1 = rlog r" "state r1 = Follower" "currentTerm r1 = ae_Term req" "commitIndex r1 = commitIndex r"
    using tm by (auto simp: r1_def)
  from part h(2) show ?thesis
  proof (cases rule: ae_log_part_success)
    case (1 l')
    have w1: "log_wf (rlog r1)" using wf r1 by simp
    note pc = prev_check_passed [OF w1 1(1)]
    let ?p = "ae_PrevLogIndex req" and ?es = "ae_Entries req"
    have c: "contiguous ?p ?es"
    proof (cases "?es = []")
      case False
      then have "u64 (?p + 1) = ?p + 1" using bound by (cases ?es) auto
      then show ?thesis using 1(2) False validate_contiguous [OF bound] by simp
    qed simp
    have pr: "baseIndex (rlog r) \<le> ?p" "?p \<le> baseIndex (rlog r) + length (entries (rlog r))" using pc r1(1) by auto
    have ae: "ae_entries marshal pf af ?es (rlog r) = (l', EntriesApplied)" using 1(3) r1(1) by simp
    obtain i where m: "merged ?p ?es (rlog r) l' i" and wl: "log_wf l'"
      using ae_entries_merged [OF wf c pr bound ae] by blast
    note mf = merged_facts [OF m c pr]
    have "\<forall>e \<in> set ?es. TermAt (Index e) l' = Inr (Term e)" using mf(1) by (metis in_set_conv_nth)
    moreover have "\<forall>i \<le> ?p. GetEntry i l' = GetEntry i (rlog r)" "0 < ?p \<longrightarrow> TermAt ?p l' = Inr (ae_PrevLogTerm req)"
      using mf(2) pc r1(1) by auto
    ultimately show ?thesis using 1(4-6) r1 wl mf(3) LastIndex_eq [OF wf] by simp
  qed
qed

section \<open>The leader\<close>

text \<open>The nodes known to have an index: the leader itself and the peers that acknowledged it.\<close>

definition holders :: "'sm RaftNode \<Rightarrow> uint64 \<Rightarrow> string set" where
  "holders r n = insert (NodeID (config r)) {p \<in> members (clusterConfig r). n \<le> idx (matchIndex r) p}"

lemma replica_count_holders:
  assumes "distinct (map fst (clusterConfig r))" "NodeID (config r) \<in> members (clusterConfig r)"
  shows "replica_count n r = card (holders r n)" "holders r n \<subseteq> members (clusterConfig r)"
proof -
  let ?self = "NodeID (config r)" and ?ps = "filter (\<lambda>p. n \<le> idx (matchIndex r) p) (other_peers (NodeID (config r)) (clusterConfig r))"
  have "distinct ?ps" using assms(1) by (simp add: other_peers_def)
  then have "length ?ps = card (set ?ps)" by (rule distinct_card [symmetric])
  moreover have "holders r n = insert ?self (set ?ps)" "?self \<notin> set ?ps" by (auto simp: holders_def other_peers_def members_def)
  ultimately show "replica_count n r = card (holders r n)" by (simp add: replica_count_def)
  show "holders r n \<subseteq> members (clusterConfig r)" using assms(2) by (auto simp: holders_def)
qed

text \<open>What the downward scan finds: nothing, or the highest index that may be committed.\<close>

lemma commit_scan_result:
  "commitIndex (commit_scan r n) = commitIndex r \<or>
     (commitIndex r < commitIndex (commit_scan r n) \<and> commitIndex (commit_scan r n) \<le> n \<and>
      (\<exists>e. GetEntry (commitIndex (commit_scan r n)) (rlog r) = Inr e \<and> Term e = currentTerm r) \<and>
      Majority (clusterConfig r) \<le> replica_count (commitIndex (commit_scan r n)) r)"
proof (induction r n rule: commit_scan.induct)
  case (1 r n)
  show ?case
  proof (cases "n \<le> commitIndex r")
    case True
    then show ?thesis by (simp add: commit_scan.simps [of r n])
  next
    case False
    show ?thesis
    proof (cases "GetEntry n (rlog r)")
      case (Inl er)
      then have "commit_scan r n = commit_scan r (n - 1)" using False by (simp add: commit_scan.simps [of r n])
      then show ?thesis using 1(1) [OF False Inl] by auto
    next
      case (Inr e)
      show ?thesis
      proof (cases "Term e \<noteq> currentTerm r \<or> Majority (clusterConfig r) \<le> replica_count n r")
        case True
        then show ?thesis using False Inr by (simp add: commit_scan.simps [of r n])
      next
        case nq: False
        then have "commit_scan r n = commit_scan r (n - 1)" using False Inr by (simp add: commit_scan.simps [of r n])
        then show ?thesis using 1(2) [OF False Inr] nq by auto
      qed
    qed
  qed
qed

lemma commit_scan_complete:
  assumes "log_wf (rlog r)" "commitIndex r < m" "m \<le> n" "baseIndex (rlog r) < m"
    and "\<And>k e. m \<le> k \<Longrightarrow> GetEntry k (rlog r) = Inr e \<Longrightarrow> Term e = currentTerm r" "Majority (clusterConfig r) \<le> replica_count m r"
    and "n \<le> LastIndex (rlog r)"
  shows "m \<le> commitIndex (commit_scan r n)"
  using assms
proof (induction r n rule: commit_scan.induct)
  case (1 r n)
  have lt: "\<not> n \<le> commitIndex r" using 1(4,5) by simp
  have ge: "GetEntry n (rlog r) = Inr (entries (rlog r) ! (n - baseIndex (rlog r) - 1))"
    using 1(5,6,9) LastIndex_eq [OF 1(3)] by (auto simp: GetEntry_def Let_def)
  have tm: "Term (entries (rlog r) ! (n - baseIndex (rlog r) - 1)) = currentTerm r" using 1(7) [OF 1(5) ge] .
  show ?case
  proof (cases "Majority (clusterConfig r) \<le> replica_count n r")
    case True
    then show ?thesis using lt ge tm 1(5) by (simp add: commit_scan.simps [of r n])
  next
    case False
    then have s: "commit_scan r n = commit_scan r (n - 1)" using lt ge tm by (simp add: commit_scan.simps [of r n])
    have "m \<noteq> n" using False 1(8) by auto
    then have "m \<le> commitIndex (commit_scan r (n - 1))"
      using 1(2) [OF lt ge _ False 1(3,4) _ 1(6) _ 1(8)] tm 1(5,7,9) by force
    then show ?thesis using s by simp
  qed
qed

text \<open>
  C9: commitment. \<^verbatim>\<open>advanceCommitIndex\<close> never lowers the commit index; it raises it only on a
  leader, to an index whose entry has the leader's current term and is held by a quorum, and to
  the highest such index when all entries above it are of the current term too.
\<close>

theorem commit_rule:
  assumes wf: "log_wf (rlog r)" and cfg: "distinct (map fst (clusterConfig r))" "NodeID (config r) \<in> members (clusterConfig r)"
  shows "commitIndex r \<le> commitIndex (advanceCommitIndex r) \<and>
     (commitIndex r < commitIndex (advanceCommitIndex r) \<longrightarrow>
        state r = Leader \<and> is_quorum (clusterConfig r) (holders r (commitIndex (advanceCommitIndex r))) \<and>
        (\<exists>e. GetEntry (commitIndex (advanceCommitIndex r)) (rlog r) = Inr e \<and> Term e = currentTerm r)) \<and>
     (\<forall>m. state r = Leader \<longrightarrow> baseIndex (rlog r) < m \<longrightarrow> m \<le> LastIndex (rlog r) \<longrightarrow> is_quorum (clusterConfig r) (holders r m) \<longrightarrow>
        (\<forall>k e. m \<le> k \<longrightarrow> GetEntry k (rlog r) = Inr e \<longrightarrow> Term e = currentTerm r) \<longrightarrow> m \<le> commitIndex (advanceCommitIndex r))"
proof -
  let ?c = "commitIndex (advanceCommitIndex r)"
  have q: "is_quorum (clusterConfig r) (holders r m) \<longleftrightarrow> Majority (clusterConfig r) \<le> replica_count m r" for m
    using replica_count_holders [OF cfg] by (simp add: is_quorum_def)
  have 1: "?c = commitIndex r \<or> (state r = Leader \<and> commitIndex r < ?c \<and> (\<exists>e. GetEntry ?c (rlog r) = Inr e \<and> Term e = currentTerm r) \<and> is_quorum (clusterConfig r) (holders r ?c))"
    using commit_scan_result [of r "LastIndex (rlog r)"] by (auto simp: advanceCommitIndex_def q)
  have 2: "m \<le> ?c" if "state r = Leader" "baseIndex (rlog r) < m" "m \<le> LastIndex (rlog r)" "is_quorum (clusterConfig r) (holders r m)"
    "\<forall>k e. m \<le> k \<longrightarrow> GetEntry k (rlog r) = Inr e \<longrightarrow> Term e = currentTerm r" for m
  proof (cases "m \<le> commitIndex r")
    case True
    then show ?thesis using 1 by auto
  next
    case False
    then show ?thesis
      using commit_scan_complete [OF wf _ that(3,2)] that q by (simp add: advanceCommitIndex_def)
  qed
  show ?thesis using 1 2 by (intro conjI) (force, force, blast)
qed

section \<open>Reads\<close>

lemma read_loop_confirms:
  assumes "confirmed < majority" "confirmed \<le> tot" "tot - confirmed \<le> sz - majority" "majority \<le> sz" "tot + length oks \<le> sz"
  shows "(read_loop majority sz tot confirmed oks = ReadConfirmed \<longleftrightarrow> majority \<le> confirmed + length (filter id oks)) \<and>
     (read_loop majority sz tot confirmed oks = ReadWaiting \<longrightarrow> tot + length oks < sz)"
  using assms
proof (induction oks arbitrary: tot confirmed)
  case (Cons ok oks)
  define c where "c = (if ok then confirmed + 1 else confirmed)"
  have n: "\<not> sz \<le> tot" using Cons.prems(5) by simp
  have few: "length (filter id oks) \<le> length oks" by simp
  have cnt: "confirmed + length (filter id (ok # oks)) = c + length (filter id oks)" by (simp add: c_def)
  have step: "read_loop majority sz tot confirmed (ok # oks) =
     (if majority \<le> c then ReadConfirmed else if sz - majority < tot + 1 - c then ReadNotLeader else read_loop majority sz (tot + 1) c oks)"
    using n by (simp add: Let_def c_def)
  show ?case
  proof (cases "majority \<le> c")
    case True
    then show ?thesis unfolding step cnt by simp
  next
    case nc: False
    show ?thesis
    proof (cases "sz - majority < tot + 1 - c")
      case True
      have "c + length oks < majority" using True Cons.prems(4,5) nc by simp
      then have "c + length (filter id oks) < majority" using few by linarith
      then show ?thesis using nc True unfolding step cnt by simp
    next
      case False
      have "c \<le> tot + 1" using Cons.prems(2) by (simp add: c_def)
      then show ?thesis
        using Cons.IH [of c "tot + 1"] Cons.prems(4,5) nc False unfolding step cnt by (simp add: id_def)
    qed
  qed
qed simp

text \<open>
  A read is confirmed exactly by a quorum. With at most one answer per peer, \<^verbatim>\<open>ReadIndex\<close> goes
  on to wait for the apply index if and only if the leader and the peers whose answer does not
  carry a higher term are a majority, whatever the order of the answers; with all answers in, it
  does not wait any longer.
\<close>

theorem read_needs_majority:
  assumes "ReadIndex_start r = Inr rr" "0 < Size (clusterConfig r)" "length replies < Size (clusterConfig r)"
  shows "(ReadIndex_collect rr replies = ReadConfirmed \<longleftrightarrow>
       Majority (clusterConfig r) \<le> 1 + length (filter (read_confirms (currentTerm r)) replies)) \<and>
     (length replies + 1 = Size (clusterConfig r) \<longrightarrow> ReadIndex_collect rr replies \<noteq> ReadWaiting) \<and>
     rr_index rr = commitIndex r \<and> state r = Leader \<and> noopCommitted r"
proof -
  have rr: "rr = \<lparr>rr_index = commitIndex r, rr_term = currentTerm r, rr_size = Size (clusterConfig r), rr_majority = Majority (clusterConfig r)\<rparr>"
    "state r = Leader" "noopCommitted r"
    using assms(1) by (auto simp: ReadIndex_start_def split: option.splits if_splits)
  let ?m = "Majority (clusterConfig r)" and ?n = "Size (clusterConfig r)" and ?oks = "True # map (read_confirms (currentTerm r)) replies"
  have cnt: "length (filter id ?oks) = 1 + length (filter (read_confirms (currentTerm r)) replies)"
    by (simp add: filter_map comp_def)
  show ?thesis
  proof (cases "?n = 1")
    case True
    then show ?thesis using rr by (simp add: ReadIndex_collect_def Majority_def)
  next
    case False
    have "?m \<le> ?n" using assms(2) by (simp add: Majority_def)
    then have "(read_loop ?m ?n 0 0 ?oks = ReadConfirmed \<longleftrightarrow> ?m \<le> 0 + length (filter id ?oks)) \<and> (read_loop ?m ?n 0 0 ?oks = ReadWaiting \<longrightarrow> 0 + length ?oks < ?n)"
      using assms(3) by (intro read_loop_confirms) (simp_all add: Majority_def)
    moreover have "ReadIndex_collect rr replies = read_loop ?m ?n 0 0 ?oks" using rr(1) False by (simp add: ReadIndex_collect_def del: read_loop.simps)
    ultimately show ?thesis using rr cnt by (auto simp del: read_loop.simps)
  qed
qed

text \<open>Terms do not fall along a run.\<close>

lemma terms_grow_step:
  assumes "cluster_step c s s'" "election_inv c s" "p \<in> members c"
  shows "currentTerm (nodes s p) \<le> currentTerm (nodes s' p)"
  using assms(1)
proof cases
  case (elect n sf now r' req b)
  then show ?thesis using startElection_sent [OF elect(3,4)] by auto
next
  case (elect_alone n sf now r' t marshal af)
  then show ?thesis using startElection_won [OF elect_alone(3,4)] by auto
next
  case (vote n q req sf sf' now order r' resp)
  have m: "\<not> rv_PreVote req" using assms(2) vote(2) by (auto simp: election_inv_def msgs_ok_def)
  show ?thesis
  proof (cases "rvr_VoteGranted resp")
    case True
    then show ?thesis using vote vote_granted [OF vote(3) True m] by auto
  next
    case False
    then show ?thesis using vote vote_refused [OF vote(3) False] by (auto simp: calm_def)
  qed
next
  case (tally n q req resp b finished counted marshal af sf now order r' b')
  from tally(5) have "currentTerm (nodes s n) \<le> currentTerm r'"
    by (cases rule: election_answer) (auto simp: calm_def)
  then show ?thesis using tally by auto
next
  case (quiet n r')
  then show ?thesis using calm_quiet [OF quiet(3)] by (auto simp: calm_def)
next
  case (restart n marshal unmarshal mjson ujson' now sm s0 r')
  then show ?thesis using calm_restart [OF restart(3,5)] by (auto simp: calm_def)
next
  case (vote_cast n q req now r' t v)
  then show ?thesis using vote_part_cast [OF vote_cast(3)] by auto
next
  case (vote_refuse n q req now r' resp)
  then show ?thesis using vote_part_refused [OF vote_refuse(3)] by auto
next
  case (elect_begin n now r')
  then show ?thesis using elect_begun [OF elect_begin(3,4)] by auto
qed auto

lemma terms_grow:
  assumes "(cluster_step c)\<^sup>*\<^sup>* s s'" "election_inv c s" "p \<in> members c"
  shows "currentTerm (nodes s p) \<le> currentTerm (nodes s' p)"
  using assms(1)
proof (induction rule: rtranclp_induct)
  case (step s' s'')
  have "election_inv c s'" by (rule inv_reachable [OF step(1) assms(2)])
  then show ?case using step terms_grow_step [OF step(2) _ assms(3)] by force
qed simp

lemma ae_log_part_term:
  "ae_log_part marshal pf af req r = (r', resp, err) \<Longrightarrow> currentTerm r' = currentTerm r \<and> aer_Term resp = currentTerm r"
  by (auto simp: ae_log_part_def prev_check_def ae_response_def markStorageFailureLocked_def markFatalLocked_def Let_def
      split: if_splits option.splits prod.splits entries_result.splits sum.splits)

lemma answer_term:
  assumes "processAppendEntries marshal pf af sf now order (Some req) r = (r', resp, err)"
  shows "currentTerm r \<le> aer_Term resp"
proof -
  define r1 where "r1 = (if currentTerm r < ae_Term req \<or> state r \<noteq> Follower then stepDown sf now order (ae_Term req) r else r)\<lparr>leaderID := ae_LeaderID req, lastHeartbeat := now\<rparr>"
  have "aer_Term resp = currentTerm r \<or> ae_log_part marshal pf af req r1 = (r', resp, err)"
    using assms unfolding processAppendEntries_eq option.case Let_def r1_def [symmetric]
    by (auto simp: ae_response_def split: option.splits if_splits)
  moreover have "currentTerm r \<le> currentTerm r1" by (simp add: r1_def)
  ultimately show ?thesis using ae_log_part_term by fastforce
qed

text \<open>A node answers a message at once, or when its interrupted handler goes on.\<close>

definition answers_with :: "AppendEntriesRequest \<Rightarrow> 'sm RaftNode \<Rightarrow> AppendEntriesResponse \<Rightarrow> bool" where
  "answers_with req r resp \<longleftrightarrow>
     (\<exists>marshal pf af sf now order r' err. processAppendEntries marshal pf af sf now order (Some req) r = (r', resp, err)) \<or>
     (\<exists>marshal pf af now r' err. ae_resume marshal pf af now req r = (r', resp, err))"

lemma answers_with_term: "answers_with req r resp \<Longrightarrow> currentTerm r \<le> aer_Term resp"
  unfolding answers_with_def ae_resume_def using answer_term ae_log_part_term by fastforce

text \<open>
  C10: a confirmed read is not stale. When the peers whose answers confirm a read of node \<open>n\<close> form
  a quorum with it, each having answered the leader's empty \<^verbatim>\<open>AppendEntries\<close> at some moment after
  the read began, at once or after an interruption, no other node was leading in the same or a later
  term when it began. The configuration is fixed, and nodes that restart find the term and the vote
  they had in memory; handlers may be interrupted at every release of their lock, and saves may fail
  or come late.
\<close>

theorem confirmed_read_is_current:
  assumes "cluster_init c s0" "(cluster_step c)\<^sup>*\<^sup>* s0 s" "n \<in> members c" "ReadIndex_start (nodes s n) = Inr rr"
    and q: "is_quorum c (insert n Q)"
    and answered: "\<And>p. p \<in> Q \<Longrightarrow> \<exists>sp resp. (cluster_step c)\<^sup>*\<^sup>* s sp \<and> answers_with (heartbeat_request (nodes s n)) (nodes sp p) resp \<and>
         read_confirms (rr_term rr) (Some resp)"
    and "m \<in> members c" "state (nodes s m) = Leader" "rr_term rr \<le> currentTerm (nodes s m)"
  shows "m = n"
proof -
  have i: "election_inv c s" by (rule inv_reachable [OF assms(2) inv_init [OF assms(1)]])
  have rr: "rr_term rr = currentTerm (nodes s n)" "state (nodes s n) = Leader"
    using assms(4) by (auto simp: ReadIndex_start_def split: option.splits if_splits)
  obtain R where R: "is_quorum c R" "\<forall>p \<in> R. (p, currentTerm (nodes s m), m) \<in> votes s"
    using i assms(7,8) by (auto simp: election_inv_def leaders_ok_def elected_def)
  obtain p where p: "p \<in> insert n Q" "p \<in> R" using maj.overlap [OF q R(1)] by blast
  have v: "currentTerm (nodes s m) \<le> currentTerm (nodes s p)" using i R(2) p(2) by (auto simp: election_inv_def votes_ok_def)
  have pm: "p \<in> members c" using p(2) R(1) by (auto simp: is_quorum_def)
  have "currentTerm (nodes s p) \<le> rr_term rr"
  proof (cases "p = n")
    case False
    then obtain sp resp where sp: "(cluster_step c)\<^sup>*\<^sup>* s sp" "answers_with (heartbeat_request (nodes s n)) (nodes sp p) resp" "read_confirms (rr_term rr) (Some resp)"
      using answered p(1) by blast
    have "currentTerm (nodes s p) \<le> currentTerm (nodes sp p)" by (rule terms_grow [OF sp(1) i pm])
    also have "\<dots> \<le> aer_Term resp" by (rule answers_with_term [OF sp(2)])
    also have "\<dots> \<le> rr_term rr" using sp(3) by (simp add: read_confirms_def)
    finally show ?thesis .
  qed (use rr in simp)
  then have "currentTerm (nodes s m) = currentTerm (nodes s n)" using v assms(9) rr(1) by simp
  obtain S where S: "is_quorum c S" "\<forall>p \<in> S. (p, currentTerm (nodes s n), n) \<in> votes s"
    using i assms(3) rr(2) by (auto simp: election_inv_def leaders_ok_def elected_def)
  have "x = y" if "(p, t, x) \<in> votes s" "(p, t, y) \<in> votes s" for p t x y
    using i that unfolding election_inv_def votes_ok_def by blast
  then show ?thesis
    using maj.one_winner [OF R(1) S(1), where V = "\<lambda>p x. (p, currentTerm (nodes s n), x) \<in> votes s" and c = m and d = n]
      R(2) S(2) \<open>currentTerm (nodes s m) = currentTerm (nodes s n)\<close> by simp
qed

section \<open>Examples\<close>

definition demo_entry :: "uint64 \<Rightarrow> uint64 \<Rightarrow> LogEntry" where
  "demo_entry i t = \<lparr>Index = i, Term = t, Type = EntryKV, Command = []\<rparr>"

definition demo_append :: "uint64 \<Rightarrow> string \<Rightarrow> LogEntry list \<Rightarrow> uint64 \<Rightarrow> AppendEntriesRequest" where
  "demo_append t leader es lc =
     \<lparr>ae_Term = t, ae_LeaderID = leader, ae_PrevLogIndex = 0, ae_PrevLogTerm = 0, ae_Entries = es, ae_LeaderCommit = lc\<rparr>"

lemmas demo_eval = demo_entry_def demo_append_def processAppendEntries_eq ae_log_part_def ae_response_def prev_check_def commit_from_leader_def
  max_uint64_def TermAt_def termAtLocked_def Append_def appendWALToDiskLocked_def TruncateAfter_def persistStateToDiskLocked_def
  LastIndex_def GetEntry_def Let_def demo_defs stepDown_eq SaveTermAndVote_def List.map_filter_def

theorem append_entries_success_witness:
  "log_wf (rlog (fst (processAppendEntries (\<lambda>_. []) None None False 0 [] (Some (demo_append 1 ''a'' [demo_entry 1 1] 0)) (demo_node ''b''))))"
proof -
  let ?h = "processAppendEntries (\<lambda>_. []) None None False 0 [] (Some (demo_append 1 ''a'' [demo_entry 1 1] 0)) (demo_node ''b'')"
  obtain r' resp err where h: "?h = (r', resp, err)" "aer_Success resp" by (simp add: demo_eval)
  show ?thesis
    using append_entries_success [OF _ h] h by (simp add: demo_append_def demo_defs log_wf_def)
qed

theorem commit_rule_witness:
  "1 \<le> commitIndex (advanceCommitIndex (demo_leader\<lparr>matchIndex := [''b'' \<mapsto> 1]\<rparr>))"
proof -
  let ?r = "demo_leader\<lparr>matchIndex := [''b'' \<mapsto> 1]\<rparr>"
  have 1: "log_wf (rlog ?r)" "distinct (map fst (clusterConfig ?r))" "NodeID (config ?r) \<in> members (clusterConfig ?r)"
    and 2: "state ?r = Leader" "baseIndex (rlog ?r) < 1" "1 \<le> LastIndex (rlog ?r)" "is_quorum (clusterConfig ?r) (holders ?r 1)"
    by (simp_all add: demo_leader_defs log_wf_def contiguous_Cons members_def is_quorum_def holders_def)
  have "Term e = currentTerm ?r" if "GetEntry k (rlog ?r) = Inr e" for k e
    using that by (auto simp: demo_leader_defs split: if_splits)
  then show ?thesis using commit_rule [OF 1] 2 by blast
qed

theorem read_needs_majority_witness:
  "\<exists>rr. ReadIndex_start (demo_leader\<lparr>noopCommitted := True\<rparr>) = Inr rr \<and>
     ReadIndex_collect rr [Some \<lparr>aer_Term = 1, aer_Success = True, aer_ConflictIndex = 0, aer_ConflictTerm = 0\<rparr>] = ReadConfirmed"
proof -
  let ?r = "demo_leader\<lparr>noopCommitted := True\<rparr>" and ?a = "Some \<lparr>aer_Term = 1, aer_Success = True, aer_ConflictIndex = 0, aer_ConflictTerm = 0\<rparr>"
  obtain rr where rr: "ReadIndex_start ?r = Inr rr" by (simp add: ReadIndex_start_def demo_leader_defs)
  have "Size (clusterConfig ?r) = 2" "currentTerm ?r = 1" by (simp_all add: demo_leader_defs)
  then show ?thesis using read_needs_majority [OF rr, of "[?a]"] rr by (simp add: read_confirms_def Majority_def)
qed

lemma demo_ready:
  "\<exists>r1 res r2 due. replicateTo_response False 0 [] ''b'' 1 (demo_append 1 ''a'' [demo_entry 1 1] 0)
       \<lparr>aer_Term = 1, aer_Success = True, aer_ConflictIndex = 0, aer_ConflictTerm = 0\<rparr> demo_leader = (r1, res) \<and>
     apply_one (\<lambda>_. None) False 0 [] unit_machine r1 = Some (r2, due) \<and> clusterConfig r1 = demo_peers \<and> clusterConfig r2 = demo_peers \<and>
     state r2 = Leader \<and> noopCommitted r2 \<and> fatalErr r2 = None \<and> currentTerm r2 = 1"
  by (simp add: demo_leader_defs replicateTo_response_def record_match_def demo_append_def demo_entry_def apply_one_def apply_rest_def
      apply_answer_def unit_machine_def entry_type_defs, blast)

theorem confirmed_read_is_current_witness:
  "\<exists>s m. (cluster_step demo_peers)\<^sup>*\<^sup>* demo_cluster s \<and> state (nodes s m) = Leader \<and> noopCommitted (nodes s m) \<and> m = ''a''"
proof -
  obtain s where s: "(cluster_step demo_peers)\<^sup>*\<^sup>* demo_cluster s" "nodes s ''a'' = demo_leader" "nodes s ''b'' = demo_voter" using demo_run by blast
  obtain r1 res r2 due where r1: "replicateTo_response False 0 [] ''b'' 1 (demo_append 1 ''a'' [demo_entry 1 1] 0)
       \<lparr>aer_Term = 1, aer_Success = True, aer_ConflictIndex = 0, aer_ConflictTerm = 0\<rparr> demo_leader = (r1, res)" "clusterConfig r1 = demo_peers"
    and r2: "apply_one (\<lambda>_. None) False 0 [] unit_machine r1 = Some (r2, due)" "clusterConfig r2 = demo_peers"
    and f: "state r2 = Leader" "noopCommitted r2" "fatalErr r2 = None" "currentTerm r2 = 1"
    using demo_ready by blast
  have m: "''a'' \<in> members demo_peers" by (simp add: members_def demo_peers_def)
  let ?s1 = "put_node ''a'' r1 s" and ?s2 = "put_node ''a'' r2 (put_node ''a'' r1 s)"
  have "quiet_step (nodes s ''a'') r1" using quiet_replicate [OF r1(1)] s(2) by simp
  then have "cluster_step demo_peers s ?s1" using m r1(2) by (intro cluster_step.quiet)
  moreover have "cluster_step demo_peers ?s1 ?s2" using m r2(2) quiet_apply [OF r2(1)] by (intro cluster_step.quiet) simp_all
  ultimately have run: "(cluster_step demo_peers)\<^sup>*\<^sup>* demo_cluster ?s2" using s(1) by (meson rtranclp.rtrancl_into_rtrancl)
  have n: "nodes ?s2 ''a'' = r2" "nodes ?s2 ''b'' = demo_voter" using s(3) by simp_all
  obtain rr where rr: "ReadIndex_start (nodes ?s2 ''a'') = Inr rr" "rr_term rr = 1" using f n by (simp add: ReadIndex_start_def)
  have q: "is_quorum demo_peers (insert ''a'' {''b''})" by (simp add: is_quorum_def members_def demo_peers_def Majority_def Size_def)
  have answer: "\<exists>r' resp err. processAppendEntries (\<lambda>_. []) None None False 0 [] (Some (heartbeat_request r2)) demo_voter = (r', resp, err) \<and> aer_Term resp = 1"
    using f(4) by (simp add: demo_eval heartbeat_request_def demo_voter_def handleRequestVote_eq demo_request_def leader_alive_def log_up_to_date_def LastTerm_def)
  have "''a'' = ''a''"
  proof (rule confirmed_read_is_current [OF demo_init run m rr(1) q])
    fix p
    assume p: "p \<in> {''b''}"
    obtain r' resp err where pa: "processAppendEntries (\<lambda>_. []) None None False 0 [] (Some (heartbeat_request r2)) demo_voter = (r', resp, err)" "aer_Term resp = 1"
      using answer by blast
    have "read_confirms (rr_term rr) (Some resp)" using pa(2) rr(2) by (simp add: read_confirms_def)
    moreover have "answers_with (heartbeat_request (nodes ?s2 ''a'')) (nodes ?s2 p) resp"
      using pa(1) p n unfolding answers_with_def by auto
    ultimately show "\<exists>sp resp. (cluster_step demo_peers)\<^sup>*\<^sup>* ?s2 sp \<and> answers_with (heartbeat_request (nodes ?s2 ''a'')) (nodes sp p) resp \<and>
         read_confirms (rr_term rr) (Some resp)"
      using rtranclp.rtrancl_refl by metis
  qed (use m n f rr in simp_all)
  then show ?thesis using run n f by (intro exI [of _ ?s2] exI [of _ "''a''"]) simp
qed

end
