(* ===== verification/LoopProps.thy ===== *)
theory LoopProps
  imports SnapshotProps ReplicationProps
begin

text \<open>
  The properties of the loops of a node: applying the committed entries, answering the callers
  of \<^verbatim>\<open>Propose\<close>, changing the membership, taking a snapshot and starting again from the files.
\<close>

section \<open>Applying the log\<close>

text \<open>What the state machine and the configuration go through when entries are applied in order.\<close>

fun run_log :: "(uint64 \<Rightarrow> 'sm StateMachine) \<Rightarrow> LogEntry list \<Rightarrow> 'sm \<Rightarrow> ('sm \<times> raft_error option list) option" where
  "run_log sms [] s = Some (s, [])"
| "run_log sms (e # es) s =
     (if Type e = EntryMembership then map_option (apsnd (Cons None)) (run_log sms es s)
      else case sm_Apply (sms (Index e)) e s of
             None \<Rightarrow> None
           | Some (s1, err) \<Rightarrow> map_option (apsnd (Cons err)) (run_log sms es s1))"

definition config_entry :: "(bytes \<Rightarrow> MembershipChange option) \<Rightarrow> LogEntry \<Rightarrow> peers \<Rightarrow> peers" where
  "config_entry ujson e c =
     (if Type e \<noteq> EntryMembership then c
      else case ujson (Command e) of
             None \<Rightarrow> c
           | Some ch \<Rightarrow> if mc_Type ch = AddServer then AddPeer (mc_NodeID ch) (mc_Address ch) c
                        else if mc_Type ch = RemoveServer then RemovePeer (mc_NodeID ch) c else c)"

definition unapplied :: "'sm RaftNode \<Rightarrow> LogEntry list" where
  "unapplied r = take (commitIndex r - lastApplied r) (drop (lastApplied r - baseIndex (rlog r)) (entries (rlog r)))"

text \<open>A node whose committed entries are all in its log.\<close>

definition may_apply :: "'sm RaftNode \<Rightarrow> bool" where
  "may_apply r \<longleftrightarrow> log_wf (rlog r) \<and> baseIndex (rlog r) \<le> lastApplied r \<and> commitIndex r \<le> LastIndex (rlog r)"

lemma GetEntry_nth:
  assumes "log_wf l" "baseIndex l < i" "i \<le> LastIndex l"
  shows "GetEntry i l = Inr (entries l ! (i - baseIndex l - 1))" "Index (entries l ! (i - baseIndex l - 1)) = i"
proof -
  have len: "i - baseIndex l - 1 < length (entries l)" using assms LastIndex_eq [OF assms(1)] by auto
  show i: "Index (entries l ! (i - baseIndex l - 1)) = i" using assms(1,2) len by (simp add: log_wf_def contiguous_def)
  show "GetEntry i l = Inr (entries l ! (i - baseIndex l - 1))" using GetEntry_eq [OF assms(1)] i len by simp
qed

lemma unapplied_step:
  assumes "may_apply r" "lastApplied r < commitIndex r"
  obtains e where "GetEntry (lastApplied r + 1) (rlog r) = Inr e" "Index e = lastApplied r + 1"
    "unapplied r = e # take (commitIndex r - (lastApplied r + 1)) (drop (lastApplied r + 1 - baseIndex (rlog r)) (entries (rlog r)))"
proof
  let ?l = "rlog r" and ?k = "lastApplied r - baseIndex (rlog r)"
  have l: "log_wf ?l" "baseIndex ?l < lastApplied r + 1" "lastApplied r + 1 \<le> LastIndex ?l" using assms by (auto simp: may_apply_def)
  show "GetEntry (lastApplied r + 1) ?l = Inr (entries ?l ! ?k)" "Index (entries ?l ! ?k) = lastApplied r + 1"
    using GetEntry_nth [OF l] by simp_all
  have "?k < length (entries ?l)" using l LastIndex_eq [OF l(1)] by auto
  then have d: "drop ?k (entries ?l) = entries ?l ! ?k # drop (Suc ?k) (entries ?l)" by (rule Cons_nth_drop_Suc [symmetric])
  have n: "commitIndex r - lastApplied r = Suc (commitIndex r - (lastApplied r + 1))" "lastApplied r + 1 - baseIndex ?l = Suc ?k"
    using assms(2) l(2) by auto
  show "unapplied r = entries ?l ! ?k # take (commitIndex r - (lastApplied r + 1)) (drop (lastApplied r + 1 - baseIndex ?l) (entries ?l))"
    unfolding unapplied_def d n by simp
qed

lemma apply_membership_frame:
  assumes "applyMembership ujson sf now order e r = (r1, err)" "Type e = EntryMembership"
  shows "rlog r1 = rlog r \<and> commitIndex r1 = commitIndex r \<and> stateMachine r1 = stateMachine r \<and> config r1 = config r \<and>
     clusterConfig r1 = config_entry ujson e (clusterConfig r)"
  using assms by (auto simp: applyMembership_def config_entry_def Let_def split: option.splits if_splits)

lemma apply_rest_frame:
  assumes "apply_rest ujson sf now order sm n e r = Some (r1, due)"
  shows "rlog r1 = rlog r \<and> commitIndex r1 = commitIndex r \<and> lastApplied r1 = n \<and> clusterConfig r1 = config_entry ujson e (clusterConfig r)"
proof -
  obtain r0 err where r0: "(if Type e = EntryMembership then Some (applyMembership ujson sf now order e r)
      else map_option (\<lambda>(s, e). (r\<lparr>stateMachine := s\<rparr>, e)) (sm_Apply sm e (stateMachine r))) = Some (r0, err)"
    using assms by (auto simp: apply_rest_def split: option.splits)
  have "rlog r0 = rlog r \<and> commitIndex r0 = commitIndex r \<and> clusterConfig r0 = config_entry ujson e (clusterConfig r)"
    using r0 apply_membership_frame [of ujson sf now order e r r0 err]
    by (auto simp: config_entry_def split: if_splits)
  then show ?thesis using assms unfolding apply_rest_def r0 by (auto simp: apply_answer_def Let_def split: option.splits if_splits)
qed

lemma apply_rest_machine:
  "map_option (stateMachine \<circ> fst) (apply_rest ujson sf now order sm n e r) =
     (if Type e = EntryMembership then Some (stateMachine r) else map_option fst (sm_Apply sm e (stateMachine r)))"
proof (cases "Type e = EntryMembership")
  case True
  obtain r0 err where r0: "applyMembership ujson sf now order e r = (r0, err)" by (cases "applyMembership ujson sf now order e r")
  show ?thesis using True r0 apply_membership_frame [OF r0 True] by (simp add: apply_rest_def apply_answer_def Let_def split: option.splits)
next
  case False
  then show ?thesis by (auto simp: apply_rest_def apply_answer_def Let_def split: option.splits)
qed

lemma apply_entries_run:
  assumes "may_apply r"
  shows "map_option stateMachine (apply_entries ujson sf now order sms r) = map_option fst (run_log sms (unapplied r) (stateMachine r)) \<and>
     (\<forall>r'. apply_entries ujson sf now order sms r = Some r' \<longrightarrow>
        rlog r' = rlog r \<and> commitIndex r' = commitIndex r \<and> lastApplied r' = max (lastApplied r) (commitIndex r) \<and>
        clusterConfig r' = fold (config_entry ujson) (unapplied r) (clusterConfig r))"
  using assms
proof (induction ujson sf now order sms r rule: apply_entries.induct)
  case (1 ujson sf now order sms r)
  show ?case
  proof (cases "commitIndex r \<le> lastApplied r")
    case True
    then show ?thesis by (subst (1 2) apply_entries.simps) (simp add: unapplied_def)
  next
    case False
    obtain e where e: "GetEntry (lastApplied r + 1) (rlog r) = Inr e" "Index e = lastApplied r + 1"
      "unapplied r = e # take (commitIndex r - (lastApplied r + 1)) (drop (lastApplied r + 1 - baseIndex (rlog r)) (entries (rlog r)))"
      using unapplied_step [OF 1(2)] False by auto
    let ?ap = "apply_rest ujson sf now order (sms (lastApplied r + 1)) (lastApplied r + 1) e r"
    have one: "apply_one ujson sf now order (sms (lastApplied r + 1)) r = ?ap" using e(1) by (simp add: apply_one_def)
    note m = apply_rest_machine [of ujson sf now order "sms (lastApplied r + 1)" "lastApplied r + 1" e r]
    show ?thesis
    proof (cases ?ap)
      case None
      then have "sm_Apply (sms (Index e)) e (stateMachine r) = None" "Type e \<noteq> EntryMembership" using m e(2) by (auto split: if_splits)
      then show ?thesis using None one False e(3) by (subst (1 2) apply_entries.simps) simp
    next
      case (Some p)
      obtain r1 due where p: "?ap = Some (r1, due)" using Some by (cases p) auto
      note f = apply_rest_frame [OF p]
      have u: "unapplied r = e # unapplied r1" using e(3) f by (simp add: unapplied_def)
      have "may_apply r1" using 1(2) f by (simp add: may_apply_def)
      note IH = 1(1) [OF False _ refl this, unfolded one, OF p]
      have ap: "apply_entries ujson sf now order sms r = apply_entries ujson sf now order sms r1"
        using one p False by (subst apply_entries.simps) simp
      have rl: "map_option fst (run_log sms (unapplied r) (stateMachine r)) = map_option fst (run_log sms (unapplied r1) (stateMachine r1))"
        using m p e(2) unfolding u by (auto split: if_splits option.splits simp: option.map_comp comp_def)
      show ?thesis using IH f False unfolding ap rl by (auto simp: u)
    qed
  qed
qed

text \<open>
  C16: committed entries are applied in the order of the log. One run of \<^verbatim>\<open>applyEntriesLoop\<close>
  returns exactly when the state machine does, and then the state is the one reached by the
  entries after \<^verbatim>\<open>lastApplied\<close> up to the commit index, each applied once and in order; the
  configuration has gone through the membership entries among them, and nothing is left to apply.
\<close>

theorem apply_in_order:
  assumes "may_apply r" "lastApplied r \<le> commitIndex r" "fatalErr r = None"
  shows "map_option stateMachine (applyEntriesLoop ujson sf now order sms r) = map_option fst (run_log sms (unapplied r) (stateMachine r)) \<and>
     (\<forall>r'. applyEntriesLoop ujson sf now order sms r = Some r' \<longrightarrow>
        rlog r' = rlog r \<and> lastApplied r' = commitIndex r \<and> commitIndex r' = commitIndex r \<and>
        clusterConfig r' = fold (config_entry ujson) (unapplied r) (clusterConfig r))"
proof -
  let ?r = "r\<lparr>commitCh := False\<rparr>"
  have "may_apply ?r" "unapplied ?r = unapplied r" using assms(1) by (simp_all add: may_apply_def unapplied_def)
  then show ?thesis using apply_entries_run [of ?r ujson sf now order sms] assms(2,3) by (simp add: applyEntriesLoop_def max_def)
qed

definition demo_log :: RaftLog where
  "demo_log = newRaftLog\<lparr>entries := [\<lparr>Index = 1, Term = 1, Type = EntryKV, Command = [7]\<rparr>, \<lparr>Index = 2, Term = 1, Type = EntryKV, Command = [8]\<rparr>]\<rparr>"

lemma demo_log_wf: "log_wf demo_log" "LastIndex demo_log = 2" "baseIndex demo_log = 0"
  by (simp_all add: demo_log_def log_wf_def newRaftLog_def contiguous_Cons LastIndex_def)

theorem apply_in_order_witness:
  "map_option stateMachine (applyEntriesLoop (\<lambda>_. None) False 0 [] (\<lambda>_. bytes_machine) (demo_receiver\<lparr>rlog := demo_log, commitIndex := 2\<rparr>)) = Some [7, 8]"
proof -
  let ?r = "demo_receiver\<lparr>rlog := demo_log, commitIndex := 2\<rparr>"
  have "may_apply ?r" "lastApplied ?r \<le> commitIndex ?r" "fatalErr ?r = None"
    by (simp_all add: may_apply_def demo_log_wf demo_receiver_def new_node_def)
  note a = apply_in_order [OF this, of "\<lambda>_. None" False 0 "[]" "\<lambda>_. bytes_machine"]
  have "map_option fst (run_log (\<lambda>_. bytes_machine) (unapplied ?r) (stateMachine ?r)) = Some [7, 8]"
    by (simp add: unapplied_def demo_log_def newRaftLog_def demo_receiver_def new_node_def bytes_machine_def EntryKV_def EntryMembership_def)
  then show ?thesis using a by simp
qed

section \<open>Answering the callers\<close>

text \<open>The answers the loop gives for entries and their results.\<close>

definition answers_for :: "(uint64 \<rightharpoonup> nat) \<Rightarrow> LogEntry list \<Rightarrow> raft_error option list \<Rightarrow> (nat \<times> raft_error option) list" where
  "answers_for w es errs = List.map_filter (\<lambda>(e, err). map_option (\<lambda>ch. (ch, err)) (w (Index e))) (zip es errs)"

lemma answers_for_Cons:
  "answers_for w (e # es) (err # errs) = (case w (Index e) of None \<Rightarrow> [] | Some ch \<Rightarrow> [(ch, err)]) @ answers_for w es errs"
  by (simp add: answers_for_def List.map_filter_simps split: option.splits)

lemma answers_for_cong: "(\<And>e. e \<in> set es \<Longrightarrow> w (Index e) = w' (Index e)) \<Longrightarrow> answers_for w es errs = answers_for w' es errs"
proof (induction es arbitrary: errs)
  case (Cons e es)
  then show ?case by (cases errs) (simp_all add: answers_for_def List.map_filter_simps split: option.splits)
qed (simp add: answers_for_def)

lemma unapplied_index:
  assumes "may_apply r" "e \<in> set (unapplied r)"
  shows "lastApplied r < Index e \<and> Index e \<le> commitIndex r"
proof -
  let ?l = "rlog r" and ?k = "lastApplied r - baseIndex (rlog r)"
  obtain j where j: "j < length (unapplied r)" "e = unapplied r ! j" using assms(2) by (auto simp: in_set_conv_nth)
  have "e = entries ?l ! (?k + j)" "?k + j < length (entries ?l)" "j < commitIndex r - lastApplied r" using j by (auto simp: unapplied_def)
  then show ?thesis using assms(1) by (auto simp: may_apply_def log_wf_def contiguous_def)
qed

lemma apply_entries_answers:
  assumes "may_apply r" "\<forall>e \<in> set (unapplied r). Type e \<noteq> EntryMembership" "run_log sms (unapplied r) (stateMachine r) = Some (s', errs)"
  shows "\<exists>r'. apply_entries ujson sf now order sms r = Some r' \<and> stateMachine r' = s' \<and>
     notified r' = notified r @ answers_for (waiters r) (unapplied r) errs \<and>
     waiters r' = (\<lambda>i. if lastApplied r < i \<and> i \<le> commitIndex r then None else waiters r i)"
  using assms
proof (induction ujson sf now order sms r arbitrary: errs rule: apply_entries.induct)
  case (1 ujson sf now order sms r)
  show ?case
  proof (cases "commitIndex r \<le> lastApplied r")
    case True
    then show ?thesis using 1(4) by (subst apply_entries.simps) (auto simp: unapplied_def answers_for_def List.map_filter_simps fun_eq_iff)
  next
    case False
    obtain e where e: "GetEntry (lastApplied r + 1) (rlog r) = Inr e" "Index e = lastApplied r + 1"
      "unapplied r = e # take (commitIndex r - (lastApplied r + 1)) (drop (lastApplied r + 1 - baseIndex (rlog r)) (entries (rlog r)))"
      using unapplied_step [OF 1(2)] False by auto
    let ?ap = "apply_rest ujson sf now order (sms (lastApplied r + 1)) (lastApplied r + 1) e r"
    have one: "apply_one ujson sf now order (sms (lastApplied r + 1)) r = ?ap" using e(1) by (simp add: apply_one_def)
    have t: "Type e \<noteq> EntryMembership" using 1(3) e(3) by simp
    obtain s1 err errs' where s1: "sm_Apply (sms (lastApplied r + 1)) e (stateMachine r) = Some (s1, err)"
      using 1(4) t e(2,3) by (auto split: option.splits)
    obtain r1 due where p: "?ap = Some (r1, due)" "stateMachine r1 = s1"
      "notified r1 = notified r @ (case waiters r (Index e) of None \<Rightarrow> [] | Some ch \<Rightarrow> [(ch, err)])" "waiters r1 = (waiters r)(Index e := None)"
      using s1 t by (auto simp: apply_rest_def apply_answer_def Let_def fun_upd_idem split: option.splits)
    note f = apply_rest_frame [OF p(1)]
    have u: "unapplied r = e # unapplied r1" using e(3) f by (simp add: unapplied_def)
    obtain errs' where errs': "run_log sms (unapplied r1) s1 = Some (s', errs')" "errs = err # errs'"
      using 1(4) t s1 e(2) unfolding u by auto
    have m: "may_apply r1" using 1(2) f by (simp add: may_apply_def)
    have nm: "\<forall>e \<in> set (unapplied r1). Type e \<noteq> EntryMembership" using 1(3) u by simp
    note IH = 1(1) [OF False _ refl m nm, unfolded one, OF p(1), unfolded p(2), OF errs'(1)]
    have ap: "apply_entries ujson sf now order sms r = apply_entries ujson sf now order sms r1"
      using one p(1) False by (subst apply_entries.simps) simp
    have "Index x \<noteq> Index e" if "x \<in> set (unapplied r1)" for x using unapplied_index [OF m that] f e(2) by auto
    then have aw: "answers_for (waiters r1) (unapplied r1) errs' = answers_for (waiters r) (unapplied r1) errs'"
      by (intro answers_for_cong) (simp add: p(4))
    obtain r' where r': "apply_entries ujson sf now order sms r1 = Some r'" "stateMachine r' = s'"
      "notified r' = notified r1 @ answers_for (waiters r1) (unapplied r1) errs'"
      "waiters r' = (\<lambda>i. if lastApplied r1 < i \<and> i \<le> commitIndex r1 then None else waiters r1 i)"
      using IH by blast
    have "waiters r' = (\<lambda>i. if lastApplied r < i \<and> i \<le> commitIndex r then None else waiters r i)"
      using f e(2) False unfolding r'(4) p(4) by (auto simp: fun_eq_iff)
    then show ?thesis using r'(1,2,3) p(3) unfolding ap u errs'(2) answers_for_Cons aw by simp
  qed
qed

lemma advance_frame: "\<exists>c b. advanceCommitIndex r = r\<lparr>commitIndex := c, commitCh := b\<rparr>"
  using commit_scan_frame [of r "LastIndex (rlog r)"]
  by (auto simp: advanceCommitIndex_def intro!: exI [of _ "commitIndex r"] exI [of _ "commitCh r"])

lemma length_flush_entries [simp]: "length (flush_entries batch r) = length batch"
  by (simp add: flush_entries_def)

lemma flush_entries_nth:
  assumes "i < length batch" "LastIndex (rlog r) + length batch < 2 ^ 64"
  shows "flush_entries batch r ! i =
     \<lparr>Index = LastIndex (rlog r) + 1 + i, Term = currentTerm r, Type = EntryKV, Command = fst (batch ! i)\<rparr>"
proof -
  have "u64 (LastIndex (rlog r) + (i + 1)) = LastIndex (rlog r) + 1 + i" using assms by simp
  moreover have "enumerate 0 batch ! i = (i, batch ! i)" using assms(1) by (simp add: nth_enumerate_eq)
  ultimately show ?thesis using assms(1) by (simp add: flush_entries_def split_beta)
qed

lemma flush_entries_contiguous:
  "LastIndex (rlog r) + length batch < 2 ^ 64 \<Longrightarrow> contiguous (LastIndex (rlog r)) (flush_entries batch r)"
  by (simp add: contiguous_def flush_entries_nth)

text \<open>Registering the waiters of a batch.\<close>

lemma registered:
  assumes "i < length batch" "length es = length batch" "distinct (map Index es)"
  shows "(w ++ map_of (rev (map2 (\<lambda>e (_, ch). (Index e, ch)) es batch))) (Index (es ! i)) = Some (snd (batch ! i))"
proof -
  let ?ps = "map2 (\<lambda>e (_, ch). (Index e, ch)) es batch"
  have f: "map fst ?ps = map Index es" using assms(2) by (auto intro!: nth_equalityI simp: split_beta)
  have "?ps ! i = (Index (es ! i), snd (batch ! i))" using assms(1,2) by (simp add: split_beta)
  then have m: "(Index (es ! i), snd (batch ! i)) \<in> set (rev ?ps)" using assms(1,2) nth_mem [of i ?ps] by simp
  have "distinct (map fst (rev ?ps))" using assms(3) f by (simp add: rev_map [symmetric])
  then have "map_of (rev ?ps) (Index (es ! i)) = Some (snd (batch ! i))" using m by (rule map_of_is_SomeI)
  then show ?thesis by (simp add: map_add_find_right)
qed

text \<open>A batch that is written.\<close>

lemma flush_ok:
  assumes "state r = Leader" "batch \<noteq> []" "Append marshal fault (flush_entries batch r) (rlog r) = (l, None)"
  shows "\<exists>w n. flush marshal fault batch r = advanceCommitIndex (r\<lparr>rlog := l, waiters := w, nextIndex := n\<rparr>) \<and>
     w = waiters r ++ map_of (rev (map2 (\<lambda>e (_, ch). (Index e, ch)) (flush_entries batch r) batch))"
  using assms by (auto simp: flush_def flush_finish_def Let_def)

text \<open>
  No request of a batch is forgotten or mixed up. \<^verbatim>\<open>flush\<close> on a leader either answers every
  request with the same error and leaves the log as it was, or appends one entry of the current
  term per request, in the order of the requests, and has the caller of each waiting at the
  index of the entry that carries its command.
\<close>

lemma flush_registers:
  assumes "state r = Leader" "batch \<noteq> []" "log_wf (rlog r)" "LastIndex (rlog r) + length batch < 2 ^ 64"
  shows "let r' = flush marshal fault batch r; n = LastIndex (rlog r) in
     (\<exists>e. notified r' = notified r @ map (\<lambda>(_, ch). (ch, Some e)) batch \<and> waiters r' = waiters r \<and> entries (rlog r') = entries (rlog r)) \<or>
     (notified r' = notified r \<and> LastIndex (rlog r') = n + length batch \<and> log_wf (rlog r') \<and>
      (\<forall>i < length batch. waiters r' (n + 1 + i) = Some (snd (batch ! i)) \<and>
         GetEntry (n + 1 + i) (rlog r') = Inr \<lparr>Index = n + 1 + i, Term = currentTerm r, Type = EntryKV, Command = fst (batch ! i)\<rparr>) \<and>
      (\<forall>i \<le> n. waiters r' i = waiters r i \<and> GetEntry i (rlog r') = GetEntry i (rlog r)))"
proof -
  let ?es = "flush_entries batch r" and ?n = "LastIndex (rlog r)"
  obtain l err where ap: "Append marshal fault ?es (rlog r) = (l, err)" by (cases "Append marshal fault ?es (rlog r)")
  show ?thesis
  proof (cases err)
    case (Some e)
    have "flush marshal fault batch r = answer_all (Some e) batch (markStorageFailureLocked e (r\<lparr>rlog := l\<rparr>))"
      using assms(1,2) ap Some by (simp add: flush_def flush_finish_def)
    then show ?thesis using Append_error [of marshal fault ?es "rlog r" l e] ap Some
      by (auto simp: Let_def answer_all_def markStorageFailureLocked_def markFatalLocked_def)
  next
    case None
    note ok = ap [unfolded None]
    obtain w nx c b where r': "flush marshal fault batch r = r\<lparr>rlog := l, waiters := w, nextIndex := nx, commitIndex := c, commitCh := b\<rparr>"
      and w: "w = waiters r ++ map_of (rev (map2 (\<lambda>e (_, ch). (Index e, ch)) ?es batch))"
      using flush_ok [OF assms(1,2) ok] advance_frame by fastforce
    have ix: "Index (?es ! i) = ?n + 1 + i" if "i < length batch" for i using flush_entries_nth [OF that assms(4)] by simp
    have d: "distinct (map Index ?es)" by (auto simp: distinct_conv_nth ix)
    have old: "w i = waiters r i" if "i \<le> ?n" for i
    proof -
      have "fst p \<noteq> i" if "p \<in> set (map2 (\<lambda>e (_, ch). (Index e, ch)) ?es batch)" for p
        using that \<open>i \<le> ?n\<close> by (auto simp: set_zip split_beta ix)
      then have "map_of (rev (map2 (\<lambda>e (_, ch). (Index e, ch)) ?es batch)) i = None" by (force simp: map_of_eq_None_iff)
      then show ?thesis by (simp add: w map_add_def)
    qed
    have wf: "log_wf l" using Append_contiguous [OF assms(3) ok] LastIndex_eq [OF assms(3)] assms(4) by simp
    have es: "entries l = entries (rlog r) @ ?es" "baseIndex l = baseIndex (rlog r)" using Append_ok [OF ok] by simp_all
    have new: "GetEntry (?n + 1 + i) l = Inr (?es ! i)" if "i < length batch" for i
      using that GetEntry_eq [OF wf] es(1) ix [OF that] by simp
    have keep: "GetEntry i l = GetEntry i (rlog r)" if "i \<le> ?n" for i
      using that assms(3) wf es LastIndex_eq [OF assms(3)] by (auto simp: GetEntry_def nth_append Let_def)
    show ?thesis
      using registered [OF _ length_flush_entries d, of _ "waiters r"] new old keep wf es LastIndex_eq [OF wf] LastIndex_eq [OF assms(3)]
      unfolding r' w [symmetric] by (auto simp: Let_def ix flush_entries_nth [OF _ assms(4)])
  qed
qed

text \<open>A leader alone in its cluster that has applied its whole log and can write to it.\<close>

definition lone_leader :: "'sm RaftNode \<Rightarrow> bool" where
  "lone_leader r \<longleftrightarrow> state r = Leader \<and> log_wf (rlog r) \<and> storageErr (rlog r) = None \<and> (dataDir (rlog r) = [] \<or> walFile (rlog r)) \<and>
     map fst (clusterConfig r) = [NodeID (config r)] \<and> commitIndex r = LastIndex (rlog r) \<and> lastApplied r = LastIndex (rlog r)"

lemma Append_healthy:
  assumes "storageErr l = None" "dataDir l = [] \<or> walFile l" "log_wf l" "contiguous (LastIndex l) es" "LastIndex l + length es < 2 ^ 64"
  shows "\<exists>l'. Append marshal None es l = (l', None)"
proof -
  have "validateEntrySequence es (u64 (baseIndex l + length (entries l) + 1)) = None"
    using validate_contiguous [of "LastIndex l" es] assms(4,5) LastIndex_eq [OF assms(3)] by simp
  then show ?thesis using assms(1,2) by (elim disjE) (simp_all add: Append_def appendWALToDiskLocked_def)
qed

lemma Append_storage:
  assumes "Append marshal None es l = (l', None)" "storageErr l = None" "dataDir l = [] \<or> walFile l"
  shows "storageErr l' = None \<and> (dataDir l' = [] \<or> walFile l')"
  using assms by (auto simp: Append_def appendWALToDiskLocked_def split: if_splits option.splits)

lemma lone_flush:
  assumes "lone_leader r" "batch \<noteq> []" "LastIndex (rlog r) + length batch < 2 ^ 64"
  shows "\<exists>l w. flush marshal None batch r = r\<lparr>rlog := l, waiters := w, nextIndex := nextIndex (flush marshal None batch r),
       commitIndex := LastIndex (rlog r) + length batch, commitCh := True\<rparr> \<and>
     log_wf l \<and> entries l = entries (rlog r) @ flush_entries batch r \<and> baseIndex l = baseIndex (rlog r) \<and>
     storageErr l = None \<and> (dataDir l = [] \<or> walFile l) \<and> (\<forall>i < length batch. w (Index (flush_entries batch r ! i)) = Some (snd (batch ! i)))"
proof -
  let ?es = "flush_entries batch r" and ?n = "LastIndex (rlog r)"
  have wf: "log_wf (rlog r)" and s: "state r = Leader" using assms(1) by (simp_all add: lone_leader_def)
  obtain l where ok: "Append marshal None ?es (rlog r) = (l, None)"
    using Append_healthy [of "rlog r" ?es marshal] assms(1,3) flush_entries_contiguous [OF assms(3)] by (auto simp: lone_leader_def)
  obtain w nx where f: "flush marshal None batch r = advanceCommitIndex (r\<lparr>rlog := l, waiters := w, nextIndex := nx\<rparr>)"
    and w: "w = waiters r ++ map_of (rev (map2 (\<lambda>e (_, ch). (Index e, ch)) ?es batch))"
    using flush_ok [OF s assms(2) ok] by blast
  let ?r1 = "r\<lparr>rlog := l, waiters := w, nextIndex := nx\<rparr>"
  have wl: "log_wf l" using Append_contiguous [OF wf ok] LastIndex_eq [OF wf] assms(3) by simp
  have es: "entries l = entries (rlog r) @ ?es" "baseIndex l = baseIndex (rlog r)" using Append_ok [OF ok] by simp_all
  have last: "LastIndex l = ?n + length batch" using LastIndex_eq [OF wl] LastIndex_eq [OF wf] es by simp
  obtain j where j: "length batch = Suc j" using assms(2) by (cases batch) auto
  have ix: "Index (?es ! j) = ?n + length batch" using flush_entries_nth [of j batch r] assms(3) j by simp
  have ge: "GetEntry (?n + length batch) l = Inr (?es ! j)" using GetEntry_eq [OF wl] es(1) ix j by simp
  have c: "map fst (clusterConfig r) = [NodeID (config r)]" using assms(1) by (simp add: lone_leader_def)
  have "length (map fst (clusterConfig r)) = length [NodeID (config r)]" by (rule arg_cong [OF c])
  then have "length (clusterConfig r) = 1" by simp
  moreover have "other_peers (NodeID (config r)) (clusterConfig r) = []" by (simp add: other_peers_def c)
  ultimately have q: "Majority (clusterConfig r) \<le> replica_count (?n + length batch) ?r1"
    by (simp add: Majority_def Size_def replica_count_def)
  have "commit_scan ?r1 (?n + length batch) = ?r1\<lparr>commitIndex := ?n + length batch, commitCh := True\<rparr>"
    using assms(1) ge q flush_entries_nth [of j batch r] assms(3) j
    by (subst commit_scan.simps) (simp add: lone_leader_def)
  then have fl: "flush marshal None batch r = ?r1\<lparr>commitIndex := ?n + length batch, commitCh := True\<rparr>"
    using s by (simp add: f advanceCommitIndex_def last)
  have d: "distinct (map Index ?es)" using flush_entries_nth [of _ batch r] assms(3) by (auto simp: distinct_conv_nth)
  have "storageErr l = None \<and> (dataDir l = [] \<or> walFile l)" using Append_storage [OF ok] assms(1) by (simp add: lone_leader_def)
  then show ?thesis
    using registered [OF _ length_flush_entries d, of _ "waiters r"] wl es fl by (intro exI [of _ l] exI [of _ w]) (simp add: w)
qed

lemma run_log_length: "run_log sms es s = Some (s', errs) \<Longrightarrow> length errs = length es"
  by (induction es arbitrary: s errs) (auto split: if_splits option.splits)

lemma answers_all:
  assumes "length es = length batch" "length errs = length batch" "\<forall>i < length batch. w (Index (es ! i)) = Some (snd (batch ! i))"
  shows "answers_for w es errs = zip (map snd batch) errs"
  using assms
proof (induction es arbitrary: batch errs)
  case (Cons e es)
  obtain b bs er ers where c: "batch = b # bs" "errs = er # ers" using Cons.prems by (metis length_Suc_conv)
  have "w (Index e) = Some (snd b)" "\<forall>i < length bs. w (Index (es ! i)) = Some (snd (bs ! i))"
    using Cons.prems(3) unfolding c by force+
  then show ?case using Cons.IH [of bs ers] Cons.prems(1,2) by (simp add: c answers_for_Cons)
qed (simp add: answers_for_def List.map_filter_simps)

lemma lone_batch:
  assumes "lone_leader r" "batch \<noteq> []" "LastIndex (rlog r) + length batch < 2 ^ 64"
    and "run_log sms (flush_entries batch r) (stateMachine r) = Some (s', errs)"
  shows "\<exists>r1 r'. flush marshal None batch r = r1 \<and> apply_entries ujson sf now order sms r1 = Some r' \<and> stateMachine r' = s' \<and>
     notified r' = notified r @ zip (map snd batch) errs \<and> length errs = length batch \<and> lastApplied r' = LastIndex (rlog r) + length batch \<and>
     may_apply r1 \<and> unapplied r1 = flush_entries batch r \<and> rlog r' = rlog r1 \<and> commitIndex r' = commitIndex r1 \<and>
     commitIndex r1 = LastIndex (rlog r1) \<and> LastIndex (rlog r1) = LastIndex (rlog r) + length batch \<and> log_wf (rlog r1) \<and>
     storageErr (rlog r1) = None \<and> (dataDir (rlog r1) = [] \<or> walFile (rlog r1)) \<and>
     state r1 = state r \<and> config r1 = config r \<and> fatalErr r1 = fatalErr r \<and> clusterConfig r1 = clusterConfig r \<and> noopCommitted r1 = noopCommitted r"
proof -
  let ?es = "flush_entries batch r" and ?f = "flush marshal None batch r"
  obtain l w where f: "?f = r\<lparr>rlog := l, waiters := w, nextIndex := nextIndex ?f, commitIndex := LastIndex (rlog r) + length batch, commitCh := True\<rparr>"
    and l: "log_wf l" "entries l = entries (rlog r) @ ?es" "baseIndex l = baseIndex (rlog r)" "storageErr l = None" "dataDir l = [] \<or> walFile l"
    and w: "\<forall>i < length batch. w (Index (?es ! i)) = Some (snd (batch ! i))"
    using lone_flush [OF assms(1-3), of marshal] by blast
  obtain r1 where r1: "?f = r1" "rlog r1 = l" "waiters r1 = w" "lastApplied r1 = LastIndex (rlog r)" "stateMachine r1 = stateMachine r" "notified r1 = notified r"
    "commitIndex r1 = LastIndex (rlog r) + length batch" "state r1 = state r" "config r1 = config r" "fatalErr r1 = fatalErr r"
    "clusterConfig r1 = clusterConfig r" "noopCommitted r1 = noopCommitted r"
    using assms(1) by (subst (asm) f) (simp add: lone_leader_def)
  note le = LastIndex_eq [of "rlog r"] LastIndex_eq [OF l(1)]
  have wf: "log_wf (rlog r)" using assms(1) by (simp add: lone_leader_def)
  have last: "LastIndex l = LastIndex (rlog r) + length batch" using le wf l by simp
  have m: "may_apply r1" using r1 l le wf by (simp add: may_apply_def)
  have u: "unapplied r1 = ?es" using r1 l le wf by (simp add: unapplied_def)
  have t: "\<forall>e \<in> set ?es. Type e \<noteq> EntryMembership"
    using flush_entries_nth [of _ batch r] assms(3) by (auto simp: in_set_conv_nth EntryKV_def EntryMembership_def)
  have n: "length errs = length batch" using run_log_length [OF assms(4)] by simp
  obtain r' where r': "apply_entries ujson sf now order sms r1 = Some r'" "stateMachine r' = s'" "notified r' = notified r1 @ answers_for (waiters r1) (unapplied r1) errs"
    using apply_entries_answers [OF m, of sms s' errs] u t assms(4) r1(5) by force
  have "rlog r' = rlog r1" "commitIndex r' = commitIndex r1" "lastApplied r' = LastIndex (rlog r) + length batch"
    using apply_entries_run [OF m, of ujson sf now order sms] r'(1) r1(4,7) by simp_all
  moreover have "notified r' = notified r @ zip (map snd batch) errs" using r'(3) r1(3,6) u answers_all [OF length_flush_entries n w] by simp
  ultimately show ?thesis
    using r' r1 l m u n last by (intro exI [of _ r1] exI [of _ r']) simp
qed

text \<open>
  Proposals to a single node are committed and answered. When such a leader writes a batch,
  the entries are committed at once, and the apply loop that follows runs exactly the commands
  of the batch and sends to each caller the result of its own command, in order.
\<close>

theorem lone_leader_answers:
  assumes "lone_leader r" "batch \<noteq> []" "LastIndex (rlog r) + length batch < 2 ^ 64"
    and "run_log sms (flush_entries batch r) (stateMachine r) = Some (s', errs)"
  shows "\<exists>r'. apply_entries ujson sf now order sms (flush marshal None batch r) = Some r' \<and> stateMachine r' = s' \<and>
     notified r' = notified r @ zip (map snd batch) errs \<and> length errs = length batch \<and> lastApplied r' = LastIndex (rlog r) + length batch"
  using lone_batch [OF assms, of marshal ujson sf now order] by blast

text \<open>A new node made the leader of a cluster of its own.\<close>

definition demo_lone :: "bytes RaftNode" where
  "demo_lone = demo_receiver\<lparr>state := Leader, currentTerm := 1, clusterConfig := [(''b'', [])]\<rparr>"

lemma demo_lone_ok: "lone_leader demo_lone" "LastIndex (rlog demo_lone) = 0"
  by (simp_all add: lone_leader_def demo_lone_def demo_receiver_def new_node_def demo_cfg_def DefaultConfig_def newRaftLog_def LastIndex_def log_wf_def)

theorem lone_leader_answers_witness:
  "\<exists>r'. apply_entries (\<lambda>_. None) False 0 [] (\<lambda>_. bytes_machine) (flush (\<lambda>_. []) None [([7], 1), ([8], 2)] demo_lone) = Some r' \<and>
     stateMachine r' = [7, 8] \<and> notified r' = [(1, None), (2, None)]"
proof -
  have r: "run_log (\<lambda>_. bytes_machine) (flush_entries [([7], 1), ([8], 2)] demo_lone) (stateMachine demo_lone) = Some ([7, 8], [None, None])"
    by (simp add: flush_entries_def bytes_machine_def demo_lone_def demo_receiver_def new_node_def EntryKV_def EntryMembership_def)
  have n: "notified demo_lone = []" by (simp add: demo_lone_def demo_receiver_def new_node_def)
  show ?thesis
    using lone_leader_answers [OF demo_lone_ok(1) _ _ r, of "\<lambda>_. None" False 0 "[]" "\<lambda>_. []"] demo_lone_ok(2) n by auto
qed

end
