(* ===== verification/LogMatching.thy ===== *)
theory LogMatching
  imports LoopProps ReplicationProps
begin

text \<open>
  The logs of a cluster. The steps are those of \<open>Cluster\<close> with the messages of log replication
  made explicit: a follower receives what some leader sent, on a network that may lose, repeat,
  delay and reorder. A flush releases its node's lock while it writes, and the handler of a message
  while it steps down; both are steps as a whole and in pieces. Logs start at index 1 and are not
  compacted, indices do not wrap, and a node that restarts finds its log again. A batch is written
  only while its node still leads the term of the batch, and an interrupted handler goes on only in
  the term of its message: the code looks at neither again.
\<close>

section \<open>States and steps\<close>

text \<open>
  \<open>batches\<close> are the entries that flushes have computed, with the node and its term, and \<open>handling\<close> the
  messages whose handlers wait for the lock. \<open>hist t\<close> is the log of the leader of term \<open>t\<close> as of its
  last append and \<open>lead t\<close> that leader; no step reads them.
\<close>

record 'sm repl_cluster =
  cl :: "'sm cluster"
  msgs :: "AppendEntriesRequest set"
  batches :: "(string \<times> uint64 \<times> LogEntry list) set"
  handling :: "(string \<times> AppendEntriesRequest) set"
  hist :: "uint64 \<Rightarrow> LogEntry list"
  lead :: "uint64 \<Rightarrow> string"

abbreviation node_log :: "'sm repl_cluster \<Rightarrow> string \<Rightarrow> LogEntry list" where
  "node_log s n \<equiv> entries (rlog (nodes (cl s) n))"

definition same_log :: "'sm RaftNode \<Rightarrow> 'sm RaftNode \<Rightarrow> bool" where
  "same_log r r' \<longleftrightarrow>
     entries (rlog r') = entries (rlog r) \<and> baseIndex (rlog r') = baseIndex (rlog r) \<and> baseTerm (rlog r') = baseTerm (rlog r) \<and>
     boundaryKnown (rlog r') = boundaryKnown (rlog r)"

inductive repl_step :: "peers \<Rightarrow> 'sm repl_cluster \<Rightarrow> 'sm repl_cluster \<Rightarrow> bool" for c :: peers where
  internal: "cluster_step c (cl s) k \<Longrightarrow> \<forall>n. same_log (nodes (cl s) n) (nodes k n) \<Longrightarrow>
     \<forall>n \<in> members c. state (nodes k n) = Leader \<longrightarrow> state (nodes (cl s) n) = Leader \<Longrightarrow> repl_step c s (s\<lparr>cl := k\<rparr>)"
| lead: "cluster_step c (cl s) k \<Longrightarrow> n \<in> members c \<Longrightarrow> state (nodes (cl s) n) \<noteq> Leader \<Longrightarrow> state (nodes k n) = Leader \<Longrightarrow>
     LastIndex (rlog (nodes (cl s) n)) + 1 < 2 ^ 64 \<Longrightarrow>
     repl_step c s (s\<lparr>cl := k, hist := (hist s)(currentTerm (nodes k n) := entries (rlog (nodes k n))),
       lead := (lead s)(currentTerm (nodes k n) := n)\<rparr>)"
| flushes: "n \<in> members c \<Longrightarrow> state (nodes (cl s) n) = Leader \<Longrightarrow> flush marshal af batch (nodes (cl s) n) = r' \<Longrightarrow>
     LastIndex (rlog (nodes (cl s) n)) + length batch < 2 ^ 64 \<Longrightarrow>
     repl_step c s (s\<lparr>cl := put_node n r' (cl s), hist := (hist s)(currentTerm (nodes (cl s) n) := entries (rlog r'))\<rparr>)"
| proposes: "n \<in> members c \<Longrightarrow> state (nodes (cl s) n) = Leader \<Longrightarrow>
     ProposeMembershipChange marshal mjson af change (nodes (cl s) n) = (r', err) \<Longrightarrow> LastIndex (rlog (nodes (cl s) n)) + 1 < 2 ^ 64 \<Longrightarrow>
     repl_step c s (s\<lparr>cl := put_node n r' (cl s), hist := (hist s)(currentTerm (nodes (cl s) n) := entries (rlog r'))\<rparr>)"
| sends: "n \<in> members c \<Longrightarrow> replicateTo_request ni (nodes (cl s) n) = ReplSend nx req \<Longrightarrow> repl_step c s (s\<lparr>msgs := insert req (msgs s)\<rparr>)"
| beats: "n \<in> members c \<Longrightarrow> state (nodes (cl s) n) = Leader \<Longrightarrow> repl_step c s (s\<lparr>msgs := insert (heartbeat_request (nodes (cl s) n)) (msgs s)\<rparr>)"
| receives: "p \<in> members c \<Longrightarrow> req \<in> msgs s \<Longrightarrow>
     processAppendEntries marshal pf af sf now order (Some req) (nodes (cl s) p) = (r', resp, err') \<Longrightarrow>
     repl_step c s (s\<lparr>cl := put_node p r' (cl s)\<rparr>)"
| flush_begins: "n \<in> members c \<Longrightarrow> state (nodes (cl s) n) = Leader \<Longrightarrow>
     repl_step c s (s\<lparr>batches := insert (n, currentTerm (nodes (cl s) n), flush_entries batch (nodes (cl s) n)) (batches s)\<rparr>)"
| flush_writes: "(n, t, es) \<in> batches s \<Longrightarrow> n \<in> members c \<Longrightarrow> state (nodes (cl s) n) = Leader \<Longrightarrow> currentTerm (nodes (cl s) n) = t \<Longrightarrow>
     Append marshal af es (rlog (nodes (cl s) n)) = (l, err) \<Longrightarrow> LastIndex (rlog (nodes (cl s) n)) + length es < 2 ^ 64 \<Longrightarrow>
     repl_step c s (s\<lparr>cl := put_node n ((nodes (cl s) n)\<lparr>rlog := l\<rparr>) (cl s), hist := (hist s)(t := entries l)\<rparr>)"
| receive_begins: "p \<in> members c \<Longrightarrow> req \<in> msgs s \<Longrightarrow> ae_checks (Some req) (nodes (cl s) p) = Inr req' \<Longrightarrow>
     currentTerm (nodes (cl s) p) < ae_Term req \<or> state (nodes (cl s) p) \<noteq> Follower \<Longrightarrow> stepDown_begin now (ae_Term req) (nodes (cl s) p) = r' \<Longrightarrow>
     repl_step c s (s\<lparr>cl := (put_node p r' (cl s))\<lparr>saves := insert (p, currentTerm r', votedFor r') (saves (cl s))\<rparr>, handling := insert (p, req) (handling s)\<rparr>)"
| receive_resumes: "(p, req) \<in> handling s \<Longrightarrow> currentTerm (nodes (cl s) p) = ae_Term req \<Longrightarrow>
     ae_resume marshal pf af now req (nodes (cl s) p) = (r', resp, err') \<Longrightarrow> repl_step c s (s\<lparr>cl := put_node p r' (cl s)\<rparr>)"

definition repl_init :: "peers \<Rightarrow> 'sm repl_cluster \<Rightarrow> bool" where
  "repl_init c s \<longleftrightarrow>
     cluster_init c (cl s) \<and> (\<forall>n \<in> members c. log_wf (rlog (nodes (cl s) n)) \<and> baseIndex (rlog (nodes (cl s) n)) = 0 \<and> node_log s n = []) \<and>
     msgs s = {} \<and> batches s = {} \<and> handling s = {} \<and> hist s = (\<lambda>_. [])"

section \<open>Logs that follow the histories of terms\<close>

text \<open>Every entry of a list stands in the history of its term, with the same entries before it.\<close>

definition follows :: "(uint64 \<Rightarrow> LogEntry list) \<Rightarrow> LogEntry list \<Rightarrow> bool" where
  "follows H L \<longleftrightarrow> (\<forall>i < length L. i < length (H (Term (L ! i))) \<and> take (Suc i) L = take (Suc i) (H (Term (L ! i))))"

lemma follows_Nil [simp]: "follows H []"
  by (simp add: follows_def)

lemma follows_take: "follows H L \<Longrightarrow> follows H (take j L)"
  by (simp add: follows_def min_def)

lemma follows_match:
  "follows H A \<Longrightarrow> follows H B \<Longrightarrow> i < length A \<Longrightarrow> i < length B \<Longrightarrow> Term (A ! i) = Term (B ! i) \<Longrightarrow> take (Suc i) A = take (Suc i) B"
  by (simp add: follows_def)

text \<open>A leader appends: old lists still follow, and so does the new log.\<close>

lemma follows_grow: "follows H L \<Longrightarrow> follows (H(t := H t @ es)) L"
  by (auto simp: follows_def Let_def)

lemma follows_appended:
  assumes "follows H (H t)" "\<forall>e \<in> set es. Term e = t"
  shows "follows (H(t := H t @ es)) (H t @ es)"
  unfolding follows_def
proof (intro allI impI)
  fix i
  assume i: "i < length (H t @ es)"
  show "i < length ((H(t := H t @ es)) (Term ((H t @ es) ! i))) \<and>
      take (Suc i) (H t @ es) = take (Suc i) ((H(t := H t @ es)) (Term ((H t @ es) ! i)))"
  proof (cases "i < length (H t)")
    case True
    then show ?thesis using follows_grow [OF assms(1), of t es] by (auto simp: follows_def nth_append)
  next
    case False
    then have "(H t @ es) ! i \<in> set es" using i by (simp add: nth_append)
    then show ?thesis using assms(2) i by simp
  qed
qed

text \<open>A leader starts: nothing of its term existed before.\<close>

lemma follows_fresh: "follows H L \<Longrightarrow> H t = [] \<Longrightarrow> follows (H(t := X)) L"
  by (auto simp: follows_def)

lemma follows_started:
  assumes "follows H L" "H t = []" "Term e = t"
  shows "follows (H(t := L @ [e])) (L @ [e])"
  unfolding follows_def
proof (intro allI impI)
  fix i
  assume i: "i < length (L @ [e])"
  show "i < length ((H(t := L @ [e])) (Term ((L @ [e]) ! i))) \<and> take (Suc i) (L @ [e]) = take (Suc i) ((H(t := L @ [e])) (Term ((L @ [e]) ! i)))"
  proof (cases "i < length L")
    case True
    then show ?thesis using follows_fresh [OF assms(1,2), of "L @ [e]"] by (auto simp: follows_def nth_append)
  next
    case False
    then show ?thesis using i assms(3) by (simp add: nth_append)
  qed
qed

section \<open>What the handlers do to a log\<close>

lemma TruncateAfter_error: "TruncateAfter marshal pf i l = (l', Some e) \<Longrightarrow>
     entries l' = entries l \<and> baseIndex l' = baseIndex l \<and> baseTerm l' = baseTerm l \<and> boundaryKnown l' = boundaryKnown l"
  by (auto simp: TruncateAfter_def Let_def dest!: persist_frame split: if_splits option.splits prod.splits)

lemma log_wf_cong:
  "log_wf l \<Longrightarrow> entries l' = entries l \<Longrightarrow> baseIndex l' = baseIndex l \<Longrightarrow> baseTerm l' = baseTerm l \<Longrightarrow> boundaryKnown l' = boundaryKnown l \<Longrightarrow> log_wf l'"
  by (simp add: log_wf_def)

lemma all_taken [simp]: "\<exists>j. xs = take j xs"
  by (rule exI [of _ "length xs"]) simp

lemma all_taken_or [simp]: "\<exists>j. xs = take j xs \<or> P j"
  by (rule exI [of _ "length xs"]) simp

text \<open>The loop over the entries of a message, however it ends.\<close>

lemma ae_entries_any:
  assumes "log_wf l" "contiguous p es" "baseIndex l \<le> p" "p \<le> baseIndex l + length (entries l)" "p + length es < 2 ^ 64"
    and "ae_entries marshal pf af es l = (l', res)"
  shows "log_wf l' \<and> baseIndex l' = baseIndex l \<and> ((\<exists>j. entries l' = take j (entries l)) \<or> (\<exists>i. merged p es l l' i))"
proof (cases "res = EntriesApplied")
  case True
  then have "ae_entries marshal pf af es l = (l', EntriesApplied)" using assms(6) by simp
  from ae_entries_merged [OF assms(1-5) this] show ?thesis by (auto simp: merged_def)
next
  case False
  have "(\<exists>j. entries l' = take j (entries l)) \<and> baseIndex l' = baseIndex l \<and> baseTerm l' = baseTerm l \<and> boundaryKnown l' = boundaryKnown l"
    using assms(6) False
  proof (induction es)
    case (Cons e es)
    show ?case
    proof (cases "\<exists>l1. TruncateAfter marshal pf (Index e - 1) l = (l1, None)")
      case True
      then obtain l1 where l1: "TruncateAfter marshal pf (Index e - 1) l = (l1, None)" by blast
      note t = TruncateAfter_ok [OF assms(1) l1]
      show ?thesis using Cons l1 t
        by (auto split: sum.splits if_splits option.splits prod.splits dest!: Append_error)
    next
      case False
      then show ?thesis using Cons
        by (auto split: sum.splits if_splits option.splits prod.splits dest!: Append_error TruncateAfter_error)
    qed
  qed simp
  then show ?thesis using log_wf_take [OF assms(1)] by blast
qed

text \<open>A message that a leader of its term sent: its entries are a piece of the history of that term.\<close>

definition message_ok :: "(uint64 \<Rightarrow> LogEntry list) \<Rightarrow> AppendEntriesRequest \<Rightarrow> bool" where
  "message_ok H req \<longleftrightarrow>
     (let p = ae_PrevLogIndex req; h = H (ae_Term req) in
      p \<le> length h \<and> (0 < p \<longrightarrow> ae_PrevLogTerm req = Term (h ! (p - 1))) \<and> (\<exists>k. ae_Entries req = take k (drop p h)))"

lemma message_ok_grow: "message_ok H req \<Longrightarrow> message_ok (H(t := H t @ es)) req"
proof (cases "ae_Term req = t")
  case True
  assume "message_ok H req"
  then obtain k where m: "ae_PrevLogIndex req \<le> length (H t)" "0 < ae_PrevLogIndex req \<longrightarrow> ae_PrevLogTerm req = Term (H t ! (ae_PrevLogIndex req - 1))"
      "ae_Entries req = take k (drop (ae_PrevLogIndex req) (H t))"
    using True by (auto simp: message_ok_def Let_def)
  have "ae_Entries req = take (min k (length (H t) - ae_PrevLogIndex req)) (drop (ae_PrevLogIndex req) (H t @ es))"
    using m(1,3) by (simp add: min_def)
  then have "\<exists>k. ae_Entries req = take k (drop (ae_PrevLogIndex req) (H t @ es))" ..
  moreover have "0 < ae_PrevLogIndex req \<longrightarrow> (H t @ es) ! (ae_PrevLogIndex req - 1) = H t ! (ae_PrevLogIndex req - 1)"
    using m(1) by (simp add: nth_append)
  ultimately show ?thesis using True m(1,2) by (simp add: message_ok_def del: drop_append)
qed (simp add: message_ok_def)

lemma message_ok_fresh: "message_ok H req \<Longrightarrow> H t = [] \<Longrightarrow> message_ok (H(t := X)) req"
  by (cases "ae_Term req = t") (auto simp: message_ok_def Let_def intro: exI [of _ 0])

text \<open>A follower's log after a message: a piece of its old log, or of the history of the message's term.\<close>

lemma merged_history:
  assumes l: "log_wf l" "baseIndex l = 0" "follows H (entries l)" and h: "follows H (H t)"
    and es: "es = take k (drop p (H t))" "p \<le> length (H t)" "p \<le> length (entries l)" "contiguous p es"
    and prev: "0 < p \<longrightarrow> Term (entries l ! (p - 1)) = Term (H t ! (p - 1))" and m: "merged p es l l' i"
  shows "\<exists>j. entries l' = take j (entries l) \<or> entries l' = take j (H t)"
proof (cases "i = length es")
  case True
  then show ?thesis using m by (auto simp: merged_def)
next
  case False
  then have i: "i < length es" "entries l' = take (p + i) (entries l) @ drop i es" using m l(2) by (auto simp: merged_def)
  have esn: "p + j < length (H t) \<and> es ! j = H t ! (p + j)" if "j < length es" for j using that es(1,2) by auto
  have old: "p + j < length (entries l) \<and> Term (entries l ! (p + j)) = Term (H t ! (p + j))" if "j < i" for j
  proof -
    have "TermAt (Index (es ! j)) l = Inr (Term (es ! j))" "Index (es ! j) = Suc (p + j)"
      using m that i(1) es(4) by (auto simp: merged_def contiguous_def)
    then show ?thesis using TermAt_above [of l "p + j"] l(2) esn [of j] that i(1) by (auto split: if_splits)
  qed
  have "take (p + i) (entries l) = take (p + i) (H t)"
  proof (cases "p + i")
    case (Suc q)
    have "q < length (entries l) \<and> q < length (H t) \<and> Term (entries l ! q) = Term (H t ! q)"
    proof (cases i)
      case 0
      then show ?thesis using Suc prev es(2,3) by auto
    next
      case (Suc j)
      then show ?thesis using old [of j] esn [of j] i(1) \<open>p + i = Suc q\<close> by auto
    qed
    then show ?thesis using follows_match [OF l(3) h, of q] Suc by simp
  qed simp
  moreover have "take (p + i) (H t) @ drop i es = take (p + length es) (H t)"
  proof -
    have "drop i es = take (length es - i) (drop (p + i) (H t))"
      using es(1) by (simp add: drop_take min_def add.commute)
    then show ?thesis using take_add [of "p + i" "length es - i" "H t"] i(1) by simp
  qed
  ultimately show ?thesis using i(2) by auto
qed

lemma markFatal_log [simp]: "rlog (markStorageFailureLocked e r) = rlog r"
  by (simp add: markStorageFailureLocked_def markFatalLocked_def)

lemma resumed_log:
  assumes l: "log_wf (rlog r)" "baseIndex (rlog r) = 0" "follows H (entries (rlog r))"
    and h: "follows H (H (ae_Term req))" "contiguous 0 (H (ae_Term req))" "length (H (ae_Term req)) < 2 ^ 64" "message_ok H req"
    and a: "ae_resume marshal pf af now req r = (r', resp, err)"
  shows "log_wf (rlog r') \<and> baseIndex (rlog r') = 0 \<and> (\<exists>j. entries (rlog r') = take j (entries (rlog r)) \<or> entries (rlog r') = take j (H (ae_Term req)))"
proof -
  let ?p = "ae_PrevLogIndex req" and ?es = "ae_Entries req" and ?h = "H (ae_Term req)"
  define r1 where "r1 = r\<lparr>leaderID := ae_LeaderID req, lastHeartbeat := now\<rparr>"
  have part: "ae_log_part marshal pf af req r1 = (r', resp, err)" using a by (simp add: ae_resume_def r1_def)
  have r1: "rlog r1 = rlog r" by (simp add: r1_def)
  obtain k where k: "?p \<le> length ?h" "0 < ?p \<longrightarrow> ae_PrevLogTerm req = Term (?h ! (?p - 1))" "?es = take k (drop ?p ?h)"
    using h(4) by (auto simp: message_ok_def Let_def)
  have es: "contiguous ?p ?es" "?p + length ?es < 2 ^ 64"
    using h(2,3) k(1,3) by (auto simp: contiguous_def)
  obtain l' res where e: "ae_entries marshal pf af ?es (rlog r) = (l', res)" by fastforce
  show ?thesis
  proof (cases "rlog r' = rlog r")
    case True
    then show ?thesis using l by simp
  next
    case False
    then have ne: "r' \<noteq> r1" using r1 by auto
    have pc: "prev_check req r1 = None" and log': "rlog r' = l'"
      using ne part e unfolding ae_log_part_def r1
      by (auto simp: Let_def split: if_splits option.splits entries_result.splits prod.splits)
    note pp = prev_check_passed [OF _ pc, unfolded r1, OF l(1)]
    have le: "?p \<le> length (entries (rlog r))" using pp l(2) by simp
    have "0 < ?p \<longrightarrow> Term (entries (rlog r) ! (?p - 1)) = Term (?h ! (?p - 1))"
      using pp k(2) TermAt_above [of "rlog r" "?p - 1"] l(2) le by (auto split: if_splits)
    then show ?thesis
      using ae_entries_any [OF l(1) es(1) _ _ es(2) e] merged_history [OF l h(1) k(3,1) le es(1)] pp l(2) log' by auto
  qed
qed

text \<open>A message handled at once: nothing happens, or it is handled after the step down.\<close>

lemma received_cases:
  assumes "processAppendEntries marshal pf af sf now order (Some req) r = (r', resp, err)"
  obtains (refused) "r' = r" "\<not> aer_Success resp"
  | (handled) r1 where "ae_resume marshal pf af now req r1 = (r', resp, err)" "calm r r1" "rlog r1 = rlog r" "state r1 = Follower" "currentTerm r1 = ae_Term req"
      "matchIndex r1 = matchIndex r" "clusterConfig r1 = clusterConfig r" "currentTerm r \<le> ae_Term req"
proof (cases "ae_checks (Some req) r")
  case (Inl e)
  then show ?thesis using assms refused by (auto simp: processAppendEntries_def ae_response_def)
next
  case (Inr q)
  then have q: "q = req" "currentTerm r \<le> ae_Term req" by (auto simp: ae_checks_def split: option.splits if_splits)
  let ?r1 = "if currentTerm r < ae_Term req \<or> state r \<noteq> Follower then stepDown sf now order (ae_Term req) r else r"
  show ?thesis by (rule handled [of ?r1]) (use assms Inr q in \<open>auto simp: processAppendEntries_def\<close>)
qed

text \<open>What a leader adds to its log are entries of its term.\<close>

definition appended :: "'sm RaftNode \<Rightarrow> 'sm RaftNode \<Rightarrow> bool" where
  "appended r r' \<longleftrightarrow>
     (\<exists>es. entries (rlog r') = entries (rlog r) @ es \<and> (\<forall>e \<in> set es. Term e = currentTerm r)) \<and> log_wf (rlog r') \<and> baseIndex (rlog r') = baseIndex (rlog r)"

lemma appendedI:
  assumes "log_wf (rlog r)" "Append marshal af es (rlog r) = (l, err)" "\<forall>e \<in> set es. Term e = currentTerm r" "LastIndex (rlog r) + length es < 2 ^ 64" "rlog r' = l"
  shows "appended r r'"
proof (cases err)
  case None
  then show ?thesis using Append_ok [OF assms(2) [unfolded None]] Append_contiguous [OF assms(1) assms(2) [unfolded None]] assms
    by (auto simp: appended_def LastIndex_eq)
next
  case (Some e)
  then show ?thesis using Append_error [OF assms(2) [unfolded Some]] log_wf_cong [OF assms(1)] assms(5) by (auto simp: appended_def)
qed

lemma flush_finish_log [simp]: "rlog (flush_finish es batch err r) = rlog r" "clusterConfig (flush_finish es batch err r) = clusterConfig r"
  by (auto simp: flush_finish_def answer_all_def markStorageFailureLocked_def markFatalLocked_def Let_def split: option.splits)

lemma flush_appended:
  assumes "log_wf (rlog r)" "state r = Leader" "flush marshal af batch r = r'" "LastIndex (rlog r) + length batch < 2 ^ 64"
  shows "appended r r' \<and> clusterConfig r' = clusterConfig r"
proof (cases "batch = []")
  case True
  then show ?thesis using assms by (auto simp: flush_def appended_def)
next
  case False
  obtain l err where a: "Append marshal af (flush_entries batch r) (rlog r) = (l, err)" by fastforce
  have r': "r' = flush_finish (flush_entries batch r) batch err (r\<lparr>rlog := l\<rparr>)" using assms(2,3) False a by (simp add: flush_def)
  have "appended r r'"
    by (rule appendedI [OF assms(1) a]) (use assms(4) in \<open>auto simp: r' flush_entries_def length_enumerate\<close>)
  then show ?thesis by (simp add: r')
qed

lemma propose_appended:
  assumes "log_wf (rlog r)" "state r = Leader" "ProposeMembershipChange marshal mjson af change r = (r', err)" "LastIndex (rlog r) + 1 < 2 ^ 64"
  shows "appended r r' \<and> clusterConfig r' = clusterConfig r"
proof (cases "pendingMembership r")
  case True
  then show ?thesis using assms by (auto simp: ProposeMembershipChange_def appended_def)
next
  case False
  let ?e = "\<lparr>Index = u64 (LastIndex (rlog r) + 1), Term = currentTerm r, Type = EntryMembership, Command = mjson change\<rparr>"
  obtain l err1 where a: "Append marshal af [?e] (rlog r) = (l, err1)" by fastforce
  have "rlog r' = l" "clusterConfig r' = clusterConfig r"
    using assms(2,3) False a by (auto simp: ProposeMembershipChange_def markStorageFailureLocked_def markFatalLocked_def split: option.splits)
  then show ?thesis using appendedI [OF assms(1) a] assms(4) by simp
qed

lemma becomeLeader_appended:
  assumes "log_wf (rlog r)" "state (becomeLeader marshal af t r) = Leader" "state r = Candidate" "LastIndex (rlog r) + 1 < 2 ^ 64"
  shows "\<exists>e. entries (rlog (becomeLeader marshal af t r)) = entries (rlog r) @ [e] \<and> Term e = currentTerm r \<and>
    log_wf (rlog (becomeLeader marshal af t r)) \<and> baseIndex (rlog (becomeLeader marshal af t r)) = baseIndex (rlog r)"
proof -
  let ?r0 = "reset_peers (other_peers (NodeID (config r)) (clusterConfig r)) (LastIndex (rlog r)) (r\<lparr>state := Leader\<rparr>)"
  let ?e = "\<lparr>Index = u64 (LastIndex (rlog r) + 1), Term = currentTerm r, Type = EntryNoop, Command = []\<rparr>"
  obtain l err where a: "Append marshal af [?e] (rlog r) = (l, err)" by fastforce
  have r0: "rlog ?r0 = rlog r" "currentTerm ?r0 = currentTerm r" by (simp_all add: reset_peers_def)
  have n: "err = None" "becomeLeader marshal af t r = advanceCommitIndex (?r0\<lparr>rlog := l\<rparr>)"
    using assms(2,3) a r0 by (auto simp: becomeLeader_def initLeaderState_def markFatalLocked_def Let_def split: if_splits option.splits)
  have "log_wf l" by (rule Append_contiguous [OF assms(1) a [unfolded n(1)]]) (use assms(4) LastIndex_eq [OF assms(1)] in simp)
  then show ?thesis using Append_ok [OF a [unfolded n(1)]] n(2) by simp
qed

section \<open>Leaders and candidates of one term\<close>

lemma step_new_leader:
  assumes "cluster_step c k k'" "election_inv c k" "n \<in> members c" "state (nodes k n) \<noteq> Leader" "state (nodes k' n) = Leader"
  obtains r0 marshal af where "nodes k' n = becomeLeader marshal af (currentTerm r0) r0" "rlog r0 = rlog (nodes k n)" "state r0 = Candidate"
    "commitIndex r0 = commitIndex (nodes k n)"
    "currentTerm (nodes k n) < currentTerm r0 \<or> state (nodes k n) = Candidate \<and> currentTerm (nodes k n) = currentTerm r0" "\<forall>m. m \<noteq> n \<longrightarrow> nodes k' m = nodes k m"
  using assms(1)
proof cases
  case (elect m sf now r' req b)
  then show ?thesis using assms(4,5) startElection_sent [OF elect(3,4)] by (auto split: if_splits)
next
  case (elect_alone m sf now r' t marshal af)
  then have m: "m = n" using assms(4,5) by (auto split: if_splits)
  have "rlog r' = rlog (nodes k n)" "state r' = Candidate" "currentTerm r' = t" "t = currentTerm (nodes k n) + 1" "commitIndex r' = commitIndex (nodes k n)"
    using elect_alone(3,4) startElection_won [OF elect_alone(3,4)] m
    by (auto simp: startElection_eq Let_def split: if_splits)
  then show ?thesis using that [of marshal af r'] elect_alone(1) m by simp
next
  case (vote m q req sf sf' now order r' resp)
  have m: "\<not> rv_PreVote req" using assms(2) vote(2) by (auto simp: election_inv_def msgs_ok_def)
  have "state r' = Leader \<longrightarrow> state (nodes k q) = Leader"
    using vote_granted [OF vote(3) _ m] vote_refused [OF vote(3)] by (cases "rvr_VoteGranted resp") (auto simp: calm_def)
  then show ?thesis using vote(1) assms(4,5) by (auto split: if_splits)
next
  case (tally m q req resp b finished counted marshal af sf now order r' b')
  then have m: "m = n" "state r' = Leader" using assms(4,5) by (auto split: if_splits)
  from tally(5) show ?thesis
  proof (cases rule: election_answer)
    case won
    then show ?thesis using that [of marshal af "nodes k n"] tally(1) m by simp
  qed (use m assms(4) in \<open>auto simp: calm_def\<close>)
next
  case (quiet m r')
  then show ?thesis using calm_quiet [OF quiet(3)] assms(4,5) by (auto simp: calm_def split: if_splits)
next
  case (restart m marshal unmarshal mjson ujson' now sm s0 r')
  then show ?thesis using calm_restart [OF restart(3,5)] assms(4,5) by (auto split: if_splits)
next
  case (vote_cast m q req now r' t v)
  then show ?thesis using vote_part_cast [OF vote_cast(3)] assms(4,5) by (auto split: if_splits)
next
  case (vote_refuse m q req now r' resp)
  then show ?thesis using vote_part_refused [OF vote_refuse(3)] assms(4,5) by (auto split: if_splits)
next
  case (elect_begin m now r')
  then show ?thesis using elect_begun [OF elect_begin(3,4)] assms(4,5) by (auto split: if_splits)
next
  case (win m t marshal af)
  then have m: "m = n" "state (becomeLeader marshal af t (nodes k n)) = Leader" using assms(4,5) by (auto split: if_splits)
  then have "state (nodes k n) = Candidate" "currentTerm (nodes k n) = t" using becomeLeader_state assms(4) by blast+
  then show ?thesis using that [of marshal af "nodes k n"] win(1) m(1) by simp
qed (use assms(4,5) in \<open>auto split: if_splits\<close>)

text \<open>A node that stays leader keeps its term, and nobody becomes a candidate within a term.\<close>

lemma step_stays:
  assumes "cluster_step c k k'" "election_inv c k" "n \<in> members c"
  shows "state (nodes k n) = Leader \<Longrightarrow> state (nodes k' n) = Leader \<Longrightarrow> currentTerm (nodes k' n) = currentTerm (nodes k n)"
    and "currentTerm (nodes k' n) = currentTerm (nodes k n) \<Longrightarrow> state (nodes k' n) = Candidate \<Longrightarrow> state (nodes k n) = Candidate"
proof -
  let ?P = "\<lambda>r r'. (state r = Leader \<longrightarrow> state r' = Leader \<longrightarrow> currentTerm r' = currentTerm r) \<and>
      (currentTerm r' = currentTerm r \<longrightarrow> state r' = Candidate \<longrightarrow> state r = Candidate)"
  have calm: "?P r r'" if "calm r r'" for r r' using that by (auto simp: calm_def)
  have lead: "?P r (becomeLeader marshal af t r)" for marshal af t r
    by (auto simp: becomeLeader_def)
  have "?P (nodes k n) (nodes k' n)"
    using assms(1)
  proof cases
    case (elect m sf now r' req b)
    then show ?thesis using startElection_sent [OF elect(3,4)] by (auto split: if_splits)
  next
    case (elect_alone m sf now r' t marshal af)
    have "state (nodes k m) \<noteq> Leader" using elect_alone(3) by (auto simp: startElection_eq)
    then show ?thesis using elect_alone(1) startElection_won [OF elect_alone(3,4)] by (auto split: if_splits)
  next
    case (vote m q req sf sf' now order r' resp)
    have m: "\<not> rv_PreVote req" using assms(2) vote(2) by (auto simp: election_inv_def msgs_ok_def)
    have "state r' \<noteq> Leader \<or> calm (nodes k q) r'" using vote_granted [OF vote(3) _ m] vote_refused [OF vote(3)] by blast
    moreover have "currentTerm r' = currentTerm (nodes k q) \<longrightarrow> state r' = Candidate \<longrightarrow> state (nodes k q) = Candidate"
      using vote(3) by (auto simp: handleRequestVote_eq Let_def split: if_splits)
    ultimately show ?thesis using vote(1) by (auto simp: calm_def split: if_splits)
  next
    case (tally m q req resp b finished counted marshal af sf now order r' b')
    from tally(5) have "calm (nodes k m) r' \<or> state (nodes k m) = Candidate" by (cases rule: election_answer) auto
    then show ?thesis using tally(1) by (auto simp: calm_def split: if_splits)
  next
    case (quiet m r')
    then show ?thesis using calm [OF calm_quiet [OF quiet(3)]] by auto
  next
    case (restart m marshal unmarshal mjson ujson' now sm s0 r')
    then show ?thesis using calm_restart [OF restart(3,5)] calm [of "nodes k m" r'] by auto
  next
    case (vote_cast m q req now r' t v)
    then show ?thesis using vote_part_cast [OF vote_cast(3)] by auto
  next
    case (vote_refuse m q req now r' resp)
    then show ?thesis using vote_part_refused [OF vote_refuse(3)] by auto
  next
    case (elect_begin m now r')
    then show ?thesis using elect_begun [OF elect_begin(3,4)] by auto
  next
    case (win m t marshal af)
    then show ?thesis using lead [of "nodes k m" marshal af t] by auto
  qed auto
  then show "state (nodes k n) = Leader \<Longrightarrow> state (nodes k' n) = Leader \<Longrightarrow> currentTerm (nodes k' n) = currentTerm (nodes k n)"
    "currentTerm (nodes k' n) = currentTerm (nodes k n) \<Longrightarrow> state (nodes k' n) = Candidate \<Longrightarrow> state (nodes k n) = Candidate" by blast+
qed

text \<open>Two winners of a term are one.\<close>

lemma single_winner:
  assumes "election_inv c k" "is_quorum c Q" "is_quorum c R" "\<forall>p \<in> Q. (p, t, a) \<in> votes k" "\<forall>p \<in> R. (p, t, b) \<in> votes k"
  shows "a = b"
proof -
  have "x = y" if "(p, t, x) \<in> votes k" "(p, t, y) \<in> votes k" for p x y
    using assms(1) that unfolding election_inv_def votes_ok_def by blast
  then show ?thesis using maj.one_winner [OF assms(2,3), where V = "\<lambda>p x. (p, t, x) \<in> votes k" and c = a and d = b] assms(4,5) by blast
qed

lemma one_leader:
  assumes "election_inv c k" "a \<in> members c" "b \<in> members c" "state (nodes k a) = Leader" "state (nodes k b) = Leader"
    and "currentTerm (nodes k a) = currentTerm (nodes k b)"
  shows "a = b"
proof -
  obtain Q where Q: "is_quorum c Q" "\<forall>p \<in> Q. (p, currentTerm (nodes k b), a) \<in> votes k"
    using assms(1,2,4,6) by (auto simp: election_inv_def leaders_ok_def elected_def)
  obtain R where R: "is_quorum c R" "\<forall>p \<in> R. (p, currentTerm (nodes k b), b) \<in> votes k"
    using assms(1,3,5) by (auto simp: election_inv_def leaders_ok_def elected_def)
  show ?thesis using single_winner [OF assms(1) Q(1) R(1) Q(2) R(2)] .
qed

text \<open>The node that led a term has not been a candidate of it again.\<close>

definition led :: "peers \<Rightarrow> 'sm cluster \<Rightarrow> uint64 \<Rightarrow> string \<Rightarrow> bool" where
  "led c k t n \<longleftrightarrow> n \<in> members c \<and> t \<le> currentTerm (nodes k n) \<and> (currentTerm (nodes k n) = t \<longrightarrow> state (nodes k n) \<noteq> Candidate) \<and>
     (\<exists>Q. is_quorum c Q \<and> (\<forall>p \<in> Q. (p, t, n) \<in> votes k))"

lemma led_step:
  assumes "cluster_step c k k'" "election_inv c k" "led c k t n"
  shows "led c k' t n"
proof -
  have v: "votes k \<subseteq> votes k'" using votes_grow assms(1) by blast
  obtain Q where Q: "is_quorum c Q" "\<forall>p \<in> Q. (p, t, n) \<in> votes k" using assms(3) by (auto simp: led_def)
  have n: "n \<in> members c" "t \<le> currentTerm (nodes k n)" "currentTerm (nodes k n) = t \<longrightarrow> state (nodes k n) \<noteq> Candidate"
    using assms(3) by (auto simp: led_def)
  have g: "currentTerm (nodes k n) \<le> currentTerm (nodes k' n)" by (rule terms_grow_step [OF assms(1,2) n(1)])
  have "currentTerm (nodes k' n) = t \<longrightarrow> state (nodes k' n) \<noteq> Candidate"
    using step_stays(2) [OF assms(1,2) n(1)] n(2,3) g by auto
  then show ?thesis using v Q n g unfolding led_def by auto
qed

lemma led_leader: "election_inv c k \<Longrightarrow> n \<in> members c \<Longrightarrow> state (nodes k n) = Leader \<Longrightarrow> led c k (currentTerm (nodes k n)) n"
  by (auto simp: led_def election_inv_def leaders_ok_def elected_def)

text \<open>A node that handles a message of term \<open>t\<close> has reached the term and is no candidate or leader of it.\<close>

definition busy :: "peers \<Rightarrow> 'sm cluster \<Rightarrow> string \<Rightarrow> uint64 \<Rightarrow> bool" where
  "busy c k p t \<longleftrightarrow> p \<in> members c \<and> t \<le> currentTerm (nodes k p) \<and>
     (currentTerm (nodes k p) = t \<longrightarrow> state (nodes k p) \<noteq> Candidate \<and> state (nodes k p) \<noteq> Leader)"

lemma busy_step:
  assumes "cluster_step c k k'" "election_inv c k" "busy c k p t"
  shows "busy c k' p t"
proof -
  have p: "p \<in> members c" "t \<le> currentTerm (nodes k p)" using assms(3) by (auto simp: busy_def)
  have g: "currentTerm (nodes k p) \<le> currentTerm (nodes k' p)" by (rule terms_grow_step [OF assms(1,2) p(1)])
  have "state (nodes k' p) \<noteq> Candidate \<and> state (nodes k' p) \<noteq> Leader" if t: "currentTerm (nodes k' p) = t"
  proof -
    have e: "currentTerm (nodes k p) = t" using p(2) g t by simp
    then have s: "state (nodes k p) \<noteq> Candidate" "state (nodes k p) \<noteq> Leader" using assms(3) by (auto simp: busy_def)
    have "state (nodes k' p) \<noteq> Leader"
    proof
      assume l: "state (nodes k' p) = Leader"
      obtain r0 marshal af where r0: "nodes k' p = becomeLeader marshal af (currentTerm r0) r0"
          "currentTerm (nodes k p) < currentTerm r0 \<or> state (nodes k p) = Candidate \<and> currentTerm (nodes k p) = currentTerm r0"
        by (rule step_new_leader [OF assms(1,2) p(1) s(2) l])
      then show False using e t s(1) by simp
    qed
    then show ?thesis using step_stays(2) [OF assms(1,2) p(1)] s(1) e t by auto
  qed
  then show ?thesis using p g by (simp add: busy_def)
qed

section \<open>The invariant\<close>

definition repl_inv :: "peers \<Rightarrow> 'sm repl_cluster \<Rightarrow> bool" where
  "repl_inv c s \<longleftrightarrow>
     election_inv c (cl s) \<and>
     (\<forall>n \<in> members c. log_wf (rlog (nodes (cl s) n)) \<and> baseIndex (rlog (nodes (cl s) n)) = 0 \<and> follows (hist s) (node_log s n)) \<and>
     (\<forall>t. follows (hist s) (hist s t) \<and> contiguous 0 (hist s t) \<and> length (hist s t) < 2 ^ 64) \<and>
     (\<forall>n \<in> members c. state (nodes (cl s) n) = Leader \<longrightarrow> hist s (currentTerm (nodes (cl s) n)) = node_log s n \<and> node_log s n \<noteq> []) \<and>
     (\<forall>req \<in> msgs s. message_ok (hist s) req) \<and>
     (\<forall>t. hist s t \<noteq> [] \<longrightarrow> led c (cl s) t (repl_cluster.lead s t)) \<and>
     (\<forall>n t es. (n, t, es) \<in> batches s \<longrightarrow> (\<forall>e \<in> set es. Term e = t)) \<and>
     (\<forall>p req. (p, req) \<in> handling s \<longrightarrow> req \<in> msgs s \<and> busy c (cl s) p (ae_Term req))"

lemma repl_inv_init: "repl_init c s \<Longrightarrow> repl_inv c s"
  by (auto simp: repl_init_def repl_inv_def inv_init cluster_init_def)

lemma log_wf_base0: "log_wf l \<Longrightarrow> baseIndex l = 0 \<Longrightarrow> contiguous 0 (entries l) \<and> length (entries l) < 2 ^ 64"
  by (auto simp: log_wf_def)

text \<open>A leader of term \<open>t\<close> that appended.\<close>

lemma inv_appended:
  assumes i: "repl_inv c s" and n: "n \<in> members c" "state (nodes (cl s) n) = Leader" and a: "appended (nodes (cl s) n) r'"
    and k: "cluster_step c (cl s) (put_node n r' (cl s))"
  shows "repl_inv c (s\<lparr>cl := put_node n r' (cl s), hist := (hist s)(currentTerm (nodes (cl s) n) := entries (rlog r'))\<rparr>)"
proof -
  let ?t = "currentTerm (nodes (cl s) n)" and ?H = "hist s" and ?k = "put_node n r' (cl s)"
  have ei: "election_inv c (cl s)" and h: "?H ?t = node_log s n" "follows ?H (?H ?t)" "baseIndex (rlog (nodes (cl s) n)) = 0" "?H ?t \<noteq> []"
    using i n by (auto simp: repl_inv_def)
  obtain es where es: "entries (rlog r') = ?H ?t @ es" "\<forall>e \<in> set es. Term e = ?t" and wf: "log_wf (rlog r')" "baseIndex (rlog r') = 0"
    using a h by (auto simp: appended_def)
  let ?H' = "?H(?t := ?H ?t @ es)"
  have fol: "follows ?H' L" if "follows ?H L" for L using that by (rule follows_grow)
  have new: "follows ?H' (?H ?t @ es)" by (rule follows_appended [OF h(2) es(2)])
  have ek: "election_inv c ?k" by (rule inv_step [OF k ei])
  have 1: "log_wf (rlog (nodes ?k m)) \<and> baseIndex (rlog (nodes ?k m)) = 0 \<and> follows ?H' (entries (rlog (nodes ?k m)))" if "m \<in> members c" for m
    using i that fol new wf es(1) by (auto simp: repl_inv_def)
  have 2: "follows ?H' (?H' u) \<and> contiguous 0 (?H' u) \<and> length (?H' u) < 2 ^ 64" for u
    using i fol new log_wf_base0 [OF wf] es(1) by (auto simp: repl_inv_def)
  have 3: "?H' (currentTerm (nodes ?k m)) = entries (rlog (nodes ?k m)) \<and> entries (rlog (nodes ?k m)) \<noteq> []" if m: "m \<in> members c" "state (nodes ?k m) = Leader" for m
  proof (cases "m = n")
    case True
    then show ?thesis using step_stays(1) [OF k ei n(1) n(2)] m(2) es(1) h(4) by simp
  next
    case False
    then have "state (nodes (cl s) m) = Leader" "nodes ?k m = nodes (cl s) m" using m(2) by simp_all
    moreover have "currentTerm (nodes (cl s) m) \<noteq> ?t" using one_leader [OF ei m(1) n(1) _ n(2)] calculation(1) False by blast
    ultimately show ?thesis using i m(1) by (simp add: repl_inv_def)
  qed
  have 4: "message_ok ?H' req" if "req \<in> msgs s" for req using i that message_ok_grow by (auto simp: repl_inv_def)
  have 5: "led c ?k u (repl_cluster.lead s u)" if "?H' u \<noteq> []" for u
  proof -
    have "?H u \<noteq> []" using that h(4) by (auto split: if_splits)
    then show ?thesis using i led_step [OF k ei] by (simp add: repl_inv_def)
  qed
  have 6: "req \<in> msgs s \<and> busy c ?k p (ae_Term req)" if "(p, req) \<in> handling s" for p req
    using i that busy_step [OF k ei] unfolding repl_inv_def by blast
  have "\<forall>n t es. (n, t, es) \<in> batches s \<longrightarrow> (\<forall>e \<in> set es. Term e = t)" using i by (simp add: repl_inv_def)
  then show ?thesis using ek 1 2 3 4 5 6 es(1) by (simp add: repl_inv_def)
qed

text \<open>A step that changes no log and makes no leader.\<close>

lemma inv_internal:
  assumes i: "repl_inv c s" and k: "cluster_step c (cl s) k" and same: "\<forall>n. same_log (nodes (cl s) n) (nodes k n)"
    and nl: "\<forall>n \<in> members c. state (nodes k n) = Leader \<longrightarrow> state (nodes (cl s) n) = Leader"
  shows "repl_inv c (s\<lparr>cl := k\<rparr>)"
proof -
  have ei: "election_inv c (cl s)" using i by (simp add: repl_inv_def)
  have e: "entries (rlog (nodes k n)) = node_log s n" "baseIndex (rlog (nodes k n)) = baseIndex (rlog (nodes (cl s) n))" for n
    using same by (simp_all add: same_log_def)
  have "log_wf (rlog (nodes k n))" if "n \<in> members c" for n
    using i that same log_wf_cong [of "rlog (nodes (cl s) n)" "rlog (nodes k n)"] by (simp add: repl_inv_def same_log_def)
  moreover have "hist s (currentTerm (nodes k n)) = node_log s n \<and> node_log s n \<noteq> []" if "n \<in> members c" "state (nodes k n) = Leader" for n
  proof -
    have "state (nodes (cl s) n) = Leader" using nl that by simp
    then show ?thesis using step_stays(1) [OF k ei that(1)] that i by (simp add: repl_inv_def)
  qed
  moreover have "led c k t (repl_cluster.lead s t)" if "hist s t \<noteq> []" for t
    using i that led_step [OF k ei] by (simp add: repl_inv_def)
  moreover have "req \<in> msgs s \<and> busy c k p (ae_Term req)" if "(p, req) \<in> handling s" for p req
    using i that busy_step [OF k ei] unfolding repl_inv_def by blast
  ultimately show ?thesis using i inv_step [OF k ei] by (simp add: repl_inv_def e)
qed

text \<open>A new leader: nothing of its term existed, and its log grows by one entry.\<close>

lemma new_leader_log:
  assumes i: "repl_inv c s" and k: "cluster_step c (cl s) k" and n: "n \<in> members c" "state (nodes (cl s) n) \<noteq> Leader" "state (nodes k n) = Leader"
    and b: "LastIndex (rlog (nodes (cl s) n)) + 1 < 2 ^ 64"
  obtains e where "entries (rlog (nodes k n)) = node_log s n @ [e]" "Term e = currentTerm (nodes k n)" "log_wf (rlog (nodes k n))"
    "baseIndex (rlog (nodes k n)) = 0" "hist s (currentTerm (nodes k n)) = []" "\<And>m. m \<noteq> n \<Longrightarrow> nodes k m = nodes (cl s) m"
    "currentTerm (nodes (cl s) n) < currentTerm (nodes k n) \<or> state (nodes (cl s) n) = Candidate \<and> currentTerm (nodes (cl s) n) = currentTerm (nodes k n)"
proof -
  let ?t = "currentTerm (nodes k n)" and ?H = "hist s"
  have ei: "election_inv c (cl s)" and ek: "election_inv c k" using i inv_step [OF k] by (auto simp: repl_inv_def)
  obtain r0 marshal af where r0: "nodes k n = becomeLeader marshal af (currentTerm r0) r0" "rlog r0 = rlog (nodes (cl s) n)" "state r0 = Candidate"
      "currentTerm (nodes (cl s) n) < currentTerm r0 \<or> state (nodes (cl s) n) = Candidate \<and> currentTerm (nodes (cl s) n) = currentTerm r0"
      and others: "\<forall>m. m \<noteq> n \<longrightarrow> nodes k m = nodes (cl s) m"
    by (rule step_new_leader [OF k ei n])
  have t: "currentTerm r0 = ?t" unfolding r0(1) by simp
  have old: "log_wf (rlog r0)" "baseIndex (rlog r0) = 0" using i n(1) r0(2) by (auto simp: repl_inv_def)
  have "state (becomeLeader marshal af (currentTerm r0) r0) = Leader" using n(3) unfolding r0(1) .
  moreover have "LastIndex (rlog r0) + 1 < 2 ^ 64" using b unfolding r0(2) .
  ultimately obtain e where e: "entries (rlog (nodes k n)) = entries (rlog r0) @ [e]" "Term e = currentTerm r0" "log_wf (rlog (nodes k n))"
      "baseIndex (rlog (nodes k n)) = baseIndex (rlog r0)"
    using becomeLeader_appended [OF old(1) _ r0(3), of marshal af "currentTerm r0"] unfolding r0(1) [symmetric] by blast
  have fresh: "?H ?t = []"
  proof (rule ccontr)
    assume "?H ?t \<noteq> []"
    then have l: "led c (cl s) ?t (repl_cluster.lead s ?t)" using i by (simp add: repl_inv_def)
    have "led c k ?t (repl_cluster.lead s ?t)" by (rule led_step [OF k ei l])
    moreover have "led c k ?t n" by (rule led_leader [OF ek n(1,3)])
    ultimately obtain Q R where "is_quorum c Q" "\<forall>p \<in> Q. (p, ?t, repl_cluster.lead s ?t) \<in> votes k" "is_quorum c R" "\<forall>p \<in> R. (p, ?t, n) \<in> votes k"
      unfolding led_def by blast
    then have "repl_cluster.lead s ?t = n" using single_winner [OF ek] by blast
    then have "?t \<le> currentTerm (nodes (cl s) n)" "currentTerm (nodes (cl s) n) = ?t \<longrightarrow> state (nodes (cl s) n) \<noteq> Candidate"
      using l by (auto simp: led_def)
    then show False using r0(4) unfolding t by auto
  qed
  show thesis by (rule that [of e]) (use e r0(2,4) old(2) t fresh others in auto)
qed

lemma inv_lead:
  assumes i: "repl_inv c s" and k: "cluster_step c (cl s) k" and n: "n \<in> members c" "state (nodes (cl s) n) \<noteq> Leader" "state (nodes k n) = Leader"
    and b: "LastIndex (rlog (nodes (cl s) n)) + 1 < 2 ^ 64"
  shows "repl_inv c (s\<lparr>cl := k, hist := (hist s)(currentTerm (nodes k n) := entries (rlog (nodes k n))),
       lead := (repl_cluster.lead s)(currentTerm (nodes k n) := n)\<rparr>)"
proof -
  let ?t = "currentTerm (nodes k n)" and ?H = "hist s"
  have ei: "election_inv c (cl s)" and ek: "election_inv c k" using i inv_step [OF k] by (auto simp: repl_inv_def)
  obtain e where e: "entries (rlog (nodes k n)) = node_log s n @ [e]" "Term e = ?t" "log_wf (rlog (nodes k n))" "baseIndex (rlog (nodes k n)) = 0"
    and fresh: "?H ?t = []" and others: "\<And>m. m \<noteq> n \<Longrightarrow> nodes k m = nodes (cl s) m"
    using new_leader_log [OF i k n b] by metis
  have old: "follows ?H (node_log s n)" using i n(1) by (auto simp: repl_inv_def)
  let ?H' = "?H(?t := entries (rlog (nodes k n)))"
  have fol: "follows ?H' L" if "follows ?H L" for L using that fresh by (rule follows_fresh)
  have new: "follows ?H' (entries (rlog (nodes k n)))" unfolding e(1) by (rule follows_started [OF old fresh e(2)])
  have 1: "log_wf (rlog (nodes k m)) \<and> baseIndex (rlog (nodes k m)) = 0 \<and> follows ?H' (entries (rlog (nodes k m)))" if "m \<in> members c" for m
    using i that fol new e(3,4) others by (cases "m = n") (auto simp: repl_inv_def)
  have 2: "follows ?H' (?H' u) \<and> contiguous 0 (?H' u) \<and> length (?H' u) < 2 ^ 64" for u
    using i fol new log_wf_base0 [OF e(3,4)] by (auto simp: repl_inv_def)
  have 3: "?H' (currentTerm (nodes k m)) = entries (rlog (nodes k m)) \<and> entries (rlog (nodes k m)) \<noteq> []" if m: "m \<in> members c" "state (nodes k m) = Leader" for m
  proof (cases "m = n")
    case False
    then have "currentTerm (nodes k m) \<noteq> ?t" using one_leader [OF ek m(1) n(1) m(2) n(3)] by blast
    then show ?thesis using i m others False by (simp add: repl_inv_def)
  qed (simp add: e(1))
  have 4: "message_ok ?H' req" if "req \<in> msgs s" for req using i that message_ok_fresh [where H = ?H and t = ?t, OF _ fresh] by (simp add: repl_inv_def)
  have 5: "led c k u (((repl_cluster.lead s)(?t := n)) u)" if "?H' u \<noteq> []" for u
    using that i led_leader [OF ek n(1,3)] led_step [OF k ei] by (auto simp: repl_inv_def)
  have 6: "req \<in> msgs s \<and> busy c k p (ae_Term req)" if "(p, req) \<in> handling s" for p req
    using i that busy_step [OF k ei] unfolding repl_inv_def by blast
  have "\<forall>n t es. (n, t, es) \<in> batches s \<longrightarrow> (\<forall>e \<in> set es. Term e = t)" using i by (simp add: repl_inv_def)
  then show ?thesis using ek 1 2 3 4 5 6 by (simp add: repl_inv_def)
qed

text \<open>Messages a leader sends are pieces of its log.\<close>

lemma sent_message:
  assumes "log_wf (rlog r)" "baseIndex (rlog r) = 0" "replicateTo_request ni r = ReplSend nx req" "H (currentTerm r) = entries (rlog r)"
  shows "message_ok H req \<and> state r = Leader"
proof -
  let ?l = "rlog r" and ?x = "clip_next (LastIndex (rlog r)) ni"
  have L: "LastIndex ?l = length (entries ?l)" using LastIndex_eq [OF assms(1)] assms(2) by simp
  have x: "0 < ?x" "fatalErr r = None" "state r = Leader"
    using assms(2,3) by (auto simp: replicateTo_request_def Let_def split: option.splits if_splits)
  obtain pt es where t: "TermAt (?x - 1) ?l = Inr pt" "GetEntriesFrom ?x ?l = Inr es"
    and req: "req = \<lparr>ae_Term = currentTerm r, ae_LeaderID = NodeID (config r), ae_PrevLogIndex = ?x - 1, ae_PrevLogTerm = pt,
        ae_Entries = limit_entries (MaxLogEntriesPerRPC (config r)) es, ae_LeaderCommit = commitIndex r\<rparr>"
    using assms(2,3) x by (auto simp: replicateTo_request_def Let_def split: sum.splits if_splits)
  have es: "es = drop (?x - 1) (entries ?l)" using t(2) x(1) assms(2) by (auto simp: GetEntriesFrom_def Let_def split: if_splits)
  have p: "?x - 1 \<le> length (entries ?l)" "0 < ?x - 1 \<longrightarrow> pt = Term (entries ?l ! (?x - 1 - 1))"
    using t(1) TermAt_above [of ?l "?x - 1 - 1"] assms(2) by (auto simp: TermAt_def termAtLocked_def Let_def split: if_splits)
  have "\<exists>k. limit_entries (MaxLogEntriesPerRPC (config r)) es = take k (drop (?x - 1) (entries ?l))"
    unfolding limit_entries_def es by (auto intro: exI [of _ "length (entries ?l)"])
  then show ?thesis using p x(3) assms(4) by (simp add: message_ok_def req)
qed

lemma heartbeat_message: "message_ok H (heartbeat_request r)"
  by (auto simp: message_ok_def heartbeat_request_def)

lemma inv_sent: "repl_inv c s \<Longrightarrow> message_ok (hist s) req \<Longrightarrow> repl_inv c (s\<lparr>msgs := insert req (msgs s)\<rparr>)"
  by (auto simp: repl_inv_def)

text \<open>A follower that receives.\<close>

lemma resume_keeps:
  assumes "ae_resume marshal pf af now req r = (r', resp, err)"
  shows "clusterConfig r' = clusterConfig r \<and> currentTerm r' = currentTerm r \<and> matchIndex r' = matchIndex r \<and> (state r' = state r \<or> state r' = Follower)"
  using assms by (auto simp: ae_resume_def ae_log_part_def commit_from_leader_def markStorageFailureLocked_def markFatalLocked_def Let_def
      split: if_splits option.splits prod.splits entries_result.splits)

lemma append_keeps_config: "processAppendEntries marshal pf af sf now order (Some req) r = (r', resp, err) \<Longrightarrow> clusterConfig r' = clusterConfig r"
  by (cases rule: received_cases, assumption) (use resume_keeps in fastforce)+

text \<open>The log of a node that is neither candidate nor leader of the message's term follows the histories afterwards too.\<close>

lemma inv_resumed:
  assumes i: "repl_inv c s" and p: "p \<in> members c" "req \<in> msgs s" and k: "cluster_step c (cl s) (put_node p r' (cl s))"
    and a: "ae_resume marshal pf af now req r1 = (r', resp, err)" and r1: "rlog r1 = rlog (nodes (cl s) p)" "state r1 \<noteq> Leader"
  shows "repl_inv c (s\<lparr>cl := put_node p r' (cl s)\<rparr>)"
proof -
  let ?k = "put_node p r' (cl s)"
  have ei: "election_inv c (cl s)" using i by (simp add: repl_inv_def)
  have log: "log_wf (rlog r') \<and> baseIndex (rlog r') = 0 \<and>
      (\<exists>j. entries (rlog r') = take j (node_log s p) \<or> entries (rlog r') = take j (hist s (ae_Term req)))"
    unfolding r1(1) [symmetric] by (rule resumed_log [OF _ _ _ _ _ _ _ a]) (use i p r1(1) in \<open>auto simp: repl_inv_def\<close>)
  then have f: "follows (hist s) (entries (rlog r'))" using i p(1) follows_take by (auto simp: repl_inv_def)
  have "hist s (currentTerm (nodes ?k n)) = entries (rlog (nodes ?k n)) \<and> entries (rlog (nodes ?k n)) \<noteq> []"
    if n: "n \<in> members c" "state (nodes ?k n) = Leader" for n
    using i n resume_keeps [OF a] r1(2) by (cases "n = p") (auto simp: repl_inv_def)
  moreover have "req' \<in> msgs s \<and> busy c ?k q (ae_Term req')" if "(q, req') \<in> handling s" for q req'
    using i that busy_step [OF k ei] unfolding repl_inv_def by blast
  ultimately show ?thesis using i log f inv_step [OF k ei] led_step [OF k ei] by (simp add: repl_inv_def)
qed

lemma received_step:
  assumes "election_inv c k" "p \<in> members c" "processAppendEntries marshal pf af sf now order (Some req) (nodes k p) = (r', resp, err)"
  shows "cluster_step c k (put_node p r' k)"
  by (rule quiet [OF assms(2) quiet_append [OF assms(3)]])
    (use append_keeps_config [OF assms(3)] assms(1,2) in \<open>simp add: election_inv_def nodes_ok_def\<close>)

lemma resumed_step:
  assumes "election_inv c k" "p \<in> members c" "ae_resume marshal pf af now req (nodes k p) = (r', resp, err)"
  shows "cluster_step c k (put_node p r' k)"
  by (rule quiet [OF assms(2) quiet_resume [OF assms(3)]])
    (use resume_keeps [OF assms(3)] assms(1,2) in \<open>simp add: election_inv_def nodes_ok_def\<close>)

lemma written_step:
  assumes "election_inv c k" "n \<in> members c"
  shows "cluster_step c k (put_node n ((nodes k n)\<lparr>rlog := l\<rparr>) k)"
  by (rule quiet [OF assms(2) quiet_pieces(2)]) (use assms in \<open>simp add: election_inv_def nodes_ok_def\<close>)

lemma inv_received:
  assumes i: "repl_inv c s" and p: "p \<in> members c" "req \<in> msgs s"
    and a: "processAppendEntries marshal pf af sf now order (Some req) (nodes (cl s) p) = (r', resp, err)"
  shows "repl_inv c (s\<lparr>cl := put_node p r' (cl s)\<rparr>)"
proof -
  have k: "cluster_step c (cl s) (put_node p r' (cl s))" using i received_step [OF _ p(1) a] by (simp add: repl_inv_def)
  from a show ?thesis
  proof (cases rule: received_cases)
    case refused
    then have "put_node p r' (cl s) = cl s" by (simp add: put_node_def)
    then show ?thesis using i by simp
  next
    case (handled r1)
    then show ?thesis by (intro inv_resumed [OF i p k handled(1)]) simp_all
  qed
qed

text \<open>A handler that is interrupted in \<^verbatim>\<open>stepDown\<close>.\<close>

lemma inv_interrupted:
  assumes i: "repl_inv c s" and p: "p \<in> members c" "req \<in> msgs s" and a: "ae_checks (Some req) (nodes (cl s) p) = Inr req'" "stepDown_begin now (ae_Term req) (nodes (cl s) p) = r'"
  shows "repl_inv c (s\<lparr>cl := (put_node p r' (cl s))\<lparr>saves := insert (p, currentTerm r', votedFor r') (saves (cl s))\<rparr>, handling := insert (p, req) (handling s)\<rparr>)"
proof -
  let ?k = "(put_node p r' (cl s))\<lparr>saves := insert (p, currentTerm r', votedFor r') (saves (cl s))\<rparr>"
  have k: "cluster_step c (cl s) ?k" by (rule step_down [OF p(1) a(2)])
  have r': "rlog r' = rlog (nodes (cl s) p)" "state r' = Follower" by (simp_all add: a(2) [symmetric])
  have t: "currentTerm (nodes (cl s) p) \<le> ae_Term req" using a(1) by (auto simp: ae_checks_def split: option.splits if_splits)
  have "repl_inv c (s\<lparr>cl := ?k\<rparr>)"
    by (rule inv_internal [OF i k]) (use r' in \<open>auto simp: same_log_def\<close>)
  moreover have "busy c ?k p (ae_Term req)" using p(1) t r'(2) a(2) by (auto simp: busy_def)
  ultimately show ?thesis using p(2) by (simp add: repl_inv_def)
qed

lemma repl_inv_step: "repl_step c s s' \<Longrightarrow> repl_inv c s \<Longrightarrow> repl_inv c s'"
proof (induction rule: repl_step.induct)
  case (internal s k)
  then show ?case by (intro inv_internal)
next
  case (lead s k n)
  then show ?case by (intro inv_lead)
next
  case (flushes n s marshal af batch r')
  have wf: "log_wf (rlog (nodes (cl s) n))" "clusterConfig (nodes (cl s) n) = c"
    using flushes by (auto simp: repl_inv_def election_inv_def nodes_ok_def)
  note f = flush_appended [OF wf(1) flushes(2-4)]
  have "cluster_step c (cl s) (put_node n r' (cl s))"
    using quiet [OF flushes(1) quiet_flush [OF flushes(3)]] f wf(2) by simp
  then show ?case using inv_appended [OF flushes(5,1,2)] f by blast
next
  case (proposes n s marshal mjson af change r' err)
  have wf: "log_wf (rlog (nodes (cl s) n))" "clusterConfig (nodes (cl s) n) = c"
    using proposes by (auto simp: repl_inv_def election_inv_def nodes_ok_def)
  note f = propose_appended [OF wf(1) proposes(2-4)]
  have "cluster_step c (cl s) (put_node n r' (cl s))"
    using quiet [OF proposes(1) quiet_propose [OF proposes(3)]] f wf(2) by simp
  then show ?case using inv_appended [OF proposes(5,1,2)] f by blast
next
  case (sends n ni s nx req)
  have l: "log_wf (rlog (nodes (cl s) n))" "baseIndex (rlog (nodes (cl s) n)) = 0" using sends(1,3) by (auto simp: repl_inv_def)
  have "state (nodes (cl s) n) = Leader" using sends(2) by (auto simp: replicateTo_request_def split: option.splits if_splits)
  then have "hist s (currentTerm (nodes (cl s) n)) = node_log s n" using sends(1,3) by (simp add: repl_inv_def)
  then show ?case using sent_message [OF l sends(2), of "hist s"] inv_sent [OF sends(3)] by simp
next
  case (beats n s)
  then show ?case using inv_sent heartbeat_message by blast
next
  case (receives p s req marshal pf af sf now order r' resp err')
  then show ?case by (intro inv_received)
next
  case (flush_begins n s batch)
  have "\<forall>e \<in> set (flush_entries batch (nodes (cl s) n)). Term e = currentTerm (nodes (cl s) n)" by (auto simp: flush_entries_def)
  then show ?case using flush_begins(3) by (simp add: repl_inv_def)
next
  case (flush_writes n t es s marshal af l err)
  have ei: "election_inv c (cl s)" and wf: "log_wf (rlog (nodes (cl s) n))" and es: "\<forall>e \<in> set es. Term e = t"
    using flush_writes(7,1,2) unfolding repl_inv_def by blast+
  have "appended (nodes (cl s) n) ((nodes (cl s) n)\<lparr>rlog := l\<rparr>)"
    by (rule appendedI [OF wf flush_writes(5)]) (use es flush_writes(4,6) in simp_all)
  from inv_appended [OF flush_writes(7,2,3) this written_step [OF ei flush_writes(2)]] show ?case using flush_writes(4) by simp
next
  case receive_begins
  then show ?case by (intro inv_interrupted)
next
  case (receive_resumes p req s marshal pf af now r' resp err')
  have h: "req \<in> msgs s" "busy c (cl s) p (ae_Term req)" and ei: "election_inv c (cl s)" using receive_resumes(4,1) unfolding repl_inv_def by blast+
  then have p: "p \<in> members c" "state (nodes (cl s) p) \<noteq> Leader" using receive_resumes(2) by (auto simp: busy_def)
  then show ?case by (intro inv_resumed [OF receive_resumes(4) p(1) h(1) resumed_step [OF ei p(1) receive_resumes(3)] receive_resumes(3)]) simp_all
qed

lemma repl_inv_reachable: "(repl_step c)\<^sup>*\<^sup>* s s' \<Longrightarrow> repl_inv c s \<Longrightarrow> repl_inv c s'"
  by (induction rule: rtranclp_induct) (auto intro: repl_inv_step)

text \<open>
  C5: log matching. In a cluster with a fixed configuration and without snapshots, through any
  interleaving of elections, flushes, membership proposals and messages that are lost, repeated,
  delayed and reordered, with failing writes, with handlers and flushes interrupted where they
  release their node's lock, provided that an interrupted \<^verbatim>\<open>AppendEntries\<close> goes on in the term of its
  message, a batch is written while its node still leads the term in which it was taken up, and a
  node that restarts finds its term, vote and log: two logs that have an entry with the same index
  and the same term are equal up to that entry, and the log of a leader holds every entry of its
  term that any log holds.
\<close>

theorem log_matching:
  assumes "repl_init c s0" "(repl_step c)\<^sup>*\<^sup>* s0 s" "a \<in> members c" "b \<in> members c" "i < length (node_log s b)"
  shows "(i < length (node_log s a) \<and> Term (node_log s a ! i) = Term (node_log s b ! i) \<longrightarrow> take (Suc i) (node_log s a) = take (Suc i) (node_log s b)) \<and>
    (state (nodes (cl s) a) = Leader \<and> currentTerm (nodes (cl s) a) = Term (node_log s b ! i) \<longrightarrow> take (Suc i) (node_log s a) = take (Suc i) (node_log s b))"
proof -
  have inv: "repl_inv c s" by (rule repl_inv_reachable [OF assms(2) repl_inv_init [OF assms(1)]])
  then have f: "follows (hist s) (node_log s a)" "follows (hist s) (node_log s b)" using assms(3,4) by (auto simp: repl_inv_def)
  have "hist s (currentTerm (nodes (cl s) a)) = node_log s a" if "state (nodes (cl s) a) = Leader" using inv assms(3) that by (simp add: repl_inv_def)
  moreover have "take (Suc i) (node_log s b) = take (Suc i) (hist s (Term (node_log s b ! i)))" using f(2) assms(5) by (simp add: follows_def)
  ultimately show ?thesis using follows_match [OF f, of i] assms(5) by auto
qed

section \<open>Example\<close>

definition demo_repl :: "unit repl_cluster" where
  "demo_repl = \<lparr>cl = demo_cluster, msgs = {}, batches = {}, handling = {}, hist = (\<lambda>_. []), lead = (\<lambda>_. [])\<rparr>"

lemma demo_logs:
  "entries (rlog demo_candidate) = []" "rlog demo_voter = rlog (demo_node ''b'')" "rlog demo_candidate = rlog (demo_node ''a'')"
  "entries (rlog demo_leader) = [\<lparr>Index = 1, Term = 1, Type = EntryNoop, Command = []\<rparr>]" "state demo_candidate = Candidate" "state demo_voter = Follower"
  by (simp_all add: demo_leader_defs demo_voter_def handleRequestVote_eq demo_request_def leader_alive_def log_up_to_date_def LastTerm_def)

definition demo_noop :: LogEntry where
  "demo_noop = \<lparr>Index = 1, Term = 1, Type = EntryNoop, Command = []\<rparr>"

lemma demo_sent: "replicateTo_request 1 demo_leader = ReplSend 1 (demo_append 1 ''a'' [demo_noop] 0)"
  by (simp add: demo_leader_defs demo_append_def demo_noop_def replicateTo_request_def clip_next_def limit_entries_def GetEntriesFrom_def TermAt_def termAtLocked_def)

lemma demo_received:
  "\<exists>r resp. processAppendEntries (\<lambda>_. []) None None False 0 [] (Some (demo_append 1 ''a'' [demo_noop] 0)) demo_voter = (r, resp, None) \<and> entries (rlog r) = [demo_noop]"
  by (simp add: demo_voter_def handleRequestVote_eq demo_request_def leader_alive_def log_up_to_date_def LastTerm_def demo_noop_def demo_eval)

lemma demo_repl_elected:
  "\<exists>s. (repl_step demo_peers)\<^sup>*\<^sup>* demo_repl s \<and> nodes (cl s) = demo_node(''a'' := demo_leader, ''b'' := demo_voter)"
proof -
  obtain s1 s2 s3 where s: "cluster_step demo_peers demo_cluster s1" "cluster_step demo_peers s1 s2" "cluster_step demo_peers s2 s3"
    and n: "nodes s1 = demo_node(''a'' := demo_candidate)" "nodes s2 = demo_node(''a'' := demo_candidate, ''b'' := demo_voter)"
      "nodes s3 = demo_node(''a'' := demo_leader, ''b'' := demo_voter)"
    using demo_steps by blast
  have st: "state (demo_node m) = Follower" for m by (simp add: demo_defs)
  have mem: "''a'' \<in> members demo_peers" by (simp add: members_def demo_peers_def)
  have c0: "nodes demo_cluster = demo_node" by (simp add: demo_cluster_def)
  let ?r1 = "demo_repl\<lparr>cl := s1\<rparr>" and ?r2 = "demo_repl\<lparr>cl := s2\<rparr>"
  have 1: "repl_step demo_peers demo_repl ?r1"
    by (rule internal) (use s(1) n(1) c0 in \<open>auto simp: demo_repl_def same_log_def demo_logs st split: if_splits\<close>)
  have "repl_step demo_peers ?r1 (?r1\<lparr>cl := s2\<rparr>)"
    by (rule internal) (use s(2) n(1,2) in \<open>auto simp: same_log_def demo_logs st split: if_splits\<close>)
  then have 2: "repl_step demo_peers ?r1 ?r2" by simp
  let ?t = "currentTerm (nodes s3 ''a'')"
  let ?r3 = "?r2\<lparr>cl := s3, hist := (hist ?r2)(?t := entries (rlog (nodes s3 ''a''))), lead := (repl_cluster.lead ?r2)(?t := ''a'')\<rparr>"
  have "LastIndex (rlog demo_candidate) = 0" by (simp add: demo_logs(3) demo_defs LastIndex_def)
  then have 3: "repl_step demo_peers ?r2 ?r3"
    by (intro repl_step.lead [OF _ mem]) (use s(3) n(2,3) in \<open>simp_all add: demo_logs demo_leader_fields\<close>)
  have "(repl_step demo_peers)\<^sup>*\<^sup>* demo_repl ?r3" using 1 2 3 by (meson converse_rtranclp_into_rtranclp rtranclp.rtrancl_refl)
  then show ?thesis using n(3) by (intro exI [of _ ?r3]) simp
qed

lemma demo_repl_run:
  "\<exists>s. (repl_step demo_peers)\<^sup>*\<^sup>* demo_repl s \<and> node_log s ''a'' = [demo_noop] \<and> node_log s ''b'' = [demo_noop]"
proof -
  obtain s where s: "(repl_step demo_peers)\<^sup>*\<^sup>* demo_repl s" and n: "nodes (cl s) = demo_node(''a'' := demo_leader, ''b'' := demo_voter)"
    using demo_repl_elected by blast
  have mem: "''a'' \<in> members demo_peers" "''b'' \<in> members demo_peers" by (simp_all add: members_def demo_peers_def)
  let ?s1 = "s\<lparr>msgs := insert (demo_append 1 ''a'' [demo_noop] 0) (msgs s)\<rparr>"
  have 1: "repl_step demo_peers s ?s1" by (rule sends [OF mem(1), of 1 _ 1]) (use n demo_sent in simp)
  obtain r resp where r: "processAppendEntries (\<lambda>_. []) None None False 0 [] (Some (demo_append 1 ''a'' [demo_noop] 0)) demo_voter = (r, resp, None)" "entries (rlog r) = [demo_noop]"
    using demo_received by blast
  let ?s2 = "?s1\<lparr>cl := put_node ''b'' r (cl ?s1)\<rparr>"
  have 2: "repl_step demo_peers ?s1 ?s2" by (rule receives [OF mem(2), of "demo_append 1 ''a'' [demo_noop] 0"]) (use n r(1) in simp_all)
  have "(repl_step demo_peers)\<^sup>*\<^sup>* demo_repl ?s2" using s 1 2 by (meson rtranclp.rtrancl_into_rtrancl)
  moreover have "node_log ?s2 ''a'' = [demo_noop] \<and> node_log ?s2 ''b'' = [demo_noop]" using n r(2) demo_logs(4) by (simp add: demo_noop_def)
  ultimately show ?thesis by blast
qed

lemma demo_repl_init: "repl_init demo_peers demo_repl"
  using demo_init by (simp add: repl_init_def demo_repl_def) (simp add: demo_defs log_wf_def)

theorem log_matching_witness:
  "\<exists>s. (repl_step demo_peers)\<^sup>*\<^sup>* demo_repl s \<and> 0 < length (node_log s ''b'') \<and> take 1 (node_log s ''a'') = take 1 (node_log s ''b'')"
proof -
  obtain s where s: "(repl_step demo_peers)\<^sup>*\<^sup>* demo_repl s" "node_log s ''a'' = [demo_noop]" "node_log s ''b'' = [demo_noop]" using demo_repl_run by blast
  have m: "''a'' \<in> members demo_peers" "''b'' \<in> members demo_peers" by (simp_all add: members_def demo_peers_def)
  show ?thesis using log_matching [OF demo_repl_init s(1) m, of 0] s by (intro exI [of _ s]) simp
qed

end
