(* ===== verification/LeaderCompleteness.thy ===== *)
theory LeaderCompleteness
  imports LogMatching
begin

text \<open>
  What a leader has committed, every later leader has. The steps are those of \<open>LogMatching\<close>, with
  the successful answers of the followers recorded, since a leader counts them.
\<close>

section \<open>Prefixes of histories\<close>

text \<open>The entry at index \<open>i\<close> of the history of term \<open>t\<close> is of that term: only such entries are committed by counting.\<close>

definition own :: "(uint64 \<Rightarrow> LogEntry list) \<Rightarrow> uint64 \<Rightarrow> nat \<Rightarrow> bool" where
  "own H t i \<longleftrightarrow> 0 < i \<and> i \<le> length (H t) \<and> Term (H t ! (i - 1)) = t"

definition has :: "(uint64 \<Rightarrow> LogEntry list) \<Rightarrow> uint64 \<Rightarrow> nat \<Rightarrow> LogEntry list \<Rightarrow> bool" where
  "has H t i L \<longleftrightarrow> i \<le> length L \<and> take i L = take i (H t)"

definition extends :: "(uint64 \<Rightarrow> LogEntry list) \<Rightarrow> (uint64 \<Rightarrow> LogEntry list) \<Rightarrow> bool" where
  "extends H H' \<longleftrightarrow> (\<forall>t. \<exists>es. H' t = H t @ es)"

definition terms_sorted :: "LogEntry list \<Rightarrow> bool" where
  "terms_sorted L \<longleftrightarrow> sorted (map Term L)"

lemma terms_sorted_nth: "terms_sorted L \<Longrightarrow> i \<le> j \<Longrightarrow> j < length L \<Longrightarrow> Term (L ! i) \<le> Term (L ! j)"
  by (simp add: terms_sorted_def sorted_iff_nth_mono)

lemma extends_refl [simp]: "extends H H"
  by (auto simp: extends_def)

lemma extends_take: "extends H H' \<Longrightarrow> i \<le> length (H t) \<Longrightarrow> take i (H' t) = take i (H t)"
  by (metis append_Nil2 diff_is_0_eq' extends_def take_append take_eq_Nil)

lemma extends_nth: "extends H H' \<Longrightarrow> i < length (H t) \<Longrightarrow> H' t ! i = H t ! i"
  by (metis extends_def nth_append)

lemma extends_length: "extends H H' \<Longrightarrow> length (H t) \<le> length (H' t)"
  by (metis extends_def length_append le_add1)

lemma extends_nonempty: "extends H H' \<Longrightarrow> H t \<noteq> [] \<Longrightarrow> H' t \<noteq> []"
  using extends_length [of H H' t] by auto

lemma own_extends: "extends H H' \<Longrightarrow> own H t i \<Longrightarrow> own H' t i"
  using extends_length [of H H' t] extends_nth [of H H' "i - 1" t] by (cases i) (auto simp: own_def)

lemma own_old: "extends H H' \<Longrightarrow> own H' t i \<Longrightarrow> i \<le> length (H t) \<Longrightarrow> own H t i"
  using extends_nth [of H H' "i - 1" t] by (cases i) (auto simp: own_def)

lemma has_mono: "has H t j L \<Longrightarrow> i \<le> j \<Longrightarrow> has H t i L"
  unfolding has_def by (metis min.absorb1 order_trans take_take)

lemma has_extends: "extends H H' \<Longrightarrow> own H t i \<Longrightarrow> has H t i L \<Longrightarrow> has H' t i L"
  using extends_take [of H H' i t] by (simp add: has_def own_def)

lemma has_append: "has H t i L \<Longrightarrow> has H t i (L @ es)"
  by (simp add: has_def)

lemma has_grown: "extends H H' \<Longrightarrow> has H' t i (H u) \<Longrightarrow> has H' t i (H' u)"
  using extends_take [of H H' i u] extends_length [of H H' u] by (auto simp: has_def)

lemma has_term: "own H t i \<Longrightarrow> has H t i L \<Longrightarrow> Term (L ! (i - 1)) = t"
proof -
  assume a: "own H t i" "has H t i L"
  then have "take i L ! (i - 1) = take i (H t) ! (i - 1)" by (simp add: has_def)
  then show ?thesis using a by (simp add: own_def)
qed

lemma follows_terms_sorted:
  assumes "follows H L" "\<And>t. terms_sorted (H t)"
  shows "terms_sorted L"
  unfolding terms_sorted_def sorted_iff_nth_mono
proof (intro allI impI)
  fix i j
  assume ij: "i \<le> j" "j < length (map Term L)"
  let ?h = "H (Term (L ! j))"
  have f: "j < length ?h" "take (Suc j) L = take (Suc j) ?h" using assms(1) ij(2) by (auto simp: follows_def)
  have "L ! i = ?h ! i" "L ! j = ?h ! j" using f(2) ij nth_take [of i "Suc j" L] nth_take [of i "Suc j" ?h] nth_take [of j "Suc j" L] nth_take [of j "Suc j" ?h] by simp_all
  moreover have "Term (?h ! i) \<le> Term (?h ! j)"
    using assms(2) [of "Term (L ! j)"] ij f(1) by (auto simp: terms_sorted_def sorted_iff_nth_mono)
  ultimately show "map Term L ! i \<le> map Term L ! j" using ij by simp
qed

text \<open>A log that follows the histories is a prefix of the history of its last term.\<close>

lemma follows_last: "follows H L \<Longrightarrow> L \<noteq> [] \<Longrightarrow> length L \<le> length (H (Term (last L))) \<and> L = take (length L) (H (Term (last L)))"
proof -
  assume a: "follows H L" "L \<noteq> []"
  then have i: "length L - 1 < length L" "Suc (length L - 1) = length L" "L ! (length L - 1) = last L" by (auto simp: last_conv_nth)
  then show ?thesis using a(1) unfolding follows_def by (metis Suc_leI take_all_iff order_refl)
qed

lemma follows_last_take: "follows H L \<Longrightarrow> L \<noteq> [] \<Longrightarrow> i \<le> length L \<Longrightarrow> take i L = take i (H (Term (last L)))"
proof -
  assume a: "follows H L" "L \<noteq> []" "i \<le> length L"
  have "take i L = take i (take (length L) (H (Term (last L))))" by (rule arg_cong [OF conjunct2 [OF follows_last [OF a(1,2)]]])
  then show ?thesis using a(3) by (simp add: min_def)
qed

section \<open>What a message does to a log\<close>

text \<open>The part of the log that agrees with the sender stays.\<close>

lemma ae_entries_keeps:
  assumes "log_wf l" "baseIndex l = 0" "ae_entries marshal pf af es l = (l', res)"
    and "es = take k (drop p h)" "contiguous p es" "i \<le> length h" "i \<le> length (entries l)" "take i (entries l) = take i h" "p \<le> length (entries l)"
  shows "i \<le> length (entries l') \<and> take i (entries l') = take i (entries l)"
  using assms(3-5,9)
proof (induction es arbitrary: p k)
  case (Cons e es)
  have pe: "p < length h" "e = h ! p" "es = take (k - 1) (drop (Suc p) h)"
  proof -
    show "p < length h" using Cons.prems(2) by (cases "p < length h") simp_all
    then have "drop p h = h ! p # drop (Suc p) h" by (simp add: Cons_nth_drop_Suc)
    then show "e = h ! p" "es = take (k - 1) (drop (Suc p) h)" using Cons.prems(2) by (cases k; simp)+
  qed
  have ie: "Index e = Suc p" "contiguous (Suc p) es" using Cons.prems(3) by (simp_all add: contiguous_Cons)
  have ta: "TermAt (Index e) l = (if p < length (entries l) then Inr (Term (entries l ! p)) else Inl ErrOutOfRange)"
    using TermAt_above [of l p] assms(2) ie(1) by simp
  have grown: "i \<le> length (entries l2) \<and> take i (entries l2) = take i (entries l)"
    if "Append marshal af (e # es) l1 = (l2, x)" "i \<le> length (entries l1)" "take i (entries l1) = take i (entries l)" for l1 l2 x
    using that Append_ok [of marshal af "e # es" l1 l2] Append_error [of marshal af "e # es" l1 l2] by (cases x) auto
  show ?case
  proof (cases "p < length (entries l)")
    case inside: True
    show ?thesis
    proof (cases "Term (entries l ! p) = Term e")
      case True
      then show ?thesis using Cons.IH [of "k - 1" "Suc p"] Cons.prems(1) pe(3) ie(2) inside ta by simp
    next
      case False
      have "i \<le> p"
      proof (rule ccontr)
        assume "\<not> i \<le> p"
        then have "entries l ! p = h ! p" using assms(8) nth_take [of p i "entries l"] nth_take [of p i h] by simp
        then show False using False pe(2) by simp
      qed
      obtain l1 x where t: "TruncateAfter marshal pf (Index e - 1) l = (l1, x)" by fastforce
      have l1: "i \<le> length (entries l1) \<and> take i (entries l1) = take i (entries l)"
      proof (cases x)
        case None
        then show ?thesis using TruncateAfter_ok [OF assms(1) t [unfolded None]] assms(2) ie(1) \<open>i \<le> p\<close> inside by simp
      next
        case (Some er)
        then show ?thesis using TruncateAfter_error [OF t [unfolded Some]] assms(7) by simp
      qed
      have "l' = l1 \<or> (\<exists>x. Append marshal af (e # es) l1 = (l', x))"
        using Cons.prems(1) ta inside False t by (auto split: option.splits prod.splits)
      then show ?thesis using l1 grown by blast
    qed
  next
    case False
    then have "\<exists>x. Append marshal af (e # es) l = (l', x)" using Cons.prems(1) ta by (auto split: option.splits prod.splits)
    then show ?thesis using grown assms(7) by blast
  qed
qed (use assms(7) in simp)

text \<open>After a success the log agrees with the sender up to the last entry sent.\<close>

lemma ae_entries_holds:
  assumes "log_wf l" "baseIndex l = 0" "follows H (entries l)" "follows H h" "ae_entries marshal pf af es l = (l', EntriesApplied)"
    and "es = take k (drop p h)" "contiguous p es" "p \<le> length (entries l)" "p \<le> length h" "take p (entries l) = take p h"
  shows "p + length es \<le> length (entries l') \<and> take (p + length es) (entries l') = take (p + length es) h"
  using assms(5-)
proof (induction es arbitrary: p k)
  case (Cons e es)
  have pe: "p < length h" "e = h ! p" "es = take (k - 1) (drop (Suc p) h)"
  proof -
    show "p < length h" using Cons.prems(2) by (cases "p < length h") simp_all
    then have "drop p h = h ! p # drop (Suc p) h" by (simp add: Cons_nth_drop_Suc)
    then show "e = h ! p" "es = take (k - 1) (drop (Suc p) h)" using Cons.prems(2) by (cases k; simp)+
  qed
  have ie: "Index e = Suc p" "contiguous (Suc p) es" using Cons.prems(3) by (simp_all add: contiguous_Cons)
  have ta: "TermAt (Index e) l = (if p < length (entries l) then Inr (Term (entries l ! p)) else Inl ErrOutOfRange)"
    using TermAt_above [of l p] assms(2) ie(1) by simp
  have whole: "take p h @ e # es = take (p + length (e # es)) h"
  proof -
    have "take (length (e # es)) (drop p h) = e # es" unfolding Cons.prems(2) by (simp add: min_def)
    then show ?thesis using take_add [of p "length (e # es)" h] by simp
  qed
  have fresh: ?case if el: "entries l' = take p (entries l) @ e # es"
  proof -
    have "length (entries l') = p + length (e # es)" unfolding el using Cons.prems(4) by simp
    moreover have "entries l' = take (p + length (e # es)) h" unfolding el Cons.prems(6) by (rule whole)
    ultimately show ?case by (metis order_refl take_all_iff)
  qed
  show ?case
  proof (cases "p < length (entries l)")
    case inside: True
    show ?thesis
    proof (cases "Term (entries l ! p) = Term e")
      case True
      have "take (Suc p) (entries l) = take (Suc p) h" using follows_match [OF assms(3,4) inside pe(1)] True pe(2) by simp
      then show ?thesis using Cons.IH [of "k - 1" "Suc p"] Cons.prems(1) pe(1,3) ie(2) inside ta True by simp
    next
      case False
      then obtain l1 where l1: "TruncateAfter marshal pf (Index e - 1) l = (l1, None)" "Append marshal af (e # es) l1 = (l', None)"
        using Cons.prems(1) ta inside by (auto split: option.splits prod.splits)
      show ?thesis by (rule fresh) (use TruncateAfter_ok [OF assms(1) l1(1)] Append_ok [OF l1(2)] assms(2) ie(1) in simp)
    qed
  next
    case False
    then have "Append marshal af (e # es) l = (l', None)" using Cons.prems(1) ta by (auto split: option.splits prod.splits)
    from Append_ok [OF this] show ?thesis by (intro fresh) (use False Cons.prems(4) in simp)
  qed
qed simp

section \<open>States and steps\<close>

text \<open>\<open>replied\<close> holds the successful answers with their requests; only \<open>lc_answer\<close> reads it.\<close>

record 'sm lc_cluster =
  rc :: "'sm repl_cluster"
  replied :: "(string \<times> AppendEntriesRequest) set"

abbreviation node :: "'sm lc_cluster \<Rightarrow> string \<Rightarrow> 'sm RaftNode" where
  "node s n \<equiv> nodes (cl (rc s)) n"

abbreviation hst :: "'sm lc_cluster \<Rightarrow> uint64 \<Rightarrow> LogEntry list" where
  "hst s \<equiv> hist (rc s)"

abbreviation lg :: "'sm lc_cluster \<Rightarrow> string \<Rightarrow> LogEntry list" where
  "lg s n \<equiv> entries (rlog (node s n))"

inductive lc_step :: "peers \<Rightarrow> 'sm lc_cluster \<Rightarrow> 'sm lc_cluster \<Rightarrow> bool" for c :: peers where
  lc_internal: "cluster_step c (cl (rc s)) k \<Longrightarrow> \<forall>n. same_log (node s n) (nodes k n) \<Longrightarrow>
     \<forall>n \<in> members c. state (nodes k n) = Leader \<longrightarrow> state (node s n) = Leader \<and> matchIndex (nodes k n) = matchIndex (node s n) \<and>
        commitIndex (nodes k n) \<le> commitIndex (node s n) \<Longrightarrow>
     lc_step c s (s\<lparr>rc := (rc s)\<lparr>cl := k\<rparr>\<rparr>)"
| lc_lead: "cluster_step c (cl (rc s)) k \<Longrightarrow> n \<in> members c \<Longrightarrow> state (node s n) \<noteq> Leader \<Longrightarrow> state (nodes k n) = Leader \<Longrightarrow>
     LastIndex (rlog (node s n)) + 1 < 2 ^ 64 \<Longrightarrow>
     lc_step c s (s\<lparr>rc := (rc s)\<lparr>cl := k, hist := (hst s)(currentTerm (nodes k n) := entries (rlog (nodes k n))),
       lead := (repl_cluster.lead (rc s))(currentTerm (nodes k n) := n)\<rparr>\<rparr>)"
| lc_flush: "n \<in> members c \<Longrightarrow> state (node s n) = Leader \<Longrightarrow> flush marshal af batch (node s n) = r' \<Longrightarrow>
     LastIndex (rlog (node s n)) + length batch < 2 ^ 64 \<Longrightarrow>
     lc_step c s (s\<lparr>rc := (rc s)\<lparr>cl := put_node n r' (cl (rc s)), hist := (hst s)(currentTerm (node s n) := entries (rlog r'))\<rparr>\<rparr>)"
| lc_propose: "n \<in> members c \<Longrightarrow> state (node s n) = Leader \<Longrightarrow>
     ProposeMembershipChange marshal mjson af change (node s n) = (r', err) \<Longrightarrow> LastIndex (rlog (node s n)) + 1 < 2 ^ 64 \<Longrightarrow>
     lc_step c s (s\<lparr>rc := (rc s)\<lparr>cl := put_node n r' (cl (rc s)), hist := (hst s)(currentTerm (node s n) := entries (rlog r'))\<rparr>\<rparr>)"
| lc_send: "n \<in> members c \<Longrightarrow> replicateTo_request ni (node s n) = ReplSend nx req \<Longrightarrow>
     lc_step c s (s\<lparr>rc := (rc s)\<lparr>msgs := insert req (msgs (rc s))\<rparr>\<rparr>)"
| lc_beat: "n \<in> members c \<Longrightarrow> state (node s n) = Leader \<Longrightarrow>
     lc_step c s (s\<lparr>rc := (rc s)\<lparr>msgs := insert (heartbeat_request (node s n)) (msgs (rc s))\<rparr>\<rparr>)"
| lc_receive: "p \<in> members c \<Longrightarrow> req \<in> msgs (rc s) \<Longrightarrow>
     processAppendEntries marshal pf af sf now order (Some req) (node s p) = (r', resp, err') \<Longrightarrow>
     lc_step c s (s\<lparr>rc := (rc s)\<lparr>cl := put_node p r' (cl (rc s))\<rparr>,
       replied := (if aer_Success resp then insert (p, req) (replied s) else replied s)\<rparr>)"
| lc_answer: "n \<in> members c \<Longrightarrow> (p, req) \<in> replied s \<Longrightarrow> p \<noteq> n \<Longrightarrow>
     replicateTo_response sf now order p ni req resp (node s n) = (r', next') \<Longrightarrow>
     lc_step c s (s\<lparr>rc := (rc s)\<lparr>cl := put_node n r' (cl (rc s))\<rparr>\<rparr>)"
| lc_finish: "n \<in> members c \<Longrightarrow> ProposeMembershipChange_finish (node s n) = r' \<Longrightarrow>
     lc_step c s (s\<lparr>rc := (rc s)\<lparr>cl := put_node n r' (cl (rc s))\<rparr>\<rparr>)"
| lc_flush_begin: "n \<in> members c \<Longrightarrow> state (node s n) = Leader \<Longrightarrow>
     lc_step c s (s\<lparr>rc := (rc s)\<lparr>batches := insert (n, currentTerm (node s n), flush_entries batch (node s n)) (batches (rc s))\<rparr>\<rparr>)"
| lc_flush_write: "(n, t, es) \<in> batches (rc s) \<Longrightarrow> n \<in> members c \<Longrightarrow> state (node s n) = Leader \<Longrightarrow> currentTerm (node s n) = t \<Longrightarrow>
     Append marshal af es (rlog (node s n)) = (l, err) \<Longrightarrow> LastIndex (rlog (node s n)) + length es < 2 ^ 64 \<Longrightarrow>
     lc_step c s (s\<lparr>rc := (rc s)\<lparr>cl := put_node n ((node s n)\<lparr>rlog := l\<rparr>) (cl (rc s)), hist := (hst s)(t := entries l)\<rparr>\<rparr>)"
| lc_flush_end: "n \<in> members c \<Longrightarrow> flush_finish es batch err (node s n) = r' \<Longrightarrow>
     lc_step c s (s\<lparr>rc := (rc s)\<lparr>cl := put_node n r' (cl (rc s))\<rparr>\<rparr>)"
| lc_receive_begin: "p \<in> members c \<Longrightarrow> req \<in> msgs (rc s) \<Longrightarrow> ae_checks (Some req) (node s p) = Inr req' \<Longrightarrow>
     currentTerm (node s p) < ae_Term req \<or> state (node s p) \<noteq> Follower \<Longrightarrow> stepDown_begin now (ae_Term req) (node s p) = r' \<Longrightarrow>
     lc_step c s (s\<lparr>rc := (rc s)\<lparr>cl := (put_node p r' (cl (rc s)))\<lparr>saves := insert (p, currentTerm r', votedFor r') (saves (cl (rc s)))\<rparr>,
       handling := insert (p, req) (handling (rc s))\<rparr>\<rparr>)"
| lc_receive_resume: "(p, req) \<in> handling (rc s) \<Longrightarrow> currentTerm (node s p) = ae_Term req \<Longrightarrow>
     ae_resume marshal pf af now req (node s p) = (r', resp, err') \<Longrightarrow>
     lc_step c s (s\<lparr>rc := (rc s)\<lparr>cl := put_node p r' (cl (rc s))\<rparr>,
       replied := (if aer_Success resp then insert (p, req) (replied s) else replied s)\<rparr>)"

definition lc_init :: "peers \<Rightarrow> 'sm lc_cluster \<Rightarrow> bool" where
  "lc_init c s \<longleftrightarrow> repl_init c (rc s) \<and> replied s = {}"

text \<open>Every step is one of log replication, and one of the cluster or none.\<close>

lemma replicateTo_response_frame:
  "replicateTo_response sf now order p ni req resp r = (r', x) \<Longrightarrow>
     rlog r' = rlog r \<and> clusterConfig r' = clusterConfig r \<and> (state r' = Leader \<longrightarrow> state r = Leader)"
  by (auto simp: replicateTo_response_def record_match_def Let_def split: if_splits)

lemma repl_cluster_step:
  assumes "repl_step c s s'" "repl_inv c s"
  shows "cluster_step c (cl s) (cl s') \<or> cl s' = cl s"
  using assms(1)
proof cases
  case (flushes n marshal af batch r')
  have wf: "log_wf (rlog (nodes (cl s) n))" "clusterConfig (nodes (cl s) n) = c"
    using assms(2) flushes(2) by (auto simp: repl_inv_def election_inv_def nodes_ok_def)
  have "cluster_step c (cl s) (put_node n r' (cl s))"
    using quiet [OF flushes(2) quiet_flush [OF flushes(4)]] flush_appended [OF wf(1) flushes(3-5)] wf(2) by simp
  then show ?thesis using flushes(1) by simp
next
  case (proposes n marshal mjson af change r' err)
  have wf: "log_wf (rlog (nodes (cl s) n))" "clusterConfig (nodes (cl s) n) = c"
    using assms(2) proposes(2) by (auto simp: repl_inv_def election_inv_def nodes_ok_def)
  have "cluster_step c (cl s) (put_node n r' (cl s))"
    using quiet [OF proposes(2) quiet_propose [OF proposes(4)]] propose_appended [OF wf(1) proposes(3-5)] wf(2) by simp
  then show ?thesis using proposes(1) by simp
next
  case (receives p req marshal pf af sf now order r' resp err')
  then show ?thesis using assms(2) received_step [OF _ receives(2,4)] by (simp add: repl_inv_def)
next
  case (flush_writes n t es marshal af l err)
  have "election_inv c (cl s)" using assms(2) by (simp add: repl_inv_def)
  from written_step [OF this flush_writes(3), of l] show ?thesis using flush_writes(1) by simp
next
  case (receive_begins p req req' now r')
  then show ?thesis using step_down [OF receive_begins(2,6)] by simp
next
  case (receive_resumes p req marshal pf af now r' resp err')
  have "election_inv c (cl s)" "p \<in> members c" using assms(2) receive_resumes(2) unfolding repl_inv_def busy_def by blast+
  then show ?thesis using resumed_step [OF _ _ receive_resumes(4)] receive_resumes(1) by simp
qed simp_all

text \<open>Pieces of handlers that change neither a log nor what a leader knows of the others.\<close>

lemma piece_repl:
  assumes "repl_inv c (rc s)" "n \<in> members c" "quiet_step (node s n) r'" "rlog r' = rlog (node s n)" "clusterConfig r' = clusterConfig (node s n)"
    "state r' = Leader \<longrightarrow> state (node s n) = Leader"
  shows "repl_step c (rc s) ((rc s)\<lparr>cl := put_node n r' (cl (rc s))\<rparr>)"
proof -
  have "clusterConfig r' = c" using assms(1,2,5) by (simp add: repl_inv_def election_inv_def nodes_ok_def)
  then have k: "cluster_step c (cl (rc s)) (put_node n r' (cl (rc s)))" using quiet [OF assms(2,3)] by simp
  show ?thesis by (rule repl_step.internal [OF k]) (use assms(4,6) in \<open>auto simp: same_log_def\<close>)
qed

lemma flush_finish_frame:
  "matchIndex (flush_finish es batch err r) = matchIndex r \<and> currentTerm (flush_finish es batch err r) = currentTerm r \<and>
     (state (flush_finish es batch err r) = Leader \<longrightarrow> state r = Leader)"
  by (cases err; cases "state r = Leader") (auto simp: flush_finish_def answer_all_def markStorageFailureLocked_def markFatalLocked_def Let_def)

lemma lc_repl:
  assumes "lc_step c s s'" "repl_inv c (rc s)"
  shows "repl_step c (rc s) (rc s')"
  using assms(1)
proof cases
  case (lc_answer n p req sf now order ni resp r' next')
  have "repl_step c (rc s) ((rc s)\<lparr>cl := put_node n r' (cl (rc s))\<rparr>)"
    by (rule piece_repl [OF assms(2) lc_answer(2) quiet_replicate [OF lc_answer(5)]]) (use replicateTo_response_frame [OF lc_answer(5)] in auto)
  then show ?thesis using lc_answer(1) by simp
next
  case (lc_finish n r')
  have "repl_step c (rc s) ((rc s)\<lparr>cl := put_node n r' (cl (rc s))\<rparr>)"
    by (rule piece_repl [OF assms(2) lc_finish(2) quiet_finish [OF lc_finish(3)]]) (use lc_finish(3) in \<open>auto simp: ProposeMembershipChange_finish_def\<close>)
  then show ?thesis using lc_finish(1) by simp
next
  case (lc_flush_end n es batch err r')
  have "repl_step c (rc s) ((rc s)\<lparr>cl := put_node n r' (cl (rc s))\<rparr>)"
    by (rule piece_repl [OF assms(2) lc_flush_end(2) quiet_flushed [OF lc_flush_end(3)]]) (use lc_flush_end(3) flush_finish_frame [of es batch err "node s n"] in auto)
  then show ?thesis using lc_flush_end(1) by simp
qed (auto intro: repl_step.intros)

section \<open>Acknowledged entries\<close>

text \<open>
  Node \<open>p\<close> has told the leader of term \<open>t\<close> that its log agrees up to index \<open>i\<close>, or is that leader. An
  index is blocked when a quorum has left the term without having said so: it can no longer be
  committed in that term.
\<close>

definition reach :: "AppendEntriesRequest \<Rightarrow> nat" where
  "reach req = ae_PrevLogIndex req + length (ae_Entries req)"

definition acked :: "'sm lc_cluster \<Rightarrow> string \<Rightarrow> uint64 \<Rightarrow> nat \<Rightarrow> bool" where
  "acked s p t i \<longleftrightarrow>
     (\<exists>req. (p, req) \<in> replied s \<and> ae_Term req = t \<and> i \<le> reach req) \<or>
     (hst s t \<noteq> [] \<and> repl_cluster.lead (rc s) t = p \<and> i \<le> length (hst s t))"

definition blocked :: "peers \<Rightarrow> 'sm lc_cluster \<Rightarrow> uint64 \<Rightarrow> nat \<Rightarrow> bool" where
  "blocked c s t i \<longleftrightarrow> (\<exists>Q. is_quorum c Q \<and> (\<forall>q \<in> Q. t < currentTerm (node s q) \<and> \<not> acked s q t i))"

definition safe :: "peers \<Rightarrow> 'sm lc_cluster \<Rightarrow> uint64 \<Rightarrow> nat \<Rightarrow> LogEntry list \<Rightarrow> bool" where
  "safe c s t i L \<longleftrightarrow> blocked c s t i \<or> has (hst s) t i L"

text \<open>The log with which a candidate asks for votes, from what its request says of it.\<close>

definition candidate_log :: "(uint64 \<Rightarrow> LogEntry list) \<Rightarrow> RequestVoteRequest \<Rightarrow> LogEntry list" where
  "candidate_log H req = take (rv_LastLogIndex req) (H (rv_LastLogTerm req))"

section \<open>The invariant\<close>

definition terms_ok :: "peers \<Rightarrow> 'sm lc_cluster \<Rightarrow> bool" where
  "terms_ok c s \<longleftrightarrow>
     (\<forall>t. terms_sorted (hst s t) \<and> (\<forall>e \<in> set (hst s t). Term e \<le> t)) \<and>
     (\<forall>n \<in> members c. \<forall>e \<in> set (lg s n). Term e \<le> currentTerm (node s n))"

definition replied_ok :: "peers \<Rightarrow> 'sm lc_cluster \<Rightarrow> bool" where
  "replied_ok c s \<longleftrightarrow> (\<forall>p req. (p, req) \<in> replied s \<longrightarrow> p \<in> members c \<and> message_ok (hst s) req \<and> ae_Term req \<le> currentTerm (node s p))"

definition requests_ok :: "peers \<Rightarrow> 'sm lc_cluster \<Rightarrow> bool" where
  "requests_ok c s \<longleftrightarrow> (\<forall>n p req. (n, p, req) \<in> requests (cl (rc s)) \<longrightarrow>
     rv_Term req \<le> currentTerm (node s n) \<and>
     (rv_LastLogIndex req = 0 \<and> rv_LastLogTerm req = 0 \<or> own (hst s) (rv_LastLogTerm req) (rv_LastLogIndex req)) \<and>
     (state (node s n) = Candidate \<and> currentTerm (node s n) = rv_Term req \<longrightarrow> lg s n = candidate_log (hst s) req))"

definition match_ok :: "peers \<Rightarrow> 'sm lc_cluster \<Rightarrow> bool" where
  "match_ok c s \<longleftrightarrow> (\<forall>n \<in> members c. state (node s n) = Leader \<longrightarrow> (\<forall>p \<in> members c. p \<noteq> n \<longrightarrow>
     idx (matchIndex (node s n)) p = 0 \<or>
     (\<exists>req. (p, req) \<in> replied s \<and> ae_Term req = currentTerm (node s n) \<and> idx (matchIndex (node s n)) p \<le> reach req)))"

definition histories_safe :: "peers \<Rightarrow> 'sm lc_cluster \<Rightarrow> bool" where
  "histories_safe c s \<longleftrightarrow> (\<forall>t u i. own (hst s) t i \<longrightarrow> t < u \<longrightarrow> hst s u \<noteq> [] \<longrightarrow> safe c s t i (hst s u))"

definition logs_safe :: "peers \<Rightarrow> 'sm lc_cluster \<Rightarrow> bool" where
  "logs_safe c s \<longleftrightarrow> (\<forall>q \<in> members c. \<forall>t i. own (hst s) t i \<longrightarrow> acked s q t i \<longrightarrow> safe c s t i (lg s q))"

definition votes_safe :: "peers \<Rightarrow> 'sm lc_cluster \<Rightarrow> bool" where
  "votes_safe c s \<longleftrightarrow> (\<forall>q u n. (q, u, n) \<in> votes (cl (rc s)) \<longrightarrow> q \<noteq> n \<longrightarrow>
     (\<exists>p req. (n, p, req) \<in> requests (cl (rc s)) \<and> rv_Term req = u \<and>
        (\<forall>t i. t < u \<longrightarrow> own (hst s) t i \<longrightarrow> acked s q t i \<longrightarrow> safe c s t i (candidate_log (hst s) req))))"

definition lc_inv :: "peers \<Rightarrow> 'sm lc_cluster \<Rightarrow> bool" where
  "lc_inv c s \<longleftrightarrow> repl_inv c (rc s) \<and> terms_ok c s \<and> replied_ok c s \<and> requests_ok c s \<and> match_ok c s \<and>
     histories_safe c s \<and> logs_safe c s \<and> votes_safe c s"

lemma repl_inv_parts:
  assumes "repl_inv c (rc s)"
  shows "election_inv c (cl (rc s))" "\<And>n. n \<in> members c \<Longrightarrow> log_wf (rlog (node s n))" "\<And>n. n \<in> members c \<Longrightarrow> baseIndex (rlog (node s n)) = 0"
    "\<And>n. n \<in> members c \<Longrightarrow> follows (hst s) (lg s n)" "\<And>t. follows (hst s) (hst s t)"
    "\<And>n. n \<in> members c \<Longrightarrow> state (node s n) = Leader \<Longrightarrow> hst s (currentTerm (node s n)) = lg s n"
    "\<And>n. n \<in> members c \<Longrightarrow> state (node s n) = Leader \<Longrightarrow> lg s n \<noteq> []"
    "\<And>t. hst s t \<noteq> [] \<Longrightarrow> led c (cl (rc s)) t (repl_cluster.lead (rc s) t)"
    "\<And>req. req \<in> msgs (rc s) \<Longrightarrow> message_ok (hst s) req" "\<And>n t es e. (n, t, es) \<in> batches (rc s) \<Longrightarrow> e \<in> set es \<Longrightarrow> Term e = t"
    "\<And>p req. (p, req) \<in> handling (rc s) \<Longrightarrow> req \<in> msgs (rc s) \<and> busy c (cl (rc s)) p (ae_Term req)"
  using assms by (auto simp: repl_inv_def)

lemma lc_inv_parts:
  assumes "lc_inv c s"
  shows "repl_inv c (rc s)" "terms_ok c s" "replied_ok c s" "requests_ok c s" "match_ok c s" "histories_safe c s" "logs_safe c s" "votes_safe c s"
  using assms by (simp_all add: lc_inv_def)

lemma message_reach: "message_ok H req \<Longrightarrow> reach req \<le> length (H (ae_Term req))"
  by (auto simp: message_ok_def reach_def Let_def)

lemma acked_length: "replied_ok c s \<Longrightarrow> acked s q t i \<Longrightarrow> i \<le> length (hst s t)"
  using message_reach [of "hst s"] by (fastforce simp: acked_def replied_ok_def)

lemma acked_term: "repl_inv c (rc s) \<Longrightarrow> replied_ok c s \<Longrightarrow> acked s q t i \<Longrightarrow> t \<le> currentTerm (node s q)"
  using repl_inv_parts(8) [of c s t] by (auto simp: acked_def replied_ok_def led_def)

lemma voted_term: "repl_inv c (rc s) \<Longrightarrow> (q, u, n) \<in> votes (cl (rc s)) \<Longrightarrow> q \<in> members c \<and> u \<le> currentTerm (node s q)"
  using repl_inv_parts(1) [of c s] by (auto simp: election_inv_def votes_ok_def)

lemma lead_of_leader:
  assumes "repl_inv c (rc s)" "n \<in> members c" "state (node s n) = Leader"
  shows "repl_cluster.lead (rc s) (currentTerm (node s n)) = n"
proof -
  let ?t = "currentTerm (node s n)"
  have "hst s ?t \<noteq> []" using repl_inv_parts(6,7) [OF assms(1) assms(2,3)] by simp
  then have "led c (cl (rc s)) ?t (repl_cluster.lead (rc s) ?t)" "led c (cl (rc s)) ?t n"
    using repl_inv_parts(8) [OF assms(1)] led_leader [OF repl_inv_parts(1) [OF assms(1)] assms(2,3)] by auto
  then obtain Q R where "is_quorum c Q" "\<forall>p \<in> Q. (p, ?t, repl_cluster.lead (rc s) ?t) \<in> votes (cl (rc s))"
      "is_quorum c R" "\<forall>p \<in> R. (p, ?t, n) \<in> votes (cl (rc s))"
    unfolding led_def by blast
  then show ?thesis using single_winner [OF repl_inv_parts(1) [OF assms(1)]] by blast
qed

section \<open>Steps and safety\<close>

text \<open>Terms do not fall, histories only grow, and a node does not acknowledge anything of a term it has left.\<close>

definition grows :: "peers \<Rightarrow> 'sm lc_cluster \<Rightarrow> 'sm lc_cluster \<Rightarrow> bool" where
  "grows c s s' \<longleftrightarrow>
     extends (hst s) (hst s') \<and> (\<forall>q \<in> members c. currentTerm (node s q) \<le> currentTerm (node s' q)) \<and>
     (\<forall>q \<in> members c. \<forall>t i. t < currentTerm (node s q) \<longrightarrow> acked s' q t i \<longrightarrow> acked s q t i)"

text \<open>Entries that are new in a history are acknowledged only by nodes of that term that have them.\<close>

definition fresh_acks :: "peers \<Rightarrow> 'sm lc_cluster \<Rightarrow> 'sm lc_cluster \<Rightarrow> bool" where
  "fresh_acks c s s' \<longleftrightarrow> (\<forall>q \<in> members c. \<forall>t i. own (hst s') t i \<longrightarrow> \<not> own (hst s) t i \<longrightarrow> acked s' q t i \<longrightarrow>
     currentTerm (node s' q) = t \<and> has (hst s') t i (lg s' q))"

lemma blocked_grows:
  assumes "grows c s s'" "blocked c s t i"
  shows "blocked c s' t i"
proof -
  obtain Q where Q: "is_quorum c Q" "\<forall>q \<in> Q. t < currentTerm (node s q) \<and> \<not> acked s q t i" using assms(2) by (auto simp: blocked_def)
  have "t < currentTerm (node s' q) \<and> \<not> acked s' q t i" if "q \<in> Q" for q
  proof -
    have m: "q \<in> members c" "t < currentTerm (node s q)" "\<not> acked s q t i" using Q that by (auto simp: is_quorum_def)
    moreover have "currentTerm (node s q) \<le> currentTerm (node s' q)" "acked s' q t i \<longrightarrow> acked s q t i"
      using assms(1) m(1,2) by (auto simp: grows_def)
    ultimately show ?thesis by auto
  qed
  then show ?thesis using Q(1) unfolding blocked_def by blast
qed

lemma safe_grows: "grows c s s' \<Longrightarrow> own (hst s) t i \<Longrightarrow> safe c s t i L \<Longrightarrow> safe c s' t i L"
  using blocked_grows [of c s s' t i] has_extends [of "hst s" "hst s'" t i L] by (auto simp: safe_def grows_def)

lemma safe_append: "safe c s t i L \<Longrightarrow> safe c s t i (L @ es)"
  by (auto simp: safe_def has_append)

lemma histories_safe_step:
  assumes s: "histories_safe c s" "grows c s s'" "fresh_acks c s s'" "repl_inv c (rc s')"
    and new: "\<And>t u i. hst s u = [] \<Longrightarrow> hst s' u \<noteq> [] \<Longrightarrow> t < u \<Longrightarrow> own (hst s) t i \<Longrightarrow> safe c s' t i (hst s' u)"
  shows "histories_safe c s'"
  unfolding histories_safe_def
proof (intro allI impI)
  fix t u i
  assume a: "own (hst s') t i" "t < u" "hst s' u \<noteq> []"
  have e: "extends (hst s) (hst s')" using s(2) by (simp add: grows_def)
  show "safe c s' t i (hst s' u)"
  proof (cases "own (hst s) t i")
    case True
    show ?thesis
    proof (cases "hst s u = []")
      case False
      then have "safe c s' t i (hst s u)" using s(1) True a(2) safe_grows [OF s(2)] by (simp add: histories_safe_def)
      then show ?thesis using e unfolding safe_def extends_def by (metis has_append)
    qed (use new a True in blast)
  next
    case False
    obtain n Q where Q: "is_quorum c Q" "\<forall>q \<in> Q. (q, u, n) \<in> votes (cl (rc s'))" using repl_inv_parts(8) [OF s(4) a(3)] by (auto simp: led_def)
    have "t < currentTerm (node s' q) \<and> \<not> acked s' q t i" if "q \<in> Q" for q
    proof -
      have "q \<in> members c" "u \<le> currentTerm (node s' q)" using voted_term [OF s(4)] Q(2) that by blast+
      then show ?thesis using s(3) False a(1,2) unfolding fresh_acks_def by force
    qed
    then show ?thesis using Q(1) by (auto simp: safe_def blocked_def)
  qed
qed

lemma logs_safe_step:
  assumes s: "logs_safe c s" "grows c s s'" "fresh_acks c s s'"
    and keep: "\<And>q t i. q \<in> members c \<Longrightarrow> own (hst s) t i \<Longrightarrow> acked s q t i \<Longrightarrow> safe c s' t i (lg s q) \<Longrightarrow> safe c s' t i (lg s' q)"
    and new: "\<And>q t i. q \<in> members c \<Longrightarrow> own (hst s) t i \<Longrightarrow> \<not> acked s q t i \<Longrightarrow> acked s' q t i \<Longrightarrow> safe c s' t i (lg s' q)"
  shows "logs_safe c s'"
  unfolding logs_safe_def
proof (intro ballI allI impI)
  fix q t i
  assume a: "q \<in> members c" "own (hst s') t i" "acked s' q t i"
  show "safe c s' t i (lg s' q)"
  proof (cases "own (hst s) t i")
    case True
    then show ?thesis using s(1) keep [OF a(1) True] new [OF a(1) True _ a(3)] safe_grows [OF s(2) True] a(1) by (cases "acked s q t i") (auto simp: logs_safe_def)
  next
    case False
    then show ?thesis using s(3) a by (simp add: fresh_acks_def safe_def)
  qed
qed

text \<open>A voter grants its vote only to a candidate whose log is safe for everything the voter has acknowledged.\<close>

lemma up_to_date_safe:
  assumes i: "lc_inv c s" and q: "q \<in> members c" "(n, p, req) \<in> requests (cl (rc s))" "log_up_to_date req (rlog (node s q))"
    and a: "own (hst s) t i" "acked s q t i"
  shows "safe c s t i (candidate_log (hst s) req)"
proof (cases "blocked c s t i")
  case False
  let ?L = "lg s q" and ?H = "hst s" and ?lt = "rv_LastLogTerm req" and ?ix = "rv_LastLogIndex req"
  note p = lc_inv_parts [OF i] and r = repl_inv_parts [OF lc_inv_parts(1) [OF i]]
  have "safe c s t i ?L" using p(7) a q(1) unfolding logs_safe_def by blast
  then have h: "has ?H t i ?L" using False by (simp add: safe_def)
  have "0 < i" "i \<le> length ?L" using h a(1) unfolding has_def own_def by blast+
  then have L: "?L \<noteq> []" "0 < i" "i \<le> length ?L" by (cases ?L, simp_all)
  let ?T = "Term (last ?L)"
  have sorted: "terms_sorted (?H u)" for u using p(2) by (simp add: terms_ok_def)
  have "Term (?L ! (i - 1)) \<le> Term (?L ! (length ?L - 1))"
    by (rule terms_sorted_nth [OF follows_terms_sorted [OF r(4) [OF q(1)] sorted]]) (use L in simp_all)
  then have tT: "t \<le> ?T" using has_term [OF a(1) h] L(1) by (simp add: last_conv_nth)
  have utd: "?T < ?lt \<or> (?lt = ?T \<and> length ?L \<le> ?ix)"
    using q(3) LastIndex_eq [OF r(2) [OF q(1)]] r(3) [OF q(1)] L(1) by (simp add: log_up_to_date_def LastTerm_def)
  have "?ix = 0 \<and> ?lt = 0 \<or> own ?H ?lt ?ix" using p(4) q(2) unfolding requests_ok_def by blast
  then have "own ?H ?lt ?ix" using utd L(1) by (elim disjE) auto
  then have ixl: "0 < ?ix" "?ix \<le> length (?H ?lt)" "Term (?H ?lt ! (?ix - 1)) = ?lt" unfolding own_def by blast+
  from utd show ?thesis
  proof
    assume e: "?lt = ?T \<and> length ?L \<le> ?ix"
    have "take i ?L = take i (?H ?T)" by (rule follows_last_take [OF r(4) [OF q(1)] L(1,3)])
    then have "has ?H t i (candidate_log ?H req)" using h e L(3) ixl by (simp add: has_def candidate_log_def min_def)
    then show ?thesis by (simp add: safe_def)
  next
    assume lt: "?T < ?lt"
    have "?H ?lt \<noteq> []" using ixl by auto
    moreover have "t < ?lt" using tT lt by simp
    ultimately have "safe c s t i (?H ?lt)" using p(6) a(1) unfolding histories_safe_def by blast
    then have g: "has ?H t i (?H ?lt)" using False by (simp add: safe_def)
    have "i \<le> ?ix"
    proof (rule ccontr)
      assume "\<not> i \<le> ?ix"
      then have "Term (?H ?lt ! (?ix - 1)) \<le> Term (?H ?lt ! (i - 1))"
        by (intro terms_sorted_nth [OF sorted]) (use g L(2) in \<open>auto simp: has_def\<close>)
      then show False using has_term [OF a(1) g] ixl(3) tT lt by simp
    qed
    then have "has ?H t i (candidate_log ?H req)" using g ixl by (simp add: has_def candidate_log_def min_def)
    then show ?thesis by (simp add: safe_def)
  qed
qed (simp add: safe_def)

lemma candidate_log_extends:
  "extends H H' \<Longrightarrow> rv_LastLogIndex req = 0 \<or> own H (rv_LastLogTerm req) (rv_LastLogIndex req) \<Longrightarrow> candidate_log H' req = candidate_log H req"
  using extends_take [of H H' "rv_LastLogIndex req" "rv_LastLogTerm req"] by (auto simp: candidate_log_def own_def)

lemma votes_safe_step:
  assumes i: "lc_inv c s" and g: "grows c s s'" "fresh_acks c s s'" "repl_inv c (rc s')"
    and r: "requests (cl (rc s)) \<subseteq> requests (cl (rc s'))"
    and new: "\<And>q u n. (q, u, n) \<in> votes (cl (rc s')) \<Longrightarrow> (q, u, n) \<notin> votes (cl (rc s)) \<Longrightarrow> q \<noteq> n \<Longrightarrow>
      (\<exists>req. (n, q, req) \<in> requests (cl (rc s)) \<and> rv_Term req = u \<and> log_up_to_date req (rlog (node s q))) \<and> (\<forall>t i. acked s' q t i \<longrightarrow> acked s q t i)"
  shows "votes_safe c s'"
  unfolding votes_safe_def
proof (intro allI impI)
  fix q u n
  assume v: "(q, u, n) \<in> votes (cl (rc s'))" "q \<noteq> n"
  have q: "q \<in> members c" "u \<le> currentTerm (node s' q)" using voted_term [OF g(3) v(1)] by auto
  have e: "extends (hst s) (hst s')" using g(1) by (simp add: grows_def)
  have "\<exists>p req. (n, p, req) \<in> requests (cl (rc s)) \<and> rv_Term req = u \<and>
      (\<forall>t i. t < u \<longrightarrow> own (hst s) t i \<longrightarrow> acked s' q t i \<longrightarrow> safe c s t i (candidate_log (hst s) req))"
  proof (cases "(q, u, n) \<in> votes (cl (rc s))")
    case True
    have "u \<le> currentTerm (node s q)" using voted_term [OF lc_inv_parts(1) [OF i] True] by simp
    then have "acked s q t i" if "t < u" "acked s' q t i" for t i using g(1) q(1) that by (auto simp: grows_def)
    then show ?thesis using lc_inv_parts(8) [OF i] True v(2) unfolding votes_safe_def by blast
  next
    case False
    then show ?thesis using new [OF v(1) False v(2)] up_to_date_safe [OF i q(1)] by blast
  qed
  then obtain p req where req: "(n, p, req) \<in> requests (cl (rc s))" "rv_Term req = u"
    "\<And>t i. t < u \<Longrightarrow> own (hst s) t i \<Longrightarrow> acked s' q t i \<Longrightarrow> safe c s t i (candidate_log (hst s) req)" by blast
  have cl: "candidate_log (hst s') req = candidate_log (hst s) req"
    using candidate_log_extends [OF e] lc_inv_parts(4) [OF i] req(1) by (auto simp: requests_ok_def)
  have "safe c s' t i (candidate_log (hst s') req)" if t: "t < u" "own (hst s') t i" "acked s' q t i" for t i
  proof -
    have o: "own (hst s) t i"
    proof (rule ccontr)
      assume "\<not> own (hst s) t i"
      then have "currentTerm (node s' q) = t" using g(2) q(1) t(2,3) by (simp add: fresh_acks_def)
      then show False using q(2) t(1) by simp
    qed
    show ?thesis unfolding cl by (rule safe_grows [OF g(1) o req(3) [OF t(1) o t(3)]])
  qed
  then show "\<exists>p req. (n, p, req) \<in> requests (cl (rc s')) \<and> rv_Term req = u \<and>
      (\<forall>t i. t < u \<longrightarrow> own (hst s') t i \<longrightarrow> acked s' q t i \<longrightarrow> safe c s' t i (candidate_log (hst s') req))"
    using req(1,2) r by blast
qed

section \<open>What a step of the cluster does to votes and requests\<close>

lemma step_votes:
  assumes "cluster_step c k k'" "election_inv c k"
  shows "requests k \<subseteq> requests k' \<and>
    (\<forall>q u n. (q, u, n) \<in> votes k' \<longrightarrow> (q, u, n) \<notin> votes k \<longrightarrow> q \<noteq> n \<longrightarrow> state (nodes k' q) \<noteq> Leader \<and>
       (\<exists>req. (n, q, req) \<in> requests k \<and> rv_Term req = u \<and> log_up_to_date req (rlog (nodes k q)))) \<and>
    (\<forall>n p req. (n, p, req) \<in> requests k' \<longrightarrow> (n, p, req) \<notin> requests k \<longrightarrow> n \<in> members c \<and> state (nodes k' n) = Candidate \<and>
       rv_Term req = currentTerm (nodes k' n) \<and> rv_LastLogIndex req = LastIndex (rlog (nodes k n)) \<and>
       rv_LastLogTerm req = LastTerm (rlog (nodes k n)) \<and> rlog (nodes k' n) = rlog (nodes k n))"
  using assms(1)
proof cases
  case (elect m sf now r' req b)
  have "currentTerm r' = rv_Term req" "state r' = Candidate" using startElection_sent [OF elect(3,4)] by auto
  moreover have "rv_LastLogIndex req = LastIndex (rlog (nodes k m))" "rv_LastLogTerm req = LastTerm (rlog (nodes k m))" "rlog r' = rlog (nodes k m)"
    using elect(3) by (auto simp: startElection_eq Let_def split: if_splits)
  ultimately show ?thesis using elect(1,2) by auto
next
  case (vote m q req sf sf' now order r' resp)
  have m: "\<not> rv_PreVote req" using assms(2) vote(2) by (auto simp: election_inv_def msgs_ok_def)
  have "state r' \<noteq> Leader \<and> log_up_to_date req (rlog (nodes k q))" if g: "rvr_VoteGranted resp"
    using vote_granted [OF vote(3) g m] vote(3) g m by (auto simp: handleRequestVote_eq Let_def split: if_splits)
  then show ?thesis using vote(1,2) by (auto split: if_splits)
next
  case (vote_cast m q req now r' t v)
  have w: "(m, q, req) \<in> requests k" using inv_parts(6) [OF assms(2)] vote_cast(2) by (auto simp: waiting_ok_def)
  then have m: "m \<in> members c" "q \<in> members c" "q \<noteq> m" "rv_CandidateID req = m" using assms(2) by (auto simp: election_inv_def msgs_ok_def)
  note f = vote_part_cast [OF vote_cast(3)]
  have "state (nodes k q) \<noteq> Leader"
  proof
    assume "state (nodes k q) = Leader"
    then have "(q, currentTerm (nodes k q), q) \<in> votes k" using assms(2) m(2) by (auto simp: election_inv_def leaders_ok_def elected_def)
    then have "votedFor (nodes k q) = q" "q \<noteq> []" using assms(2) unfolding election_inv_def votes_ok_def by blast+
    then show False using f m(3,4) by auto
  qed
  then show ?thesis using vote_cast(1) w f m(4) by (auto split: if_splits)
next
  case (elect_send m t req b)
  have "m \<in> members c" using inv_parts(6) [OF assms(2)] elect_send(2) by (auto simp: waiting_ok_def)
  then show ?thesis using elect_send(1) election_checked(1) [OF elect_send(3)] by auto
qed auto

text \<open>What a request says of a log that follows the histories.\<close>

lemma request_of_log:
  assumes "log_wf l" "baseIndex l = 0" "follows H (entries l)" "rv_LastLogIndex req = LastIndex l" "rv_LastLogTerm req = LastTerm l"
  shows "(rv_LastLogIndex req = 0 \<and> rv_LastLogTerm req = 0 \<or> own H (rv_LastLogTerm req) (rv_LastLogIndex req)) \<and> entries l = candidate_log H req"
proof (cases "entries l = []")
  case True
  then show ?thesis using assms LastIndex_eq [OF assms(1)] by (simp add: LastTerm_def log_wf_def candidate_log_def)
next
  case False
  let ?L = "entries l"
  have q: "rv_LastLogIndex req = length ?L" "rv_LastLogTerm req = Term (last ?L)"
    using assms(2,4,5) LastIndex_eq [OF assms(1)] False by (simp_all add: LastTerm_def)
  note f = follows_last [OF assms(3) False]
  have "take (length ?L) ?L ! (length ?L - 1) = take (length ?L) (H (Term (last ?L))) ! (length ?L - 1)"
    unfolding follows_last_take [OF assms(3) False order_refl] ..
  then have "H (Term (last ?L)) ! (length ?L - 1) = last ?L" using f False by (simp add: last_conv_nth)
  then show ?thesis using q f False by (simp add: own_def candidate_log_def)
qed

lemma requests_ok_step:
  assumes i: "lc_inv c s" and k: "cluster_step c (cl (rc s)) (cl (rc s'))" and e: "extends (hst s) (hst s')"
    and keep: "\<And>n. n \<in> members c \<Longrightarrow> state (node s n) = Candidate \<Longrightarrow> state (node s' n) = Candidate \<Longrightarrow> lg s' n = lg s n"
  shows "requests_ok c s'"
  unfolding requests_ok_def
proof (intro allI impI)
  fix n p req
  assume req: "(n, p, req) \<in> requests (cl (rc s'))"
  note r = repl_inv_parts [OF lc_inv_parts(1) [OF i]]
  let ?Q = "\<lambda>H. rv_LastLogIndex req = 0 \<and> rv_LastLogTerm req = 0 \<or> own H (rv_LastLogTerm req) (rv_LastLogIndex req)"
  have ext: "?Q (hst s')" "candidate_log (hst s') req = candidate_log (hst s) req" if "?Q (hst s)"
    using that own_extends [OF e] candidate_log_extends [OF e, of req] by auto
  show "rv_Term req \<le> currentTerm (node s' n) \<and> ?Q (hst s') \<and>
      (state (node s' n) = Candidate \<and> currentTerm (node s' n) = rv_Term req \<longrightarrow> lg s' n = candidate_log (hst s') req)"
  proof (cases "(n, p, req) \<in> requests (cl (rc s))")
    case True
    have n: "n \<in> members c" using r(1) True by (auto simp: election_inv_def msgs_ok_def)
    have old: "rv_Term req \<le> currentTerm (node s n)" "?Q (hst s)"
      "state (node s n) = Candidate \<Longrightarrow> currentTerm (node s n) = rv_Term req \<Longrightarrow> lg s n = candidate_log (hst s) req"
      using lc_inv_parts(4) [OF i] True unfolding requests_ok_def by blast+
    have g: "currentTerm (node s n) \<le> currentTerm (node s' n)" by (rule terms_grow_step [OF k r(1) n])
    have "lg s' n = candidate_log (hst s) req" if c: "state (node s' n) = Candidate" "currentTerm (node s' n) = rv_Term req"
    proof -
      have t: "currentTerm (node s' n) = currentTerm (node s n)" using g old(1) c(2) by simp
      then have "state (node s n) = Candidate" by (rule step_stays(2) [OF k r(1) n _ c(1)])
      then show ?thesis using keep [OF n _ c(1)] old(3) t c(2) by simp
    qed
    then show ?thesis using old(1) g ext [OF old(2)] by auto
  next
    case False
    have n: "n \<in> members c" "rv_Term req = currentTerm (node s' n)" "rv_LastLogIndex req = LastIndex (rlog (node s n))"
      "rv_LastLogTerm req = LastTerm (rlog (node s n))" "rlog (node s' n) = rlog (node s n)"
      using step_votes [OF k r(1)] req False by blast+
    note q = request_of_log [OF r(2) [OF n(1)] r(3) [OF n(1)] r(4) [OF n(1)] n(3,4)]
    have "lg s' n = candidate_log (hst s') req" using q ext n(5) by simp
    then show ?thesis using n(2) q ext by simp
  qed
qed

lemma same_node_inv:
  assumes "lc_inv c s" "cl (rc s') = cl (rc s)" "hst s' = hst s"
  shows "requests_ok c s'"
  using lc_inv_parts(4) [OF assms(1)] by (simp add: requests_ok_def assms(2,3))

section \<open>Steps that change no log\<close>

lemma lc_inv_steady:
  assumes i: "lc_inv c s" and k: "cluster_step c (cl (rc s)) (cl (rc s')) \<or> cl (rc s') = cl (rc s)" and r: "repl_inv c (rc s')"
    and same: "hst s' = hst s" "repl_cluster.lead (rc s') = repl_cluster.lead (rc s)" "replied s' = replied s" "\<And>n. n \<in> members c \<Longrightarrow> lg s' n = lg s n"
    and m: "match_ok c s'"
  shows "lc_inv c s'"
proof -
  note p = lc_inv_parts [OF i] and ei = repl_inv_parts(1) [OF lc_inv_parts(1) [OF i]]
  have ct: "currentTerm (node s q) \<le> currentTerm (node s' q)" if "q \<in> members c" for q
    using k terms_grow_step [OF _ ei that] by auto
  have ac: "acked s' = acked s" by (intro ext) (simp add: acked_def same(1-3))
  have g: "grows c s s'" using ct by (simp add: grows_def same(1) ac)
  have f: "fresh_acks c s s'" by (simp add: fresh_acks_def same(1))
  have v: "requests (cl (rc s)) \<subseteq> requests (cl (rc s')) \<and> (\<forall>q u n. (q, u, n) \<in> votes (cl (rc s')) \<longrightarrow> (q, u, n) \<notin> votes (cl (rc s)) \<longrightarrow> q \<noteq> n \<longrightarrow>
      (\<exists>req. (n, q, req) \<in> requests (cl (rc s)) \<and> rv_Term req = u \<and> log_up_to_date req (rlog (node s q))))"
    using k
  proof
    assume "cluster_step c (cl (rc s)) (cl (rc s'))"
    from step_votes [OF this ei] show ?thesis by blast
  qed simp
  have "requests_ok c s'" using k requests_ok_step [OF i, of s'] same_node_inv [OF i _ same(1)] same(1,4) by (elim disjE) simp_all
  moreover have "terms_ok c s'"
  proof -
    have "Term e \<le> currentTerm (node s' n)" if "n \<in> members c" "e \<in> set (lg s' n)" for n e
    proof -
      have "Term e \<le> currentTerm (node s n)" using p(2) that same(4) by (simp add: terms_ok_def)
      then show ?thesis using ct [OF that(1)] by simp
    qed
    then show ?thesis using p(2) by (simp add: terms_ok_def same(1))
  qed
  moreover have "replied_ok c s'"
    unfolding replied_ok_def same
  proof (intro allI impI)
    fix q req
    assume "(q, req) \<in> replied s"
    then have "q \<in> members c" "message_ok (hst s) req" "ae_Term req \<le> currentTerm (node s q)" using p(3) unfolding replied_ok_def by blast+
    then show "q \<in> members c \<and> message_ok (hst s) req \<and> ae_Term req \<le> currentTerm (node s' q)" using ct [of q] by simp
  qed
  moreover have "histories_safe c s'" by (rule histories_safe_step [OF p(6) g f r]) (simp add: same(1))
  moreover have "logs_safe c s'" by (rule logs_safe_step [OF p(7) g f]) (simp_all add: ac same(4))
  moreover have "votes_safe c s'" by (rule votes_safe_step [OF i g f r]) (use v in \<open>simp_all add: ac\<close>)
  ultimately show ?thesis using r m by (simp add: lc_inv_def)
qed

section \<open>A leader appends\<close>

lemma extends_upd: "H t @ es = L \<Longrightarrow> extends H (H(t := L))"
  by (auto simp: extends_def)

lemma terms_sorted_append: "terms_sorted L \<Longrightarrow> \<forall>e \<in> set L. Term e \<le> t \<Longrightarrow> \<forall>e \<in> set es. Term e = t \<Longrightarrow> terms_sorted (L @ es)"
  by (induction es rule: rev_induct) (auto simp: terms_sorted_def sorted_append)

lemma lc_inv_appended:
  assumes i: "lc_inv c s" and n: "n \<in> members c" "state (node s n) = Leader" and a: "appended (node s n) r'"
    and t: "currentTerm r' = currentTerm (node s n)" and mi: "matchIndex r' = matchIndex (node s n)"
    and k: "cluster_step c (cl (rc s)) (put_node n r' (cl (rc s)))"
    and s': "s' = s\<lparr>rc := (rc s)\<lparr>cl := put_node n r' (cl (rc s)), hist := (hst s)(currentTerm (node s n) := entries (rlog r'))\<rparr>\<rparr>"
    and r: "repl_inv c (rc s')"
  shows "lc_inv c s'"
proof -
  note p = lc_inv_parts [OF i] and q = repl_inv_parts [OF lc_inv_parts(1) [OF i]]
  let ?t = "currentTerm (node s n)"
  obtain es where es: "entries (rlog r') = lg s n @ es" "\<forall>e \<in> set es. Term e = ?t" using a by (auto simp: appended_def)
  have h: "hst s ?t = lg s n" "hst s ?t \<noteq> []" using q(6,7) [OF n] by simp_all
  have ld: "repl_cluster.lead (rc s) ?t = n" by (rule lead_of_leader [OF p(1) n])
  have hs: "hst s' = (hst s)(?t := hst s ?t @ es)" and nd: "\<And>m. node s' m = (if m = n then r' else node s m)"
    and rest: "replied s' = replied s" "repl_cluster.lead (rc s') = repl_cluster.lead (rc s)" "votes (cl (rc s')) = votes (cl (rc s))"
      "requests (cl (rc s')) = requests (cl (rc s))" by (auto simp: s' es(1) h(1))
  have e: "extends (hst s) (hst s')" unfolding hs by (rule extends_upd) simp
  have lgs: "lg s' n = hst s' ?t" by (simp add: nd hs es(1) h(1))
  have ct: "currentTerm (node s' m) = currentTerm (node s m)" for m using t by (simp add: nd)
  have ac: "acked s m u j \<or> m = n \<and> u = ?t" if "acked s' m u j" for m u j
    using that ld by (cases "u = ?t") (auto simp: acked_def rest hs)
  have ac_mono: "acked s' m u j" if "acked s m u j" for m u j
    using that extends_nonempty [OF e, of u] extends_length [OF e, of u] by (auto simp: acked_def rest)
  have new: "has (hst s') u j (lg s' m)" if "m = n" "u = ?t" "j \<le> length (hst s' u)" for m u j
    using that lgs by (simp add: has_def)
  have g: "grows c s s'" using e ct ac by (auto simp: grows_def)
  have f: "fresh_acks c s s'"
    unfolding fresh_acks_def
  proof (intro ballI allI impI)
    fix m u j
    assume o: "own (hst s') u j" "\<not> own (hst s) u j" "acked s' m u j"
    have "\<not> acked s m u j" using acked_length [OF p(3)] own_old [OF e o(1)] o(2) by blast
    then have mu: "m = n" "u = ?t" using ac [OF o(3)] by auto
    then show "currentTerm (node s' m) = u \<and> has (hst s') u j (lg s' m)" using new [OF mu] o(1) ct by (simp add: own_def)
  qed
  have tk: "terms_ok c s'"
  proof -
    have a: "terms_sorted (hst s u)" "\<forall>e \<in> set (hst s u). Term e \<le> u" for u using p(2) by (auto simp: terms_ok_def)
    have "terms_sorted (hst s' u) \<and> (\<forall>e \<in> set (hst s' u). Term e \<le> u)" for u
      using a [of u] terms_sorted_append [OF a(1,2) es(2)] es(2) by (auto simp: hs)
    moreover have "\<forall>e \<in> set (lg s' m). Term e \<le> currentTerm (node s' m)" if "m \<in> members c" for m
      using calculation [of ?t] p(2) that lgs t by (cases "m = n") (auto simp: terms_ok_def nd)
    ultimately show ?thesis by (simp add: terms_ok_def)
  qed
  have rk: "replied_ok c s'" using p(3) message_ok_grow [of "hst s" _ ?t es] by (simp add: replied_ok_def rest ct hs)
  have qk: "requests_ok c s'" by (rule requests_ok_step [OF i _ e]) (use k n(2) in \<open>auto simp: s'\<close>)
  have mk: "match_ok c s'" using p(5) n mi ct by (auto simp: match_ok_def nd rest)
  have hk: "histories_safe c s'" by (rule histories_safe_step [OF p(6) g f r]) (use h(2) in \<open>auto simp: hs split: if_splits\<close>)
  have lk: "logs_safe c s'"
  proof (rule logs_safe_step [OF p(7) g f])
    show "safe c s' u j (lg s' m)" if "safe c s' u j (lg s m)" for m u j using safe_append [OF that, of es] that by (cases "m = n") (simp_all add: nd es(1))
    show "safe c s' u j (lg s' m)" if "own (hst s) u j" "\<not> acked s m u j" "acked s' m u j" for m u j
      using new [of m u j] ac [OF that(3)] that(1,2) own_extends [OF e that(1)] by (auto simp: safe_def own_def)
  qed
  have vk: "votes_safe c s'" by (rule votes_safe_step [OF i g f r]) (simp_all add: rest)
  show ?thesis using r tk rk qk mk hk lk vk by (simp add: lc_inv_def)
qed

section \<open>A new leader\<close>

lemma becomeLeader_match:
  assumes "state (becomeLeader marshal af t r) = Leader" "state r = Candidate" "p \<in> set (other_peers (NodeID (config r)) (clusterConfig r))"
  shows "idx (matchIndex (becomeLeader marshal af t r)) p = 0"
proof -
  let ?r0 = "reset_peers (other_peers (NodeID (config r)) (clusterConfig r)) (LastIndex (rlog r)) (r\<lparr>state := Leader\<rparr>)"
  let ?e = "\<lparr>Index = u64 (LastIndex (rlog r) + 1), Term = currentTerm r, Type = EntryNoop, Command = []\<rparr>"
  obtain l err where a: "Append marshal af [?e] (rlog r) = (l, err)" by fastforce
  have r0: "rlog ?r0 = rlog r" "currentTerm ?r0 = currentTerm r" by (simp_all add: reset_peers_def)
  have "becomeLeader marshal af t r = advanceCommitIndex (?r0\<lparr>rlog := l\<rparr>)"
    using assms(1,2) a r0 by (auto simp: becomeLeader_def initLeaderState_def markFatalLocked_def Let_def split: if_splits option.splits)
  then show ?thesis using assms(3) by (simp add: reset_peers_def idx_def)
qed

lemma new_leader_match:
  assumes "cluster_step c k k'" "election_inv c k" "n \<in> members c" "state (nodes k n) \<noteq> Leader" "state (nodes k' n) = Leader" "p \<in> members c" "p \<noteq> n"
  shows "idx (matchIndex (nodes k' n)) p = 0"
proof -
  obtain r0 marshal af where r0: "nodes k' n = becomeLeader marshal af (currentTerm r0) r0" "state r0 = Candidate"
    by (rule step_new_leader [OF assms(1-5)])
  have "config (becomeLeader marshal af (currentTerm r0) r0) = config r0" "clusterConfig (becomeLeader marshal af (currentTerm r0) r0) = clusterConfig r0"
    by simp_all
  moreover have "NodeID (config (nodes k' n)) = n" "clusterConfig (nodes k' n) = c"
    using inv_step [OF assms(1,2)] assms(3) by (auto simp: election_inv_def nodes_ok_def)
  ultimately have "p \<in> set (other_peers (NodeID (config r0)) (clusterConfig r0))" using assms(6,7) r0(1) by (auto simp: other_peers_def members_def)
  then show ?thesis using becomeLeader_match [OF _ r0(2)] assms(5) unfolding r0(1) by blast
qed

lemma lc_inv_lead:
  assumes i: "lc_inv c s" and k: "cluster_step c (cl (rc s)) k" and n: "n \<in> members c" "state (node s n) \<noteq> Leader" "state (nodes k n) = Leader"
    and b: "LastIndex (rlog (node s n)) + 1 < 2 ^ 64"
    and s': "s' = s\<lparr>rc := (rc s)\<lparr>cl := k, hist := (hst s)(currentTerm (nodes k n) := entries (rlog (nodes k n))),
       lead := (repl_cluster.lead (rc s))(currentTerm (nodes k n) := n)\<rparr>\<rparr>"
    and r: "repl_inv c (rc s')"
  shows "lc_inv c s'"
proof -
  note p = lc_inv_parts [OF i] and q = repl_inv_parts [OF lc_inv_parts(1) [OF i]]
  let ?t = "currentTerm (nodes k n)"
  obtain e where en: "entries (rlog (nodes k n)) = lg s n @ [e]" "Term e = ?t" "hst s ?t = []" "\<And>m. m \<noteq> n \<Longrightarrow> nodes k m = node s m"
    "currentTerm (node s n) < ?t \<or> state (node s n) = Candidate \<and> currentTerm (node s n) = ?t"
    using new_leader_log [OF p(1) k n b] by metis
  have hs: "hst s' = (hst s)(?t := lg s n @ [e])" and nd: "\<And>m. node s' m = nodes k m" and rp: "replied s' = replied s"
    and ld: "repl_cluster.lead (rc s') = (repl_cluster.lead (rc s))(?t := n)" and cl': "cl (rc s') = k" by (auto simp: s' en(1))
  have ex: "extends (hst s) (hst s')" unfolding hs by (rule extends_upd) (simp add: en(3))
  have lgs: "lg s' n = hst s' ?t" by (simp add: nd hs en(1))
  have ct: "currentTerm (node s m) \<le> currentTerm (node s' m)" if "m \<in> members c" for m
    using terms_grow_step [OF k q(1) that] by (simp add: nd)
  have ac: "acked s m u j \<or> m = n \<and> u = ?t" if "acked s' m u j" for m u j
    using that by (cases "u = ?t") (auto simp: acked_def rp ld hs)
  have new: "has (hst s') u j (lg s' m)" if "m = n" "u = ?t" "j \<le> length (hst s' u)" for m u j
    using that lgs by (simp add: has_def)
  have g: "grows c s s'" unfolding grows_def
  proof (intro conjI ballI allI impI ex ct)
    fix m u j
    assume m: "m \<in> members c" "u < currentTerm (node s m)" "acked s' m u j"
    then show "acked s m u j" using ac [OF m(3)] en(5) by auto
  qed
  have f: "fresh_acks c s s'"
    unfolding fresh_acks_def
  proof (intro ballI allI impI)
    fix m u j
    assume o: "own (hst s') u j" "\<not> own (hst s) u j" "acked s' m u j"
    have "\<not> acked s m u j" using acked_length [OF p(3)] own_old [OF ex o(1)] o(2) by blast
    then have mu: "m = n" "u = ?t" using ac [OF o(3)] by auto
    then show "currentTerm (node s' m) = u \<and> has (hst s') u j (lg s' m)" using new [OF mu] o(1) nd by (simp add: own_def)
  qed
  have v: "requests (cl (rc s)) \<subseteq> requests k" "\<And>m u x. (m, u, x) \<in> votes k \<Longrightarrow> (m, u, x) \<notin> votes (cl (rc s)) \<Longrightarrow> m \<noteq> x \<Longrightarrow> state (nodes k m) \<noteq> Leader \<and>
      (\<exists>req. (x, m, req) \<in> requests (cl (rc s)) \<and> rv_Term req = u \<and> log_up_to_date req (rlog (node s m)))"
    "\<And>x y req. (x, y, req) \<in> requests k \<Longrightarrow> (x, y, req) \<notin> requests (cl (rc s)) \<Longrightarrow> state (nodes k x) = Candidate"
    using step_votes [OF k q(1)] by blast+
  have vk: "votes_safe c s'"
  proof (rule votes_safe_step [OF i g f r])
    show "requests (cl (rc s)) \<subseteq> requests (cl (rc s'))" using v(1) cl' by simp
    fix m u x
    assume w: "(m, u, x) \<in> votes (cl (rc s'))" "(m, u, x) \<notin> votes (cl (rc s))" "m \<noteq> x"
    then have "state (nodes k m) \<noteq> Leader" "\<exists>req. (x, m, req) \<in> requests (cl (rc s)) \<and> rv_Term req = u \<and> log_up_to_date req (rlog (node s m))"
      using v(2) cl' by auto
    then show "(\<exists>req. (x, m, req) \<in> requests (cl (rc s)) \<and> rv_Term req = u \<and> log_up_to_date req (rlog (node s m))) \<and> (\<forall>t i. acked s' m t i \<longrightarrow> acked s m t i)"
      using ac n(3) by blast
  qed
  have el: "safe c s' u j (hst s' ?t)" if o: "own (hst s) u j" "u < ?t" for u j
  proof -
    obtain Q where Q: "is_quorum c Q" "\<And>m. m \<in> Q \<Longrightarrow> (m, ?t, n) \<in> votes k"
      using led_leader [OF inv_step [OF k q(1)] n(1,3)] by (auto simp: led_def)
    have "safe c s' u j (lg s n)"
    proof (cases "\<exists>m \<in> Q. acked s' m u j")
      case False
      moreover have "u < currentTerm (node s' m)" if "m \<in> Q" for m using voted_term [OF r, of m ?t n] Q(2) [OF that] o(2) cl' by simp
      ultimately show ?thesis using Q(1) unfolding safe_def blocked_def by blast
    next
      case True
      then obtain m where m: "m \<in> Q" "acked s' m u j" by blast
      show ?thesis
      proof (cases "m = n")
        case True
        then have "acked s n u j" using ac [OF m(2)] o(2) by auto
        then have "safe c s u j (lg s n)" using p(7) n(1) o(1) by (simp add: logs_safe_def)
        then show ?thesis by (rule safe_grows [OF g o(1)])
      next
        case False
        obtain x req where req: "(n, x, req) \<in> requests k" "rv_Term req = ?t" "safe c s' u j (candidate_log (hst s') req)"
          using vk Q(2) [OF m(1)] False o(2) own_extends [OF ex o(1)] m(2) cl' unfolding votes_safe_def by metis
        have old: "(n, x, req) \<in> requests (cl (rc s))" using v(3) [OF req(1)] n(3) by auto
        have rq: "rv_Term req \<le> currentTerm (node s n)" "rv_LastLogIndex req = 0 \<or> own (hst s) (rv_LastLogTerm req) (rv_LastLogIndex req)"
          "state (node s n) = Candidate \<Longrightarrow> currentTerm (node s n) = rv_Term req \<Longrightarrow> lg s n = candidate_log (hst s) req"
          using p(4) old unfolding requests_ok_def by blast+
        have "lg s n = candidate_log (hst s) req" using rq(1,3) en(5) req(2) by auto
        then show ?thesis using req(3) candidate_log_extends [OF ex rq(2)] by simp
      qed
    qed
    then show ?thesis unfolding hs by (simp add: safe_append)
  qed
  have tk: "terms_ok c s'"
  proof -
    have a: "terms_sorted (hst s u)" "\<forall>e \<in> set (hst s u). Term e \<le> u" for u using p(2) by (auto simp: terms_ok_def)
    have "currentTerm (node s n) \<le> ?t" using en(5) by auto
    moreover have "\<forall>e \<in> set (lg s n). Term e \<le> currentTerm (node s n)" using p(2) n(1) by (auto simp: terms_ok_def)
    ultimately have b: "\<forall>e \<in> set (lg s n). Term e \<le> ?t" by fastforce
    have "terms_sorted (lg s n @ [e])" by (rule terms_sorted_append [OF follows_terms_sorted [OF q(4) [OF n(1)] a(1)] b]) (simp add: en(2))
    then have "terms_sorted (hst s' u) \<and> (\<forall>e \<in> set (hst s' u). Term e \<le> u)" for u
      using a [of u] b en(2) by (auto simp: hs)
    moreover have "\<forall>e \<in> set (lg s' m). Term e \<le> currentTerm (node s' m)" if "m \<in> members c" for m
      using calculation [of ?t] p(2) that lgs en(4) [of m] by (cases "m = n") (auto simp: terms_ok_def nd)
    ultimately show ?thesis by (simp add: terms_ok_def)
  qed
  have rk: "replied_ok c s'"
    unfolding replied_ok_def rp
  proof (intro allI impI)
    fix m req
    assume "(m, req) \<in> replied s"
    then have "m \<in> members c" "message_ok (hst s) req" "ae_Term req \<le> currentTerm (node s m)" using p(3) unfolding replied_ok_def by blast+
    then show "m \<in> members c \<and> message_ok (hst s') req \<and> ae_Term req \<le> currentTerm (node s' m)"
      using ct [of m] message_ok_fresh [where H = "hst s" and t = ?t, OF _ en(3)] by (simp add: hs)
  qed
  have qk: "requests_ok c s'" by (rule requests_ok_step [OF i _ ex]) (use k cl' nd en(4) n(3) in \<open>auto, metis NodeState.distinct\<close>)
  have mk: "match_ok c s'"
    unfolding match_ok_def
  proof (intro ballI impI)
    fix m x
    assume m: "m \<in> members c" "state (node s' m) = Leader" "x \<in> members c" "x \<noteq> m"
    show "idx (matchIndex (node s' m)) x = 0 \<or> (\<exists>req. (x, req) \<in> replied s' \<and> ae_Term req = currentTerm (node s' m) \<and> idx (matchIndex (node s' m)) x \<le> reach req)"
      using m new_leader_match [OF k q(1) n m(3)] p(5) en(4) [of m] by (cases "m = n") (auto simp: nd rp match_ok_def)
  qed
  have hk: "histories_safe c s'"
  proof (rule histories_safe_step [OF p(6) g f r])
    fix u w j
    assume a: "hst s w = []" "hst s' w \<noteq> []" "u < w" "own (hst s) u j"
    then have "w = ?t" by (simp add: hs split: if_splits)
    then show "safe c s' u j (hst s' w)" using el [OF a(4)] a(3) by simp
  qed
  have lk: "logs_safe c s'"
  proof (rule logs_safe_step [OF p(7) g f])
    show "safe c s' u j (lg s' m)" if "safe c s' u j (lg s m)" for m u j using safe_append [OF that, of "[e]"] that en(1,4) by (cases "m = n") (auto simp: nd)
    show "safe c s' u j (lg s' m)" if "own (hst s) u j" "\<not> acked s m u j" "acked s' m u j" for m u j
      using new [of m u j] ac [OF that(3)] that(1,2) own_extends [OF ex that(1)] by (auto simp: safe_def own_def)
  qed
  show ?thesis using r tk rk qk mk hk lk vk by (simp add: lc_inv_def)
qed

section \<open>A follower receives\<close>

lemma commit_from_leader_log [simp]: "rlog (commit_from_leader k r) = rlog r"
  by (simp add: commit_from_leader_def Let_def)

lemma ae_log_part_log:
  assumes "ae_log_part marshal pf af req r = (r', resp, err)" "ae_entries marshal pf af (ae_Entries req) (rlog r) = (l', res)"
  shows "rlog r' = rlog r \<and> \<not> aer_Success resp \<or> prev_check req r = None \<and> rlog r' = l' \<and> (aer_Success resp \<longrightarrow> res = EntriesApplied)"
proof (cases "prev_check req r")
  case None
  then show ?thesis using assms by (auto simp: ae_log_part_def Let_def ae_response_def split: if_splits option.splits entries_result.splits)
next
  case (Some x)
  then show ?thesis using assms prev_check_refuses [OF Some] by (auto simp: ae_log_part_def Let_def ae_response_def split: if_splits option.splits)
qed

lemma resumed_prefixes:
  assumes l: "log_wf (rlog r)" "baseIndex (rlog r) = 0" "follows H (entries (rlog r))"
    and h: "follows H (H (ae_Term req))" "contiguous 0 (H (ae_Term req))" "message_ok H req"
    and a: "ae_resume marshal pf af now req r = (r', resp, err)"
  shows "rlog r' \<noteq> rlog r \<Longrightarrow> H (ae_Term req) \<noteq> []"
    and "i \<le> length (entries (rlog r)) \<Longrightarrow> i \<le> length (H (ae_Term req)) \<Longrightarrow> take i (entries (rlog r)) = take i (H (ae_Term req)) \<Longrightarrow>
      i \<le> length (entries (rlog r')) \<and> take i (entries (rlog r')) = take i (entries (rlog r))"
    and "aer_Success resp \<Longrightarrow> has H (ae_Term req) (reach req) (entries (rlog r'))"
proof -
  let ?p = "ae_PrevLogIndex req" and ?es = "ae_Entries req" and ?h = "H (ae_Term req)"
  define r1 where "r1 = r\<lparr>leaderID := ae_LeaderID req, lastHeartbeat := now\<rparr>"
  have part: "ae_log_part marshal pf af req r1 = (r', resp, err)" using a by (simp add: ae_resume_def r1_def)
  have r1: "rlog r1 = rlog r" by (simp add: r1_def)
  obtain k where k: "?p \<le> length ?h" "0 < ?p \<longrightarrow> ae_PrevLogTerm req = Term (?h ! (?p - 1))" "?es = take k (drop ?p ?h)"
    using h(3) by (auto simp: message_ok_def Let_def)
  have es: "contiguous ?p ?es" using h(2) k(1,3) by (auto simp: contiguous_def)
  obtain l' res where e: "ae_entries marshal pf af ?es (rlog r) = (l', res)" by fastforce
  have log: "rlog r' = rlog r \<and> \<not> aer_Success resp \<or> prev_check req r1 = None \<and> rlog r' = l' \<and> (aer_Success resp \<longrightarrow> res = EntriesApplied)"
    using ae_log_part_log [OF part e [folded r1]] unfolding r1 .
  have prev: "?p \<le> length (entries (rlog r)) \<and> take ?p (entries (rlog r)) = take ?p ?h" if "prev_check req r1 = None"
  proof -
    note pp = prev_check_passed [OF _ that, unfolded r1, OF l(1)]
    have le: "?p \<le> length (entries (rlog r))" using pp l(2) by simp
    show ?thesis
    proof (cases ?p)
      case (Suc j)
      have "Term (entries (rlog r) ! j) = Term (?h ! j)" using pp k(2) TermAt_above [of "rlog r" j] l(2) le Suc by (auto split: if_splits)
      then show ?thesis using follows_match [OF l(3) h(1), of j] le k(1) Suc by simp
    qed simp
  qed
  show "?h \<noteq> []" if ne: "rlog r' \<noteq> rlog r"
  proof
    assume "?h = []"
    then have "l' = rlog r" using e k(3) by simp
    then show False using log ne by auto
  qed
  show "i \<le> length (entries (rlog r')) \<and> take i (entries (rlog r')) = take i (entries (rlog r))"
    if c: "i \<le> length (entries (rlog r))" "i \<le> length ?h" "take i (entries (rlog r)) = take i ?h"
  proof (cases "rlog r' = rlog r")
    case False
    then have "prev_check req r1 = None" "rlog r' = l'" using log by auto
    then show ?thesis using ae_entries_keeps [OF l(1,2) e k(3) es c(2,1,3)] prev by simp
  qed (use c in simp)
  show "has H (ae_Term req) (reach req) (entries (rlog r'))" if s: "aer_Success resp"
  proof -
    have g: "prev_check req r1 = None" "rlog r' = l'" "res = EntriesApplied" using log s by auto
    have "?p + length ?es \<le> length (entries l') \<and> take (?p + length ?es) (entries l') = take (?p + length ?es) ?h"
      by (rule ae_entries_holds [OF l h(1) e [unfolded g(3)] k(3) es _ k(1)]) (use prev [OF g(1)] in simp_all)
    then show ?thesis using g(2) by (simp add: has_def reach_def)
  qed
qed

text \<open>A handler goes on at a node that is neither candidate nor leader, in the term of its message.\<close>

lemma lc_inv_resumed:
  assumes i: "lc_inv c s" and pm: "p \<in> members c" "req \<in> msgs (rc s)"
    and a: "ae_resume marshal pf af now req r1 = (r', resp, err')"
    and r1: "rlog r1 = rlog (node s p)" "state r1 \<noteq> Leader" "state r1 \<noteq> Candidate" "currentTerm r1 = ae_Term req" "currentTerm (node s p) \<le> ae_Term req"
    and s': "s' = s\<lparr>rc := (rc s)\<lparr>cl := put_node p r' (cl (rc s))\<rparr>, replied := (if aer_Success resp then insert (p, req) (replied s) else replied s)\<rparr>"
    and k: "cluster_step c (cl (rc s)) (cl (rc s'))" and r: "repl_inv c (rc s')"
  shows "lc_inv c s'"
proof -
  note w = lc_inv_parts [OF i] and q = repl_inv_parts [OF lc_inv_parts(1) [OF i]]
  let ?T = "ae_Term req" and ?H = "hst s"
  have nd: "node s' m = (if m = p then r' else node s m)" for m by (simp add: s')
  have same: "hst s' = ?H" "repl_cluster.lead (rc s') = repl_cluster.lead (rc s)" "votes (cl (rc s')) = votes (cl (rc s))"
    "requests (cl (rc s')) = requests (cl (rc s))" and rp: "replied s' = (if aer_Success resp then insert (p, req) (replied s) else replied s)" by (simp_all add: s')
  have mo: "message_ok ?H req" by (rule q(9) [OF pm(2)])
  have hc: "contiguous 0 (?H ?T)" "length (?H ?T) < 2 ^ 64" using w(1) by (auto simp: repl_inv_def)
  have l1: "log_wf (rlog r1)" "baseIndex (rlog r1) = 0" "follows ?H (entries (rlog r1))" using q(2-4) [OF pm(1)] r1(1) by simp_all
  note rcv = resumed_prefixes [OF l1 q(5) hc(1) mo a, unfolded r1(1)]
  have kept: "currentTerm r' = ?T" "state r' \<noteq> Leader" "state r' \<noteq> Candidate" using resume_keeps [OF a] r1(2-4) by auto
  have ct: "currentTerm (node s m) \<le> currentTerm (node s' m)" if "m \<in> members c" for m using terms_grow_step [OF k q(1) that] .
  have ac: "acked s m u j \<or> m = p \<and> aer_Success resp \<and> u = ?T \<and> j \<le> reach req" if "acked s' m u j" for m u j
    using that by (auto simp: acked_def rp same split: if_splits)
  have g: "grows c s s'"
    unfolding grows_def
  proof (intro conjI ballI allI impI ct)
    fix m u j
    assume m: "u < currentTerm (node s m)" "acked s' m u j"
    then show "acked s m u j" using ac [OF m(2)] r1(5) by auto
  qed (simp add: same)
  have f: "fresh_acks c s s'" by (simp add: fresh_acks_def same)
  have lk: "logs_safe c s'"
  proof (rule logs_safe_step [OF w(7) g f])
    fix m u j
    assume m: "m \<in> members c" "own ?H u j" "\<not> acked s m u j" "acked s' m u j"
    then have e: "m = p" "aer_Success resp" "u = ?T" "j \<le> reach req" using ac by blast+
    have "has ?H ?T (reach req) (entries (rlog r'))" by (rule rcv(3) [OF e(2)])
    then have "has ?H u j (lg s' m)" unfolding e(1,3) nd using e(4) has_mono by auto
    then show "safe c s' u j (lg s' m)" by (simp add: safe_def same)
  next
    fix m u j
    assume m: "m \<in> members c" "own ?H u j" "acked s m u j" "safe c s' u j (lg s m)"
    show "safe c s' u j (lg s' m)"
    proof (cases "blocked c s' u j \<or> m \<noteq> p \<or> rlog r' = rlog (node s p)")
      case True
      then show ?thesis using m(4) by (auto simp: safe_def nd)
    next
      case False
      then have mp: "m = p" and ch: "currentTerm (node s p) \<le> ?T" "?H ?T \<noteq> []" using rcv(1) r1(5) by auto
      have h: "has ?H u j (lg s p)" using m(4) False mp by (simp add: safe_def same)
      have "has ?H u j (?H ?T)"
      proof (cases "u = ?T")
        case True
        then show ?thesis using m(2) by (simp add: has_def own_def)
      next
        case ne: False
        have "u < ?T" using acked_term [OF w(1,3) m(3)] ch(1) mp ne by simp
        then have "safe c s u j (?H ?T)" using w(6) m(2) ch(2) unfolding histories_safe_def by blast
        then show ?thesis using False blocked_grows [OF g] by (auto simp: safe_def)
      qed
      then have "j \<le> length (entries (rlog r')) \<and> take j (entries (rlog r')) = take j (lg s p)"
        by (intro rcv(2)) (use h in \<open>auto simp: has_def\<close>)
      then have "has ?H u j (lg s' m)" using h mp by (simp add: has_def nd)
      then show ?thesis by (simp add: safe_def same)
    qed
  qed
  have tk: "terms_ok c s'"
  proof -
    have "Term e \<le> currentTerm (node s' m)" if m: "m \<in> members c" "e \<in> set (lg s' m)" for m e
    proof (cases "e \<in> set (lg s m)")
      case True
      then have "Term e \<le> currentTerm (node s m)" using w(2) m(1) by (auto simp: terms_ok_def)
      then show ?thesis using ct [OF m(1)] by simp
    next
      case False
      then have mp: "m = p" "rlog r' \<noteq> rlog (node s p)" using m(2) by (auto simp: nd split: if_splits)
      obtain j where "entries (rlog r') = take j (lg s p) \<or> entries (rlog r') = take j (?H ?T)"
        using resumed_log [OF l1 q(5) hc mo a] r1(1) by auto
      then have "e \<in> set (?H ?T)" using m(2) False mp(1) by (auto simp: nd dest: in_set_takeD)
      then have "Term e \<le> ?T" using w(2) by (auto simp: terms_ok_def)
      then show ?thesis using kept(1) mp(1) by (simp add: nd)
    qed
    then show ?thesis using w(2) by (simp add: terms_ok_def same)
  qed
  have rk: "replied_ok c s'"
    unfolding replied_ok_def same
  proof (intro allI impI)
    fix m x
    assume x: "(m, x) \<in> replied s'"
    show "m \<in> members c \<and> message_ok ?H x \<and> ae_Term x \<le> currentTerm (node s' m)"
    proof (cases "(m, x) \<in> replied s")
      case True
      then have "m \<in> members c" "message_ok ?H x" "ae_Term x \<le> currentTerm (node s m)" using w(3) unfolding replied_ok_def by blast+
      then show ?thesis using ct [of m] by simp
    next
      case False
      then have "m = p" "x = req" "aer_Success resp" using x by (auto simp: rp split: if_splits)
      then show ?thesis using pm(1) mo kept(1) by (simp add: nd)
    qed
  qed
  have keep: "lg s' m = lg s m" if "state (node s' m) = Candidate" for m
    using that kept(3) by (auto simp: nd split: if_splits)
  have qk: "requests_ok c s'" by (rule requests_ok_step [OF i k]) (simp_all add: same keep)
  have mk: "match_ok c s'"
    unfolding match_ok_def
  proof (intro ballI impI)
    fix m x
    assume m: "m \<in> members c" "state (node s' m) = Leader" "x \<in> members c" "x \<noteq> m"
    have "state (node s m) = Leader \<and> currentTerm (node s' m) = currentTerm (node s m) \<and> matchIndex (node s' m) = matchIndex (node s m)"
      using m(2) kept(2) by (auto simp: nd split: if_splits)
    then show "idx (matchIndex (node s' m)) x = 0 \<or> (\<exists>y. (x, y) \<in> replied s' \<and> ae_Term y = currentTerm (node s' m) \<and> idx (matchIndex (node s' m)) x \<le> reach y)"
      using w(5) m unfolding match_ok_def by (auto simp: rp)
  qed
  have hk: "histories_safe c s'" by (rule histories_safe_step [OF w(6) g f r]) (simp add: same)
  have vk: "votes_safe c s'" by (rule votes_safe_step [OF i g f r]) (simp_all add: same)
  show ?thesis using r tk rk qk mk hk lk vk by (simp add: lc_inv_def)
qed

section \<open>The invariant holds\<close>

lemma flush_frame: "currentTerm (flush marshal af batch r) = currentTerm r \<and> matchIndex (flush marshal af batch r) = matchIndex r"
  by (auto simp: flush_def flush_finish_def answer_all_def markStorageFailureLocked_def markFatalLocked_def Let_def split: prod.splits option.splits)

lemma propose_frame:
  "ProposeMembershipChange marshal mjson af change r = (r', err) \<Longrightarrow> currentTerm r' = currentTerm r \<and> matchIndex r' = matchIndex r"
  by (auto simp: ProposeMembershipChange_def markStorageFailureLocked_def markFatalLocked_def Let_def split: prod.splits option.splits if_splits)

lemma record_match_frame [simp]:
  "state (record_match p k r) = state r" "currentTerm (record_match p k r) = currentTerm r"
  by (simp_all add: record_match_def Let_def)

lemma record_match_idx: "idx (matchIndex (record_match p k r)) q = idx (matchIndex r) q \<or> q = p \<and> idx (matchIndex (record_match p k r)) q = k"
  by (simp add: record_match_def Let_def idx_def)

lemma answer_match:
  assumes "replicateTo_response sf now order p ni req resp r = (r', x)" "state r' = Leader"
  shows "state r = Leader \<and> currentTerm r' = currentTerm r \<and> (\<forall>q. idx (matchIndex r') q = idx (matchIndex r) q \<or>
    q = p \<and> ae_Term req = currentTerm r \<and> idx (matchIndex r') q \<le> reach req)"
proof -
  let ?k = "u64 (reach req)"
  have k: "?k \<le> reach req" by (simp add: u64_def)
  consider "r' = stepDown sf now order (aer_Term resp) r" | "r' = r" | "r' = r\<lparr>nextIndex := (nextIndex r)(p \<mapsto> back_off ni resp)\<rparr>"
    | "r' = advanceCommitIndex (record_match p ?k r)" "ae_Term req = currentTerm r"
    using assms(1) by (auto simp: replicateTo_response_def reach_def Let_def split: if_splits)
  then show ?thesis
  proof cases
    case 4
    have "idx (matchIndex r') q = idx (matchIndex r) q \<or> q = p \<and> ae_Term req = currentTerm r \<and> idx (matchIndex r') q \<le> reach req" for q
      using record_match_idx [of p ?k r q] 4 k by auto
    then show ?thesis using assms(2) 4 by simp
  qed (use assms(2) in simp_all)
qed

lemma match_ok_step:
  assumes i: "lc_inv c s" and rp: "replied s \<subseteq> replied s'"
    and m: "\<And>n p. n \<in> members c \<Longrightarrow> state (node s' n) = Leader \<Longrightarrow> p \<in> members c \<Longrightarrow> p \<noteq> n \<Longrightarrow>
      state (node s n) = Leader \<and> currentTerm (node s' n) = currentTerm (node s n) \<and>
      (idx (matchIndex (node s' n)) p = idx (matchIndex (node s n)) p \<or>
       (\<exists>req. (p, req) \<in> replied s' \<and> ae_Term req = currentTerm (node s n) \<and> idx (matchIndex (node s' n)) p \<le> reach req))"
  shows "match_ok c s'"
  unfolding match_ok_def
proof (intro ballI impI)
  fix n p
  assume a: "n \<in> members c" "state (node s' n) = Leader" "p \<in> members c" "p \<noteq> n"
  note f = m [OF a]
  have "idx (matchIndex (node s n)) p = 0 \<or>
      (\<exists>req. (p, req) \<in> replied s \<and> ae_Term req = currentTerm (node s n) \<and> idx (matchIndex (node s n)) p \<le> reach req)"
    using lc_inv_parts(5) [OF i] a f unfolding match_ok_def by blast
  then show "idx (matchIndex (node s' n)) p = 0 \<or>
      (\<exists>req. (p, req) \<in> replied s' \<and> ae_Term req = currentTerm (node s' n) \<and> idx (matchIndex (node s' n)) p \<le> reach req)"
    using f rp by auto
qed

lemma lc_inv_step:
  assumes st: "lc_step c s s'" and i: "lc_inv c s"
  shows "lc_inv c s'"
proof -
  note p = lc_inv_parts [OF i] and q = repl_inv_parts [OF lc_inv_parts(1) [OF i]]
  have rs: "repl_step c (rc s) (rc s')" by (rule lc_repl [OF st p(1)])
  have r: "repl_inv c (rc s')" by (rule repl_inv_step [OF rs p(1)])
  have k: "cluster_step c (cl (rc s)) (cl (rc s')) \<or> cl (rc s') = cl (rc s)" by (rule repl_cluster_step [OF rs p(1)])
  from st show ?thesis
  proof cases
    case (lc_internal k')
    show ?thesis
    proof (rule lc_inv_steady [OF i k r])
      show "match_ok c s'"
        by (rule match_ok_step [OF i]) (use lc_internal step_stays(1) [OF lc_internal(2) q(1)] in auto)
    qed (use lc_internal(1,3) in \<open>auto simp: same_log_def\<close>)
  next
    case (lc_lead k' n)
    then show ?thesis by (intro lc_inv_lead [OF i lc_lead(2-6) lc_lead(1) r])
  next
    case (lc_flush n marshal af batch r')
    have f: "appended (node s n) r' \<and> clusterConfig r' = clusterConfig (node s n)" using flush_appended [OF q(2) [OF lc_flush(2)] lc_flush(3-5)] by blast
    have "clusterConfig r' = c" using f q(1) lc_flush(2) by (simp add: election_inv_def nodes_ok_def)
    then have k': "cluster_step c (cl (rc s)) (put_node n r' (cl (rc s)))" using quiet [OF lc_flush(2) quiet_flush [OF lc_flush(4)]] by simp
    show ?thesis by (rule lc_inv_appended [OF i lc_flush(2,3) _ _ _ k' lc_flush(1) r]) (use f flush_frame [of marshal af batch "node s n"] lc_flush(4) in auto)
  next
    case (lc_propose n marshal mjson af change r' err)
    have f: "appended (node s n) r' \<and> clusterConfig r' = clusterConfig (node s n)" using propose_appended [OF q(2) [OF lc_propose(2)] lc_propose(3-5)] by blast
    have "clusterConfig r' = c" using f q(1) lc_propose(2) by (simp add: election_inv_def nodes_ok_def)
    then have k': "cluster_step c (cl (rc s)) (put_node n r' (cl (rc s)))" using quiet [OF lc_propose(2) quiet_propose [OF lc_propose(4)]] by simp
    show ?thesis by (rule lc_inv_appended [OF i lc_propose(2,3) _ _ _ k' lc_propose(1) r]) (use f propose_frame [OF lc_propose(4)] in auto)
  next
    case (lc_send n ni nx req)
    show ?thesis by (rule lc_inv_steady [OF i k r]) (use lc_send(1) p(5) in \<open>auto simp: match_ok_def\<close>)
  next
    case (lc_beat n)
    show ?thesis by (rule lc_inv_steady [OF i k r]) (use lc_beat(1) p(5) in \<open>auto simp: match_ok_def\<close>)
  next
    case (lc_receive m req marshal pf af sf now order r' resp err')
    have k': "cluster_step c (cl (rc s)) (cl (rc s'))" using received_step [OF q(1) lc_receive(2,4)] lc_receive(1) by simp
    from lc_receive(4) show ?thesis
    proof (cases rule: received_cases)
      case refused
      then have "s' = s" using lc_receive(1) by (simp add: put_node_def)
      then show ?thesis using i by simp
    next
      case (handled r1)
      then show ?thesis by (intro lc_inv_resumed [OF i lc_receive(2,3) handled(1) _ _ _ _ _ lc_receive(1) k' r]) simp_all
    qed
  next
    case (lc_receive_resume m req marshal pf af now r' resp err')
    have h: "req \<in> msgs (rc s)" "m \<in> members c" "state (node s m) \<noteq> Leader" "state (node s m) \<noteq> Candidate"
      using q(11) [OF lc_receive_resume(2)] lc_receive_resume(3) by (auto simp: busy_def)
    have k': "cluster_step c (cl (rc s)) (cl (rc s'))" using resumed_step [OF q(1) h(2) lc_receive_resume(4)] lc_receive_resume(1) by simp
    show ?thesis by (rule lc_inv_resumed [OF i h(2,1) lc_receive_resume(4) _ _ _ _ _ lc_receive_resume(1) k' r]) (use h lc_receive_resume(3) in simp_all)
  next
    case (lc_receive_begin m req req' now r')
    have m: "matchIndex r' = matchIndex (node s m)" "state r' = Follower" "rlog r' = rlog (node s m)" by (simp_all add: lc_receive_begin(6) [symmetric])
    show ?thesis
    proof (rule lc_inv_steady [OF i k r])
      show "match_ok c s'" by (rule match_ok_step [OF i]) (use lc_receive_begin(1) m in \<open>auto split: if_splits\<close>)
    qed (use lc_receive_begin(1) m in auto)
  next
    case (lc_flush_begin n batch)
    show ?thesis by (rule lc_inv_steady [OF i k r]) (use lc_flush_begin(1) p(5) in \<open>auto simp: match_ok_def\<close>)
  next
    case (lc_flush_write n t es marshal af l err)
    let ?r' = "(node s n)\<lparr>rlog := l\<rparr>"
    have a: "appended (node s n) ?r'"
      by (rule appendedI [OF q(2) [OF lc_flush_write(3)] lc_flush_write(6)]) (use q(10) [OF lc_flush_write(2)] lc_flush_write(5,7) in auto)
    have "s' = s\<lparr>rc := (rc s)\<lparr>cl := put_node n ?r' (cl (rc s)), hist := (hst s)(currentTerm (node s n) := entries (rlog ?r'))\<rparr>\<rparr>"
      using lc_flush_write(1,5) by simp
    from lc_inv_appended [OF i lc_flush_write(3,4) a _ _ written_step [OF q(1) lc_flush_write(3)] this r] show ?thesis by simp
  next
    case (lc_flush_end n es batch err r')
    note f = flush_finish_frame [of es batch err "node s n"]
    show ?thesis
    proof (rule lc_inv_steady [OF i k r])
      show "match_ok c s'" by (rule match_ok_step [OF i]) (use lc_flush_end(1,3) f in \<open>auto split: if_splits\<close>)
    qed (use lc_flush_end(1,3) in auto)
  next
    case (lc_finish n r')
    have f: "matchIndex r' = matchIndex (node s n)" "currentTerm r' = currentTerm (node s n)" "state r' = state (node s n)" "rlog r' = rlog (node s n)"
      using lc_finish(3) by (auto simp: ProposeMembershipChange_finish_def)
    show ?thesis
    proof (rule lc_inv_steady [OF i k r])
      show "match_ok c s'" by (rule match_ok_step [OF i]) (use lc_finish(1) f in \<open>auto split: if_splits\<close>)
    qed (use lc_finish(1) f in auto)
  next
    case (lc_answer n m req sf now order ni resp r' next')
    have nd: "node s' x = (if x = n then r' else node s x)" for x by (simp add: lc_answer(1))
    show ?thesis
    proof (rule lc_inv_steady [OF i k r])
      show "match_ok c s'"
      proof (rule match_ok_step [OF i])
        fix x y
        assume x: "state (node s' x) = Leader"
        show "state (node s x) = Leader \<and> currentTerm (node s' x) = currentTerm (node s x) \<and>
            (idx (matchIndex (node s' x)) y = idx (matchIndex (node s x)) y \<or>
             (\<exists>req. (y, req) \<in> replied s' \<and> ae_Term req = currentTerm (node s x) \<and> idx (matchIndex (node s' x)) y \<le> reach req))"
        proof (cases "x = n")
          case True
          then have "state r' = Leader" using x by (simp add: nd)
          from answer_match [OF lc_answer(5) this] show ?thesis using True lc_answer(1,3) by (auto simp: nd)
        qed (use x in \<open>simp add: nd\<close>)
      qed (simp add: lc_answer(1))
      show "lg s' x = lg s x" for x using replicateTo_response_frame [OF lc_answer(5)] by (simp add: nd)
    qed (simp_all add: lc_answer(1))
  qed
qed

end
