(* ===== verification/CommitSafety.thy ===== *)
theory CommitSafety
  imports LeaderCompleteness "HOL-Library.Sublist"
begin

text \<open>
  What the leaders of a cluster commit. A leader raises its commit index by counting, and what was
  counted once stays: later leaders have it, and no two leaders commit different entries.
\<close>

section \<open>A leader commits by counting\<close>

text \<open>The commit index of a node points at an entry of its term that a majority has, by the node's own count.\<close>

definition counted :: "'sm RaftNode \<Rightarrow> bool" where
  "counted r \<longleftrightarrow>
     (\<exists>e. GetEntry (commitIndex r) (rlog r) = Inr e \<and> Term e = currentTerm r) \<and> Majority (clusterConfig r) \<le> replica_count (commitIndex r) r"

lemma replica_count_cong: "matchIndex r' = matchIndex r \<Longrightarrow> config r' = config r \<Longrightarrow> clusterConfig r' = clusterConfig r \<Longrightarrow> replica_count n r' = replica_count n r"
  by (simp add: replica_count_def)

lemma advance_counted: "commitIndex (advanceCommitIndex r) \<le> commitIndex r \<or> counted (advanceCommitIndex r)"
proof (cases "commitIndex (advanceCommitIndex r) = commitIndex r")
  case False
  let ?r = "advanceCommitIndex r"
  have "?r = commit_scan r (LastIndex (rlog r))" using False by (auto simp: advanceCommitIndex_def)
  then have "(\<exists>e. GetEntry (commitIndex ?r) (rlog r) = Inr e \<and> Term e = currentTerm r) \<and> Majority (clusterConfig r) \<le> replica_count (commitIndex ?r) r"
    using commit_scan_result [of r "LastIndex (rlog r)"] False by auto
  then show ?thesis using replica_count_cong [of ?r r] by (simp add: counted_def)
qed simp

lemma advance_counted_from: "commitIndex r0 = commitIndex r \<Longrightarrow> commitIndex (advanceCommitIndex r0) \<le> commitIndex r \<or> counted (advanceCommitIndex r0)"
  using advance_counted [of r0] by simp

lemma becomeLeader_counted: "commitIndex (becomeLeader marshal af t r) \<le> commitIndex r \<or> counted (becomeLeader marshal af t r)"
proof -
  let ?r = "reset_peers (other_peers (NodeID (config r)) (clusterConfig r)) (LastIndex (rlog r)) (r\<lparr>state := Leader\<rparr>)"
  have c: "commitIndex ?r = commitIndex r" by (simp add: reset_peers_def)
  have "commitIndex (becomeLeader marshal af t r) = commitIndex r \<or> (\<exists>l. becomeLeader marshal af t r = advanceCommitIndex (?r\<lparr>rlog := l\<rparr>))"
    using c by (auto simp: becomeLeader_def initLeaderState_def markFatalLocked_def Let_def split: option.splits prod.splits)
  then show ?thesis
  proof
    assume "\<exists>l. becomeLeader marshal af t r = advanceCommitIndex (?r\<lparr>rlog := l\<rparr>)"
    then obtain l where l: "becomeLeader marshal af t r = advanceCommitIndex (?r\<lparr>rlog := l\<rparr>)" ..
    show ?thesis unfolding l by (rule advance_counted_from) (simp add: c)
  qed simp
qed

lemma flush_finish_counted: "commitIndex (flush_finish es batch err r) \<le> commitIndex r \<or> counted (flush_finish es batch err r)"
proof (cases "state r \<noteq> Leader \<or> err \<noteq> None")
  case True
  then show ?thesis by (auto simp: flush_finish_def answer_all_def markStorageFailureLocked_def markFatalLocked_def)
next
  case False
  then show ?thesis unfolding flush_finish_def by (simp add: Let_def) (rule advance_counted_from, simp)
qed

lemma flush_counted: "commitIndex (flush marshal af batch r) \<le> commitIndex r \<or> counted (flush marshal af batch r)"
proof (cases "batch = [] \<or> state r \<noteq> Leader")
  case True
  then show ?thesis by (auto simp: flush_def answer_all_def)
next
  case False
  obtain l err where a: "Append marshal af (flush_entries batch r) (rlog r) = (l, err)" by fastforce
  then show ?thesis using False flush_finish_counted [of "flush_entries batch r" batch err "r\<lparr>rlog := l\<rparr>"] by (simp add: flush_def)
qed

lemma answer_counted:
  assumes "replicateTo_response sf now order p ni req resp r = (r', x)"
  shows "commitIndex r' \<le> commitIndex r \<or> counted r'"
proof -
  have m: "commitIndex (record_match p k r) = commitIndex r" for k by (simp add: record_match_def Let_def)
  have "commitIndex r' = commitIndex r \<or> (\<exists>k. r' = advanceCommitIndex (record_match p k r))"
    using assms by (auto simp: replicateTo_response_def Let_def split: if_splits)
  then show ?thesis using advance_counted_from [OF m] by auto
qed

text \<open>Every step that raises the commit index of a leader, or makes one that has a higher one, has counted.\<close>

lemma lc_step_counted:
  assumes "lc_step c s s'" "lc_inv c s" "n \<in> members c" "state (node s' n) = Leader"
  shows "commitIndex (node s' n) \<le> commitIndex (node s n) \<or> counted (node s' n)"
  using assms(1)
proof cases
  case (lc_internal k)
  then show ?thesis using assms(3,4) by auto
next
  case (lc_lead k m)
  note q = repl_inv_parts [OF lc_inv_parts(1) [OF assms(2)]]
  show ?thesis
  proof (cases "n = m")
    case True
    obtain r0 marshal af where "nodes k m = becomeLeader marshal af (currentTerm r0) r0" "commitIndex r0 = commitIndex (node s m)"
      by (rule step_new_leader [OF lc_lead(2) q(1) lc_lead(3-5)])
    then show ?thesis using lc_lead(1) True becomeLeader_counted [of marshal af "currentTerm r0" r0] by simp
  next
    case False
    obtain r0 where "\<forall>x. x \<noteq> m \<longrightarrow> nodes k x = node s x" by (rule step_new_leader [OF lc_lead(2) q(1) lc_lead(3-5)])
    then show ?thesis using lc_lead(1) False by simp
  qed
next
  case (lc_flush m marshal af batch r')
  then show ?thesis using flush_counted [of marshal af batch "node s m"] by auto
next
  case (lc_propose m marshal mjson af change r' err)
  have "commitIndex r' = commitIndex (node s m)"
    using lc_propose(4) by (auto simp: ProposeMembershipChange_def markStorageFailureLocked_def markFatalLocked_def Let_def split: if_splits prod.splits option.splits)
  then show ?thesis using lc_propose(1) by simp
next
  case (lc_receive p req marshal pf af sf now order r' resp err')
  from lc_receive(4) show ?thesis
  proof (cases rule: received_cases)
    case (handled r1)
    then show ?thesis using lc_receive(1) assms(4) resume_keeps [OF handled(1)] by (cases "n = p") auto
  qed (use lc_receive(1) in auto)
next
  case (lc_answer m p req sf now order ni resp r' next')
  then show ?thesis using answer_counted [OF lc_answer(5)] by auto
next
  case (lc_finish m r')
  then show ?thesis using advance_counted [of "node s m"] by (auto simp: ProposeMembershipChange_finish_def)
next
  case (lc_flush_end m es batch err r')
  then show ?thesis using flush_finish_counted [of es batch err "node s m"] by auto
next
  case (lc_receive_begin p req req' now r')
  then show ?thesis by auto
next
  case (lc_receive_resume p req marshal pf af now r' resp err')
  have "state (node s p) \<noteq> Leader"
    using repl_inv_parts(11) [OF lc_inv_parts(1) [OF assms(2)] lc_receive_resume(2)] lc_receive_resume(3) by (auto simp: busy_def)
  then show ?thesis using lc_receive_resume(1) assms(4) resume_keeps [OF lc_receive_resume(4)] by (cases "n = p") auto
qed simp_all

section \<open>Runs\<close>

lemma lc_inv_init: "lc_init c s \<Longrightarrow> lc_inv c s"
proof -
  assume a: "lc_init c s"
  then have i: "repl_init c (rc s)" and rp: "replied s = {}" by (simp_all add: lc_init_def)
  have h: "hst s = (\<lambda>_. [])" and e: "\<And>n. n \<in> members c \<Longrightarrow> lg s n = []" and q: "requests (cl (rc s)) = {}" "votes (cl (rc s)) = {}"
    and l: "\<And>n. n \<in> members c \<Longrightarrow> state (node s n) \<noteq> Leader"
    using i by (auto simp: repl_init_def cluster_init_def)
  have "terms_ok c s" using e by (simp add: terms_ok_def h terms_sorted_def)
  moreover have "replied_ok c s" "requests_ok c s" "votes_safe c s" by (simp_all add: replied_ok_def requests_ok_def votes_safe_def rp q)
  moreover have "match_ok c s" using l by (simp add: match_ok_def)
  moreover have "histories_safe c s" "logs_safe c s" by (simp_all add: histories_safe_def logs_safe_def own_def h)
  ultimately show ?thesis using repl_inv_init [OF i] by (simp add: lc_inv_def)
qed

lemma lc_inv_run: "(lc_step c)\<^sup>*\<^sup>* s s' \<Longrightarrow> lc_inv c s \<Longrightarrow> lc_inv c s'"
  by (induction rule: rtranclp_induct) (auto intro: lc_inv_step)

text \<open>Along a run histories grow, answers stay and the leader of a term stays the same.\<close>

definition remembers :: "'sm lc_cluster \<Rightarrow> 'sm lc_cluster \<Rightarrow> bool" where
  "remembers s s' \<longleftrightarrow> extends (hst s) (hst s') \<and> replied s \<subseteq> replied s' \<and>
     (\<forall>t. hst s t \<noteq> [] \<longrightarrow> repl_cluster.lead (rc s') t = repl_cluster.lead (rc s) t)"

lemma extends_trans: "extends A B \<Longrightarrow> extends B C \<Longrightarrow> extends A C"
  unfolding extends_def by (metis append_assoc)

lemma remembers_trans: "remembers a b \<Longrightarrow> remembers b c \<Longrightarrow> remembers a c"
  unfolding remembers_def by (metis extends_nonempty extends_trans subset_trans)

lemma remembers_appended:
  assumes "lc_inv c s" "n \<in> members c" "state (node s n) = Leader" "appended (node s n) r'" "hst s' = (hst s)(currentTerm (node s n) := entries (rlog r'))"
    "replied s' = replied s" "repl_cluster.lead (rc s') = repl_cluster.lead (rc s)"
  shows "remembers s s'"
proof -
  have h: "hst s (currentTerm (node s n)) = lg s n" using repl_inv_parts(6) [OF lc_inv_parts(1) [OF assms(1)] assms(2,3)] .
  obtain es where "entries (rlog r') = lg s n @ es" using assms(4) by (auto simp: appended_def)
  then have "extends (hst s) (hst s')" unfolding assms(5) by (intro extends_upd) (simp add: h)
  then show ?thesis using assms(6,7) by (simp add: remembers_def)
qed

lemma lc_step_remembers:
  assumes "lc_step c s s'" "lc_inv c s"
  shows "remembers s s'"
  using assms(1)
proof cases
  case (lc_lead k n)
  have "hst s (currentTerm (nodes k n)) = []" using new_leader_log [OF lc_inv_parts(1) [OF assms(2)] lc_lead(2-6)] by metis
  then show ?thesis using lc_lead(1) by (auto simp: remembers_def extends_def)
next
  case (lc_flush n marshal af batch r')
  show ?thesis
    by (rule remembers_appended [OF assms(2) lc_flush(2,3), of r'])
      (use flush_appended [OF repl_inv_parts(2) [OF lc_inv_parts(1) [OF assms(2)] lc_flush(2)] lc_flush(3-5)] lc_flush(1) in auto)
next
  case (lc_propose n marshal mjson af change r' err)
  show ?thesis
    by (rule remembers_appended [OF assms(2) lc_propose(2,3), of r'])
      (use propose_appended [OF repl_inv_parts(2) [OF lc_inv_parts(1) [OF assms(2)] lc_propose(2)] lc_propose(3-5)] lc_propose(1) in auto)
next
  case (lc_flush_write n t es marshal af l err)
  note q = repl_inv_parts [OF lc_inv_parts(1) [OF assms(2)]]
  have "appended (node s n) ((node s n)\<lparr>rlog := l\<rparr>)"
    by (rule appendedI [OF q(2) [OF lc_flush_write(3)] lc_flush_write(6)]) (use q(10) [OF lc_flush_write(2)] lc_flush_write(5,7) in auto)
  from remembers_appended [OF assms(2) lc_flush_write(3,4) this, of s'] show ?thesis using lc_flush_write(1,5) by simp
qed (auto simp: remembers_def)

lemma lc_run_remembers: "(lc_step c)\<^sup>*\<^sup>* s s' \<Longrightarrow> lc_inv c s \<Longrightarrow> remembers s s'"
proof (induction rule: rtranclp_induct)
  case (step y z)
  then show ?case using remembers_trans [OF _ lc_step_remembers [OF step(2) lc_inv_run [OF step(1,4)]]] by blast
qed (simp add: remembers_def)

section \<open>Chosen entries\<close>

text \<open>A quorum has acknowledged the entry at index \<open>i\<close> of term \<open>t\<close>, and the entry is of that term.\<close>

definition chosen :: "peers \<Rightarrow> 'sm lc_cluster \<Rightarrow> uint64 \<Rightarrow> nat \<Rightarrow> bool" where
  "chosen c s t i \<longleftrightarrow> own (hst s) t i \<and> (\<exists>Q. is_quorum c Q \<and> (\<forall>q \<in> Q. acked s q t i))"

lemma acked_remembers: "remembers s s' \<Longrightarrow> acked s q t i \<Longrightarrow> acked s' q t i"
  using extends_nonempty [of "hst s" "hst s'" t] extends_length [of "hst s" "hst s'" t] by (auto simp: acked_def remembers_def)

lemma chosen_remembers: "remembers s s' \<Longrightarrow> chosen c s t i \<Longrightarrow> chosen c s' t i"
  using own_extends [of "hst s" "hst s'" t i] acked_remembers [of s s' _ t i] unfolding chosen_def remembers_def by blast

lemma chosen_not_blocked: "chosen c s t i \<Longrightarrow> \<not> blocked c s t i"
proof
  assume a: "chosen c s t i" "blocked c s t i"
  obtain Q R where q: "is_quorum c Q" "\<forall>q \<in> Q. acked s q t i" "is_quorum c R" "\<forall>q \<in> R. \<not> acked s q t i"
    using a unfolding chosen_def blocked_def by blast
  have "Q \<inter> R \<noteq> {}" by (rule maj.overlap [OF q(1,3)])
  then show False using q(2,4) by blast
qed

text \<open>What is chosen stands in the history of every later term.\<close>

lemma chosen_later:
  assumes "lc_inv c s" "chosen c s t i" "t \<le> u" "hst s u \<noteq> []"
  shows "has (hst s) t i (hst s u)"
proof (cases "t = u")
  case True
  then show ?thesis using assms(2) by (simp add: chosen_def own_def has_def)
next
  case False
  then have "safe c s t i (hst s u)" using lc_inv_parts(6) [OF assms(1)] assms(2-4) by (simp add: histories_safe_def chosen_def)
  then show ?thesis using chosen_not_blocked [OF assms(2)] by (simp add: safe_def)
qed

lemma counted_chosen:
  assumes i: "lc_inv c s" and n: "n \<in> members c" "state (node s n) = Leader" "counted (node s n)" and d: "distinct (map fst c)"
  shows "chosen c s (currentTerm (node s n)) (commitIndex (node s n))"
proof -
  let ?r = "node s n" and ?N = "commitIndex (node s n)" and ?t = "currentTerm (node s n)"
  note q = repl_inv_parts [OF lc_inv_parts(1) [OF i]]
  have c: "clusterConfig ?r = c" "NodeID (config ?r) = n" using q(1) n(1) by (auto simp: election_inv_def nodes_ok_def)
  have h: "hst s ?t = lg s n" "hst s ?t \<noteq> []" using q(6,7) [OF n(1,2)] by simp_all
  obtain e where e: "GetEntry ?N (rlog ?r) = Inr e" "Term e = ?t" and m: "Majority c \<le> replica_count ?N ?r" using n(3) c(1) by (auto simp: counted_def)
  have N: "0 < ?N" "?N \<le> length (lg s n)" "e = lg s n ! (?N - 1)"
    using e(1) q(3) [OF n(1)] by (auto simp: GetEntry_def Let_def split: if_splits)
  have o: "own (hst s) ?t ?N" using N e(2) h(1) by (simp add: own_def)
  have "is_quorum c (holders ?r ?N)" using replica_count_holders [of ?r ?N] c d n(1) m by (simp add: is_quorum_def)
  moreover have "acked s p ?t ?N" if p: "p \<in> holders ?r ?N" for p
  proof (cases "p = n")
    case True
    then show ?thesis using lead_of_leader [OF lc_inv_parts(1) [OF i] n(1,2)] h N(2) by (simp add: acked_def)
  next
    case False
    then have "p \<in> members c" "?N \<le> idx (matchIndex ?r) p" using p c by (auto simp: holders_def)
    then obtain req where "(p, req) \<in> replied s" "ae_Term req = ?t" "?N \<le> reach req"
      using lc_inv_parts(5) [OF i] n(1,2) N(1) False unfolding match_ok_def by (metis le_trans leD le_zero_eq not_gr_zero)
    then show ?thesis by (auto simp: acked_def)
  qed
  ultimately show ?thesis using o unfolding chosen_def by blast
qed

section \<open>Leader completeness\<close>

lemma committed_chosen:
  assumes "lc_inv c s" "lc_step c s s'" "distinct (map fst c)" "n \<in> members c" "state (node s' n) = Leader" "commitIndex (node s n) < commitIndex (node s' n)"
  shows "lc_inv c s'" "chosen c s' (currentTerm (node s' n)) (commitIndex (node s' n))" "hst s' (currentTerm (node s' n)) = lg s' n"
proof -
  show i: "lc_inv c s'" by (rule lc_inv_step [OF assms(2,1)])
  have "counted (node s' n)" using lc_step_counted [OF assms(2,1,4,5)] assms(6) by auto
  then show "chosen c s' (currentTerm (node s' n)) (commitIndex (node s' n))" by (rule counted_chosen [OF i assms(4,5) _ assms(3)])
  show "hst s' (currentTerm (node s' n)) = lg s' n" by (rule repl_inv_parts(6) [OF lc_inv_parts(1) [OF i] assms(4,5)])
qed

text \<open>
  C3: leader completeness. In a cluster with a fixed configuration and without snapshots, through any
  interleaving of elections, flushes, membership proposals, messages and answers that are lost,
  repeated, delayed and reordered, with failing writes, with handlers and flushes interrupted where
  they release their node's lock, provided that an interrupted \<^verbatim>\<open>AppendEntries\<close> goes on in the term
  of its message, a batch is written while its node still leads the term in which it was taken up,
  and a node that restarts finds its term, vote and log: when a step raises the commit index of a
  leader, whether by an answer of a follower, a flush, a proposal or its own election, every leader
  of the same or a later term, then and at any later time, has in its log the same entries up to
  that index.
\<close>

theorem leader_completeness:
  assumes "lc_init c s0" "(lc_step c)\<^sup>*\<^sup>* s0 s" "distinct (map fst c)" "lc_step c s s1"
    and n: "n \<in> members c" "state (node s1 n) = Leader" "commitIndex (node s n) < commitIndex (node s1 n)"
    and "(lc_step c)\<^sup>*\<^sup>* s1 s'" and m: "m \<in> members c" "state (node s' m) = Leader" "currentTerm (node s1 n) \<le> currentTerm (node s' m)"
  shows "commitIndex (node s1 n) \<le> length (lg s1 n) \<and> take (commitIndex (node s1 n)) (lg s' m) = take (commitIndex (node s1 n)) (lg s1 n)"
proof -
  let ?t = "currentTerm (node s1 n)" and ?N = "commitIndex (node s1 n)" and ?u = "currentTerm (node s' m)"
  note c1 = committed_chosen [OF lc_inv_run [OF assms(2) lc_inv_init [OF assms(1)]] assms(4,3) n]
  have i: "lc_inv c s'" by (rule lc_inv_run [OF assms(8) c1(1)])
  have r: "remembers s1 s'" by (rule lc_run_remembers [OF assms(8) c1(1)])
  have N: "?N \<le> length (hst s1 ?t)" using c1(2) by (simp add: chosen_def own_def)
  have l: "hst s' ?u = lg s' m" "lg s' m \<noteq> []" using repl_inv_parts(6,7) [OF lc_inv_parts(1) [OF i] m(1,2)] .
  then have "has (hst s') ?t ?N (lg s' m)" using chosen_later [OF i chosen_remembers [OF r c1(2)] m(3)] by simp
  moreover have "take ?N (hst s' ?t) = take ?N (hst s1 ?t)" using r N by (simp add: remembers_def extends_take)
  ultimately show ?thesis using N c1(3) by (simp add: has_def)
qed

text \<open>
  C4: leaders agree on what they commit. Whatever two leaders commit at different times of such a
  run (fixed configuration, no snapshots, an interrupted \<^verbatim>\<open>AppendEntries\<close> goes on in the term of its
  message, a batch is written while its node still leads its term, restarts find term, vote and log),
  in either order of their terms, one's committed entries are a prefix of the other's.
\<close>

theorem leaders_commit_the_same:
  assumes "lc_init c s0" "(lc_step c)\<^sup>*\<^sup>* s0 s" "distinct (map fst c)" "lc_step c s s1"
    and n: "n \<in> members c" "state (node s1 n) = Leader" "commitIndex (node s n) < commitIndex (node s1 n)"
    and "(lc_step c)\<^sup>*\<^sup>* s1 s2" "lc_step c s2 s3" and m: "m \<in> members c" "state (node s3 m) = Leader" "commitIndex (node s2 m) < commitIndex (node s3 m)"
  shows "prefix (take (commitIndex (node s1 n)) (lg s1 n)) (take (commitIndex (node s3 m)) (lg s3 m)) \<or>
    prefix (take (commitIndex (node s3 m)) (lg s3 m)) (take (commitIndex (node s1 n)) (lg s1 n))"
proof -
  let ?t = "currentTerm (node s1 n)" and ?N = "commitIndex (node s1 n)" and ?u = "currentTerm (node s3 m)" and ?M = "commitIndex (node s3 m)"
  let ?A = "take ?N (hst s3 ?t)" and ?B = "take ?M (hst s3 ?u)"
  note c1 = committed_chosen [OF lc_inv_run [OF assms(2) lc_inv_init [OF assms(1)]] assms(4,3) n]
  note c3 = committed_chosen [OF lc_inv_run [OF assms(8) c1(1)] assms(9,3) m]
  have r: "remembers s1 s3" using remembers_trans [OF lc_run_remembers [OF assms(8) c1(1)] lc_step_remembers [OF assms(9) lc_inv_run [OF assms(8) c1(1)]]] .
  have ch: "chosen c s3 ?t ?N" by (rule chosen_remembers [OF r c1(2)])
  have N: "?N \<le> length (hst s1 ?t)" using c1(2) by (simp add: chosen_def own_def)
  have "take ?N (hst s3 ?t) = take ?N (hst s1 ?t)" using r N by (simp add: remembers_def extends_take)
  then have e: "take ?N (lg s1 n) = ?A" "take ?M (lg s3 m) = ?B" using c1(3) c3(3) by simp_all
  have h: "hst s3 ?t \<noteq> []" "hst s3 ?u \<noteq> []" using ch c3(2) by (auto simp: chosen_def own_def)
  have "\<exists>h. ?A = take ?N h \<and> ?B = take ?M h"
  proof (cases "?t \<le> ?u")
    case True
    then show ?thesis using chosen_later [OF c3(1) ch True h(2)] by (intro exI [of _ "hst s3 ?u"]) (simp add: has_def)
  next
    case False
    then have "has (hst s3) ?u ?M (hst s3 ?t)" using chosen_later [OF c3(1,2) _ h(1)] by simp
    then show ?thesis by (intro exI [of _ "hst s3 ?t"]) (simp add: has_def)
  qed
  then obtain x where "?A = take ?N x" "?B = take ?M x" by blast
  then show ?thesis unfolding e by (metis prefix_same_cases take_is_prefix)
qed

section \<open>Example\<close>

text \<open>Node \<^verbatim>\<open>a\<close> is elected, sends its no-op to \<^verbatim>\<open>b\<close>, which answers, and commits it.\<close>

definition demo_lc :: "unit lc_cluster" where
  "demo_lc = \<lparr>rc = demo_repl, replied = {}\<rparr>"

lemma demo_lc_init: "lc_init demo_peers demo_lc"
  using demo_repl_init by (simp add: lc_init_def demo_lc_def)

abbreviation demo_message :: AppendEntriesRequest where
  "demo_message \<equiv> demo_append 1 ''a'' [demo_noop] 0"

lemma demo_accepted:
  "\<exists>r resp. processAppendEntries (\<lambda>_. []) None None False 0 [] (Some demo_message) demo_voter = (r, resp, None) \<and> aer_Success resp"
  by (simp add: demo_voter_def handleRequestVote_eq demo_request_def leader_alive_def log_up_to_date_def LastTerm_def demo_noop_def demo_eval)

lemma demo_answered:
  "\<exists>r x. replicateTo_response False 0 [] ''b'' 1 demo_message \<lparr>aer_Term = 1, aer_Success = True, aer_ConflictIndex = 0, aer_ConflictTerm = 0\<rparr> demo_leader = (r, x) \<and>
     state r = Leader \<and> commitIndex r = 1 \<and> rlog r = rlog demo_leader"
  by (simp add: demo_leader_defs replicateTo_response_def record_match_def idx_def demo_append_def demo_noop_def advanceCommitIndex_def
      commit_scan.simps replica_count_def other_peers_def Let_def)

lemma demo_lc_run:
  "\<exists>s s1. (lc_step demo_peers)\<^sup>*\<^sup>* demo_lc s \<and> lc_step demo_peers s s1 \<and> state (node s1 ''a'') = Leader \<and>
     commitIndex (node s ''a'') = 0 \<and> commitIndex (node s1 ''a'') = 1 \<and> lg s1 ''a'' = [demo_noop]"
proof -
  obtain s1 s2 s3 where s: "cluster_step demo_peers demo_cluster s1" "cluster_step demo_peers s1 s2" "cluster_step demo_peers s2 s3"
    and n: "nodes s1 = demo_node(''a'' := demo_candidate)" "nodes s2 = demo_node(''a'' := demo_candidate, ''b'' := demo_voter)"
      "nodes s3 = demo_node(''a'' := demo_leader, ''b'' := demo_voter)"
    using demo_steps by blast
  have st: "state (demo_node m) = Follower" for m by (simp add: demo_defs)
  have mem: "''a'' \<in> members demo_peers" "''b'' \<in> members demo_peers" by (simp_all add: members_def demo_peers_def)
  let ?s1 = "demo_lc\<lparr>rc := (rc demo_lc)\<lparr>cl := s1\<rparr>\<rparr>" and ?s2 = "demo_lc\<lparr>rc := (rc demo_lc)\<lparr>cl := s2\<rparr>\<rparr>"
  have c0: "cl (rc demo_lc) = demo_cluster" "nodes demo_cluster = demo_node" by (simp_all add: demo_lc_def demo_repl_def demo_cluster_def)
  have 1: "lc_step demo_peers demo_lc ?s1"
    by (rule lc_internal) (use s(1) n(1) c0 in \<open>auto simp: same_log_def demo_logs st split: if_splits\<close>)
  have "lc_step demo_peers ?s1 (?s1\<lparr>rc := (rc ?s1)\<lparr>cl := s2\<rparr>\<rparr>)"
    by (rule lc_internal) (use s(2) n(1,2) in \<open>auto simp: same_log_def demo_logs st split: if_splits\<close>)
  then have 2: "lc_step demo_peers ?s1 ?s2" by simp
  let ?t = "currentTerm (nodes s3 ''a'')"
  let ?s3 = "?s2\<lparr>rc := (rc ?s2)\<lparr>cl := s3, hist := (hst ?s2)(?t := entries (rlog (nodes s3 ''a''))), lead := (repl_cluster.lead (rc ?s2))(?t := ''a'')\<rparr>\<rparr>"
  have "LastIndex (rlog demo_candidate) = 0" by (simp add: demo_logs(3) demo_defs LastIndex_def)
  then have 3: "lc_step demo_peers ?s2 ?s3"
    by (intro lc_lead [OF _ mem(1)]) (use s(3) n(2,3) in \<open>simp_all add: demo_logs demo_leader_fields\<close>)
  let ?s4 = "?s3\<lparr>rc := (rc ?s3)\<lparr>msgs := insert demo_message (msgs (rc ?s3))\<rparr>\<rparr>"
  have 4: "lc_step demo_peers ?s3 ?s4" by (rule lc_send [OF mem(1), of 1 _ 1]) (use n(3) demo_sent in simp)
  obtain r resp where r: "processAppendEntries (\<lambda>_. []) None None False 0 [] (Some demo_message) demo_voter = (r, resp, None)" "aer_Success resp"
    using demo_accepted by blast
  let ?s5 = "?s4\<lparr>rc := (rc ?s4)\<lparr>cl := put_node ''b'' r (cl (rc ?s4))\<rparr>, replied := (if aer_Success resp then insert (''b'', demo_message) (replied ?s4) else replied ?s4)\<rparr>"
  have 5: "lc_step demo_peers ?s4 ?s5" by (rule lc_receive [OF mem(2)]) (use n(3) r(1) in simp_all)
  obtain r' x where r': "replicateTo_response False 0 [] ''b'' 1 demo_message \<lparr>aer_Term = 1, aer_Success = True, aer_ConflictIndex = 0, aer_ConflictTerm = 0\<rparr> demo_leader = (r', x)"
      "state r' = Leader" "commitIndex r' = 1" "rlog r' = rlog demo_leader"
    using demo_answered by blast
  let ?s6 = "?s5\<lparr>rc := (rc ?s5)\<lparr>cl := put_node ''a'' r' (cl (rc ?s5))\<rparr>\<rparr>"
  have 6: "lc_step demo_peers ?s5 ?s6" by (rule lc_answer [OF mem(1)]) (use n(3) r(2) r'(1) in simp_all)
  have "(lc_step demo_peers)\<^sup>*\<^sup>* demo_lc ?s5" using 1 2 3 4 5 by (meson converse_rtranclp_into_rtranclp rtranclp.rtrancl_refl)
  moreover have "commitIndex demo_leader = 0" by (simp add: demo_leader_defs)
  ultimately show ?thesis using 6 n(3) r' demo_logs(4) by (intro exI [of _ ?s5] exI [of _ ?s6]) (simp add: demo_noop_def)
qed

theorem leader_completeness_witness:
  "\<exists>s. (lc_step demo_peers)\<^sup>*\<^sup>* demo_lc s \<and> commitIndex (node s ''a'') = 1 \<and> commitIndex (node s ''a'') \<le> length (lg s ''a'')"
proof -
  obtain s s1 where s: "(lc_step demo_peers)\<^sup>*\<^sup>* demo_lc s" "lc_step demo_peers s s1" "state (node s1 ''a'') = Leader"
    "commitIndex (node s ''a'') = 0" "commitIndex (node s1 ''a'') = 1" using demo_lc_run by blast
  have m: "''a'' \<in> members demo_peers" "distinct (map fst demo_peers)" by (simp_all add: members_def demo_peers_def)
  have "commitIndex (node s1 ''a'') \<le> length (lg s1 ''a'')"
    using leader_completeness [OF demo_lc_init s(1) m(2) s(2) m(1) s(3) _ rtranclp.rtrancl_refl m(1) s(3) order_refl] s(4,5) by simp
  then show ?thesis using s by (intro exI [of _ s1]) (simp add: rtranclp.rtrancl_into_rtrancl)
qed

text \<open>A cluster of one server commits its no-op when it elects itself, and a command when it flushes it.\<close>

definition solo_peers :: peers where
  "solo_peers = [(''a'', [])]"

definition solo_node :: "unit RaftNode" where
  "solo_node = new_node 0 ((DefaultConfig ''a'')\<lparr>Peers := solo_peers\<rparr>) (newPersistentState ''./data'' None) newRaftLog ()
     \<lparr>nf_state = None, nf_wal = None, nf_snapshot = None, nf_meta = None\<rparr>"

definition solo_lc :: "unit lc_cluster" where
  "solo_lc = \<lparr>rc = \<lparr>cl = \<lparr>nodes = (\<lambda>_. solo_node), ballots = (\<lambda>n t. None), requests = {}, answers = {}, saves = {}, waiting = {}, votes = {}\<rparr>,
     msgs = {}, batches = {}, handling = {}, hist = (\<lambda>_. []), lead = (\<lambda>_. [])\<rparr>, replied = {}\<rparr>"

definition solo_candidate :: "unit RaftNode" where
  "solo_candidate = fst (startElection False 0 solo_node)"

definition solo_leader :: "unit RaftNode" where
  "solo_leader = becomeLeader (\<lambda>_. []) None 1 solo_candidate"

lemmas solo_defs = solo_node_def solo_peers_def new_node_def DefaultConfig_def newPersistentState_def newRaftLog_def
lemmas solo_eval = solo_leader_def solo_candidate_def solo_defs startElection_eq becomeLeader_def initLeaderState_def Append_def
  appendWALToDiskLocked_def reset_peers_def LastIndex_def Let_def Majority_def Size_def other_peers_def SaveTermAndVote_def advanceCommitIndex_def
  commit_scan.simps GetEntry_def replica_count_def

lemma solo_init: "lc_init solo_peers solo_lc"
  by (auto simp: lc_init_def solo_lc_def repl_init_def cluster_init_def solo_defs members_def saved_def log_wf_def)

lemma solo_elected: "startElection False 0 solo_node = (solo_candidate, ElectionWon 1)"
  by (simp add: solo_candidate_def solo_defs startElection_eq Majority_def Size_def)

lemma solo_leads: "state solo_leader = Leader" "currentTerm solo_leader = 1" "commitIndex solo_leader = 1" "LastIndex (rlog solo_leader) = 1"
  by (simp_all add: solo_eval)

lemma solo_flushes: "state (flush (\<lambda>_. []) None [([], 0)] solo_leader) = Leader \<and> commitIndex (flush (\<lambda>_. []) None [([], 0)] solo_leader) = 2"
  by (simp add: solo_eval flush_def flush_finish_def flush_entries_def enumerate_eq_zip)

theorem leaders_commit_the_same_witness:
  "\<exists>s s'. lc_step solo_peers solo_lc s \<and> lc_step solo_peers s s' \<and> commitIndex (node s ''a'') = 1 \<and> commitIndex (node s' ''a'') = 2 \<and>
     (prefix (take 1 (lg s ''a'')) (take 2 (lg s' ''a'')) \<or> prefix (take 2 (lg s' ''a'')) (take 1 (lg s ''a'')))"
proof -
  let ?k = "(put_node ''a'' solo_leader (cl (rc solo_lc)))\<lparr>votes := insert (''a'', 1, ''a'') (votes (cl (rc solo_lc)))\<rparr>"
  have mem: "''a'' \<in> members solo_peers" "distinct (map fst solo_peers)" by (simp_all add: members_def solo_peers_def)
  have z: "node solo_lc ''a'' = solo_node" "state solo_node = Follower" "currentTerm solo_node = 0" "commitIndex solo_node = 0" "LastIndex (rlog solo_node) = 0"
    by (simp_all add: solo_lc_def solo_defs LastIndex_def)
  have k: "cluster_step solo_peers (cl (rc solo_lc)) ?k"
    unfolding solo_leader_def by (rule elect_alone [OF mem(1)]) (use z solo_elected in simp_all)
  define s where "s = solo_lc\<lparr>rc := (rc solo_lc)\<lparr>cl := ?k, hist := (hst solo_lc)(currentTerm (nodes ?k ''a'') := entries (rlog (nodes ?k ''a''))),
       lead := (repl_cluster.lead (rc solo_lc))(currentTerm (nodes ?k ''a'') := ''a'')\<rparr>\<rparr>"
  have 1: "lc_step solo_peers solo_lc s" unfolding s_def by (rule lc_lead [OF k mem(1)]) (use z solo_leads in simp_all)
  have n: "node s ''a'' = solo_leader" by (simp add: s_def)
  define s' where "s' = s\<lparr>rc := (rc s)\<lparr>cl := put_node ''a'' (flush (\<lambda>_. []) None [([], 0)] solo_leader) (cl (rc s)),
      hist := (hst s)(currentTerm (node s ''a'') := entries (rlog (flush (\<lambda>_. []) None [([], 0)] solo_leader)))\<rparr>\<rparr>"
  have 2: "lc_step solo_peers s s'" unfolding s'_def by (rule lc_flush [OF mem(1), where marshal = "\<lambda>_. []" and af = None and batch = "[([], 0)]"]) (use n solo_leads in simp_all)
  have n': "node s' ''a'' = flush (\<lambda>_. []) None [([], 0)] solo_leader" by (simp add: s'_def)
  have c: "commitIndex (node s ''a'') = 1" "commitIndex (node s' ''a'') = 2" unfolding n n' using solo_leads solo_flushes by blast+
  have st: "state (node s ''a'') = Leader" "state (node s' ''a'') = Leader" unfolding n n' using solo_leads solo_flushes by blast+
  have l: "commitIndex (node solo_lc ''a'') < commitIndex (node s ''a'')" "commitIndex (node s ''a'') < commitIndex (node s' ''a'')"
    using c z by simp_all
  note leaders_commit_the_same [OF solo_init rtranclp.rtrancl_refl mem(2) 1 mem(1) st(1) l(1) rtranclp.rtrancl_refl 2 mem(1) st(2) l(2)]
  then show ?thesis using 1 2 c by (intro exI [of _ s] exI [of _ s']) simp
qed

end
