(* ===== verification/GRPC.thy ===== *)
theory GRPC
  imports RaftTypes
begin

text \<open>
  What the components that speak gRPC share: the status codes of \<^verbatim>\<open>google.golang.org/grpc/codes\<close>
  (without \<^verbatim>\<open>OK\<close>, which is no error), errors as a handler returns them, and the text of the
  errors of the consensus layer (\<^verbatim>\<open>internal/raft/errors.go\<close>).
\<close>

datatype grpc_code =
    Canceled | Unknown | InvalidArgument | DeadlineExceeded | NotFound | AlreadyExists | PermissionDenied
  | ResourceExhausted | FailedPrecondition | Aborted | OutOfRange | Unimplemented | Internal | Unavailable
  | DataLoss | Unauthenticated

text \<open>
  A status with its message, of which the fixed part is kept, or an error of the consensus layer
  that a handler hands on as it is.
\<close>

datatype grpc_error = Status grpc_code string | RaftFailure raft_error

fun raft_error_text :: "raft_error \<Rightarrow> string" where
  "raft_error_text ErrOutOfRange = ''log index out of range''"
| "raft_error_text ErrNonContiguousLog = ''log entries are not contiguous''"
| "raft_error_text ErrCorruptLog = ''raft log is corrupt''"
| "raft_error_text ErrStorageUnavailable = ''raft storage is unavailable''"
| "raft_error_text ErrNotLeader = ''node is not the leader''"
| "raft_error_text ErrLeaderNotReady = ''leader has not yet committed its no-op entry; read index not safe''"
| "raft_error_text ErrLogCompacted = ''log entry has been compacted''"
| "raft_error_text ErrSnapshotStale = ''snapshot is older than the installed boundary''"
| "raft_error_text ErrSnapshotBoundaryMismatch = ''snapshot boundary term does not match''"
| "raft_error_text ErrInvalidSnapshot = ''snapshot is invalid''"
| "raft_error_text ErrSnapshotUnavailable = ''snapshot is unavailable''"
| "raft_error_text ErrSnapshotOffset = ''snapshot chunk offset is invalid''"
| "raft_error_text ErrSnapshotChecksum = ''snapshot checksum mismatch''"
| "raft_error_text ErrSnapshotChunkMismatch = ''snapshot chunk conflicts with staged data''"
| "raft_error_text ErrNodeUnhealthy = ''raft node is unhealthy''"
| "raft_error_text ErrMembershipChangePending = ''a membership change is already pending''"
| "raft_error_text ErrProposeChannelFull = ''propose channel is full''"
| "raft_error_text (OtherError s) = s"

text \<open>
  \<^verbatim>\<open>status.FromError\<close> on an error that came over the wire: a handler's plain error reaches the
  caller with the code \<open>Unknown\<close>.
\<close>

fun error_code :: "grpc_error \<Rightarrow> grpc_code" where
  "error_code (Status c _) = c"
| "error_code (RaftFailure _) = Unknown"

end
