(* ===== verification/RaftRPC.thy ===== *)
theory RaftRPC
  imports Election Replication RaftSnapshot GRPC
begin

text \<open>
  The RPCs between nodes: the messages of \<^verbatim>\<open>proto/raft/raft.proto\<close>, the server side that turns
  them into requests of the node (\<^verbatim>\<open>internal/server/raft_handler.go\<close>), and the transport that
  sends them (\<^verbatim>\<open>internal/raft/grpc_transport.go\<close>).
\<close>

section \<open>Messages\<close>

text \<open>
  The messages have the fields of the internal types; only the type of an entry, a Go \<^verbatim>\<open>int\<close>, is
  an enumeration of 32 bits on the wire.
\<close>

definition to_int32 :: "int \<Rightarrow> int" where
  "to_int32 i = (i + 2 ^ 31) mod 2 ^ 32 - 2 ^ 31"

record pb_LogEntry =
  pb_Index :: uint64
  pb_Term :: uint64
  pb_Command :: bytes
  pb_Type :: int

record pb_RequestVoteRequest =
  pbv_Term :: uint64
  pbv_CandidateId :: string
  pbv_LastLogIndex :: uint64
  pbv_LastLogTerm :: uint64
  pbv_PreVote :: bool

record pb_RequestVoteResponse =
  pbvr_Term :: uint64
  pbvr_VoteGranted :: bool

record pb_AppendEntriesRequest =
  pba_Term :: uint64
  pba_LeaderId :: string
  pba_PrevLogIndex :: uint64
  pba_PrevLogTerm :: uint64
  pba_Entries :: "pb_LogEntry list"
  pba_LeaderCommit :: uint64

record pb_AppendEntriesResponse =
  pbar_Term :: uint64
  pbar_Success :: bool
  pbar_ConflictIndex :: uint64
  pbar_ConflictTerm :: uint64

record pb_InstallSnapshotRequest =
  pbi_Term :: uint64
  pbi_LeaderId :: string
  pbi_LastIncludedIndex :: uint64
  pbi_LastIncludedTerm :: uint64
  pbi_Data :: bytes
  pbi_Offset :: uint64
  pbi_Done :: bool
  pbi_TotalSize :: uint64
  pbi_Checksum :: bytes
  pbi_ClusterConfig :: peers

record pb_InstallSnapshotResponse =
  pbir_Term :: uint64

section \<open>The server\<close>

text \<open>
  Every handler takes the node and the arguments of the node's own handler: the codecs, the
  faults of the disk, the clock and the order of the waiters.
\<close>

definition entry_from_pb :: "pb_LogEntry \<Rightarrow> LogEntry" where
  "entry_from_pb e = \<lparr>Index = pb_Index e, Term = pb_Term e, Type = pb_Type e, Command = pb_Command e\<rparr>"

definition RaftHandler_AppendEntries ::
  "(LogEntry \<Rightarrow> bytes) \<Rightarrow> persist_fault option \<Rightarrow> append_fault option \<Rightarrow> bool \<Rightarrow> gotime \<Rightarrow> uint64 list \<Rightarrow> pb_AppendEntriesRequest \<Rightarrow>
     'sm RaftNode \<Rightarrow> 'sm RaftNode \<times> (grpc_error + pb_AppendEntriesResponse)" where
  "RaftHandler_AppendEntries marshal pf af sf now order req r =
     (let internalReq =
        \<lparr>ae_Term = pba_Term req, ae_LeaderID = pba_LeaderId req, ae_PrevLogIndex = pba_PrevLogIndex req,
         ae_PrevLogTerm = pba_PrevLogTerm req, ae_Entries = map entry_from_pb (pba_Entries req), ae_LeaderCommit = pba_LeaderCommit req\<rparr>
      in case processAppendEntries marshal pf af sf now order (Some internalReq) r of
           (r1, _, Some err) \<Rightarrow> (r1, Inl (Status Internal (raft_error_text err)))
         | (r1, resp, None) \<Rightarrow>
             (r1, Inr \<lparr>pbar_Term = aer_Term resp, pbar_Success = aer_Success resp, pbar_ConflictIndex = aer_ConflictIndex resp,
                       pbar_ConflictTerm = aer_ConflictTerm resp\<rparr>))"

definition RaftHandler_RequestVote ::
  "bool \<Rightarrow> bool \<Rightarrow> gotime \<Rightarrow> uint64 list \<Rightarrow> pb_RequestVoteRequest \<Rightarrow> 'sm RaftNode \<Rightarrow> 'sm RaftNode \<times> (grpc_error + pb_RequestVoteResponse)" where
  "RaftHandler_RequestVote sf1 sf2 now order req r =
     (let internalReq =
        \<lparr>rv_Term = pbv_Term req, rv_CandidateID = pbv_CandidateId req, rv_LastLogIndex = pbv_LastLogIndex req,
         rv_LastLogTerm = pbv_LastLogTerm req, rv_PreVote = pbv_PreVote req\<rparr>
      in case handleRequestVote sf1 sf2 now order (Some internalReq) r of
           (r1, resp) \<Rightarrow> (r1, Inr \<lparr>pbvr_Term = rvr_Term resp, pbvr_VoteGranted = rvr_VoteGranted resp\<rparr>))"

definition installSnapshotStatusError :: "raft_error \<Rightarrow> grpc_error" where
  "installSnapshotStatusError err =
     (if err = ErrInvalidSnapshot then Status InvalidArgument (raft_error_text err)
      else if err = ErrSnapshotOffset \<or> err = ErrSnapshotBoundaryMismatch \<or> err = ErrSnapshotChunkMismatch
      then Status FailedPrecondition (raft_error_text err)
      else if err = ErrSnapshotChecksum \<or> err = ErrCorruptLog then Status DataLoss (raft_error_text err)
      else Status Internal (raft_error_text err))"

definition RaftHandler_InstallSnapshot ::
  "(LogEntry \<Rightarrow> bytes) \<Rightarrow> (SnapshotMeta \<Rightarrow> bytes) \<Rightarrow> 'sm StateMachine \<Rightarrow> persist_fault option \<Rightarrow> write_fault option \<Rightarrow> file_fault option \<Rightarrow>
     bool \<Rightarrow> gotime \<Rightarrow> uint64 list \<Rightarrow> pb_InstallSnapshotRequest \<Rightarrow> 'sm RaftNode \<Rightarrow> 'sm RaftNode \<times> (grpc_error + pb_InstallSnapshotResponse)" where
  "RaftHandler_InstallSnapshot marshal mjson sm pf wr ff sf now order req r =
     (let internalReq =
        \<lparr>in_Term = pbi_Term req, in_LeaderID = pbi_LeaderId req, in_LastIncludedIndex = pbi_LastIncludedIndex req,
         in_LastIncludedTerm = pbi_LastIncludedTerm req, in_Offset = pbi_Offset req, in_Done = pbi_Done req,
         in_TotalSize = pbi_TotalSize req, in_Checksum = pbi_Checksum req, in_ClusterConfig = pbi_ClusterConfig req,
         in_Data = pbi_Data req\<rparr>
      in case handleInstallSnapshot marshal mjson sm pf wr ff sf now order (Some internalReq) r of
           (r1, _, Some err) \<Rightarrow> (r1, Inl (installSnapshotStatusError err))
         | (r1, t, None) \<Rightarrow> (r1, Inr \<lparr>pbir_Term = t\<rparr>))"

section \<open>The transport\<close>

text \<open>
  The table of peers and the connections kept open, by address. What the network and the server
  behind an address do with a message is the record \<open>'w raft_net\<close> of functions on a world \<open>'w\<close>;
  \<open>newclient\<close> is the error \<^verbatim>\<open>grpc.NewClient\<close> returns for an address, if any.
\<close>

record GRPCTransport =
  tr_peers :: "string \<rightharpoonup> string"
  tr_conns :: "string set"

record 'w raft_net =
  newclient :: "string \<Rightarrow> string option"
  net_RequestVote :: "string \<Rightarrow> pb_RequestVoteRequest \<Rightarrow> 'w \<Rightarrow> 'w \<times> (grpc_error + pb_RequestVoteResponse)"
  net_AppendEntries :: "string \<Rightarrow> pb_AppendEntriesRequest \<Rightarrow> 'w \<Rightarrow> 'w \<times> (grpc_error + pb_AppendEntriesResponse)"
  net_InstallSnapshot :: "string \<Rightarrow> pb_InstallSnapshotRequest \<Rightarrow> 'w \<Rightarrow> 'w \<times> (grpc_error + pb_InstallSnapshotResponse)"

datatype transport_error = UnknownPeer string | DialFailed string | RpcFailed grpc_error

definition NewGRPCTransport :: "(string \<rightharpoonup> string) \<Rightarrow> GRPCTransport" where
  "NewGRPCTransport ps = \<lparr>tr_peers = ps, tr_conns = {}\<rparr>"

definition transport_getConn :: "'w raft_net \<Rightarrow> string \<Rightarrow> GRPCTransport \<Rightarrow> GRPCTransport \<times> (transport_error + string)" where
  "transport_getConn net addr t =
     (if addr \<in> tr_conns t then (t, Inr addr)
      else case newclient net addr of
             Some e \<Rightarrow> (t, Inl (DialFailed e))
           | None \<Rightarrow> (t\<lparr>tr_conns := insert addr (tr_conns t)\<rparr>, Inr addr))"

definition transport_Close :: "GRPCTransport \<Rightarrow> GRPCTransport" where
  "transport_Close t = t\<lparr>tr_conns := {}\<rparr>"

definition transport_RequestVote ::
  "'w raft_net \<Rightarrow> string \<Rightarrow> RequestVoteRequest \<Rightarrow> 'w \<Rightarrow> GRPCTransport \<Rightarrow> 'w \<times> GRPCTransport \<times> (transport_error + RequestVoteResponse)" where
  "transport_RequestVote net peerID req w t =
     (case tr_peers t peerID of
        None \<Rightarrow> (w, t, Inl (UnknownPeer peerID))
      | Some addr \<Rightarrow>
          (case transport_getConn net addr t of
             (t1, Inl e) \<Rightarrow> (w, t1, Inl e)
           | (t1, Inr conn) \<Rightarrow>
               (case net_RequestVote net conn
                       \<lparr>pbv_Term = rv_Term req, pbv_CandidateId = rv_CandidateID req, pbv_LastLogIndex = rv_LastLogIndex req,
                        pbv_LastLogTerm = rv_LastLogTerm req, pbv_PreVote = rv_PreVote req\<rparr> w of
                  (w1, Inl e) \<Rightarrow> (w1, t1, Inl (RpcFailed e))
                | (w1, Inr resp) \<Rightarrow> (w1, t1, Inr \<lparr>rvr_Term = pbvr_Term resp, rvr_VoteGranted = pbvr_VoteGranted resp\<rparr>))))"

definition entry_to_pb :: "LogEntry \<Rightarrow> pb_LogEntry" where
  "entry_to_pb e = \<lparr>pb_Index = Index e, pb_Term = Term e, pb_Command = Command e, pb_Type = to_int32 (Type e)\<rparr>"

definition transport_AppendEntries ::
  "'w raft_net \<Rightarrow> string \<Rightarrow> AppendEntriesRequest \<Rightarrow> 'w \<Rightarrow> GRPCTransport \<Rightarrow> 'w \<times> GRPCTransport \<times> (transport_error + AppendEntriesResponse)" where
  "transport_AppendEntries net peerID req w t =
     (case tr_peers t peerID of
        None \<Rightarrow> (w, t, Inl (UnknownPeer peerID))
      | Some addr \<Rightarrow>
          (case transport_getConn net addr t of
             (t1, Inl e) \<Rightarrow> (w, t1, Inl e)
           | (t1, Inr conn) \<Rightarrow>
               (case net_AppendEntries net conn
                       \<lparr>pba_Term = ae_Term req, pba_LeaderId = ae_LeaderID req, pba_PrevLogIndex = ae_PrevLogIndex req,
                        pba_PrevLogTerm = ae_PrevLogTerm req, pba_Entries = map entry_to_pb (ae_Entries req),
                        pba_LeaderCommit = ae_LeaderCommit req\<rparr> w of
                  (w1, Inl e) \<Rightarrow> (w1, t1, Inl (RpcFailed e))
                | (w1, Inr resp) \<Rightarrow>
                    (w1, t1, Inr \<lparr>aer_Term = pbar_Term resp, aer_Success = pbar_Success resp,
                                  aer_ConflictIndex = pbar_ConflictIndex resp, aer_ConflictTerm = pbar_ConflictTerm resp\<rparr>))))"

definition transport_InstallSnapshot ::
  "'w raft_net \<Rightarrow> string \<Rightarrow> InstallSnapshotRequest \<Rightarrow> 'w \<Rightarrow> GRPCTransport \<Rightarrow> 'w \<times> GRPCTransport \<times> (transport_error + uint64)" where
  "transport_InstallSnapshot net peerID req w t =
     (case tr_peers t peerID of
        None \<Rightarrow> (w, t, Inl (UnknownPeer peerID))
      | Some addr \<Rightarrow>
          (case transport_getConn net addr t of
             (t1, Inl e) \<Rightarrow> (w, t1, Inl e)
           | (t1, Inr conn) \<Rightarrow>
               (case net_InstallSnapshot net conn
                       \<lparr>pbi_Term = in_Term req, pbi_LeaderId = in_LeaderID req, pbi_LastIncludedIndex = in_LastIncludedIndex req,
                        pbi_LastIncludedTerm = in_LastIncludedTerm req, pbi_Data = in_Data req, pbi_Offset = in_Offset req,
                        pbi_Done = in_Done req, pbi_TotalSize = in_TotalSize req, pbi_Checksum = in_Checksum req,
                        pbi_ClusterConfig = in_ClusterConfig req\<rparr> w of
                  (w1, Inl e) \<Rightarrow> (w1, t1, Inl (RpcFailed e))
                | (w1, Inr resp) \<Rightarrow> (w1, t1, Inr (pbir_Term resp)))))"

definition transport_AddPeer :: "string \<Rightarrow> string \<Rightarrow> GRPCTransport \<Rightarrow> GRPCTransport" where
  "transport_AddPeer nodeID address t = t\<lparr>tr_peers := (tr_peers t)(nodeID \<mapsto> address)\<rparr>"

text \<open>\<^verbatim>\<open>RemovePeer\<close> also closes the connection kept for the address; an error of the close is logged.\<close>

definition transport_RemovePeer :: "string \<Rightarrow> GRPCTransport \<Rightarrow> GRPCTransport" where
  "transport_RemovePeer nodeID t =
     (let t1 = t\<lparr>tr_peers := (tr_peers t)(nodeID := None)\<rparr>
      in case tr_peers t nodeID of
           None \<Rightarrow> t1
         | Some addr \<Rightarrow> t1\<lparr>tr_conns := tr_conns t1 - {addr}\<rparr>)"

text \<open>The calls a node has made on its transport, in some order.\<close>

fun run_transport_op :: "transport_op \<Rightarrow> GRPCTransport \<Rightarrow> GRPCTransport" where
  "run_transport_op (TransportAddPeer p a) t = transport_AddPeer p a t"
| "run_transport_op (TransportRemovePeer p) t = transport_RemovePeer p t"

end
