(* ===== verification/Exchange.thy ===== *)
theory Exchange
  imports RaftRPC RaftLoop
begin

text \<open>
  The goroutines with which a node talks to its peers, as whole loops over the interface
  \<^verbatim>\<open>Transport\<close>: replication to one peer, the transfer of a snapshot, heartbeats, the rounds of
  votes, and a membership change with the replication that follows it. The rounds themselves are
  those of \<open>Replication\<close>, \<open>RaftSnapshot\<close>, \<open>Election\<close> and \<open>Membership\<close>.
\<close>

section \<open>Interface\<close>

text \<open>
  \<open>'w\<close> is everything outside the node. \<open>Inr None\<close> is an answer without error that is nil. The table
  of peers is changed by \<open>transport_AddPeer\<close> and \<open>transport_RemovePeer\<close>.
\<close>

record 'w Transport =
  tp_AppendEntries :: "string \<Rightarrow> AppendEntriesRequest \<Rightarrow> 'w \<Rightarrow> 'w \<times> (transport_error + AppendEntriesResponse option)"
  tp_RequestVote :: "string \<Rightarrow> RequestVoteRequest \<Rightarrow> 'w \<Rightarrow> 'w \<times> (transport_error + RequestVoteResponse option)"
  tp_InstallSnapshot :: "string \<Rightarrow> InstallSnapshotRequest \<Rightarrow> 'w \<Rightarrow> 'w \<times> (transport_error + uint64 option)"

text \<open>
  What a goroutine meets when it takes the lock again after an RPC: whether its context has ended,
  whether the state file can be written, the clock, the order of the waiters, and what the other
  goroutines have done to the node in between.
\<close>

record ('w, 'sm) surroundings =
  su_ctx :: "'w \<Rightarrow> string option"
  su_fault :: "'w \<Rightarrow> bool"
  su_now :: "'w \<Rightarrow> gotime"
  su_order :: "'w \<Rightarrow> uint64 list"
  su_meanwhile :: "'w \<Rightarrow> 'sm RaftNode \<Rightarrow> 'sm RaftNode"

datatype exchange_error = ContextEnded string | RaftFailed raft_error | TransportFailed transport_error | NilResponse string

section \<open>Sending a snapshot\<close>

function sendSnapshot_chunks ::
  "'w Transport \<Rightarrow> ('w, 'sm) surroundings \<Rightarrow> string \<Rightarrow> Config \<Rightarrow> uint64 \<Rightarrow> SnapshotMeta \<Rightarrow> bytes \<Rightarrow> uint64 \<Rightarrow> 'w \<Rightarrow> 'sm RaftNode \<Rightarrow>
     'w \<times> 'sm RaftNode \<times> exchange_error option" where
  "sendSnapshot_chunks tp su peer cfg term meta data offset w r =
     (let req = chunk_request cfg term meta data offset
      in case tp_InstallSnapshot tp peer req w of
           (w1, Inl e) \<Rightarrow> (w1, su_meanwhile su w1 r, Some (TransportFailed e))
         | (w1, Inr None) \<Rightarrow> (w1, su_meanwhile su w1 r, Some (NilResponse ''InstallSnapshot returned a nil response''))
         | (w1, Inr (Some respTerm)) \<Rightarrow>
             (case sendSnapshot_response (su_fault su w1) (su_now su w1) (su_order su w1) peer req respTerm (su_meanwhile su w1 r) of
                (r1, SendDone e) \<Rightarrow> (w1, r1, map_option RaftFailed e)
              | (r1, SendNext end') \<Rightarrow> sendSnapshot_chunks tp su peer cfg term meta data end' w1 r1))"
  by pat_completeness auto

lemma chunk_end_later:
  assumes "(r1, SendNext end') = sendSnapshot_response sf now order peer (chunk_request cfg t meta data offset) respTerm r"
  shows "length data - end' < length data - offset"
proof -
  let ?req = "chunk_request cfg t meta data offset"
  have "\<not> in_Done ?req" and e: "end' = in_Offset ?req + length (in_Data ?req)"
    using assms by (auto simp: sendSnapshot_response_def Let_def split: if_splits)
  moreover have "0 < chunk_size cfg" by (simp add: chunk_size_def defaultSnapshotChunkSize_def)
  ultimately show ?thesis by (auto simp: chunk_request_def Let_def min_def split: if_splits)
qed

termination sendSnapshot_chunks
  by (relation "measure (\<lambda>(tp, su, peer, cfg, term, meta, data, offset, w, r). length data - offset)") (use chunk_end_later in auto)

declare sendSnapshot_chunks.simps [simp del]

definition sendSnapshot ::
  "'w Transport \<Rightarrow> ('w, 'sm) surroundings \<Rightarrow> string \<Rightarrow> 'w \<Rightarrow> 'sm RaftNode \<Rightarrow> 'w \<times> 'sm RaftNode \<times> exchange_error option" where
  "sendSnapshot tp su peer w r =
     (case sendSnapshot_start r of
        Inl e \<Rightarrow> (w, r, Some (RaftFailed e))
      | Inr (term, meta, data) \<Rightarrow> sendSnapshot_chunks tp su peer (config r) term meta data 0 w r)"

section \<open>Replication to one peer\<close>

partial_function (option) replicateTo ::
  "'w Transport \<Rightarrow> ('w, 'sm) surroundings \<Rightarrow> string \<Rightarrow> uint64 \<Rightarrow> 'w \<Rightarrow> 'sm RaftNode \<Rightarrow> ('w \<times> 'sm RaftNode \<times> exchange_error option) option" where
  "replicateTo tp su peer ni w r =
     (case su_ctx su w of
        Some e \<Rightarrow> Some (w, r, Some (ContextEnded e))
      | None \<Rightarrow>
          (case replicateTo_request ni r of
             ReplError e \<Rightarrow> Some (w, r, Some (RaftFailed e))
           | ReplSnapshot \<Rightarrow> Some (sendSnapshot tp su peer w r)
           | ReplSend next' req \<Rightarrow>
               (case tp_AppendEntries tp peer req w of
                  (w1, Inl e) \<Rightarrow> Some (w1, su_meanwhile su w1 r, Some (TransportFailed e))
                | (w1, Inr None) \<Rightarrow> Some (w1, su_meanwhile su w1 r, Some (NilResponse ''AppendEntries returned a nil response''))
                | (w1, Inr (Some resp)) \<Rightarrow>
                    (case replicateTo_response (su_fault su w1) (su_now su w1) (su_order su w1) peer next' req resp (su_meanwhile su w1 r) of
                       (r1, ReplDone e) \<Rightarrow> Some (w1, r1, map_option RaftFailed e)
                     | (r1, ReplContinue n) \<Rightarrow> replicateTo tp su peer n w1 r1))))"

text \<open>The peers in the order in which their goroutines run; a round that does not end is \<open>None\<close>.\<close>

fun replicate_peers ::
  "'w Transport \<Rightarrow> ('w, 'sm) surroundings \<Rightarrow> string list \<Rightarrow> 'w \<Rightarrow> 'sm RaftNode \<Rightarrow> ('w \<times> 'sm RaftNode) option" where
  "replicate_peers tp su [] w r = Some (w, r)"
| "replicate_peers tp su (p # ps) w r =
     (case replicateTo tp su p (idx (nextIndex r) p) w r of
        None \<Rightarrow> None
      | Some (w1, r1, _) \<Rightarrow> replicate_peers tp su ps w1 r1)"

text \<open>
  A flush with the replication it starts: the goroutines run when a batch has been written, and
  \<^verbatim>\<open>replicateToAsync\<close> only logs the error of \<^verbatim>\<open>replicateTo\<close>.
\<close>

definition flush_run ::
  "(LogEntry \<Rightarrow> bytes) \<Rightarrow> append_fault option \<Rightarrow> 'w Transport \<Rightarrow> ('w, 'sm) surroundings \<Rightarrow> proposeRequest list \<Rightarrow> 'w \<Rightarrow> 'sm RaftNode \<Rightarrow>
     ('w \<times> 'sm RaftNode) option" where
  "flush_run marshal fault tp su batch w r =
     (let r1 = flush marshal fault batch r
      in if batch \<noteq> [] \<and> state r = Leader \<and> snd (Append marshal fault (flush_entries batch r) (rlog r)) = None
         then replicate_peers tp su (other_peers (NodeID (config r1)) (clusterConfig r1)) w r1
         else Some (w, r1))"

text \<open>\<^verbatim>\<open>ProposeMembershipChange\<close> as a whole: the entry, the replication, the commit index.\<close>

definition ProposeMembershipChange_run ::
  "(LogEntry \<Rightarrow> bytes) \<Rightarrow> (MembershipChange \<Rightarrow> bytes) \<Rightarrow> append_fault option \<Rightarrow> 'w Transport \<Rightarrow> ('w, 'sm) surroundings \<Rightarrow> MembershipChange \<Rightarrow>
     'w \<Rightarrow> 'sm RaftNode \<Rightarrow> ('w \<times> 'sm RaftNode \<times> raft_error option) option" where
  "ProposeMembershipChange_run marshal mjson fault tp su change w r =
     (case ProposeMembershipChange marshal mjson fault change r of
        (r1, Some e) \<Rightarrow> Some (w, r1, Some e)
      | (r1, None) \<Rightarrow>
          (case replicate_peers tp su (other_peers (NodeID (config r1)) (clusterConfig r1)) w r1 of
             None \<Rightarrow> None
           | Some (w1, r2) \<Rightarrow> Some (w1, ProposeMembershipChange_finish r2, None)))"

section \<open>Heartbeats\<close>

text \<open>
  The answers in the order in which they arrive. An answer that is nil without an error would
  be dereferenced, which is a panic: \<open>None\<close>.
\<close>

fun heartbeat_peers ::
  "'w Transport \<Rightarrow> ('w, 'sm) surroundings \<Rightarrow> AppendEntriesRequest \<Rightarrow> string list \<Rightarrow> 'w \<Rightarrow> 'sm RaftNode \<Rightarrow> ('w \<times> 'sm RaftNode) option" where
  "heartbeat_peers tp su req [] w r = Some (w, r)"
| "heartbeat_peers tp su req (p # ps) w r =
     (case tp_AppendEntries tp p req w of
        (w1, Inl e) \<Rightarrow> heartbeat_peers tp su req ps w1 (su_meanwhile su w1 r)
      | (w1, Inr None) \<Rightarrow> None
      | (w1, Inr (Some resp)) \<Rightarrow>
          heartbeat_peers tp su req ps w1
            (heartbeat_response (su_fault su w1) (su_now su w1) (su_order su w1) resp (su_meanwhile su w1 r)))"

definition sendHeartbeatOnce :: "'w Transport \<Rightarrow> ('w, 'sm) surroundings \<Rightarrow> 'w \<Rightarrow> 'sm RaftNode \<Rightarrow> ('w \<times> 'sm RaftNode) option" where
  "sendHeartbeatOnce tp su w r =
     heartbeat_peers tp su (heartbeat_request r) (other_peers (NodeID (config r)) (clusterConfig r)) w r"

text \<open>The loop of the goroutine: what its \<^verbatim>\<open>select\<close> receives, in order.\<close>

datatype heartbeat_event = HeartbeatStop | HeartbeatTick

fun heartbeat_loop :: "'w Transport \<Rightarrow> ('w, 'sm) surroundings \<Rightarrow> heartbeat_event list \<Rightarrow> 'w \<Rightarrow> 'sm RaftNode \<Rightarrow> ('w \<times> 'sm RaftNode) option" where
  "heartbeat_loop tp su [] w r = Some (w, r)"
| "heartbeat_loop tp su (HeartbeatStop # evs) w r = Some (w, r)"
| "heartbeat_loop tp su (HeartbeatTick # evs) w r =
     (if state r \<noteq> Leader then Some (w, r)
      else case sendHeartbeatOnce tp su w r of
             None \<Rightarrow> None
           | Some (w1, r1) \<Rightarrow> heartbeat_loop tp su evs w1 r1)"

definition sendHeartbeats :: "'w Transport \<Rightarrow> ('w, 'sm) surroundings \<Rightarrow> heartbeat_event list \<Rightarrow> 'w \<Rightarrow> 'sm RaftNode \<Rightarrow> ('w \<times> 'sm RaftNode) option" where
  "sendHeartbeats tp su evs w r =
     (case sendHeartbeatOnce tp su w r of
        None \<Rightarrow> None
      | Some (w1, r1) \<Rightarrow> heartbeat_loop tp su evs w1 r1)"

section \<open>Rounds of votes\<close>

fun election_peers ::
  "(LogEntry \<Rightarrow> bytes) \<Rightarrow> append_fault option \<Rightarrow> 'w Transport \<Rightarrow> ('w, 'sm) surroundings \<Rightarrow> RequestVoteRequest \<Rightarrow> string list \<Rightarrow> ballot \<Rightarrow>
     'w \<Rightarrow> 'sm RaftNode \<Rightarrow> ('w \<times> 'sm RaftNode) option" where
  "election_peers marshal fault tp su req [] b w r = Some (w, r)"
| "election_peers marshal fault tp su req (p # ps) b w r =
     (case tp_RequestVote tp p req w of
        (w1, Inl e) \<Rightarrow> election_peers marshal fault tp su req ps b w1 (su_meanwhile su w1 r)
      | (w1, Inr None) \<Rightarrow> None
      | (w1, Inr (Some resp)) \<Rightarrow>
          (case electionResponse marshal fault (su_fault su w1) (su_now su w1) (su_order su w1) resp b (su_meanwhile su w1 r) of
             (r1, b1) \<Rightarrow> election_peers marshal fault tp su req ps b1 w1 r1))"

definition startElection_run ::
  "(LogEntry \<Rightarrow> bytes) \<Rightarrow> append_fault option \<Rightarrow> 'w Transport \<Rightarrow> ('w, 'sm) surroundings \<Rightarrow> 'w \<Rightarrow> 'sm RaftNode \<Rightarrow> ('w \<times> 'sm RaftNode) option" where
  "startElection_run marshal fault tp su w r =
     (case startElection (su_fault su w) (su_now su w) r of
        (r1, ElectionSkipped) \<Rightarrow> Some (w, r1)
      | (r1, ElectionWon term) \<Rightarrow> Some (w, becomeLeader marshal fault term r1)
      | (r1, ElectionSent req b) \<Rightarrow> election_peers marshal fault tp su req (b_peers b) b w r1)"

text \<open>The rest of the round of pre-votes, and whether the real election starts.\<close>

fun prevote_peers ::
  "'w Transport \<Rightarrow> ('w, 'sm) surroundings \<Rightarrow> RequestVoteRequest \<Rightarrow> string list \<Rightarrow> ballot \<Rightarrow> bool \<Rightarrow> 'w \<Rightarrow> 'sm RaftNode \<Rightarrow>
     ('w \<times> 'sm RaftNode \<times> bool) option" where
  "prevote_peers tp su req [] b go w r = Some (w, r, go)"
| "prevote_peers tp su req (p # ps) b go w r =
     (case tp_RequestVote tp p req w of
        (w1, Inl e) \<Rightarrow> prevote_peers tp su req ps b go w1 (su_meanwhile su w1 r)
      | (w1, Inr None) \<Rightarrow> None
      | (w1, Inr (Some resp)) \<Rightarrow>
          (case preVoteResponse (su_fault su w1) (su_now su w1) (su_order su w1) resp b (su_meanwhile su w1 r) of
             (r1, b1, go1) \<Rightarrow> prevote_peers tp su req ps b1 (go \<or> go1) w1 r1))"

text \<open>
  \<^verbatim>\<open>startPreVote\<close> as a whole. The code starts the real election in a goroutine of its own; here it
  runs when the round of pre-votes is over.
\<close>

definition startPreVote_run ::
  "(LogEntry \<Rightarrow> bytes) \<Rightarrow> append_fault option \<Rightarrow> 'w Transport \<Rightarrow> ('w, 'sm) surroundings \<Rightarrow> 'w \<Rightarrow> 'sm RaftNode \<Rightarrow> ('w \<times> 'sm RaftNode) option" where
  "startPreVote_run marshal fault tp su w r =
     (case startPreVote (su_now su w) r of
        (r1, PreVoteSkipped) \<Rightarrow> Some (w, r1)
      | (r1, PreVoteWon) \<Rightarrow> startElection_run marshal fault tp su w r1
      | (r1, PreVoteSent req b) \<Rightarrow>
          (case prevote_peers tp su req (b_peers b) b False w r1 of
             None \<Rightarrow> None
           | Some (w1, r2, go) \<Rightarrow> if go then startElection_run marshal fault tp su w1 r2 else Some (w1, r2)))"

section \<open>Over gRPC\<close>

definition with_table ::
  "(string \<Rightarrow> 'm \<Rightarrow> 'w \<Rightarrow> GRPCTransport \<Rightarrow> 'w \<times> GRPCTransport \<times> (transport_error + 'a)) \<Rightarrow> string \<Rightarrow> 'm \<Rightarrow> 'w \<times> GRPCTransport \<Rightarrow>
     ('w \<times> GRPCTransport) \<times> (transport_error + 'a option)" where
  "with_table call p m wt = (case call p m (fst wt) (snd wt) of (w1, t1, res) \<Rightarrow> ((w1, t1), map_sum id Some res))"

definition grpc_transport :: "'w raft_net \<Rightarrow> ('w \<times> GRPCTransport) Transport" where
  "grpc_transport net =
     \<lparr>tp_AppendEntries = with_table (transport_AppendEntries net), tp_RequestVote = with_table (transport_RequestVote net),
      tp_InstallSnapshot = with_table (transport_InstallSnapshot net)\<rparr>"

end
