(* ===== verification/RestartProps.thy ===== *)
theory RestartProps
  imports LoopProps
begin

text \<open>
  Taking a snapshot and starting again from the files of the directory, a snapshot installed
  while an entry is applied, records too long to be read back, and membership changes.
\<close>

section \<open>Restart from a snapshot\<close>

lemma load_image:
  assumes "view_wf (bi, bt, es)" "\<And>e. e \<in> set es \<Longrightarrow> codec_ok marshal unmarshal e" "dir \<noteq> []"
  shows "newRaftLogWithWAL marshal unmarshal None dir sync (Some (wal_image marshal bi bt es)) =
     Inr (newRaftLog\<lparr>dataDir := dir, syncWrites := sync, disk := Some (wal_image marshal bi bt es), walHasHeader := True,
            boundaryKnown := True, baseIndex := bi, baseTerm := bt, entries := es, walFile := True\<rparr>)"
proof -
  let ?f = "wal_image marshal bi bt es" and ?rest = "wal_records marshal es"
  have r: "readWALRecords unmarshal ?rest = Inr (es, ?rest)" using read_records [OF assms(2), of es "[]" "[]" "[]"] by simp
  have h: "take 8 ?f = walMagic" "\<not> length ?f < 8" "take 28 ?f = writeWALHeader bi bt"
    by (simp_all add: wal_image_def writeWALHeader_def walMagic_def Let_def)
  have rh: "readWALHeader (drop 8 ?f) = Inr ((bi, bt), ?rest)"
    unfolding wal_image_def using assms(1) by (intro read_header) (auto simp: view_wf_def)
  have v: "validateEntrySequence es (u64 (bi + 1)) = None" using validate_contiguous [of bi es] assms(1) by (simp add: view_wf_def)
  have k: "writeWALHeader bi bt @ ?rest = ?f" by (simp add: wal_image_def)
  show ?thesis
    using assms(3) h rh r v by (simp add: newRaftLogWithWAL_def loadFromDisk_def newRaftLog_def Let_def k)
qed

text \<open>A snapshot whose boundary is the one of the log is adopted without touching the entries.\<close>

lemma restore_same_boundary:
  assumes "log_wf l" "storageErr l = None" "baseTerm l = t" "baseIndex l = i"
  shows "\<exists>l'. RestoreSnapshotBoundary marshal None i t l = (l', None) \<and> log_view l' = log_view l"
proof -
  have "validateEntrySequence (entries l) (u64 (i + 1)) = None" using validate_contiguous [of i "entries l"] assms(1,4) by (simp add: log_wf_def)
  then show ?thesis using assms by (cases "dataDir l = []") (simp_all add: RestoreSnapshotBoundary_def persistStateToDiskLocked_def log_view_def Let_def)
qed

text \<open>The metadata of a snapshot at the last applied index.\<close>

definition meta_at :: "uint64 \<Rightarrow> 'sm RaftNode \<Rightarrow> SnapshotMeta" where
  "meta_at t r = \<lparr>LastIncludedIndex = lastApplied r, LastIncludedTerm = t, ClusterConfig = clusterConfig r\<rparr>"

lemma takeSnapshot_ok:
  assumes ok: "takeSnapshot marshal mjson sm None None r = (r1, None)" and i: "LastIncludedIndex (snapshotMeta r) < lastApplied r" "fatalErr r = None"
    and d: "DataDir (config r) \<noteq> []" "sm_Snapshot sm (stateMachine r) = Inr data"
  shows "\<exists>t l. TermAt (lastApplied r) (rlog r) = Inr t \<and> CompactUpTo marshal None (lastApplied r) (rlog r) = (l, None) \<and>
    length (mjson (meta_at t r)) \<le> maxSnapshotMetadataSize \<and>
    r1 = r\<lparr>snapshotFile := Some (artifact_of (mjson (meta_at t r)) data), snapshotMeta := meta_at t r, snapshotData := data, rlog := l\<rparr>"
proof -
  have n: "\<not> (lastApplied r = 0 \<or> lastApplied r \<le> LastIncludedIndex (snapshotMeta r))" using i(1) by auto
  note ts = ok [unfolded takeSnapshot_def i(2) option.case if_not_P [OF n] d(2) sum.case meta_at_def [symmetric] Let_def]
  obtain t where t: "TermAt (lastApplied r) (rlog r) = Inr t"
    using ts by (cases "TermAt (lastApplied r) (rlog r)") simp_all
  note ts1 = ts [unfolded t sum.case persistSnapshot_def if_not_P [OF d(1)]]
  obtain a where a: "encodeSnapshotArtifact mjson (meta_at t r) data = Inr a"
    using ts1 by (cases "encodeSnapshotArtifact mjson (meta_at t r) data") simp_all
  obtain l err where c: "CompactUpTo marshal None (lastApplied r) (rlog r) = (l, err)" by (cases "CompactUpTo marshal None (lastApplied r) (rlog r)")
  have "err = None \<and> r1 = r\<lparr>snapshotFile := Some a, snapshotMeta := meta_at t r, snapshotData := data, rlog := l\<rparr>"
    using ts1 by (cases err) (auto simp: a c atomicWrite_def)
  then show ?thesis using t a c by (intro exI [of _ t] exI [of _ l]) (simp add: encode_artifact)
qed

lemma compact_result:
  assumes c: "CompactUpTo marshal None i l = (l', None)" and wf: "log_wf l" and i: "baseIndex l < i" and st: "storageErr l = None"
  shows "i - baseIndex l \<le> length (entries l) \<and> storageErr l' = None \<and> dataDir l' = dataDir l \<and>
     log_view l' = (i, Term (entries l ! (i - baseIndex l - 1)), drop (i - baseIndex l) (entries l))"
proof -
  have u: "u64 (baseIndex l + length (entries l)) = baseIndex l + length (entries l)" using wf by (simp add: log_wf_def)
  have le: "i - baseIndex l \<le> length (entries l)" using c i u by (auto simp: CompactUpTo_def Let_def split: if_splits)
  then have t: "termAtLocked i l = Inr (Term (entries l ! (i - baseIndex l - 1)))" using i by (auto simp: termAtLocked_def Let_def)
  have n: "\<not> i \<le> baseIndex l" "\<not> baseIndex l + length (entries l) < i" using i le by auto
  show ?thesis
    using c [unfolded CompactUpTo_def Let_def u if_not_P [OF n(1)] if_not_P [OF n(2)] t sum.case] le st
    by (cases "dataDir l = []") (auto simp: persistStateToDiskLocked_def log_view_def)
qed

text \<open>Starting from a log file and a snapshot file with the same boundary.\<close>

lemma restart_files:
  assumes d: "durable_inv marshal unmarshal l" "storageErr l = None" "baseIndex l = LastIncludedIndex meta" "baseTerm l = LastIncludedTerm meta"
    and f: "nf_wal files = disk l" "nf_snapshot files = Some (artifact_of (mjson meta) data)"
    and m: "length (mjson meta) \<le> maxSnapshotMetadataSize" "ujson (mjson meta) = Some meta" "validateSnapshotMeta meta = None" "length data < 2 ^ 63"
    and dir: "DataDir cfg \<noteq> []" and sm: "sm_Restore sm data s0 = (s', None)"
  shows "\<exists>r2. NewRaftNode marshal unmarshal mjson ujson now cfg sm s0 files = Some (Inr r2) \<and> clusterConfig r2 = ClusterConfig meta \<and> stateMachine r2 = s' \<and>
     lastApplied r2 = LastIncludedIndex meta \<and> commitIndex r2 = LastIncludedIndex meta \<and> snapshotMeta r2 = meta \<and> log_view (rlog r2) = log_view l"
proof -
  let ?i = "LastIncludedIndex meta" and ?t = "LastIncludedTerm meta"
  have img: "disk l = Some (wal_image marshal ?i ?t (entries l))" "view_wf (?i, ?t, entries l)" "\<And>e. e \<in> set (entries l) \<Longrightarrow> codec_ok marshal unmarshal e"
    using d log_wf_view [of l] by (auto simp: durable_inv_def log_view_def)
  define l2 where "l2 = newRaftLog\<lparr>dataDir := DataDir cfg, syncWrites := SyncWrites cfg, disk := Some (wal_image marshal ?i ?t (entries l)),
       walHasHeader := True, boundaryKnown := True, baseIndex := ?i, baseTerm := ?t, entries := entries l, walFile := True\<rparr>"
  have l2: "newRaftLogWithWAL marshal unmarshal None (DataDir cfg) (SyncWrites cfg) (disk l) = Inr l2"
    unfolding img(1) l2_def by (rule load_image [OF img(2,3) dir])
  have w2: "log_wf l2" "storageErr l2 = None" "baseTerm l2 = ?t" "baseIndex l2 = ?i" "log_view l2 = log_view l"
    using img(2) d(3,4) by (auto simp: l2_def log_wf_def view_wf_def newRaftLog_def log_view_def)
  obtain l3 where l3: "RestoreSnapshotBoundary marshal None ?i ?t l2 = (l3, None)" "log_view l3 = log_view l"
    using restore_same_boundary [OF w2(1-4), of marshal] w2(5) by auto
  have dec: "decodeSnapshotArtifact ujson (artifact_of (mjson meta) data) = Some (Inr (meta, data))"
    by (rule decode_artifact [where ujson = ujson, OF m(1) _ m(2,3)]) (use m(1,4) in \<open>simp add: headerSize_def maxSnapshotMetadataSize_def\<close>)
  let ?n = "new_node now cfg (newPersistentState (DataDir cfg) (nf_state files)) l2 s0 files"
  have n: "config ?n = cfg" "snapshotFile ?n = Some (artifact_of (mjson meta) data)" "rlog ?n = l2" "stateMachine ?n = s0" "commitIndex ?n = 0" "lastApplied ?n = 0"
    by (simp_all add: new_node_def f(2))
  have "loadSnapshotArtifact ujson False ?n = Some (Inr (Some (meta, data, False)))"
    using dir dec by (simp add: loadSnapshotArtifact_def n artifact_parts headerSize_def)
  then have "loadSnapshotFromDisk marshal mjson ujson sm False False None None ?n =
      Some (reconcileTransportPeers (clusterConfig ?n) (ClusterConfig meta) (adopt_snapshot meta data (?n\<lparr>rlog := l3, stateMachine := s'\<rparr>)), None)"
    using l3(1) sm by (simp add: loadSnapshotFromDisk_def n)
  then obtain r2 where r2: "loadSnapshotFromDisk marshal mjson ujson sm False False None None ?n = Some (r2, None)"
    "clusterConfig r2 = ClusterConfig meta" "stateMachine r2 = s'" "lastApplied r2 = ?i" "commitIndex r2 = ?i" "snapshotMeta r2 = meta" "rlog r2 = l3"
    by (simp add: reconcileTransportPeers_def adopt_snapshot_def n Let_def)
  have "NewRaftNode marshal unmarshal mjson ujson now cfg sm s0 files = Some (Inr r2)"
    using l2 r2(1) unfolding NewRaftNode_def Let_def f(1) by simp
  then show ?thesis using r2 l3(2) by blast
qed


definition demo_saver :: "bytes RaftNode" where
  "demo_saver = demo_receiver\<lparr>rlog := newRaftLog\<lparr>dataDir := ''./data'', walFile := True, walHasHeader := True,
       entries := [\<lparr>Index = 1, Term = 1, Type = EntryKV, Command = [7]\<rparr>], disk := Some (wal_image (\<lambda>_. [9]) 0 0 [\<lparr>Index = 1, Term = 1, Type = EntryKV, Command = [7]\<rparr>])\<rparr>,
     commitIndex := 1, lastApplied := 1, stateMachine := [7]\<rparr>"

definition demo_unmarshal :: "bytes \<Rightarrow> LogEntry option" where
  "demo_unmarshal _ = Some \<lparr>Index = 1, Term = 1, Type = EntryKV, Command = [7]\<rparr>"

lemma demo_saver_fields:
  "lastApplied demo_saver = 1" "commitIndex demo_saver = 1" "stateMachine demo_saver = [7]" "fatalErr demo_saver = None"
  "LastIncludedIndex (snapshotMeta demo_saver) = 0" "saved demo_saver" "clusterConfig demo_saver = demo_peers"
  "DataDir (config demo_saver) = ''./data''" "dataDir (rlog demo_saver) = ''./data''" "baseIndex (rlog demo_saver) = 0" "storageErr (rlog demo_saver) = None"
  "entries (rlog demo_saver) = [\<lparr>Index = 1, Term = 1, Type = EntryKV, Command = [7]\<rparr>]"
  "TermAt 1 (rlog demo_saver) = Inr 1" "durable_inv (\<lambda>_. [9]) demo_unmarshal (rlog demo_saver)"
  by (simp_all add: demo_saver_def demo_receiver_def new_node_def saved_def newPersistentState_def demo_cfg_def DefaultConfig_def demo_peers_def newRaftLog_def
      TermAt_def termAtLocked_def durable_inv_def log_wf_def contiguous_Cons codec_ok_def demo_unmarshal_def maxWALRecordSize_def)


section \<open>A snapshot installed while an entry is applied\<close>

lemma restore_base:
  assumes "RestoreSnapshotBoundary marshal f i t l = (l', None)"
  shows "baseIndex l' = i"
  using assms by (auto simp: RestoreSnapshotBoundary_def Let_def split: if_splits option.splits prod.splits)

text \<open>
  C35: a snapshot that is installed between the reading of an entry and its application is
  damaged. The apply loop releases \<^verbatim>\<open>r.mu\<close> before it takes \<^verbatim>\<open>stateMachineMu\<close>; when the
  installation finishes in between, the old entry is applied on top of the snapshot that
  already contains it, \<^verbatim>\<open>lastApplied\<close> falls back behind the snapshot, and the next round finds
  the entry compacted and unlocks the mutex twice, which stops the program.
\<close>

theorem install_during_apply:
  assumes read: "GetEntry (lastApplied r + 1) (rlog r) = Inr e" "lastApplied r < commitIndex r" "Type e \<noteq> EntryMembership"
    and install: "may_install marshal mjson sm t meta data r l' s'" "finalizeInstalledSnapshot marshal mjson sm None None meta data r = (r1, None)"
    and machine: "sm_Apply sm e s' = Some (s2, err)"
  shows "\<exists>r2 due. stateMachine r1 = s' \<and> lastApplied r1 = LastIncludedIndex meta \<and>
     apply_rest ujson sf now order sm (lastApplied r + 1) e r1 = Some (r2, due) \<and>
     stateMachine r2 = s2 \<and> lastApplied r2 < LastIncludedIndex (snapshotMeta r2) \<and> lastApplied r2 < commitIndex r2 \<and>
     apply_one ujson sf' now' order' sm' r2 = None"
proof -
  have r1: "stateMachine r1 = s'" "rlog r1 = l'" "snapshotMeta r1 = meta" "commitIndex r1 = LastIncludedIndex meta" "lastApplied r1 = LastIncludedIndex meta"
    using finalize_installed [OF install(1)] install(2) by auto
  have c: "commitIndex r < LastIncludedIndex meta" "RestoreSnapshotBoundary marshal None (LastIncludedIndex meta) (LastIncludedTerm meta) (rlog r) = (l', None)"
    using install(1) by (simp_all add: may_install_def)
  obtain r2 due where r2: "apply_rest ujson sf now order sm (lastApplied r + 1) e r1 = Some (r2, due)" "stateMachine r2 = s2" "snapshotMeta r2 = meta"
    using read(3) machine r1(1,3) by (simp add: apply_rest_def apply_answer_def Let_def split: option.splits)
  note f = apply_rest_frame [OF r2(1)]
  have "GetEntry (lastApplied r2 + 1) (rlog r2) = Inl ErrLogCompacted"
    using f r1(2) restore_base [OF c(2)] c(1) read(2) by (simp add: GetEntry_def)
  then have "apply_one ujson sf' now' order' sm' r2 = None" by (simp add: apply_one_def)
  then show ?thesis using r1 r2 f c(1) read(2) by auto
qed

theorem install_during_apply_witness:
  "\<exists>r1 r2 due. finalizeInstalledSnapshot (\<lambda>_. []) demo_mjson bytes_machine None None demo_meta [7, 8] (demo_receiver\<lparr>rlog := demo_log, commitIndex := 2, lastApplied := 1\<rparr>) = (r1, None) \<and>
     apply_rest (\<lambda>_. None) False 0 [] bytes_machine 2 \<lparr>Index = 2, Term = 1, Type = EntryKV, Command = [8]\<rparr> r1 = Some (r2, due) \<and>
     stateMachine r2 = [7, 8, 8] \<and> apply_one (\<lambda>_. None) False 0 [] bytes_machine r2 = None"
proof -
  let ?r = "demo_receiver\<lparr>rlog := demo_log, commitIndex := 2, lastApplied := 1\<rparr>" and ?e = "\<lparr>Index = 2, Term = 1, Type = EntryKV, Command = [8]\<rparr>"
  obtain l' where l': "RestoreSnapshotBoundary (\<lambda>_. []) None 3 1 demo_log = (l', None)"
    by (simp add: RestoreSnapshotBoundary_def demo_log_def newRaftLog_def matching_suffix_def persistStateToDiskLocked_def Let_def)
  have m: "may_install (\<lambda>_. []) demo_mjson bytes_machine 1 demo_meta [7, 8] ?r l' [7, 8]"
    using l' demo_codec(3)
    by (simp add: may_install_def demo_receiver_def new_node_def newPersistentState_def demo_meta_def snapshot_limit_def demo_cfg_def DefaultConfig_def maxInt_def bytes_machine_def)
  obtain r1 where r1: "finalizeInstalledSnapshot (\<lambda>_. []) demo_mjson bytes_machine None None demo_meta [7, 8] ?r = (r1, None)"
    using finalize_installed [OF m] by blast
  have "GetEntry (lastApplied ?r + 1) (rlog ?r) = Inr ?e" "lastApplied ?r < commitIndex ?r" "Type ?e \<noteq> EntryMembership" "sm_Apply bytes_machine ?e [7, 8] = Some ([7, 8, 8], None)"
    by (simp_all add: GetEntry_def demo_log_def newRaftLog_def EntryKV_def EntryMembership_def bytes_machine_def)
  from install_during_apply [OF this(1-3) m r1 this(4), where ujson = "\<lambda>_. None" and sf = False and now = 0 and order = "[]" and sf' = False and now' = 0 and order' = "[]" and sm' = bytes_machine]
  show ?thesis using r1 by (auto simp: numeral_2_eq_2)
qed

section \<open>Records that cannot be read back\<close>

lemma read_records_error:
  assumes "\<And>e. e \<in> set es \<Longrightarrow> codec_ok marshal unmarshal e" "readWALRecords unmarshal rest = Inl er"
  shows "readWALRecords unmarshal (wal_records marshal es @ rest) = Inl er"
  using assms(1)
proof (induction es)
  case (Cons e es)
  then show ?case by (simp add: wal_records_def read_record)
qed (simp add: assms(2) wal_records_def)

text \<open>
  The log accepts a record it cannot read back. \<^verbatim>\<open>Append\<close> has no limit on the size of a
  record while reading has one of 64 MiB, so a longer entry is written and acknowledged, and
  the next start refuses the whole log as corrupt.
\<close>

theorem oversized_record_unreadable:
  assumes inv: "durable_inv marshal unmarshal l" "storageErr l = None" and e: "maxWALRecordSize < length (marshal e)" "length (marshal e) < 2 ^ 32"
    "Index e = LastIndex l + 1" "LastIndex l + 1 < 2 ^ 64"
  shows "\<exists>l'. Append marshal None [e] l = (l', None) \<and> entries l' = entries l @ [e] \<and> recovered unmarshal l' = None"
proof -
  let ?img = "wal_image marshal (baseIndex l) (baseTerm l) (entries l)" and ?rest = "wal_records marshal (entries l) @ writeWALRecord marshal e"
  have wf: "log_wf l" "walFile l" "disk l = Some ?img" "\<And>e. e \<in> set (entries l) \<Longrightarrow> codec_ok marshal unmarshal e" "dataDir l \<noteq> []"
    using inv by (simp_all add: durable_inv_def)
  have "validateEntrySequence [e] (u64 (baseIndex l + length (entries l) + 1)) = None" using e(3,4) LastIndex_eq [OF wf(1)] by simp
  then have ap: "Append marshal None [e] l = (l\<lparr>disk := Some (?img @ writeWALRecord marshal e), entries := entries l @ [e]\<rparr>, None)"
    using inv(2) wf(2,3,5) by (simp add: Append_def appendWALToDiskLocked_def wal_content_def wal_records_def)
  let ?f = "writeWALHeader (baseIndex l) (baseTerm l) @ ?rest"
  have "put_u32 n \<noteq> []" for n using length_put_u32 [of n] by force
  then have "readWALRecords unmarshal (writeWALRecord marshal e) = Inl ErrCorruptLog"
    using e(1,2) by (subst readWALRecords.simps) (simp add: writeWALRecord_def Let_def)
  then have rr: "readWALRecords unmarshal ?rest = Inl ErrCorruptLog" using read_records_error [of "entries l" marshal unmarshal] wf(4) by blast
  have rh: "readWALHeader (drop 8 ?f) = Inr ((baseIndex l, baseTerm l), ?rest)" using wf(1) by (intro read_header) (auto simp: log_wf_def)
  have h: "take 8 ?f = walMagic" "\<not> length ?f < 8" by (simp_all add: writeWALHeader_def walMagic_def Let_def)
  have img: "?img @ writeWALRecord marshal e = ?f" by (simp add: wal_image_def)
  show ?thesis
    unfolding ap recovered_def loadFromDisk_def Let_def by (simp add: img rr rh h newRaftLog_def del: drop_append take_append)
qed

theorem oversized_record_unreadable_witness:
  "\<exists>l'. Append (\<lambda>_. replicate (maxWALRecordSize + 1) 0) None [\<lparr>Index = 1, Term = 1, Type = EntryKV, Command = []\<rparr>]
      (newRaftLog\<lparr>dataDir := ''d'', walFile := True, disk := Some (wal_image (\<lambda>_. replicate (maxWALRecordSize + 1) 0) 0 0 [])\<rparr>) = (l', None) \<and>
      recovered (\<lambda>_. None) l' = None"
proof -
  let ?m = "\<lambda>_ :: LogEntry. replicate (maxWALRecordSize + 1) 0 :: bytes" and ?e = "\<lparr>Index = 1, Term = 1, Type = EntryKV, Command = []\<rparr> :: LogEntry"
  let ?l = "newRaftLog\<lparr>dataDir := ''d'', walFile := True, disk := Some (wal_image ?m 0 0 [])\<rparr>"
  have "durable_inv ?m (\<lambda>_. None) ?l" "storageErr ?l = None" "LastIndex ?l = 0" by (simp_all add: durable_inv_def newRaftLog_def log_wf_def LastIndex_def)
  moreover have "maxWALRecordSize < length (?m ?e)" "length (?m ?e) < 2 ^ 32" by (simp_all add: maxWALRecordSize_def)
  ultimately show ?thesis using oversized_record_unreadable [of ?m "\<lambda>_. None" ?l ?e] by auto
qed

section \<open>Membership changes\<close>

text \<open>
  C25: a membership change keeps majorities together. When \<^verbatim>\<open>applyMembership\<close> takes a node from
  one configuration to the next, whatever the change says, a majority of the old configuration
  and one of the new one share a server, the keys stay distinct, and the pending flag is
  cleared, so that the next change can be proposed.
\<close>

theorem membership_change_quorums:
  assumes "applyMembership ujson sf now order e r = (r', None)" "distinct (map fst (clusterConfig r))"
  shows "distinct (map fst (clusterConfig r')) \<and> \<not> pendingMembership r' \<and>
     (\<forall>A B. is_quorum (clusterConfig r) A \<longrightarrow> is_quorum (clusterConfig r') B \<longrightarrow> A \<inter> B \<noteq> {})"
proof -
  obtain ch where ch: "ujson (Command e) = Some ch" using assms(1) by (auto simp: applyMembership_def split: option.splits)
  have c: "clusterConfig r' = (if mc_Type ch = AddServer then AddPeer (mc_NodeID ch) (mc_Address ch) (clusterConfig r)
      else if mc_Type ch = RemoveServer then RemovePeer (mc_NodeID ch) (clusterConfig r) else clusterConfig r)" and p: "\<not> pendingMembership r'"
    using assms(1) ch by (auto simp: applyMembership_def Let_def split: if_splits)
  have "A \<inter> B \<noteq> {}" if "is_quorum (clusterConfig r) A" "is_quorum (clusterConfig r') B" for A B
    using that assms(2) add.cross [of "clusterConfig r" A "mc_NodeID ch" "mc_Address ch" B] rem.cross [of "clusterConfig r" A "mc_NodeID ch" B] maj.overlap
    unfolding c by (auto split: if_splits)
  then show ?thesis using assms(2) p by (auto simp: c distinct_AddPeer distinct_RemovePeer)
qed

theorem membership_change_quorums_witness:
  "\<exists>r'. applyMembership (\<lambda>_. Some \<lparr>mc_Type = AddServer, mc_NodeID = ''c'', mc_Address = ''addr''\<rparr>) False 0 [] \<lparr>Index = 1, Term = 1, Type = EntryMembership, Command = []\<rparr> demo_leader = (r', None) \<and>
     (\<forall>B. is_quorum (clusterConfig r') B \<longrightarrow> {''a'', ''b''} \<inter> B \<noteq> {})"
proof -
  let ?j = "\<lambda>_ :: bytes. Some \<lparr>mc_Type = AddServer, mc_NodeID = ''c'', mc_Address = ''addr''\<rparr>" and ?e = "\<lparr>Index = 1, Term = 1, Type = EntryMembership, Command = []\<rparr> :: LogEntry"
  obtain r' where r': "applyMembership ?j False 0 [] ?e demo_leader = (r', None)" by (simp add: applyMembership_def Let_def)
  have c: "clusterConfig demo_leader = demo_peers" by (simp add: demo_leader_defs)
  have "is_quorum demo_peers {''a'', ''b''}" by (simp add: is_quorum_def members_def demo_peers_def Majority_def Size_def)
  moreover have "distinct (map fst demo_peers)" by (simp add: demo_peers_def)
  ultimately show ?thesis using membership_change_quorums [OF r'] r' unfolding c by blast
qed

text \<open>
  Two different configurations can pass for equal. \<^verbatim>\<open>mapsEqual\<close> compares the values under
  the keys of the first map only, and a missing key reads as the empty string, so a transfer
  that was started for one set of servers is continued for another.
\<close>

theorem mapsEqual_confuses_servers:
  "mapsEqual [(''a'', [])] [(''b'', addr)] \<and> members [(''a'', [])] \<noteq> members [(''b'', addr)]"
  by (simp add: mapsEqual_def members_def)

end
