(* ===== verification/RaftRPCProps.thy ===== *)
theory RaftRPCProps
  imports RaftRPC ReplicationProps RestartProps
begin

text \<open>
  What the RPC layer guarantees: a call through the transport is a call of the handler of the
  node behind the address, with the same request and the same answer; the table of peers follows
  the cluster configuration as long as the calls on it are executed in the order in which the
  node made them; and what happens when they are not.
\<close>

section \<open>Delivery\<close>

lemma to_int32_id: "- (2 ^ 31) \<le> i \<Longrightarrow> i < 2 ^ 31 \<Longrightarrow> to_int32 i = i"
  by (simp add: to_int32_def)

lemma entry_round_trip: "- (2 ^ 31) \<le> Type e \<Longrightarrow> Type e < 2 ^ 31 \<Longrightarrow> entry_from_pb (entry_to_pb e) = e"
  by (simp add: entry_from_pb_def entry_to_pb_def to_int32_id)

definition wire_types :: "LogEntry list \<Rightarrow> bool" where
  "wire_types es = list_all (\<lambda>e. - (2 ^ 31) \<le> Type e \<and> Type e < 2 ^ 31) es"

lemma entries_round_trip: "wire_types es \<Longrightarrow> map (entry_from_pb \<circ> entry_to_pb) es = es"
  unfolding wire_types_def by (induction es) (simp_all add: entry_round_trip)

lemma wire_types_named: "list_all (\<lambda>e. Type e \<in> {EntryKV, EntryMembership, EntryNoop}) es \<Longrightarrow> wire_types es"
  unfolding wire_types_def by (erule list.pred_mono_strong) (auto simp: entry_type_defs)

text \<open>A message copied field by field is the message.\<close>

lemma rebuilt [simp]:
  "\<lparr>rv_Term = rv_Term v, rv_CandidateID = rv_CandidateID v, rv_LastLogIndex = rv_LastLogIndex v, rv_LastLogTerm = rv_LastLogTerm v,
    rv_PreVote = rv_PreVote v\<rparr> = v"
  "\<lparr>rvr_Term = rvr_Term vr, rvr_VoteGranted = rvr_VoteGranted vr\<rparr> = vr"
  "\<lparr>ae_Term = ae_Term a, ae_LeaderID = ae_LeaderID a, ae_PrevLogIndex = ae_PrevLogIndex a, ae_PrevLogTerm = ae_PrevLogTerm a,
    ae_Entries = ae_Entries a, ae_LeaderCommit = ae_LeaderCommit a\<rparr> = a"
  "\<lparr>aer_Term = aer_Term ar, aer_Success = aer_Success ar, aer_ConflictIndex = aer_ConflictIndex ar, aer_ConflictTerm = aer_ConflictTerm ar\<rparr> = ar"
  "\<lparr>in_Term = in_Term i, in_LeaderID = in_LeaderID i, in_LastIncludedIndex = in_LastIncludedIndex i,
    in_LastIncludedTerm = in_LastIncludedTerm i, in_Offset = in_Offset i, in_Done = in_Done i, in_TotalSize = in_TotalSize i,
    in_Checksum = in_Checksum i, in_ClusterConfig = in_ClusterConfig i, in_Data = in_Data i\<rparr> = i"
  by (cases v, simp) (cases vr, simp, cases a, simp, cases ar, simp, cases i, simp)

text \<open>
  Servers by address: a message to an address without a server fails, any other is handled by
  the node there. What the nodes' handlers are given by their machine is the record \<open>rpc_env\<close>.
\<close>

type_synonym 'sm servers = "string \<rightharpoonup> 'sm RaftNode"

record 'sm rpc_env =
  re_marshal :: "LogEntry \<Rightarrow> bytes"
  re_mjson :: "SnapshotMeta \<Rightarrow> bytes"
  re_sm :: "'sm StateMachine"
  re_now :: gotime
  re_order :: "uint64 list"

definition on_server ::
  "('m \<Rightarrow> 'sm RaftNode \<Rightarrow> 'sm RaftNode \<times> (grpc_error + 'a)) \<Rightarrow> string \<Rightarrow> 'm \<Rightarrow> 'sm servers \<Rightarrow> 'sm servers \<times> (grpc_error + 'a)" where
  "on_server h addr m w =
     (case w addr of
        None \<Rightarrow> (w, Inl (Status Unavailable ''connection refused''))
      | Some r \<Rightarrow> (case h m r of (r1, res) \<Rightarrow> (w(addr \<mapsto> r1), res)))"

locale node_service =
  fixes net :: "'sm servers raft_net" and env :: "'sm rpc_env"
  assumes dials: "newclient net addr = None"
    and serves_append: "net_AppendEntries net = on_server (RaftHandler_AppendEntries (re_marshal env) None None False (re_now env) (re_order env))"
    and serves_vote: "net_RequestVote net = on_server (RaftHandler_RequestVote False False (re_now env) (re_order env))"
    and serves_snapshot: "net_InstallSnapshot net =
      on_server (RaftHandler_InstallSnapshot (re_marshal env) (re_mjson env) (re_sm env) None None None False (re_now env) (re_order env))"
begin

lemma getConn_ok: "transport_getConn net addr t = (t\<lparr>tr_conns := insert addr (tr_conns t)\<rparr>, Inr addr)"
  by (simp add: transport_getConn_def dials insert_absorb)

lemma append_delivered:
  assumes "tr_peers t p = Some addr" "w addr = Some r" "wire_types (ae_Entries req)"
    and "processAppendEntries (re_marshal env) None None False (re_now env) (re_order env) (Some req) r = (r1, resp, err)"
  shows "transport_AppendEntries net p req w t =
    (w(addr \<mapsto> r1), t\<lparr>tr_conns := insert addr (tr_conns t)\<rparr>,
     case err of None \<Rightarrow> Inr resp | Some e \<Rightarrow> Inl (RpcFailed (Status Internal (raft_error_text e))))"
  using assms
  by (simp add: transport_AppendEntries_def getConn_ok serves_append on_server_def RaftHandler_AppendEntries_def entries_round_trip
      split: option.split)

lemma vote_delivered:
  assumes "tr_peers t p = Some addr" "w addr = Some r"
    and "handleRequestVote False False (re_now env) (re_order env) (Some req) r = (r1, resp)"
  shows "transport_RequestVote net p req w t = (w(addr \<mapsto> r1), t\<lparr>tr_conns := insert addr (tr_conns t)\<rparr>, Inr resp)"
  using assms
  by (simp add: transport_RequestVote_def getConn_ok serves_vote on_server_def RaftHandler_RequestVote_def)

lemma snapshot_delivered:
  assumes "tr_peers t p = Some addr" "w addr = Some r"
    and "handleInstallSnapshot (re_marshal env) (re_mjson env) (re_sm env) None None None False (re_now env) (re_order env) (Some req) r = (r1, tm, err)"
  shows "transport_InstallSnapshot net p req w t =
    (w(addr \<mapsto> r1), t\<lparr>tr_conns := insert addr (tr_conns t)\<rparr>,
     case err of None \<Rightarrow> Inr tm | Some e \<Rightarrow> Inl (RpcFailed (installSnapshotStatusError e)))"
  using assms
  by (simp add: transport_InstallSnapshot_def getConn_ok serves_snapshot on_server_def RaftHandler_InstallSnapshot_def split: option.split)

end

definition server_net :: "'sm rpc_env \<Rightarrow> 'sm servers raft_net" where
  "server_net env =
     \<lparr>newclient = (\<lambda>_. None),
      net_RequestVote = on_server (RaftHandler_RequestVote False False (re_now env) (re_order env)),
      net_AppendEntries = on_server (RaftHandler_AppendEntries (re_marshal env) None None False (re_now env) (re_order env)),
      net_InstallSnapshot =
        on_server (RaftHandler_InstallSnapshot (re_marshal env) (re_mjson env) (re_sm env) None None None False (re_now env) (re_order env))\<rparr>"

interpretation rpc: node_service "server_net env" env
  by unfold_locales (simp_all add: server_net_def)

text \<open>
  C17: a message sent through the transport is handled as it was sent. When the peer table knows the
  address of a peer and the types of the entries fit in 32 bits, as the three named ones do,
  \<^verbatim>\<open>GRPCTransport.AppendEntries\<close> runs the handler of the node at that address on the very request,
  and returns its very answer, or its error with the code \<^verbatim>\<open>Internal\<close>; \<^verbatim>\<open>RequestVote\<close> and
  \<^verbatim>\<open>InstallSnapshot\<close> do the same, the latter with its own codes. Only that node changes, and the
  connection is kept.
\<close>

theorem rpc_delivers:
  assumes "tr_peers t p = Some addr" "w addr = Some r" "wire_types (ae_Entries areq)"
    and "processAppendEntries (re_marshal env) None None False (re_now env) (re_order env) (Some areq) r = (ra, aresp, aerr)"
    and "handleRequestVote False False (re_now env) (re_order env) (Some vreq) r = (rv, vresp)"
    and "handleInstallSnapshot (re_marshal env) (re_mjson env) (re_sm env) None None None False (re_now env) (re_order env) (Some ireq) r = (ri, it, ierr)"
  shows "transport_AppendEntries (server_net env) p areq w t =
      (w(addr \<mapsto> ra), t\<lparr>tr_conns := insert addr (tr_conns t)\<rparr>,
       case aerr of None \<Rightarrow> Inr aresp | Some e \<Rightarrow> Inl (RpcFailed (Status Internal (raft_error_text e)))) \<and>
    transport_RequestVote (server_net env) p vreq w t = (w(addr \<mapsto> rv), t\<lparr>tr_conns := insert addr (tr_conns t)\<rparr>, Inr vresp) \<and>
    transport_InstallSnapshot (server_net env) p ireq w t =
      (w(addr \<mapsto> ri), t\<lparr>tr_conns := insert addr (tr_conns t)\<rparr>,
       case ierr of None \<Rightarrow> Inr it | Some e \<Rightarrow> Inl (RpcFailed (installSnapshotStatusError e)))"
  using assms by (simp add: rpc.append_delivered rpc.vote_delivered rpc.snapshot_delivered)

definition demo_rpc_env :: "unit rpc_env" where
  "demo_rpc_env = \<lparr>re_marshal = (\<lambda>_. []), re_mjson = (\<lambda>_. []), re_sm = unit_machine, re_now = 0, re_order = []\<rparr>"

definition demo_install :: InstallSnapshotRequest where
  "demo_install = \<lparr>in_Term = 1, in_LeaderID = ''a'', in_LastIncludedIndex = 1, in_LastIncludedTerm = 1, in_Offset = 0, in_Done = True,
     in_TotalSize = 0, in_Checksum = [], in_ClusterConfig = [], in_Data = []\<rparr>"

theorem rpc_delivers_witness:
  "snd (snd (transport_RequestVote (server_net demo_rpc_env)
     ''b'' demo_request [''addr'' \<mapsto> demo_node ''b''] (NewGRPCTransport [''b'' \<mapsto> ''addr'']))) = Inr \<lparr>rvr_Term = 1, rvr_VoteGranted = True\<rparr>"
proof -
  obtain rv where v: "handleRequestVote False False 0 [] (Some demo_request) (demo_node ''b'') = (rv, \<lparr>rvr_Term = 1, rvr_VoteGranted = True\<rparr>)"
    by (simp add: handleRequestVote_eq demo_defs demo_request_def leader_alive_def log_up_to_date_def LastIndex_def LastTerm_def Let_def)
  obtain ra aresp aerr where a: "processAppendEntries (\<lambda>_. []) None None False 0 [] (Some (demo_append 1 ''a'' [] 0)) (demo_node ''b'') = (ra, aresp, aerr)"
    using prod_cases3 by blast
  obtain ri it ierr where i: "handleInstallSnapshot (\<lambda>_. []) (\<lambda>_. []) unit_machine None None None False 0 [] (Some demo_install) (demo_node ''b'') = (ri, it, ierr)"
    using prod_cases3 by blast
  show ?thesis
    using rpc_delivers [of "NewGRPCTransport [''b'' \<mapsto> ''addr'']" "''b''" "''addr''" "[''addr'' \<mapsto> demo_node ''b'']" "demo_node ''b''"
        "demo_append 1 ''a'' [] 0" demo_rpc_env ra aresp aerr demo_request rv _ demo_install ri it ierr] v a i
    by (simp add: NewGRPCTransport_def wire_types_def demo_append_def demo_rpc_env_def)
qed

section \<open>The table of peers\<close>

definition run_transport :: "transport_op list \<Rightarrow> GRPCTransport \<Rightarrow> GRPCTransport" where
  "run_transport ops t = fold run_transport_op ops t"

lemma run_transport_append: "run_transport (xs @ ys) t = run_transport ys (run_transport xs t)"
  by (simp add: run_transport_def)

lemma peers_add [simp]: "tr_peers (transport_AddPeer p a t) = (tr_peers t)(p \<mapsto> a)"
  by (simp add: transport_AddPeer_def)

lemma peers_remove [simp]: "tr_peers (transport_RemovePeer p t) = (tr_peers t)(p := None)"
  by (simp add: transport_RemovePeer_def Let_def split: option.split)

lemma peers_removals: "tr_peers (run_transport (map TransportRemovePeer ps) t) = (\<lambda>p. if p \<in> set ps then None else tr_peers t p)"
  unfolding run_transport_def by (induction ps arbitrary: t) auto

lemma peers_additions:
  "distinct (map fst ps) \<Longrightarrow> tr_peers (run_transport (map (\<lambda>(p, a). TransportAddPeer p a) ps) t) = tr_peers t ++ map_of ps"
proof (unfold run_transport_def, induction ps arbitrary: t)
  case (Cons x ps)
  obtain p a where x: "x = (p, a)" by force
  have "p \<notin> dom (map_of ps)" using Cons.prems x by (simp add: dom_map_of_conv_image_fst)
  then show ?case using Cons x by (auto simp: map_add_def fun_eq_iff split: option.split)
qed simp

text \<open>The table agrees with the configuration on every other node.\<close>

definition table_follows :: "GRPCTransport \<Rightarrow> 'sm RaftNode \<Rightarrow> bool" where
  "table_follows t r \<longleftrightarrow> (\<forall>p. p \<noteq> NodeID (config r) \<longrightarrow> tr_peers (run_transport (transportOps r) t) p = map_of (clusterConfig r) p)"

lemma map_of_filter_distinct:
  "distinct (map fst xs) \<Longrightarrow> map_of (filter P xs) k = (case map_of xs k of Some v \<Rightarrow> if P (k, v) then Some v else None | None \<Rightarrow> None)"
proof (induction xs)
  case (Cons x xs)
  obtain k' v where x: "x = (k', v)" by force
  have "map_of xs k' = None" using Cons.prems x by (simp add: map_of_eq_None_iff)
  then show ?case using Cons x by (cases "k = k'") simp_all
qed simp

lemma distinct_fst_filter: "distinct (map fst xs) \<Longrightarrow> distinct (map fst (filter P xs))"
  by (induction xs) auto

lemma table_reconcile:
  assumes old: "\<forall>p. p \<noteq> NodeID (config r) \<longrightarrow> tr_peers (run_transport (transportOps r) t) p = map_of oldC p"
    and d: "distinct (map fst newC)" and p: "p \<noteq> NodeID (config r)"
  shows "tr_peers (run_transport (transportOps (reconcileTransportPeers oldC newC r)) t) p = map_of newC p"
proof -
  have "map_of oldC p = None \<longleftrightarrow> p \<notin> fst ` set oldC" by (simp add: map_of_eq_None_iff)
  then show ?thesis
    using old p d
    by (auto simp: reconcileTransportPeers_def Let_def run_transport_append peers_removals peers_additions distinct_fst_filter
        map_of_filter_distinct map_add_def split: option.splits)
qed

text \<open>
  The steps that change the configuration: applying a membership entry and installing a
  snapshot; every other handler leaves the configuration and the calls alone.
\<close>

inductive reconfigured :: "'sm RaftNode \<Rightarrow> 'sm RaftNode \<Rightarrow> bool" for r0 where
  unchanged: "reconfigured r0 r0"
| by_entry: "reconfigured r0 r \<Longrightarrow> applyMembership ujson sf now order entry r = (r', err) \<Longrightarrow> reconfigured r0 r'"
| by_snapshot: "reconfigured r0 r \<Longrightarrow> distinct (map fst (ClusterConfig meta)) \<Longrightarrow>
     finalizeInstalledSnapshot marshal mjson sm pf wr meta data r = (r', err) \<Longrightarrow> reconfigured r0 r'"
| by_other: "reconfigured r0 r \<Longrightarrow> config r' = config r \<Longrightarrow> clusterConfig r' = clusterConfig r \<Longrightarrow> transportOps r' = transportOps r \<Longrightarrow>
     reconfigured r0 r'"

lemma table_entry:
  assumes "applyMembership ujson sf now order entry r = (r', err)" "table_follows t r"
  shows "table_follows t r' \<and> config r' = config r"
proof -
  have up: "map_of (AddPeer p a c) = (map_of c)(p \<mapsto> a)" "map_of (RemovePeer p c) = (map_of c)(p := None)" for p a and c :: peers
    by (simp_all add: AddPeer_def RemovePeer_def update_conv' delete_conv')
  have ops: "transportOps (stepDown s n w tm x) = transportOps x" for s n w tm and x :: "'a RaftNode"
    by (simp add: stepDown_eq Let_def)
  show ?thesis
    using assms
    by (auto simp: applyMembership_def table_follows_def Let_def run_transport_append up ops run_transport_def [of "[_]"] split: option.splits if_splits)
qed

lemma reconcile_config [simp]: "config (reconcileTransportPeers a b r) = config r" "clusterConfig (reconcileTransportPeers a b r) = clusterConfig r"
  by (simp_all add: reconcileTransportPeers_def Let_def)

lemma table_same:
  "table_follows t r \<Longrightarrow> config r' = config r \<Longrightarrow> clusterConfig r' = clusterConfig r \<Longrightarrow> transportOps r' = transportOps r \<Longrightarrow>
     table_follows t r' \<and> config r' = config r"
  by (simp add: table_follows_def)

lemma table_adopted:
  assumes "table_follows t r" "distinct (map fst (ClusterConfig meta))" "config r1 = config r" "transportOps r1 = transportOps r"
    and "clusterConfig r1 = ClusterConfig meta"
  shows "table_follows t (reconcileTransportPeers (clusterConfig r) (ClusterConfig meta) r1)"
  using assms table_reconcile [of r1 t "clusterConfig r" "ClusterConfig meta"] by (simp add: table_follows_def)

lemma persistSnapshot_keeps:
  "persistSnapshot mjson wr meta data r = (r1, e1) \<Longrightarrow> config r1 = config r \<and> clusterConfig r1 = clusterConfig r \<and> transportOps r1 = transportOps r"
  by (auto simp: persistSnapshot_def split: if_splits sum.splits prod.splits)

lemma table_snapshot:
  assumes f: "finalizeInstalledSnapshot marshal mjson sm pf wr meta data r = (r', err)" and t: "table_follows t r"
    and d: "distinct (map fst (ClusterConfig meta))"
  shows "table_follows t r' \<and> config r' = config r"
proof -
  obtain r1 e1 where p: "persistSnapshot mjson wr meta data r = (r1, e1)" by fastforce
  obtain l e2 where l: "RestoreSnapshotBoundary marshal pf (LastIncludedIndex meta) (LastIncludedTerm meta) (rlog r1) = (l, e2)" by fastforce
  obtain s e3 where s: "sm_Restore sm data (stateMachine r1) = (s, e3)" by fastforce
  note keep = persistSnapshot_keeps [OF p]
  show ?thesis
  proof (cases "e1 = None \<and> e2 = None \<and> e3 = None")
    case True
    define r2 where "r2 = adopt_snapshot meta data (r1\<lparr>rlog := l, stateMachine := s\<rparr>)"
    define r3 where "r3 = (if lastApplied r2 < commitIndex r2 then r2\<lparr>commitCh := True\<rparr> else r2)"
    have "finalizeInstalledSnapshot marshal mjson sm pf wr meta data r = (reconcileTransportPeers (clusterConfig r1) (ClusterConfig meta) r3, None)"
      using p l s True unfolding r3_def r2_def by (simp add: finalizeInstalledSnapshot_def Let_def)
    then have "r' = reconcileTransportPeers (clusterConfig r1) (ClusterConfig meta) r3" using f by simp
    moreover have "config r3 = config r" "transportOps r3 = transportOps r" "clusterConfig r3 = ClusterConfig meta"
      using keep by (simp_all add: r3_def r2_def adopt_snapshot_def)
    ultimately show ?thesis using table_adopted [OF t d, of r3] keep by simp
  next
    case False
    then have "config r' = config r \<and> clusterConfig r' = clusterConfig r \<and> transportOps r' = transportOps r"
      using f p l s keep by (auto simp: finalizeInstalledSnapshot_def markFatalLocked_def split: option.splits)
    then show ?thesis using table_same [OF t] by blast
  qed
qed

lemma loaded_distinct:
  assumes "loadSnapshotArtifact ujson unreadable r = Some (Inr (Some (meta, data, legacy)))"
    and d: "\<And>x m. ujson x = Some m \<Longrightarrow> distinct (map fst (ClusterConfig m))" and c: "distinct (map fst (clusterConfig r))"
  shows "distinct (map fst (ClusterConfig meta))"
proof -
  have dec: "distinct (map fst (ClusterConfig m))" if "decodeSnapshotArtifact ujson a = Some (Inr (m, x))" for a m x
    using that d by (auto simp: decodeSnapshotArtifact_def Let_def split: if_splits option.splits)
  have sum: "v = Inr (meta, data)" if "map_sum id (\<lambda>(m, y). Some (m, y, False)) v = Inr (Some (meta, data, legacy))"
    for v :: "raft_error + SnapshotMeta \<times> bytes"
    using that by (cases v) auto
  show ?thesis
    using assms(1) d c
    by (auto simp: loadSnapshotArtifact_def Let_def Size_def split: if_splits option.splits dest!: sum intro: dec)
qed

lemma table_load:
  assumes f: "loadSnapshotFromDisk marshal mjson ujson sm a b pf wr r = Some (r', None)" and t: "table_follows t r"
    and d: "\<And>x m. ujson x = Some m \<Longrightarrow> distinct (map fst (ClusterConfig m))" and c: "distinct (map fst (clusterConfig r))"
  shows "table_follows t r' \<and> config r' = config r"
proof (cases "r' = r")
  case False
  then obtain meta data legacy where art: "loadSnapshotArtifact ujson b r = Some (Inr (Some (meta, data, legacy)))"
    using f by (auto simp: loadSnapshotFromDisk_def split: if_splits option.splits sum.splits)
  obtain l e2 where l: "RestoreSnapshotBoundary marshal pf (LastIncludedIndex meta) (LastIncludedTerm meta) (rlog r) = (l, e2)" by fastforce
  obtain s e3 where s: "sm_Restore sm data (stateMachine r) = (s, e3)" by fastforce
  let ?r1 = "reconcileTransportPeers (clusterConfig r) (ClusterConfig meta) (adopt_snapshot meta data (r\<lparr>rlog := l, stateMachine := s\<rparr>))"
  have t1: "table_follows t ?r1"
    by (rule table_adopted [OF t loaded_distinct [OF art d c]]) (simp_all add: adopt_snapshot_def)
  have "if legacy then persistSnapshot mjson wr meta data ?r1 = (r', None) else r' = ?r1"
    using f art l s by (auto simp: loadSnapshotFromDisk_def Let_def split: if_splits option.splits)
  then have "config r' = config ?r1 \<and> clusterConfig r' = clusterConfig ?r1 \<and> transportOps r' = transportOps ?r1"
    by (cases legacy) (simp_all add: persistSnapshot_keeps)
  then show ?thesis using table_same [OF t1, of r'] by (simp add: adopt_snapshot_def)
qed (use t in simp)

lemma table_reconfigured:
  "reconfigured r0 r \<Longrightarrow> table_follows t r0 \<Longrightarrow> table_follows t r \<and> config r = config r0"
proof (induction rule: reconfigured.induct)
  case (by_entry r ujson sf now order entry r' err)
  then show ?case using table_entry [OF by_entry.hyps(2), of t] by simp
next
  case (by_snapshot r meta marshal mjson sm pf wr data r' err)
  then show ?case using table_snapshot [OF by_snapshot.hyps(3) _ by_snapshot.hyps(2), of t] by simp
next
  case (by_other r r')
  then show ?case using table_same [of t r r'] by simp
qed simp

lemma table_start:
  assumes "NewRaftNode marshal unmarshal mjson ujson now cfg sm s0 files = Some (Inr r0)" "distinct (map fst (Peers cfg))"
    and d: "\<And>x m. ujson x = Some m \<Longrightarrow> distinct (map fst (ClusterConfig m))"
  shows "table_follows (NewGRPCTransport (map_of (Peers cfg))) r0 \<and> config r0 = cfg"
proof -
  obtain ps rl where load: "loadSnapshotFromDisk marshal mjson ujson sm False False None None (new_node now cfg ps rl s0 files) = Some (r0, None)"
    using assms(1) by (auto simp: NewRaftNode_def Let_def split: sum.splits option.splits prod.splits)
  have "table_follows (NewGRPCTransport (map_of (Peers cfg))) (new_node now cfg ps rl s0 files)"
    by (simp add: table_follows_def new_node_def run_transport_def NewGRPCTransport_def update_conv')
  moreover have "distinct (map fst (clusterConfig (new_node now cfg ps rl s0 files)))"
    using assms(2) by (simp add: new_node_def distinct_update)
  ultimately show ?thesis using table_load [OF load _ d] by (simp add: new_node_def)
qed

lemma applyMembership_done:
  assumes "ujson (Command e) = Some ch"
  obtains r' where "applyMembership ujson sf now order e r = (r', None)"
  using assms by (fastforce simp: applyMembership_def Let_def split: prod.splits)

text \<open>
  C23: the transport can reach exactly the members of the configuration. From the start of a node
  with a transport made from the same peers, through every membership entry it applies and every
  snapshot it installs, the table of peers of the transport agrees with the cluster configuration
  on all other nodes, if the calls on the transport are executed in the order in which the node
  made them.
\<close>

theorem transport_follows_config:
  assumes "NewRaftNode marshal unmarshal mjson ujson now cfg sm s0 files = Some (Inr r0)" "distinct (map fst (Peers cfg))"
    and "\<And>x m. ujson x = Some m \<Longrightarrow> distinct (map fst (ClusterConfig m))"
    and "reconfigured r0 r" "p \<noteq> NodeID cfg"
  shows "tr_peers (run_transport (transportOps r) (NewGRPCTransport (map_of (Peers cfg)))) p = map_of (clusterConfig r) p"
proof -
  have "table_follows (NewGRPCTransport (map_of (Peers cfg))) r0 \<and> config r0 = cfg" by (rule table_start [OF assms(1-2)]) (rule assms(3))
  then show ?thesis using table_reconfigured [OF assms(4), of "NewGRPCTransport (map_of (Peers cfg))"] assms(5) by (simp add: table_follows_def)
qed

theorem transport_follows_config_witness:
  "tr_peers (run_transport [TransportAddPeer ''c'' ''addr''] (NewGRPCTransport (map_of (Peers (demo_cfg ''a''))))) ''c'' = Some ''addr''"
proof -
  let ?files = "\<lparr>nf_state = None, nf_wal = None, nf_snapshot = None, nf_meta = None\<rparr>"
  let ?ch = "\<lambda>_ :: bytes. Some \<lparr>mc_Type = AddServer, mc_NodeID = ''c'', mc_Address = ''addr''\<rparr>"
  let ?ps = "newPersistentState (DataDir (demo_cfg ''a'')) None"
  obtain rl where start: "NewRaftNode (\<lambda>_. []) (\<lambda>_. None) (\<lambda>_. []) (\<lambda>_. None) 0 (demo_cfg ''a'') unit_machine () ?files =
      Some (Inr (new_node 0 (demo_cfg ''a'') ?ps rl () ?files))"
    by (auto simp: NewRaftNode_def newRaftLogWithWAL_def loadFromDisk_def persistStateToDiskLocked_def loadSnapshotFromDisk_def
        loadSnapshotArtifact_def new_node_def newRaftLog_def demo_cfg_def DefaultConfig_def Let_def)
  obtain r' where m: "applyMembership ?ch False 0 [] (demo_entry 1 1) (new_node 0 (demo_cfg ''a'') ?ps rl () ?files) = (r', None)" by (rule applyMembership_done) simp
  then have c: "transportOps r' = [TransportAddPeer ''c'' ''addr'']" "map_of (clusterConfig r') ''c'' = Some ''addr''"
    by (auto simp: applyMembership_def Let_def AddServer_def AddPeer_def update_conv' new_node_def)
  show ?thesis
    using transport_follows_config [OF start _ _ by_entry [OF unchanged m], of "''c''"] c
    by (simp add: demo_cfg_def DefaultConfig_def)
qed

text \<open>
  The calls are not ordered, and another order cuts a member off. \<^verbatim>\<open>applyMembership\<close> makes each
  call in a goroutine of its own. When a server is removed and added again, as after a change of
  its address, and the removal runs last, the configuration has the server at its new address
  while every message to it fails with \<^verbatim>\<open>unknown peer\<close>, and no later step repairs the table.
\<close>

theorem reordered_calls_cut_off_member:
  assumes "applyMembership ujson sf now order e1 r = (r1, None)" "applyMembership ujson sf now order e2 r1 = (r2, None)"
    and "ujson (Command e1) = Some \<lparr>mc_Type = RemoveServer, mc_NodeID = p, mc_Address = []\<rparr>"
    and "ujson (Command e2) = Some \<lparr>mc_Type = AddServer, mc_NodeID = p, mc_Address = addr\<rparr>"
  shows "\<exists>calls. transportOps r2 = transportOps r @ calls \<and> map_of (clusterConfig r2) p = Some addr \<and>
    snd (snd (transport_AppendEntries net p req w (run_transport (transportOps r @ rev calls) t))) = Inl (UnknownPeer p)"
proof (intro exI conjI)
  have ops: "transportOps (stepDown s n o' tm x) = transportOps x" for s n o' tm and x :: "'a RaftNode"
    by (simp add: stepDown_eq Let_def)
  show "transportOps r2 = transportOps r @ [TransportRemovePeer p, TransportAddPeer p addr]"
    using assms by (auto simp: applyMembership_def Let_def AddServer_def RemoveServer_def ops split: if_splits)
  show "map_of (clusterConfig r2) p = Some addr"
    using assms(2,4) by (auto simp: applyMembership_def Let_def AddServer_def AddPeer_def update_conv')
  show "snd (snd (transport_AppendEntries net p req w (run_transport (transportOps r @ rev [TransportRemovePeer p, TransportAddPeer p addr]) t))) =
    Inl (UnknownPeer p)"
    by (simp add: run_transport_append run_transport_def [of "[_, _]"] transport_AppendEntries_def)
qed

theorem reordered_calls_cut_off_member_witness:
  "\<exists>t. snd (snd (transport_AppendEntries (server_net demo_rpc_env) ''b'' (demo_append 1 ''a'' [] 0) Map.empty t)) = Inl (UnknownPeer ''b'')"
proof -
  let ?rem = "\<lparr>mc_Type = RemoveServer, mc_NodeID = ''b'', mc_Address = []\<rparr>"
  let ?add = "\<lparr>mc_Type = AddServer, mc_NodeID = ''b'', mc_Address = ''addr''\<rparr>"
  let ?j = "\<lambda>b. Some (if b = [] then ?rem else ?add)"
  let ?e1 = "(demo_entry 1 1)\<lparr>Command := []\<rparr>" and ?e2 = "(demo_entry 2 1)\<lparr>Command := [1]\<rparr>"
  obtain r1 where r1: "applyMembership ?j False 0 [] ?e1 (demo_node ''a'') = (r1, None)" by (rule applyMembership_done) simp
  obtain r2 where r2: "applyMembership ?j False 0 [] ?e2 r1 = (r2, None)" by (rule applyMembership_done) simp
  show ?thesis
    using reordered_calls_cut_off_member [OF r1 r2, of "''b''" "''addr''" "server_net demo_rpc_env" "demo_append 1 ''a'' [] 0" Map.empty "NewGRPCTransport Map.empty"] by auto
qed

end
