(* ===== verification/CatchUp.thy ===== *)
theory CatchUp
  imports Exchange RaftRPCProps LeaderCompleteness
begin

text \<open>
  What the goroutines of \<open>Exchange\<close> achieve: replication brings a follower that can be reached up to
  date and ends. The locale \<open>peer_link\<close> says what it needs of the transport; it is interpreted on
  the gRPC transport between servers.
\<close>

section \<open>A follower with a healthy disk\<close>

definition log_healthy :: "RaftLog \<Rightarrow> bool" where
  "log_healthy l \<longleftrightarrow> storageErr l = None \<and> (dataDir l = [] \<or> walFile l)"

lemma healthy_append:
  assumes "log_healthy l" "log_wf l" "contiguous (LastIndex l) es" "LastIndex l + length es < 2 ^ 64"
  obtains l' where "Append marshal None es l = (l', None)" "log_healthy l'"
proof -
  have h: "storageErr l = None" "dataDir l = [] \<or> walFile l" using assms(1) by (auto simp: log_healthy_def)
  obtain l' where l: "Append marshal None es l = (l', None)" using Append_healthy [OF h assms(2-4)] by blast
  then show thesis using that Append_storage [OF l h] by (simp add: log_healthy_def)
qed

lemma healthy_truncate:
  assumes "log_healthy l" "baseIndex l \<le> i"
  obtains l' where "TruncateAfter marshal None i l = (l', None)" "log_healthy l'"
proof -
  have "\<exists>l'. TruncateAfter marshal None i l = (l', None) \<and> log_healthy l'"
    using assms by (auto simp: log_healthy_def TruncateAfter_def persistStateToDiskLocked_def Let_def)
  then show thesis using that by blast
qed

lemma healthy_entries:
  assumes "log_healthy l" "log_wf l" "baseIndex l = 0" "contiguous p es" "p \<le> length (entries l)" "p + length es < 2 ^ 64"
  shows "\<exists>l'. ae_entries marshal None None es l = (l', EntriesApplied) \<and> log_healthy l'"
  using assms(4-)
proof (induction es arbitrary: p)
  case (Cons e es)
  have ie: "Index e = Suc p" "contiguous (Suc p) es" using Cons.prems(1) by (simp_all add: contiguous_Cons)
  have ta: "TermAt (Index e) l = (if p < length (entries l) then Inr (Term (entries l ! p)) else Inl ErrOutOfRange)"
    using TermAt_above [of l p] assms(3) ie(1) by simp
  have L: "LastIndex l = length (entries l)" using LastIndex_eq [OF assms(2)] assms(3) by simp
  show ?case
  proof (cases "p < length (entries l)")
    case inside: True
    show ?thesis
    proof (cases "Term (entries l ! p) = Term e")
      case True
      then show ?thesis using Cons.IH [OF ie(2)] Cons.prems(3) inside ta by simp
    next
      case False
      obtain l1 where l1: "TruncateAfter marshal None (Index e - 1) l = (l1, None)" "log_healthy l1" by (rule healthy_truncate [OF assms(1)]) (simp add: assms(3))
      note t = TruncateAfter_ok [OF assms(2) l1(1)]
      have wf: "log_wf l1" using log_wf_take [OF assms(2), of l1 p] t assms(3) ie(1) by simp
      have "LastIndex l1 = p" using LastIndex_eq [OF wf] t assms(3) ie(1) inside by simp
      then obtain l2 where "Append marshal None (e # es) l1 = (l2, None)" "log_healthy l2"
        using healthy_append [OF l1(2) wf, of "e # es" marshal] Cons.prems(1,3) by auto
      then show ?thesis using ta inside False l1(1) by simp
    qed
  next
    case False
    then obtain l2 where "Append marshal None (e # es) l = (l2, None)" "log_healthy l2"
      using healthy_append [OF assms(1,2), of "e # es" marshal] Cons.prems L by auto
    then show ?thesis using ta False by simp
  qed
qed (use assms(1) in simp)

lemma conflict_loop_bounds: "0 < ci \<Longrightarrow> 0 < conflict_loop l t ci \<and> conflict_loop l t ci \<le> ci"
proof (induction l t ci rule: conflict_loop.induct)
  case (1 l t ci)
  then show ?case by (subst (1 2) conflict_loop.simps) (auto split: sum.splits if_splits)
qed

text \<open>The check of the previous entry, on a log that is not compacted.\<close>

definition prev_agrees :: "AppendEntriesRequest \<Rightarrow> LogEntry list \<Rightarrow> bool" where
  "prev_agrees req L \<longleftrightarrow> ae_PrevLogIndex req \<le> length L \<and> (0 < ae_PrevLogIndex req \<longrightarrow> Term (L ! (ae_PrevLogIndex req - 1)) = ae_PrevLogTerm req)"

lemma prev_check_cases:
  assumes "log_wf (rlog r)" "baseIndex (rlog r) = 0" "ae_PrevLogIndex req < 2 ^ 64"
  shows "if prev_agrees req (entries (rlog r)) then prev_check req r = None
    else \<exists>resp. prev_check req r = Some resp \<and> \<not> aer_Success resp \<and> aer_Term resp = currentTerm r \<and> 0 < aer_ConflictIndex resp \<and>
      aer_ConflictIndex resp \<le> ae_PrevLogIndex req"
proof (cases "ae_PrevLogIndex req")
  case 0
  then show ?thesis using assms(2) by (simp add: prev_check_def prev_agrees_def)
next
  case (Suc k)
  have ta: "TermAt (Suc k) (rlog r) = (if k < length (entries (rlog r)) then Inr (Term (entries (rlog r) ! k)) else Inl ErrOutOfRange)"
    using TermAt_above [of "rlog r" k] assms(2) by simp
  have L: "LastIndex (rlog r) = length (entries (rlog r))" using LastIndex_eq [OF assms(1)] assms(2) by simp
  show ?thesis using ta L Suc assms(2,3) conflict_loop_bounds [of "Suc k" "rlog r"] by (auto simp: prev_check_def prev_agrees_def Let_def)
qed

text \<open>A follower that replication can bring up to date, for the leader of term \<open>t\<close> whose log is \<open>H t\<close>.\<close>

definition ready :: "(uint64 \<Rightarrow> LogEntry list) \<Rightarrow> uint64 \<Rightarrow> 'sm RaftNode \<Rightarrow> bool" where
  "ready H t f \<longleftrightarrow> fatalErr f = None \<and> log_wf (rlog f) \<and> baseIndex (rlog f) = 0 \<and> follows H (entries (rlog f)) \<and> log_healthy (rlog f) \<and> currentTerm f \<le> t"

definition leader_history :: "(uint64 \<Rightarrow> LogEntry list) \<Rightarrow> uint64 \<Rightarrow> bool" where
  "leader_history H t \<longleftrightarrow> follows H (H t) \<and> contiguous 0 (H t) \<and> length (H t) + 1 < 2 ^ 64"

lemma ready_receives:
  assumes f: "ready H t f" and h: "leader_history H t" and m: "message_ok H req" "ae_Term req = t"
  obtains f' resp where "processAppendEntries marshal None None False now order (Some req) f = (f', resp, None)" "aer_Term resp = t" "ready H t f'"
    "prev_agrees req (entries (rlog f)) \<longrightarrow> aer_Success resp \<and> has H t (reach req) (entries (rlog f'))"
    "\<not> prev_agrees req (entries (rlog f)) \<longrightarrow> \<not> aer_Success resp \<and> 0 < aer_ConflictIndex resp \<and> aer_ConflictIndex resp \<le> ae_PrevLogIndex req"
proof -
  let ?p = "ae_PrevLogIndex req" and ?es = "ae_Entries req"
  note F = f [unfolded ready_def]
  have l: "log_wf (rlog f)" "baseIndex (rlog f) = 0" "follows H (entries (rlog f))" using F by auto
  have ht: "follows H (H (ae_Term req))" "contiguous 0 (H (ae_Term req))" "length (H (ae_Term req)) < 2 ^ 64" using h m(2) by (auto simp: leader_history_def)
  define r0 where "r0 = (if currentTerm f < ae_Term req \<or> state f \<noteq> Follower then stepDown False now order (ae_Term req) f else f)"
  define r1 where "r1 = r0\<lparr>leaderID := ae_LeaderID req, lastHeartbeat := now\<rparr>"
  have r0: "rlog r0 = rlog f" by (simp add: r0_def)
  have r1: "rlog r1 = rlog f" "currentTerm r1 = t" "fatalErr r1 = None" using F m(2) by (auto simp: r1_def r0_def)
  have res: "processAppendEntries marshal None None False now order (Some req) f = ae_resume marshal None None now req r0"
    using F m(2) by (simp add: processAppendEntries_def ae_checks_def r0_def)
  then have pae: "processAppendEntries marshal None None False now order (Some req) f = ae_log_part marshal None None req r1"
    by (simp add: ae_resume_def r1_def)
  obtain k where k: "?p \<le> length (H t)" "?es = take k (drop ?p (H t))" using m by (auto simp: message_ok_def Let_def)
  have p64: "?p + length ?es \<le> length (H t)" using k by simp
  have es: "contiguous ?p ?es" using ht(2) k m(2) by (auto simp: contiguous_def)
  have bound: "?p + length ?es + 1 < 2 ^ 64" using p64 h by (simp add: leader_history_def)
  have start: "\<not> (?es \<noteq> [] \<and> ?p = max_uint64)" "validateEntrySequence ?es (?p + 1) = None"
    using bound validate_contiguous [of ?p ?es] es by (auto simp: max_uint64_def)
  show thesis
  proof (cases "prev_agrees req (entries (rlog f))")
    case True
    have pc: "prev_check req r1 = None" using prev_check_cases [of r1 req] r1(1) l True bound by simp
    obtain l' where l': "ae_entries marshal None None ?es (rlog f) = (l', EntriesApplied)" "log_healthy l'"
      using healthy_entries [of "rlog f" ?p ?es marshal] F es bound True by (auto simp: prev_agrees_def)
    let ?f' = "commit_from_leader (ae_LeaderCommit req) (r1\<lparr>rlog := l'\<rparr>)"
    have run: "processAppendEntries marshal None None False now order (Some req) f = (?f', ae_response True ?f', None)"
      unfolding pae ae_log_part_def using start pc l'(1) r1(1) by (cases "?es = []") (simp_all add: Let_def)
    have c: "fatalErr ?f' = None" "currentTerm ?f' = t" using r1 by (simp_all add: commit_from_leader_def Let_def)
    have wf: "log_wf l'" "baseIndex l' = 0" "\<exists>j. entries l' = take j (entries (rlog f)) \<or> entries l' = take j (H t)"
      using resumed_log [of r0, unfolded r0, OF l ht m(1) run [unfolded res]] m(2) by auto
    have fol: "follows H (entries l')" using wf(3) follows_take l(3) ht(1) m(2) by auto
    have "has H t (reach req) (entries l')" using resumed_prefixes(3) [of r0, unfolded r0, OF l ht(1,2) m(1) run [unfolded res]] m(2) by (simp add: ae_response_def)
    then show thesis using that [OF run] wf fol c l'(2) by (simp add: ready_def ae_response_def True)
  next
    case False
    obtain resp where resp: "prev_check req r1 = Some resp" "\<not> aer_Success resp" "aer_Term resp = t" "0 < aer_ConflictIndex resp" "aer_ConflictIndex resp \<le> ?p"
      using prev_check_cases [of r1 req] r1 l False bound by auto
    have run: "processAppendEntries marshal None None False now order (Some req) f = (r1, resp, None)"
      unfolding pae ae_log_part_def using start resp(1) by simp
    show thesis using that [OF run resp(3)] resp F r1 False by (simp add: ready_def)
  qed
qed

section \<open>The leader's side\<close>

definition leading :: "(uint64 \<Rightarrow> LogEntry list) \<Rightarrow> 'sm RaftNode \<Rightarrow> bool" where
  "leading H r \<longleftrightarrow> state r = Leader \<and> fatalErr r = None \<and> log_wf (rlog r) \<and> baseIndex (rlog r) = 0 \<and> wire_types (entries (rlog r)) \<and>
     H (currentTerm r) = entries (rlog r) \<and> leader_history H (currentTerm r)"

lemma leading_last: "leading H r \<Longrightarrow> LastIndex (rlog r) = length (entries (rlog r)) \<and> length (entries (rlog r)) + 1 < 2 ^ 64"
  using LastIndex_eq [of "rlog r"] by (auto simp: leading_def leader_history_def)

lemma leading_cong:
  "leading H r \<Longrightarrow> state r' = state r \<Longrightarrow> fatalErr r' = fatalErr r \<Longrightarrow> rlog r' = rlog r \<Longrightarrow> currentTerm r' = currentTerm r \<Longrightarrow> leading H r'"
  by (simp add: leading_def)

lemma wire_types_sub: "wire_types es \<Longrightarrow> set es' \<subseteq> set es \<Longrightarrow> wire_types es'"
  by (auto simp: wire_types_def list_all_iff)

lemma leader_request:
  assumes r: "leading H r" and ni: "0 < ni" "ni \<le> length (entries (rlog r)) + 1"
  obtains req where "replicateTo_request ni r = ReplSend ni req" "message_ok H req" "ae_Term req = currentTerm r" "ae_PrevLogIndex req = ni - 1"
    "wire_types (ae_Entries req)" "ae_Entries req = [] \<longrightarrow> ni = length (entries (rlog r)) + 1" "reach req \<le> length (entries (rlog r))"
proof -
  let ?l = "rlog r" and ?L = "entries (rlog r)"
  note l = leading_last [OF r] and b = r [unfolded leading_def]
  have clip: "clip_next (LastIndex ?l) ni = ni" using l ni by (simp add: clip_next_def Let_def)
  have "\<exists>pt. TermAt (ni - 1) ?l = Inr pt" using b ni by (cases "ni = 1") (auto simp: TermAt_def termAtLocked_def log_wf_def Let_def)
  then obtain pt where pt: "TermAt (ni - 1) ?l = Inr pt" ..
  have es: "GetEntriesFrom ni ?l = Inr (drop (ni - 1) ?L)" using b ni by (auto simp: GetEntriesFrom_def Let_def)
  let ?es = "limit_entries (MaxLogEntriesPerRPC (config r)) (drop (ni - 1) ?L)"
  let ?req = "\<lparr>ae_Term = currentTerm r, ae_LeaderID = NodeID (config r), ae_PrevLogIndex = ni - 1, ae_PrevLogTerm = pt, ae_Entries = ?es, ae_LeaderCommit = commitIndex r\<rparr>"
  have q: "replicateTo_request ni r = ReplSend ni ?req" using b clip pt es ni by (simp add: replicateTo_request_def Let_def)
  have "set ?es \<subseteq> set ?L" by (auto simp: limit_entries_def dest: in_set_takeD in_set_dropD)
  then have "wire_types ?es" using b wire_types_sub by blast
  moreover have "?es = [] \<longrightarrow> ni = length ?L + 1" using ni by (auto simp: limit_entries_def split: if_splits)
  moreover have m: "message_ok H ?req" using sent_message [of r ni ni ?req H] b q by simp
  moreover have "reach ?req \<le> length ?L" using message_reach [OF m] b by simp
  ultimately show thesis using that [OF q] by simp
qed

lemma has_prev_agrees:
  assumes "message_ok H req" "has H (ae_Term req) (ae_PrevLogIndex req) L"
  shows "prev_agrees req L"
proof (cases "ae_PrevLogIndex req")
  case (Suc k)
  have "k < length L" "take (Suc k) L = take (Suc k) (H (ae_Term req))" using assms(2) Suc by (auto simp: has_def)
  then have "L ! k = H (ae_Term req) ! k" by (metis lessI nth_take)
  then show ?thesis using assms Suc by (simp add: message_ok_def has_def prev_agrees_def Let_def)
qed (simp add: prev_agrees_def)

lemma record_match_more [simp]:
  "rlog (record_match p k r) = rlog r" "fatalErr (record_match p k r) = fatalErr r"
  by (simp_all add: record_match_def Let_def)

lemma record_match_reaches: "k \<le> idx (matchIndex (record_match p k r)) p"
  by (simp add: record_match_def Let_def idx_def)

text \<open>
  What replication does to the leader: it learns more of what its peers hold, and commits its log
  when a majority holds it and its last entry is of the current term.
\<close>

definition settled :: "'sm RaftNode \<Rightarrow> bool" where
  "settled r \<longleftrightarrow>
     (entries (rlog r) \<noteq> [] \<longrightarrow> Term (last (entries (rlog r))) = currentTerm r \<longrightarrow>
      Majority (clusterConfig r) \<le> replica_count (LastIndex (rlog r)) r \<longrightarrow> LastIndex (rlog r) \<le> commitIndex r)"

definition grows :: "'sm RaftNode \<Rightarrow> 'sm RaftNode \<Rightarrow> bool" where
  "grows r r1 \<longleftrightarrow> currentTerm r1 = currentTerm r \<and> rlog r1 = rlog r \<and> config r1 = config r \<and> clusterConfig r1 = clusterConfig r \<and>
     waiters r1 = waiters r \<and> (\<forall>q. idx (matchIndex r) q \<le> idx (matchIndex r1) q) \<and> (settled r \<longrightarrow> settled r1)"

lemma grows_refl [simp]: "grows r r"
  by (simp add: grows_def)

lemma grows_trans: "grows r r1 \<Longrightarrow> grows r1 r2 \<Longrightarrow> grows r r2"
  unfolding grows_def by (metis le_trans)

lemma growsD: "grows r r1 \<Longrightarrow> currentTerm r1 = currentTerm r \<and> rlog r1 = rlog r"
  by (simp add: grows_def)

lemma advance_settles:
  assumes "leading H r"
  shows "settled (advanceCommitIndex r)"
proof -
  let ?n = "LastIndex (rlog r)" and ?L = "entries (rlog r)"
  have "?n \<le> commitIndex (advanceCommitIndex r)"
    if "?L \<noteq> []" "Term (last ?L) = currentTerm r" "Majority (clusterConfig r) \<le> replica_count ?n r"
  proof -
    have "\<exists>k. length ?L = Suc k" using that(1) by (cases ?L) simp_all
    then obtain k where "length ?L = Suc k" ..
    then have "GetEntry ?n (rlog r) = Inr (last ?L)"
      using that(1) leading_last [OF assms] assms by (simp add: leading_def GetEntry_def last_conv_nth Let_def)
    then have "?n \<le> commitIndex (commit_scan r ?n)" using that(2,3) by (subst commit_scan.simps) simp
    then show ?thesis using assms by (simp add: leading_def advanceCommitIndex_def)
  qed
  moreover have "replica_count k (advanceCommitIndex r) = replica_count k r" for k by (simp add: replica_count_def)
  ultimately show ?thesis by (simp add: settled_def)
qed

text \<open>The two answers a follower that is ready gives.\<close>

lemma answer_success:
  assumes "leading H r" "ae_Term req = currentTerm r" "aer_Term resp = currentTerm r" "aer_Success resp" "reach req \<le> length (entries (rlog r))"
  shows "\<exists>r1. replicateTo_response sf now order p ni req resp r =
      (r1, if reach req < length (entries (rlog r)) then ReplContinue (reach req + 1) else ReplDone None) \<and>
    leading H r1 \<and> grows r r1 \<and> reach req \<le> idx (matchIndex r1) p"
proof -
  note l = leading_last [OF assms(1)]
  let ?r1 = "advanceCommitIndex (record_match p (reach req) r)"
  have m: "leading H (record_match p (reach req) r)" by (rule leading_cong [OF assms(1)]) simp_all
  have "leading H ?r1" by (rule leading_cong [OF m]) simp_all
  moreover have "waiters ?r1 = waiters r" using advance_frame [of "record_match p (reach req) r"] by (auto simp: record_match_def Let_def)
  then have "grows r ?r1" using advance_settles [OF m] by (simp add: grows_def) (simp add: record_match_def Let_def idx_def)
  moreover have "replicateTo_response sf now order p ni req resp r = (?r1, if reach req < length (entries (rlog r)) then ReplContinue (reach req + 1) else ReplDone None)"
    using assms l by (simp add: replicateTo_response_def leading_def reach_def Let_def Suc_le_eq)
  ultimately show ?thesis using record_match_reaches [of "reach req" p r] by (intro exI [of _ ?r1]) simp
qed

lemma answer_refused:
  assumes "leading H r" "ae_Term req = currentTerm r" "aer_Term resp = currentTerm r" "\<not> aer_Success resp" "0 < aer_ConflictIndex resp"
  shows "\<exists>r1. replicateTo_response sf now order p ni req resp r = (r1, ReplContinue (aer_ConflictIndex resp)) \<and>
    leading H r1 \<and> grows r r1"
proof -
  let ?r1 = "r\<lparr>nextIndex := (nextIndex r)(p \<mapsto> aer_ConflictIndex resp)\<rparr>"
  have "leading H ?r1" by (rule leading_cong [OF assms(1)]) simp_all
  moreover have "grows r ?r1" by (simp add: grows_def settled_def replica_count_def)
  ultimately show ?thesis using assms by (intro exI [of _ ?r1]) (simp add: replicateTo_response_def back_off_def leading_def Let_def)
qed

section \<open>Replication over a link\<close>

text \<open>
  A link to a peer: a message reaches the node there and its answer comes back. \<open>view\<close> is the peer's
  node in the world, and \<open>others\<close> what the message leaves alone. Nothing else happens to the sender
  meanwhile.
\<close>

locale peer_link =
  fixes tp :: "'w Transport" and su :: "('w, 'sm) surroundings" and peer :: string and linked :: "'w \<Rightarrow> bool" and view :: "'w \<Rightarrow> 'sm RaftNode"
    and others :: "'w \<Rightarrow> 'x" and marshal :: "LogEntry \<Rightarrow> bytes" and now :: gotime and order :: "uint64 list"
  assumes delivers: "linked w \<Longrightarrow> wire_types (ae_Entries req) \<Longrightarrow>
      processAppendEntries marshal None None False now order (Some req) (view w) = (f, resp, None) \<Longrightarrow>
      \<exists>w1. tp_AppendEntries tp peer req w = (w1, Inr (Some resp)) \<and> linked w1 \<and> view w1 = f \<and> others w1 = others w"
    and in_time: "linked w \<Longrightarrow> su_ctx su w = None"
    and undisturbed: "linked w \<Longrightarrow> su_meanwhile su w r = r"
begin

definition caught_up :: "'w \<Rightarrow> 'sm RaftNode \<Rightarrow> ('w \<times> 'sm RaftNode \<times> exchange_error option) option \<Rightarrow> bool" where
  "caught_up w r res \<longleftrightarrow> (\<exists>w' r'. res = Some (w', r', None) \<and> linked w' \<and> others w' = others w \<and> state r' = Leader \<and> fatalErr r' = None \<and> grows r r' \<and>
     length (entries (rlog r)) \<le> idx (matchIndex r') peer \<and>
     take (length (entries (rlog r))) (entries (rlog (view w'))) = entries (rlog r))"

lemma caught_up_later:
  assumes "caught_up w1 r1 res" "grows r r1" "others w1 = others w"
  shows "caught_up w r res"
  using assms(1,3) growsD [OF assms(2)] grows_trans [OF assms(2)] by (auto simp: caught_up_def)

text \<open>One round: the peer takes the entries, or names an index further back.\<close>

lemma round:
  assumes r: "leading H r" and w: "linked w" "ready H (currentTerm r) (view w)" and ni: "0 < ni" "ni \<le> length (entries (rlog r)) + 1"
  obtains (taken) w1 r1 m where "replicateTo tp su peer ni w r = (if m < length (entries (rlog r)) then replicateTo tp su peer (m + 1) w1 r1 else Some (w1, r1, None))"
      "linked w1" "ready H (currentTerm r) (view w1)" "leading H r1" "grows r r1" "others w1 = others w"
      "m \<le> length (entries (rlog r))" "m < length (entries (rlog r)) \<longrightarrow> ni \<le> m" "m \<le> idx (matchIndex r1) peer" "has H (currentTerm r) m (entries (rlog (view w1)))"
  | (refused) w1 r1 ci where "replicateTo tp su peer ni w r = replicateTo tp su peer ci w1 r1" "linked w1" "ready H (currentTerm r) (view w1)"
      "leading H r1" "grows r r1" "others w1 = others w" "0 < ci" "ci < ni" "\<not> has H (currentTerm r) (ni - 1) (entries (rlog (view w)))"
proof -
  obtain req where q: "replicateTo_request ni r = ReplSend ni req" "message_ok H req" "ae_Term req = currentTerm r" "ae_PrevLogIndex req = ni - 1"
    "wire_types (ae_Entries req)" "ae_Entries req = [] \<longrightarrow> ni = length (entries (rlog r)) + 1" "reach req \<le> length (entries (rlog r))"
    by (rule leader_request [OF r ni])
  have h: "leader_history H (currentTerm r)" using r by (simp add: leading_def)
  obtain f resp where f: "processAppendEntries marshal None None False now order (Some req) (view w) = (f, resp, None)" "aer_Term resp = currentTerm r"
    "ready H (currentTerm r) f"
    "prev_agrees req (entries (rlog (view w))) \<longrightarrow> aer_Success resp \<and> has H (currentTerm r) (reach req) (entries (rlog f))"
    "\<not> prev_agrees req (entries (rlog (view w))) \<longrightarrow> \<not> aer_Success resp \<and> 0 < aer_ConflictIndex resp \<and> aer_ConflictIndex resp \<le> ae_PrevLogIndex req"
    by (rule ready_receives [OF w(2) h q(2,3)])
  obtain w1 where w1: "tp_AppendEntries tp peer req w = (w1, Inr (Some resp))" "linked w1" "view w1 = f" "others w1 = others w" using delivers [OF w(1) q(5) f(1)] by blast
  let ?resp = "replicateTo_response (su_fault su w1) (su_now su w1) (su_order su w1) peer ni req resp r"
  have step: "replicateTo tp su peer ni w r = (case ?resp of (r1, ReplDone e) \<Rightarrow> Some (w1, r1, map_option RaftFailed e) | (r1, ReplContinue n) \<Rightarrow> replicateTo tp su peer n w1 r1)"
    by (subst replicateTo.simps) (simp add: in_time [OF w(1)] q(1) w1(1) undisturbed [OF w1(2)])
  show thesis
  proof (cases "prev_agrees req (entries (rlog (view w)))")
    case True
    note s = mp [OF f(4) True]
    obtain r1 where r1: "?resp = (r1, if reach req < length (entries (rlog r)) then ReplContinue (reach req + 1) else ReplDone None)"
      "leading H r1" "grows r r1" "reach req \<le> idx (matchIndex r1) peer"
      using answer_success [OF r q(3) f(2) conjunct1 [OF s] q(7)] by blast
    have "ni \<le> reach req" if "reach req < length (entries (rlog r))" using that q(4,6) ni by (cases "ae_Entries req") (auto simp: reach_def)
    then show thesis using taken [of "reach req" w1 r1] step r1 w1 f(3) s q(7) by simp
  next
    case False
    note s = mp [OF f(5) False]
    obtain r1 where r1: "?resp = (r1, ReplContinue (aer_ConflictIndex resp))" "leading H r1" "grows r r1"
      using answer_refused [OF r q(3) f(2)] s by blast
    have "\<not> has H (currentTerm r) (ni - 1) (entries (rlog (view w)))" using False has_prev_agrees [OF q(2)] q(3,4) by auto
    then show thesis using refused [of "aer_ConflictIndex resp" w1 r1] step r1 w1 f(3) s q(4) ni by auto
  qed
qed

text \<open>Once an index is found up to which the logs agree, every round is taken.\<close>

lemma push:
  assumes "leading H r" "linked w" "ready H (currentTerm r) (view w)" "0 < ni" "ni \<le> length (entries (rlog r)) + 1"
    and "has H (currentTerm r) (ni - 1) (entries (rlog (view w)))"
  shows "caught_up w r (replicateTo tp su peer ni w r)"
  using assms
proof (induction "length (entries (rlog r)) + 1 - ni" arbitrary: ni w r rule: less_induct)
  case less
  from less.prems(1-5) show ?case
  proof (cases rule: round)
    case (taken w1 r1 m)
    show ?thesis
    proof (cases "m < length (entries (rlog r))")
      case True
      have "caught_up w1 r1 (replicateTo tp su peer (m + 1) w1 r1)"
        by (rule less.hyps) (use taken True less.prems(4,5) growsD [OF taken(5)] in simp_all)
      then show ?thesis using caught_up_later taken(1,5,6) True by simp
    next
      case False
      then have m: "m = length (entries (rlog r))" using taken(7) by simp
      have "take m (entries (rlog (view w1))) = entries (rlog r)" using taken(10) less.prems(1) m by (simp add: has_def leading_def)
      then show ?thesis using taken m by (simp add: caught_up_def leading_def)
    qed
  next
    case refused
    then show ?thesis using less.prems(6) by simp
  qed
qed

lemma catches_up:
  assumes "leading H r" "linked w" "ready H (currentTerm r) (view w)" "0 < ni" "ni \<le> length (entries (rlog r)) + 1"
  shows "caught_up w r (replicateTo tp su peer ni w r)"
  using assms
proof (induction ni arbitrary: w r rule: less_induct)
  case (less ni)
  from less.prems show ?case
  proof (cases rule: round)
    case (taken w1 r1 m)
    show ?thesis
    proof (cases "m < length (entries (rlog r))")
      case True
      have "caught_up w1 r1 (replicateTo tp su peer (m + 1) w1 r1)" by (rule push [where H = H]) (use taken True growsD [OF taken(5)] in simp_all)
      then show ?thesis using caught_up_later taken(1,5,6) True by simp
    next
      case False
      then have m: "m = length (entries (rlog r))" using taken(7) by simp
      have "take m (entries (rlog (view w1))) = entries (rlog r)" using taken(10) less.prems(1) m by (simp add: has_def leading_def)
      then show ?thesis using taken m by (simp add: caught_up_def leading_def)
    qed
  next
    case (refused w1 r1 ci)
    have "caught_up w1 r1 (replicateTo tp su peer ci w1 r1)" by (rule less.IH [OF refused(8)]) (use refused less.prems(5) growsD [OF refused(5)] in simp_all)
    then show ?thesis using caught_up_later refused(1,5,6) by simp
  qed
qed

end

section \<open>Over gRPC\<close>

text \<open>A goroutine that nothing interferes with.\<close>

definition alone :: "bool \<Rightarrow> gotime \<Rightarrow> uint64 list \<Rightarrow> ('w, 'sm) surroundings" where
  "alone sf now order = \<lparr>su_ctx = (\<lambda>_. None), su_fault = (\<lambda>_. sf), su_now = (\<lambda>_. now), su_order = (\<lambda>_. order), su_meanwhile = (\<lambda>_ r. r)\<rparr>"

interpretation over_grpc: peer_link "grpc_transport (server_net env)" "alone sf now order" p "\<lambda>wt. tr_peers (snd wt) p = Some addr \<and> fst wt addr \<noteq> None"
  "\<lambda>wt. the (fst wt addr)" "\<lambda>wt. (tr_peers (snd wt), (fst wt)(addr := None))" "re_marshal env" "re_now env" "re_order env"
proof unfold_locales
  fix wt :: "'a servers \<times> GRPCTransport" and req f resp
  assume a: "tr_peers (snd wt) p = Some addr \<and> fst wt addr \<noteq> None" "wire_types (ae_Entries req)"
    "processAppendEntries (re_marshal env) None None False (re_now env) (re_order env) (Some req) (the (fst wt addr)) = (f, resp, None)"
  then obtain r where r: "fst wt addr = Some r" by auto
  have "transport_AppendEntries (server_net env) p req (fst wt) (snd wt) =
      ((fst wt)(addr \<mapsto> f), (snd wt)\<lparr>tr_conns := insert addr (tr_conns (snd wt))\<rparr>, Inr resp)"
    using rpc.append_delivered [of "snd wt" p addr "fst wt" r req env f resp None] a r by simp
  then show "\<exists>w1. tp_AppendEntries (grpc_transport (server_net env)) p req wt = (w1, Inr (Some resp)) \<and>
      (tr_peers (snd w1) p = Some addr \<and> fst w1 addr \<noteq> None) \<and> the (fst w1 addr) = f \<and>
      (tr_peers (snd w1), (fst w1)(addr := None)) = (tr_peers (snd wt), (fst wt)(addr := None))"
    using a(1) by (simp add: grpc_transport_def with_table_def)
qed (simp_all add: alone_def)

lemma replicateTo_clip:
  assumes "log_wf (rlog r)" "LastIndex (rlog r) + 1 < 2 ^ 64"
  shows "replicateTo tp su p ni w r = replicateTo tp su p (clip_next (LastIndex (rlog r)) ni) w r"
proof -
  have c: "clip_next (LastIndex (rlog r)) (clip_next (LastIndex (rlog r)) ni) = clip_next (LastIndex (rlog r)) ni"
    using assms(2) by (simp add: clip_next_def Let_def)
  have q: "replicateTo_request ni r = replicateTo_request (clip_next (LastIndex (rlog r)) ni) r"
    unfolding replicateTo_request_def Let_def c ..
  show ?thesis unfolding replicateTo.simps [of tp su p ni] replicateTo.simps [of tp su p "clip_next (LastIndex (rlog r)) ni"] q ..
qed

lemma demo_pair:
  "currentTerm demo_voter = 1" "fatalErr demo_voter = None" "log_healthy (rlog demo_voter)" "fatalErr demo_leader = None" "log_healthy (rlog demo_leader)"
  by (simp_all add: demo_voter_def demo_leader_defs log_healthy_def handleRequestVote_eq demo_request_def leader_alive_def log_up_to_date_def LastTerm_def)



end
