(* ===== verification/Rounds.thy ===== *)
theory Rounds
  imports CatchUp
begin

text \<open>
  Rounds in which a node asks all its peers: an election that enough servers can support gives a
  leader; heartbeats keep the followers from elections and do nothing else.
\<close>

section \<open>Asking a server for its vote\<close>

text \<open>The server of a peer, if there is one behind its address.\<close>

definition server_of :: "'sm servers \<times> GRPCTransport \<Rightarrow> string \<Rightarrow> 'sm RaftNode option" where
  "server_of wt p = (case tr_peers (snd wt) p of None \<Rightarrow> None | Some addr \<Rightarrow> fst wt addr)"

definition would_vote :: "gotime \<Rightarrow> RequestVoteRequest \<Rightarrow> 'sm RaftNode option \<Rightarrow> bool" where
  "would_vote now req v =
     (case v of
        None \<Rightarrow> False
      | Some r \<Rightarrow> fatalErr r = None \<and> currentTerm r < rv_Term req \<and> \<not> leader_alive now r \<and> log_up_to_date req (rlog r))"

definition not_ahead :: "uint64 \<Rightarrow> 'sm RaftNode option \<Rightarrow> bool" where
  "not_ahead t v = (case v of None \<Rightarrow> True | Some r \<Rightarrow> currentTerm r \<le> t)"

lemma vote_answer:
  assumes "handleRequestVote False False now order (Some req) v = (v', resp)" "\<not> rv_PreVote req"
  shows "currentTerm v \<le> rv_Term req \<Longrightarrow> rvr_Term resp \<le> rv_Term req"
    and "would_vote now req (Some v) \<Longrightarrow> resp = \<lparr>rvr_Term = rv_Term req, rvr_VoteGranted = True\<rparr>"
  using assms by (auto simp: handleRequestVote_eq would_vote_def Let_def split: if_splits)

text \<open>Peers with different addresses do not get in each other's way.\<close>

definition own_addresses :: "GRPCTransport \<Rightarrow> string list \<Rightarrow> bool" where
  "own_addresses t ps \<longleftrightarrow> distinct ps \<and> (\<forall>p \<in> set ps. \<forall>q \<in> set ps. p \<noteq> q \<longrightarrow> tr_peers t p = tr_peers t q \<longrightarrow> tr_peers t p = None)"

text \<open>A call on one peer: the table stays, and the servers of the others.\<close>

definition only_peer :: "string \<Rightarrow> 'sm servers \<times> GRPCTransport \<Rightarrow> 'sm servers \<times> GRPCTransport \<Rightarrow> bool" where
  "only_peer p wt wt' \<longleftrightarrow> tr_peers (snd wt') = tr_peers (snd wt) \<and> (\<forall>addr. tr_peers (snd wt) p \<noteq> Some addr \<longrightarrow> fst wt' addr = fst wt addr)"

lemma only_peer_others:
  "only_peer p wt wt' \<Longrightarrow> own_addresses (snd wt) (p # ps) \<Longrightarrow> q \<in> set ps \<Longrightarrow> server_of wt' q = server_of wt q"
  by (auto simp: only_peer_def own_addresses_def server_of_def split: option.splits)

text \<open>A call that reaches nobody.\<close>

definition same_servers :: "'sm servers \<times> GRPCTransport \<Rightarrow> 'sm servers \<times> GRPCTransport \<Rightarrow> bool" where
  "same_servers wt wt' \<longleftrightarrow> fst wt' = fst wt \<and> tr_peers (snd wt') = tr_peers (snd wt)"

lemma same_servers_of: "same_servers wt wt' \<Longrightarrow> server_of wt' p = server_of wt p"
  by (simp add: same_servers_def server_of_def cong: option.case_cong)

lemma vote_call:
  "tp_RequestVote (grpc_transport (server_net env)) p req (w, t) =
     (case transport_RequestVote (server_net env) p req w t of (w1, t1, res) \<Rightarrow> ((w1, t1), map_sum id Some res))"
  by (simp add: grpc_transport_def with_table_def)

lemma ask_nobody:
  assumes "server_of (w, t) p = None"
  shows "\<exists>wt' e. tp_RequestVote (grpc_transport (server_net env)) p req (w, t) = (wt', Inl e) \<and> same_servers (w, t) wt'"
proof (cases "tr_peers t p")
  case None
  then show ?thesis by (simp add: vote_call transport_RequestVote_def same_servers_def)
next
  case (Some addr)
  then have "w addr = None" using assms by (simp add: server_of_def)
  then have "tp_RequestVote (grpc_transport (server_net env)) p req (w, t) =
      ((w, t\<lparr>tr_conns := insert addr (tr_conns t)\<rparr>), Inl (RpcFailed (Status Unavailable ''connection refused'')))"
    using Some by (simp add: vote_call transport_RequestVote_def rpc.getConn_ok) (simp add: server_net_def on_server_def)
  then show ?thesis by (simp add: same_servers_def)
qed

lemma only_peer_rest: "only_peer p wt wt' \<Longrightarrow> own_addresses (snd wt) (p # ps) \<Longrightarrow> own_addresses (snd wt') ps"
  by (simp add: only_peer_def own_addresses_def)

lemma ask_vote:
  assumes "\<not> rv_PreVote req"
  obtains wt' res where "tp_RequestVote (grpc_transport (server_net env)) p req wt = (wt', res)" "only_peer p wt wt'" "res \<noteq> Inr None"
    "not_ahead (rv_Term req) (server_of wt p) \<longrightarrow> (\<forall>resp. res = Inr (Some resp) \<longrightarrow> rvr_Term resp \<le> rv_Term req)"
    "would_vote (re_now env) req (server_of wt p) \<longrightarrow> res = Inr (Some \<lparr>rvr_Term = rv_Term req, rvr_VoteGranted = True\<rparr>)"
proof -
  obtain w t where wt: "wt = (w, t)" by force
  show thesis
  proof (cases "server_of wt p")
    case None
    obtain wt' e where "tp_RequestVote (grpc_transport (server_net env)) p req wt = (wt', Inl e)" "same_servers wt wt'"
      using ask_nobody [of w t p env req] None wt by auto
    then show thesis using that None by (auto simp: would_vote_def only_peer_def same_servers_def)
  next
    case (Some v)
    then obtain addr where addr: "tr_peers t p = Some addr" "w addr = Some v" by (auto simp: server_of_def wt split: option.splits)
    obtain v' resp where h: "handleRequestVote False False (re_now env) (re_order env) (Some req) v = (v', resp)" by force
    have "tp_RequestVote (grpc_transport (server_net env)) p req wt = ((w(addr \<mapsto> v'), t\<lparr>tr_conns := insert addr (tr_conns t)\<rparr>), Inr (Some resp))"
      using rpc.vote_delivered [where w = w, OF addr h] by (simp add: vote_call wt)
    then show thesis by (rule that) (use addr Some vote_answer [OF h assms] in \<open>simp_all add: only_peer_def not_ahead_def wt\<close>)
  qed
qed

section \<open>An election that succeeds\<close>

lemma becomeLeader_healthy:
  assumes "state r = Candidate" "fatalErr r = None" "log_wf (rlog r)" "log_healthy (rlog r)" "LastIndex (rlog r) + 1 < 2 ^ 64"
  shows "state (becomeLeader marshal None (currentTerm r) r) = Leader \<and> currentTerm (becomeLeader marshal None (currentTerm r) r) = currentTerm r \<and>
    entries (rlog (becomeLeader marshal None (currentTerm r) r)) =
      entries (rlog r) @ [\<lparr>Index = LastIndex (rlog r) + 1, Term = currentTerm r, Type = EntryNoop, Command = []\<rparr>]"
proof -
  let ?e = "\<lparr>Index = LastIndex (rlog r) + 1, Term = currentTerm r, Type = EntryNoop, Command = []\<rparr>"
  obtain l where l: "Append marshal None [?e] (rlog r) = (l, None)"
    by (rule healthy_append [OF assms(4,3), of "[?e]" marshal]) (use assms(5) in \<open>simp_all add: contiguous_Cons\<close>)
  have "becomeLeader marshal None (currentTerm r) r =
      advanceCommitIndex ((reset_peers (other_peers (NodeID (config r)) (clusterConfig r)) (LastIndex (rlog r)) (r\<lparr>state := Leader\<rparr>))\<lparr>rlog := l\<rparr>)"
    using assms(1,2,5) l by (simp add: becomeLeader_def initLeaderState_def reset_peers_def Let_def)
  then show ?thesis using Append_ok [OF l] by (simp add: reset_peers_def)
qed

text \<open>A candidate on its way, and the leader it becomes.\<close>

definition running :: "'sm RaftNode \<Rightarrow> ballot \<Rightarrow> 'sm RaftNode \<Rightarrow> bool" where
  "running r0 b r \<longleftrightarrow> r = r0 \<and> state r0 = Candidate \<and> currentTerm r0 = b_term b \<and> \<not> b_fired b"

definition won :: "'sm RaftNode \<Rightarrow> 'sm RaftNode \<Rightarrow> bool" where
  "won r0 r \<longleftrightarrow> state r = Leader \<and> currentTerm r = currentTerm r0 \<and>
     entries (rlog r) = entries (rlog r0) @ [\<lparr>Index = LastIndex (rlog r0) + 1, Term = currentTerm r0, Type = EntryNoop, Command = []\<rparr>]"

lemma won_stays:
  assumes "won r0 r" "rv_Term req = currentTerm r0" "\<not> rv_PreVote req" "own_addresses (snd wt) ps" "\<forall>p \<in> set ps. not_ahead (rv_Term req) (server_of wt p)"
  shows "\<exists>wt'. election_peers marshal None (grpc_transport (server_net env)) (alone sf now order) req ps b wt r = Some (wt', r)"
  using assms(4,5)
proof (induction ps arbitrary: wt)
  case (Cons p ps)
  obtain wt' res where a: "tp_RequestVote (grpc_transport (server_net env)) p req wt = (wt', res)" "only_peer p wt wt'" "res \<noteq> Inr None"
    "not_ahead (rv_Term req) (server_of wt p) \<longrightarrow> (\<forall>resp. res = Inr (Some resp) \<longrightarrow> rvr_Term resp \<le> rv_Term req)"
    by (rule ask_vote [OF assms(3), of env p wt])
  have o: "own_addresses (snd wt') ps" by (rule only_peer_rest [OF a(2) Cons.prems(1)])
  have "\<forall>q \<in> set ps. not_ahead (rv_Term req) (server_of wt' q)" using Cons.prems only_peer_others [OF a(2) Cons.prems(1)] by simp
  note ih = Cons.IH [OF o this]
  have "electionResponse marshal None sf now order resp b r = (r, b)" if "rvr_Term resp \<le> currentTerm r0" for resp
    using that assms(1) by (simp add: electionResponse_eq sendRequestVote_answer_def won_def)
  then show ?case using ih a Cons.prems(2) assms(2) by (cases res) (auto simp: alone_def split: option.splits)
qed simp

lemma election_wins:
  assumes r: "fatalErr r0 = None" "log_wf (rlog r0)" "log_healthy (rlog r0)" "LastIndex (rlog r0) + 1 < 2 ^ 64"
    and q: "rv_Term req = currentTerm r0" "\<not> rv_PreVote req"
    and "running r0 b r0" "own_addresses (snd wt) ps" "\<forall>p \<in> set ps. not_ahead (rv_Term req) (server_of wt p)"
    and "b_votes b < b_majority b" "b_majority b \<le> b_votes b + length (filter (\<lambda>p. would_vote (re_now env) req (server_of wt p)) ps)"
  shows "\<exists>wt' r. election_peers marshal None (grpc_transport (server_net env)) (alone sf now order) req ps b wt r0 = Some (wt', r) \<and> won r0 r"
  using assms(7-)
proof (induction ps arbitrary: wt b)
  case (Cons p ps)
  obtain wt' res where a: "tp_RequestVote (grpc_transport (server_net env)) p req wt = (wt', res)" "only_peer p wt wt'" "res \<noteq> Inr None"
    "not_ahead (rv_Term req) (server_of wt p) \<longrightarrow> (\<forall>resp. res = Inr (Some resp) \<longrightarrow> rvr_Term resp \<le> rv_Term req)"
    "would_vote (re_now env) req (server_of wt p) \<longrightarrow> res = Inr (Some \<lparr>rvr_Term = rv_Term req, rvr_VoteGranted = True\<rparr>)"
    by (rule ask_vote [OF q(2), of env p wt])
  have o: "own_addresses (snd wt') ps" by (rule only_peer_rest [OF a(2) Cons.prems(2)])
  note same = only_peer_others [OF a(2) Cons.prems(2)]
  have na: "\<forall>p \<in> set ps. not_ahead (rv_Term req) (server_of wt' p)" using Cons.prems(3) same by simp
  have cnt: "length (filter (\<lambda>p. would_vote (re_now env) req (server_of wt' p)) ps) = length (filter (\<lambda>p. would_vote (re_now env) req (server_of wt p)) ps)"
    by (rule arg_cong [where f = length], rule filter_cong) (simp_all add: same)
  have st: "state r0 = Candidate" "currentTerm r0 = b_term b" "\<not> b_fired b" using Cons.prems(1) by (auto simp: running_def)
  have go: "\<exists>wt2 r. election_peers marshal None (grpc_transport (server_net env)) (alone sf now order) req ps b' wt' r1 = Some (wt2, r) \<and> won r0 r"
    if e: "electionResponse marshal None sf now order resp b r0 = (r1, b')"
      and g: "rvr_Term resp = rv_Term req \<and> rvr_VoteGranted resp \<or> rvr_Term resp \<le> rv_Term req \<and> \<not> would_vote (re_now env) req (server_of wt p)" for resp r1 b'
  proof (cases "rvr_Term resp = rv_Term req \<and> rvr_VoteGranted resp")
    case True
    show ?thesis
    proof (cases "b_majority b \<le> Suc (b_votes b)")
      case m: True
      have r1: "r1 = becomeLeader marshal None (currentTerm r0) r0" using e st True m q(1) by (auto simp: electionResponse_eq sendRequestVote_answer_def Let_def)
      have "won r0 r1" using becomeLeader_healthy [OF st(1) r, of marshal] by (simp add: won_def r1)
      then show ?thesis using won_stays [OF _ q o na] by blast
    next
      case False
      then have "r1 = r0" "b' = b\<lparr>b_votes := Suc (b_votes b)\<rparr>" using e st True q(1) by (auto simp: electionResponse_eq sendRequestVote_answer_def Let_def)
      then show ?thesis using Cons.IH [of b' wt'] o na cnt Cons.prems st False by (auto simp: running_def split: if_splits)
    qed
  next
    case False
    then have "r1 = r0" "b' = b" using e g st q(1) by (auto simp: electionResponse_eq sendRequestVote_answer_def Let_def split: if_splits)
    then show ?thesis using Cons.IH [of b wt'] o na cnt Cons.prems g False by auto
  qed
  show ?case
  proof (cases res)
    case (Inl e)
    then have "\<not> would_vote (re_now env) req (server_of wt p)" using a(5) by auto
    then show ?thesis using Cons.IH [of b wt'] o na cnt Cons.prems a(1) Inl by (simp add: alone_def)
  next
    case (Inr x)
    then obtain resp where x: "x = Some resp" using a(3) by (cases x) auto
    obtain r1 b' where e: "electionResponse marshal None sf now order resp b r0 = (r1, b')" by force
    have "rvr_Term resp = rv_Term req \<and> rvr_VoteGranted resp \<or> rvr_Term resp \<le> rv_Term req \<and> \<not> would_vote (re_now env) req (server_of wt p)"
      using a(4,5) Inr x Cons.prems(3) by auto
    from go [OF e this] show ?thesis using a(1) Inr x e by (simp add: alone_def)
  qed
qed simp

section \<open>The round of pre-votes\<close>

text \<open>A server changes nothing for a pre-vote, and says yes when it would vote.\<close>

lemma prevote_answer:
  assumes "handleRequestVote False False now order (Some req) v = (v', resp)" "rv_PreVote req"
  shows "v' = v \<and> rvr_Term resp = currentTerm v \<and> (would_vote now req (Some v) \<longrightarrow> rvr_VoteGranted resp)"
  using assms by (auto simp: handleRequestVote_eq would_vote_def Let_def split: if_splits)

lemma ask_prevote:
  assumes "rv_PreVote req" "not_ahead t (server_of wt p)"
  obtains wt' res where "tp_RequestVote (grpc_transport (server_net env)) p req wt = (wt', res)" "same_servers wt wt'"
    "res \<noteq> Inr None" "\<forall>resp. res = Inr (Some resp) \<longrightarrow> rvr_Term resp \<le> t"
    "would_vote (re_now env) req (server_of wt p) \<longrightarrow> (\<exists>resp. res = Inr (Some resp) \<and> rvr_VoteGranted resp)"
proof -
  obtain w tr where wt: "wt = (w, tr)" by force
  show thesis
  proof (cases "server_of wt p")
    case None
    obtain wt' e where "tp_RequestVote (grpc_transport (server_net env)) p req wt = (wt', Inl e)" "same_servers wt wt'"
      using ask_nobody [of w tr p env req] None wt by auto
    then show thesis using that None by (auto simp: would_vote_def)
  next
    case (Some v)
    then obtain addr where addr: "tr_peers tr p = Some addr" "w addr = Some v" by (auto simp: server_of_def wt split: option.splits)
    obtain v' resp where h: "handleRequestVote False False (re_now env) (re_order env) (Some req) v = (v', resp)" by force
    note pv = prevote_answer [OF h assms(1)]
    have "tp_RequestVote (grpc_transport (server_net env)) p req wt = ((w, tr\<lparr>tr_conns := insert addr (tr_conns tr)\<rparr>), Inr (Some resp))"
      using rpc.vote_delivered [where w = w, OF addr h] pv addr(2) by (simp add: vote_call wt fun_upd_idem)
    then show thesis by (rule that) (use pv assms(2) Some in \<open>simp_all add: same_servers_def wt not_ahead_def\<close>)
  qed
qed

lemma prevote_wins:
  assumes q: "rv_PreVote req" "state r = PreCandidate" "b_term b = currentTerm r + 1" "currentTerm r + 1 < 2 ^ 64"
    and "\<forall>p \<in> set ps. not_ahead (currentTerm r) (server_of wt p)"
    and "go \<and> b_fired b \<or> \<not> b_fired b \<and> b_votes b < b_majority b \<and>
      b_majority b \<le> b_votes b + length (filter (\<lambda>p. would_vote (re_now env) req (server_of wt p)) ps)"
  shows "\<exists>wt'. prevote_peers (grpc_transport (server_net env)) (alone sf now order) req ps b go wt r = Some (wt', r, True) \<and> same_servers wt wt'"
  using assms(3,5-)
proof (induction ps arbitrary: wt b go)
  case (Cons p ps)
  have np: "not_ahead (currentTerm r) (server_of wt p)" using Cons.prems(2) by simp
  obtain wt1 res where a: "tp_RequestVote (grpc_transport (server_net env)) p req wt = (wt1, res)" "same_servers wt wt1"
    "res \<noteq> Inr None" "\<forall>resp. res = Inr (Some resp) \<longrightarrow> rvr_Term resp \<le> currentTerm r"
    "would_vote (re_now env) req (server_of wt p) \<longrightarrow> (\<exists>resp. res = Inr (Some resp) \<and> rvr_VoteGranted resp)"
    by (rule ask_prevote [OF q(1) np, of env])
  note same = same_servers_of [OF a(2)]
  have na: "\<forall>p \<in> set ps. not_ahead (currentTerm r) (server_of wt1 p)" using Cons.prems(2) same by simp
  have rest: "\<exists>wt'. prevote_peers (grpc_transport (server_net env)) (alone sf now order) req ps b' go' wt1 r = Some (wt', r, True) \<and> same_servers wt wt'"
    if "b_term b' = currentTerm r + 1" "go' \<and> b_fired b' \<or> \<not> b_fired b' \<and> b_votes b' < b_majority b' \<and>
      b_majority b' \<le> b_votes b' + length (filter (\<lambda>p. would_vote (re_now env) req (server_of wt p)) ps)" for b' go'
    using Cons.IH [OF that(1) na, of go'] that(2) a(2) by (auto simp: same same_servers_def)
  have tm: "u64 (b_term b + 2 ^ 64 - 1) = currentTerm r" using Cons.prems(1) q(4) by (simp add: u64_def)
  show ?case
  proof (cases "\<exists>resp. res = Inr (Some resp) \<and> rvr_VoteGranted resp")
    case True
    then obtain resp where x: "res = Inr (Some resp)" "rvr_VoteGranted resp" by blast
    let ?b = "b\<lparr>b_votes := b_votes b + 1\<rparr>" and ?fire = "b_majority b \<le> b_votes b + 1 \<and> \<not> b_fired b"
    have "preVoteResponse sf now order resp b r = (r, if ?fire then ?b\<lparr>b_fired := True\<rparr> else ?b, ?fire)"
      using x a(4) tm q(2) by (simp add: preVoteResponse_def Let_def)
    moreover have "\<exists>wt'. prevote_peers (grpc_transport (server_net env)) (alone sf now order) req ps (if ?fire then ?b\<lparr>b_fired := True\<rparr> else ?b) (go \<or> ?fire) wt1 r =
        Some (wt', r, True) \<and> same_servers wt wt'"
      by (rule rest) (use Cons.prems(1,3) in \<open>auto split: if_splits\<close>)
    ultimately show ?thesis using a(1) x(1) by (simp add: alone_def)
  next
    case False
    then have nv: "\<not> would_vote (re_now env) req (server_of wt p)" using a(5) by blast
    have "\<exists>wt'. prevote_peers (grpc_transport (server_net env)) (alone sf now order) req ps b go wt1 r = Some (wt', r, True) \<and> same_servers wt wt'"
      by (rule rest) (use Cons.prems(1,3) nv in auto)
    moreover have "preVoteResponse sf now order resp b r = (r, b, False)" if "res = Inr (Some resp)" for resp
      using that a(4) tm False by (simp add: preVoteResponse_def Let_def)
    ultimately show ?thesis using a(1,3) by (cases res) (auto simp: alone_def split: option.splits)
  qed
qed (auto simp: same_servers_def)

definition vote_request :: "'sm RaftNode \<Rightarrow> RequestVoteRequest" where
  "vote_request r = \<lparr>rv_Term = currentTerm r + 1, rv_CandidateID = NodeID (config r), rv_LastLogIndex = LastIndex (rlog r), rv_LastLogTerm = LastTerm (rlog r), rv_PreVote = False\<rparr>"

lemma would_vote_prevote: "would_vote now (req\<lparr>rv_PreVote := b\<rparr>) v = would_vote now req v"
  by (simp add: would_vote_def log_up_to_date_def split: option.split)

lemma not_ahead_later: "not_ahead t v \<Longrightarrow> t \<le> u \<Longrightarrow> not_ahead u v"
  by (auto simp: not_ahead_def split: option.splits)

lemma election_run_wins:
  assumes r: "fatalErr r = None" "state r \<noteq> Leader" "log_wf (rlog r)" "log_healthy (rlog r)" "LastIndex (rlog r) + 1 < 2 ^ 64" "currentTerm r + 1 < 2 ^ 64"
    and ps: "own_addresses (snd wt) (other_peers (NodeID (config r)) (clusterConfig r))"
      "\<forall>p \<in> set (other_peers (NodeID (config r)) (clusterConfig r)). not_ahead (currentTerm r) (server_of wt p)"
      "Majority (clusterConfig r) \<le> 1 + length (filter (\<lambda>p. would_vote (re_now env) (vote_request r) (server_of wt p)) (other_peers (NodeID (config r)) (clusterConfig r)))"
  shows "\<exists>wt' r'. startElection_run marshal None (grpc_transport (server_net env)) (alone sf now order) wt r = Some (wt', r') \<and>
    won (r\<lparr>currentTerm := currentTerm r + 1\<rparr>) r'"
proof -
  let ?r1 = "r\<lparr>state := Candidate, currentTerm := currentTerm r + 1, votedFor := NodeID (config r), lastHeartbeat := now,
      persistentState := SaveTermAndVote sf (currentTerm r + 1) (NodeID (config r)) (persistentState r)\<rparr>"
  let ?ps = "other_peers (NodeID (config r)) (clusterConfig r)"
  let ?b = "\<lparr>b_term = currentTerm r + 1, b_votes = 1, b_majority = Majority (clusterConfig r), b_peers = ?ps, b_fired = False\<rparr>"
  have start: "startElection sf now r = (?r1, if Majority (clusterConfig r) \<le> 1 then ElectionWon (currentTerm r + 1) else ElectionSent (vote_request r) ?b)"
    using r by (simp add: startElection_eq vote_request_def Let_def)
  have na: "\<forall>p \<in> set ?ps. not_ahead (Suc (currentTerm r)) (server_of wt p)" 
    using ps(2) by (auto intro: not_ahead_later [of "currentTerm r"])
  have w: "won ?r1 x \<longleftrightarrow> won (r\<lparr>currentTerm := currentTerm r + 1\<rparr>) x" for x by (simp add: won_def)
  show ?thesis
  proof (cases "Majority (clusterConfig r) \<le> 1")
    case True
    have "won ?r1 (becomeLeader marshal None (currentTerm r + 1) ?r1)" using becomeLeader_healthy [of ?r1 marshal] r by (simp add: won_def)
    then show ?thesis using start True w by (simp add: startElection_run_def alone_def)
  next
    case False
    have "\<exists>wt' r'. election_peers marshal None (grpc_transport (server_net env)) (alone sf now order) (vote_request r) ?ps ?b wt ?r1 = Some (wt', r') \<and> won ?r1 r'"
      by (rule election_wins) (use r ps(1,3) na False in \<open>auto simp: vote_request_def running_def\<close>)
    then show ?thesis using start False w by (simp add: startElection_run_def) (simp add: alone_def)
  qed
qed

text \<open>
  C12: an election succeeds. When the election timer of a node fires, the round of pre-votes and the
  election that follows over the gRPC transport end, and the node is the leader of the next term
  with its no-op appended, if it can write its log, no server it reaches is ahead of its term, and
  it and the servers that can be reached, are healthy, hear of no leader and have no newer log are
  a majority, whatever the others do and in whatever order the servers are asked.
\<close>

theorem election_succeeds:
  assumes "fatalErr r = None" "state r \<noteq> Leader" "log_wf (rlog r)" "log_healthy (rlog r)" "LastIndex (rlog r) + 1 < 2 ^ 64" "currentTerm r + 1 < 2 ^ 64"
    and "own_addresses t (other_peers (NodeID (config r)) (clusterConfig r))"
      "\<forall>p \<in> set (other_peers (NodeID (config r)) (clusterConfig r)). not_ahead (currentTerm r) (server_of (w, t) p)"
      "Majority (clusterConfig r) \<le> 1 + length (filter (\<lambda>p. would_vote (re_now env) (vote_request r) (server_of (w, t) p)) (other_peers (NodeID (config r)) (clusterConfig r)))"
  shows "\<exists>w' t' r'. startPreVote_run marshal None (grpc_transport (server_net env)) (alone sf now order) (w, t) r = Some ((w', t'), r') \<and>
    state r' = Leader \<and> currentTerm r' = currentTerm r + 1 \<and>
    entries (rlog r') = entries (rlog r) @ [\<lparr>Index = LastIndex (rlog r) + 1, Term = currentTerm r + 1, Type = EntryNoop, Command = []\<rparr>]"
proof -
  let ?r1 = "r\<lparr>state := PreCandidate, lastHeartbeat := now\<rparr>" and ?ps = "other_peers (NodeID (config r)) (clusterConfig r)" and ?tp = "grpc_transport (server_net env)"
  let ?req = "(vote_request r)\<lparr>rv_PreVote := True\<rparr>"
  let ?b = "\<lparr>b_term = currentTerm r + 1, b_votes = 1, b_majority = Majority (clusterConfig r), b_peers = ?ps, b_fired = False\<rparr>"
  have start: "startPreVote now r = (?r1, if Majority (clusterConfig r) \<le> 1 then PreVoteWon else PreVoteSent ?req ?b)"
    using assms(1,2,6) by (simp add: startPreVote_def vote_request_def Let_def)
  have vr: "vote_request ?r1 = vote_request r" by (simp add: vote_request_def)
  have elect: "\<exists>wt' r'. startElection_run marshal None ?tp (alone sf now order) wt1 ?r1 = Some (wt', r') \<and> won (?r1\<lparr>currentTerm := currentTerm ?r1 + 1\<rparr>) r'"
    if s: "same_servers (w, t) wt1" for wt1
    by (rule election_run_wins) (use assms s in \<open>simp_all add: vr same_servers_of [OF s]\<close>, simp_all add: own_addresses_def same_servers_def)
  have "\<exists>wt' r'. startPreVote_run marshal None ?tp (alone sf now order) (w, t) r = Some (wt', r') \<and> won (?r1\<lparr>currentTerm := currentTerm ?r1 + 1\<rparr>) r'"
  proof (cases "Majority (clusterConfig r) \<le> 1")
    case True
    then show ?thesis using elect [of "(w, t)"] start by (simp add: startPreVote_run_def same_servers_def) (simp add: alone_def)
  next
    case False
    obtain wt1 where p: "prevote_peers ?tp (alone sf now order) ?req ?ps ?b False (w, t) ?r1 = Some (wt1, ?r1, True)" "same_servers (w, t) wt1"
      using prevote_wins [of ?req ?r1 ?b ?ps "(w, t)" False env sf now order] assms False by (auto simp: would_vote_prevote)
    then show ?thesis using elect [OF p(2)] start False by (simp add: startPreVote_run_def) (simp add: alone_def)
  qed
  then show ?thesis by (auto simp: won_def)
qed

section \<open>Heartbeats\<close>

text \<open>What a server does with a heartbeat that is not of an old term.\<close>

definition hear :: "gotime \<Rightarrow> uint64 list \<Rightarrow> AppendEntriesRequest \<Rightarrow> 'sm RaftNode \<Rightarrow> 'sm RaftNode" where
  "hear now order req f =
     (if fatalErr f \<noteq> None then f
      else (if currentTerm f < ae_Term req \<or> state f \<noteq> Follower then stepDown False now order (ae_Term req) f else f)
             \<lparr>leaderID := ae_LeaderID req, lastHeartbeat := now\<rparr>)"

lemma heartbeat_processed:
  assumes "currentTerm f \<le> currentTerm r"
  obtains resp where "processAppendEntries marshal None None False now order (Some (heartbeat_request r)) f = (hear now order (heartbeat_request r) f, resp, fatalErr f)"
    "aer_Term resp \<le> currentTerm r"
proof (cases "fatalErr f")
  case (Some e)
  then show thesis using that assms by (simp add: processAppendEntries_eq hear_def ae_response_def)
next
  case None
  let ?f = "hear now order (heartbeat_request r) f"
  have f: "currentTerm ?f = currentTerm r" using assms None by (auto simp: hear_def heartbeat_request_def)
  have "\<exists>resp. ae_log_part marshal None None (heartbeat_request r) ?f = (?f, resp, None) \<and> aer_Term resp = currentTerm r"
    using f by (simp add: ae_log_part_def heartbeat_request_def prev_check_def commit_from_leader_def ae_response_def Let_def)
  then show thesis using that assms None by (auto simp: processAppendEntries_eq hear_def heartbeat_request_def Let_def)
qed

text \<open>A server before a heartbeat and after it.\<close>

definition kept_quiet :: "'sm RaftNode \<Rightarrow> gotime \<Rightarrow> 'sm RaftNode \<Rightarrow> 'sm RaftNode \<Rightarrow> bool" where
  "kept_quiet r now f f' \<longleftrightarrow>
     (if fatalErr f \<noteq> None then f' = f
      else fatalErr f' = None \<and> rlog f' = rlog f \<and> commitIndex f' = commitIndex f \<and> state f' = Follower \<and> currentTerm f' = currentTerm r \<and>
        leaderID f' = NodeID (config r) \<and> lastHeartbeat f' = now)"

lemma hear_quiet: "currentTerm f \<le> currentTerm r \<Longrightarrow> kept_quiet r now f (hear now order (heartbeat_request r) f)"
  by (auto simp: kept_quiet_def hear_def heartbeat_request_def)

lemma quiet_again: "kept_quiet r now f f' \<Longrightarrow> kept_quiet r now f' f'' \<Longrightarrow> kept_quiet r now f f''"
  by (auto simp: kept_quiet_def split: if_splits)

lemma quiet_not_ahead: "kept_quiet r now f f' \<Longrightarrow> currentTerm f \<le> currentTerm r \<Longrightarrow> currentTerm f' \<le> currentTerm r"
  by (auto simp: kept_quiet_def split: if_splits)

lemma beat_one:
  assumes "not_ahead (currentTerm r) (server_of wt p)"
  obtains wt' res where "tp_AppendEntries (grpc_transport (server_net env)) p (heartbeat_request r) wt = (wt', res)" "only_peer p wt wt'"
    "res \<noteq> Inr None" "\<forall>resp. res = Inr (Some resp) \<longrightarrow> aer_Term resp \<le> currentTerm r"
    "rel_option (kept_quiet r (re_now env)) (server_of wt p) (server_of wt' p)"
proof -
  obtain w t where wt: "wt = (w, t)" by force
  let ?req = "heartbeat_request r"
  have tp: "tp_AppendEntries (grpc_transport (server_net env)) p ?req wt = (case transport_AppendEntries (server_net env) p ?req w t of (w1, t1, res) \<Rightarrow> ((w1, t1), map_sum id Some res))"
    unfolding wt by (simp add: grpc_transport_def with_table_def)
  show thesis
  proof (cases "tr_peers t p")
    case None
    then have "tp_AppendEntries (grpc_transport (server_net env)) p ?req wt = (wt, Inl (UnknownPeer p))" unfolding tp by (simp add: transport_AppendEntries_def wt)
    then show thesis by (rule that) (use None in \<open>simp_all add: only_peer_def server_of_def wt\<close>)
  next
    case (Some addr)
    show thesis
    proof (cases "w addr")
      case None
      have "tp_AppendEntries (grpc_transport (server_net env)) p ?req wt =
          ((w, t\<lparr>tr_conns := insert addr (tr_conns t)\<rparr>), Inl (RpcFailed (Status Unavailable ''connection refused'')))"
        unfolding tp using Some None by (simp add: transport_AppendEntries_def rpc.getConn_ok) (simp add: server_net_def on_server_def)
      then show thesis by (rule that) (use Some None in \<open>simp_all add: only_peer_def server_of_def wt\<close>)
    next
      case f: (Some f)
      have c: "currentTerm f \<le> currentTerm r" using assms f Some by (simp add: not_ahead_def server_of_def wt)
      obtain resp where h: "processAppendEntries (re_marshal env) None None False (re_now env) (re_order env) (Some ?req) f =
          (hear (re_now env) (re_order env) ?req f, resp, fatalErr f)" "aer_Term resp \<le> currentTerm r" by (rule heartbeat_processed [OF c])
      have wire: "wire_types (ae_Entries ?req)" by (simp add: heartbeat_request_def wire_types_def)
      let ?res = "case fatalErr f of None \<Rightarrow> Inr resp | Some e \<Rightarrow> Inl (RpcFailed (Status Internal (raft_error_text e)))"
      have "tp_AppendEntries (grpc_transport (server_net env)) p ?req wt =
          ((w(addr \<mapsto> hear (re_now env) (re_order env) ?req f), t\<lparr>tr_conns := insert addr (tr_conns t)\<rparr>), map_sum id Some ?res)"
        unfolding tp using rpc.append_delivered [where w = w, OF Some f wire h(1)] by simp
      then show thesis by (rule that) (use Some f h(2) hear_quiet [OF c] in \<open>auto simp: only_peer_def server_of_def wt split: option.splits\<close>)
    qed
  qed
qed

text \<open>One heartbeat to all peers: servers outside the list are not touched.\<close>

lemma beat_all:
  assumes "own_addresses (snd wt) ps" "\<forall>p \<in> set ps. not_ahead (currentTerm r) (server_of wt p)"
  shows "\<exists>wt'. heartbeat_peers (grpc_transport (server_net env)) (alone sf now order) (heartbeat_request r) ps wt r = Some (wt', r) \<and>
    tr_peers (snd wt') = tr_peers (snd wt) \<and> (\<forall>addr. (\<forall>p \<in> set ps. tr_peers (snd wt) p \<noteq> Some addr) \<longrightarrow> fst wt' addr = fst wt addr) \<and>
    (\<forall>p \<in> set ps. rel_option (kept_quiet r (re_now env)) (server_of wt p) (server_of wt' p))"
  using assms
proof (induction ps arbitrary: wt)
  case (Cons p ps)
  have "not_ahead (currentTerm r) (server_of wt p)" using Cons.prems(2) by simp
  then obtain wt1 res where a: "tp_AppendEntries (grpc_transport (server_net env)) p (heartbeat_request r) wt = (wt1, res)" "only_peer p wt wt1"
    "res \<noteq> Inr None" "\<forall>resp. res = Inr (Some resp) \<longrightarrow> aer_Term resp \<le> currentTerm r"
    "rel_option (kept_quiet r (re_now env)) (server_of wt p) (server_of wt1 p)"
    by (rule beat_one [where env = env])
  note same = only_peer_others [OF a(2) Cons.prems(1)]
  have o: "own_addresses (snd wt1) ps" by (rule only_peer_rest [OF a(2) Cons.prems(1)])
  obtain wt' where w: "heartbeat_peers (grpc_transport (server_net env)) (alone sf now order) (heartbeat_request r) ps wt1 r = Some (wt', r)"
    "tr_peers (snd wt') = tr_peers (snd wt1)" "\<forall>addr. (\<forall>p \<in> set ps. tr_peers (snd wt1) p \<noteq> Some addr) \<longrightarrow> fst wt' addr = fst wt1 addr"
    "\<forall>p \<in> set ps. rel_option (kept_quiet r (re_now env)) (server_of wt1 p) (server_of wt' p)"
    using Cons.IH [OF o] Cons.prems(2) same by auto
  have tr: "tr_peers (snd wt1) = tr_peers (snd wt)" using a(2) by (simp add: only_peer_def)
  have "server_of wt' p = server_of wt1 p"
    using w(2,3) Cons.prems(1) tr by (cases "tr_peers (snd wt) p") (auto simp: server_of_def own_addresses_def)
  then have 1: "\<forall>q \<in> set (p # ps). rel_option (kept_quiet r (re_now env)) (server_of wt q) (server_of wt' q)" using a(5) w(4) same by simp
  have 2: "\<forall>addr. (\<forall>q \<in> set (p # ps). tr_peers (snd wt) q \<noteq> Some addr) \<longrightarrow> fst wt' addr = fst wt addr"
    using w(3) a(2) tr by (auto simp: only_peer_def)
  have "heartbeat_response sf now order resp r = r" if "res = Inr (Some resp)" for resp using a(4) that by (simp add: heartbeat_response_def)
  then have "heartbeat_peers (grpc_transport (server_net env)) (alone sf now order) (heartbeat_request r) (p # ps) wt r = Some (wt', r)"
    using a(1,3) w(1) by (cases res) (auto simp: alone_def split: option.splits)
  then show ?case using 1 2 w(2) tr by auto
qed (auto simp: option.rel_refl)

lemma beat_once:
  assumes "own_addresses (snd wt) (other_peers (NodeID (config r)) (clusterConfig r))"
    "\<forall>p \<in> set (other_peers (NodeID (config r)) (clusterConfig r)). not_ahead (currentTerm r) (server_of wt p)"
  shows "\<exists>wt'. sendHeartbeatOnce (grpc_transport (server_net env)) (alone sf now order) wt r = Some (wt', r) \<and> tr_peers (snd wt') = tr_peers (snd wt) \<and>
    (\<forall>p \<in> set (other_peers (NodeID (config r)) (clusterConfig r)).
       not_ahead (currentTerm r) (server_of wt' p) \<and> rel_option (kept_quiet r (re_now env)) (server_of wt p) (server_of wt' p))"
proof -
  have "not_ahead (currentTerm r) b" if "not_ahead (currentTerm r) a" "rel_option (kept_quiet r (re_now env)) a b" for a b
    using that quiet_not_ahead [of r] by (cases a; cases b) (auto simp: not_ahead_def)
  then show ?thesis using beat_all [OF assms, of env sf now order] assms(2) unfolding sendHeartbeatOnce_def by fastforce
qed

lemma beat_loop:
  assumes "own_addresses (snd wt) (other_peers (NodeID (config r)) (clusterConfig r))"
    "\<forall>p \<in> set (other_peers (NodeID (config r)) (clusterConfig r)). not_ahead (currentTerm r) (server_of wt p) \<and> rel_option (kept_quiet r (re_now env)) (old p) (server_of wt p)"
  shows "\<exists>wt'. heartbeat_loop (grpc_transport (server_net env)) (alone sf now order) evs wt r = Some (wt', r) \<and>
    (\<forall>p \<in> set (other_peers (NodeID (config r)) (clusterConfig r)). rel_option (kept_quiet r (re_now env)) (old p) (server_of wt' p))"
  using assms
proof (induction evs arbitrary: wt)
  case (Cons ev evs)
  let ?ps = "other_peers (NodeID (config r)) (clusterConfig r)"
  have na: "\<forall>p \<in> set ?ps. not_ahead (currentTerm r) (server_of wt p)" using Cons.prems(2) by blast
  obtain wt1 where w: "sendHeartbeatOnce (grpc_transport (server_net env)) (alone sf now order) wt r = Some (wt1, r)" "tr_peers (snd wt1) = tr_peers (snd wt)"
    "\<forall>p \<in> set ?ps. not_ahead (currentTerm r) (server_of wt1 p) \<and> rel_option (kept_quiet r (re_now env)) (server_of wt p) (server_of wt1 p)"
    using beat_once [OF Cons.prems(1) na, of env sf now order] by blast
  have tr: "rel_option (kept_quiet r (re_now env)) a d" if "rel_option (kept_quiet r (re_now env)) a b" "rel_option (kept_quiet r (re_now env)) b d" for a b d
    using that quiet_again [of r] by (cases a; cases b; cases d) auto
  have "own_addresses (snd wt1) ?ps" using Cons.prems(1) w(2) by (simp add: own_addresses_def)
  then have ih: "\<exists>wt'. heartbeat_loop (grpc_transport (server_net env)) (alone sf now order) evs wt1 r = Some (wt', r) \<and>
      (\<forall>p \<in> set ?ps. rel_option (kept_quiet r (re_now env)) (old p) (server_of wt' p))"
    by (rule Cons.IH) (use Cons.prems(2) w(3) tr in blast)
  show ?case
  proof (cases "ev = HeartbeatStop \<or> state r \<noteq> Leader")
    case True
    then show ?thesis using Cons.prems(2) by (cases ev) auto
  next
    case False
    then show ?thesis using ih w(1) by (cases ev) simp_all
  qed
qed auto

text \<open>
  C39: heartbeats keep the peace and carry nothing. However long a leader sends heartbeats over the
  gRPC transport to servers that are not ahead of its term, it stays what it is, and every healthy
  server it reaches is a follower of its term that has just heard of it, with the same log and the
  same commit index as before. So after a failed replication the entry stays where it is, and
  followers learn of the last commit only with the next entry.
\<close>

theorem heartbeats_bring_nothing:
  fixes r :: "'sm RaftNode" and w :: "'sm servers"
  assumes "own_addresses t (other_peers (NodeID (config r)) (clusterConfig r))"
    and "\<forall>p \<in> set (other_peers (NodeID (config r)) (clusterConfig r)). not_ahead (currentTerm r) (server_of (w, t) p)"
  shows "\<exists>w' t'. sendHeartbeats (grpc_transport (server_net env)) (alone sf now order) evs (w, t) r = Some ((w', t'), r) \<and>
    (\<forall>p \<in> set (other_peers (NodeID (config r)) (clusterConfig r)). \<forall>f. server_of (w, t) p = Some f \<longrightarrow> fatalErr f = None \<longrightarrow>
       (\<exists>f'. server_of (w', t') p = Some f' \<and> rlog f' = rlog f \<and> commitIndex f' = commitIndex f \<and> state f' = Follower \<and>
          currentTerm f' = currentTerm r \<and> leaderID f' = NodeID (config r) \<and> lastHeartbeat f' = re_now env))"
proof -
  let ?ps = "other_peers (NodeID (config r)) (clusterConfig r)"
  have o: "own_addresses (snd (w, t)) ?ps" using assms(1) by simp
  obtain wt1 where w1: "sendHeartbeatOnce (grpc_transport (server_net env)) (alone sf now order) (w, t) r = Some (wt1, r)" "tr_peers (snd wt1) = tr_peers t"
    "\<forall>p \<in> set ?ps. not_ahead (currentTerm r) (server_of wt1 p) \<and> rel_option (kept_quiet r (re_now env)) (server_of (w, t) p) (server_of wt1 p)"
    using beat_once [OF o assms(2), of env sf now order] by auto
  have "own_addresses (snd wt1) ?ps" using assms(1) w1(2) by (simp add: own_addresses_def)
  from beat_loop [OF this w1(3), of sf now order evs] obtain wt' where
    "sendHeartbeats (grpc_transport (server_net env)) (alone sf now order) evs (w, t) r = Some (wt', r)"
    and q: "\<forall>p \<in> set ?ps. rel_option (kept_quiet r (re_now env)) (server_of (w, t) p) (server_of wt' p)"
    using w1(1) by (auto simp: sendHeartbeats_def)
  moreover have "\<exists>f'. server_of wt' p = Some f' \<and> rlog f' = rlog f \<and> commitIndex f' = commitIndex f \<and> state f' = Follower \<and>
      currentTerm f' = currentTerm r \<and> leaderID f' = NodeID (config r) \<and> lastHeartbeat f' = re_now env"
    if "p \<in> set ?ps" "server_of (w, t) p = Some f" "fatalErr f = None" for p f
    using q that by (cases "server_of wt' p") (force simp: kept_quiet_def)+
  ultimately show ?thesis by (cases wt') blast
qed

section \<open>Examples\<close>

lemma demo_alone_peer:
  "other_peers (NodeID (config (demo_node ''a''))) (clusterConfig (demo_node ''a'')) = [''b'']" "own_addresses (NewGRPCTransport [''b'' \<mapsto> ''addr'']) [''b'']"
  "server_of ([''addr'' \<mapsto> v], NewGRPCTransport [''b'' \<mapsto> ''addr'']) ''b'' = Some v"
  by (simp_all add: demo_defs other_peers_def own_addresses_def server_of_def NewGRPCTransport_def)

theorem election_succeeds_witness:
  "\<exists>w t r. startPreVote_run (\<lambda>_. []) None (grpc_transport (server_net demo_rpc_env)) (alone False 0 [])
      ([''addr'' \<mapsto> demo_node ''b''], NewGRPCTransport [''b'' \<mapsto> ''addr'']) (demo_node ''a'') = Some ((w, t), r) \<and> state r = Leader \<and> currentTerm r = 1"
proof -
  let ?r = "demo_node ''a''"
  have f: "fatalErr ?r = None" "state ?r \<noteq> Leader" "log_wf (rlog ?r)" "log_healthy (rlog ?r)" "LastIndex (rlog ?r) + 1 < 2 ^ 64" "currentTerm ?r + 1 < 2 ^ 64" "currentTerm ?r = 0"
    by (simp_all add: demo_defs log_wf_def log_healthy_def LastIndex_def)
  have v: "would_vote (re_now demo_rpc_env) (vote_request ?r) (Some (demo_node ''b''))" "not_ahead (currentTerm ?r) (Some (demo_node ''b''))"
    "Majority (clusterConfig ?r) = 2"
    by (simp_all add: would_vote_def not_ahead_def vote_request_def demo_rpc_env_def leader_alive_def log_up_to_date_def LastTerm_def LastIndex_def Majority_def Size_def demo_defs)
  show ?thesis
    using election_succeeds [of ?r "NewGRPCTransport [''b'' \<mapsto> ''addr'']" "[''addr'' \<mapsto> demo_node ''b'']" demo_rpc_env "\<lambda>_. []" False 0 "[]"] f v
    by (simp add: demo_alone_peer) blast
qed

theorem heartbeats_bring_nothing_witness:
  "\<exists>w t f. sendHeartbeats (grpc_transport (server_net demo_rpc_env)) (alone False 0 []) [HeartbeatTick, HeartbeatTick]
      ([''addr'' \<mapsto> demo_voter], NewGRPCTransport [''b'' \<mapsto> ''addr'']) demo_leader = Some ((w, t), demo_leader) \<and>
     server_of (w, t) ''b'' = Some f \<and> entries (rlog f) = [] \<and> leaderID f = ''a''"
proof -
  let ?t = "NewGRPCTransport [''b'' \<mapsto> ''addr'']" and ?w = "[''addr'' \<mapsto> demo_voter]"
  have l: "NodeID (config demo_leader) = ''a''" "clusterConfig demo_leader = demo_peers" "currentTerm demo_leader = 1" by (simp_all add: demo_leader_defs)
  have ps: "other_peers (NodeID (config demo_leader)) (clusterConfig demo_leader) = [''b'']" by (simp add: l demo_peers_def other_peers_def)
  have v: "currentTerm demo_voter = 1" "fatalErr demo_voter = None" "entries (rlog demo_voter) = []"
    by (simp_all add: demo_voter_def handleRequestVote_eq demo_defs demo_request_def leader_alive_def log_up_to_date_def LastTerm_def LastIndex_def)
  have "\<exists>w' t'. sendHeartbeats (grpc_transport (server_net demo_rpc_env)) (alone False 0 []) [HeartbeatTick, HeartbeatTick] (?w, ?t) demo_leader = Some ((w', t'), demo_leader) \<and>
    (\<forall>p \<in> set (other_peers (NodeID (config demo_leader)) (clusterConfig demo_leader)). \<forall>f. server_of (?w, ?t) p = Some f \<longrightarrow> fatalErr f = None \<longrightarrow>
       (\<exists>f'. server_of (w', t') p = Some f' \<and> rlog f' = rlog f \<and> commitIndex f' = commitIndex f \<and> state f' = Follower \<and>
          currentTerm f' = currentTerm demo_leader \<and> leaderID f' = NodeID (config demo_leader) \<and> lastHeartbeat f' = re_now demo_rpc_env))"
    by (rule heartbeats_bring_nothing) (unfold ps, use l v in \<open>simp_all add: demo_alone_peer not_ahead_def\<close>)
  then show ?thesis using v l(1) unfolding ps by (auto simp: demo_alone_peer)
qed

end
