(* ===== verification/MajorityCommit.thy ===== *)
theory MajorityCommit
  imports Rounds
begin

text \<open>
  A write on a leader that reaches a majority: the batch is written, replicated to the peers and
  committed. On top of the replication to one peer of \<open>CatchUp\<close>.
\<close>

section \<open>A peer without a server\<close>

lemma alone_fields [simp]:
  "su_ctx (alone sf now order) w = None" "su_meanwhile (alone sf now order) w r = r"
  by (simp_all add: alone_def)

lemma send_nobody:
  assumes "server_of wt p = None"
  shows "\<exists>wt' e. tp_AppendEntries (grpc_transport (server_net env)) p req wt = (wt', Inl e) \<and> same_servers wt wt'"
proof -
  obtain w t where wt: "wt = (w, t)" by force
  have tp: "tp_AppendEntries (grpc_transport (server_net env)) p req wt = (case transport_AppendEntries (server_net env) p req w t of (w1, t1, res) \<Rightarrow> ((w1, t1), map_sum id Some res))"
    unfolding wt by (simp add: grpc_transport_def with_table_def)
  show ?thesis
  proof (cases "tr_peers t p")
    case None
    then show ?thesis unfolding tp by (simp add: transport_AppendEntries_def same_servers_def wt)
  next
    case (Some addr)
    then have "w addr = None" using assms by (simp add: server_of_def wt)
    then have "tp_AppendEntries (grpc_transport (server_net env)) p req wt =
        ((w, t\<lparr>tr_conns := insert addr (tr_conns t)\<rparr>), Inl (RpcFailed (Status Unavailable ''connection refused'')))"
      unfolding tp using Some by (simp add: transport_AppendEntries_def rpc.getConn_ok) (simp add: server_net_def on_server_def)
    then show ?thesis by (simp add: same_servers_def wt)
  qed
qed

text \<open>The index at which replication starts, brought into the log.\<close>

lemma start_index:
  fixes ni :: uint64
  assumes "leading H r"
  defines "i \<equiv> clip_next (LastIndex (rlog r)) ni"
  shows "0 < i" "i \<le> length (entries (rlog r)) + 1" "replicateTo tp su p ni w r = replicateTo tp su p i w r"
proof -
  note l = leading_last [OF assms(1)]
  show "0 < i" "i \<le> length (entries (rlog r)) + 1" using l by (auto simp: i_def clip_next_def Let_def)
  show "replicateTo tp su p ni w r = replicateTo tp su p i w r"
    unfolding i_def by (rule replicateTo_clip) (use l assms(1) in \<open>simp_all add: leading_def\<close>)
qed

lemma replicate_nobody:
  assumes "leading H r" "server_of wt p = None"
  shows "\<exists>wt' e. replicateTo (grpc_transport (server_net env)) (alone sf now order) p ni wt r = Some (wt', r, Some e) \<and> same_servers wt wt'"
proof -
  note i = start_index [OF assms(1), where ni = ni]
  obtain req where q: "replicateTo_request (clip_next (LastIndex (rlog r)) ni) r = ReplSend (clip_next (LastIndex (rlog r)) ni) req"
    by (rule leader_request [OF assms(1) i(1,2)])
  obtain wt' e where w: "tp_AppendEntries (grpc_transport (server_net env)) p req wt = (wt', Inl e)" "same_servers wt wt'"
    using send_nobody [OF assms(2)] by blast
  have "replicateTo (grpc_transport (server_net env)) (alone sf now order) p (clip_next (LastIndex (rlog r)) ni) wt r = Some (wt', r, Some (TransportFailed e))"
    by (subst replicateTo.simps) (simp add: q w(1))
  then show ?thesis unfolding i(3) using w(2) by blast
qed

section \<open>One peer after the other\<close>

definition reached :: "(uint64 \<Rightarrow> LogEntry list) \<Rightarrow> uint64 \<Rightarrow> 'sm RaftNode option \<Rightarrow> bool" where
  "reached H t v = (case v of None \<Rightarrow> True | Some f \<Rightarrow> ready H t f)"

text \<open>Replication to one peer, whether there is a server or not.\<close>

lemma replicate_one:
  fixes r :: "'sm RaftNode" and wt :: "'sm servers \<times> GRPCTransport"
  assumes "leading H r" "reached H (currentTerm r) (server_of wt p)"
  shows "\<exists>wt' r' e. replicateTo (grpc_transport (server_net env)) (alone sf now order) p ni wt r = Some (wt', r', e) \<and> only_peer p wt wt' \<and>
    leading H r' \<and> grows r r' \<and> (server_of wt p \<noteq> None \<longrightarrow> length (entries (rlog r)) \<le> idx (matchIndex r') p)"
proof (cases "server_of wt p")
  case None
  then show ?thesis using replicate_nobody [OF assms(1) None, of env sf now order ni] assms(1) by (force simp: same_servers_def only_peer_def)
next
  case (Some f)
  then obtain addr where a: "tr_peers (snd wt) p = Some addr" "fst wt addr = Some f" by (auto simp: server_of_def split: option.splits)
  note i = start_index [OF assms(1), where ni = ni]
  have "over_grpc.caught_up p addr wt r (replicateTo (grpc_transport (server_net env)) (alone sf now order) p (clip_next (LastIndex (rlog r)) ni) wt r)"
    by (rule over_grpc.catches_up [OF assms(1) _ _ i(1,2)]) (use a Some assms(2) in \<open>simp_all add: reached_def\<close>)
  then obtain wt' r' where w: "replicateTo (grpc_transport (server_net env)) (alone sf now order) p ni wt r = Some (wt', r', None)"
    "tr_peers (snd wt') = tr_peers (snd wt)" "(fst wt')(addr := None) = (fst wt)(addr := None)" "state r' = Leader" "fatalErr r' = None" "grows r r'"
    "length (entries (rlog r)) \<le> idx (matchIndex r') p"
    unfolding over_grpc.caught_up_def i(3) by auto
  have "fst wt' x = fst wt x" if "x \<noteq> addr" for x using fun_cong [OF w(3), of x] that by simp
  then have "only_peer p wt wt'" using w(2) a(1) by (auto simp: only_peer_def)
  moreover have "leading H r'" by (rule leading_cong [OF assms(1)]) (use w assms(1) growsD [OF w(6)] in \<open>simp_all add: leading_def\<close>)
  ultimately show ?thesis using w(1,6,7) by blast
qed

lemma replicate_all:
  fixes r :: "'sm RaftNode" and wt :: "'sm servers \<times> GRPCTransport"
  assumes "leading H r" "own_addresses (snd wt) ps" "\<forall>p \<in> set ps. reached H (currentTerm r) (server_of wt p)"
  shows "\<exists>wt' r'. replicate_peers (grpc_transport (server_net env)) (alone sf now order) ps wt r = Some (wt', r') \<and> leading H r' \<and> grows r r' \<and>
    (\<forall>p \<in> set ps. server_of wt p \<noteq> None \<longrightarrow> length (entries (rlog r)) \<le> idx (matchIndex r') p)"
  using assms
proof (induction ps arbitrary: wt r)
  case (Cons p ps)
  have "reached H (currentTerm r) (server_of wt p)" using Cons.prems(3) by simp
  from replicate_one [OF Cons.prems(1) this, of env sf now order "idx (nextIndex r) p"] obtain wt1 r1 e where
    a: "replicateTo (grpc_transport (server_net env)) (alone sf now order) p (idx (nextIndex r) p) wt r = Some (wt1, r1, e)" "only_peer p wt wt1"
      "leading H r1" "grows r r1" "server_of wt p \<noteq> None \<longrightarrow> length (entries (rlog r)) \<le> idx (matchIndex r1) p" by blast
  note same = only_peer_others [OF a(2) Cons.prems(2)] and g = growsD [OF a(4)]
  have o: "own_addresses (snd wt1) ps" by (rule only_peer_rest [OF a(2) Cons.prems(2)])
  have "\<forall>p \<in> set ps. reached H (currentTerm r1) (server_of wt1 p)" using Cons.prems(3) same g by simp
  from Cons.IH [OF a(3) o this] obtain wt' r' where
    b: "replicate_peers (grpc_transport (server_net env)) (alone sf now order) ps wt1 r1 = Some (wt', r')" "leading H r'" "grows r1 r'"
      "\<forall>p \<in> set ps. server_of wt1 p \<noteq> None \<longrightarrow> length (entries (rlog r1)) \<le> idx (matchIndex r') p" by blast
  have "idx (matchIndex r1) p \<le> idx (matchIndex r') p" using b(3) by (simp add: grows_def)
  then have "\<forall>q \<in> set (p # ps). server_of wt q \<noteq> None \<longrightarrow> length (entries (rlog r)) \<le> idx (matchIndex r') q"
    using a(5) b(4) same g by (auto intro: order_trans)
  then show ?case using a(1) b(1,2) grows_trans [OF a(4) b(3)] by auto
qed simp

section \<open>A batch\<close>

lemma length_filter_le_filter: "(\<And>x. x \<in> set xs \<Longrightarrow> P x \<Longrightarrow> Q x) \<Longrightarrow> length (filter P xs) \<le> length (filter Q xs)"
  by (induction xs) (auto simp: le_SucI)

text \<open>A leader that has written a batch and reaches a majority commits it.\<close>

lemma settled_commits:
  assumes "leading H r" "grows r r'" "settled r" "entries (rlog r) \<noteq> []" "Term (last (entries (rlog r))) = currentTerm r"
    and m: "\<forall>p \<in> set (other_peers (NodeID (config r)) (clusterConfig r)). R p \<longrightarrow> length (entries (rlog r)) \<le> idx (matchIndex r') p"
    and "Majority (clusterConfig r) \<le> 1 + length (filter R (other_peers (NodeID (config r)) (clusterConfig r)))"
  shows "LastIndex (rlog r) \<le> commitIndex r'"
proof -
  let ?ps = "other_peers (NodeID (config r)) (clusterConfig r)"
  have g: "rlog r' = rlog r" "currentTerm r' = currentTerm r" "config r' = config r" "clusterConfig r' = clusterConfig r" "settled r'"
    using assms(2,3) by (simp_all add: grows_def)
  have "length (filter R ?ps) \<le> length (filter (\<lambda>p. LastIndex (rlog r) \<le> idx (matchIndex r') p) ?ps)"
    by (rule length_filter_le_filter) (use m leading_last [OF assms(1)] in simp)
  then have "Majority (clusterConfig r) \<le> replica_count (LastIndex (rlog r)) r'" using assms(7) g by (simp add: replica_count_def)
  then show ?thesis using g assms(4,5) by (simp add: settled_def)
qed

text \<open>What a leader with a healthy disk is after a flush.\<close>

lemma flush_healthy:
  assumes "state r = Leader" "batch \<noteq> []" "log_wf (rlog r)" "log_healthy (rlog r)" "LastIndex (rlog r) + length batch < 2 ^ 64"
  obtains l r1 where "Append marshal None (flush_entries batch r) (rlog r) = (l, None)" "flush marshal None batch r = advanceCommitIndex r1"
    "rlog r1 = l" "entries l = entries (rlog r) @ flush_entries batch r" "state r1 = Leader" "currentTerm r1 = currentTerm r" "fatalErr r1 = fatalErr r"
    "\<forall>i < length batch. waiters (flush marshal None batch r) (LastIndex (rlog r) + 1 + i) = Some (snd (batch ! i)) \<and>
       GetEntry (LastIndex (rlog r) + 1 + i) l = Inr \<lparr>Index = LastIndex (rlog r) + 1 + i, Term = currentTerm r, Type = EntryKV, Command = fst (batch ! i)\<rparr>"
proof -
  obtain l where ok: "Append marshal None (flush_entries batch r) (rlog r) = (l, None)"
    by (rule healthy_append [OF assms(4,3) flush_entries_contiguous [OF assms(5)]]) (use assms(5) in simp)
  obtain wt nx where f: "flush marshal None batch r = advanceCommitIndex (r\<lparr>rlog := l, waiters := wt, nextIndex := nx\<rparr>)"
    using flush_ok [OF assms(1,2) ok] by blast
  have es: "entries l = entries (rlog r) @ flush_entries batch r" using Append_ok [OF ok] by simp
  have "flush_entries batch r \<noteq> []" using assms(2) length_flush_entries [of batch r] by (metis length_0_conv)
  then have "entries (rlog (flush marshal None batch r)) \<noteq> entries (rlog r)" using es by (simp add: f)
  then have W: "\<forall>i < length batch. waiters (flush marshal None batch r) (LastIndex (rlog r) + 1 + i) = Some (snd (batch ! i)) \<and>
       GetEntry (LastIndex (rlog r) + 1 + i) l = Inr \<lparr>Index = LastIndex (rlog r) + 1 + i, Term = currentTerm r, Type = EntryKV, Command = fst (batch ! i)\<rparr>"
    using flush_registers [OF assms(1-3,5), of marshal None] by (auto simp: Let_def f)
  show thesis using that [OF ok f _ es _ _ _ W] assms(1) by simp
qed

text \<open>A cluster after the flush of a healthy leader; \<open>H\<close> is its history of terms.\<close>

lemma flushed_cluster:
  assumes inv: "repl_inv c s" and "n \<in> members c" "batch \<noteq> []"
    and r: "state (nodes (cl s) n) = Leader" "fatalErr (nodes (cl s) n) = None" "log_healthy (rlog (nodes (cl s) n))"
      "length (node_log s n) + length batch + 1 < 2 ^ 64" "wire_types (node_log s n)"
  obtains H F where "flush marshal None batch (nodes (cl s) n) = F" "snd (Append marshal None (flush_entries batch (nodes (cl s) n)) (rlog (nodes (cl s) n))) = None"
    "leading H F" "settled F" "entries (rlog F) \<noteq> []" "Term (last (entries (rlog F))) = currentTerm F" "currentTerm F = currentTerm (nodes (cl s) n)"
    "NodeID (config F) = n" "clusterConfig F = c" "LastIndex (rlog F) = length (node_log s n) + length batch"
    "\<forall>i < length batch. waiters F (length (node_log s n) + 1 + i) = Some (snd (batch ! i)) \<and>
       GetEntry (length (node_log s n) + 1 + i) (rlog F) =
         Inr \<lparr>Index = length (node_log s n) + 1 + i, Term = currentTerm (nodes (cl s) n), Type = EntryKV, Command = fst (batch ! i)\<rparr>"
    "\<forall>p \<in> members c. p \<noteq> n \<longrightarrow> log_wf (rlog (nodes (cl s) p)) \<and> baseIndex (rlog (nodes (cl s) p)) = 0 \<and> follows H (node_log s p)"
proof -
  let ?r = "nodes (cl s) n" and ?F = "flush marshal None batch (nodes (cl s) n)"
  have wf: "log_wf (rlog ?r)" "baseIndex (rlog ?r) = 0" using inv assms(2) by (auto simp: repl_inv_def)
  have L: "LastIndex (rlog ?r) = length (node_log s n)" using LastIndex_eq [OF wf(1)] wf(2) by simp
  have b: "LastIndex (rlog ?r) + length batch < 2 ^ 64" using L r(4) by simp
  define s1 where "s1 = s\<lparr>cl := put_node n ?F (cl s), hist := (hist s)(currentTerm ?r := entries (rlog ?F))\<rparr>"
  have "repl_step c s s1" unfolding s1_def by (rule repl_step.flushes [OF assms(2) r(1) refl b])
  then have inv1: "repl_inv c s1" by (rule repl_inv_step) (rule inv)
  obtain l r1 where F: "Append marshal None (flush_entries batch ?r) (rlog ?r) = (l, None)" "?F = advanceCommitIndex r1"
    "rlog r1 = l" "entries l = node_log s n @ flush_entries batch ?r" "state r1 = Leader" "currentTerm r1 = currentTerm ?r" "fatalErr r1 = fatalErr ?r"
    "\<forall>i < length batch. waiters ?F (LastIndex (rlog ?r) + 1 + i) = Some (snd (batch ! i)) \<and>
       GetEntry (LastIndex (rlog ?r) + 1 + i) l = Inr \<lparr>Index = LastIndex (rlog ?r) + 1 + i, Term = currentTerm ?r, Type = EntryKV, Command = fst (batch ! i)\<rparr>"
    by (rule flush_healthy [OF r(1) assms(3) wf(1) r(3) b])
  let ?H = "hist s1"
  have n1: "nodes (cl s1) n = ?F" and p1: "p \<noteq> n \<Longrightarrow> nodes (cl s1) p = nodes (cl s) p" for p by (simp_all add: s1_def)
  have fr: "state ?F = Leader" "currentTerm ?F = currentTerm ?r" "rlog ?F = l" using F by simp_all
  have w1: "log_wf l" "baseIndex l = 0" "?H (currentTerm ?r) = entries l" "follows ?H (?H (currentTerm ?r))" "contiguous 0 (?H (currentTerm ?r))"
    "NodeID (config ?F) = n" "clusterConfig ?F = c"
    using inv1 assms(2) n1 fr by (auto simp: repl_inv_def election_inv_def nodes_ok_def)
  have kv: "\<forall>e \<in> set (flush_entries batch ?r). Term e = currentTerm ?r \<and> Type e = EntryKV"
    using flush_entries_nth [OF _ b] by (auto simp: in_set_conv_nth)
  then have "wire_types (entries l)" using r(5) by (auto simp: F(4) wire_types_def list_all_iff EntryKV_def)
  then have lead: "leading ?H r1" using w1 F(3-7) r(2,4) by (simp add: leading_def leader_history_def)
  have lead1: "leading ?H ?F" unfolding F(2) by (rule leading_cong [OF lead]) simp_all
  have set: "settled ?F" unfolding F(2) by (rule advance_settles [OF lead])
  have fe: "flush_entries batch ?r \<noteq> []" using assms(3) length_flush_entries [of batch ?r] by (metis length_0_conv)
  have lt: "entries (rlog ?F) \<noteq> []" "Term (last (entries (rlog ?F))) = currentTerm ?F" using kv fe fr by (simp_all add: F(4))
  have "\<forall>p \<in> members c. p \<noteq> n \<longrightarrow> log_wf (rlog (nodes (cl s) p)) \<and> baseIndex (rlog (nodes (cl s) p)) = 0 \<and> follows ?H (node_log s p)"
    using inv1 p1 by (auto simp: repl_inv_def)
  moreover have "LastIndex l = length (node_log s n) + length batch" using LastIndex_eq [OF w1(1)] w1(2) F(4) by simp
  ultimately show thesis using that [OF refl _ lead1 set lt fr(2) w1(6,7)] F(1,8) fr(3) L by simp
qed



end
