(* ===== verification/GoNum.thy ===== *)
theory GoNum
  imports Prelude
begin

text \<open>
  The part of Go's \<^verbatim>\<open>strconv\<close> the store relies on: \<^verbatim>\<open>ParseInt(s, 10, 64)\<close> with its
  two errors, \<^verbatim>\<open>FormatInt(i, 10)\<close>, and the IEEE 754 comparisons of \<^verbatim>\<open>float64\<close>
  values, which are kept as their 64-bit patterns.
\<close>

section \<open>Decimal integers\<close>

datatype num_error = ErrSyntax | ErrRange

definition is_digit :: "char \<Rightarrow> bool" where
  "is_digit c \<longleftrightarrow> 48 \<le> (of_char c :: nat) \<and> (of_char c :: nat) \<le> 57"

definition digit_val :: "char \<Rightarrow> nat" where
  "digit_val c = of_char c - 48"

definition digit_char :: "nat \<Rightarrow> char" where
  "digit_char d = char_of (48 + d)"

text \<open>
  The digit loop of \<^verbatim>\<open>ParseUint\<close>: a byte that is no decimal digit is a syntax error,
  and a value that leaves the \<^verbatim>\<open>uint64\<close> range is a range error as soon as it does, before
  the rest of the string is looked at.
\<close>

fun parse_uint_loop :: "nat \<Rightarrow> string \<Rightarrow> nat \<times> num_error option" where
  "parse_uint_loop n [] = (n, None)"
| "parse_uint_loop n (c # cs) =
     (if \<not> is_digit c then (0, Some ErrSyntax)
      else if max_uint64 div 10 + 1 \<le> n then (max_uint64, Some ErrRange)
      else if max_uint64 < n * 10 + digit_val c then (max_uint64, Some ErrRange)
      else parse_uint_loop (n * 10 + digit_val c) cs)"

definition parse_uint :: "string \<Rightarrow> nat \<times> num_error option" where
  "parse_uint s = (if s = [] then (0, Some ErrSyntax) else parse_uint_loop 0 s)"

text \<open>\<^verbatim>\<open>ParseInt\<close>: an optional sign, then the unsigned value, then the signed range check.\<close>

definition parse_signed :: "bool \<Rightarrow> string \<Rightarrow> int64 \<times> num_error option" where
  "parse_signed neg s =
     (case parse_uint s of
        (_, Some ErrSyntax) \<Rightarrow> (0, Some ErrSyntax)
      | (un, _) \<Rightarrow>
          if \<not> neg \<and> 2 ^ 63 \<le> un then (max_int64, Some ErrRange)
          else if neg \<and> 2 ^ 63 < un then (min_int64, Some ErrRange)
          else (if neg then - int un else int un, None))"

fun parse_int :: "string \<Rightarrow> int64 \<times> num_error option" where
  "parse_int [] = (0, Some ErrSyntax)"
| "parse_int (c # cs) =
     (if c = CHR ''+'' then parse_signed False cs
      else if c = CHR ''-'' then parse_signed True cs
      else parse_signed False (c # cs))"

fun format_nat :: "nat \<Rightarrow> string" where
  "format_nat n = (if n < 10 then [digit_char n] else format_nat (n div 10) @ [digit_char (n mod 10)])"

declare format_nat.simps [simp del]

definition format_int :: "int64 \<Rightarrow> string" where
  "format_int i = (if i < 0 then CHR ''-'' # format_nat (nat (- i)) else format_nat (nat i))"

subsection \<open>Round trip\<close>

lemma of_char_digit_char [simp]: "d < 10 \<Longrightarrow> (of_char (digit_char d) :: nat) = 48 + d"
  by (simp add: digit_char_def)

lemma is_digit_digit_char [simp]: "d < 10 \<Longrightarrow> is_digit (digit_char d)"
  by (simp add: is_digit_def)

lemma digit_val_digit_char [simp]: "d < 10 \<Longrightarrow> digit_val (digit_char d) = d"
  by (simp add: digit_val_def)

lemma format_nat_not_Nil [simp]: "format_nat n \<noteq> []"
  by (subst format_nat.simps) simp

lemma format_nat_digits: "c \<in> set (format_nat n) \<Longrightarrow> is_digit c"
proof (induction n rule: format_nat.induct)
  case (1 n)
  then show ?case
    by (subst (asm) format_nat.simps) (auto split: if_splits)
qed

lemma parse_uint_loop_append:
  "parse_uint_loop n xs = (m, None) \<Longrightarrow> parse_uint_loop n (xs @ ys) = parse_uint_loop m ys"
  by (induction n xs rule: parse_uint_loop.induct) (auto split: if_splits)

lemma parse_uint_loop_format_nat:
  "n \<le> max_uint64 \<Longrightarrow> parse_uint_loop 0 (format_nat n) = (n, None)"
proof (induction n rule: format_nat.induct)
  case (1 n)
  show ?case
  proof (cases "n < 10")
    case True
    then show ?thesis
      by (subst format_nat.simps) (simp add: max_uint64_def)
  next
    case False
    with 1 have *: "parse_uint_loop 0 (format_nat (n div 10)) = (n div 10, None)"
      by simp
    have "n div 10 \<le> max_uint64 div 10" and "n div 10 * 10 + n mod 10 = n"
      using "1.prems" by (simp_all add: div_le_mono)
    then have "parse_uint_loop (n div 10) [digit_char (n mod 10)] = (n, None)"
      using "1.prems" by simp
    with * False show ?thesis
      by (subst format_nat.simps) (simp add: parse_uint_loop_append)
  qed
qed

lemma parse_uint_format_nat: "n \<le> max_uint64 \<Longrightarrow> parse_uint (format_nat n) = (n, None)"
  by (simp add: parse_uint_def parse_uint_loop_format_nat)

lemma sign_not_digit: "\<not> is_digit (CHR ''+'')" "\<not> is_digit (CHR ''-'')"
  by (simp_all add: is_digit_def)

lemma parse_int_digits: "c \<in> set s \<Longrightarrow> (\<And>c. c \<in> set s \<Longrightarrow> is_digit c) \<Longrightarrow> parse_int s = parse_signed False s"
  using sign_not_digit by (cases s) auto

lemma parse_int_format_int:
  assumes "is_int64 i"
  shows "parse_int (format_int i) = (i, None)"
proof (cases "i < 0")
  case True
  with assms have "nat (- i) \<le> 2 ^ 63"
    by (auto simp: is_int64_def min_int64_def)
  with True show ?thesis
    by (simp add: format_int_def parse_signed_def parse_uint_format_nat max_uint64_def)
next
  case False
  with assms have b: "nat i < 2 ^ 63"
    by (simp add: is_int64_def max_int64_def nat_less_iff)
  have "parse_int (format_nat (nat i)) = parse_signed False (format_nat (nat i))"
    by (rule parse_int_digits [of "hd (format_nat (nat i))"]) (auto dest: format_nat_digits)
  with b False show ?thesis
    by (simp add: format_int_def parse_signed_def parse_uint_format_nat max_uint64_def)
qed

lemma parse_uint_loop_bound:
  "n \<le> max_uint64 \<Longrightarrow> fst (parse_uint_loop n s) \<le> max_uint64"
  by (induction n s rule: parse_uint_loop.induct) auto

lemma parse_int_range: "is_int64 (fst (parse_int s))"
proof -
  have *: "is_int64 (fst (parse_signed neg t))" for neg t
    by (auto simp: parse_signed_def is_int64_def min_int64_def max_int64_def
        split: prod.splits option.splits num_error.splits)
  show ?thesis
    by (cases s) (simp_all add: *, simp add: is_int64_def min_int64_def max_int64_def)
qed

lemma format_int_inj: "is_int64 i \<Longrightarrow> is_int64 j \<Longrightarrow> format_int i = format_int j \<Longrightarrow> i = j"
  using parse_int_format_int by (metis prod.inject)

section \<open>IEEE 754 double precision comparisons\<close>

text \<open>
  A \<^verbatim>\<open>float64\<close> is its bit pattern. The exponent is bits 52 to 62, the fraction bits 0
  to 51, the sign bit 63; a pattern with exponent 2047 and a non-zero fraction is a NaN.
  For the others the order of the values is the order of the sign-magnitude integer, in
  which the two zeros coincide.
\<close>

type_synonym float64 = "64 word"

definition f64_magnitude :: "float64 \<Rightarrow> nat" where
  "f64_magnitude f = unat f mod 2 ^ 63"

definition f64_negative :: "float64 \<Rightarrow> bool" where
  "f64_negative f \<longleftrightarrow> 2 ^ 63 \<le> unat f"

definition f64_isNaN :: "float64 \<Rightarrow> bool" where
  "f64_isNaN f \<longleftrightarrow> 2047 * 2 ^ 52 < f64_magnitude f"

definition f64_key :: "float64 \<Rightarrow> int" where
  "f64_key f = (if f64_negative f then - int (f64_magnitude f) else int (f64_magnitude f))"

definition f64_eq :: "float64 \<Rightarrow> float64 \<Rightarrow> bool" where
  "f64_eq a b \<longleftrightarrow> \<not> f64_isNaN a \<and> \<not> f64_isNaN b \<and> f64_key a = f64_key b"

definition f64_lt :: "float64 \<Rightarrow> float64 \<Rightarrow> bool" where
  "f64_lt a b \<longleftrightarrow> \<not> f64_isNaN a \<and> \<not> f64_isNaN b \<and> f64_key a < f64_key b"

lemma f64_eq_refl_iff: "f64_eq a a \<longleftrightarrow> \<not> f64_isNaN a"
  by (simp add: f64_eq_def)

end
