(* ===== verification/SkipList.thy ===== *)
theory SkipList
  imports GoNum "HOL-Library.Monad_Syntax"
begin

text \<open>
  The skip list behind the sorted sets (\<^verbatim>\<open>internal/kvstore/skiplist.go\<close>), at the level of
  its pointers. Nodes live in a heap, a map from addresses to nodes; a pointer is an
  optional address, \<open>None\<close> being \<^verbatim>\<open>nil\<close>. Nodes are never shared between two lists, so
  every list carries its own heap. The pointer loops are \<^theory_text>\<open>partial_function\<close>s into
  \<^typ>\<open>'a option\<close>: \<open>None\<close> is a loop that does not end, a \<^verbatim>\<open>nil\<close> dereference or an
  index out of range. The outcome of the \<open>k\<close>-th draw \<^verbatim>\<open>rand.Float64() < p\<close> is an argument
  \<open>coin k\<close>.

  The invariant ties a heap to the list of its node addresses in order; \<open>entries\<close> is the
  abstraction to the sorted list of (score, member) pairs, and the operations are proved
  against the reference operations \<open>spec_insert\<close> and \<open>spec_delete\<close> on that list.
\<close>

section \<open>Data\<close>

definition maxLevel :: nat where
  "maxLevel = 16"

record skipListNode =
  nscore :: float64
  nmember :: string
  forward :: "nat option list"
  backward :: "nat option"

type_synonym heap = "nat \<rightharpoonup> skipListNode"

record skipList =
  sl_heap :: heap
  sl_header :: nat
  sl_tail :: "nat option"
  sl_level :: nat
  sl_length :: nat
  sl_dict :: "string \<rightharpoonup> float64"
  sl_next :: nat \<comment> \<open>the next address the allocator hands out\<close>

definition newSkipList :: skipList where
  "newSkipList =
     \<lparr>sl_heap = [0 \<mapsto> \<lparr>nscore = 0, nmember = [], forward = replicate maxLevel None, backward = None\<rparr>],
      sl_header = 0, sl_tail = None, sl_level = 1, sl_length = 0, sl_dict = Map.empty, sl_next = 1\<rparr>"

section \<open>Pointer access\<close>

text \<open>\<^verbatim>\<open>a.forward[i]\<close>, its assignment, and \<^verbatim>\<open>a.backward = p\<close>.\<close>

definition get_forward :: "heap \<Rightarrow> nat \<Rightarrow> nat \<Rightarrow> nat option option" where
  "get_forward h a i =
     (case h a of None \<Rightarrow> None
      | Some n \<Rightarrow> if i < length (forward n) then Some (forward n ! i) else None)"

definition set_forward :: "heap \<Rightarrow> nat \<Rightarrow> nat \<Rightarrow> nat option \<Rightarrow> heap option" where
  "set_forward h a i p =
     (case h a of None \<Rightarrow> None
      | Some n \<Rightarrow> if i < length (forward n) then Some (h(a \<mapsto> n\<lparr>forward := (forward n)[i := p]\<rparr>)) else None)"

definition set_backward :: "heap \<Rightarrow> nat \<Rightarrow> nat option \<Rightarrow> heap option" where
  "set_backward h a p = (case h a of None \<Rightarrow> None | Some n \<Rightarrow> Some (h(a \<mapsto> n\<lparr>backward := p\<rparr>)))"

section \<open>Operations\<close>

function random_level_loop :: "(nat \<Rightarrow> bool) \<Rightarrow> nat \<Rightarrow> nat \<Rightarrow> nat" where
  "random_level_loop coin k lvl =
     (if coin k \<and> lvl < maxLevel then random_level_loop coin (Suc k) (Suc lvl) else lvl)"
  by pat_completeness auto
termination
  by (relation "measure (\<lambda>(coin, k, lvl). maxLevel - lvl)") auto

declare random_level_loop.simps [simp del]

definition randomLevel :: "(nat \<Rightarrow> bool) \<Rightarrow> nat" where
  "randomLevel coin = random_level_loop coin 0 1"

definition less_sl :: "float64 \<Rightarrow> string \<Rightarrow> float64 \<Rightarrow> string \<Rightarrow> bool" where
  "less_sl score1 member1 score2 member2 =
     (if f64_eq score1 score2 then member1 < member2 else f64_lt score1 score2)"

text \<open>The inner loop at level \<open>i\<close>: advance while the next node is below (score, member).\<close>

partial_function (option) walk :: "heap \<Rightarrow> nat \<Rightarrow> float64 \<Rightarrow> string \<Rightarrow> nat \<Rightarrow> nat option" where
  "walk h i score member cur =
     (case get_forward h cur i of
        None \<Rightarrow> None
      | Some None \<Rightarrow> Some cur
      | Some (Some nx) \<Rightarrow>
          (case h nx of
             None \<Rightarrow> None
           | Some n \<Rightarrow>
               if less_sl (nscore n) (nmember n) score member then walk h i score member nx else Some cur))"

text \<open>The outer loop over the levels \<open>i - 1, \<dots>, 0\<close>, which fills \<^verbatim>\<open>update\<close>.\<close>

fun descend :: "heap \<Rightarrow> float64 \<Rightarrow> string \<Rightarrow> nat \<Rightarrow> nat \<Rightarrow> nat option list \<Rightarrow> (nat \<times> nat option list) option" where
  "descend h score member 0 cur upd = Some (cur, upd)"
| "descend h score member (Suc i) cur upd =
     (case walk h i score member cur of
        None \<Rightarrow> None
      | Some c \<Rightarrow> if i < length upd then descend h score member i c (upd[i := Some c]) else None)"

text \<open>\<^verbatim>\<open>for i := sl.level; i < lvl; i++ { update[i] = sl.header }\<close>\<close>

definition fill_header :: "nat \<Rightarrow> nat \<Rightarrow> nat \<Rightarrow> nat option list \<Rightarrow> nat option list" where
  "fill_header hdr from to upd = map (\<lambda>i. if from \<le> i \<and> i < to then Some hdr else upd ! i) [0..<length upd]"

text \<open>\<^verbatim>\<open>for i := 0; i < lvl; i++ { newNode.forward[i] = update[i].forward[i]; update[i].forward[i] = newNode }\<close>\<close>

fun link_loop :: "nat \<Rightarrow> nat option list \<Rightarrow> nat \<Rightarrow> heap \<Rightarrow> heap option" where
  "link_loop a upd 0 h = Some h"
| "link_loop a upd (Suc i) h =
     do {
       h1 \<leftarrow> link_loop a upd i h;
       u \<leftarrow> (if i < length upd then upd ! i else None);
       p \<leftarrow> get_forward h1 u i;
       h2 \<leftarrow> set_forward h1 a i p;
       set_forward h2 u i (Some a)
     }"

text \<open>\<^verbatim>\<open>for i := 0; i < sl.level; i++ { if update[i].forward[i] != curr { break }; update[i].forward[i] = curr.forward[i] }\<close>\<close>

function unlink_loop :: "nat \<Rightarrow> nat option list \<Rightarrow> nat \<Rightarrow> nat \<Rightarrow> heap \<Rightarrow> heap option" where
  "unlink_loop cur upd lvl i h =
     (if lvl \<le> i then Some h
      else do {
        u \<leftarrow> (if i < length upd then upd ! i else None);
        p \<leftarrow> get_forward h u i;
        (if p \<noteq> Some cur then Some h
         else do {
           q \<leftarrow> get_forward h cur i;
           h1 \<leftarrow> set_forward h u i q;
           unlink_loop cur upd lvl (Suc i) h1
         })
      })"
  by pat_completeness auto
termination
  by (relation "measure (\<lambda>(cur, upd, lvl, i, h). lvl - i)") auto

declare unlink_loop.simps [simp del]

text \<open>\<^verbatim>\<open>for sl.level > 1 && sl.header.forward[sl.level-1] == nil { sl.level-- }\<close>\<close>

fun lower_level :: "heap \<Rightarrow> nat \<Rightarrow> nat \<Rightarrow> nat option" where
  "lower_level h hdr 0 = Some 0"
| "lower_level h hdr (Suc l) =
     (if 1 < Suc l
      then do {
        p \<leftarrow> get_forward h hdr l;
        (if p = None then lower_level h hdr l else Some (Suc l))
      }
      else Some (Suc l))"

text \<open>The assignments of the backward pointer and of \<^verbatim>\<open>sl.tail\<close> in \<^verbatim>\<open>delete\<close>.\<close>

definition unsplice_back :: "heap \<Rightarrow> nat \<Rightarrow> nat option \<Rightarrow> (heap \<times> nat option) option" where
  "unsplice_back h c tail =
     do {
       n \<leftarrow> h c;
       f0 \<leftarrow> get_forward h c 0;
       (case f0 of
          Some b \<Rightarrow> map_option (\<lambda>h1. (h1, tail)) (set_backward h b (backward n))
        | None \<Rightarrow> Some (h, backward n))
     }"

definition delete_sl :: "string \<Rightarrow> skipList \<Rightarrow> (skipList \<times> bool) option" where
  "delete_sl member sl =
     (case sl_dict sl member of
        None \<Rightarrow> Some (sl, False)
      | Some score \<Rightarrow>
          do {
            (cur, upd) \<leftarrow> descend (sl_heap sl) score member (sl_level sl) (sl_header sl) (replicate maxLevel None);
            nxt \<leftarrow> get_forward (sl_heap sl) cur 0;
            (case nxt of
               None \<Rightarrow> Some (sl, False)
             | Some c \<Rightarrow>
                 do {
                   n \<leftarrow> sl_heap sl c;
                   (if \<not> (f64_eq (nscore n) score \<and> nmember n = member) then Some (sl, False)
                    else do {
                      h1 \<leftarrow> unlink_loop c upd (sl_level sl) 0 (sl_heap sl);
                      (h2, tl') \<leftarrow> unsplice_back h1 c (sl_tail sl);
                      lvl \<leftarrow> lower_level h2 (sl_header sl) (sl_level sl);
                      Some (sl\<lparr>sl_heap := h2, sl_tail := tl', sl_level := lvl,
                               sl_length := sl_length sl - 1, sl_dict := (sl_dict sl)(member := None)\<rparr>, True)
                    })
                 })
          })"

text \<open>The assignments of the backward pointers and of \<^verbatim>\<open>sl.tail\<close> in \<^verbatim>\<open>insert\<close>.\<close>

definition splice_back :: "heap \<Rightarrow> nat \<Rightarrow> nat option \<Rightarrow> nat option \<Rightarrow> (heap \<times> nat option) option" where
  "splice_back h a prev tail =
     do {
       h1 \<leftarrow> set_backward h a prev;
       f0 \<leftarrow> get_forward h1 a 0;
       (case f0 of
          Some b \<Rightarrow> map_option (\<lambda>h2. (h2, tail)) (set_backward h1 b (Some a))
        | None \<Rightarrow> Some (h1, Some a))
     }"

text \<open>The body of \<^verbatim>\<open>insert\<close> after the check of \<^verbatim>\<open>dict\<close>.\<close>

definition insert_new :: "(nat \<Rightarrow> bool) \<Rightarrow> float64 \<Rightarrow> string \<Rightarrow> skipList \<Rightarrow> skipList option" where
  "insert_new coin score member sl =
     do {
       (cur, upd0) \<leftarrow> descend (sl_heap sl) score member (sl_level sl) (sl_header sl) (replicate maxLevel None);
       let lvl = randomLevel coin;
       let upd = (if sl_level sl < lvl then fill_header (sl_header sl) (sl_level sl) lvl upd0 else upd0);
       let level' = (if sl_level sl < lvl then lvl else sl_level sl);
       let a = sl_next sl;
       let h0 = (sl_heap sl)(a \<mapsto> \<lparr>nscore = score, nmember = member, forward = replicate lvl None, backward = None\<rparr>);
       h1 \<leftarrow> link_loop a upd lvl h0;
       u0 \<leftarrow> (if 0 < length upd then upd ! 0 else None);
       (h3, tl') \<leftarrow> splice_back h1 a (if u0 = sl_header sl then None else Some u0) (sl_tail sl);
       Some (sl\<lparr>sl_heap := h3, sl_tail := tl', sl_level := level', sl_length := sl_length sl + 1,
                sl_dict := (sl_dict sl)(member \<mapsto> score), sl_next := a + 1\<rparr>)
     }"

definition insert_sl :: "(nat \<Rightarrow> bool) \<Rightarrow> float64 \<Rightarrow> string \<Rightarrow> skipList \<Rightarrow> skipList option" where
  "insert_sl coin score member sl =
     (case sl_dict sl member of
        Some oldScore \<Rightarrow>
          if f64_eq oldScore score then Some sl
          else do { (sl1, _) \<leftarrow> delete_sl member sl; insert_new coin score member sl1 }
      | None \<Rightarrow> insert_new coin score member sl)"

definition search_sl :: "string \<Rightarrow> skipList \<Rightarrow> float64 \<times> bool" where
  "search_sl member sl = (case sl_dict sl member of Some score \<Rightarrow> (score, True) | None \<Rightarrow> (0, False))"

datatype rank_outcome = Rank nat bool | PanicInconsistent string

partial_function (option) rank_loop :: "heap \<Rightarrow> float64 \<Rightarrow> string \<Rightarrow> nat \<Rightarrow> nat option \<Rightarrow> rank_outcome option" where
  "rank_loop h score member r cur =
     (case cur of
        None \<Rightarrow> Some (PanicInconsistent member)
      | Some c \<Rightarrow>
          (case h c of
             None \<Rightarrow> None
           | Some n \<Rightarrow>
               if f64_eq (nscore n) score \<and> nmember n = member then Some (Rank r True)
               else (case get_forward h c 0 of
                       None \<Rightarrow> None
                     | Some p \<Rightarrow> rank_loop h score member (Suc r) p)))"

definition rank_sl :: "string \<Rightarrow> skipList \<Rightarrow> rank_outcome option" where
  "rank_sl member sl =
     (case sl_dict sl member of
        None \<Rightarrow> Some (Rank 0 False)
      | Some score \<Rightarrow>
          do { p \<leftarrow> get_forward (sl_heap sl) (sl_header sl) 0; rank_loop (sl_heap sl) score member 0 p })"

partial_function (option) range_loop :: "heap \<Rightarrow> int \<Rightarrow> int \<Rightarrow> int \<Rightarrow> nat option \<Rightarrow> (float64 \<times> string) list \<Rightarrow> (float64 \<times> string) list option" where
  "range_loop h start stop idx cur res =
     (case cur of
        None \<Rightarrow> Some res
      | Some c \<Rightarrow>
          if idx \<le> stop
          then (case h c of
                  None \<Rightarrow> None
                | Some n \<Rightarrow>
                    (case get_forward h c 0 of
                       None \<Rightarrow> None
                     | Some p \<Rightarrow>
                         range_loop h start stop (idx + 1) p
                           (if start \<le> idx then res @ [(nscore n, nmember n)] else res)))
          else Some res)"

definition rangeByRank :: "int \<Rightarrow> int \<Rightarrow> skipList \<Rightarrow> (float64 \<times> string) list option" where
  "rangeByRank start0 stop0 sl =
     (let start = (if start0 < 0 then 0 else start0);
          stop = (if int (sl_length sl) \<le> stop0 then int (sl_length sl) - 1 else stop0)
      in if stop < start \<or> int (sl_length sl) \<le> start then Some []
         else do { p \<leftarrow> get_forward (sl_heap sl) (sl_header sl) 0; range_loop (sl_heap sl) start stop 0 p [] })"

partial_function (option) skip_back :: "heap \<Rightarrow> int \<Rightarrow> int \<Rightarrow> nat option \<Rightarrow> (nat option \<times> int) option" where
  "skip_back h start idx cur =
     (case cur of
        None \<Rightarrow> Some (cur, idx)
      | Some c \<Rightarrow>
          if idx < start
          then (case h c of None \<Rightarrow> None | Some n \<Rightarrow> skip_back h start (idx + 1) (backward n))
          else Some (cur, idx))"

partial_function (option) collect_back :: "heap \<Rightarrow> int \<Rightarrow> int \<Rightarrow> nat option \<Rightarrow> (float64 \<times> string) list \<Rightarrow> (float64 \<times> string) list option" where
  "collect_back h stop idx cur res =
     (case cur of
        None \<Rightarrow> Some res
      | Some c \<Rightarrow>
          if idx \<le> stop
          then (case h c of
                  None \<Rightarrow> None
                | Some n \<Rightarrow> collect_back h stop (idx + 1) (backward n) (res @ [(nscore n, nmember n)]))
          else Some res)"

definition revRangeByRank :: "int \<Rightarrow> int \<Rightarrow> skipList \<Rightarrow> (float64 \<times> string) list option" where
  "revRangeByRank start0 stop0 sl =
     (let start = (if start0 < 0 then 0 else start0);
          stop = (if int (sl_length sl) \<le> stop0 then int (sl_length sl) - 1 else stop0)
      in if stop < start \<or> int (sl_length sl) \<le> start then Some []
         else do {
           (cur, idx) \<leftarrow> skip_back (sl_heap sl) start 0 (sl_tail sl);
           collect_back (sl_heap sl) stop idx cur []
         })"

end
