(* ===== verification/SkipListProofs.thy ===== *)
theory SkipListProofs
  imports SkipList
begin

text \<open>
  Correctness of the pointer-level skip list: the invariant between a heap and the list of
  its node addresses, its preservation by insertion and deletion, and the agreement of
  every operation with its reference on the sorted list of (score, member) pairs.
\<close>

section \<open>Observing the heap\<close>

definition height :: "heap \<Rightarrow> nat \<Rightarrow> nat" where
  "height h a = (case h a of None \<Rightarrow> 0 | Some n \<Rightarrow> length (forward n))"

definition fwd :: "heap \<Rightarrow> nat \<Rightarrow> nat \<Rightarrow> nat option" where
  "fwd h a i = (case h a of None \<Rightarrow> None | Some n \<Rightarrow> forward n ! i)"

definition bwd :: "heap \<Rightarrow> nat \<Rightarrow> nat option" where
  "bwd h a = (case h a of None \<Rightarrow> None | Some n \<Rightarrow> backward n)"

definition ent :: "heap \<Rightarrow> nat \<Rightarrow> float64 \<times> string" where
  "ent h a = (case h a of None \<Rightarrow> (0, []) | Some n \<Rightarrow> (nscore n, nmember n))"

text \<open>The next node of height above \<open>i\<close>, and a heap whose pointers follow a list.\<close>

definition nxt :: "heap \<Rightarrow> nat \<Rightarrow> nat list \<Rightarrow> nat option" where
  "nxt h i xs = find (\<lambda>a. i < height h a) xs"

definition linked :: "heap \<Rightarrow> nat list \<Rightarrow> bool" where
  "linked h xs \<longleftrightarrow> (\<forall>p a q. xs = p @ a # q \<longrightarrow> (\<forall>i < height h a. fwd h a i = nxt h i q))"

fun backs :: "heap \<Rightarrow> nat option \<Rightarrow> nat list \<Rightarrow> bool" where
  "backs h prev [] \<longleftrightarrow> True"
| "backs h prev (a # xs) \<longleftrightarrow> bwd h a = prev \<and> backs h (Some a) xs"

lemma height_pos_Some: "i < height h a \<Longrightarrow> \<exists>n. h a = Some n"
  by (auto simp: height_def split: option.splits)

lemma get_forward_eq: "get_forward h a i = (if i < height h a then Some (fwd h a i) else None)"
  by (auto simp: get_forward_def height_def fwd_def split: option.splits)

lemma linkedD: "linked h (p @ a # q) \<Longrightarrow> i < height h a \<Longrightarrow> fwd h a i = nxt h i q"
  by (auto simp: linked_def)

lemma linked_hdD: "linked h (a # q) \<Longrightarrow> i < height h a \<Longrightarrow> fwd h a i = nxt h i q"
  using linkedD [of h "[]" a q i] by simp

lemma linked_suffix: "linked h (p @ q) \<Longrightarrow> linked h q"
  unfolding linked_def by (metis append.assoc)

lemma nxt_append: "nxt h i (xs @ ys) = (case nxt h i xs of None \<Rightarrow> nxt h i ys | Some x \<Rightarrow> Some x)"
  by (simp add: nxt_def find_append split: option.split)

lemma nxt_None: "nxt h i xs = None \<longleftrightarrow> (\<forall>b \<in> set xs. \<not> i < height h b)"
  by (auto simp: nxt_def find_None_iff)

lemma nxt_append_low: "\<forall>b \<in> set xs. \<not> i < height h b \<Longrightarrow> nxt h i (xs @ ys) = nxt h i ys"
  by (simp add: nxt_append nxt_None [symmetric])

lemma nxt_Cons [simp]: "nxt h i (a # xs) = (if i < height h a then Some a else nxt h i xs)"
  by (simp add: nxt_def)

lemma nxt_Nil [simp]: "nxt h i [] = None"
  by (simp add: nxt_def)

lemma nxt_SomeD: "nxt h i xs = Some b \<Longrightarrow> b \<in> set xs \<and> i < height h b"
  by (auto simp: nxt_def find_Some_iff)

lemma nxt_cong:
  "(\<And>a. a \<in> set xs \<Longrightarrow> height h' a = height h a) \<Longrightarrow> nxt h' i xs = nxt h i xs"
  by (induction xs) auto

section \<open>The search path\<close>

definition below :: "heap \<Rightarrow> float64 \<Rightarrow> string \<Rightarrow> nat \<Rightarrow> bool" where
  "below h score member a \<longleftrightarrow> less_sl (fst (ent h a)) (snd (ent h a)) score member"

definition last_tall :: "heap \<Rightarrow> nat \<Rightarrow> nat list \<Rightarrow> nat" where
  "last_tall h i xs = last (filter (\<lambda>a. i < height h a) xs)"

lemma walk_step:
  "i < height h c \<Longrightarrow>
     walk h i s m c =
       (case fwd h c i of None \<Rightarrow> Some c
        | Some b \<Rightarrow> (case h b of None \<Rightarrow> None | Some n \<Rightarrow> if below h s m b then walk h i s m b else Some c))"
  by (subst walk.simps) (auto simp: get_forward_eq below_def ent_def split: option.splits)

lemma walk_linked:
  assumes "linked h (c # lo @ hi)" "i < height h c"
    and "\<forall>a \<in> set lo. below h s m a" "\<forall>a \<in> set hi. \<not> below h s m a"
  shows "walk h i s m c = Some (last_tall h i (c # lo))"
  using assms
proof (induction "length lo" arbitrary: c lo rule: less_induct)
  case less
  let ?tall = "\<lambda>a. i < height h a"
  have f: "fwd h c i = nxt h i (lo @ hi)"
    using less.prems(1,2) by (rule linked_hdD)
  show ?case
  proof (cases "nxt h i lo")
    case None
    then have l: "last_tall h i (c # lo) = c"
      using less.prems(2) by (simp add: last_tall_def nxt_None)
    have fc: "fwd h c i = nxt h i hi" using f None by (simp add: nxt_append)
    show ?thesis
    proof (cases "nxt h i hi")
      case None
      with fc l less.prems(2) show ?thesis by (simp add: walk_step)
    next
      case (Some b)
      then obtain n where "h b = Some n" and "b \<in> set hi"
        using nxt_SomeD height_pos_Some by metis
      with fc Some l less.prems(2,4) show ?thesis by (simp add: walk_step)
    qed
  next
    case (Some a)
    then obtain p q where lo: "lo = p @ a # q" and a: "i < height h a"
      and p: "\<forall>y \<in> set p. \<not> i < height h y"
      by (auto simp: nxt_def dest!: find_Some_split)
    have "linked h (a # q @ hi)"
      using less.prems(1) linked_suffix [of h "c # p"] by (simp add: lo)
    then have "walk h i s m a = Some (last_tall h i (a # q))"
      using less.hyps [of q a] a less.prems(3,4) by (simp add: lo)
    moreover have "last_tall h i (c # lo) = last_tall h i (a # q)"
      using a p less.prems(2) by (simp add: last_tall_def lo)
    moreover have "fwd h c i = Some a"
      using f Some by (simp add: nxt_append)
    moreover obtain n where "h a = Some n"
      using height_pos_Some [OF a] by blast
    ultimately show ?thesis
      using less.prems(2,3) by (simp add: walk_step lo)
  qed
qed

lemma descend_linked:
  assumes "linked h (xs @ hi)" "\<forall>a \<in> set (tl xs). below h s m a" "\<forall>a \<in> set hi. \<not> below h s m a"
    and "xs = p @ cur # q" "n \<le> height h cur" "\<forall>b \<in> set q. height h b \<le> n" "n \<le> length upd"
  shows "\<exists>upd'. descend h s m n cur upd = Some (if n = 0 then cur else last_tall h 0 xs, upd') \<and>
           length upd' = length upd \<and> (\<forall>i < n. upd' ! i = Some (last_tall h i xs)) \<and>
           (\<forall>i. n \<le> i \<longrightarrow> upd' ! i = upd ! i)"
  using assms(4-)
proof (induction n arbitrary: p cur q upd)
  case 0
  then show ?case by simp
next
  case (Suc i)
  have bel: "\<forall>a \<in> set q. below h s m a"
    using assms(2) Suc.prems(1) by (cases p) auto
  have lnk: "linked h (cur # q @ hi)"
    using assms(1) linked_suffix [of h p "cur # q @ hi"] Suc.prems(1) by simp
  let ?c = "last_tall h i (cur # q)"
  have w: "walk h i s m cur = Some ?c"
    using walk_linked [OF lnk _ bel assms(3)] Suc.prems(2) by simp
  have ne: "filter (\<lambda>a. i < height h a) (cur # q) \<noteq> []"
    using Suc.prems(2) by simp
  then have c_xs: "?c = last_tall h i xs"
    by (simp add: last_tall_def Suc.prems(1) del: filter.simps)
  obtain p' q' where sp: "cur # q = p' @ ?c # q'" and tall: "i < height h ?c"
    and low: "\<forall>b \<in> set q'. \<not> i < height h b"
    using last_filter_split [OF ne] unfolding last_tall_def by blast
  have xs': "xs = (p @ p') @ ?c # q'"
    using Suc.prems(1) sp by simp
  have "\<exists>upd'. descend h s m i ?c (upd[i := Some ?c]) = Some (if i = 0 then ?c else last_tall h 0 xs, upd') \<and>
           length upd' = length (upd[i := Some ?c]) \<and> (\<forall>j < i. upd' ! j = Some (last_tall h j xs)) \<and>
           (\<forall>j. i \<le> j \<longrightarrow> upd' ! j = upd[i := Some ?c] ! j)"
    using tall low Suc.prems(4) by (intro Suc.IH [OF xs']) auto
  then obtain upd' where
    "descend h s m i ?c (upd[i := Some ?c]) = Some (if i = 0 then ?c else last_tall h 0 xs, upd')"
    "length upd' = length upd" "\<forall>j < i. upd' ! j = Some (last_tall h j xs)"
    "\<forall>j. i \<le> j \<longrightarrow> upd' ! j = upd[i := Some ?c] ! j"
    by auto
  then show ?case
    using w Suc.prems(4) c_xs by (auto simp: less_Suc_eq)
qed


section \<open>Pointer updates\<close>

text \<open>Two heaps that differ in forward pointers only.\<close>

definition same_nodes :: "heap \<Rightarrow> heap \<Rightarrow> bool" where
  "same_nodes h h' \<longleftrightarrow> (\<forall>b. height h' b = height h b \<and> ent h' b = ent h b \<and> bwd h' b = bwd h b \<and> (h' b = None \<longleftrightarrow> h b = None))"

lemma same_nodes_refl [simp]: "same_nodes h h"
  by (simp add: same_nodes_def)

lemma same_nodes_trans: "same_nodes h h1 \<Longrightarrow> same_nodes h1 h2 \<Longrightarrow> same_nodes h h2"
  by (simp add: same_nodes_def)

lemma same_nodesD:
  assumes "same_nodes h h'"
  shows "height h' b = height h b" "ent h' b = ent h b" "bwd h' b = bwd h b"
  using assms by (simp_all add: same_nodes_def)

lemma set_forward_spec:
  assumes "i < height h b"
  obtains h' where "set_forward h b i p = Some h'" "same_nodes h h'"
    "\<And>c j. j < height h c \<Longrightarrow> fwd h' c j = (if c = b \<and> j = i then p else fwd h c j)"
proof -
  from assms obtain n where n: "h b = Some n" "i < length (forward n)"
    by (auto simp: height_def split: option.splits)
  let ?h = "h(b \<mapsto> n\<lparr>forward := (forward n)[i := p]\<rparr>)"
  have "set_forward h b i p = Some ?h"
    using n by (simp add: set_forward_def)
  moreover have "same_nodes h ?h"
    using n by (auto simp: same_nodes_def height_def ent_def bwd_def)
  moreover have "fwd ?h c j = (if c = b \<and> j = i then p else fwd h c j)" if "j < height h c" for c j
    using n that by (auto simp: fwd_def height_def nth_list_update)
  ultimately show thesis by (rule that)
qed

lemma set_backward_spec:
  assumes "h b \<noteq> None"
  obtains h' where "set_backward h b p = Some h'"
    "\<And>c. height h' c = height h c" "\<And>c. ent h' c = ent h c" "\<And>c j. fwd h' c j = fwd h c j"
    "\<And>c. bwd h' c = (if c = b then p else bwd h c)" "\<And>c. h' c = None \<longleftrightarrow> h c = None"
proof -
  from assms obtain n where n: "h b = Some n" by auto
  let ?h = "h(b \<mapsto> n\<lparr>backward := p\<rparr>)"
  have "set_backward h b p = Some ?h" using n by (simp add: set_backward_def)
  moreover have "height ?h c = height h c" "ent ?h c = ent h c" "fwd ?h c j = fwd h c j"
    "bwd ?h c = (if c = b then p else bwd h c)" "?h c = None \<longleftrightarrow> h c = None" for c j
    using n by (simp_all add: height_def ent_def fwd_def bwd_def)
  ultimately show thesis using that by blast
qed

lemma link_loop_spec:
  assumes "\<And>i. i < lvl \<Longrightarrow> upd ! i = Some (u i) \<and> i < height h (u i) \<and> u i \<noteq> a"
    and "lvl \<le> length upd" "height h a = lvl" "n \<le> lvl"
  shows "\<exists>h'. link_loop a upd n h = Some h' \<and> same_nodes h h' \<and>
           (\<forall>b j. j < height h b \<longrightarrow>
              fwd h' b j = (if j < n \<and> b = a then fwd h (u j) j else if j < n \<and> b = u j then Some a else fwd h b j))"
  using assms(4)
proof (induction n)
  case 0
  then show ?case by simp
next
  case (Suc i)
  then obtain h1 where h1: "link_loop a upd i h = Some h1" "same_nodes h h1"
    "\<And>b j. j < height h b \<Longrightarrow>
       fwd h1 b j = (if j < i \<and> b = a then fwd h (u j) j else if j < i \<and> b = u j then Some a else fwd h b j)"
    by auto
  have i: "i < lvl" "upd ! i = Some (u i)" "i < height h (u i)" "u i \<noteq> a" "i < length upd"
    using Suc.prems assms(1,2) by auto
  have "i < height h1 a"
    using h1(2) assms(3) i(1) by (simp add: same_nodesD)
  then obtain h2 where h2: "set_forward h1 a i (fwd h1 (u i) i) = Some h2" "same_nodes h1 h2"
    "\<And>c j. j < height h1 c \<Longrightarrow> fwd h2 c j = (if c = a \<and> j = i then fwd h1 (u i) i else fwd h1 c j)"
    using set_forward_spec by blast
  have "i < height h2 (u i)"
    using h1(2) h2(2) i(3) by (simp add: same_nodesD)
  then obtain h3 where h3: "set_forward h2 (u i) i (Some a) = Some h3" "same_nodes h2 h3"
    "\<And>c j. j < height h2 c \<Longrightarrow> fwd h3 c j = (if c = u i \<and> j = i then Some a else fwd h2 c j)"
    using set_forward_spec by blast
  have "link_loop a upd (Suc i) h = Some h3"
    using h1(1,2) h2(1) h3(1) i by (simp add: get_forward_eq same_nodesD)
  moreover have sm: "same_nodes h h3"
    using h1(2) h2(2) h3(2) by (blast intro: same_nodes_trans)
  moreover have "fwd h3 b j = (if j < Suc i \<and> b = a then fwd h (u j) j
      else if j < Suc i \<and> b = u j then Some a else fwd h b j)" if "j < height h b" for b j
    using that h1(2,3) h2(2,3) h3(3) i by (auto simp: same_nodesD less_Suc_eq)
  ultimately show ?case by blast
qed

lemma unlink_loop_spec:
  assumes "i \<le> lvl" "lvl \<le> length upd"
    and "\<And>j. j < lvl \<Longrightarrow> upd ! j = Some (u j) \<and> j < height h (u j) \<and> u j \<noteq> t"
    and "\<And>j. i \<le> j \<Longrightarrow> j < lvl \<Longrightarrow> fwd h (u j) j = Some t \<longleftrightarrow> j < height h t"
    and "height h t \<le> lvl"
  shows "\<exists>h'. unlink_loop t upd lvl i h = Some h' \<and> same_nodes h h' \<and>
           (\<forall>b j. j < height h b \<longrightarrow>
              fwd h' b j = (if i \<le> j \<and> j < height h t \<and> b = u j then fwd h t j else fwd h b j))"
  using assms
proof (induction "lvl - i" arbitrary: i h)
  case 0
  then have "unlink_loop t upd lvl i h = Some h"
    by (subst unlink_loop.simps) simp
  with 0 show ?case by auto
next
  case (Suc k)
  then have i: "i < lvl" by simp
  note ui = Suc.prems(3) [OF i]
  show ?case
  proof (cases "i < height h t")
    case False
    then have "unlink_loop t upd lvl i h = Some h"
      using ui i Suc.prems(2,4) by (subst unlink_loop.simps) (simp add: get_forward_eq)
    with False show ?thesis by auto
  next
    case True
    from ui obtain h1 where h1: "set_forward h (u i) i (fwd h t i) = Some h1" "same_nodes h h1"
      "\<And>c j. j < height h c \<Longrightarrow> fwd h1 c j = (if c = u i \<and> j = i then fwd h t i else fwd h c j)"
      using set_forward_spec by blast
    have "\<exists>h'. unlink_loop t upd lvl (Suc i) h1 = Some h' \<and> same_nodes h1 h' \<and>
        (\<forall>b j. j < height h1 b \<longrightarrow>
           fwd h' b j = (if Suc i \<le> j \<and> j < height h1 t \<and> b = u j then fwd h1 t j else fwd h1 b j))"
      using Suc.hyps(2) Suc.prems h1(2,3) i
      by (intro Suc.hyps(1)) (auto simp: same_nodesD)
    then obtain h' where h': "unlink_loop t upd lvl (Suc i) h1 = Some h'" "same_nodes h1 h'"
      "\<And>b j. j < height h1 b \<Longrightarrow>
         fwd h' b j = (if Suc i \<le> j \<and> j < height h1 t \<and> b = u j then fwd h1 t j else fwd h1 b j)"
      by blast
    have "unlink_loop t upd lvl i h = Some h'"
      using True ui i Suc.prems(2,4) h1(1) h'(1)
      by (subst unlink_loop.simps) (simp add: get_forward_eq)
    moreover have "same_nodes h h'"
      using h1(2) h'(2) by (rule same_nodes_trans)
    moreover have "fwd h' b j = (if i \<le> j \<and> j < height h t \<and> b = u j then fwd h t j else fwd h b j)"
      if j: "j < height h b" for b j
    proof -
      have hh: "height h1 c = height h c" for c using h1(2) by (simp add: same_nodesD)
      have "fwd h1 t j = fwd h t j" if "j < height h t"
        using h1(3) [OF that] ui by auto
      moreover have "fwd h1 b j = (if b = u i \<and> j = i then fwd h t i else fwd h b j)"
        using h1(3) [OF j] .
      moreover have "fwd h' b j = (if Suc i \<le> j \<and> j < height h t \<and> b = u j then fwd h1 t j else fwd h1 b j)"
        using h'(3) [of j b] j hh by simp
      ultimately show ?thesis
        using True by (cases "j = i") auto
    qed
    ultimately show ?thesis by blast
  qed
qed


section \<open>Inserting into and removing from a chain\<close>

lemma last_tall_in:
  "xs \<noteq> [] \<Longrightarrow> i < height h (hd xs) \<Longrightarrow> last_tall h i xs \<in> set xs \<and> i < height h (last_tall h i xs)"
proof -
  assume "xs \<noteq> []" "i < height h (hd xs)"
  then have "filter (\<lambda>a. i < height h a) xs \<noteq> []" by (cases xs) auto
  then have "last_tall h i xs \<in> set (filter (\<lambda>a. i < height h a) xs)"
    unfolding last_tall_def by (rule last_in_set)
  then show ?thesis by simp
qed

lemma fwd_last_tall:
  assumes "linked h (xs @ ys)" "xs \<noteq> []" "i < height h (hd xs)"
  shows "fwd h (last_tall h i xs) i = nxt h i ys"
proof -
  have "filter (\<lambda>a. i < height h a) xs \<noteq> []"
    using assms(2,3) by (cases xs) auto
  then obtain p q where "xs = p @ last_tall h i xs # q" "i < height h (last_tall h i xs)"
    "\<forall>b \<in> set q. \<not> i < height h b"
    using last_filter_split unfolding last_tall_def by blast
  then show ?thesis
    using linkedD [of h p "last_tall h i xs" "q @ ys" i] assms(1) nxt_append_low
    by (metis append.assoc append_Cons)
qed

lemma last_tall_eq:
  assumes "xs = p @ b # q" "distinct xs" "i < height h b"
  shows "last_tall h i xs = b \<longleftrightarrow> nxt h i q = None"
  using last_filter_unique [OF assms(1,2), of "\<lambda>a. i < height h a"] assms(3)
  by (simp add: last_tall_def nxt_None)

lemma linked_insert:
  assumes lnk: "linked h (xs @ ys)" and dist: "distinct (xs @ a # ys)"
    and hs: "\<And>b. b \<in> set (xs @ ys) \<Longrightarrow> height h' b = height h b" and ha: "height h' a = lvl"
    and fa: "\<And>j. j < lvl \<Longrightarrow> fwd h' a j = nxt h j ys"
    and fb: "\<And>b j. b \<in> set (xs @ ys) \<Longrightarrow> j < height h b \<Longrightarrow>
        fwd h' b j = (if j < lvl \<and> b \<in> set xs \<and> b = last_tall h j xs then Some a else fwd h b j)"
  shows "linked h' (xs @ a # ys)"
proof -
  have nx: "nxt h' i zs = nxt h i zs" if "set zs \<subseteq> set (xs @ ys)" for i zs
    using hs that by (auto intro: nxt_cong)
  have "fwd h' b i = nxt h' i q" if eq: "xs @ a # ys = p @ b # q" and i: "i < height h' b" for p b q i
    using eq
  proof (cases rule: append_Cons_eq_cases)
    case (1 q')
    then have b: "b \<in> set xs" "i < height h b" using i hs by auto
    have f: "fwd h b i = nxt h i (q' @ ys)"
      using lnk b(2) 1(1) by (auto intro: linkedD)
    have lt: "last_tall h i xs = b \<longleftrightarrow> nxt h i q' = None"
      using 1(1) dist b(2) by (intro last_tall_eq) auto
    have "nxt h' i q = (case nxt h i q' of None \<Rightarrow> if i < lvl then Some a else nxt h i ys | Some x \<Rightarrow> Some x)"
    proof -
      have "nxt h' i q' = nxt h i q'" and "nxt h' i ys = nxt h i ys"
        using 1(1) by (auto intro!: nx)
      then show ?thesis
        using 1(2) ha by (simp add: nxt_append split: option.split)
    qed
    moreover have "fwd h' b i = (if i < lvl \<and> nxt h i q' = None then Some a else fwd h b i)"
      using fb [of b i] b lt by auto
    ultimately show ?thesis
      using f by (cases "nxt h i q'") (simp_all add: nxt_append)
  next
    case (2 p')
    show ?thesis
    proof (cases p')
      case Nil
      with 2(2) have "b = a" "q = ys" by simp_all
      with fa i ha nx [of ys] show ?thesis by simp
    next
      case (Cons x p'')
      with 2(2) have 2: "ys = p'' @ b # q" by simp
      then have b: "b \<in> set ys" "b \<notin> set xs" "i < height h b" using i hs dist by auto
      have "fwd h b i = nxt h i q"
        using lnk b(3) 2 linkedD [of h "xs @ p''" b q i] by simp
      moreover have "nxt h' i q = nxt h i q"
        using 2 by (intro nx) auto
      ultimately show ?thesis
        using fb [of b i] b by auto
    qed
  qed
  then show ?thesis by (auto simp: linked_def)
qed

lemma linked_remove:
  assumes lnk: "linked h (xs @ t # ys)" and dist: "distinct (xs @ t # ys)"
    and hs: "\<And>b. height h' b = height h b"
    and fb: "\<And>b j. j < height h b \<Longrightarrow>
        fwd h' b j = (if j < height h t \<and> b = last_tall h j xs then fwd h t j else fwd h b j)"
    and ne: "xs \<noteq> []" and tall: "height h t \<le> height h (hd xs)"
  shows "linked h' (xs @ ys)"
proof -
  have nx: "nxt h' i zs = nxt h i zs" for i zs
    using hs by (auto intro: nxt_cong)
  have ft: "fwd h t j = nxt h j ys" if "j < height h t" for j
    using linkedD [OF lnk that] .
  have "fwd h' b i = nxt h' i q" if eq: "xs @ ys = p @ b # q" and i: "i < height h' b" for p b q i
    using eq
  proof (cases rule: append_Cons_eq_cases)
    case (1 q')
    then have b: "i < height h b" using i hs by auto
    have f: "fwd h b i = nxt h i (q' @ t # ys)"
      using lnk b 1(1) by (auto intro: linkedD)
    have lt: "last_tall h i xs = b \<longleftrightarrow> nxt h i q' = None"
      using 1(1) dist b by (intro last_tall_eq) auto
    have "fwd h' b i = (if i < height h t \<and> nxt h i q' = None then fwd h t i else fwd h b i)"
      using fb [OF b] lt by auto
    then show ?thesis
      using f ft [of i] 1(2) nx by (cases "nxt h i q'") (simp_all add: nxt_append)
  next
    case (2 p')
    then have b: "i < height h b" "b \<in> set ys" using i hs by auto
    have "b \<noteq> last_tall h i xs" if "i < height h t"
      using last_tall_in [OF ne, of i h] tall that dist b(2) by auto
    then show ?thesis
      using fb [OF b(1)] linkedD [of h "xs @ t # p'" b q i] lnk b(1) 2 nx by auto
  qed
  then show ?thesis by (auto simp: linked_def)
qed

lemma backs_append:
  "backs h prev (xs @ ys) \<longleftrightarrow> backs h prev xs \<and> backs h (if xs = [] then prev else Some (last xs)) ys"
  by (induction xs arbitrary: prev) auto

lemma backs_cong: "(\<And>a. a \<in> set xs \<Longrightarrow> bwd h' a = bwd h a) \<Longrightarrow> backs h' prev xs = backs h prev xs"
  by (induction xs arbitrary: prev) auto

section \<open>The order on entries\<close>

fun ent_less :: "float64 \<times> string \<Rightarrow> float64 \<times> string \<Rightarrow> bool" where
  "ent_less (s1, m1) (s2, m2) = less_sl s1 m1 s2 m2"

lemma less_sl_key:
  "\<not> f64_isNaN s1 \<Longrightarrow> \<not> f64_isNaN s2 \<Longrightarrow>
     less_sl s1 m1 s2 m2 \<longleftrightarrow> f64_key s1 < f64_key s2 \<or> f64_key s1 = f64_key s2 \<and> m1 < m2"
  by (auto simp: less_sl_def f64_eq_def f64_lt_def)

lemma ent_less_irrefl: "\<not> ent_less e e"
  by (cases e) (auto simp: less_sl_def f64_lt_def)

lemma ent_less_trans:
  "\<not> f64_isNaN (fst a) \<Longrightarrow> \<not> f64_isNaN (fst b) \<Longrightarrow> \<not> f64_isNaN (fst c) \<Longrightarrow>
     ent_less a b \<Longrightarrow> ent_less b c \<Longrightarrow> ent_less a c"
  by (cases a; cases b; cases c) (auto simp: less_sl_key)

lemma ent_less_total:
  "\<not> f64_isNaN (fst a) \<Longrightarrow> \<not> f64_isNaN (fst b) \<Longrightarrow> snd a \<noteq> snd b \<Longrightarrow> ent_less a b \<or> ent_less b a"
  by (cases a; cases b) (auto simp: less_sl_key)

lemma below_ent_less: "below h s m a \<longleftrightarrow> ent_less (ent h a) (s, m)"
  by (cases "ent h a") (simp add: below_def)


section \<open>The invariant\<close>

definition swap_entry :: "float64 \<times> string \<Rightarrow> string \<times> float64" where
  "swap_entry e = (snd e, fst e)"

text \<open>What a list of entries satisfies: ordered, no score a NaN, no member twice.\<close>

definition entries_ok :: "(float64 \<times> string) list \<Rightarrow> bool" where
  "entries_ok es \<longleftrightarrow> sorted_wrt ent_less es \<and> (\<forall>e \<in> set es. \<not> f64_isNaN (fst e)) \<and> distinct (map snd es)"

definition chain_ok :: "heap \<Rightarrow> nat \<Rightarrow> nat \<Rightarrow> nat option \<Rightarrow> nat \<Rightarrow> nat list \<Rightarrow> bool" where
  "chain_ok h hdr lvl tail nextaddr ns \<longleftrightarrow>
     linked h (hdr # ns) \<and> distinct (hdr # ns) \<and> height h hdr = maxLevel \<and>
     1 \<le> lvl \<and> lvl \<le> maxLevel \<and> (\<forall>a \<in> set ns. 1 \<le> height h a \<and> height h a \<le> lvl) \<and>
     backs h None ns \<and> tail = (if ns = [] then None else Some (last ns)) \<and>
     (\<forall>a \<in> set (hdr # ns). a < nextaddr)"

definition sl_inv :: "skipList \<Rightarrow> nat list \<Rightarrow> bool" where
  "sl_inv sl ns \<longleftrightarrow>
     chain_ok (sl_heap sl) (sl_header sl) (sl_level sl) (sl_tail sl) (sl_next sl) ns \<and>
     entries_ok (map (ent (sl_heap sl)) ns) \<and>
     sl_length sl = length ns \<and>
     sl_dict sl = map_of (map swap_entry (map (ent (sl_heap sl)) ns))"

text \<open>The abstraction relation: a skip list represents a list of entries.\<close>

definition sl_repr :: "skipList \<Rightarrow> (float64 \<times> string) list \<Rightarrow> bool" where
  "sl_repr sl es \<longleftrightarrow> (\<exists>ns. sl_inv sl ns \<and> es = map (ent (sl_heap sl)) ns)"

lemma chain_okD:
  assumes "chain_ok h hdr lvl tail nextaddr ns"
  shows "linked h (hdr # ns)" "distinct (hdr # ns)" "height h hdr = maxLevel" "1 \<le> lvl" "lvl \<le> maxLevel"
    "\<And>a. a \<in> set ns \<Longrightarrow> 1 \<le> height h a \<and> height h a \<le> lvl"
    "backs h None ns" "tail = (if ns = [] then None else Some (last ns))"
    "\<And>a. a \<in> set (hdr # ns) \<Longrightarrow> a < nextaddr"
  using assms by (auto simp: chain_ok_def)

lemma random_level_loop_bounds:
  "lvl \<le> maxLevel \<Longrightarrow> lvl \<le> random_level_loop coin k lvl \<and> random_level_loop coin k lvl \<le> maxLevel"
proof (induction coin k lvl rule: random_level_loop.induct)
  case (1 coin k lvl)
  then show ?case
    by (cases "coin k \<and> lvl < maxLevel") (auto simp: random_level_loop.simps [of coin k lvl])
qed

lemma randomLevel_bounds: "1 \<le> randomLevel coin" "randomLevel coin \<le> maxLevel"
  using random_level_loop_bounds [of 1 coin 0] by (simp_all add: randomLevel_def maxLevel_def)

lemma map_of_swap_Some:
  "distinct (map snd es) \<Longrightarrow> map_of (map swap_entry es) m = Some s \<longleftrightarrow> (s, m) \<in> set es"
proof -
  assume "distinct (map snd es)"
  moreover have "map fst (map swap_entry es) = map snd es"
    by (simp add: swap_entry_def)
  ultimately have "distinct (map fst (map swap_entry es))"
    by (simp only:)
  then have "map_of (map swap_entry es) m = Some s \<longleftrightarrow> (m, s) \<in> set (map swap_entry es)"
    by (rule map_of_eq_Some_iff)
  then show ?thesis by (force simp: swap_entry_def)
qed

lemma map_of_swap_None: "map_of (map swap_entry es) m = None \<longleftrightarrow> m \<notin> snd ` set es"
  by (force simp: map_of_eq_None_iff swap_entry_def)

lemma map_of_swap_insert:
  "m \<notin> snd ` set xs \<Longrightarrow>
     map_of (map swap_entry (xs @ (s, m) # ys)) = (map_of (map swap_entry (xs @ ys)))(m \<mapsto> s)"
  by (induction xs) (auto simp: swap_entry_def fun_upd_twist)

lemma sl_inv_newSkipList: "sl_inv newSkipList []"
  by (simp add: sl_inv_def chain_ok_def newSkipList_def linked_def height_def fwd_def entries_ok_def
      Cons_eq_append_conv maxLevel_def)

section \<open>Reference operations\<close>

fun insert_entry :: "float64 \<times> string \<Rightarrow> (float64 \<times> string) list \<Rightarrow> (float64 \<times> string) list" where
  "insert_entry e [] = [e]"
| "insert_entry e (x # xs) = (if ent_less x e then x # insert_entry e xs else e # x # xs)"

definition spec_delete :: "string \<Rightarrow> (float64 \<times> string) list \<Rightarrow> (float64 \<times> string) list" where
  "spec_delete m es = filter (\<lambda>e. snd e \<noteq> m) es"

definition spec_insert :: "float64 \<Rightarrow> string \<Rightarrow> (float64 \<times> string) list \<Rightarrow> (float64 \<times> string) list" where
  "spec_insert s m es =
     (if \<exists>e \<in> set es. snd e = m \<and> f64_eq (fst e) s then es else insert_entry (s, m) (spec_delete m es))"

lemma insert_entry_eq:
  "insert_entry e es = takeWhile (\<lambda>x. ent_less x e) es @ e # dropWhile (\<lambda>x. ent_less x e) es"
  by (induction es) auto

lemma spec_delete_absent: "m \<notin> snd ` set es \<Longrightarrow> spec_delete m es = es"
  by (auto simp: spec_delete_def intro: filter_True)

lemma entries_ok_split:
  assumes "entries_ok (xs @ e # ys)"
  shows "entries_ok (xs @ ys)" "spec_delete (snd e) (xs @ e # ys) = xs @ ys"
proof -
  show "entries_ok (xs @ ys)"
    using assms by (auto simp: entries_ok_def sorted_wrt_append)
  have "snd e \<notin> snd ` set xs" "snd e \<notin> snd ` set ys"
    using assms by (auto simp: entries_ok_def)
  then have "spec_delete (snd e) xs = xs" "spec_delete (snd e) ys = ys"
    using spec_delete_absent by blast+
  then show "spec_delete (snd e) (xs @ e # ys) = xs @ ys"
    by (simp add: spec_delete_def)
qed

lemma dropWhile_not_less:
  assumes "entries_ok es" "\<not> f64_isNaN (fst e)" "x \<in> set (dropWhile (\<lambda>x. ent_less x e) es)"
  shows "\<not> ent_less x e"
proof -
  let ?hi = "dropWhile (\<lambda>x. ent_less x e) es"
  obtain y ys where hi: "?hi = y # ys" using assms(3) by (cases ?hi) auto
  have y: "\<not> ent_less y e" using hi by (metis hd_dropWhile list.sel(1) list.distinct(1))
  have "set ?hi \<subseteq> set es" by (auto dest: set_dropWhileD)
  then have nan: "\<not> f64_isNaN (fst z)" if "z \<in> set ?hi" for z
    using assms(1) that by (auto simp: entries_ok_def)
  have "sorted_wrt ent_less ?hi"
    using assms(1) sorted_wrt_append [of ent_less "takeWhile (\<lambda>x. ent_less x e) es" ?hi]
    by (simp add: entries_ok_def)
  then have "x = y \<or> ent_less y x"
    using assms(3) by (auto simp: hi)
  then show ?thesis
    using y ent_less_trans [of y x e] nan assms(2,3) by (auto simp: hi)
qed

lemma entries_ok_insert:
  assumes "entries_ok es" "\<not> f64_isNaN s" "m \<notin> snd ` set es"
  shows "entries_ok (insert_entry (s, m) es)"
proof -
  let ?P = "\<lambda>x. ent_less x (s, m)"
  let ?lo = "takeWhile ?P es" and ?hi = "dropWhile ?P es"
  have split: "es = ?lo @ ?hi" by simp
  have lo: "ent_less x (s, m)" if "x \<in> set ?lo" for x
    using that by (auto dest: set_takeWhileD)
  have hi: "ent_less (s, m) x" if x: "x \<in> set ?hi" for x
  proof -
    have "x \<in> set es" using x by (rule set_dropWhileD)
    then have "\<not> f64_isNaN (fst x)" "snd x \<noteq> m"
      using assms(1,3) by (auto simp: entries_ok_def)
    then show ?thesis
      using dropWhile_not_less [OF assms(1) _ x] ent_less_total [of x "(s, m)"] assms(2) by simp
  qed
  have "sorted_wrt ent_less (?lo @ (s, m) # ?hi)"
    using assms(1) lo hi by (intro sorted_wrt_insert_mid) (simp_all add: entries_ok_def)
  moreover have "distinct (map snd (?lo @ (s, m) # ?hi))"
    using assms(1,3) by (intro distinct_map_insert_mid) (simp_all add: entries_ok_def)
  moreover have "\<forall>e \<in> set (?lo @ (s, m) # ?hi). \<not> f64_isNaN (fst e)"
    using assms(1,2) by (auto simp: entries_ok_def dest: set_takeWhileD set_dropWhileD)
  ultimately show ?thesis
    by (simp only: entries_ok_def insert_entry_eq)
qed


section \<open>Insertion\<close>

lemma search_path:
  assumes ok: "chain_ok h hdr lvl tail nextaddr (lo @ hi)"
    and "\<forall>a \<in> set lo. below h s m a" "\<forall>a \<in> set hi. \<not> below h s m a"
  obtains upd where "descend h s m lvl hdr (replicate maxLevel None) = Some (last_tall h 0 (hdr # lo), upd)"
    "length upd = maxLevel" "\<And>i. i < lvl \<Longrightarrow> upd ! i = Some (last_tall h i (hdr # lo))"
proof -
  note c = chain_okD [OF ok]
  have "\<exists>upd'. descend h s m lvl hdr (replicate maxLevel None) =
        Some (if lvl = 0 then hdr else last_tall h 0 (hdr # lo), upd') \<and>
      length upd' = length (replicate maxLevel (None :: nat option)) \<and>
      (\<forall>i < lvl. upd' ! i = Some (last_tall h i (hdr # lo))) \<and>
      (\<forall>i. lvl \<le> i \<longrightarrow> upd' ! i = replicate maxLevel None ! i)"
    using c assms(2,3) by (intro descend_linked [where p = "[]" and q = lo and hi = hi]) auto
  with c(4) that show thesis by auto
qed

lemma last_tall_header:
  assumes "\<forall>a \<in> set lo. height h a \<le> i" "i < height h hdr"
  shows "last_tall h i (hdr # lo) = hdr"
  using assms by (auto simp: last_tall_def filter_empty_conv)

lemma link_node:
  assumes ok: "chain_ok h hdr lvl tail a (lo @ hi)"
    and l: "1 \<le> l" "l \<le> maxLevel" and len: "length upd = maxLevel"
    and upd: "\<And>i. i < l \<Longrightarrow> upd ! i = Some (last_tall h i (hdr # lo))"
  obtains h1 where "link_loop a upd l (h(a \<mapsto> n\<lparr>forward := replicate l None, backward := None\<rparr>)) = Some h1"
    "linked h1 (hdr # lo @ a # hi)" "height h1 a = l" "ent h1 a = (nscore n, nmember n)"
    "fwd h1 a 0 = nxt h 0 hi" "h1 a \<noteq> None"
    "\<And>b. b \<noteq> a \<Longrightarrow> height h1 b = height h b \<and> ent h1 b = ent h b \<and> bwd h1 b = bwd h b"
proof -
  note c = chain_okD [OF ok]
  let ?xs = "hdr # lo"
  let ?n = "n\<lparr>forward := replicate l None, backward := None\<rparr>"
  let ?h0 = "h(a \<mapsto> ?n)"
  let ?u = "\<lambda>i. last_tall h i ?xs"
  have fresh: "a \<notin> set (hdr # lo @ hi)" using c(9) by auto
  have old: "height ?h0 b = height h b" "ent ?h0 b = ent h b" "bwd ?h0 b = bwd h b" "fwd ?h0 b j = fwd h b j"
    if "b \<noteq> a" for b j
    using that by (simp_all add: height_def ent_def bwd_def fwd_def)
  have ha: "height ?h0 a = l" "ent ?h0 a = (nscore n, nmember n)"
    by (simp_all add: height_def ent_def)
  have u: "?u i \<in> set ?xs" "i < height h (?u i)" "?u i \<noteq> a" if "i < l" for i
    using last_tall_in [of ?xs i h] that l(2) c(3) fresh by auto
  have "\<exists>h'. link_loop a upd l ?h0 = Some h' \<and> same_nodes ?h0 h' \<and>
         (\<forall>b j. j < height ?h0 b \<longrightarrow> fwd h' b j =
            (if j < l \<and> b = a then fwd ?h0 (?u j) j else if j < l \<and> b = ?u j then Some a else fwd ?h0 b j))"
    using u upd old(1) ha(1) len l(2) by (intro link_loop_spec [where lvl = l]) auto
  then obtain h1 where h1: "link_loop a upd l ?h0 = Some h1" "same_nodes ?h0 h1"
    "\<And>b j. j < height ?h0 b \<Longrightarrow> fwd h1 b j =
       (if j < l \<and> b = a then fwd ?h0 (?u j) j else if j < l \<and> b = ?u j then Some a else fwd ?h0 b j)"
    by blast
  have fa: "fwd h1 a j = nxt h j hi" if "j < l" for j
    using h1(3) [of j a] ha(1) that u(3) [OF that] old(4) fwd_last_tall [of h ?xs hi j] c(1,3) l(2) by simp
  have hb: "height h1 b = height h b" if "b \<in> set (?xs @ hi)" for b
  proof -
    have "b \<noteq> a" using that fresh by auto
    then show ?thesis using h1(2) old(1) by (simp add: same_nodesD)
  qed
  have "linked h1 (?xs @ a # hi)"
  proof (rule linked_insert [where h = h and lvl = l])
    show "fwd h1 b j = (if j < l \<and> b \<in> set ?xs \<and> b = last_tall h j ?xs then Some a else fwd h b j)"
      if "b \<in> set (?xs @ hi)" "j < height h b" for b j
    proof -
      have "b \<noteq> a" using that(1) fresh by auto
      then show ?thesis
        using h1(3) [of j b] that(2) old u(1) [of j] by auto
    qed
  qed (use c(1,2) fresh h1(2) hb ha(1) fa in \<open>auto simp: same_nodesD\<close>)
  moreover have "h1 a \<noteq> None"
    using h1(2) by (simp add: same_nodes_def)
  ultimately show thesis
    using that [OF h1(1)] h1(2) ha old fa [of 0] l(1) by (simp add: same_nodesD)
qed

lemma nxt_0: "(\<And>a. a \<in> set xs \<Longrightarrow> 1 \<le> height h a) \<Longrightarrow> nxt h 0 xs = (case xs of [] \<Rightarrow> None | a # _ \<Rightarrow> Some a)"
  by (cases xs) (auto simp: Suc_le_eq)


lemma last_tall_0:
  assumes "\<And>a. a \<in> set (hdr # lo) \<Longrightarrow> 1 \<le> height h a"
  shows "last_tall h 0 (hdr # lo) = last (hdr # lo)"
proof -
  have "filter (\<lambda>a. 0 < height h a) (hdr # lo) = hdr # lo"
    using assms by (intro filter_True) (auto simp: Suc_le_eq)
  then show ?thesis by (simp add: last_tall_def del: filter.simps)
qed

lemma chain_ok_insert:
  assumes ok: "chain_ok h hdr lvl tail a (lo @ hi)"
    and lnk: "linked h' (hdr # lo @ a # hi)" and l: "1 \<le> l" "l \<le> maxLevel" "height h' a = l"
    and old: "\<And>b. b \<noteq> a \<Longrightarrow> height h' b = height h b"
    and bw: "\<And>b. bwd h' b = (if b = a then (if lo = [] then None else Some (last lo))
          else if hi \<noteq> [] \<and> b = hd hi then Some a else bwd h b)"
    and tail': "tail' = (if hi = [] then Some a else tail)"
  shows "chain_ok h' hdr (if lvl < l then l else lvl) tail' (a + 1) (lo @ a # hi)"
proof -
  note c = chain_okD [OF ok]
  have fresh: "a \<notin> set (hdr # lo @ hi)" using c(9) by auto
  have "backs h' None (lo @ a # hi)"
  proof -
    have "bwd h' b = bwd h b" if "b \<in> set lo" for b
      using bw [of b] that fresh c(2) by (cases hi) auto
    then have "backs h' None lo" using c(7) backs_cong [of lo h' h] by (simp add: backs_append)
    moreover have "backs h' (Some a) hi"
    proof (cases hi)
      case (Cons b bs)
      then have "backs h (Some b) bs" using c(7) by (simp add: backs_append)
      moreover have "bwd h' x = bwd h x" if "x \<in> set bs" for x
        using bw [of x] that fresh c(2) Cons by auto
      ultimately show ?thesis
        using Cons bw [of b] fresh backs_cong [of bs h' h] by auto
    qed simp
    ultimately show ?thesis
      using bw [of a] by (simp add: backs_append)
  qed
  moreover have "1 \<le> height h' b \<and> height h' b \<le> (if lvl < l then l else lvl)" if "b \<in> set (lo @ a # hi)" for b
    using that c(6) [of b] old [of b] l(1,3) by (cases "b = a") auto
  moreover have "x < a + 1" if "x \<in> set (hdr # lo @ a # hi)" for x
    using that c(9) [of x] by auto
  moreover have "height h' hdr = maxLevel" using old [of hdr] c(3) fresh by auto
  ultimately show ?thesis
    using lnk c(2,4,5) l(1,2) fresh c(8) tail' by (auto simp: chain_ok_def)
qed

lemma descend_sl:
  assumes "sl_inv sl ns" "\<not> f64_isNaN score"
  obtains lo hi upd where "ns = lo @ hi"
    "map (ent (sl_heap sl)) lo = takeWhile (\<lambda>x. ent_less x (score, member)) (map (ent (sl_heap sl)) ns)"
    "map (ent (sl_heap sl)) hi = dropWhile (\<lambda>x. ent_less x (score, member)) (map (ent (sl_heap sl)) ns)"
    "descend (sl_heap sl) score member (sl_level sl) (sl_header sl) (replicate maxLevel None) =
       Some (last_tall (sl_heap sl) 0 (sl_header sl # lo), upd)"
    "length upd = maxLevel"
    "\<And>i. i < sl_level sl \<Longrightarrow> upd ! i = Some (last_tall (sl_heap sl) i (sl_header sl # lo))"
proof -
  let ?h = "sl_heap sl" and ?e = "(score, member)"
  let ?P = "below ?h score member"
  have P: "?P = (\<lambda>x. ent_less x ?e) \<circ> ent ?h"
    by (simp add: fun_eq_iff below_ent_less)
  have lo: "map (ent ?h) (takeWhile ?P ns) = takeWhile (\<lambda>x. ent_less x ?e) (map (ent ?h) ns)"
    and hi: "map (ent ?h) (dropWhile ?P ns) = dropWhile (\<lambda>x. ent_less x ?e) (map (ent ?h) ns)"
    by (simp_all add: P takeWhile_map dropWhile_map)
  have "chain_ok ?h (sl_header sl) (sl_level sl) (sl_tail sl) (sl_next sl) (takeWhile ?P ns @ dropWhile ?P ns)"
    using assms(1) by (simp add: sl_inv_def)
  moreover have "\<forall>a \<in> set (takeWhile ?P ns). ?P a"
    by (auto dest: set_takeWhileD)
  moreover have "\<forall>a \<in> set (dropWhile ?P ns). \<not> ?P a"
  proof
    fix a assume "a \<in> set (dropWhile ?P ns)"
    then have "ent ?h a \<in> set (dropWhile (\<lambda>x. ent_less x ?e) (map (ent ?h) ns))"
      unfolding hi [symmetric] by simp
    moreover have "entries_ok (map (ent ?h) ns)" using assms(1) unfolding sl_inv_def by blast
    ultimately have "\<not> ent_less (ent ?h a) ?e"
      using assms(2) by (intro dropWhile_not_less) simp_all
    then show "\<not> ?P a" unfolding below_ent_less .
  qed
  ultimately obtain upd where
    "descend ?h score member (sl_level sl) (sl_header sl) (replicate maxLevel None) =
       Some (last_tall ?h 0 (sl_header sl # takeWhile ?P ns), upd)"
    "length upd = maxLevel"
    "\<And>i. i < sl_level sl \<Longrightarrow> upd ! i = Some (last_tall ?h i (sl_header sl # takeWhile ?P ns))"
    by (rule search_path) blast
  with lo hi show thesis
    by (intro that [of "takeWhile ?P ns" "dropWhile ?P ns"]) simp_all
qed


lemma fill_header_nth:
  "i < length upd \<Longrightarrow> fill_header hdr from to upd ! i = (if from \<le> i \<and> i < to then Some hdr else upd ! i)"
  "length (fill_header hdr from to upd) = length upd"
  by (simp_all add: fill_header_def)

lemma update_entries:
  assumes ok: "chain_ok h hdr lvl tail a (lo @ hi)" and l: "l \<le> maxLevel" and len: "length upd0 = maxLevel"
    and upd0: "\<And>i. i < lvl \<Longrightarrow> upd0 ! i = Some (last_tall h i (hdr # lo))" and i: "i < l"
  shows "(if lvl < l then fill_header hdr lvl l upd0 else upd0) ! i = Some (last_tall h i (hdr # lo))"
proof (cases "i < lvl")
  case True
  with i l len upd0 show ?thesis by (simp add: fill_header_nth)
next
  case False
  note c = chain_okD [OF ok]
  have "last_tall h i (hdr # lo) = hdr"
    using False c(3,6) i l by (intro last_tall_header) force+
  with False i l len show ?thesis by (simp add: fill_header_nth)
qed

text \<open>The two backward pointers that an insertion changes.\<close>

lemma set_back_insert:
  assumes "h1 a \<noteq> None" "\<And>b. b \<in> set hi \<Longrightarrow> h1 b \<noteq> None" "a \<notin> set hi"
    and f0: "fwd h1 a 0 = (case hi of [] \<Rightarrow> None | b # _ \<Rightarrow> Some b)" and ha: "0 < height h1 a"
  obtains h3 where
    "splice_back h1 a p tail = Some (h3, if hi = [] then Some a else tail)"
    "\<And>b. height h3 b = height h1 b" "\<And>b. ent h3 b = ent h1 b" "\<And>b j. fwd h3 b j = fwd h1 b j"
    "\<And>b. bwd h3 b = (if b = a then p else if hi \<noteq> [] \<and> b = hd hi then Some a else bwd h1 b)"
proof -
  obtain h2 where h2: "set_backward h1 a p = Some h2" "\<And>c. height h2 c = height h1 c"
    "\<And>c. ent h2 c = ent h1 c" "\<And>c j. fwd h2 c j = fwd h1 c j"
    "\<And>c. bwd h2 c = (if c = a then p else bwd h1 c)" "\<And>c. h2 c = None \<longleftrightarrow> h1 c = None"
    using set_backward_spec [of h1 a p] assms(1) by blast
  show thesis
  proof (cases hi)
    case Nil
    with h2 f0 ha show ?thesis by (intro that [of h2]) (simp_all add: splice_back_def get_forward_eq)
  next
    case (Cons b bs)
    have "h2 b \<noteq> None" using assms(2) h2(6) Cons by simp
    then obtain h3 where h3: "set_backward h2 b (Some a) = Some h3" "\<And>c. height h3 c = height h2 c"
      "\<And>c. ent h3 c = ent h2 c" "\<And>c j. fwd h3 c j = fwd h2 c j"
      "\<And>c. bwd h3 c = (if c = b then Some a else bwd h2 c)" "\<And>c. h3 c = None \<longleftrightarrow> h2 c = None"
      using set_backward_spec [of h2 b "Some a"] by blast
    with h2 f0 ha Cons assms(3) show ?thesis
      by (intro that [of h3]) (auto simp: splice_back_def get_forward_eq)
  qed
qed

lemma insert_new_heap:
  assumes inv: "sl_inv sl ns" and nan: "\<not> f64_isNaN score"
  obtains lo hi h3 where "ns = lo @ hi"
    "map (ent (sl_heap sl)) lo = takeWhile (\<lambda>x. ent_less x (score, member)) (map (ent (sl_heap sl)) ns)"
    "map (ent (sl_heap sl)) hi = dropWhile (\<lambda>x. ent_less x (score, member)) (map (ent (sl_heap sl)) ns)"
    "insert_new coin score member sl =
       Some (sl\<lparr>sl_heap := h3, sl_tail := if hi = [] then Some (sl_next sl) else sl_tail sl,
          sl_level := if sl_level sl < randomLevel coin then randomLevel coin else sl_level sl,
          sl_length := sl_length sl + 1, sl_dict := (sl_dict sl)(member \<mapsto> score), sl_next := sl_next sl + 1\<rparr>)"
    "chain_ok h3 (sl_header sl) (if sl_level sl < randomLevel coin then randomLevel coin else sl_level sl)
       (if hi = [] then Some (sl_next sl) else sl_tail sl) (sl_next sl + 1) (lo @ sl_next sl # hi)"
    "ent h3 (sl_next sl) = (score, member)" "\<And>b. b \<noteq> sl_next sl \<Longrightarrow> ent h3 b = ent (sl_heap sl) b"
proof -
  let ?h = "sl_heap sl" and ?hdr = "sl_header sl" and ?a = "sl_next sl" and ?l = "randomLevel coin"
  let ?n = "\<lparr>nscore = score, nmember = member, forward = replicate ?l None, backward = None\<rparr>"
  obtain lo hi upd0 where ns: "ns = lo @ hi"
    and lo: "map (ent ?h) lo = takeWhile (\<lambda>x. ent_less x (score, member)) (map (ent ?h) ns)"
    and hi: "map (ent ?h) hi = dropWhile (\<lambda>x. ent_less x (score, member)) (map (ent ?h) ns)"
    and d: "descend ?h score member (sl_level sl) ?hdr (replicate maxLevel None) = Some (last_tall ?h 0 (?hdr # lo), upd0)"
    and len: "length upd0 = maxLevel"
    and upd0: "\<And>i. i < sl_level sl \<Longrightarrow> upd0 ! i = Some (last_tall ?h i (?hdr # lo))"
    using descend_sl [OF inv nan, of member] by blast
  have ok: "chain_ok ?h ?hdr (sl_level sl) (sl_tail sl) ?a (lo @ hi)"
    using inv by (simp add: sl_inv_def ns)
  note c = chain_okD [OF ok] and l = randomLevel_bounds [of coin]
  let ?upd = "if sl_level sl < ?l then fill_header ?hdr (sl_level sl) ?l upd0 else upd0"
  let ?u0 = "last_tall ?h 0 (?hdr # lo)"
  have upd: "?upd ! i = Some (last_tall ?h i (?hdr # lo))" if "i < ?l" for i
    using ok l(2) len upd0 that by (rule update_entries)
  have len': "length ?upd = maxLevel" using len by (simp add: fill_header_nth)
  obtain h1 where h1: "link_loop ?a ?upd ?l (?h(?a \<mapsto> ?n)) = Some h1" "linked h1 (?hdr # lo @ ?a # hi)"
    "height h1 ?a = ?l" "ent h1 ?a = (score, member)" "fwd h1 ?a 0 = nxt ?h 0 hi" "h1 ?a \<noteq> None"
    "\<And>b. b \<noteq> ?a \<Longrightarrow> height h1 b = height ?h b \<and> ent h1 b = ent ?h b \<and> bwd h1 b = bwd ?h b"
    using link_node [OF ok l len' upd, of ?n] by auto
  have fresh: "?a \<notin> set (?hdr # lo @ hi)" using c(9) by auto
  have u0: "(if ?u0 = ?hdr then None else Some ?u0) = (if lo = [] then None else Some (last lo))"
  proof -
    have "?u0 = last (?hdr # lo)"
      using c(3,6) by (intro last_tall_0) (auto simp: maxLevel_def)
    moreover have "last lo \<noteq> ?hdr" if "lo \<noteq> []"
      using last_in_set [OF that] c(2) by force
    ultimately show ?thesis by simp
  qed
  have f0: "fwd h1 ?a 0 = (case hi of [] \<Rightarrow> None | b # _ \<Rightarrow> Some b)"
    using h1(5) c(6) by (simp add: nxt_0)
  have dom: "h1 b \<noteq> None" if "b \<in> set hi" for b
  proof -
    have "b \<noteq> ?a" using that fresh by auto
    then have "0 < height h1 b" using c(6) [of b] that h1(7) [of b] by auto
    then show ?thesis using height_pos_Some by force
  qed
  have pos: "0 < height h1 ?a" using h1(3) l(1) by simp
  obtain h3 where h3:
    "splice_back h1 ?a (if ?u0 = ?hdr then None else Some ?u0) (sl_tail sl) = Some (h3, if hi = [] then Some ?a else sl_tail sl)"
    "\<And>b. height h3 b = height h1 b" "\<And>b. ent h3 b = ent h1 b" "\<And>b j. fwd h3 b j = fwd h1 b j"
    "\<And>b. bwd h3 b = (if b = ?a then (if ?u0 = ?hdr then None else Some ?u0)
        else if hi \<noteq> [] \<and> b = hd hi then Some ?a else bwd h1 b)"
    using set_back_insert [OF h1(6) dom _ f0 pos, where tail = "sl_tail sl" and p = "if ?u0 = ?hdr then None else Some ?u0"]
      fresh by auto
  show thesis
  proof (rule that [of lo hi h3, OF ns lo hi])
    show "chain_ok h3 ?hdr (if sl_level sl < ?l then ?l else sl_level sl)
       (if hi = [] then Some ?a else sl_tail sl) (?a + 1) (lo @ ?a # hi)"
    proof (rule chain_ok_insert [OF ok])
      show "linked h3 (?hdr # lo @ ?a # hi)"
        using h1(2) h3(2,4) by (simp add: linked_def nxt_cong [of _ h3 h1])
    qed (use l h1(3,7) h3(2,5) u0 in auto)
    show "insert_new coin score member sl =
       Some (sl\<lparr>sl_heap := h3, sl_tail := if hi = [] then Some (sl_next sl) else sl_tail sl,
          sl_level := if sl_level sl < randomLevel coin then randomLevel coin else sl_level sl,
          sl_length := sl_length sl + 1, sl_dict := (sl_dict sl)(member \<mapsto> score), sl_next := sl_next sl + 1\<rparr>)"
    proof -
      have "(if 0 < length ?upd then ?upd ! 0 else None) = Some ?u0"
        using upd [of 0] l(1) len' by (simp add: maxLevel_def)
      then show ?thesis
        unfolding insert_new_def Let_def d using h1(1) h3(1) by (simp split del: if_split)
    qed
  qed (use h1(4,7) h3(3) in auto)
qed


lemma insert_new_correct:
  assumes inv: "sl_inv sl ns" and nan: "\<not> f64_isNaN score" and new: "sl_dict sl member = None"
  shows "\<exists>sl' ns'. insert_new coin score member sl = Some sl' \<and> sl_inv sl' ns' \<and>
           map (ent (sl_heap sl')) ns' = insert_entry (score, member) (map (ent (sl_heap sl)) ns)"
proof -
  let ?h = "sl_heap sl" and ?es = "map (ent (sl_heap sl)) ns" and ?a = "sl_next sl"
  obtain lo hi h3 where r: "ns = lo @ hi"
    "map (ent ?h) lo = takeWhile (\<lambda>x. ent_less x (score, member)) ?es"
    "map (ent ?h) hi = dropWhile (\<lambda>x. ent_less x (score, member)) ?es"
    "insert_new coin score member sl =
       Some (sl\<lparr>sl_heap := h3, sl_tail := if hi = [] then Some ?a else sl_tail sl,
          sl_level := if sl_level sl < randomLevel coin then randomLevel coin else sl_level sl,
          sl_length := sl_length sl + 1, sl_dict := (sl_dict sl)(member \<mapsto> score), sl_next := ?a + 1\<rparr>)"
    "chain_ok h3 (sl_header sl) (if sl_level sl < randomLevel coin then randomLevel coin else sl_level sl)
       (if hi = [] then Some ?a else sl_tail sl) (?a + 1) (lo @ ?a # hi)"
    "ent h3 ?a = (score, member)" "\<And>b. b \<noteq> ?a \<Longrightarrow> ent h3 b = ent ?h b"
    using insert_new_heap [OF inv nan, of member coin] by blast
  have "distinct (lo @ ?a # hi)" using r(5) by (auto simp: chain_ok_def)
  then have "x \<noteq> ?a" if "x \<in> set (lo @ hi)" for x using that by auto
  then have old: "map (ent h3) lo = map (ent ?h) lo" "map (ent h3) hi = map (ent ?h) hi"
    by (simp_all add: r(7))
  have es: "map (ent h3) (lo @ ?a # hi) = insert_entry (score, member) ?es"
    using r(2,3,6) old by (simp add: insert_entry_eq)
  have m: "member \<notin> snd ` set ?es"
    using inv new map_of_swap_None [of ?es] by (auto simp: sl_inv_def)
  then have ok: "entries_ok (map (ent h3) (lo @ ?a # hi))"
    using inv nan unfolding es sl_inv_def by (intro entries_ok_insert) simp_all
  have "map_of (map swap_entry (map (ent h3) (lo @ ?a # hi))) = (sl_dict sl)(member \<mapsto> score)"
  proof -
    have "map (ent h3) (lo @ ?a # hi) = map (ent ?h) lo @ (score, member) # map (ent ?h) hi"
      using r(6) old by simp
    moreover have "member \<notin> snd ` set (map (ent ?h) lo)" using m r(1) by auto
    moreover have "sl_dict sl = map_of (map swap_entry (map (ent ?h) lo @ map (ent ?h) hi))"
      using inv r(1) by (simp add: sl_inv_def)
    ultimately show ?thesis by (simp only: map_of_swap_insert not_False_eq_True)
  qed
  then have "sl_inv (sl\<lparr>sl_heap := h3, sl_tail := if hi = [] then Some ?a else sl_tail sl,
          sl_level := if sl_level sl < randomLevel coin then randomLevel coin else sl_level sl,
          sl_length := sl_length sl + 1, sl_dict := (sl_dict sl)(member \<mapsto> score), sl_next := ?a + 1\<rparr>) (lo @ ?a # hi)"
    using r(1,5) ok inv by (simp add: sl_inv_def)
  with r(4) es show ?thesis by fastforce
qed


section \<open>Deletion\<close>

lemma lower_level_spec:
  assumes "linked h (hdr # ns)" "l \<le> height h hdr" "1 \<le> l" "\<And>a. a \<in> set ns \<Longrightarrow> height h a \<le> l"
  shows "\<exists>l'. lower_level h hdr l = Some l' \<and> 1 \<le> l' \<and> l' \<le> l \<and> (\<forall>a \<in> set ns. height h a \<le> l')"
  using assms
proof (induction l)
  case 0
  then show ?case by simp
next
  case (Suc l)
  show ?case
  proof (cases "l = 0 \<or> nxt h l ns \<noteq> None")
    case True
    with Suc.prems linked_hdD [OF assms(1), of l] show ?thesis
      by (auto simp: get_forward_eq)
  next
    case False
    then have low: "height h a \<le> l" if "a \<in> set ns" for a
      using that by (auto simp: nxt_None)
    have "\<exists>l'. lower_level h hdr l = Some l' \<and> 1 \<le> l' \<and> l' \<le> l \<and> (\<forall>a \<in> set ns. height h a \<le> l')"
      using False low Suc.prems by (intro Suc.IH) auto
    with False Suc.prems linked_hdD [OF assms(1), of l] show ?thesis
      by (auto simp: get_forward_eq le_Suc_eq)
  qed
qed

lemma unlink_node:
  assumes ok: "chain_ok h hdr lvl tail nextaddr (lo @ t # hi)"
    and len: "length upd = maxLevel" and upd: "\<And>i. i < lvl \<Longrightarrow> upd ! i = Some (last_tall h i (hdr # lo))"
  obtains h1 where "unlink_loop t upd lvl 0 h = Some h1" "linked h1 (hdr # lo @ hi)" "same_nodes h h1"
    "fwd h1 t 0 = nxt h 0 hi"
proof -
  note c = chain_okD [OF ok]
  let ?xs = "hdr # lo"
  let ?u = "\<lambda>i. last_tall h i ?xs"
  have ht: "1 \<le> height h t" "height h t \<le> lvl" using c(6) [of t] by auto
  have u: "?u i \<in> set ?xs" "i < height h (?u i)" "?u i \<noteq> t" if "i < lvl" for i
    using last_tall_in [of ?xs i h] that c(2,3,5) by auto
  have fu: "fwd h (?u i) i = Some t \<longleftrightarrow> i < height h t" if "i < lvl" for i
  proof -
    have "fwd h (?u i) i = nxt h i (t # hi)"
      using c(1,3,5) that by (intro fwd_last_tall) auto
    then show ?thesis using c(2) nxt_SomeD [of h i hi t] by auto
  qed
  have "\<exists>h'. unlink_loop t upd lvl 0 h = Some h' \<and> same_nodes h h' \<and>
      (\<forall>b j. j < height h b \<longrightarrow>
         fwd h' b j = (if 0 \<le> j \<and> j < height h t \<and> b = ?u j then fwd h t j else fwd h b j))"
    using u upd fu ht(2) len c(5) by (intro unlink_loop_spec) auto
  then obtain h1 where h1: "unlink_loop t upd lvl 0 h = Some h1" "same_nodes h h1"
    "\<And>b j. j < height h b \<Longrightarrow> fwd h1 b j = (if j < height h t \<and> b = ?u j then fwd h t j else fwd h b j)"
    by auto
  have "linked h1 (?xs @ hi)"
  proof (rule linked_remove [where h = h and t = t, OF _ _ same_nodesD(1) [OF h1(2)] h1(3)])
    show "linked h (?xs @ t # hi)" "distinct (?xs @ t # hi)" "?xs \<noteq> []"
      using c(1,2) by simp_all
    show "height h t \<le> height h (hd ?xs)" using c(3,5) ht(2) by simp
  qed
  moreover have "fwd h1 t 0 = nxt h 0 hi"
  proof -
    have "fwd h t 0 = nxt h 0 hi"
      using ht(1) c(1) linkedD [of h ?xs t hi 0] by simp
    then show ?thesis using h1(3) [of 0 t] ht(1) u(3) [of 0] ht(2) by (auto split: if_splits)
  qed
  ultimately show thesis using that h1(1,2) by simp
qed

lemma chain_ok_remove:
  assumes ok: "chain_ok h hdr lvl tail nextaddr (lo @ t # hi)"
    and lnk: "linked h' (hdr # lo @ hi)" and hs: "\<And>b. height h' b = height h b"
    and bw: "\<And>b. bwd h' b = (if hi \<noteq> [] \<and> b = hd hi then bwd h t else bwd h b)"
    and l': "1 \<le> l'" "l' \<le> lvl" "\<forall>a \<in> set (lo @ hi). height h' a \<le> l'"
  shows "chain_ok h' hdr l' (if hi = [] then bwd h t else tail) nextaddr (lo @ hi)"
proof -
  note c = chain_okD [OF ok]
  have bt: "bwd h t = (if lo = [] then None else Some (last lo))" and lo: "backs h None lo"
    and hi: "backs h (Some t) hi"
    using c(7) by (simp_all add: backs_append)
  have "backs h' None (lo @ hi)"
  proof -
    have "bwd h' b = bwd h b" if "b \<in> set lo" for b
      using bw [of b] that c(2) by (cases hi) auto
    then have "backs h' None lo" using lo backs_cong [of lo h' h] by simp
    moreover have "backs h' (bwd h t) hi"
    proof (cases hi)
      case (Cons b bs)
      moreover have "bwd h' x = bwd h x" if "x \<in> set bs" for x
        using bw [of x] that c(2) Cons by auto
      ultimately show ?thesis
        using hi bw [of b] backs_cong [of bs h' h] by auto
    qed simp
    ultimately show ?thesis using bt by (simp add: backs_append)
  qed
  then show ?thesis
    using lnk c hs l' bt unfolding chain_ok_def by auto
qed

lemma unsplice_spec:
  assumes "h1 t \<noteq> None" "0 < height h1 t" "\<And>b. b \<in> set hi \<Longrightarrow> h1 b \<noteq> None"
    and "fwd h1 t 0 = (case hi of [] \<Rightarrow> None | b # _ \<Rightarrow> Some b)"
  obtains h2 where "unsplice_back h1 t tail = Some (h2, if hi = [] then bwd h1 t else tail)"
    "\<And>b. height h2 b = height h1 b" "\<And>b. ent h2 b = ent h1 b" "\<And>b j. fwd h2 b j = fwd h1 b j"
    "\<And>b. bwd h2 b = (if hi \<noteq> [] \<and> b = hd hi then bwd h1 t else bwd h1 b)"
proof -
  obtain n where n: "h1 t = Some n" using assms(1) by auto
  show thesis
  proof (cases hi)
    case Nil
    with n assms(2,4) show ?thesis
      by (intro that [of h1]) (simp_all add: unsplice_back_def get_forward_eq bwd_def)
  next
    case (Cons b bs)
    have "h1 b \<noteq> None" using assms(3) Cons by simp
    then obtain h2 where h2: "set_backward h1 b (backward n) = Some h2" "\<And>c. height h2 c = height h1 c"
      "\<And>c. ent h2 c = ent h1 c" "\<And>c j. fwd h2 c j = fwd h1 c j"
      "\<And>c. bwd h2 c = (if c = b then backward n else bwd h1 c)" "\<And>c. h2 c = None \<longleftrightarrow> h1 c = None"
      using set_backward_spec [of h1 b "backward n"] by blast
    have "bwd h1 t = backward n" using n by (simp add: bwd_def)
    with h2 n assms(2,4) Cons show ?thesis
      by (intro that [of h2]) (simp_all add: unsplice_back_def get_forward_eq)
  qed
qed


lemma entries_split_below:
  assumes "entries_ok (map (ent h) (lo @ t # hi))" "ent h t = (s, m)"
  shows "\<forall>a \<in> set lo. below h s m a" "\<forall>a \<in> set (t # hi). \<not> below h s m a" "\<not> f64_isNaN s"
proof -
  have srt: "sorted_wrt ent_less (map (ent h) lo @ (s, m) # map (ent h) hi)"
    and nan: "\<And>e. e \<in> set (map (ent h) (lo @ t # hi)) \<Longrightarrow> \<not> f64_isNaN (fst e)"
    using assms unfolding entries_ok_def by (simp, blast)
  show "\<not> f64_isNaN s" using nan [of "(s, m)"] assms(2) by simp
  show "\<forall>a \<in> set lo. below h s m a"
    using srt by (simp add: sorted_wrt_append below_ent_less)
  show "\<forall>a \<in> set (t # hi). \<not> below h s m a"
  proof
    fix a assume a: "a \<in> set (t # hi)"
    show "\<not> below h s m a"
    proof (cases "a = t")
      case True
      with assms(2) show ?thesis by (simp add: below_ent_less ent_less_irrefl)
    next
      case False
      with a have "ent_less (s, m) (ent h a)" using srt by (simp add: sorted_wrt_append)
      moreover have "\<not> f64_isNaN (fst (ent h a))" using nan [of "ent h a"] a by auto
      ultimately have "\<not> ent_less (ent h a) (s, m)"
        using ent_less_trans [of "(s, m)" "ent h a" "(s, m)"] ent_less_irrefl [of "(s, m)"] \<open>\<not> f64_isNaN s\<close>
        by fastforce
      then show ?thesis by (simp add: below_ent_less)
    qed
  qed
qed

lemma delete_heap:
  assumes inv: "sl_inv sl ns" and d: "sl_dict sl member = Some score"
  obtains lo t hi h2 l' where "ns = lo @ t # hi" "ent (sl_heap sl) t = (score, member)"
    "delete_sl member sl = Some (sl\<lparr>sl_heap := h2, sl_tail := if hi = [] then bwd (sl_heap sl) t else sl_tail sl,
        sl_level := l', sl_length := sl_length sl - 1, sl_dict := (sl_dict sl)(member := None)\<rparr>, True)"
    "chain_ok h2 (sl_header sl) l' (if hi = [] then bwd (sl_heap sl) t else sl_tail sl) (sl_next sl) (lo @ hi)"
    "ent h2 = ent (sl_heap sl)"
proof -
  let ?h = "sl_heap sl" and ?hdr = "sl_header sl"
  have "(score, member) \<in> set (map (ent ?h) ns)"
    using inv d map_of_swap_Some [of "map (ent ?h) ns" member score] unfolding sl_inv_def entries_ok_def by simp
  then obtain t where "t \<in> set ns" and t: "ent ?h t = (score, member)" by auto
  then obtain lo hi where ns: "ns = lo @ t # hi" by (auto simp: in_set_conv_decomp)
  have ok: "chain_ok ?h ?hdr (sl_level sl) (sl_tail sl) (sl_next sl) (lo @ t # hi)"
    and es: "entries_ok (map (ent ?h) (lo @ t # hi))"
    using inv unfolding sl_inv_def ns by blast+
  note c = chain_okD [OF ok] and b = entries_split_below [OF es t]
  obtain upd where upd: "descend ?h score member (sl_level sl) ?hdr (replicate maxLevel None) =
        Some (last_tall ?h 0 (?hdr # lo), upd)" "length upd = maxLevel"
    "\<And>i. i < sl_level sl \<Longrightarrow> upd ! i = Some (last_tall ?h i (?hdr # lo))"
    using search_path [OF ok b(1,2)] by blast
  have ht: "1 \<le> height ?h t" using c(6) [of t] by simp
  have g: "get_forward ?h (last_tall ?h 0 (?hdr # lo)) 0 = Some (Some t)"
    using fwd_last_tall [of ?h "?hdr # lo" "t # hi" 0] last_tall_in [of "?hdr # lo" 0 ?h] c(1,3) ht
    by (simp add: get_forward_eq maxLevel_def)
  obtain n where n: "?h t = Some n" "nscore n = score" "nmember n = member"
    using height_pos_Some [of 0 ?h t] ht t by (auto simp: ent_def)
  obtain h1 where h1: "unlink_loop t upd (sl_level sl) 0 ?h = Some h1" "linked h1 (?hdr # lo @ hi)"
    "same_nodes ?h h1" "fwd h1 t 0 = nxt ?h 0 hi"
    using unlink_node [OF ok upd(2,3)] by blast
  have f0: "fwd h1 t 0 = (case hi of [] \<Rightarrow> None | b # _ \<Rightarrow> Some b)"
    using h1(4) c(6) by (simp add: nxt_0)
  have dom: "h1 b \<noteq> None" if "b \<in> set (t # hi)" for b
    using c(6) [of b] that h1(3) height_pos_Some [of 0 h1 b] by (auto simp: same_nodesD)
  obtain h2 where h2: "unsplice_back h1 t (sl_tail sl) = Some (h2, if hi = [] then bwd h1 t else sl_tail sl)"
    "\<And>b. height h2 b = height h1 b" "\<And>b. ent h2 b = ent h1 b" "\<And>b j. fwd h2 b j = fwd h1 b j"
    "\<And>b. bwd h2 b = (if hi \<noteq> [] \<and> b = hd hi then bwd h1 t else bwd h1 b)"
    using unsplice_spec [of h1 t hi "sl_tail sl"] dom f0 ht h1(3) by (auto simp: same_nodesD)
  have bt: "bwd h1 t = bwd ?h t" using h1(3) by (rule same_nodesD)
  have hs: "height h2 b = height ?h b" for b using h2(2) h1(3) by (simp add: same_nodesD)
  have l2: "linked h2 (?hdr # lo @ hi)"
    using h1(2) h2(2,4) by (simp add: linked_def nxt_cong [of _ h2 h1])
  have "\<exists>l'. lower_level h2 ?hdr (sl_level sl) = Some l' \<and> 1 \<le> l' \<and> l' \<le> sl_level sl \<and>
      (\<forall>a \<in> set (lo @ hi). height h2 a \<le> l')"
    using c(3,4,5,6) hs by (intro lower_level_spec [OF l2]) auto
  then obtain l' where l': "lower_level h2 ?hdr (sl_level sl) = Some l'" "1 \<le> l'" "l' \<le> sl_level sl"
    "\<forall>a \<in> set (lo @ hi). height h2 a \<le> l'" by blast
  show thesis
  proof (rule that [OF ns t])
    show "chain_ok h2 ?hdr l' (if hi = [] then bwd ?h t else sl_tail sl) (sl_next sl) (lo @ hi)"
      using h2(5) h1(3) by (intro chain_ok_remove [OF ok l2 hs _ l'(2-4)]) (simp add: same_nodesD)
    show "delete_sl member sl = Some (sl\<lparr>sl_heap := h2, sl_tail := if hi = [] then bwd ?h t else sl_tail sl,
        sl_level := l', sl_length := sl_length sl - 1, sl_dict := (sl_dict sl)(member := None)\<rparr>, True)"
      using d upd(1) g n b(3) h1(1) h2(1) [unfolded bt] l'(1)
      by (simp add: delete_sl_def f64_eq_refl_iff split del: if_split)
    show "ent h2 = ent ?h" using h2(3) h1(3) by (simp add: same_nodesD fun_eq_iff)
  qed
qed

lemma delete_sl_correct:
  assumes inv: "sl_inv sl ns"
  shows "\<exists>sl' ns'. delete_sl member sl = Some (sl', sl_dict sl member \<noteq> None) \<and> sl_inv sl' ns' \<and>
           map (ent (sl_heap sl')) ns' = spec_delete member (map (ent (sl_heap sl)) ns)"
proof (cases "sl_dict sl member")
  case None
  then have "member \<notin> snd ` set (map (ent (sl_heap sl)) ns)"
    using inv map_of_swap_None [of "map (ent (sl_heap sl)) ns"] by (auto simp: sl_inv_def)
  then have "spec_delete member (map (ent (sl_heap sl)) ns) = map (ent (sl_heap sl)) ns"
    by (rule spec_delete_absent)
  with None inv show ?thesis
    by (intro exI [of _ sl] exI [of _ ns]) (simp add: delete_sl_def)
next
  case (Some score)
  obtain lo t hi h2 l' where r: "ns = lo @ t # hi" "ent (sl_heap sl) t = (score, member)"
    "delete_sl member sl = Some (sl\<lparr>sl_heap := h2, sl_tail := if hi = [] then bwd (sl_heap sl) t else sl_tail sl,
        sl_level := l', sl_length := sl_length sl - 1, sl_dict := (sl_dict sl)(member := None)\<rparr>, True)"
    "chain_ok h2 (sl_header sl) l' (if hi = [] then bwd (sl_heap sl) t else sl_tail sl) (sl_next sl) (lo @ hi)"
    "ent h2 = ent (sl_heap sl)"
    by (rule delete_heap [OF inv Some]) blast
  let ?L = "map (ent (sl_heap sl)) lo" and ?H = "map (ent (sl_heap sl)) hi"
  have ents: "map (ent h2) xs = map (ent (sl_heap sl)) xs" for xs using r(5) by simp
  have es: "entries_ok (?L @ (score, member) # ?H)" and dict: "sl_dict sl = map_of (map swap_entry (?L @ (score, member) # ?H))"
    using inv r(1,2) by (simp_all add: sl_inv_def)
  have sp: "entries_ok (?L @ ?H)" "spec_delete member (?L @ (score, member) # ?H) = ?L @ ?H"
    using entries_ok_split [OF es] by simp_all
  have "map_of (map swap_entry (?L @ ?H)) = (sl_dict sl)(member := None)"
  proof -
    have "member \<notin> snd ` set ?L" "member \<notin> snd ` set (?L @ ?H)"
      using es by (auto simp: entries_ok_def)
    then show ?thesis
      using dict map_of_swap_insert [of member ?L score ?H] map_of_swap_None [of "?L @ ?H" member] by auto
  qed
  then have "sl_inv (sl\<lparr>sl_heap := h2, sl_tail := if hi = [] then bwd (sl_heap sl) t else sl_tail sl,
        sl_level := l', sl_length := sl_length sl - 1, sl_dict := (sl_dict sl)(member := None)\<rparr>) (lo @ hi)"
    using r(1,4) sp(1) inv by (simp add: sl_inv_def ents)
  with r(1,2,3) sp(2) Some show ?thesis by (fastforce simp: ents)
qed


section \<open>Queries\<close>

definition first_of :: "nat list \<Rightarrow> nat option" where
  "first_of ns = (case ns of [] \<Rightarrow> None | a # _ \<Rightarrow> Some a)"

definition last_of :: "nat list \<Rightarrow> nat option" where
  "last_of ns = (if ns = [] then None else Some (last ns))"

lemma first_of_simps [simp]: "first_of [] = None" "first_of (a # ns) = Some a"
  by (simp_all add: first_of_def)

lemma last_of_simps [simp]: "last_of [] = None" "last_of (ns @ [a]) = Some a"
  by (simp_all add: last_of_def)

lemma header_first:
  assumes "sl_inv sl ns"
  shows "get_forward (sl_heap sl) (sl_header sl) 0 = Some (first_of ns)"
proof -
  have ok: "chain_ok (sl_heap sl) (sl_header sl) (sl_level sl) (sl_tail sl) (sl_next sl) ns"
    using assms by (simp add: sl_inv_def)
  note c = chain_okD [OF ok]
  show ?thesis
    using linked_hdD [OF c(1), of 0] c(3,6) by (simp add: get_forward_eq nxt_0 first_of_def maxLevel_def)
qed

text \<open>Along a linked chain of positive heights, level 0 visits the addresses in order.\<close>

lemma chain_next:
  assumes "linked h (a # ns)" "\<And>b. b \<in> set (a # ns) \<Longrightarrow> 1 \<le> height h b"
  shows "get_forward h a 0 = Some (first_of ns)" "\<exists>n. h a = Some n \<and> ent h a = (nscore n, nmember n)"
proof -
  have a: "0 < height h a" using assms(2) [of a] by auto
  then show "get_forward h a 0 = Some (first_of ns)"
    using linked_hdD [OF assms(1) a] assms(2) by (simp add: get_forward_eq nxt_0 first_of_def)
  show "\<exists>n. h a = Some n \<and> ent h a = (nscore n, nmember n)"
    using height_pos_Some [OF a] by (auto simp: ent_def)
qed

lemma linked_tl: "linked h (a # ns) \<Longrightarrow> linked h ns"
  using linked_suffix [of h "[a]" ns] by simp

lemma rank_loop_chain:
  assumes "linked h ns" "\<And>b. b \<in> set ns \<Longrightarrow> 1 \<le> height h b"
  shows "rank_loop h s m r (first_of ns) =
    Some (if \<exists>e \<in> set (map (ent h) ns). f64_eq (fst e) s \<and> snd e = m
          then Rank (r + length (takeWhile (\<lambda>e. \<not> (f64_eq (fst e) s \<and> snd e = m)) (map (ent h) ns))) True
          else PanicInconsistent m)"
  using assms
proof (induction ns arbitrary: r)
  case Nil
  then show ?case by (subst rank_loop.simps) simp
next
  case (Cons a ns)
  obtain n where n: "h a = Some n" "ent h a = (nscore n, nmember n)" and g: "get_forward h a 0 = Some (first_of ns)"
    using chain_next [OF Cons.prems] by auto
  have IH: "rank_loop h s m (Suc r) (first_of ns) =
    Some (if \<exists>e \<in> set (map (ent h) ns). f64_eq (fst e) s \<and> snd e = m
          then Rank (Suc r + length (takeWhile (\<lambda>e. \<not> (f64_eq (fst e) s \<and> snd e = m)) (map (ent h) ns))) True
          else PanicInconsistent m)"
    using Cons.prems by (intro Cons.IH) (auto intro: linked_tl)
  show ?case
    by (subst rank_loop.simps) (simp add: n g IH)
qed

text \<open>The elements at positions \<open>start\<close> to \<open>stop\<close>, both included.\<close>

definition slice :: "int \<Rightarrow> int \<Rightarrow> 'a list \<Rightarrow> 'a list" where
  "slice start stop xs = take (nat (stop - max 0 start + 1)) (drop (nat start) xs)"

lemma slice_Nil [simp]: "slice a b [] = []"
  by (simp add: slice_def)

lemma slice_neg: "b < 0 \<Longrightarrow> slice a b xs = []"
  by (simp add: slice_def)

lemma slice_Cons: "0 \<le> b \<Longrightarrow> slice a b (x # xs) = (if a \<le> 0 then [x] else []) @ slice (a - 1) (b - 1) xs"
proof (cases "a \<le> 0")
  case True
  moreover assume "0 \<le> b"
  ultimately show ?thesis by (simp add: slice_def max_def nat_add_distrib)
next
  case False
  then have "drop (nat a) (x # xs) = drop (nat (a - 1)) xs"
    by (cases "nat a") (auto simp: nat_diff_distrib')
  then show ?thesis using False by (simp add: slice_def max_def)
qed

lemma range_loop_chain:
  assumes "linked h ns" "\<And>b. b \<in> set ns \<Longrightarrow> 1 \<le> height h b"
  shows "range_loop h start stop idx (first_of ns) res = Some (res @ slice (start - idx) (stop - idx) (map (ent h) ns))"
  using assms
proof (induction ns arbitrary: idx res)
  case Nil
  then show ?case by (subst range_loop.simps) simp
next
  case (Cons a ns)
  obtain n where n: "h a = Some n" "ent h a = (nscore n, nmember n)" and g: "get_forward h a 0 = Some (first_of ns)"
    using chain_next [OF Cons.prems] by auto
  have IH: "range_loop h start stop (idx + 1) (first_of ns) res' =
      Some (res' @ slice (start - (idx + 1)) (stop - (idx + 1)) (map (ent h) ns))" for res'
    using Cons.prems by (intro Cons.IH) (auto intro: linked_tl)
  show ?case
    by (subst range_loop.simps) (auto simp: n g IH slice_Cons slice_neg diff_diff_eq)
qed

lemma skip_back_chain:
  assumes "backs h None ns" "\<And>b. b \<in> set ns \<Longrightarrow> 1 \<le> height h b"
  shows "\<exists>k. skip_back h start idx (last_of ns) = Some (last_of (take (length ns - k) ns), idx + int k) \<and>
           k = min (nat (start - idx)) (length ns)"
  using assms
proof (induction ns arbitrary: idx rule: rev_induct)
  case Nil
  then show ?case by (subst skip_back.simps) simp
next
  case (snoc a ns)
  have a: "0 < height h a" using snoc.prems(2) [of a] by simp
  obtain n where n: "h a = Some n" using height_pos_Some [OF a] by blast
  have b: "backward n = last_of ns" and ok: "backs h None ns"
    using snoc.prems(1) n by (auto simp: backs_append bwd_def last_of_def)
  obtain k where k: "skip_back h start (idx + 1) (last_of ns) = Some (last_of (take (length ns - k) ns), idx + 1 + int k)"
    "k = min (nat (start - (idx + 1))) (length ns)"
    using snoc.IH [OF ok, of "idx + 1"] snoc.prems(2) by auto
  show ?case
  proof (cases "idx < start")
    case True
    then have "min (nat (start - idx)) (length (ns @ [a])) = Suc k" using k(2) by auto
    with True show ?thesis
      by (subst skip_back.simps) (simp add: n b k(1))
  next
    case False
    then show ?thesis by (subst skip_back.simps) simp
  qed
qed

lemma collect_back_chain:
  assumes "backs h None ns" "\<And>b. b \<in> set ns \<Longrightarrow> 1 \<le> height h b"
  shows "collect_back h stop idx (last_of ns) res = Some (res @ take (nat (stop - idx + 1)) (rev (map (ent h) ns)))"
  using assms
proof (induction ns arbitrary: idx res rule: rev_induct)
  case Nil
  then show ?case by (subst collect_back.simps) simp
next
  case (snoc a ns)
  have a: "0 < height h a" using snoc.prems(2) [of a] by simp
  obtain n where n: "h a = Some n" "ent h a = (nscore n, nmember n)"
    using height_pos_Some [OF a] by (auto simp: ent_def)
  have b: "backward n = last_of ns" and ok: "backs h None ns"
    using snoc.prems(1) n by (auto simp: backs_append bwd_def last_of_def)
  have IH: "collect_back h stop (idx + 1) (last_of ns) res' =
      Some (res' @ take (nat (stop - (idx + 1) + 1)) (rev (map (ent h) ns)))" for res'
    using snoc.prems(2) by (intro snoc.IH [OF ok]) auto
  show ?case
    by (subst collect_back.simps) (auto simp: n b IH nat_add_distrib take_Cons' nat_diff_distrib)
qed

end
