(* ===== verification/SkipListSpec.thy ===== *)
theory SkipListSpec
  imports SkipListProofs
begin

text \<open>
  The skip list's operations as operations on the sorted list of its entries, for every
  list that represents one, and the interface the sorted sets use.
\<close>

section \<open>Operations on the abstraction\<close>

lemma sl_repr_okD: "sl_repr sl es \<Longrightarrow> entries_ok es"
  by (auto simp: sl_repr_def sl_inv_def)

lemma sl_repr_new: "sl_repr newSkipList []"
  using sl_inv_newSkipList by (auto simp: sl_repr_def)

lemma sl_repr_dict: "sl_repr sl es \<Longrightarrow> sl_dict sl m = Some s \<longleftrightarrow> (s, m) \<in> set es"
  using map_of_swap_Some [of es m s] by (auto simp: sl_repr_def sl_inv_def entries_ok_def)

lemma sl_repr_dict_None: "sl_repr sl es \<Longrightarrow> sl_dict sl m = None \<longleftrightarrow> m \<notin> snd ` set es"
  using map_of_swap_None [of es m] by (auto simp: sl_repr_def sl_inv_def)

lemma sl_repr_length: "sl_repr sl es \<Longrightarrow> sl_length sl = length es"
  by (auto simp: sl_repr_def sl_inv_def)

lemma sl_repr_delete:
  "sl_repr sl es \<Longrightarrow> \<exists>sl'. delete_sl m sl = Some (sl', m \<in> snd ` set es) \<and> sl_repr sl' (spec_delete m es)"
proof -
  assume r: "sl_repr sl es"
  then obtain ns where ns: "sl_inv sl ns" "es = map (ent (sl_heap sl)) ns" by (auto simp: sl_repr_def)
  from delete_sl_correct [OF ns(1), of m, folded ns(2)]
  obtain sl' ns' where "delete_sl m sl = Some (sl', sl_dict sl m \<noteq> None)" "sl_inv sl' ns'"
    "map (ent (sl_heap sl')) ns' = spec_delete m es" by (elim exE conjE)
  moreover have "sl_dict sl m \<noteq> None \<longleftrightarrow> m \<in> snd ` set es"
    by (simp add: sl_repr_dict_None [OF r])
  ultimately have "delete_sl m sl = Some (sl', m \<in> snd ` set es) \<and> sl_repr sl' (spec_delete m es)"
    unfolding sl_repr_def by auto
  then show ?thesis ..
qed

lemma sl_repr_insert:
  assumes r: "sl_repr sl es" and nan: "\<not> f64_isNaN s"
  shows "\<exists>sl'. insert_sl coin s m sl = Some sl' \<and> sl_repr sl' (spec_insert s m es)"
proof -
  have new: "\<exists>sl'. insert_new coin s m sl0 = Some sl' \<and> sl_repr sl' (insert_entry (s, m) es0)"
    if h: "sl_repr sl0 es0" "m \<notin> snd ` set es0" for sl0 es0
  proof -
    from h(1) obtain ns where ns: "sl_inv sl0 ns" "es0 = map (ent (sl_heap sl0)) ns"
      by (auto simp: sl_repr_def)
    have d: "sl_dict sl0 m = None" using h by (simp add: sl_repr_dict_None)
    from insert_new_correct [OF ns(1) nan d, of coin, folded ns(2)]
    obtain sl' ns' where "insert_new coin s m sl0 = Some sl'" "sl_inv sl' ns'"
      "map (ent (sl_heap sl')) ns' = insert_entry (s, m) es0" by blast
    then show ?thesis unfolding sl_repr_def by metis
  qed
  show ?thesis
  proof (cases "sl_dict sl m")
    case None
    then have "m \<notin> snd ` set es" using r by (simp add: sl_repr_dict_None)
    with new [OF r] None show ?thesis
      by (auto simp: insert_sl_def spec_insert_def spec_delete_absent)
  next
    case (Some old)
    then have old: "(old, m) \<in> set es" using r by (simp add: sl_repr_dict)
    have uniq: "fst e = old" if "e \<in> set es" "snd e = m" for e
      using that sl_repr_dict [OF r, of m "fst e"] Some by (cases e) auto
    show ?thesis
    proof (cases "f64_eq old s")
      case True
      with old have "spec_insert s m es = es" by (force simp: spec_insert_def)
      with True Some r show ?thesis by (simp add: insert_sl_def)
    next
      case False
      with uniq have spec: "spec_insert s m es = insert_entry (s, m) (spec_delete m es)"
        by (auto simp: spec_insert_def)
      obtain sl1 b where d: "delete_sl m sl = Some (sl1, b)" "sl_repr sl1 (spec_delete m es)"
        using sl_repr_delete [OF r] by blast
      have "m \<notin> snd ` set (spec_delete m es)" by (auto simp: spec_delete_def)
      with new d(2) obtain sl' where "insert_new coin s m sl1 = Some sl'"
        "sl_repr sl' (insert_entry (s, m) (spec_delete m es))" by blast
      with d(1) False Some spec show ?thesis by (simp add: insert_sl_def)
    qed
  qed
qed

lemma sl_repr_rank:
  assumes r: "sl_repr sl es"
  shows "rank_sl m sl = Some (if m \<in> snd ` set es then Rank (length (takeWhile (\<lambda>e. snd e \<noteq> m) es)) True else Rank 0 False)"
proof (cases "sl_dict sl m")
  case None
  then show ?thesis using sl_repr_dict_None [OF r, of m] by (simp add: rank_sl_def)
next
  case (Some s)
  obtain ns where ns: "sl_inv sl ns" "es = map (ent (sl_heap sl)) ns" using r by (auto simp: sl_repr_def)
  have mem: "(s, m) \<in> set es" using Some r by (simp add: sl_repr_dict)
  have ok: "entries_ok es" using r by (rule sl_repr_okD)
  have eq: "(f64_eq (fst e) s \<and> snd e = m) \<longleftrightarrow> snd e = m" if "e \<in> set es" for e
  proof -
    have "fst e = s" if "snd e = m"
      using that \<open>e \<in> set es\<close> sl_repr_dict [OF r, of m "fst e"] Some by (cases e) auto
    then show ?thesis using ok \<open>e \<in> set es\<close> by (auto simp: entries_ok_def f64_eq_refl_iff)
  qed
  have "chain_ok (sl_heap sl) (sl_header sl) (sl_level sl) (sl_tail sl) (sl_next sl) ns"
    using ns(1) by (simp add: sl_inv_def)
  then have "linked (sl_heap sl) ns" "\<And>b. b \<in> set ns \<Longrightarrow> 1 \<le> height (sl_heap sl) b"
    by (auto simp: chain_ok_def dest: linked_tl)
  note loop = rank_loop_chain [OF this, of s m 0, folded ns(2)]
  have tw: "takeWhile (\<lambda>e. \<not> (f64_eq (fst e) s \<and> snd e = m)) es = takeWhile (\<lambda>e. snd e \<noteq> m) es"
    using eq by (intro takeWhile_cong) auto
  have ex: "\<exists>e \<in> set es. f64_eq (fst e) s \<and> snd e = m" using mem eq by force
  have "m \<in> snd ` set es" using mem by force
  with Some show ?thesis
    using ex by (simp add: rank_sl_def header_first [OF ns(1)] loop [unfolded tw])
qed

lemma slice_clamp:
  fixes xs :: "'a list" and start stop :: int
  defines "s \<equiv> if start < 0 then 0 else start"
  defines "t \<equiv> if int (length xs) \<le> stop then int (length xs) - 1 else stop"
  shows "slice s t xs = slice start stop xs" "t < s \<or> int (length xs) \<le> s \<Longrightarrow> slice start stop xs = []"
proof -
  show "slice s t xs = slice start stop xs"
  proof (cases "int (length xs) \<le> stop")
    case True
    then have "take (nat (stop - max 0 start + 1)) (drop (nat start) xs) = drop (nat start) xs"
      and "take (nat (int (length xs) - 1 - max 0 start + 1)) (drop (nat start) xs) = drop (nat start) xs"
      by (auto intro!: take_all)
    with True show ?thesis by (auto simp: slice_def s_def t_def max_def)
  qed (simp add: slice_def s_def t_def max_def)
  show "t < s \<or> int (length xs) \<le> s \<Longrightarrow> slice start stop xs = []"
    by (auto simp: slice_def s_def t_def max_def split: if_splits)
qed

lemma sl_repr_range:
  assumes r: "sl_repr sl es"
  shows "rangeByRank start stop sl = Some (slice start stop es)"
proof -
  obtain ns where ns: "sl_inv sl ns" "es = map (ent (sl_heap sl)) ns" using r by (auto simp: sl_repr_def)
  have "chain_ok (sl_heap sl) (sl_header sl) (sl_level sl) (sl_tail sl) (sl_next sl) ns"
    using ns(1) by (simp add: sl_inv_def)
  then have "linked (sl_heap sl) ns" "\<And>b. b \<in> set ns \<Longrightarrow> 1 \<le> height (sl_heap sl) b"
    by (auto simp: chain_ok_def dest: linked_tl)
  then have loop: "range_loop (sl_heap sl) a b 0 (first_of ns) [] = Some (slice a b es)" for a b
    using range_loop_chain [where idx = 0 and res = "[]"] by (simp add: ns(2))
  define s where "s = (if start < 0 then 0 else start)"
  define t where "t = (if int (length es) \<le> stop then int (length es) - 1 else stop)"
  have "rangeByRank start stop sl = (if t < s \<or> int (length es) \<le> s then Some []
      else Option.bind (Some (first_of ns)) (\<lambda>p. range_loop (sl_heap sl) s t 0 p []))"
    unfolding rangeByRank_def Let_def header_first [OF ns(1)] sl_repr_length [OF r] s_def t_def ..
  then have "rangeByRank start stop sl = (if t < s \<or> int (length es) \<le> s then Some [] else Some (slice s t es))"
    unfolding bind.simps loop by simp
  then show ?thesis
    using slice_clamp [where start = start and stop = stop and xs = es, folded s_def t_def] by auto
qed

lemma sl_repr_rev_range:
  assumes r: "sl_repr sl es"
  shows "revRangeByRank start stop sl = Some (slice start stop (rev es))"
proof -
  obtain ns where ns: "sl_inv sl ns" "es = map (ent (sl_heap sl)) ns" using r by (auto simp: sl_repr_def)
  let ?h = "sl_heap sl"
  define s where "s = (if start < 0 then 0 else start)"
  define t where "t = (if int (length (rev es)) \<le> stop then int (length (rev es)) - 1 else stop)"
  note clamp = slice_clamp [where start = start and stop = stop and xs = "rev es", folded s_def t_def]
  have "chain_ok ?h (sl_header sl) (sl_level sl) (sl_tail sl) (sl_next sl) ns"
    using ns(1) by (simp add: sl_inv_def)
  then have c: "backs ?h None ns" "\<And>b. b \<in> set ns \<Longrightarrow> 1 \<le> height ?h b" "sl_tail sl = last_of ns"
    by (auto simp: chain_ok_def last_of_def)
  have len: "length ns = length (rev es)" "sl_length sl = length (rev es)" using ns by (simp_all add: sl_inv_def)
  have e: "revRangeByRank start stop sl =
     (if t < s \<or> int (length (rev es)) \<le> s then Some []
      else do { (cur, idx) \<leftarrow> skip_back ?h s 0 (last_of ns); collect_back ?h t idx cur [] })"
    unfolding revRangeByRank_def Let_def len c(3) s_def t_def ..
  show ?thesis
  proof (cases "t < s \<or> int (length (rev es)) \<le> s")
    case True
    with clamp(2) e show ?thesis by simp
  next
    case False
    have s0: "0 \<le> s" by (simp add: s_def)
    have k: "min (nat (s - 0)) (length ns) = nat s" "nat s \<le> length ns" using False len by auto
    have q: "skip_back ?h s 0 (last_of ns) = Some (last_of (take (length ns - nat s) ns), s)"
      using skip_back_chain [of ?h ns s 0] c(1,2) k(1) s0 by simp
    have b: "backs ?h None (take (length ns - nat s) ns)"
      using c(1) backs_append [of ?h None "take (length ns - nat s) ns" "drop (length ns - nat s) ns"] by simp
    have "collect_back ?h t s (last_of (take (length ns - nat s) ns)) [] =
        Some (take (nat (t - s + 1)) (rev (map (ent ?h) (take (length ns - nat s) ns))))"
    proof -
      have "1 \<le> height ?h x" if "x \<in> set (take (length ns - nat s) ns)" for x
        using c(2) in_set_takeD [OF that] .
      then show ?thesis by (subst collect_back_chain [OF b]) simp_all
    qed
    moreover have "rev (map (ent ?h) (take (length ns - nat s) ns)) = drop (nat s) (rev es)"
      using ns(2) k(2) by (simp add: take_map [symmetric] rev_take)
    moreover have "take (nat (t - s + 1)) (drop (nat s) (rev es)) = slice s t (rev es)"
      using s0 by (simp add: slice_def max_def)
    ultimately show ?thesis
      using False q e clamp(1) by simp
  qed
qed

section \<open>The interface of an ordered collection of scored members\<close>

type_synonym entry = "float64 \<times> string"

text \<open>Insertions one after the other, as a restore does them; \<open>coins k\<close> are the draws of the \<open>k\<close>-th.\<close>

fun insert_list :: "('c \<Rightarrow> float64 \<Rightarrow> string \<Rightarrow> 's \<Rightarrow> 's option) \<Rightarrow> (nat \<Rightarrow> 'c) \<Rightarrow> nat \<Rightarrow> entry list \<Rightarrow> 's \<Rightarrow> 's option" where
  "insert_list ins coins k [] s = Some s"
| "insert_list ins coins k ((sc, m) # es) s =
     (case ins (coins k) sc m s of None \<Rightarrow> None | Some s1 \<Rightarrow> insert_list ins coins (Suc k) es s1)"

lemma entries_ok_prefix: "entries_ok (xs @ ys) \<Longrightarrow> entries_ok xs"
  by (auto simp: entries_ok_def sorted_wrt_append)

lemma entries_ok_delete: "entries_ok es \<Longrightarrow> entries_ok (spec_delete m es)"
  by (auto simp: entries_ok_def spec_delete_def sorted_wrt_filter distinct_map_filter)

lemma set_insert_entry: "set (insert_entry e es) = insert e (set es)"
  by (induction es) auto

lemma mem_spec_delete: "(s, m') \<in> set (spec_delete m es) \<longleftrightarrow> m' \<noteq> m \<and> (s, m') \<in> set es"
  by (auto simp: spec_delete_def)

lemma insert_entry_max: "(\<And>x. x \<in> set es \<Longrightarrow> ent_less x e) \<Longrightarrow> insert_entry e es = es @ [e]"
  by (induction es) auto

text \<open>Inserting a member above every entry appends it.\<close>

lemma spec_insert_append:
  assumes "entries_ok (es @ (s, m) # rest)"
  shows "spec_insert s m es = es @ [(s, m)]"
proof -
  have "m \<notin> snd ` set es" "\<And>x. x \<in> set es \<Longrightarrow> ent_less x (s, m)"
    using assms by (auto simp: entries_ok_def sorted_wrt_append)
  then show ?thesis
    by (auto simp: spec_insert_def spec_delete_absent insert_entry_max)
qed

lemma entries_unique:
  assumes "entries_ok es" "(s, m) \<in> set es" "(s', m) \<in> set es"
  shows "s' = s"
proof -
  have d: "distinct (map snd es)" using assms(1) by (simp add: entries_ok_def)
  have "map_of (map swap_entry es) m = Some s" "map_of (map swap_entry es) m = Some s'"
    using map_of_swap_Some [OF d] assms(2,3) by simp_all
  then show ?thesis by simp
qed

text \<open>What a list of entries says of a member: its score and whether it is there.\<close>

definition spec_score :: "string \<Rightarrow> entry list \<Rightarrow> float64 \<times> bool" where
  "spec_score m es = (case map_of (map swap_entry es) m of Some s \<Rightarrow> (s, True) | None \<Rightarrow> (0, False))"

lemma spec_score_in: "entries_ok es \<Longrightarrow> (s, m) \<in> set es \<Longrightarrow> spec_score m es = (s, True)"
  using map_of_swap_Some [of es m s] by (simp add: spec_score_def entries_ok_def)

lemma spec_score_absent: "m \<notin> snd ` set es \<Longrightarrow> spec_score m es = (0, False)"
  using map_of_swap_None [of es m] by (simp add: spec_score_def)

lemma spec_score_present:
  assumes "m \<in> snd ` set es" "entries_ok es"
  shows "\<exists>s. (s, m) \<in> set es \<and> spec_score m es = (s, True)"
proof -
  obtain s where "(s, m) \<in> set es" using assms(1) by auto
  with spec_score_in [OF assms(2)] show ?thesis by blast
qed

lemma spec_score_cong:
  assumes ok: "entries_ok es" "entries_ok es'" and iff: "\<And>s. (s, m) \<in> set es \<longleftrightarrow> (s, m) \<in> set es'"
  shows "spec_score m es = spec_score m es'"
proof (cases "m \<in> snd ` set es")
  case True
  then obtain s where s: "(s, m) \<in> set es" by auto
  then have "(s, m) \<in> set es'" using iff by simp
  then show ?thesis using s ok by (simp add: spec_score_in)
next
  case False
  moreover have "m \<notin> snd ` set es'"
  proof
    assume "m \<in> snd ` set es'"
    then obtain s where "(s, m) \<in> set es'" by auto
    then have "(s, m) \<in> set es" using iff by simp
    with False show False by force
  qed
  ultimately show ?thesis by (simp add: spec_score_absent)
qed

lemma spec_insert_ok:
  assumes ok: "entries_ok es" and nan: "\<not> f64_isNaN s"
  shows "entries_ok (spec_insert s m es)"
    and "\<exists>s'. f64_eq s' s \<and> spec_score m (spec_insert s m es) = (s', True)"
    and "m' \<noteq> m \<Longrightarrow> spec_score m' (spec_insert s m es) = spec_score m' es"
proof -
  have absent: "m \<notin> snd ` set (spec_delete m es)" by (auto simp: spec_delete_def)
  show ok': "entries_ok (spec_insert s m es)"
    using ok entries_ok_insert [OF entries_ok_delete [OF ok] nan absent] by (simp add: spec_insert_def)
  show "\<exists>s'. f64_eq s' s \<and> spec_score m (spec_insert s m es) = (s', True)"
  proof (cases "\<exists>e \<in> set es. snd e = m \<and> f64_eq (fst e) s")
    case True
    then obtain s' where s': "(s', m) \<in> set es" "f64_eq s' s" by auto
    have "spec_insert s m es = es" using True by (simp add: spec_insert_def)
    then show ?thesis using s' spec_score_in [OF ok s'(1)] by auto
  next
    case False
    then have "(s, m) \<in> set (spec_insert s m es)" by (auto simp: spec_insert_def set_insert_entry)
    then show ?thesis using spec_score_in [OF ok'] nan by (auto simp: f64_eq_refl_iff)
  qed
  show "spec_score m' (spec_insert s m es) = spec_score m' es" if "m' \<noteq> m"
    using that by (intro spec_score_cong ok' ok) (auto simp: spec_insert_def set_insert_entry mem_spec_delete)
qed

lemma spec_delete_score:
  assumes ok: "entries_ok es"
  shows "spec_score m (spec_delete m es) = (0, False)"
    and "m' \<noteq> m \<Longrightarrow> spec_score m' (spec_delete m es) = spec_score m' es"
proof -
  show "spec_score m (spec_delete m es) = (0, False)"
    by (rule spec_score_absent) (auto simp: spec_delete_def)
  show "spec_score m' (spec_delete m es) = spec_score m' es" if "m' \<noteq> m"
    using that by (intro spec_score_cong ok entries_ok_delete) (auto simp: mem_spec_delete)
qed

lemma rank_position:
  assumes "(s, m) \<in> set es" "entries_ok es"
  shows "length (takeWhile (\<lambda>e. snd e \<noteq> m) es) < length es"
    and "es ! length (takeWhile (\<lambda>e. snd e \<noteq> m) es) = (s, m)"
proof -
  let ?r = "length (takeWhile (\<lambda>e. snd e \<noteq> m) es)"
  have dw: "dropWhile (\<lambda>e. snd e \<noteq> m) es \<noteq> []" using assms(1) by (force simp: dropWhile_eq_Nil_conv)
  have "length es = ?r + length (dropWhile (\<lambda>e. snd e \<noteq> m) es)"
    by (metis length_append takeWhile_dropWhile_id)
  with dw show r: "?r < length es" by simp
  have "snd (es ! ?r) = m" using nth_length_takeWhile [OF r] by simp
  moreover have "es ! ?r \<in> set es" using r by simp
  ultimately show "es ! ?r = (s, m)"
    using entries_unique [OF assms(2,1), of "fst (es ! ?r)"] by (metis prod.collapse)
qed

lemma slice_single: "k < length xs \<Longrightarrow> slice (int k) (int k) xs = [xs ! k]"
  by (simp add: slice_def take_Suc_conv_app_nth Cons_nth_drop_Suc [symmetric])

lemma slice_rev:
  assumes "0 \<le> a" "a \<le> b" "b < int (length xs)"
  shows "slice a b (rev xs) = rev (slice (int (length xs) - 1 - b) (int (length xs) - 1 - a) xs)"
proof -
  let ?n = "length xs" and ?a = "nat a" and ?b = "nat b"
  have ab: "?a \<le> ?b" "?b < ?n" "a = int ?a" "b = int ?b" using assms by auto
  have "nat (b - max 0 a + 1) = ?b - ?a + 1" using assms by auto
  then have "slice a b (rev xs) = take (?b - ?a + 1) (drop ?a (rev xs))"
    by (simp add: slice_def)
  also have "\<dots> = rev (drop (?n - 1 - ?b) (take (?n - ?a) xs))"
    using ab(1,2) by (simp add: drop_rev take_rev Suc_diff_Suc)
  also have "drop (?n - 1 - ?b) (take (?n - ?a) xs) = take (?b - ?a + 1) (drop (?n - 1 - ?b) xs)"
    using ab(1,2) by (simp add: drop_take Suc_diff_le)
  also have "\<dots> = slice (int ?n - 1 - b) (int ?n - 1 - a) xs"
  proof -
    have "nat (int ?n - 1 - a - max 0 (int ?n - 1 - b) + 1) = ?b - ?a + 1" "nat (int ?n - 1 - b) = ?n - 1 - ?b"
      using assms by auto
    then show ?thesis by (simp add: slice_def)
  qed
  finally show ?thesis .
qed

text \<open>
  The contract the sorted-set store relies on. A state represents a list of entries; an
  insertion and a deletion act on that list as the reference operations do, whatever the
  random draws are; the queries answer from it.
\<close>

locale scored_set =
  fixes repr :: "'s \<Rightarrow> entry list \<Rightarrow> bool"
    and empty :: 's
    and ins :: "'c \<Rightarrow> float64 \<Rightarrow> string \<Rightarrow> 's \<Rightarrow> 's option"
    and del :: "string \<Rightarrow> 's \<Rightarrow> ('s \<times> bool) option"
    and look :: "string \<Rightarrow> 's \<Rightarrow> float64 \<times> bool"
    and rnk :: "string \<Rightarrow> 's \<Rightarrow> rank_outcome option"
    and rng :: "int \<Rightarrow> int \<Rightarrow> 's \<Rightarrow> entry list option"
    and rev_rng :: "int \<Rightarrow> int \<Rightarrow> 's \<Rightarrow> entry list option"
    and size_of :: "'s \<Rightarrow> nat"
  assumes repr_empty: "repr empty []"
    and repr_ok: "repr s es \<Longrightarrow> entries_ok es"
    and repr_size: "repr s es \<Longrightarrow> size_of s = length es"
    and repr_ins: "repr s es \<Longrightarrow> \<not> f64_isNaN sc \<Longrightarrow> \<exists>s'. ins c sc m s = Some s' \<and> repr s' (spec_insert sc m es)"
    and repr_del: "repr s es \<Longrightarrow> \<exists>s'. del m s = Some (s', m \<in> snd ` set es) \<and> repr s' (spec_delete m es)"
    and repr_look: "repr s es \<Longrightarrow> look m s = spec_score m es"
    and repr_rnk: "repr s es \<Longrightarrow> rnk m s =
          Some (if m \<in> snd ` set es then Rank (length (takeWhile (\<lambda>e. snd e \<noteq> m) es)) True else Rank 0 False)"
    and repr_rng: "repr s es \<Longrightarrow> rng a b s = Some (slice a b es)"
    and repr_rev: "repr s es \<Longrightarrow> rev_rng a b s = Some (slice a b (rev es))"
begin

lemma look_found: "repr s es \<Longrightarrow> snd (look m s) \<longleftrightarrow> m \<in> snd ` set es"
  using spec_score_absent [of m es] spec_score_present [of m es]
  by (cases "m \<in> snd ` set es") (auto simp: repr_look repr_ok)

lemma look_ins:
  assumes "repr s es" "\<not> f64_isNaN sc"
  shows "\<exists>s' sc'. ins c sc m s = Some s' \<and> repr s' (spec_insert sc m es) \<and> look m s' = (sc', True) \<and> f64_eq sc' sc \<and>
           (\<forall>m'. m' \<noteq> m \<longrightarrow> look m' s' = look m' s)"
proof -
  obtain s' where s': "ins c sc m s = Some s'" "repr s' (spec_insert sc m es)"
    using repr_ins [OF assms] by blast
  have ok: "entries_ok es" using assms(1) by (rule repr_ok)
  obtain sc' where "f64_eq sc' sc" "look m s' = (sc', True)"
    using spec_insert_ok(2) [OF ok assms(2), of m] repr_look [OF s'(2)] by auto
  moreover have "look m' s' = look m' s" if "m' \<noteq> m" for m'
    using spec_insert_ok(3) [OF ok assms(2) that] repr_look [OF s'(2)] repr_look [OF assms(1)] by simp
  ultimately show ?thesis using s' by blast
qed

lemma look_del:
  assumes "repr s es"
  shows "\<exists>s'. del m s = Some (s', snd (look m s)) \<and> repr s' (spec_delete m es) \<and> look m s' = (0, False) \<and>
           (\<forall>m'. m' \<noteq> m \<longrightarrow> look m' s' = look m' s)"
proof -
  obtain s' where s': "del m s = Some (s', m \<in> snd ` set es)" "repr s' (spec_delete m es)"
    using repr_del [OF assms] by blast
  have ok: "entries_ok es" using assms by (rule repr_ok)
  have "snd (look m s) \<longleftrightarrow> m \<in> snd ` set es"
    using assms by (rule look_found)
  then show ?thesis
    using s' spec_delete_score [OF ok] repr_look [OF s'(2)] repr_look [OF assms] by auto
qed

lemma rank_is_position:
  assumes "repr s es" "rnk m s = Some (Rank r True)"
  shows "r < size_of s \<and> rng (int r) (int r) s = Some [(fst (look m s), m)]"
proof -
  have ok: "entries_ok es" using assms(1) by (rule repr_ok)
  have m: "m \<in> snd ` set es" and r: "r = length (takeWhile (\<lambda>e. snd e \<noteq> m) es)"
    using assms repr_rnk [OF assms(1), of m] by (auto split: if_splits)
  obtain sc where sc: "(sc, m) \<in> set es" "spec_score m es = (sc, True)"
    using spec_score_present [OF m ok] by blast
  show ?thesis
    using rank_position [OF sc(1) ok] sc(2) repr_size [OF assms(1)] repr_rng [OF assms(1)]
      repr_look [OF assms(1)] slice_single [of r es] by (simp add: r)
qed

lemma rank_total:
  assumes "repr s es"
  shows "\<exists>r. rnk m s = Some (Rank r (snd (look m s)))"
proof -
  have "snd (look m s) \<longleftrightarrow> m \<in> snd ` set es"
    using assms by (rule look_found)
  then show ?thesis using repr_rnk [OF assms, of m] by auto
qed

lemma rev_range_mirrors:
  assumes "repr s es" "0 \<le> a" "a \<le> b" "b < int (size_of s)"
  shows "rev_rng a b s = map_option rev (rng (int (size_of s) - 1 - b) (int (size_of s) - 1 - a) s)"
  using assms slice_rev [of a b es] repr_size [OF assms(1)]
  by (simp add: repr_rng [OF assms(1)] repr_rev [OF assms(1)])

lemma insert_sorted_list:
  assumes "entries_ok (done @ es)" "repr s done"
  shows "\<exists>s'. insert_list ins coins k es s = Some s' \<and> repr s' (done @ es)"
  using assms
proof (induction es arbitrary: "done" k s)
  case (Cons e es)
  obtain sc m where e: "e = (sc, m)" by (cases e)
  have "\<not> f64_isNaN sc" using Cons.prems(1) e by (auto simp: entries_ok_def)
  then obtain s1 where s1: "ins (coins k) sc m s = Some s1" "repr s1 (done @ [(sc, m)])"
    using repr_ins [OF Cons.prems(2)] spec_insert_append [OF Cons.prems(1) [unfolded e]] by metis
  then show ?case using Cons.IH [of "done @ [e]" s1 "Suc k"] Cons.prems(1) e by simp
qed simp

end

lemma sl_repr_look: "sl_repr sl es \<Longrightarrow> search_sl m sl = spec_score m es"
  by (auto simp: search_sl_def spec_score_def sl_repr_def sl_inv_def)

interpretation sl: scored_set sl_repr newSkipList insert_sl delete_sl search_sl rank_sl rangeByRank revRangeByRank sl_length
  by unfold_locales
    (fact sl_repr_new sl_repr_okD sl_repr_length sl_repr_insert sl_repr_delete sl_repr_look sl_repr_rank
      sl_repr_range sl_repr_rev_range)+

section \<open>Properties of the skip list\<close>

text \<open>
  C19: the skip list's \<^verbatim>\<open>insert\<close>, at the level of its pointers, terminates without a \<^verbatim>\<open>nil\<close>
  dereference for every sequence of random draws and every score but NaN, and implements insertion
  into the sorted list of entries: the member is found afterwards with an equal score, no other member
  changes, and the entries stay in order without duplicates.
\<close>

theorem insert_implements_sorted_insertion:
  assumes "sl_repr sl es" "\<not> f64_isNaN sc"
  shows "\<exists>sl' sc'. insert_sl coin sc m sl = Some sl' \<and> sl_repr sl' (spec_insert sc m es) \<and>
     search_sl m sl' = (sc', True) \<and> f64_eq sc' sc \<and> (\<forall>m'. m' \<noteq> m \<longrightarrow> search_sl m' sl' = search_sl m' sl) \<and>
     entries_ok (spec_insert sc m es)"
  using sl.look_ins [OF assms, of coin m] spec_insert_ok(1) [OF sl_repr_okD [OF assms(1)] assms(2)] by blast

theorem insert_implements_sorted_insertion_witness:
  "\<exists>sl' sc'. insert_sl (\<lambda>k. k < 3) 0 ''m'' newSkipList = Some sl' \<and> search_sl ''m'' sl' = (sc', True) \<and> f64_eq sc' 0"
proof -
  have "\<not> f64_isNaN 0" by (simp add: f64_isNaN_def f64_magnitude_def)
  then show ?thesis using insert_implements_sorted_insertion [OF sl_repr_new, of 0 "\<lambda>k. k < 3" "''m''"] by blast
qed

text \<open>
  \<^verbatim>\<open>delete\<close> terminates, says whether the member was there, removes it and nothing else,
  and the length goes down by one exactly then.
\<close>

theorem delete_implements_removal:
  assumes "sl_repr sl es"
  shows "\<exists>sl'. delete_sl m sl = Some (sl', snd (search_sl m sl)) \<and> sl_repr sl' (spec_delete m es) \<and>
     search_sl m sl' = (0, False) \<and> (\<forall>m'. m' \<noteq> m \<longrightarrow> search_sl m' sl' = search_sl m' sl) \<and>
     sl_length sl' = sl_length sl - (if snd (search_sl m sl) then 1 else 0)"
proof -
  obtain sl' where d: "delete_sl m sl = Some (sl', snd (search_sl m sl))" "sl_repr sl' (spec_delete m es)"
    "search_sl m sl' = (0, False)" "\<forall>m'. m' \<noteq> m \<longrightarrow> search_sl m' sl' = search_sl m' sl"
    using sl.look_del [OF assms] by blast
  have ok: "entries_ok es" using assms by (rule sl_repr_okD)
  have "length (spec_delete m es) = length es - (if m \<in> snd ` set es then 1 else 0)"
  proof (cases "m \<in> snd ` set es")
    case True
    then obtain s where "(s, m) \<in> set es" by auto
    then obtain xs ys where es: "es = xs @ (s, m) # ys" by (meson split_list)
    then show ?thesis using True entries_ok_split(2) [of xs "(s, m)" ys] ok by simp
  qed (simp add: spec_delete_absent)
  then have "sl_length sl' = sl_length sl - (if snd (search_sl m sl) then 1 else 0)"
    using sl.look_found [OF assms, of m] sl_repr_length [OF assms] sl_repr_length [OF d(2)] by simp
  then show ?thesis using d by blast
qed

theorem delete_implements_removal_witness:
  "\<exists>sl'. delete_sl ''m'' newSkipList = Some (sl', False) \<and> sl_length sl' = 0"
  using delete_implements_removal [OF sl_repr_new, of "''m''"]
  by (auto simp: newSkipList_def search_sl_def)

text \<open>
  \<^verbatim>\<open>revRangeByRank\<close>, which follows the backward pointers from the tail, is the mirror
  image of \<^verbatim>\<open>rangeByRank\<close>, which follows the forward pointers from the header.
\<close>

theorem revRange_mirrors_range:
  assumes "sl_repr sl es" "0 \<le> a" "a \<le> b" "b < int (sl_length sl)"
  shows "\<exists>xs. rangeByRank (int (sl_length sl) - 1 - b) (int (sl_length sl) - 1 - a) sl = Some xs \<and>
     revRangeByRank a b sl = Some (rev xs) \<and> length xs = nat (b - a + 1)"
proof -
  let ?x = "int (sl_length sl) - 1 - b" and ?y = "int (sl_length sl) - 1 - a"
  have n: "sl_length sl = length es" using assms(1) by (rule sl_repr_length)
  have "length (slice ?x ?y es) = nat (b - a + 1)" using assms(2-) n by (simp add: slice_def)
  then show ?thesis
    using sl.rev_range_mirrors [OF assms] sl_repr_range [OF assms(1), of ?x ?y] by simp
qed

theorem revRange_mirrors_range_witness:
  "\<exists>sl xs. insert_sl (\<lambda>_. True) 0 ''m'' newSkipList = Some sl \<and> rangeByRank 0 0 sl = Some xs \<and> revRangeByRank 0 0 sl = Some (rev xs)"
proof -
  have "\<not> f64_isNaN 0" by (simp add: f64_isNaN_def f64_magnitude_def)
  then obtain sl where sl: "insert_sl (\<lambda>_. True) 0 ''m'' newSkipList = Some sl" "sl_repr sl (spec_insert 0 ''m'' [])"
    using sl_repr_insert [OF sl_repr_new] by blast
  then have "sl_length sl = 1" using sl_repr_length by (fastforce simp: spec_insert_def spec_delete_def)
  then show ?thesis using sl(1) revRange_mirrors_range [OF sl(2), of 0 0] by auto
qed

end
