(* ===== verification/KVState.thy ===== *)
theory KVState
  imports RaftTypes SkipListSpec
begin

text \<open>
  The state of the key-value store and the two tables every data type shares: the type of
  each key (\<^verbatim>\<open>KVStore.keyTypes\<close>, \<^verbatim>\<open>internal/kvstore/store.go\<close>) and the expiration times
  (\<^verbatim>\<open>TTLManager\<close>, \<^verbatim>\<open>internal/kvstore/ttl.go\<close>). The four sub-stores point back to the
  \<^verbatim>\<open>KVStore\<close> and share one \<^verbatim>\<open>TTLManager\<close>, so the model is one record with a field for the
  data of each. A Go map is a map; the fields of one hash are an association list because
  the code asks for their number. Every reading of the clock is an argument. Operations are
  modelled at the granularity of their locks: each method is one step, and
  \<^verbatim>\<open>TTLManager.cleanup\<close>, which calls back outside its lock, is two.
\<close>

section \<open>State and errors\<close>

datatype kv_error =
    ErrKeyNotFound | ErrWrongType | ErrOutOfRange | ErrEmptyList | ErrUnknownCommand | ErrInvalidArgs
  | ErrProto

record kvstore =
  keyTypes :: "string \<rightharpoonup> string"
  str_data :: "string \<rightharpoonup> string"
  hash_data :: "string \<rightharpoonup> (string \<times> string) list"
  list_data :: "string \<rightharpoonup> string list"
  zset_data :: "string \<rightharpoonup> skipList"
  expiry :: "string \<rightharpoonup> gotime"

definition NewKVStore :: kvstore where
  "NewKVStore = \<lparr>keyTypes = Map.empty, str_data = Map.empty, hash_data = Map.empty, list_data = Map.empty,
     zset_data = Map.empty, expiry = Map.empty\<rparr>"

section \<open>The table of key types\<close>

definition CheckType :: "string \<Rightarrow> string \<Rightarrow> kvstore \<Rightarrow> kv_error option" where
  "CheckType key expected kv =
     (case keyTypes kv key of
        Some t \<Rightarrow> if t \<noteq> expected then Some ErrWrongType else None
      | None \<Rightarrow> None)"

definition SetType :: "string \<Rightarrow> string \<Rightarrow> kvstore \<Rightarrow> kvstore" where
  "SetType key typ kv = kv\<lparr>keyTypes := (keyTypes kv)(key \<mapsto> typ)\<rparr>"

definition CheckAndSetType :: "string \<Rightarrow> string \<Rightarrow> kvstore \<Rightarrow> kvstore \<times> kv_error option" where
  "CheckAndSetType key expected kv =
     (case keyTypes kv key of
        Some t \<Rightarrow> if t \<noteq> expected then (kv, Some ErrWrongType)
                  else (kv\<lparr>keyTypes := (keyTypes kv)(key \<mapsto> expected)\<rparr>, None)
      | None \<Rightarrow> (kv\<lparr>keyTypes := (keyTypes kv)(key \<mapsto> expected)\<rparr>, None))"

definition DeleteType :: "string \<Rightarrow> kvstore \<Rightarrow> kvstore" where
  "DeleteType key kv = kv\<lparr>keyTypes := (keyTypes kv)(key := None)\<rparr>"

section \<open>Expiration times\<close>

text \<open>
  \<^verbatim>\<open>time.UnixMilli(ms)\<close> and \<^verbatim>\<open>t.UnixMilli()\<close>; \<^verbatim>\<open>time.Until\<close> saturates at the bounds of
  \<^verbatim>\<open>time.Duration\<close>, an \<^verbatim>\<open>int64\<close> of nanoseconds.
\<close>

definition unix_milli :: "int64 \<Rightarrow> gotime" where
  "unix_milli ms = ms * 1000000"

definition to_unix_milli :: "gotime \<Rightarrow> int64" where
  "to_unix_milli t = wrap64 (t div 1000000)"

definition dur_saturate :: "int \<Rightarrow> int64" where
  "dur_saturate d = (if d < min_int64 then min_int64 else if max_int64 < d then max_int64 else d)"

definition ttl_Set :: "gotime \<Rightarrow> string \<Rightarrow> int64 \<Rightarrow> kvstore \<Rightarrow> kvstore" where
  "ttl_Set now key ttl kv =
     (if ttl \<le> 0 then kv\<lparr>expiry := (expiry kv)(key := None)\<rparr>
      else kv\<lparr>expiry := (expiry kv)(key \<mapsto> now + ttl)\<rparr>)"

definition ttl_Get :: "gotime \<Rightarrow> string \<Rightarrow> kvstore \<Rightarrow> int64 \<times> bool" where
  "ttl_Get now key kv =
     (case expiry kv key of
        None \<Rightarrow> (0, False)
      | Some exp \<Rightarrow>
          (let rem = dur_saturate (exp - now) in if rem \<le> 0 then (0, False) else (rem, True)))"

definition ttl_SetAbsolute :: "string \<Rightarrow> int64 \<Rightarrow> kvstore \<Rightarrow> kvstore" where
  "ttl_SetAbsolute key expiryUnixMilli kv =
     (if expiryUnixMilli \<le> 0 then kv\<lparr>expiry := (expiry kv)(key := None)\<rparr>
      else kv\<lparr>expiry := (expiry kv)(key \<mapsto> unix_milli expiryUnixMilli)\<rparr>)"

definition ttl_Delete :: "string \<Rightarrow> kvstore \<Rightarrow> kvstore" where
  "ttl_Delete key kv = kv\<lparr>expiry := (expiry kv)(key := None)\<rparr>"

definition IsExpired :: "gotime \<Rightarrow> string \<Rightarrow> kvstore \<Rightarrow> bool" where
  "IsExpired now key kv = (case expiry kv key of None \<Rightarrow> False | Some exp \<Rightarrow> exp < now)"

text \<open>
  The first phase of \<^verbatim>\<open>cleanup\<close>, under the lock: \<open>order\<close> is the order in which the map
  iteration visits the keys. The callbacks are made in \<open>cleanup_callbacks\<close> below.
\<close>

fun cleanup_collect :: "gotime \<Rightarrow> string list \<Rightarrow> kvstore \<Rightarrow> string list \<Rightarrow> kvstore \<times> string list" where
  "cleanup_collect now [] kv expired = (kv, expired)"
| "cleanup_collect now (k # order) kv expired =
     (if IsExpired now k kv
      then cleanup_collect now order (kv\<lparr>expiry := (expiry kv)(k := None)\<rparr>) (expired @ [k])
      else cleanup_collect now order kv expired)"

lemmas type_table_defs = CheckType_def SetType_def CheckAndSetType_def DeleteType_def
lemmas ttl_defs = ttl_Set_def ttl_SetAbsolute_def ttl_Delete_def

declare type_table_defs [kv_defs] ttl_defs [kv_defs]

section \<open>Deleting a key's data\<close>

text \<open>\<^verbatim>\<open>StringStore.Delete\<close> (string.go) and the helper \<^verbatim>\<open>deleteKey\<close> of each other store.\<close>

definition str_Delete :: "string \<Rightarrow> kvstore \<Rightarrow> kvstore \<times> kv_error option" where
  "str_Delete key kv =
     (let exists = str_data kv key \<noteq> None;
          kv1 = (if exists then kv\<lparr>str_data := (str_data kv)(key := None)\<rparr> else kv);
          kv2 = DeleteType key (ttl_Delete key kv1)
      in if \<not> exists then (kv2, Some ErrKeyNotFound) else (kv2, None))"

definition hash_deleteKey :: "string \<Rightarrow> kvstore \<Rightarrow> kvstore" where
  "hash_deleteKey key kv = DeleteType key (ttl_Delete key (kv\<lparr>hash_data := (hash_data kv)(key := None)\<rparr>))"

definition list_deleteKey :: "string \<Rightarrow> kvstore \<Rightarrow> kvstore" where
  "list_deleteKey key kv = DeleteType key (ttl_Delete key (kv\<lparr>list_data := (list_data kv)(key := None)\<rparr>))"

definition zset_deleteKeyLocked :: "string \<Rightarrow> kvstore \<Rightarrow> kvstore" where
  "zset_deleteKeyLocked key kv = kv\<lparr>zset_data := (zset_data kv)(key := None)\<rparr>"

definition zset_deleteKey :: "string \<Rightarrow> kvstore \<Rightarrow> kvstore" where
  "zset_deleteKey key kv = DeleteType key (ttl_Delete key (kv\<lparr>zset_data := (zset_data kv)(key := None)\<rparr>))"

text \<open>\<^verbatim>\<open>KVStore.deleteKey\<close>, the callback of the background cleanup.\<close>

definition kv_deleteKey :: "string \<Rightarrow> kvstore \<Rightarrow> kvstore" where
  "kv_deleteKey key kv =
     (case keyTypes kv key of
        None \<Rightarrow> kv
      | Some typ \<Rightarrow>
          if typ = ''string'' then fst (str_Delete key kv)
          else if typ = ''hash'' then hash_deleteKey key kv
          else if typ = ''list'' then list_deleteKey key kv
          else if typ = ''zset'' then zset_deleteKey key kv
          else kv)"

fun cleanup_callbacks :: "string list \<Rightarrow> kvstore \<Rightarrow> kvstore" where
  "cleanup_callbacks [] kv = kv"
| "cleanup_callbacks (k # ks) kv = cleanup_callbacks ks (kv_deleteKey k kv)"

definition cleanup :: "gotime \<Rightarrow> string list \<Rightarrow> kvstore \<Rightarrow> kvstore" where
  "cleanup now order kv = (let (kv1, expired) = cleanup_collect now order kv [] in cleanup_callbacks expired kv1)"

declare str_Delete_def [kv_defs] hash_deleteKey_def [kv_defs] list_deleteKey_def [kv_defs]
  zset_deleteKeyLocked_def [kv_defs] zset_deleteKey_def [kv_defs]

end
