(* ===== verification/StringStore.thy ===== *)
theory StringStore
  imports KVState
begin

text \<open>
  String values (\<^verbatim>\<open>internal/kvstore/string.go\<close>): \<^verbatim>\<open>Set\<close>, \<^verbatim>\<open>Get\<close>, \<^verbatim>\<open>Incr\<close> and \<^verbatim>\<open>Decr\<close>
  (\<^verbatim>\<open>Delete\<close> is in \<open>KVState\<close>, where the cleanup needs it). A counter is kept in decimal and
  computed in 64-bit two's complement.
\<close>

text \<open>The deletion of an expired key at the start of an operation; only \<^verbatim>\<open>ErrKeyNotFound\<close> is let through.\<close>

definition str_expire :: "gotime \<Rightarrow> string \<Rightarrow> kvstore \<Rightarrow> kvstore \<times> kv_error option" where
  "str_expire now key kv =
     (if IsExpired now key kv
      then (let (kv1, err) = str_Delete key kv
            in if err \<noteq> None \<and> err \<noteq> Some ErrKeyNotFound then (kv1, err) else (kv1, None))
      else (kv, None))"

definition str_Set :: "gotime \<Rightarrow> gotime \<Rightarrow> string \<Rightarrow> string \<Rightarrow> int64 \<Rightarrow> kvstore \<Rightarrow> kvstore \<times> kv_error option" where
  "str_Set now now' key value ttl kv =
     (case str_expire now key kv of
        (kv1, Some e) \<Rightarrow> (kv1, Some e)
      | (kv1, None) \<Rightarrow>
          (case CheckAndSetType key ''string'' kv1 of
             (kv2, Some e) \<Rightarrow> (kv2, Some e)
           | (kv2, None) \<Rightarrow>
               (let kv3 = kv2\<lparr>str_data := (str_data kv2)(key \<mapsto> value)\<rparr>
                in (if 0 < ttl then ttl_Set now' key ttl kv3 else kv3, None))))"

definition str_Get :: "gotime \<Rightarrow> string \<Rightarrow> kvstore \<Rightarrow> kvstore \<times> (kv_error + string)" where
  "str_Get now key kv =
     (case CheckType key ''string'' kv of
        Some e \<Rightarrow> (kv, Inl e)
      | None \<Rightarrow>
          if IsExpired now key kv
          then (case str_expire now key kv of
                  (kv1, Some e) \<Rightarrow> (kv1, Inl e)
                | (kv1, None) \<Rightarrow> (kv1, Inl ErrKeyNotFound))
          else (case str_data kv key of
                  None \<Rightarrow> (kv, Inl ErrKeyNotFound)
                | Some val \<Rightarrow> (kv, Inr val)))"

definition addValue :: "gotime \<Rightarrow> string \<Rightarrow> int64 \<Rightarrow> kvstore \<Rightarrow> kvstore \<times> (kv_error + int64)" where
  "addValue now key delta kv =
     (case str_expire now key kv of
        (kv1, Some e) \<Rightarrow> (kv1, Inl e)
      | (kv1, None) \<Rightarrow>
          (case CheckAndSetType key ''string'' kv1 of
             (kv2, Some e) \<Rightarrow> (kv2, Inl e)
           | (kv2, None) \<Rightarrow>
               (let parsed = (case str_data kv2 key of None \<Rightarrow> (0, None) | Some valStr \<Rightarrow> parse_int valStr)
                in case snd parsed of
                     Some _ \<Rightarrow> (kv2, Inl ErrWrongType)
                   | None \<Rightarrow>
                       (let newVal = wrap64 (fst parsed + delta)
                        in (kv2\<lparr>str_data := (str_data kv2)(key \<mapsto> format_int newVal)\<rparr>, Inr newVal)))))"

definition Incr :: "gotime \<Rightarrow> string \<Rightarrow> kvstore \<Rightarrow> kvstore \<times> (kv_error + int64)" where
  "Incr now key kv = addValue now key 1 kv"

definition Decr :: "gotime \<Rightarrow> string \<Rightarrow> kvstore \<Rightarrow> kvstore \<times> (kv_error + int64)" where
  "Decr now key kv = addValue now key (- 1) kv"

declare str_expire_def [kv_defs] str_Set_def [kv_defs] str_Get_def [kv_defs] addValue_def [kv_defs]
  Incr_def [kv_defs] Decr_def [kv_defs]

lemma str_expire_eq:
  "str_expire now key kv =
     (if IsExpired now key kv
      then (kv\<lparr>str_data := (str_data kv)(key := None), keyTypes := (keyTypes kv)(key := None), expiry := (expiry kv)(key := None)\<rparr>, None)
      else (kv, None))"
  by (cases "str_data kv key") (auto simp: kv_defs Let_def fun_upd_idem)

end
