(* ===== verification/HashStore.thy ===== *)
theory HashStore
  imports KVState "HOL-Library.AList"
begin

text \<open>
  Hashes (\<^verbatim>\<open>internal/kvstore/hash.go\<close>). The fields of one hash are an association list
  without duplicates; an empty hash is removed with its key, its type and its expiration.
\<close>

definition HSet :: "gotime \<Rightarrow> gotime \<Rightarrow> string \<Rightarrow> string \<Rightarrow> string \<Rightarrow> int64 \<Rightarrow> kvstore \<Rightarrow> kvstore \<times> kv_error option" where
  "HSet now now' key field value ttl kv =
     (let kv1 = (if IsExpired now key kv then hash_deleteKey key kv else kv)
      in case CheckAndSetType key ''hash'' kv1 of
           (kv2, Some e) \<Rightarrow> (kv2, Some e)
         | (kv2, None) \<Rightarrow>
             (let hash = (case hash_data kv2 key of None \<Rightarrow> [] | Some h \<Rightarrow> h);
                  kv3 = kv2\<lparr>hash_data := (hash_data kv2)(key \<mapsto> AList.update field value hash)\<rparr>
              in (if 0 < ttl then ttl_Set now' key ttl kv3 else kv3, None)))"

definition HGet :: "gotime \<Rightarrow> string \<Rightarrow> string \<Rightarrow> kvstore \<Rightarrow> kvstore \<times> (kv_error + string)" where
  "HGet now key field kv =
     (case CheckType key ''hash'' kv of
        Some e \<Rightarrow> (kv, Inl e)
      | None \<Rightarrow>
          if IsExpired now key kv then (hash_deleteKey key kv, Inl ErrKeyNotFound)
          else (case hash_data kv key of
                  None \<Rightarrow> (kv, Inl ErrKeyNotFound)
                | Some hash \<Rightarrow>
                    (case map_of hash field of
                       None \<Rightarrow> (kv, Inl ErrKeyNotFound)
                     | Some val \<Rightarrow> (kv, Inr val))))"

definition HDelete :: "gotime \<Rightarrow> string \<Rightarrow> string \<Rightarrow> kvstore \<Rightarrow> kvstore \<times> kv_error option" where
  "HDelete now key field kv =
     (case CheckType key ''hash'' kv of
        Some e \<Rightarrow> (kv, Some e)
      | None \<Rightarrow>
          if IsExpired now key kv then (hash_deleteKey key kv, Some ErrKeyNotFound)
          else (case hash_data kv key of
                  None \<Rightarrow> (kv, Some ErrKeyNotFound)
                | Some hash \<Rightarrow>
                    if map_of hash field = None then (kv, Some ErrKeyNotFound)
                    else (let hash' = AList.delete field hash
                          in if hash' = []
                             then (DeleteType key (ttl_Delete key (kv\<lparr>hash_data := (hash_data kv)(key := None)\<rparr>)), None)
                             else (kv\<lparr>hash_data := (hash_data kv)(key \<mapsto> hash')\<rparr>, None))))"

definition HGetAll :: "gotime \<Rightarrow> string \<Rightarrow> kvstore \<Rightarrow> kvstore \<times> (kv_error + (string \<rightharpoonup> string))" where
  "HGetAll now key kv =
     (case CheckType key ''hash'' kv of
        Some e \<Rightarrow> (kv, Inl e)
      | None \<Rightarrow>
          if IsExpired now key kv then (hash_deleteKey key kv, Inl ErrKeyNotFound)
          else (case hash_data kv key of
                  None \<Rightarrow> (kv, Inl ErrKeyNotFound)
                | Some hash \<Rightarrow> (kv, Inr (map_of hash))))"

definition HExists :: "gotime \<Rightarrow> string \<Rightarrow> string \<Rightarrow> kvstore \<Rightarrow> kvstore \<times> (kv_error + bool)" where
  "HExists now key field kv =
     (case CheckType key ''hash'' kv of
        Some e \<Rightarrow> (kv, Inl e)
      | None \<Rightarrow>
          if IsExpired now key kv then (hash_deleteKey key kv, Inl ErrKeyNotFound)
          else (case hash_data kv key of
                  None \<Rightarrow> (kv, Inl ErrKeyNotFound)
                | Some hash \<Rightarrow> (kv, Inr (map_of hash field \<noteq> None))))"

declare HSet_def [kv_defs] HGet_def [kv_defs] HDelete_def [kv_defs] HGetAll_def [kv_defs] HExists_def [kv_defs]

end
