(* ===== verification/ListStore.thy ===== *)
theory ListStore
  imports KVState
begin

text \<open>
  Lists (\<^verbatim>\<open>internal/kvstore/list.go\<close>). A doubly linked \<^verbatim>\<open>container/list\<close> is the list of its
  values from front to back: \<^verbatim>\<open>PushFront\<close>, \<^verbatim>\<open>PushBack\<close>, and \<^verbatim>\<open>Remove\<close> at either end. The
  loop of \<^verbatim>\<open>LRange\<close> is kept as a loop over the elements.
\<close>

fun push_front_all :: "string list \<Rightarrow> string list \<Rightarrow> string list" where
  "push_front_all [] ll = ll"
| "push_front_all (v # vs) ll = push_front_all vs (v # ll)"

fun push_back_all :: "string list \<Rightarrow> string list \<Rightarrow> string list" where
  "push_back_all [] ll = ll"
| "push_back_all (v # vs) ll = push_back_all vs (ll @ [v])"

definition LPush :: "gotime \<Rightarrow> gotime \<Rightarrow> string \<Rightarrow> int64 \<Rightarrow> string list \<Rightarrow> kvstore \<Rightarrow> kvstore \<times> (kv_error + int64)" where
  "LPush now now' key ttl values kv =
     (let kv1 = (if IsExpired now key kv then list_deleteKey key kv else kv)
      in case CheckAndSetType key ''list'' kv1 of
           (kv2, Some e) \<Rightarrow> (kv2, Inl e)
         | (kv2, None) \<Rightarrow>
             (let ll = (case list_data kv2 key of None \<Rightarrow> [] | Some l \<Rightarrow> l);
                  ll' = push_front_all values ll;
                  kv3 = kv2\<lparr>list_data := (list_data kv2)(key \<mapsto> ll')\<rparr>
              in (if 0 < ttl then ttl_Set now' key ttl kv3 else kv3, Inr (int (length ll')))))"

definition RPush :: "gotime \<Rightarrow> gotime \<Rightarrow> string \<Rightarrow> int64 \<Rightarrow> string list \<Rightarrow> kvstore \<Rightarrow> kvstore \<times> (kv_error + int64)" where
  "RPush now now' key ttl values kv =
     (let kv1 = (if IsExpired now key kv then list_deleteKey key kv else kv)
      in case CheckAndSetType key ''list'' kv1 of
           (kv2, Some e) \<Rightarrow> (kv2, Inl e)
         | (kv2, None) \<Rightarrow>
             (let ll = (case list_data kv2 key of None \<Rightarrow> [] | Some l \<Rightarrow> l);
                  ll' = push_back_all values ll;
                  kv3 = kv2\<lparr>list_data := (list_data kv2)(key \<mapsto> ll')\<rparr>
              in (if 0 < ttl then ttl_Set now' key ttl kv3 else kv3, Inr (int (length ll')))))"

text \<open>What \<^verbatim>\<open>LPop\<close> and \<^verbatim>\<open>RPop\<close> do once the element is removed.\<close>

definition pop_finish :: "string \<Rightarrow> string list \<Rightarrow> kvstore \<Rightarrow> kvstore" where
  "pop_finish key ll kv =
     (if ll = [] then DeleteType key (ttl_Delete key (kv\<lparr>list_data := (list_data kv)(key := None)\<rparr>))
      else kv\<lparr>list_data := (list_data kv)(key \<mapsto> ll)\<rparr>)"

definition LPop :: "gotime \<Rightarrow> string \<Rightarrow> kvstore \<Rightarrow> kvstore \<times> (kv_error + string)" where
  "LPop now key kv =
     (case CheckType key ''list'' kv of
        Some e \<Rightarrow> (kv, Inl e)
      | None \<Rightarrow>
          if IsExpired now key kv then (list_deleteKey key kv, Inl ErrKeyNotFound)
          else (case list_data kv key of
                  None \<Rightarrow> (kv, Inl ErrKeyNotFound)
                | Some [] \<Rightarrow> (kv, Inl ErrEmptyList)
                | Some (v # ll) \<Rightarrow> (pop_finish key ll kv, Inr v)))"

definition RPop :: "gotime \<Rightarrow> string \<Rightarrow> kvstore \<Rightarrow> kvstore \<times> (kv_error + string)" where
  "RPop now key kv =
     (case CheckType key ''list'' kv of
        Some e \<Rightarrow> (kv, Inl e)
      | None \<Rightarrow>
          if IsExpired now key kv then (list_deleteKey key kv, Inl ErrKeyNotFound)
          else (case list_data kv key of
                  None \<Rightarrow> (kv, Inl ErrKeyNotFound)
                | Some ll \<Rightarrow>
                    if ll = [] then (kv, Inl ErrEmptyList)
                    else (pop_finish key (butlast ll) kv, Inr (last ll))))"

text \<open>
  \<^verbatim>\<open>for i := 0; i <= stop; i++\<close>: \<open>cur\<close> is the rest of the list from \<^verbatim>\<open>curr\<close>; a \<^verbatim>\<open>nil\<close>
  dereference is \<open>None\<close>.
\<close>

fun lrange_loop :: "int \<Rightarrow> int \<Rightarrow> int \<Rightarrow> string list \<Rightarrow> string list \<Rightarrow> string list option" where
  "lrange_loop start stop i [] res = (if stop < i then Some res else None)"
| "lrange_loop start stop i (v # cur) res =
     (if stop < i then Some res else lrange_loop start stop (i + 1) cur (if start \<le> i then res @ [v] else res))"

text \<open>Redis indices: a negative one counts from the end and stops at 0.\<close>

definition clamp_index :: "int \<Rightarrow> int \<Rightarrow> int" where
  "clamp_index len i = (if i < 0 then (if len + i < 0 then 0 else len + i) else i)"

definition LRange :: "gotime \<Rightarrow> string \<Rightarrow> int \<Rightarrow> int \<Rightarrow> kvstore \<Rightarrow> (kvstore \<times> (kv_error + string list)) option" where
  "LRange now key start0 stop0 kv =
     (case CheckType key ''list'' kv of
        Some e \<Rightarrow> Some (kv, Inl e)
      | None \<Rightarrow>
          if IsExpired now key kv then Some (list_deleteKey key kv, Inl ErrKeyNotFound)
          else (case list_data kv key of
                  None \<Rightarrow> Some (kv, Inl ErrKeyNotFound)
                | Some ll \<Rightarrow>
                    (let len = int (length ll) in
                     if len = 0 then Some (kv, Inl ErrEmptyList)
                     else
                       (let start = clamp_index len start0; stop1 = clamp_index len stop0 in
                        if len \<le> start then Some (kv, Inr [])
                        else
                          (let stop = (if len \<le> stop1 then len - 1 else stop1) in
                           if stop < start then Some (kv, Inr [])
                           else (case lrange_loop start stop 0 ll [] of
                                   None \<Rightarrow> None
                                 | Some res \<Rightarrow> Some (kv, Inr res)))))))"

definition LLen :: "gotime \<Rightarrow> string \<Rightarrow> kvstore \<Rightarrow> kvstore \<times> (kv_error + int64)" where
  "LLen now key kv =
     (case CheckType key ''list'' kv of
        Some e \<Rightarrow> (kv, Inl e)
      | None \<Rightarrow>
          if IsExpired now key kv then (list_deleteKey key kv, Inr 0)
          else (case list_data kv key of
                  None \<Rightarrow> (kv, Inr 0)
                | Some ll \<Rightarrow> (kv, Inr (int (length ll)))))"

declare LPush_def [kv_defs] RPush_def [kv_defs] pop_finish_def [kv_defs] LPop_def [kv_defs] RPop_def [kv_defs]
  LRange_def [kv_defs] LLen_def [kv_defs]

lemma push_front_all_eq [simp]: "push_front_all vs ll = rev vs @ ll"
  by (induction vs arbitrary: ll) auto

lemma push_back_all_eq [simp]: "push_back_all vs ll = ll @ vs"
  by (induction vs arbitrary: ll) auto

lemma lrange_loop_slice:
  "stop < i + int (length ll) \<Longrightarrow> lrange_loop start stop i ll res = Some (res @ slice (start - i) (stop - i) ll)"
proof (induction ll arbitrary: i res)
  case (Cons v ll)
  then show ?case
    by (cases "stop < i") (auto simp: slice_neg slice_Cons diff_diff_eq)
qed (simp add: slice_neg)

end
