(* ===== verification/GoFloat.thy ===== *)
theory GoFloat
  imports GoNum
begin

text \<open>
  Text and \<^verbatim>\<open>float64\<close> values: \<^verbatim>\<open>strconv.ParseFloat(s, 64)\<close>, which reads the scores of
  \<^verbatim>\<open>ZADD\<close>, and the \<^verbatim>\<open>%g\<close> verb, which prints the scores of \<^verbatim>\<open>ZRANGE ... WITHSCORES\<close>.
  Both are given by what they compute: the double nearest to the number written, ties to
  even, and the shortest decimal that reads back as the same double.
\<close>

section \<open>Rounding a positive rational to a double\<close>

fun bit_len :: "nat \<Rightarrow> nat" where
  "bit_len n = (if n = 0 then 0 else Suc (bit_len (n div 2)))"

declare bit_len.simps [simp del]

text \<open>
  The bit pattern of the double nearest to \<open>num / den\<close>: \<open>e\<close> is the exponent of the unit in
  the last place. A pattern of \<open>2047 * 2 ^ 52\<close> or more is out of range.
\<close>

definition round_bits :: "nat \<Rightarrow> nat \<Rightarrow> nat" where
  "round_bits num den =
     (if num = 0 then 0
      else
        (let e0 = int (bit_len num) - int (bit_len den) - 53;
             scale = (\<lambda>e. if 0 \<le> e then (num, den * 2 ^ nat e) else (num * 2 ^ nat (- e), den));
             e1 = (if 2 ^ 53 * snd (scale e0) \<le> fst (scale e0) then e0 + 1 else e0);
             e = max e1 (- 1074);
             (n, d) = scale e;
             q = n div d;
             r = n mod d;
             q' = (if d < 2 * r \<or> (2 * r = d \<and> odd q) then q + 1 else q)
         in nat (e + 1074) * 2 ^ 52 + q'))"

definition inf_bits :: nat where
  "inf_bits = 2047 * 2 ^ 52"

definition f64_of :: "bool \<Rightarrow> nat \<Rightarrow> float64" where
  "f64_of neg bits = of_nat (bits + (if neg then 2 ^ 63 else 0))"

definition f64_NaN :: float64 where
  "f64_NaN = of_nat (2047 * 2 ^ 52 + 2 ^ 51 + 1)"

definition scaled_rational :: "nat \<Rightarrow> nat \<Rightarrow> int \<Rightarrow> nat \<times> nat" where
  "scaled_rational base m e = (if 0 \<le> e then (m * base ^ nat e, 1) else (m, base ^ nat (- e)))"

section \<open>Reading\<close>

definition to_lower :: "char \<Rightarrow> char" where
  "to_lower c = (if 65 \<le> (of_char c :: nat) \<and> (of_char c :: nat) \<le> 90 then char_of (of_char c + 32 :: nat) else c)"

definition hex_digit :: "char \<Rightarrow> nat option" where
  "hex_digit c =
     (let n = of_char c :: nat; l = of_char (to_lower c) :: nat in
      if 48 \<le> n \<and> n \<le> 57 then Some (n - 48)
      else if 97 \<le> l \<and> l \<le> 102 then Some (l - 87) else None)"

definition base_digit :: "nat \<Rightarrow> char \<Rightarrow> nat option" where
  "base_digit base c = (if base = 16 then hex_digit c else if is_digit c then Some (digit_val c) else None)"

text \<open>
  The mantissa: digits with at most one point; the result is the rest of the text, whether a
  digit was seen, the digits as a number and how many of them follow the point.
\<close>

fun read_mantissa :: "nat \<Rightarrow> string \<Rightarrow> bool \<Rightarrow> bool \<Rightarrow> nat \<Rightarrow> nat \<Rightarrow> string \<times> bool \<times> nat \<times> nat" where
  "read_mantissa base [] sawdot sawdigits m frac = ([], sawdigits, m, frac)"
| "read_mantissa base (c # cs) sawdot sawdigits m frac =
     (if c = CHR ''_'' then read_mantissa base cs sawdot sawdigits m frac
      else if c = CHR ''.'' then
        (if sawdot then (c # cs, sawdigits, m, frac) else read_mantissa base cs True sawdigits m frac)
      else case base_digit base c of
             Some d \<Rightarrow> read_mantissa base cs sawdot True (m * base + d) (if sawdot then frac + 1 else frac)
           | None \<Rightarrow> (c # cs, sawdigits, m, frac))"

text \<open>The digits of the exponent, which stops growing at 10000.\<close>

fun read_exponent :: "string \<Rightarrow> nat \<Rightarrow> string \<times> nat" where
  "read_exponent [] e = ([], e)"
| "read_exponent (c # cs) e =
     (if c = CHR ''_'' then read_exponent cs e
      else if is_digit c then read_exponent cs (if e < 10000 then e * 10 + digit_val c else e)
      else (c # cs, e))"

text \<open>Underscores stand between digits, or between the base prefix and a digit.\<close>

fun underscore_loop :: "bool \<Rightarrow> char \<Rightarrow> string \<Rightarrow> bool" where
  "underscore_loop hex saw [] \<longleftrightarrow> saw \<noteq> CHR ''_''"
| "underscore_loop hex saw (c # cs) \<longleftrightarrow>
     (if is_digit c \<or> (hex \<and> hex_digit c \<noteq> None) then underscore_loop hex (CHR ''0'') cs
      else if c = CHR ''_'' then saw = CHR ''0'' \<and> underscore_loop hex (CHR ''_'') cs
      else saw \<noteq> CHR ''_'' \<and> underscore_loop hex (CHR ''!'') cs)"

definition strip_sign :: "string \<Rightarrow> bool \<times> string" where
  "strip_sign s =
     (case s of
        c # cs \<Rightarrow> if c = CHR ''+'' then (False, cs) else if c = CHR ''-'' then (True, cs) else (False, s)
      | [] \<Rightarrow> (False, []))"

definition underscoreOK :: "string \<Rightarrow> bool" where
  "underscoreOK s =
     (case snd (strip_sign s) of
        c # d # cs \<Rightarrow>
          if c = CHR ''0'' \<and> to_lower d \<in> set ''box'' then underscore_loop (to_lower d = CHR ''x'') (CHR ''0'') cs
          else underscore_loop False (CHR ''^'') (c # d # cs)
      | cs \<Rightarrow> underscore_loop False (CHR ''^'') cs)"

text \<open>
  The exponent part after the mantissa: \<open>None\<close> is a syntax error. A hexadecimal number has
  to have one.
\<close>

definition read_exp_part :: "nat \<Rightarrow> string \<Rightarrow> (string \<times> int) option" where
  "read_exp_part base cs =
     (case cs of
        c # rest \<Rightarrow>
          if to_lower c = (if base = 16 then CHR ''p'' else CHR ''e'') then
            (let (neg, ds) = strip_sign rest
             in if ds = [] \<or> \<not> is_digit (hd ds) then None
                else (let (rest', e) = read_exponent ds 0 in Some (rest', if neg then - int e else int e)))
          else if base = 16 then None else Some (cs, 0)
      | [] \<Rightarrow> if base = 16 then None else Some ([], 0))"

definition round_result :: "bool \<Rightarrow> nat \<times> nat \<Rightarrow> float64 \<times> num_error option" where
  "round_result neg nd =
     (let b = round_bits (fst nd) (snd nd)
      in if inf_bits \<le> b then (f64_of neg inf_bits, Some ErrRange) else (f64_of neg b, None))"

definition read_number :: "string \<Rightarrow> float64 \<times> num_error option" where
  "read_number s =
     (let (neg, body) = strip_sign s;
          hex = (2 < length body \<and> body ! 0 = CHR ''0'' \<and> to_lower (body ! 1) = CHR ''x'');
          base = (if hex then 16 else 10);
          (rest, sawdigits, m, frac) = read_mantissa base (if hex then drop 2 body else body) False False 0 0
      in if \<not> sawdigits then (0, Some ErrSyntax)
         else case read_exp_part base rest of
                None \<Rightarrow> (0, Some ErrSyntax)
              | Some (rest', e) \<Rightarrow>
                  if rest' \<noteq> [] \<or> (CHR ''_'' \<in> set s \<and> \<not> underscoreOK s) then (0, Some ErrSyntax)
                  else if hex then round_result neg (scaled_rational 2 m (e - 4 * int frac))
                  else round_result neg (scaled_rational 10 m (e - int frac)))"

definition ParseFloat :: "string \<Rightarrow> float64 \<times> num_error option" where
  "ParseFloat s =
     (let (neg, body) = strip_sign s; low = map to_lower body
      in if low = ''inf'' \<or> low = ''infinity'' then (f64_of neg inf_bits, None)
         else if map to_lower s = ''nan'' then (f64_NaN, None)
         else read_number s)"

section \<open>Printing\<close>

text \<open>A finite double is \<open>m * 2 ^ e\<close>.\<close>

definition f64_decode :: "nat \<Rightarrow> nat \<times> int" where
  "f64_decode mag =
     (let ex = mag div 2 ^ 52; fr = mag mod 2 ^ 52
      in if ex = 0 then (fr, - 1074) else (2 ^ 52 + fr, int ex - 1075))"

text \<open>The least \<open>k\<close> with \<open>num / den < 10 ^ k\<close>, searched upwards from \<open>k\<close> with fuel.\<close>

fun dec_point :: "nat \<Rightarrow> nat \<Rightarrow> nat \<Rightarrow> int \<Rightarrow> int" where
  "dec_point 0 num den k = k"
| "dec_point (Suc fuel) num den k =
     (if (if 0 \<le> k then num < den * 10 ^ nat k else num * 10 ^ nat (- k) < den) then k
      else dec_point fuel num den (k + 1))"

text \<open>
  The digits of \<open>num / den\<close> cut after \<open>n\<close> digits, or one more in the last place, whichever
  reads back as the same pattern; the nearer one when both do.
\<close>

definition try_digits :: "nat \<Rightarrow> nat \<Rightarrow> nat \<Rightarrow> int \<Rightarrow> nat \<Rightarrow> (nat \<times> int) option" where
  "try_digits mag num den dp n =
     (let sh = int n - dp;
          (a, b) = (if 0 \<le> sh then (num * 10 ^ nat sh, den) else (num, den * 10 ^ nat (- sh)));
          lo = a div b;
          back = (\<lambda>m. case scaled_rational 10 m (- sh) of (x, y) \<Rightarrow> round_bits x y = mag);
          okdown = back lo;
          okup = back (lo + 1);
          nearer_up = (b < 2 * (a mod b) \<or> (2 * (a mod b) = b \<and> odd lo))
      in if okdown \<and> okup then Some (if nearer_up then lo + 1 else lo, dp)
         else if okdown then Some (lo, dp)
         else if okup then Some (lo + 1, dp)
         else None)"

fun shortest_from :: "nat \<Rightarrow> nat \<Rightarrow> nat \<Rightarrow> nat \<Rightarrow> int \<Rightarrow> nat \<Rightarrow> nat \<times> int \<times> nat" where
  "shortest_from 0 mag num den dp n = (0, dp, n)"
| "shortest_from (Suc fuel) mag num den dp n =
     (case try_digits mag num den dp n of
        Some (ds, dp') \<Rightarrow> (ds, dp', n)
      | None \<Rightarrow> shortest_from fuel mag num den dp (Suc n))"

definition trim_zeros :: "string \<Rightarrow> string" where
  "trim_zeros s = rev (dropWhile (\<lambda>c. c = CHR ''0'') (rev s))"

text \<open>Digits and decimal point of a positive finite double: \<open>0.d1 d2 ... * 10 ^ dp\<close>.\<close>

definition shortest_digits :: "nat \<Rightarrow> string \<times> int" where
  "shortest_digits mag =
     (let (m, e) = f64_decode mag;
          (num, den) = scaled_rational 2 m e;
          dp = dec_point 700 num den (- 330);
          (ds, _, n) = shortest_from 17 mag num den dp 1;
          txt = format_nat ds
      in (trim_zeros txt, dp + int (length txt) - int n))"

definition exp_text :: "int \<Rightarrow> string" where
  "exp_text x =
     (let d = format_nat (nat \<bar>x\<bar>)
      in (if x < 0 then ''-'' else ''+'') @ (if length d < 2 then ''0'' @ d else d))"

text \<open>With the shortest digits, the exponent form is used below \<open>10 ^ (- 4)\<close> and from \<open>10 ^ 6\<close> on.\<close>

definition format_pos :: "nat \<Rightarrow> string" where
  "format_pos mag =
     (let (ds, dp) = shortest_digits mag; x = dp - 1
      in if x < - 4 \<or> 6 \<le> x
         then hd ds # (if tl ds = [] then [] else CHR ''.'' # tl ds) @ ''e'' @ exp_text x
         else if dp \<le> 0 then ''0.'' @ replicate (nat (- dp)) (CHR ''0'') @ ds
         else if int (length ds) \<le> dp then ds @ replicate (nat dp - length ds) (CHR ''0'')
         else take (nat dp) ds @ ''.'' @ drop (nat dp) ds)"

definition format_g :: "float64 \<Rightarrow> string" where
  "format_g f =
     (if f64_isNaN f then ''NaN''
      else if f64_magnitude f = inf_bits then (if f64_negative f then ''-Inf'' else ''+Inf'')
      else (if f64_negative f then ''-'' else '''') @
           (if f64_magnitude f = 0 then ''0'' else format_pos (f64_magnitude f)))"

end
