(* ===== verification/SortedSetStore.thy ===== *)
theory SortedSetStore
  imports KVState GoFloat ListStore
begin

text \<open>
  Sorted sets (\<^verbatim>\<open>internal/kvstore/sortedset.go\<close>) over the skip list of \<open>SkipList\<close>. An
  operation of the skip list that panics or does not return is \<open>None\<close>, and so is the
  operation that calls it. \<open>coin\<close> are the random draws of an insertion.
\<close>

definition ZAdd :: "(nat \<Rightarrow> bool) \<Rightarrow> gotime \<Rightarrow> gotime \<Rightarrow> string \<Rightarrow> float64 \<Rightarrow> string \<Rightarrow> int64 \<Rightarrow> kvstore \<Rightarrow> (kvstore \<times> kv_error option) option" where
  "ZAdd coin now now' key score member ttl kv =
     (let kv1 = (if IsExpired now key kv then zset_deleteKey key kv else kv)
      in case CheckAndSetType key ''zset'' kv1 of
           (kv2, Some e) \<Rightarrow> Some (kv2, Some e)
         | (kv2, None) \<Rightarrow>
             (let sl = (case zset_data kv2 key of None \<Rightarrow> newSkipList | Some s \<Rightarrow> s)
              in case insert_sl coin score member sl of
                   None \<Rightarrow> None
                 | Some sl' \<Rightarrow>
                     (let kv3 = kv2\<lparr>zset_data := (zset_data kv2)(key \<mapsto> sl')\<rparr>
                      in Some (if 0 < ttl then ttl_Set now' key ttl kv3 else kv3, None))))"

definition ZScore :: "gotime \<Rightarrow> string \<Rightarrow> string \<Rightarrow> kvstore \<Rightarrow> kvstore \<times> (kv_error + float64)" where
  "ZScore now key member kv =
     (case CheckType key ''zset'' kv of
        Some e \<Rightarrow> (kv, Inl e)
      | None \<Rightarrow>
          if IsExpired now key kv then (zset_deleteKey key kv, Inl ErrKeyNotFound)
          else (case zset_data kv key of
                  None \<Rightarrow> (kv, Inl ErrKeyNotFound)
                | Some sl \<Rightarrow>
                    (case search_sl member sl of
                       (score, ok) \<Rightarrow> if \<not> ok then (kv, Inl ErrKeyNotFound) else (kv, Inr score))))"

definition ZRank :: "gotime \<Rightarrow> string \<Rightarrow> string \<Rightarrow> kvstore \<Rightarrow> (kvstore \<times> (kv_error + int)) option" where
  "ZRank now key member kv =
     (case CheckType key ''zset'' kv of
        Some e \<Rightarrow> Some (kv, Inl e)
      | None \<Rightarrow>
          if IsExpired now key kv then Some (zset_deleteKey key kv, Inl ErrKeyNotFound)
          else (case zset_data kv key of
                  None \<Rightarrow> Some (kv, Inl ErrKeyNotFound)
                | Some sl \<Rightarrow>
                    (case rank_sl member sl of
                       None \<Rightarrow> None
                     | Some (PanicInconsistent _) \<Rightarrow> None
                     | Some (Rank r ok) \<Rightarrow> if \<not> ok then Some (kv, Inl ErrKeyNotFound) else Some (kv, Inr (int r)))))"

definition show_entry :: "bool \<Rightarrow> float64 \<times> string \<Rightarrow> string" where
  "show_entry withScores n = (if withScores then snd n @ '':'' @ format_g (fst n) else snd n)"

text \<open>The body \<^verbatim>\<open>ZRange\<close> and \<^verbatim>\<open>ZRevRange\<close> share; they differ in the skip list's query.\<close>

definition zrange_with ::
  "(int \<Rightarrow> int \<Rightarrow> skipList \<Rightarrow> (float64 \<times> string) list option) \<Rightarrow> gotime \<Rightarrow> string \<Rightarrow> int \<Rightarrow> int \<Rightarrow> bool \<Rightarrow> kvstore \<Rightarrow>
     (kvstore \<times> (kv_error + string list)) option" where
  "zrange_with query now key start0 stop0 withScores kv =
     (case CheckType key ''zset'' kv of
        Some e \<Rightarrow> Some (kv, Inl e)
      | None \<Rightarrow>
          if IsExpired now key kv then Some (zset_deleteKey key kv, Inl ErrKeyNotFound)
          else (case zset_data kv key of
                  None \<Rightarrow> Some (kv, Inl ErrKeyNotFound)
                | Some sl \<Rightarrow>
                    (let len = int (sl_length sl);
                         start = clamp_index len start0;
                         stop = clamp_index len stop0
                     in if stop < start \<or> len \<le> start then Some (kv, Inr [])
                        else (case query start stop sl of
                                None \<Rightarrow> None
                              | Some nodes \<Rightarrow> Some (kv, Inr (map (show_entry withScores) nodes))))))"

definition ZRange :: "gotime \<Rightarrow> string \<Rightarrow> int \<Rightarrow> int \<Rightarrow> bool \<Rightarrow> kvstore \<Rightarrow> (kvstore \<times> (kv_error + string list)) option" where
  "ZRange now key start stop withScores kv = zrange_with rangeByRank now key start stop withScores kv"

definition ZRevRange :: "gotime \<Rightarrow> string \<Rightarrow> int \<Rightarrow> int \<Rightarrow> bool \<Rightarrow> kvstore \<Rightarrow> (kvstore \<times> (kv_error + string list)) option" where
  "ZRevRange now key start stop withScores kv = zrange_with revRangeByRank now key start stop withScores kv"

text \<open>\<^verbatim>\<open>ZRem\<close> looks at the clock twice, before and after it takes its lock.\<close>

definition ZRem :: "gotime \<Rightarrow> gotime \<Rightarrow> string \<Rightarrow> string \<Rightarrow> kvstore \<Rightarrow> (kvstore \<times> kv_error option) option" where
  "ZRem now now' key member kv =
     (case CheckType key ''zset'' kv of
        Some e \<Rightarrow> Some (kv, Some e)
      | None \<Rightarrow>
          if IsExpired now key kv then Some (zset_deleteKey key kv, Some ErrKeyNotFound)
          else if IsExpired now' key kv then
            Some (DeleteType key (ttl_Delete key (zset_deleteKeyLocked key kv)), Some ErrKeyNotFound)
          else (case zset_data kv key of
                  None \<Rightarrow> Some (kv, Some ErrKeyNotFound)
                | Some sl \<Rightarrow>
                    (case delete_sl member sl of
                       None \<Rightarrow> None
                     | Some (sl', ok) \<Rightarrow>
                         (let kv1 = kv\<lparr>zset_data := (zset_data kv)(key \<mapsto> sl')\<rparr>
                          in if \<not> ok then Some (kv1, None)
                             else if sl_length sl' = 0
                             then Some (DeleteType key (ttl_Delete key (kv1\<lparr>zset_data := (zset_data kv1)(key := None)\<rparr>)), None)
                             else Some (kv1, None)))))"

declare ZAdd_def [kv_defs] ZScore_def [kv_defs] ZRank_def [kv_defs] zrange_with_def [kv_defs] ZRange_def [kv_defs]
  ZRevRange_def [kv_defs] ZRem_def [kv_defs]

end
