(* ===== verification/KVStore.thy ===== *)
theory KVStore
  imports StringStore HashStore ListStore SortedSetStore
begin

text \<open>
  The state machine (\<^verbatim>\<open>internal/kvstore/store.go\<close>, \<^verbatim>\<open>internal/kvstore/reader.go\<close>): \<^verbatim>\<open>Apply\<close>
  decodes a committed entry and calls the store of its data type, \<^verbatim>\<open>Snapshot\<close> and
  \<^verbatim>\<open>Restore\<close> copy the whole state out and in, and the reads of \<^verbatim>\<open>KVReader\<close> call through.
  The protobuf codec is generated code outside the model: \<open>unmarshal\<close>, \<open>marshal_snap\<close> and
  \<open>unmarshal_snap\<close> are arguments.
\<close>

section \<open>Arguments of a command\<close>

record CommandPayload =
  Op :: string
  Args :: "string list"

text \<open>
  \<^verbatim>\<open>strings.ToUpper\<close>. Beyond the ASCII letters exactly two characters have an ASCII upper
  case, the dotless i (bytes C4 B1) and the long s (bytes C5 BF); no other character can make
  an operation's name, so the others are kept as they are.
\<close>

fun ToUpper :: "string \<Rightarrow> string" where
  "ToUpper [] = []"
| "ToUpper (c # cs) =
     (let n = of_char c :: nat in
      if 97 \<le> n \<and> n \<le> 122 then char_of (n - 32) # ToUpper cs
      else case cs of
             d # ds \<Rightarrow>
               if n = 196 \<and> (of_char d :: nat) = 177 then CHR ''I'' # ToUpper ds
               else if n = 197 \<and> (of_char d :: nat) = 191 then CHR ''S'' # ToUpper ds
               else c # ToUpper cs
           | [] \<Rightarrow> [c])"

definition parseAbsoluteMs :: "string list \<Rightarrow> nat \<Rightarrow> int64" where
  "parseAbsoluteMs args pos =
     (if length args \<le> pos then 0
      else case parse_int (args ! pos) of (ms, Some _) \<Rightarrow> 0 | (ms, None) \<Rightarrow> ms)"

definition splitValuesAbsoluteMs :: "string list \<Rightarrow> string list \<times> int64" where
  "splitValuesAbsoluteMs args =
     (if args = [] then ([], 0)
      else case parse_int (last args) of
             (ms, None) \<Rightarrow> (butlast args, ms)
           | (_, Some _) \<Rightarrow> (args, 0))"

definition ignoreNotFound :: "kv_error option \<Rightarrow> kv_error option" where
  "ignoreNotFound err = (if err = Some ErrKeyNotFound then None else err)"

definition err_of :: "kv_error + 'a \<Rightarrow> kv_error option" where
  "err_of r = (case r of Inl e \<Rightarrow> Some e | Inr _ \<Rightarrow> None)"

section \<open>Apply\<close>

text \<open>
  One definition per case of the switch. The clock readings are \<open>now\<close> and, for \<^verbatim>\<open>ZREM\<close>,
  \<open>now'\<close>; the durations passed to the stores are 0, so no other reading is made.
\<close>

definition apply_SET :: "gotime \<Rightarrow> string list \<Rightarrow> kvstore \<Rightarrow> kvstore \<times> kv_error option" where
  "apply_SET now args kv =
     (if length args < 2 then (kv, Some ErrInvalidArgs)
      else case str_Set now now (args ! 0) (args ! 1) 0 kv of
             (kv1, Some e) \<Rightarrow> (kv1, ignoreNotFound (Some e))
           | (kv1, None) \<Rightarrow> (ttl_SetAbsolute (args ! 0) (parseAbsoluteMs args 2) kv1, None))"

definition apply_DEL :: "string list \<Rightarrow> kvstore \<Rightarrow> kvstore \<times> kv_error option" where
  "apply_DEL args kv =
     (if length args < 1 then (kv, Some ErrInvalidArgs)
      else case str_Delete (args ! 0) kv of (kv1, err) \<Rightarrow> (kv1, ignoreNotFound err))"

definition apply_INCR :: "gotime \<Rightarrow> string list \<Rightarrow> kvstore \<Rightarrow> kvstore \<times> kv_error option" where
  "apply_INCR now args kv =
     (if length args < 1 then (kv, Some ErrInvalidArgs)
      else case Incr now (args ! 0) kv of (kv1, r) \<Rightarrow> (kv1, err_of r))"

definition apply_DECR :: "gotime \<Rightarrow> string list \<Rightarrow> kvstore \<Rightarrow> kvstore \<times> kv_error option" where
  "apply_DECR now args kv =
     (if length args < 1 then (kv, Some ErrInvalidArgs)
      else case Decr now (args ! 0) kv of (kv1, r) \<Rightarrow> (kv1, err_of r))"

definition apply_HSET :: "gotime \<Rightarrow> string list \<Rightarrow> kvstore \<Rightarrow> kvstore \<times> kv_error option" where
  "apply_HSET now args kv =
     (if length args < 3 then (kv, Some ErrInvalidArgs)
      else case HSet now now (args ! 0) (args ! 1) (args ! 2) 0 kv of
             (kv1, Some e) \<Rightarrow> (kv1, Some e)
           | (kv1, None) \<Rightarrow> (ttl_SetAbsolute (args ! 0) (parseAbsoluteMs args 3) kv1, None))"

definition apply_HDEL :: "gotime \<Rightarrow> string list \<Rightarrow> kvstore \<Rightarrow> kvstore \<times> kv_error option" where
  "apply_HDEL now args kv =
     (if length args < 2 then (kv, Some ErrInvalidArgs)
      else case HDelete now (args ! 0) (args ! 1) kv of (kv1, err) \<Rightarrow> (kv1, ignoreNotFound err))"

definition apply_LPUSH :: "gotime \<Rightarrow> string list \<Rightarrow> kvstore \<Rightarrow> kvstore \<times> kv_error option" where
  "apply_LPUSH now args kv =
     (if length args < 2 then (kv, Some ErrInvalidArgs)
      else case splitValuesAbsoluteMs (tl args) of
             (values, absMs) \<Rightarrow>
               (case LPush now now (args ! 0) 0 values kv of
                  (kv1, Inl e) \<Rightarrow> (kv1, Some e)
                | (kv1, Inr _) \<Rightarrow> (ttl_SetAbsolute (args ! 0) absMs kv1, None)))"

definition apply_RPUSH :: "gotime \<Rightarrow> string list \<Rightarrow> kvstore \<Rightarrow> kvstore \<times> kv_error option" where
  "apply_RPUSH now args kv =
     (if length args < 2 then (kv, Some ErrInvalidArgs)
      else case splitValuesAbsoluteMs (tl args) of
             (values, absMs) \<Rightarrow>
               (case RPush now now (args ! 0) 0 values kv of
                  (kv1, Inl e) \<Rightarrow> (kv1, Some e)
                | (kv1, Inr _) \<Rightarrow> (ttl_SetAbsolute (args ! 0) absMs kv1, None)))"

definition apply_LPOP :: "gotime \<Rightarrow> string list \<Rightarrow> kvstore \<Rightarrow> kvstore \<times> kv_error option" where
  "apply_LPOP now args kv =
     (if length args < 1 then (kv, Some ErrInvalidArgs)
      else case LPop now (args ! 0) kv of (kv1, r) \<Rightarrow> (kv1, ignoreNotFound (err_of r)))"

definition apply_RPOP :: "gotime \<Rightarrow> string list \<Rightarrow> kvstore \<Rightarrow> kvstore \<times> kv_error option" where
  "apply_RPOP now args kv =
     (if length args < 1 then (kv, Some ErrInvalidArgs)
      else case RPop now (args ! 0) kv of (kv1, r) \<Rightarrow> (kv1, ignoreNotFound (err_of r)))"

definition apply_ZADD :: "(nat \<Rightarrow> bool) \<Rightarrow> gotime \<Rightarrow> string list \<Rightarrow> kvstore \<Rightarrow> (kvstore \<times> kv_error option) option" where
  "apply_ZADD coin now args kv =
     (if length args < 3 then Some (kv, Some ErrInvalidArgs)
      else case ParseFloat (args ! 1) of
             (_, Some _) \<Rightarrow> Some (kv, Some ErrInvalidArgs)
           | (score, None) \<Rightarrow>
               (case ZAdd coin now now (args ! 0) score (args ! 2) 0 kv of
                  None \<Rightarrow> None
                | Some (kv1, Some e) \<Rightarrow> Some (kv1, Some e)
                | Some (kv1, None) \<Rightarrow> Some (ttl_SetAbsolute (args ! 0) (parseAbsoluteMs args 3) kv1, None)))"

definition apply_ZREM :: "gotime \<Rightarrow> gotime \<Rightarrow> string list \<Rightarrow> kvstore \<Rightarrow> (kvstore \<times> kv_error option) option" where
  "apply_ZREM now now' args kv =
     (if length args < 2 then Some (kv, Some ErrInvalidArgs)
      else map_option (\<lambda>(kv1, err). (kv1, ignoreNotFound err)) (ZRem now now' (args ! 0) (args ! 1) kv))"

definition apply_command :: "(nat \<Rightarrow> bool) \<Rightarrow> gotime \<Rightarrow> gotime \<Rightarrow> CommandPayload \<Rightarrow> kvstore \<Rightarrow> (kvstore \<times> kv_error option) option" where
  "apply_command coin now now' payload kv =
     (let op = ToUpper (Op payload); args = Args payload in
      if op = ''SET'' then Some (apply_SET now args kv)
      else if op = ''DEL'' then Some (apply_DEL args kv)
      else if op = ''INCR'' then Some (apply_INCR now args kv)
      else if op = ''DECR'' then Some (apply_DECR now args kv)
      else if op = ''HSET'' then Some (apply_HSET now args kv)
      else if op = ''HDEL'' then Some (apply_HDEL now args kv)
      else if op = ''LPUSH'' then Some (apply_LPUSH now args kv)
      else if op = ''RPUSH'' then Some (apply_RPUSH now args kv)
      else if op = ''LPOP'' then Some (apply_LPOP now args kv)
      else if op = ''RPOP'' then Some (apply_RPOP now args kv)
      else if op = ''ZADD'' then apply_ZADD coin now args kv
      else if op = ''ZREM'' then apply_ZREM now now' args kv
      else Some (kv, Some ErrUnknownCommand))"

definition Apply :: "(bytes \<Rightarrow> CommandPayload option) \<Rightarrow> (nat \<Rightarrow> bool) \<Rightarrow> gotime \<Rightarrow> gotime \<Rightarrow> LogEntry \<Rightarrow> kvstore \<Rightarrow> (kvstore \<times> kv_error option) option" where
  "Apply unmarshal coin now now' entry kv =
     (if Type entry \<noteq> EntryKV then Some (kv, None)
      else case unmarshal (Command entry) of
             None \<Rightarrow> Some (kv, Some ErrProto)
           | Some payload \<Rightarrow> apply_command coin now now' payload kv)"

section \<open>Snapshot and Restore\<close>

record SnapshotMsg =
  KeyTypes :: "string \<rightharpoonup> string"
  Strings :: "string \<rightharpoonup> string"
  Hashes :: "string \<rightharpoonup> (string \<times> string) list"
  Lists :: "string \<rightharpoonup> string list"
  SortedSets :: "string \<rightharpoonup> (float64 \<times> string) list"
  Ttls :: "string \<rightharpoonup> int64"

text \<open>
  The sets are read with \<^verbatim>\<open>rangeByRank(0, length-1)\<close>; a query that does not return makes the
  snapshot not return, which \<open>snapshot_ok\<close> rules out.
\<close>

definition snapshot_msg :: "kvstore \<Rightarrow> SnapshotMsg" where
  "snapshot_msg kv =
     \<lparr>KeyTypes = keyTypes kv, Strings = str_data kv, Hashes = hash_data kv, Lists = list_data kv,
      SortedSets = (\<lambda>k. case zset_data kv k of None \<Rightarrow> None | Some sl \<Rightarrow> rangeByRank 0 (int (sl_length sl) - 1) sl),
      Ttls = (\<lambda>k. map_option to_unix_milli (expiry kv k))\<rparr>"

definition snapshot_ok :: "kvstore \<Rightarrow> bool" where
  "snapshot_ok kv \<longleftrightarrow> (\<forall>k \<in> dom (zset_data kv). \<exists>es. rangeByRank 0 (int (sl_length (the (zset_data kv k))) - 1) (the (zset_data kv k)) = Some es)"

text \<open>\<^verbatim>\<open>proto.Marshal\<close> refuses a string that is not valid UTF-8.\<close>

definition Snapshot :: "(SnapshotMsg \<Rightarrow> bytes option) \<Rightarrow> kvstore \<Rightarrow> kv_error + bytes" where
  "Snapshot marshal_snap kv = (case marshal_snap (snapshot_msg kv) of None \<Rightarrow> Inl ErrProto | Some data \<Rightarrow> Inr data)"

text \<open>
  \<open>coins k\<close> are the draws of the insertions into the set of key \<open>k\<close>. A set whose insertions do
  not return is left out here; \<open>restore_ok\<close> says that none is.
\<close>

definition restore_zset :: "(nat \<Rightarrow> nat \<Rightarrow> bool) \<Rightarrow> (float64 \<times> string) list \<Rightarrow> skipList option" where
  "restore_zset coins es = insert_list insert_sl coins 0 es newSkipList"

definition restore_msg :: "(string \<Rightarrow> nat \<Rightarrow> nat \<Rightarrow> bool) \<Rightarrow> SnapshotMsg \<Rightarrow> kvstore" where
  "restore_msg coins snap =
     \<lparr>keyTypes = KeyTypes snap, str_data = Strings snap, hash_data = Hashes snap, list_data = Lists snap,
      zset_data = (\<lambda>k. case SortedSets snap k of None \<Rightarrow> None | Some es \<Rightarrow> restore_zset (coins k) es),
      expiry = (\<lambda>k. map_option unix_milli (Ttls snap k))\<rparr>"

definition restore_ok :: "(string \<Rightarrow> nat \<Rightarrow> nat \<Rightarrow> bool) \<Rightarrow> SnapshotMsg \<Rightarrow> bool" where
  "restore_ok coins snap \<longleftrightarrow> (\<forall>k es. SortedSets snap k = Some es \<longrightarrow> restore_zset (coins k) es \<noteq> None)"

definition Restore :: "(bytes \<Rightarrow> SnapshotMsg option) \<Rightarrow> (string \<Rightarrow> nat \<Rightarrow> nat \<Rightarrow> bool) \<Rightarrow> bytes \<Rightarrow> kvstore \<Rightarrow> kvstore \<times> kv_error option" where
  "Restore unmarshal_snap coins data kv =
     (if data = [] then (kv, None)
      else case unmarshal_snap data of
             None \<Rightarrow> (kv, Some ErrProto)
           | Some snap \<Rightarrow> (restore_msg coins snap, None))"

end
