(* ===== verification/KVSpec.thy ===== *)
theory KVSpec
  imports KVStore
begin

text \<open>
  What the store promises: a database maps a key to one typed value and an optional
  expiration time. This theory defines that database, the abstraction of the store's six
  tables to it, the well-formedness of the tables, and the reference operations.
\<close>

section \<open>The database\<close>

datatype val =
    VString string
  | VHash "string \<rightharpoonup> string"
  | VList "string list"
  | VZSet "entry list"

type_synonym db = "string \<rightharpoonup> val \<times> gotime option"

definition sl_entries :: "skipList \<Rightarrow> entry list" where
  "sl_entries sl = (case rangeByRank 0 (int (sl_length sl) - 1) sl of Some es \<Rightarrow> es | None \<Rightarrow> [])"

text \<open>The value of a key from its row in the tables.\<close>

definition abs_val ::
  "string option \<Rightarrow> string option \<Rightarrow> (string \<times> string) list option \<Rightarrow> string list option \<Rightarrow> skipList option \<Rightarrow> val option" where
  "abs_val t s h l z =
     (if t = Some ''string'' then map_option VString s
      else if t = Some ''hash'' then map_option (\<lambda>f. VHash (map_of f)) h
      else if t = Some ''list'' then map_option VList l
      else if t = Some ''zset'' then map_option (\<lambda>x. VZSet (sl_entries x)) z
      else None)"

definition abs_kv :: "kvstore \<Rightarrow> db" where
  "abs_kv kv k =
     map_option (\<lambda>v. (v, expiry kv k))
       (abs_val (keyTypes kv k) (str_data kv k) (hash_data kv k) (list_data kv k) (zset_data kv k))"

section \<open>Well-formed tables\<close>

text \<open>
  A key has a type exactly when it has data, and only in the table of its type; hashes and
  sorted sets are not empty; a sorted set is a well-formed skip list; only a key with a type
  has an expiration.
\<close>

definition row_wf ::
  "string option \<Rightarrow> string option \<Rightarrow> (string \<times> string) list option \<Rightarrow> string list option \<Rightarrow> skipList option \<Rightarrow> gotime option \<Rightarrow> bool" where
  "row_wf t s h l z e \<longleftrightarrow>
     (t = None \<or> t = Some ''string'' \<or> t = Some ''hash'' \<or> t = Some ''list'' \<or> t = Some ''zset'') \<and>
     (s \<noteq> None \<longleftrightarrow> t = Some ''string'') \<and>
     (h \<noteq> None \<longleftrightarrow> t = Some ''hash'') \<and>
     (l \<noteq> None \<longleftrightarrow> t = Some ''list'') \<and>
     (z \<noteq> None \<longleftrightarrow> t = Some ''zset'') \<and>
     (\<forall>f. h = Some f \<longrightarrow> f \<noteq> [] \<and> distinct (map fst f)) \<and>
     (\<forall>x. z = Some x \<longrightarrow> (\<exists>es. es \<noteq> [] \<and> sl_repr x es)) \<and>
     (e \<noteq> None \<longrightarrow> t \<noteq> None)"

definition key_wf :: "kvstore \<Rightarrow> string \<Rightarrow> bool" where
  "key_wf kv k = row_wf (keyTypes kv k) (str_data kv k) (hash_data kv k) (list_data kv k) (zset_data kv k) (expiry kv k)"

definition kv_wf :: "kvstore \<Rightarrow> bool" where
  "kv_wf kv \<longleftrightarrow> (\<forall>k. key_wf kv k)"

text \<open>Two stores agree on every key but one.\<close>

definition agree_except :: "string \<Rightarrow> kvstore \<Rightarrow> kvstore \<Rightarrow> bool" where
  "agree_except key kv kv' \<longleftrightarrow>
     (\<forall>k. k \<noteq> key \<longrightarrow> keyTypes kv' k = keyTypes kv k \<and> str_data kv' k = str_data kv k \<and> hash_data kv' k = hash_data kv k \<and>
        list_data kv' k = list_data kv k \<and> zset_data kv' k = zset_data kv k \<and> expiry kv' k = expiry kv k)"

lemma agree_except_refl [simp, intro]: "agree_except key kv kv"
  by (simp add: agree_except_def)

lemma agree_except_trans: "agree_except key a b \<Longrightarrow> agree_except key b c \<Longrightarrow> agree_except key a c"
  by (simp add: agree_except_def)

lemma agree_wf: "agree_except key kv kv' \<Longrightarrow> kv_wf kv \<Longrightarrow> key_wf kv' key \<Longrightarrow> kv_wf kv'"
  unfolding kv_wf_def key_wf_def agree_except_def by metis

lemma agree_abs: "agree_except key kv kv' \<Longrightarrow> abs_kv kv' = (abs_kv kv)(key := abs_kv kv' key)"
  by (auto simp: abs_kv_def agree_except_def fun_eq_iff)

lemma sl_entries_repr: "sl_repr sl es \<Longrightarrow> sl_entries sl = es"
proof -
  assume r: "sl_repr sl es"
  have "slice 0 (int (length es) - 1) es = es" by (simp add: slice_def)
  then show ?thesis using sl_repr_range [OF r, of 0] sl_repr_length [OF r] by (simp add: sl_entries_def)
qed

lemma kv_wf_key: "kv_wf kv \<Longrightarrow> key_wf kv k"
  by (simp add: kv_wf_def)

lemma abs_NewKVStore: "abs_kv NewKVStore = Map.empty"
  by (simp add: abs_kv_def abs_val_def NewKVStore_def fun_eq_iff)

lemma kv_wf_NewKVStore: "kv_wf NewKVStore"
  by (simp add: kv_wf_def key_wf_def row_wf_def NewKVStore_def)

text \<open>The row of a well-formed key, by its type.\<close>

lemma key_wf_cases:
  assumes "key_wf kv k"
  obtains
    (absent) "keyTypes kv k = None" "str_data kv k = None" "hash_data kv k = None" "list_data kv k = None"
       "zset_data kv k = None" "expiry kv k = None" "abs_kv kv k = None"
  | (string) s where "keyTypes kv k = Some ''string''" "str_data kv k = Some s" "hash_data kv k = None"
       "list_data kv k = None" "zset_data kv k = None" "abs_kv kv k = Some (VString s, expiry kv k)"
  | (hash) f where "keyTypes kv k = Some ''hash''" "str_data kv k = None" "hash_data kv k = Some f" "f \<noteq> []"
       "distinct (map fst f)" "list_data kv k = None" "zset_data kv k = None" "abs_kv kv k = Some (VHash (map_of f), expiry kv k)"
  | (list) l where "keyTypes kv k = Some ''list''" "str_data kv k = None" "hash_data kv k = None"
       "list_data kv k = Some l" "zset_data kv k = None" "abs_kv kv k = Some (VList l, expiry kv k)"
  | (zset) sl es where "keyTypes kv k = Some ''zset''" "str_data kv k = None" "hash_data kv k = None"
       "list_data kv k = None" "zset_data kv k = Some sl" "es \<noteq> []" "sl_repr sl es" "abs_kv kv k = Some (VZSet es, expiry kv k)"
proof -
  from assms consider "keyTypes kv k = None" | "keyTypes kv k = Some ''string''" | "keyTypes kv k = Some ''hash''"
    | "keyTypes kv k = Some ''list''" | "keyTypes kv k = Some ''zset''"
    by (auto simp: key_wf_def row_wf_def)
  then show thesis
  proof cases
    case 1
    with assms show ?thesis by (intro absent) (auto simp: key_wf_def row_wf_def abs_kv_def abs_val_def)
  next
    case 2
    with assms obtain s where "str_data kv k = Some s" by (auto simp: key_wf_def row_wf_def)
    with 2 assms show ?thesis by (intro string) (auto simp: key_wf_def row_wf_def abs_kv_def abs_val_def)
  next
    case 3
    with assms obtain f where "hash_data kv k = Some f" by (auto simp: key_wf_def row_wf_def)
    with 3 assms show ?thesis by (intro hash) (auto simp: key_wf_def row_wf_def abs_kv_def abs_val_def)
  next
    case 4
    with assms obtain l where "list_data kv k = Some l" by (auto simp: key_wf_def row_wf_def)
    with 4 assms show ?thesis by (intro list) (auto simp: key_wf_def row_wf_def abs_kv_def abs_val_def)
  next
    case 5
    with assms obtain sl where sl: "zset_data kv k = Some sl" by (auto simp: key_wf_def row_wf_def)
    with assms obtain es where "es \<noteq> []" "sl_repr sl es" by (auto simp: key_wf_def row_wf_def)
    with 5 sl assms show ?thesis
      by (intro zset) (auto simp: key_wf_def row_wf_def abs_kv_def abs_val_def sl_entries_repr)
  qed
qed

section \<open>Reference operations\<close>

definition expired_at :: "gotime \<Rightarrow> val \<times> gotime option \<Rightarrow> bool" where
  "expired_at now c = (case snd c of None \<Rightarrow> False | Some e \<Rightarrow> e < now)"

text \<open>A key whose time has passed is gone.\<close>

definition purge :: "gotime \<Rightarrow> string \<Rightarrow> db \<Rightarrow> db" where
  "purge now k m = (case m k of None \<Rightarrow> m | Some c \<Rightarrow> if expired_at now c then m(k := None) else m)"

definition ms_expiry :: "int64 \<Rightarrow> gotime option" where
  "ms_expiry ms = (if ms \<le> 0 then None else Some (unix_milli ms))"

text \<open>
  A write gives the new value from the old one, or refuses the old one's type; it sets the
  expiration, so a write without one makes the key persistent.
\<close>

definition spec_write :: "gotime \<Rightarrow> string \<Rightarrow> (val option \<Rightarrow> val option) \<Rightarrow> int64 \<Rightarrow> db \<Rightarrow> db \<times> kv_error option" where
  "spec_write now k f ms m =
     (let m1 = purge now k m
      in case f (map_option fst (m1 k)) of
           None \<Rightarrow> (m1, Some ErrWrongType)
         | Some v \<Rightarrow> (m1(k \<mapsto> (v, ms_expiry ms)), None))"

fun upd_string :: "string \<Rightarrow> val option \<Rightarrow> val option" where
  "upd_string v None = Some (VString v)"
| "upd_string v (Some (VString _)) = Some (VString v)"
| "upd_string v (Some _) = None"

fun upd_hash :: "string \<Rightarrow> string \<Rightarrow> val option \<Rightarrow> val option" where
  "upd_hash f v None = Some (VHash [f \<mapsto> v])"
| "upd_hash f v (Some (VHash h)) = Some (VHash (h(f \<mapsto> v)))"
| "upd_hash f v (Some _) = None"

fun upd_list :: "(string list \<Rightarrow> string list) \<Rightarrow> val option \<Rightarrow> val option" where
  "upd_list g None = Some (VList (g []))"
| "upd_list g (Some (VList l)) = Some (VList (g l))"
| "upd_list g (Some _) = None"

fun upd_zset :: "float64 \<Rightarrow> string \<Rightarrow> val option \<Rightarrow> val option" where
  "upd_zset sc m None = Some (VZSet (spec_insert sc m []))"
| "upd_zset sc m (Some (VZSet es)) = Some (VZSet (spec_insert sc m es))"
| "upd_zset sc m (Some _) = None"

text \<open>A counter: an absent key counts from 0; the expiration stays.\<close>

definition spec_add :: "gotime \<Rightarrow> string \<Rightarrow> int \<Rightarrow> db \<Rightarrow> db \<times> (kv_error + int)" where
  "spec_add now k d m =
     (let m1 = purge now k m
      in case m1 k of
           None \<Rightarrow> (m1(k \<mapsto> (VString (format_int (wrap64 d)), None)), Inr (wrap64 d))
         | Some (VString s, e) \<Rightarrow>
             (case parse_int s of
                (_, Some _) \<Rightarrow> (m1, Inl ErrWrongType)
              | (n, None) \<Rightarrow> (m1(k \<mapsto> (VString (format_int (wrap64 (n + d))), e)), Inr (wrap64 (n + d))))
         | Some _ \<Rightarrow> (m1, Inl ErrWrongType))"

text \<open>
  A removal looks at the type first: a key of another type is refused even when its time has
  passed. \<open>g\<close> gives what is left, \<open>None\<close> when nothing is.
\<close>

definition spec_remove :: "gotime \<Rightarrow> string \<Rightarrow> (val \<Rightarrow> val option option) \<Rightarrow> db \<Rightarrow> db \<times> kv_error option" where
  "spec_remove now k g m =
     (case m k of
        None \<Rightarrow> (m, None)
      | Some (v, e) \<Rightarrow>
          (case g v of
             None \<Rightarrow> (m, Some ErrWrongType)
           | Some r \<Rightarrow> if expired_at now (v, e) then (m(k := None), None) else (m(k := map_option (\<lambda>v'. (v', e)) r), None)))"

fun rem_field :: "string \<Rightarrow> val \<Rightarrow> val option option" where
  "rem_field f (VHash h) = Some (if dom h - {f} = {} then None else Some (VHash (h(f := None))))"
| "rem_field f _ = None"

fun rem_member :: "string \<Rightarrow> val \<Rightarrow> val option option" where
  "rem_member m (VZSet es) = Some (if spec_delete m es = [] then None else Some (VZSet (spec_delete m es)))"
| "rem_member m _ = None"

definition spec_pop :: "gotime \<Rightarrow> string \<Rightarrow> (string list \<Rightarrow> string list) \<Rightarrow> db \<Rightarrow> db \<times> kv_error option" where
  "spec_pop now k g m =
     (case m k of
        None \<Rightarrow> (m, None)
      | Some (VList l, e) \<Rightarrow>
          if expired_at now (VList l, e) then (m(k := None), None)
          else if l = [] then (m, Some ErrEmptyList)
          else (m(k := (if g l = [] then None else Some (VList (g l), e))), None)
      | Some _ \<Rightarrow> (m, Some ErrWrongType))"

definition spec_del :: "string \<Rightarrow> db \<Rightarrow> db \<times> kv_error option" where
  "spec_del k m = (m(k := None), None)"

end
