(* ===== verification/KVRows.thy ===== *)
theory KVRows
  imports KVSpec
begin

text \<open>
  Every operation of the store writes or drops one key's row. This theory names these row
  updates, shows once what each does to the abstraction and to well-formedness, and rewrites
  the operations of \<^verbatim>\<open>Apply\<close> into them, so that the refinement proofs need no table access.
\<close>

section \<open>Row updates\<close>

definition put_string :: "string \<Rightarrow> string \<Rightarrow> gotime option \<Rightarrow> kvstore \<Rightarrow> kvstore" where
  "put_string k v e kv =
     kv\<lparr>keyTypes := (keyTypes kv)(k \<mapsto> ''string''), str_data := (str_data kv)(k \<mapsto> v), expiry := (expiry kv)(k := e)\<rparr>"

definition put_hash :: "string \<Rightarrow> (string \<times> string) list \<Rightarrow> gotime option \<Rightarrow> kvstore \<Rightarrow> kvstore" where
  "put_hash k h e kv =
     kv\<lparr>keyTypes := (keyTypes kv)(k \<mapsto> ''hash''), hash_data := (hash_data kv)(k \<mapsto> h), expiry := (expiry kv)(k := e)\<rparr>"

definition put_list :: "string \<Rightarrow> string list \<Rightarrow> gotime option \<Rightarrow> kvstore \<Rightarrow> kvstore" where
  "put_list k l e kv =
     kv\<lparr>keyTypes := (keyTypes kv)(k \<mapsto> ''list''), list_data := (list_data kv)(k \<mapsto> l), expiry := (expiry kv)(k := e)\<rparr>"

definition put_zset :: "string \<Rightarrow> skipList \<Rightarrow> gotime option \<Rightarrow> kvstore \<Rightarrow> kvstore" where
  "put_zset k z e kv =
     kv\<lparr>keyTypes := (keyTypes kv)(k \<mapsto> ''zset''), zset_data := (zset_data kv)(k \<mapsto> z), expiry := (expiry kv)(k := e)\<rparr>"

definition drop_string :: "string \<Rightarrow> kvstore \<Rightarrow> kvstore" where
  "drop_string k kv =
     kv\<lparr>keyTypes := (keyTypes kv)(k := None), str_data := (str_data kv)(k := None), expiry := (expiry kv)(k := None)\<rparr>"

lemmas put_defs = put_string_def put_hash_def put_list_def put_zset_def drop_string_def
lemmas row_defs = key_wf_def row_wf_def abs_kv_def abs_val_def

text \<open>A key that holds nothing but, perhaps, data of the given type.\<close>

definition only_type :: "string \<Rightarrow> string \<Rightarrow> kvstore \<Rightarrow> bool" where
  "only_type ty k kv \<longleftrightarrow> keyTypes kv k = None \<or> keyTypes kv k = Some ty"

lemma put_string_ok:
  assumes "kv_wf kv" "only_type ''string'' k kv"
  shows "kv_wf (put_string k v e kv)" "abs_kv (put_string k v e kv) = (abs_kv kv)(k \<mapsto> (VString v, e))"
proof -
  have a: "agree_except k kv (put_string k v e kv)" by (simp add: agree_except_def put_string_def)
  have "key_wf (put_string k v e kv) k"
    using kv_wf_key [OF assms(1), of k] assms(2) by (auto simp: only_type_def key_wf_def row_wf_def put_string_def)
  with a assms(1) show "kv_wf (put_string k v e kv)" by (rule agree_wf)
  show "abs_kv (put_string k v e kv) = (abs_kv kv)(k \<mapsto> (VString v, e))"
    using agree_abs [OF a] by (simp add: abs_kv_def [of _ k] abs_val_def put_string_def)
qed

lemma put_hash_ok:
  assumes "kv_wf kv" "only_type ''hash'' k kv" "h \<noteq> []" "distinct (map fst h)"
  shows "kv_wf (put_hash k h e kv)" "abs_kv (put_hash k h e kv) = (abs_kv kv)(k \<mapsto> (VHash (map_of h), e))"
proof -
  have a: "agree_except k kv (put_hash k h e kv)" by (simp add: agree_except_def put_hash_def)
  have "key_wf (put_hash k h e kv) k"
    using kv_wf_key [OF assms(1), of k] assms(2-) by (auto simp: only_type_def key_wf_def row_wf_def put_hash_def)
  with a assms(1) show "kv_wf (put_hash k h e kv)" by (rule agree_wf)
  show "abs_kv (put_hash k h e kv) = (abs_kv kv)(k \<mapsto> (VHash (map_of h), e))"
    using agree_abs [OF a] by (simp add: abs_kv_def [of _ k] abs_val_def put_hash_def)
qed

lemma put_list_ok:
  assumes "kv_wf kv" "only_type ''list'' k kv"
  shows "kv_wf (put_list k l e kv)" "abs_kv (put_list k l e kv) = (abs_kv kv)(k \<mapsto> (VList l, e))"
proof -
  have a: "agree_except k kv (put_list k l e kv)" by (simp add: agree_except_def put_list_def)
  have "key_wf (put_list k l e kv) k"
    using kv_wf_key [OF assms(1), of k] assms(2-) by (auto simp: only_type_def key_wf_def row_wf_def put_list_def)
  with a assms(1) show "kv_wf (put_list k l e kv)" by (rule agree_wf)
  show "abs_kv (put_list k l e kv) = (abs_kv kv)(k \<mapsto> (VList l, e))"
    using agree_abs [OF a] by (simp add: abs_kv_def [of _ k] abs_val_def put_list_def)
qed

lemma put_zset_ok:
  assumes "kv_wf kv" "only_type ''zset'' k kv" "sl_repr z es" "es \<noteq> []"
  shows "kv_wf (put_zset k z e kv)" "abs_kv (put_zset k z e kv) = (abs_kv kv)(k \<mapsto> (VZSet es, e))"
proof -
  have a: "agree_except k kv (put_zset k z e kv)" by (simp add: agree_except_def put_zset_def)
  have "key_wf (put_zset k z e kv) k"
    using kv_wf_key [OF assms(1), of k] assms(2-) by (auto simp: only_type_def key_wf_def row_wf_def put_zset_def)
  with a assms(1) show "kv_wf (put_zset k z e kv)" by (rule agree_wf)
  show "abs_kv (put_zset k z e kv) = (abs_kv kv)(k \<mapsto> (VZSet es, e))"
    using agree_abs [OF a] by (simp add: abs_kv_def [of _ k] abs_val_def put_zset_def sl_entries_repr [OF assms(3)])
qed

lemma drop_row_ok:
  assumes "kv_wf kv" "agree_except k kv kv'" "keyTypes kv' k = None" "str_data kv' k = None" "hash_data kv' k = None"
    "list_data kv' k = None" "zset_data kv' k = None" "expiry kv' k = None"
  shows "kv_wf kv' \<and> abs_kv kv' = (abs_kv kv)(k := None)"
proof
  have "key_wf kv' k" using assms(3-) by (simp add: key_wf_def row_wf_def)
  with assms(2,1) show "kv_wf kv'" by (rule agree_wf)
  show "abs_kv kv' = (abs_kv kv)(k := None)"
    using agree_abs [OF assms(2)] assms(3) by (simp add: abs_kv_def [of _ k] abs_val_def)
qed

lemma only_type_other:
  assumes "kv_wf kv"
  shows "only_type ''string'' k kv \<Longrightarrow> hash_data kv k = None \<and> list_data kv k = None \<and> zset_data kv k = None"
    "only_type ''hash'' k kv \<Longrightarrow> str_data kv k = None \<and> list_data kv k = None \<and> zset_data kv k = None"
    "only_type ''list'' k kv \<Longrightarrow> str_data kv k = None \<and> hash_data kv k = None \<and> zset_data kv k = None"
    "only_type ''zset'' k kv \<Longrightarrow> str_data kv k = None \<and> hash_data kv k = None \<and> list_data kv k = None"
proof -
  note k = kv_wf_key [OF assms, of k]
  show "only_type ''string'' k kv \<Longrightarrow> hash_data kv k = None \<and> list_data kv k = None \<and> zset_data kv k = None"
    using k by (cases rule: key_wf_cases) (simp_all add: only_type_def)
  show "only_type ''hash'' k kv \<Longrightarrow> str_data kv k = None \<and> list_data kv k = None \<and> zset_data kv k = None"
    using k by (cases rule: key_wf_cases) (simp_all add: only_type_def)
  show "only_type ''list'' k kv \<Longrightarrow> str_data kv k = None \<and> hash_data kv k = None \<and> zset_data kv k = None"
    using k by (cases rule: key_wf_cases) (simp_all add: only_type_def)
  show "only_type ''zset'' k kv \<Longrightarrow> str_data kv k = None \<and> hash_data kv k = None \<and> list_data kv k = None"
    using k by (cases rule: key_wf_cases) (simp_all add: only_type_def)
qed

lemma drop_ok:
  assumes "kv_wf kv"
  shows "only_type ''string'' k kv \<Longrightarrow> kv_wf (drop_string k kv) \<and> abs_kv (drop_string k kv) = (abs_kv kv)(k := None)"
    "only_type ''hash'' k kv \<Longrightarrow> kv_wf (hash_deleteKey k kv) \<and> abs_kv (hash_deleteKey k kv) = (abs_kv kv)(k := None)"
    "only_type ''list'' k kv \<Longrightarrow> kv_wf (list_deleteKey k kv) \<and> abs_kv (list_deleteKey k kv) = (abs_kv kv)(k := None)"
    "only_type ''zset'' k kv \<Longrightarrow> kv_wf (zset_deleteKey k kv) \<and> abs_kv (zset_deleteKey k kv) = (abs_kv kv)(k := None)"
proof -
  note frame = agree_except_def put_defs hash_deleteKey_def list_deleteKey_def zset_deleteKey_def DeleteType_def ttl_Delete_def
  show "only_type ''string'' k kv \<Longrightarrow> kv_wf (drop_string k kv) \<and> abs_kv (drop_string k kv) = (abs_kv kv)(k := None)"
    using only_type_other(1) [OF assms, of k] by (intro drop_row_ok [OF assms]) (simp_all add: frame)
  show "only_type ''hash'' k kv \<Longrightarrow> kv_wf (hash_deleteKey k kv) \<and> abs_kv (hash_deleteKey k kv) = (abs_kv kv)(k := None)"
    using only_type_other(2) [OF assms, of k] by (intro drop_row_ok [OF assms]) (simp_all add: frame)
  show "only_type ''list'' k kv \<Longrightarrow> kv_wf (list_deleteKey k kv) \<and> abs_kv (list_deleteKey k kv) = (abs_kv kv)(k := None)"
    using only_type_other(3) [OF assms, of k] by (intro drop_row_ok [OF assms]) (simp_all add: frame)
  show "only_type ''zset'' k kv \<Longrightarrow> kv_wf (zset_deleteKey k kv) \<and> abs_kv (zset_deleteKey k kv) = (abs_kv kv)(k := None)"
    using only_type_other(4) [OF assms, of k] by (intro drop_row_ok [OF assms]) (simp_all add: frame)
qed

section \<open>The operations as row updates\<close>

lemma str_Delete_eq: "str_Delete k kv = (drop_string k kv, if str_data kv k = None then Some ErrKeyNotFound else None)"
  by (cases "str_data kv k") (auto simp: kv_defs put_defs Let_def fun_upd_idem)

lemma SetAbsolute_eq: "ttl_SetAbsolute k ms kv = kv\<lparr>expiry := (expiry kv)(k := ms_expiry ms)\<rparr>"
  by (simp add: ttl_SetAbsolute_def ms_expiry_def)

lemma CheckAndSetType_eq:
  "CheckAndSetType k ty kv =
     (if only_type ty k kv then (kv\<lparr>keyTypes := (keyTypes kv)(k \<mapsto> ty)\<rparr>, None) else (kv, Some ErrWrongType))"
  by (auto simp: CheckAndSetType_def only_type_def split: option.splits)

lemma CheckType_eq: "CheckType k ty kv = (if only_type ty k kv then None else Some ErrWrongType)"
  by (auto simp: CheckType_def only_type_def split: option.splits)

text \<open>The writes: what is put is refused exactly when a live key has another type.\<close>

lemma apply_SET_eq:
  "2 \<le> length args \<Longrightarrow>
     apply_SET now args kv =
       (if IsExpired now (args ! 0) kv \<or> only_type ''string'' (args ! 0) kv
        then (put_string (args ! 0) (args ! 1) (ms_expiry (parseAbsoluteMs args 2)) kv, None)
        else (kv, Some ErrWrongType))"
  by (cases "IsExpired now (args ! 0) kv") (auto simp: apply_SET_def str_Set_def str_expire_eq CheckAndSetType_eq SetAbsolute_eq put_string_def
      ignoreNotFound_def only_type_def)

definition cur_hash :: "gotime \<Rightarrow> string \<Rightarrow> kvstore \<Rightarrow> (string \<times> string) list" where
  "cur_hash now k kv = (if IsExpired now k kv then [] else case hash_data kv k of None \<Rightarrow> [] | Some h \<Rightarrow> h)"

lemma apply_HSET_eq:
  "3 \<le> length args \<Longrightarrow>
     apply_HSET now args kv =
       (if IsExpired now (args ! 0) kv \<or> only_type ''hash'' (args ! 0) kv
        then (put_hash (args ! 0) (AList.update (args ! 1) (args ! 2) (cur_hash now (args ! 0) kv)) (ms_expiry (parseAbsoluteMs args 3)) kv, None)
        else (kv, Some ErrWrongType))"
  by (cases "IsExpired now (args ! 0) kv") (auto simp: apply_HSET_def HSet_def CheckAndSetType_eq SetAbsolute_eq put_hash_def cur_hash_def hash_deleteKey_def
      DeleteType_def ttl_Delete_def only_type_def Let_def)

definition cur_list :: "gotime \<Rightarrow> string \<Rightarrow> kvstore \<Rightarrow> string list" where
  "cur_list now k kv = (if IsExpired now k kv then [] else case list_data kv k of None \<Rightarrow> [] | Some l \<Rightarrow> l)"

lemma apply_LPUSH_eq:
  "2 \<le> length args \<Longrightarrow> splitValuesAbsoluteMs (tl args) = (values, ms) \<Longrightarrow>
     apply_LPUSH now args kv =
       (if IsExpired now (args ! 0) kv \<or> only_type ''list'' (args ! 0) kv
        then (put_list (args ! 0) (rev values @ cur_list now (args ! 0) kv) (ms_expiry ms) kv, None)
        else (kv, Some ErrWrongType))"
  by (cases "IsExpired now (args ! 0) kv") (auto simp: apply_LPUSH_def LPush_def CheckAndSetType_eq SetAbsolute_eq put_list_def cur_list_def list_deleteKey_def
      DeleteType_def ttl_Delete_def only_type_def Let_def)

lemma apply_RPUSH_eq:
  "2 \<le> length args \<Longrightarrow> splitValuesAbsoluteMs (tl args) = (values, ms) \<Longrightarrow>
     apply_RPUSH now args kv =
       (if IsExpired now (args ! 0) kv \<or> only_type ''list'' (args ! 0) kv
        then (put_list (args ! 0) (cur_list now (args ! 0) kv @ values) (ms_expiry ms) kv, None)
        else (kv, Some ErrWrongType))"
  by (cases "IsExpired now (args ! 0) kv") (auto simp: apply_RPUSH_def RPush_def CheckAndSetType_eq SetAbsolute_eq put_list_def cur_list_def list_deleteKey_def
      DeleteType_def ttl_Delete_def only_type_def Let_def)

definition cur_zset :: "gotime \<Rightarrow> string \<Rightarrow> kvstore \<Rightarrow> skipList" where
  "cur_zset now k kv = (if IsExpired now k kv then newSkipList else case zset_data kv k of None \<Rightarrow> newSkipList | Some z \<Rightarrow> z)"

lemma apply_ZADD_eq:
  "3 \<le> length args \<Longrightarrow> ParseFloat (args ! 1) = (score, None) \<Longrightarrow>
     apply_ZADD coin now args kv =
       (if IsExpired now (args ! 0) kv \<or> only_type ''zset'' (args ! 0) kv
        then (case insert_sl coin score (args ! 2) (cur_zset now (args ! 0) kv) of
                None \<Rightarrow> None
              | Some z \<Rightarrow> Some (put_zset (args ! 0) z (ms_expiry (parseAbsoluteMs args 3)) kv, None))
        else Some (kv, Some ErrWrongType))"
  by (auto simp: apply_ZADD_def ZAdd_def CheckAndSetType_eq SetAbsolute_eq put_zset_def cur_zset_def zset_deleteKey_def
      DeleteType_def ttl_Delete_def only_type_def Let_def split: option.splits)

lemma addValue_eq:
  "addValue now k d kv =
     (if IsExpired now k kv \<or> keyTypes kv k = None \<and> str_data kv k = None
      then (kv\<lparr>keyTypes := (keyTypes kv)(k \<mapsto> ''string''), str_data := (str_data kv)(k \<mapsto> format_int (wrap64 d)),
              expiry := (if IsExpired now k kv then (expiry kv)(k := None) else expiry kv)\<rparr>, Inr (wrap64 d))
      else if only_type ''string'' k kv
      then (case str_data kv k of
              None \<Rightarrow> (put_string k (format_int (wrap64 d)) (expiry kv k) kv, Inr (wrap64 d))
            | Some s \<Rightarrow>
                (case parse_int s of
                   (_, Some _) \<Rightarrow> (kv\<lparr>keyTypes := (keyTypes kv)(k \<mapsto> ''string'')\<rparr>, Inl ErrWrongType)
                 | (n, None) \<Rightarrow> (put_string k (format_int (wrap64 (n + d))) (expiry kv k) kv, Inr (wrap64 (n + d)))))
      else (kv, Inl ErrWrongType))"
  by (auto simp: addValue_def str_expire_eq CheckAndSetType_eq put_string_def only_type_def Let_def
      split: option.splits prod.splits)

end
