(* ===== verification/KVRefine.thy ===== *)
theory KVRefine
  imports KVRows
begin

text \<open>
  The store refines the database: on well-formed tables every command of \<^verbatim>\<open>Apply\<close> keeps
  them well-formed and acts on the abstraction as the reference operation does. A write to a
  key of another type whose time has passed is excluded, and so is \<^verbatim>\<open>DEL\<close> on a key that is
  not a string: there the code leaves the old value's data behind.
\<close>

definition refines :: "kvstore \<times> kv_error option \<Rightarrow> db \<times> kv_error option \<Rightarrow> bool" where
  "refines r s \<longleftrightarrow> kv_wf (fst r) \<and> s = (abs_kv (fst r), snd r)"

lemma IsExpired_abs: "abs_kv kv k = Some (v, e) \<Longrightarrow> IsExpired now k kv = expired_at now (v, e)"
  by (auto simp: IsExpired_def expired_at_def abs_kv_def)

lemma IsExpired_typed: "kv_wf kv \<Longrightarrow> IsExpired now k kv \<Longrightarrow> keyTypes kv k \<noteq> None"
  using kv_wf_key [of kv k] by (auto simp: IsExpired_def key_wf_def row_wf_def split: option.splits)

text \<open>
  The common form of the writes: a put of the new value, which the reference operation
  computes from what the key held.
\<close>

lemma write_refines:
  assumes wf: "kv_wf kv"
    and clean: "IsExpired now k kv \<longrightarrow> only_type ty k kv"
    and put: "only_type ty k kv \<Longrightarrow> kv_wf kv' \<and> abs_kv kv' = (abs_kv kv)(k \<mapsto> (v, ms_expiry ms))"
    and new: "only_type ty k kv \<Longrightarrow> f (if IsExpired now k kv then None else map_option fst (abs_kv kv k)) = Some v"
    and refuse: "\<not> only_type ty k kv \<Longrightarrow> f (map_option fst (abs_kv kv k)) = None"
  shows "refines (if IsExpired now k kv \<or> only_type ty k kv then (kv', None) else (kv, Some ErrWrongType))
           (spec_write now k f ms (abs_kv kv))"
proof -
  have p: "purge now k (abs_kv kv) = (if IsExpired now k kv then (abs_kv kv)(k := None) else abs_kv kv)"
  proof (cases "abs_kv kv k")
    case None
    from kv_wf_key [OF wf, of k] None have "\<not> IsExpired now k kv"
      by (cases rule: key_wf_cases) (auto simp: IsExpired_def)
    with None show ?thesis by (simp add: purge_def)
  next
    case (Some c)
    then show ?thesis using IsExpired_abs [of kv k "fst c" "snd c" now] by (simp add: purge_def)
  qed
  show ?thesis
  proof (cases "only_type ty k kv")
    case True
    with put new p show ?thesis by (cases "IsExpired now k kv") (simp_all add: refines_def spec_write_def)
  next
    case False
    with clean refuse p wf show ?thesis by (simp add: refines_def spec_write_def)
  qed
qed

lemma abs_only_type:
  assumes "kv_wf kv"
  shows "only_type ''string'' k kv \<longleftrightarrow> abs_kv kv k = None \<or> (\<exists>s e. abs_kv kv k = Some (VString s, e))"
    "only_type ''hash'' k kv \<longleftrightarrow> abs_kv kv k = None \<or> (\<exists>h e. abs_kv kv k = Some (VHash h, e))"
    "only_type ''list'' k kv \<longleftrightarrow> abs_kv kv k = None \<or> (\<exists>l e. abs_kv kv k = Some (VList l, e))"
    "only_type ''zset'' k kv \<longleftrightarrow> abs_kv kv k = None \<or> (\<exists>z e. abs_kv kv k = Some (VZSet z, e))"
proof -
  note k = kv_wf_key [OF assms, of k]
  show "only_type ''string'' k kv \<longleftrightarrow> abs_kv kv k = None \<or> (\<exists>s e. abs_kv kv k = Some (VString s, e))"
    using k by (cases rule: key_wf_cases) (simp_all add: only_type_def)
  show "only_type ''hash'' k kv \<longleftrightarrow> abs_kv kv k = None \<or> (\<exists>h e. abs_kv kv k = Some (VHash h, e))"
    using k by (cases rule: key_wf_cases) (simp_all add: only_type_def)
  show "only_type ''list'' k kv \<longleftrightarrow> abs_kv kv k = None \<or> (\<exists>l e. abs_kv kv k = Some (VList l, e))"
    using k by (cases rule: key_wf_cases) (simp_all add: only_type_def)
  show "only_type ''zset'' k kv \<longleftrightarrow> abs_kv kv k = None \<or> (\<exists>z e. abs_kv kv k = Some (VZSet z, e))"
    using k by (cases rule: key_wf_cases) (simp_all add: only_type_def)
qed

lemma upd_refuses:
  assumes "kv_wf kv"
  shows "\<not> only_type ''string'' k kv \<Longrightarrow> upd_string v (map_option fst (abs_kv kv k)) = None"
    "\<not> only_type ''hash'' k kv \<Longrightarrow> upd_hash f v (map_option fst (abs_kv kv k)) = None"
    "\<not> only_type ''list'' k kv \<Longrightarrow> upd_list g (map_option fst (abs_kv kv k)) = None"
    "\<not> only_type ''zset'' k kv \<Longrightarrow> upd_zset sc m (map_option fst (abs_kv kv k)) = None"
proof -
  note k = kv_wf_key [OF assms, of k]
  show "\<not> only_type ''string'' k kv \<Longrightarrow> upd_string v (map_option fst (abs_kv kv k)) = None"
    using k by (cases rule: key_wf_cases) (simp_all add: only_type_def)
  show "\<not> only_type ''hash'' k kv \<Longrightarrow> upd_hash f v (map_option fst (abs_kv kv k)) = None"
    using k by (cases rule: key_wf_cases) (simp_all add: only_type_def)
  show "\<not> only_type ''list'' k kv \<Longrightarrow> upd_list g (map_option fst (abs_kv kv k)) = None"
    using k by (cases rule: key_wf_cases) (simp_all add: only_type_def)
  show "\<not> only_type ''zset'' k kv \<Longrightarrow> upd_zset sc m (map_option fst (abs_kv kv k)) = None"
    using k by (cases rule: key_wf_cases) (simp_all add: only_type_def)
qed

lemma apply_SET_refines:
  assumes wf: "kv_wf kv" and len: "2 \<le> length args"
    and clean: "IsExpired now (args ! 0) kv \<longrightarrow> only_type ''string'' (args ! 0) kv"
  shows "refines (apply_SET now args kv)
           (spec_write now (args ! 0) (upd_string (args ! 1)) (parseAbsoluteMs args 2) (abs_kv kv))"
  unfolding apply_SET_eq [OF len]
proof (rule write_refines [OF wf clean])
  assume t: "only_type ''string'' (args ! 0) kv"
  then show "upd_string (args ! 1) (if IsExpired now (args ! 0) kv then None else map_option fst (abs_kv kv (args ! 0)))
      = Some (VString (args ! 1))"
    using abs_only_type(1) [OF wf, of "args ! 0"] by auto
qed (simp_all add: put_string_ok [OF wf] upd_refuses(1) [OF wf])

lemma AList_update_ok: "distinct (map fst h) \<Longrightarrow> AList.update f v h \<noteq> [] \<and> distinct (map fst (AList.update f v h))"
  by (simp add: distinct_update update_nonempty)

lemma cur_hash_ok:
  assumes wf: "kv_wf kv" and t: "only_type ''hash'' k kv"
  shows "distinct (map fst (cur_hash now k kv))"
    and "upd_hash f v (if IsExpired now k kv then None else map_option fst (abs_kv kv k)) =
           Some (VHash (map_of (AList.update f v (cur_hash now k kv))))"
  using kv_wf_key [OF wf, of k] t
  by (cases rule: key_wf_cases; simp add: cur_hash_def only_type_def update_conv')+

lemma apply_HSET_refines:
  assumes wf: "kv_wf kv" and len: "3 \<le> length args"
    and clean: "IsExpired now (args ! 0) kv \<longrightarrow> only_type ''hash'' (args ! 0) kv"
  shows "refines (apply_HSET now args kv)
           (spec_write now (args ! 0) (upd_hash (args ! 1) (args ! 2)) (parseAbsoluteMs args 3) (abs_kv kv))"
  unfolding apply_HSET_eq [OF len]
proof (rule write_refines [OF wf clean])
  assume t: "only_type ''hash'' (args ! 0) kv"
  note h = AList_update_ok [OF cur_hash_ok(1) [OF wf t]]
  show "kv_wf (put_hash (args ! 0) (AList.update (args ! 1) (args ! 2) (cur_hash now (args ! 0) kv)) (ms_expiry (parseAbsoluteMs args 3)) kv) \<and>
     abs_kv (put_hash (args ! 0) (AList.update (args ! 1) (args ! 2) (cur_hash now (args ! 0) kv)) (ms_expiry (parseAbsoluteMs args 3)) kv) =
      (abs_kv kv)(args ! 0 \<mapsto> (VHash (map_of (AList.update (args ! 1) (args ! 2) (cur_hash now (args ! 0) kv))), ms_expiry (parseAbsoluteMs args 3)))"
    using put_hash_ok [OF wf t] h by blast
qed (simp_all add: cur_hash_ok [OF wf] upd_refuses(2) [OF wf])

lemma cur_list_ok:
  assumes wf: "kv_wf kv" and t: "only_type ''list'' k kv"
  shows "upd_list g (if IsExpired now k kv then None else map_option fst (abs_kv kv k)) = Some (VList (g (cur_list now k kv)))"
  using kv_wf_key [OF wf, of k] t
  by (cases rule: key_wf_cases) (simp_all add: cur_list_def only_type_def)

lemma apply_LPUSH_refines:
  assumes wf: "kv_wf kv" and len: "2 \<le> length args" and sp: "splitValuesAbsoluteMs (tl args) = (values, ms)"
    and clean: "IsExpired now (args ! 0) kv \<longrightarrow> only_type ''list'' (args ! 0) kv"
  shows "refines (apply_LPUSH now args kv) (spec_write now (args ! 0) (upd_list (\<lambda>l. rev values @ l)) ms (abs_kv kv))"
  unfolding apply_LPUSH_eq [OF len sp]
  by (rule write_refines [OF wf clean]) (simp_all add: put_list_ok [OF wf] cur_list_ok [OF wf] upd_refuses(3) [OF wf])

lemma apply_RPUSH_refines:
  assumes wf: "kv_wf kv" and len: "2 \<le> length args" and sp: "splitValuesAbsoluteMs (tl args) = (values, ms)"
    and clean: "IsExpired now (args ! 0) kv \<longrightarrow> only_type ''list'' (args ! 0) kv"
  shows "refines (apply_RPUSH now args kv) (spec_write now (args ! 0) (upd_list (\<lambda>l. l @ values)) ms (abs_kv kv))"
  unfolding apply_RPUSH_eq [OF len sp]
  by (rule write_refines [OF wf clean]) (simp_all add: put_list_ok [OF wf] cur_list_ok [OF wf] upd_refuses(3) [OF wf])

lemma cur_zset_ok:
  assumes wf: "kv_wf kv" and t: "only_type ''zset'' k kv"
  shows "\<exists>es. sl_repr (cur_zset now k kv) es \<and>
     upd_zset sc m (if IsExpired now k kv then None else map_option fst (abs_kv kv k)) = Some (VZSet (spec_insert sc m es))"
  using kv_wf_key [OF wf, of k] t
  by (cases rule: key_wf_cases) (auto simp: cur_zset_def only_type_def intro: sl_repr_new)

lemma spec_insert_not_Nil: "spec_insert sc m es \<noteq> []"
  by (auto simp: spec_insert_def insert_entry_eq)

lemma apply_ZADD_refines:
  assumes wf: "kv_wf kv" and len: "3 \<le> length args" and pf: "ParseFloat (args ! 1) = (score, None)"
    and nan: "\<not> f64_isNaN score"
    and clean: "IsExpired now (args ! 0) kv \<longrightarrow> only_type ''zset'' (args ! 0) kv"
  shows "\<exists>r. apply_ZADD coin now args kv = Some r \<and>
           refines r (spec_write now (args ! 0) (upd_zset score (args ! 2)) (parseAbsoluteMs args 3) (abs_kv kv))"
proof (cases "only_type ''zset'' (args ! 0) kv")
  case t: True
  let ?k = "args ! 0" and ?e = "ms_expiry (parseAbsoluteMs args 3)"
  obtain es where es: "sl_repr (cur_zset now ?k kv) es"
    "upd_zset score (args ! 2) (if IsExpired now ?k kv then None else map_option fst (abs_kv kv ?k)) = Some (VZSet (spec_insert score (args ! 2) es))"
    using cur_zset_ok [OF wf t] by blast
  obtain z where z: "insert_sl coin score (args ! 2) (cur_zset now ?k kv) = Some z" "sl_repr z (spec_insert score (args ! 2) es)"
    using sl_repr_insert [OF es(1) nan] by blast
  have "apply_ZADD coin now args kv = Some (put_zset ?k z ?e kv, None)"
    using z(1) t by (simp add: apply_ZADD_eq [OF len pf])
  moreover have "refines (if IsExpired now ?k kv \<or> only_type ''zset'' ?k kv then (put_zset ?k z ?e kv, None) else (kv, Some ErrWrongType))
      (spec_write now ?k (upd_zset score (args ! 2)) (parseAbsoluteMs args 3) (abs_kv kv))"
    using put_zset_ok [OF wf t z(2) spec_insert_not_Nil] es(2)
    by (intro write_refines [OF wf clean, where v = "VZSet (spec_insert score (args ! 2) es)"])
       (simp_all add: upd_refuses(4) [OF wf])
  ultimately show ?thesis using t by simp
next
  case False
  then have "\<not> IsExpired now (args ! 0) kv" using clean by blast
  then have "apply_ZADD coin now args kv = Some (if IsExpired now (args ! 0) kv \<or> only_type ''zset'' (args ! 0) kv then (kv, None) else (kv, Some ErrWrongType))"
    using False by (simp add: apply_ZADD_eq [OF len pf])
  then show ?thesis
    using write_refines [OF wf clean, where f = "upd_zset score (args ! 2)" and kv' = kv] False upd_refuses(4) [OF wf]
    by auto
qed

section \<open>Counters, removals and deletion\<close>

lemma apply_add_refines:
  assumes wf: "kv_wf kv" and clean: "IsExpired now k kv \<longrightarrow> only_type ''string'' k kv"
  shows "kv_wf (fst (addValue now k d kv)) \<and> spec_add now k d (abs_kv kv) = (abs_kv (fst (addValue now k d kv)), snd (addValue now k d kv))"
proof -
  have fresh: "addValue now k d kv = (put_string k (format_int (wrap64 d)) None kv, Inr (wrap64 d))"
    if "IsExpired now k kv \<or> keyTypes kv k = None \<and> str_data kv k = None \<and> expiry kv k = None"
    using that by (cases "IsExpired now k kv") (auto simp: addValue_eq put_string_def fun_upd_idem)
  from kv_wf_key [OF wf, of k] show ?thesis
  proof (cases rule: key_wf_cases)
    case absent
    then have t: "only_type ''string'' k kv" by (simp add: only_type_def)
    show ?thesis using fresh absent put_string_ok [OF wf t] by (simp add: spec_add_def purge_def)
  next
    case (string s)
    then have t: "only_type ''string'' k kv" by (simp add: only_type_def)
    note ok = put_string_ok [OF wf t]
    have same: "kv\<lparr>keyTypes := (keyTypes kv)(k \<mapsto> ''string'')\<rparr> = kv" using string(1) by (simp add: fun_upd_idem)
    show ?thesis
    proof (cases "IsExpired now k kv")
      case True
      then show ?thesis using fresh ok string(6) IsExpired_abs [OF string(6), of now]
        by (simp add: spec_add_def purge_def)
    next
      case False
      then show ?thesis using ok string t wf IsExpired_abs [OF string(6), of now] same
        by (auto simp: addValue_eq spec_add_def purge_def split: prod.splits option.splits)
    qed
  next
    case (hash f)
    then have "\<not> only_type ''string'' k kv" by (simp add: only_type_def)
    then show ?thesis using clean hash wf IsExpired_abs [OF hash(8), of now] by (simp add: addValue_eq spec_add_def purge_def)
  next
    case (list l)
    then have "\<not> only_type ''string'' k kv" by (simp add: only_type_def)
    then show ?thesis using clean list wf IsExpired_abs [OF list(6), of now] by (simp add: addValue_eq spec_add_def purge_def)
  next
    case (zset sl es)
    then have "\<not> only_type ''string'' k kv" by (simp add: only_type_def)
    then show ?thesis using clean zset wf IsExpired_abs [OF zset(8), of now] by (simp add: addValue_eq spec_add_def purge_def)
  qed
qed

lemma apply_DEL_refines:
  assumes "kv_wf kv" "1 \<le> length args" "only_type ''string'' (args ! 0) kv"
  shows "refines (apply_DEL args kv) (spec_del (args ! 0) (abs_kv kv))"
  using assms drop_ok(1) [OF assms(1), of "args ! 0"]
  by (auto simp: apply_DEL_def str_Delete_eq refines_def spec_del_def ignoreNotFound_def)

text \<open>
  A removal: refused for another type, and otherwise either the whole key goes or what is
  left of its value is put back with the same expiration.
\<close>

lemma remove_row:
  assumes "abs_kv kv k = Some (v, e)"
  shows "spec_remove now k g (abs_kv kv) =
     (case g v of None \<Rightarrow> (abs_kv kv, Some ErrWrongType)
      | Some r \<Rightarrow> if IsExpired now k kv then ((abs_kv kv)(k := None), None)
                   else ((abs_kv kv)(k := map_option (\<lambda>v'. (v', e)) r), None))"
  using assms IsExpired_abs [OF assms, of now] by (simp add: spec_remove_def split: option.splits)

lemma put_back_hash:
  "keyTypes kv k = Some ''hash'' \<Longrightarrow> kv\<lparr>hash_data := (hash_data kv)(k \<mapsto> h)\<rparr> = put_hash k h (expiry kv k) kv"
  by (simp add: put_hash_def fun_upd_idem)

lemma put_back_list:
  "keyTypes kv k = Some ''list'' \<Longrightarrow> kv\<lparr>list_data := (list_data kv)(k \<mapsto> l)\<rparr> = put_list k l (expiry kv k) kv"
  by (simp add: put_list_def fun_upd_idem)

lemma put_back_zset:
  "keyTypes kv k = Some ''zset'' \<Longrightarrow> kv\<lparr>zset_data := (zset_data kv)(k \<mapsto> z)\<rparr> = put_zset k z (expiry kv k) kv"
  by (simp add: put_zset_def fun_upd_idem)

lemma HDelete_eq:
  "HDelete now k f kv =
     (if \<not> only_type ''hash'' k kv then (kv, Some ErrWrongType)
      else if IsExpired now k kv then (hash_deleteKey k kv, Some ErrKeyNotFound)
      else case hash_data kv k of
             None \<Rightarrow> (kv, Some ErrKeyNotFound)
           | Some h \<Rightarrow>
               if f \<notin> fst ` set h then (kv, Some ErrKeyNotFound)
               else if AList.delete f h = [] then (hash_deleteKey k kv, None)
               else (kv\<lparr>hash_data := (hash_data kv)(k \<mapsto> AList.delete f h)\<rparr>, None))"
  by (auto simp: HDelete_def CheckType_eq hash_deleteKey_def map_of_eq_None_iff Let_def split: option.splits)

lemma dom_delete_empty: "dom (map_of h) \<subseteq> {f} \<longleftrightarrow> AList.delete f h = []"
proof -
  have "AList.delete f h = [] \<longleftrightarrow> dom (map_of (AList.delete f h)) = {}" by simp
  also have "\<dots> \<longleftrightarrow> dom (map_of h) - {f} = {}" unfolding delete_conv' dom_map_upd_None ..
  finally show ?thesis by auto
qed

lemma apply_HDEL_refines:
  assumes wf: "kv_wf kv" and len: "2 \<le> length args"
  shows "refines (apply_HDEL now args kv) (spec_remove now (args ! 0) (rem_field (args ! 1)) (abs_kv kv))"
proof -
  let ?k = "args ! 0" and ?f = "args ! 1"
  have ap: "apply_HDEL now args kv = (fst (HDelete now ?k ?f kv), ignoreNotFound (snd (HDelete now ?k ?f kv)))"
    using len by (simp add: apply_HDEL_def split: prod.splits)
  have r: "refines (apply_HDEL now args kv) (abs_kv kv, Some ErrWrongType)" if "\<not> only_type ''hash'' ?k kv"
    using that wf by (simp add: ap HDelete_eq refines_def ignoreNotFound_def)
  from kv_wf_key [OF wf, of ?k] show ?thesis
  proof (cases rule: key_wf_cases)
    case absent
    then show ?thesis using wf by (auto simp: ap HDelete_eq refines_def spec_remove_def ignoreNotFound_def IsExpired_def only_type_def)
  next
    case (hash h)
    have t: "only_type ''hash'' ?k kv" using hash by (simp add: only_type_def)
    note del = drop_ok(2) [OF wf t]
    have d: "map_of (AList.delete ?f h) = (map_of h)(?f := None)" by (simp add: delete_conv')
    have nin: "(map_of h)(?f := None) = map_of h \<and> \<not> dom (map_of h) \<subseteq> {?f}" if "?f \<notin> fst ` set h"
      using that hash(4) by (auto simp: map_of_eq_None_iff dom_map_of_conv_image_fst neq_Nil_conv)
    note ok = put_hash_ok [OF wf t _ distinct_delete [OF hash(5)], of ?f "expiry kv ?k"]
    show ?thesis
      using del ok nin d hash wf t
      by (simp add: ap HDelete_eq remove_row [OF hash(8)] put_back_hash dom_delete_empty [symmetric] refines_def ignoreNotFound_def fun_upd_idem)
  qed (use r in \<open>simp_all add: only_type_def remove_row\<close>)
qed

lemma IsExpired_max: "IsExpired (max a b) k kv \<longleftrightarrow> IsExpired a k kv \<or> IsExpired b k kv"
  by (auto simp: IsExpired_def split: option.splits)

lemma ZRem_eq:
  "ZRem now now' k m kv =
     (if \<not> only_type ''zset'' k kv then Some (kv, Some ErrWrongType)
      else if IsExpired (max now now') k kv then Some (zset_deleteKey k kv, Some ErrKeyNotFound)
      else case zset_data kv k of
             None \<Rightarrow> Some (kv, Some ErrKeyNotFound)
           | Some sl \<Rightarrow>
               (case delete_sl m sl of
                  None \<Rightarrow> None
                | Some (sl', ok) \<Rightarrow>
                    if ok \<and> sl_length sl' = 0 then Some (zset_deleteKey k kv, None)
                    else Some (kv\<lparr>zset_data := (zset_data kv)(k \<mapsto> sl')\<rparr>, None)))"
  by (auto simp: ZRem_def CheckType_eq zset_deleteKey_def zset_deleteKeyLocked_def IsExpired_max Let_def split: option.splits)

lemma apply_ZREM_refines:
  assumes wf: "kv_wf kv" and len: "2 \<le> length args"
  shows "\<exists>r. apply_ZREM now now' args kv = Some r \<and>
           refines r (spec_remove (max now now') (args ! 0) (rem_member (args ! 1)) (abs_kv kv))"
proof -
  let ?k = "args ! 0" and ?m = "args ! 1"
  have ap: "apply_ZREM now now' args kv = map_option (\<lambda>(kv1, err). (kv1, ignoreNotFound err)) (ZRem now now' ?k ?m kv)"
    using len by (simp add: apply_ZREM_def)
  have r: "\<exists>r. apply_ZREM now now' args kv = Some r \<and> refines r (abs_kv kv, Some ErrWrongType)" if "\<not> only_type ''zset'' ?k kv"
    using that wf by (simp add: ap ZRem_eq refines_def ignoreNotFound_def)
  from kv_wf_key [OF wf, of ?k] show ?thesis
  proof (cases rule: key_wf_cases)
    case absent
    then show ?thesis using wf by (simp add: ap ZRem_eq refines_def spec_remove_def ignoreNotFound_def IsExpired_def only_type_def)
  next
    case (zset sl es)
    have t: "only_type ''zset'' ?k kv" using zset by (simp add: only_type_def)
    note del = drop_ok(4) [OF wf t]
    obtain sl' where d: "delete_sl ?m sl = Some (sl', ?m \<in> snd ` set es)" "sl_repr sl' (spec_delete ?m es)"
      using sl_repr_delete [OF zset(7)] by blast
    have len': "sl_length sl' = length (spec_delete ?m es)" using d(2) by (rule sl_repr_length)
    have absent: "?m \<notin> snd ` set es \<Longrightarrow> spec_delete ?m es \<noteq> []" using zset(6) by (simp add: spec_delete_absent)
    note ok = put_zset_ok [OF wf t d(2), of "expiry kv ?k"]
    show ?thesis
    proof (cases "spec_delete ?m es = []")
      case True
      then have "?m \<in> snd ` set es" using absent by blast
      then show ?thesis using True del zset wf t d(1) len'
        by (simp add: ap ZRem_eq remove_row [OF zset(8)] refines_def ignoreNotFound_def)
    next
      case False
      then show ?thesis using ok del zset wf t d(1) len'
        by (simp add: ap ZRem_eq remove_row [OF zset(8)] put_back_zset refines_def ignoreNotFound_def)
    qed
  qed (use r in \<open>simp_all add: only_type_def remove_row\<close>)
qed

lemma pop_finish_eq: "pop_finish k ll kv = (if ll = [] then list_deleteKey k kv else kv\<lparr>list_data := (list_data kv)(k \<mapsto> ll)\<rparr>)"
  by (simp add: pop_finish_def list_deleteKey_def)

lemma pop_refines:
  assumes wf: "kv_wf kv"
    and op: "op = (if \<not> only_type ''list'' k kv then (kv, Inl ErrWrongType)
                   else if IsExpired now k kv then (list_deleteKey k kv, Inl ErrKeyNotFound)
                   else case list_data kv k of
                          None \<Rightarrow> (kv, Inl ErrKeyNotFound)
                        | Some l \<Rightarrow> if l = [] then (kv, Inl ErrEmptyList) else (pop_finish k (g l) kv, Inr (x l)))"
  shows "refines (fst op, ignoreNotFound (err_of (snd op))) (spec_pop now k g (abs_kv kv))"
proof -
  have r: "refines (fst op, ignoreNotFound (err_of (snd op))) (abs_kv kv, Some ErrWrongType)" if "\<not> only_type ''list'' k kv"
    using that wf by (simp add: op refines_def ignoreNotFound_def err_of_def)
  from kv_wf_key [OF wf, of k] show ?thesis
  proof (cases rule: key_wf_cases)
    case absent
    then show ?thesis using wf by (simp add: op refines_def spec_pop_def ignoreNotFound_def err_of_def IsExpired_def only_type_def)
  next
    case (list l)
    have t: "only_type ''list'' k kv" using list by (simp add: only_type_def)
    show ?thesis
      using drop_ok(3) [OF wf t] put_list_ok [OF wf t] list wf t IsExpired_abs [OF list(6), of now]
      by (simp add: op refines_def spec_pop_def ignoreNotFound_def err_of_def pop_finish_eq put_back_list)
  qed (use r in \<open>simp_all add: only_type_def spec_pop_def\<close>)
qed

lemma apply_LPOP_refines:
  assumes "kv_wf kv" "1 \<le> length args"
  shows "refines (apply_LPOP now args kv) (spec_pop now (args ! 0) tl (abs_kv kv))"
proof -
  have "LPop now (args ! 0) kv = (if \<not> only_type ''list'' (args ! 0) kv then (kv, Inl ErrWrongType)
        else if IsExpired now (args ! 0) kv then (list_deleteKey (args ! 0) kv, Inl ErrKeyNotFound)
        else case list_data kv (args ! 0) of
               None \<Rightarrow> (kv, Inl ErrKeyNotFound)
             | Some l \<Rightarrow> if l = [] then (kv, Inl ErrEmptyList) else (pop_finish (args ! 0) (tl l) kv, Inr (hd l)))"
    by (auto simp: LPop_def CheckType_eq split: option.splits list.splits)
  from pop_refines [OF assms(1) this] show ?thesis
    using assms(2) by (cases "LPop now (args ! 0) kv") (auto simp: apply_LPOP_def)
qed

lemma apply_RPOP_refines:
  assumes "kv_wf kv" "1 \<le> length args"
  shows "refines (apply_RPOP now args kv) (spec_pop now (args ! 0) butlast (abs_kv kv))"
proof -
  have "RPop now (args ! 0) kv = (if \<not> only_type ''list'' (args ! 0) kv then (kv, Inl ErrWrongType)
        else if IsExpired now (args ! 0) kv then (list_deleteKey (args ! 0) kv, Inl ErrKeyNotFound)
        else case list_data kv (args ! 0) of
               None \<Rightarrow> (kv, Inl ErrKeyNotFound)
             | Some l \<Rightarrow> if l = [] then (kv, Inl ErrEmptyList) else (pop_finish (args ! 0) (butlast l) kv, Inr (last l)))"
    by (auto simp: RPop_def CheckType_eq split: option.splits)
  from pop_refines [OF assms(1) this] show ?thesis
    using assms(2) by (cases "RPop now (args ! 0) kv") (auto simp: apply_RPOP_def)
qed

section \<open>All commands\<close>

fun type_name :: "val \<Rightarrow> string" where
  "type_name (VString _) = ''string''"
| "type_name (VHash _) = ''hash''"
| "type_name (VList _) = ''list''"
| "type_name (VZSet _) = ''zset''"

text \<open>The reference semantics of a command, with the argument checks of \<^verbatim>\<open>Apply\<close>.\<close>

definition spec_command :: "gotime \<Rightarrow> gotime \<Rightarrow> CommandPayload \<Rightarrow> db \<Rightarrow> db \<times> kv_error option" where
  "spec_command now now' payload m =
     (let op = ToUpper (Op payload); args = Args payload; k = args ! 0; bad = (m, Some ErrInvalidArgs) in
      if op = ''SET'' then (if length args < 2 then bad else spec_write now k (upd_string (args ! 1)) (parseAbsoluteMs args 2) m)
      else if op = ''DEL'' then (if length args < 1 then bad else spec_del k m)
      else if op = ''INCR'' then (if length args < 1 then bad else map_prod id err_of (spec_add now k 1 m))
      else if op = ''DECR'' then (if length args < 1 then bad else map_prod id err_of (spec_add now k (- 1) m))
      else if op = ''HSET'' then (if length args < 3 then bad else spec_write now k (upd_hash (args ! 1) (args ! 2)) (parseAbsoluteMs args 3) m)
      else if op = ''HDEL'' then (if length args < 2 then bad else spec_remove now k (rem_field (args ! 1)) m)
      else if op = ''LPUSH'' then
        (if length args < 2 then bad
         else case splitValuesAbsoluteMs (tl args) of (vs, ms) \<Rightarrow> spec_write now k (upd_list (\<lambda>l. rev vs @ l)) ms m)
      else if op = ''RPUSH'' then
        (if length args < 2 then bad
         else case splitValuesAbsoluteMs (tl args) of (vs, ms) \<Rightarrow> spec_write now k (upd_list (\<lambda>l. l @ vs)) ms m)
      else if op = ''LPOP'' then (if length args < 1 then bad else spec_pop now k tl m)
      else if op = ''RPOP'' then (if length args < 1 then bad else spec_pop now k butlast m)
      else if op = ''ZADD'' then
        (if length args < 3 then bad
         else case ParseFloat (args ! 1) of
                (_, Some _) \<Rightarrow> bad
              | (sc, None) \<Rightarrow> spec_write now k (upd_zset sc (args ! 2)) (parseAbsoluteMs args 3) m)
      else if op = ''ZREM'' then (if length args < 2 then bad else spec_remove (max now now') k (rem_member (args ! 1)) m)
      else (m, Some ErrUnknownCommand))"

definition written_type :: "string \<Rightarrow> string option" where
  "written_type op =
     (if op \<in> {''SET'', ''INCR'', ''DECR''} then Some ''string''
      else if op = ''HSET'' then Some ''hash''
      else if op \<in> {''LPUSH'', ''RPUSH''} then Some ''list''
      else if op = ''ZADD'' then Some ''zset''
      else None)"

text \<open>
  The commands outside the refinement: a write over an expired value of another type, a
  \<^verbatim>\<open>DEL\<close> of a value that is not a string, and a NaN score.
\<close>

definition clean_command :: "gotime \<Rightarrow> CommandPayload \<Rightarrow> db \<Rightarrow> bool" where
  "clean_command now payload m \<longleftrightarrow>
     (let op = ToUpper (Op payload); args = Args payload in
      (case m (args ! 0) of
         None \<Rightarrow> True
       | Some c \<Rightarrow>
           (op = ''DEL'' \<longrightarrow> type_name (fst c) = ''string'') \<and>
           (case written_type op of None \<Rightarrow> True | Some ty \<Rightarrow> expired_at now c \<longrightarrow> type_name (fst c) = ty)) \<and>
      (op = ''ZADD'' \<longrightarrow> \<not> f64_isNaN (fst (ParseFloat (args ! 1)))))"

lemma only_type_iff:
  assumes "kv_wf kv" "ty \<in> {''string'', ''hash'', ''list'', ''zset''}"
  shows "only_type ty k kv \<longleftrightarrow> (case abs_kv kv k of None \<Rightarrow> True | Some c \<Rightarrow> type_name (fst c) = ty)"
  using kv_wf_key [OF assms(1), of k] assms(2)
  by (cases rule: key_wf_cases) (auto simp: only_type_def)

lemma clean_write:
  assumes wf: "kv_wf kv" and clean: "clean_command now p (abs_kv kv)" and w: "written_type (ToUpper (Op p)) = Some ty"
  shows "IsExpired now (Args p ! 0) kv \<longrightarrow> only_type ty (Args p ! 0) kv"
proof
  assume e: "IsExpired now (Args p ! 0) kv"
  have ty: "ty \<in> {''string'', ''hash'', ''list'', ''zset''}"
    using w by (auto simp: written_type_def split: if_splits)
  show "only_type ty (Args p ! 0) kv"
  proof (cases "abs_kv kv (Args p ! 0)")
    case (Some c)
    then have "expired_at now c" using IsExpired_abs [of kv "Args p ! 0" "fst c" "snd c" now] e by simp
    with Some clean w show ?thesis by (simp add: only_type_iff [OF wf ty] clean_command_def Let_def)
  qed (simp add: only_type_iff [OF wf ty])
qed

lemma apply_short:
  "length args < 2 \<Longrightarrow> apply_SET now args kv = (kv, Some ErrInvalidArgs)"
  "length args < 1 \<Longrightarrow> apply_DEL args kv = (kv, Some ErrInvalidArgs)"
  "length args < 3 \<Longrightarrow> apply_HSET now args kv = (kv, Some ErrInvalidArgs)"
  "length args < 2 \<Longrightarrow> apply_HDEL now args kv = (kv, Some ErrInvalidArgs)"
  "length args < 2 \<Longrightarrow> apply_LPUSH now args kv = (kv, Some ErrInvalidArgs)"
  "length args < 2 \<Longrightarrow> apply_RPUSH now args kv = (kv, Some ErrInvalidArgs)"
  "length args < 1 \<Longrightarrow> apply_LPOP now args kv = (kv, Some ErrInvalidArgs)"
  "length args < 1 \<Longrightarrow> apply_RPOP now args kv = (kv, Some ErrInvalidArgs)"
  "length args < 3 \<Longrightarrow> apply_ZADD coin now args kv = Some (kv, Some ErrInvalidArgs)"
  "length args < 2 \<Longrightarrow> apply_ZREM now now' args kv = Some (kv, Some ErrInvalidArgs)"
  by (simp_all add: apply_SET_def apply_DEL_def apply_HSET_def apply_HDEL_def apply_LPUSH_def apply_RPUSH_def
      apply_LPOP_def apply_RPOP_def apply_ZADD_def apply_ZREM_def)

lemmas dispatch = apply_command_def spec_command_def Let_def not_less

lemma bad_args_refines: "kv_wf kv \<Longrightarrow> refines (kv, err) (abs_kv kv, err)"
  by (simp add: refines_def)

lemma add_refines:
  assumes "kv_wf kv" "IsExpired now k kv \<longrightarrow> only_type ''string'' k kv"
  shows "refines (fst (addValue now k d kv), err_of (snd (addValue now k d kv))) (map_prod id err_of (spec_add now k d (abs_kv kv)))"
  using apply_add_refines [OF assms, of d] by (simp add: refines_def)

lemma apply_strings_refines:
  assumes wf: "kv_wf kv" and clean: "clean_command now p (abs_kv kv)" and op: "ToUpper (Op p) \<in> {''SET'', ''DEL'', ''INCR'', ''DECR''}"
  shows "\<exists>r. apply_command coin now now' p kv = Some r \<and> refines r (spec_command now now' p (abs_kv kv))"
proof -
  let ?k = "Args p ! 0"
  have add: "refines (fst (addValue now ?k d kv), err_of (snd (addValue now ?k d kv))) (map_prod id err_of (spec_add now ?k d (abs_kv kv)))"
    if "written_type (ToUpper (Op p)) = Some ''string''" for d
    using clean_write [OF wf clean that] by (rule add_refines [OF wf])
  consider "ToUpper (Op p) = ''SET''" | "ToUpper (Op p) = ''DEL''" | "ToUpper (Op p) = ''INCR''" | "ToUpper (Op p) = ''DECR''"
    using op by blast
  then show ?thesis
  proof cases
    case 1
    then have cl: "IsExpired now ?k kv \<longrightarrow> only_type ''string'' ?k kv"
      by (intro clean_write [OF wf clean]) (simp add: written_type_def)
    with 1 show ?thesis
      using apply_SET_refines [OF wf _ cl] bad_args_refines [OF wf]
      by (cases "length (Args p) < 2") (simp_all add: dispatch apply_short)
  next
    case 2
    then have "only_type ''string'' ?k kv"
      using clean by (auto simp: only_type_iff [OF wf] clean_command_def Let_def split: option.splits)
    with 2 show ?thesis
      using apply_DEL_refines [OF wf, of "Args p"] bad_args_refines [OF wf]
      by (cases "length (Args p) < 1") (simp_all add: dispatch apply_short)
  next
    case 3
    with add [of 1] show ?thesis using bad_args_refines [OF wf]
      by (cases "length (Args p) < 1") (simp_all add: dispatch apply_INCR_def Incr_def case_prod_beta written_type_def)
  next
    case 4
    with add [of "- 1"] show ?thesis using bad_args_refines [OF wf]
      by (cases "length (Args p) < 1") (simp_all add: dispatch apply_DECR_def Decr_def case_prod_beta written_type_def)
  qed
qed

lemma apply_containers_refines:
  assumes wf: "kv_wf kv" and clean: "clean_command now p (abs_kv kv)"
    and op: "ToUpper (Op p) \<in> {''HSET'', ''HDEL'', ''LPUSH'', ''RPUSH'', ''LPOP'', ''RPOP''}"
  shows "\<exists>r. apply_command coin now now' p kv = Some r \<and> refines r (spec_command now now' p (abs_kv kv))"
proof -
  let ?k = "Args p ! 0"
  obtain vs ms where sp: "splitValuesAbsoluteMs (tl (Args p)) = (vs, ms)" by fastforce
  have cl: "IsExpired now ?k kv \<longrightarrow> only_type ty ?k kv" if "written_type (ToUpper (Op p)) = Some ty" for ty
    using clean_write [OF wf clean that] .
  consider "ToUpper (Op p) = ''HSET''" | "ToUpper (Op p) = ''HDEL''" | "ToUpper (Op p) = ''LPUSH''" | "ToUpper (Op p) = ''RPUSH''"
    | "ToUpper (Op p) = ''LPOP''" | "ToUpper (Op p) = ''RPOP''"
    using op by blast
  then show ?thesis
  proof cases
    case 1
    then show ?thesis
      using apply_HSET_refines [OF wf _ cl] bad_args_refines [OF wf]
      by (cases "length (Args p) < 3") (simp_all add: dispatch apply_short written_type_def)
  next
    case 2
    then show ?thesis
      using apply_HDEL_refines [OF wf] bad_args_refines [OF wf]
      by (cases "length (Args p) < 2") (simp_all add: dispatch apply_short)
  next
    case 3
    then show ?thesis
      using apply_LPUSH_refines [OF wf _ sp cl] bad_args_refines [OF wf] sp
      by (cases "length (Args p) < 2") (simp_all add: dispatch apply_short written_type_def)
  next
    case 4
    then show ?thesis
      using apply_RPUSH_refines [OF wf _ sp cl] bad_args_refines [OF wf] sp
      by (cases "length (Args p) < 2") (simp_all add: dispatch apply_short written_type_def)
  next
    case 5
    then show ?thesis
      using apply_LPOP_refines [OF wf, of "Args p"] bad_args_refines [OF wf]
      by (cases "length (Args p) < 1") (simp_all add: dispatch apply_short)
  next
    case 6
    then show ?thesis
      using apply_RPOP_refines [OF wf, of "Args p"] bad_args_refines [OF wf]
      by (cases "length (Args p) < 1") (simp_all add: dispatch apply_short)
  qed
qed

lemma apply_zsets_refines:
  assumes wf: "kv_wf kv" and clean: "clean_command now p (abs_kv kv)" and op: "ToUpper (Op p) \<in> {''ZADD'', ''ZREM''}"
  shows "\<exists>r. apply_command coin now now' p kv = Some r \<and> refines r (spec_command now now' p (abs_kv kv))"
proof -
  let ?k = "Args p ! 0"
  obtain sc er where pf: "ParseFloat (Args p ! 1) = (sc, er)" by fastforce
  consider "ToUpper (Op p) = ''ZADD''" | "ToUpper (Op p) = ''ZREM''" using op by blast
  then show ?thesis
  proof cases
    case 1
    then have cl: "IsExpired now ?k kv \<longrightarrow> only_type ''zset'' ?k kv"
      by (intro clean_write [OF wf clean]) (simp add: written_type_def)
    have nan: "\<not> f64_isNaN sc" using clean 1 pf by (simp add: clean_command_def Let_def)
    have d: "apply_command coin now now' p kv = apply_ZADD coin now (Args p) kv" using 1 by (simp add: dispatch)
    show ?thesis
    proof (cases "length (Args p) < 3")
      case True
      then show ?thesis using 1 bad_args_refines [OF wf] by (simp add: dispatch apply_short)
    next
      case False
      then show ?thesis
        using 1 pf apply_ZADD_refines [OF wf _ _ nan cl, of coin] bad_args_refines [OF wf]
        by (cases er) (simp_all add: d spec_command_def Let_def apply_ZADD_def [of coin now "Args p"])
    qed
  next
    case 2
    then show ?thesis
      using apply_ZREM_refines [OF wf, of "Args p" now now'] bad_args_refines [OF wf]
      by (cases "length (Args p) < 2") (simp_all add: dispatch apply_short)
  qed
qed

lemma apply_command_refines:
  assumes "kv_wf kv" "clean_command now p (abs_kv kv)"
  shows "\<exists>r. apply_command coin now now' p kv = Some r \<and> refines r (spec_command now now' p (abs_kv kv))"
proof (cases "ToUpper (Op p) \<in> {''SET'', ''DEL'', ''INCR'', ''DECR''} \<union> {''HSET'', ''HDEL'', ''LPUSH'', ''RPUSH'', ''LPOP'', ''RPOP''} \<union> {''ZADD'', ''ZREM''}")
  case True
  then show ?thesis
    using apply_strings_refines [OF assms] apply_containers_refines [OF assms] apply_zsets_refines [OF assms] by blast
next
  case False
  then have "apply_command coin now now' p kv = Some (kv, Some ErrUnknownCommand)"
    "spec_command now now' p (abs_kv kv) = (abs_kv kv, Some ErrUnknownCommand)"
    by (simp_all add: apply_command_def spec_command_def Let_def)
  then show ?thesis using bad_args_refines [OF assms(1)] by simp
qed

end
