(* ===== verification/KVProps.thy ===== *)
theory KVProps
  imports KVRefine
begin

text \<open>
  The properties of the state machine: refinement of the database by \<^verbatim>\<open>Apply\<close>, agreement of
  replicas, counters, range queries, expiration, snapshots, and the four places where the
  code falls short of the database.
\<close>

section \<open>Replicas\<close>

text \<open>
  A replica applies a list of commands: the \<open>i\<close>-th uses the draws \<open>coins i\<close> and the clock
  readings \<open>clk i\<close>. Errors of a command are reported and the next one is applied.
\<close>

fun run_commands :: "(nat \<Rightarrow> nat \<Rightarrow> bool) \<Rightarrow> (nat \<Rightarrow> gotime \<times> gotime) \<Rightarrow> nat \<Rightarrow> CommandPayload list \<Rightarrow> kvstore \<Rightarrow> kvstore option" where
  "run_commands coins clk i [] kv = Some kv"
| "run_commands coins clk i (p # ps) kv =
     (case apply_command (coins i) (fst (clk i)) (snd (clk i)) p kv of
        None \<Rightarrow> None
      | Some (kv', _) \<Rightarrow> run_commands coins clk (Suc i) ps kv')"

fun run_spec :: "(nat \<Rightarrow> gotime \<times> gotime) \<Rightarrow> nat \<Rightarrow> CommandPayload list \<Rightarrow> db \<Rightarrow> db" where
  "run_spec clk i [] m = m"
| "run_spec clk i (p # ps) m = run_spec clk (Suc i) ps (fst (spec_command (fst (clk i)) (snd (clk i)) p m))"

fun clean_run :: "(nat \<Rightarrow> gotime \<times> gotime) \<Rightarrow> nat \<Rightarrow> CommandPayload list \<Rightarrow> db \<Rightarrow> bool" where
  "clean_run clk i [] m \<longleftrightarrow> True"
| "clean_run clk i (p # ps) m \<longleftrightarrow>
     clean_command (fst (clk i)) p m \<and> clean_run clk (Suc i) ps (fst (spec_command (fst (clk i)) (snd (clk i)) p m))"

lemma run_commands_refines:
  assumes "kv_wf kv" "clean_run clk i ps (abs_kv kv)"
  shows "\<exists>kv'. run_commands coins clk i ps kv = Some kv' \<and> kv_wf kv' \<and> abs_kv kv' = run_spec clk i ps (abs_kv kv)"
  using assms
proof (induction ps arbitrary: i kv)
  case (Cons p ps)
  obtain kv1 err where r: "apply_command (coins i) (fst (clk i)) (snd (clk i)) p kv = Some (kv1, err)"
    "kv_wf kv1" "spec_command (fst (clk i)) (snd (clk i)) p (abs_kv kv) = (abs_kv kv1, err)"
    using apply_command_refines [of kv "fst (clk i)" p "coins i" "snd (clk i)"] Cons.prems by (auto simp: refines_def)
  with Cons.IH [of kv1 "Suc i"] Cons.prems(2) show ?case by simp
qed simp

text \<open>Two clocks give a command the same verdict on the expiration of its key.\<close>

definition same_verdict :: "gotime \<times> gotime \<Rightarrow> gotime \<times> gotime \<Rightarrow> CommandPayload \<Rightarrow> db \<Rightarrow> bool" where
  "same_verdict a b p m \<longleftrightarrow>
     (case m (Args p ! 0) of
        None \<Rightarrow> True
      | Some c \<Rightarrow> expired_at (fst a) c = expired_at (fst b) c \<and>
                  expired_at (max (fst a) (snd a)) c = expired_at (max (fst b) (snd b)) c)"

fun same_verdicts :: "(nat \<Rightarrow> gotime \<times> gotime) \<Rightarrow> (nat \<Rightarrow> gotime \<times> gotime) \<Rightarrow> nat \<Rightarrow> CommandPayload list \<Rightarrow> db \<Rightarrow> bool" where
  "same_verdicts c1 c2 i [] m \<longleftrightarrow> True"
| "same_verdicts c1 c2 i (p # ps) m \<longleftrightarrow>
     same_verdict (c1 i) (c2 i) p m \<and> same_verdicts c1 c2 (Suc i) ps (fst (spec_command (fst (c1 i)) (snd (c1 i)) p m))"

lemma spec_write_clock:
  assumes "case m k of None \<Rightarrow> True | Some c \<Rightarrow> expired_at a c = expired_at b c"
  shows "spec_write a k f ms m = spec_write b k f ms m" "spec_add a k d m = spec_add b k d m"
    "spec_remove a k g m = spec_remove b k g m" "spec_pop a k h m = spec_pop b k h m"
proof -
  have p: "purge a k m = purge b k m" using assms by (cases "m k") (auto simp: purge_def)
  show "spec_write a k f ms m = spec_write b k f ms m" "spec_add a k d m = spec_add b k d m"
    by (simp_all add: spec_write_def spec_add_def p)
  show "spec_remove a k g m = spec_remove b k g m" "spec_pop a k h m = spec_pop b k h m"
    using assms by (cases "m k"; auto simp: spec_remove_def spec_pop_def split: option.splits val.splits)+
qed

lemma spec_command_clock:
  assumes "same_verdict (a, a') (b, b') p m"
  shows "spec_command a a' p m = spec_command b b' p m"
proof -
  have v: "case m (Args p ! 0) of None \<Rightarrow> True | Some c \<Rightarrow> expired_at a c = expired_at b c"
    "case m (Args p ! 0) of None \<Rightarrow> True | Some c \<Rightarrow> expired_at (max a a') c = expired_at (max b b') c"
    using assms by (auto simp: same_verdict_def split: option.splits)
  show ?thesis
    unfolding spec_command_def Let_def
    by (simp only: spec_write_clock [where a = a and b = b and k = "Args p ! 0" and m = m, OF v(1)]
        spec_write_clock(3) [where a = "max a a'" and b = "max b b'" and k = "Args p ! 0" and m = m, OF v(2)])
qed

lemma clean_command_clock: "same_verdict a b p m \<Longrightarrow> clean_command (fst a) p m = clean_command (fst b) p m"
  by (cases "m (Args p ! 0)"; cases "written_type (ToUpper (Op p))") (simp_all add: same_verdict_def clean_command_def Let_def)

lemma run_spec_clock:
  "same_verdicts c1 c2 i ps m \<Longrightarrow> run_spec c1 i ps m = run_spec c2 i ps m"
proof (induction ps arbitrary: i m)
  case (Cons p ps)
  then show ?case
    using spec_command_clock [of "fst (c1 i)" "snd (c1 i)" "fst (c2 i)" "snd (c2 i)" p m] by simp
qed simp

lemma clean_run_clock:
  "same_verdicts c1 c2 i ps m \<Longrightarrow> clean_run c1 i ps m = clean_run c2 i ps m"
proof (induction ps arbitrary: i m)
  case (Cons p ps)
  then show ?case
    using spec_command_clock [of "fst (c1 i)" "snd (c1 i)" "fst (c2 i)" "snd (c2 i)" p m]
      clean_command_clock [of "c1 i" "c2 i" p m] by simp
qed simp

text \<open>
  C1: \<^verbatim>\<open>KVStore.Apply\<close> implements the database. On well-formed tables a key-value entry
  whose payload decodes is applied to the end (no loop of a skip list runs on, no pointer is
  \<^verbatim>\<open>nil\<close>), leaves the tables well-formed, and the database they represent and the returned
  error are those of the reference command, whatever the random draws are. Three kinds of commands
  are excepted, for which the code does not do what the command says: \<^verbatim>\<open>DEL\<close> of a key that holds
  no string, a write over an expired value of another type, and \<^verbatim>\<open>ZADD\<close> with the score NaN.
\<close>

theorem Apply_refines_database:
  assumes "kv_wf kv" "Type e = EntryKV" "unmarshal (Command e) = Some p" "clean_command now p (abs_kv kv)"
  shows "\<exists>kv' err. Apply unmarshal coin now now' e kv = Some (kv', err) \<and> kv_wf kv' \<and>
           spec_command now now' p (abs_kv kv) = (abs_kv kv', err)"
  using apply_command_refines [OF assms(1,4), of coin now'] assms(2,3) by (auto simp: Apply_def refines_def)

theorem Apply_refines_database_witness:
  "\<exists>kv' err. Apply (\<lambda>_. Some \<lparr>Op = ''SET'', Args = [''k'', ''v'', ''7'']\<rparr>) (\<lambda>_. True) 5 5
      \<lparr>Index = 1, Term = 1, Type = EntryKV, Command = []\<rparr> NewKVStore = Some (kv', err) \<and> kv_wf kv' \<and>
      spec_command 5 5 \<lparr>Op = ''SET'', Args = [''k'', ''v'', ''7'']\<rparr> (abs_kv NewKVStore) = (abs_kv kv', err)"
  by (rule Apply_refines_database) (simp_all add: kv_wf_NewKVStore abs_NewKVStore clean_command_def)

text \<open>What the type tag of a key says of the check and, on well-formed tables, of the data.\<close>

lemma CheckType_tagged:
  "keyTypes kv k = Some ty \<Longrightarrow> CheckType k other kv = (if other = ty then None else Some ErrWrongType)"
  by (simp add: CheckType_def)

lemma one_of_four: "t = None \<or> t = Some a \<or> t = Some b \<or> t = Some c \<or> t = Some d \<Longrightarrow> \<forall>ty. t = Some ty \<longrightarrow> ty \<in> {a, b, c, d}"
  by auto

lemma key_wf_tagged:
  assumes "key_wf kv k"
  shows "(str_data kv k \<noteq> None \<longleftrightarrow> keyTypes kv k = Some ''string'') \<and> (hash_data kv k \<noteq> None \<longleftrightarrow> keyTypes kv k = Some ''hash'') \<and>
    (list_data kv k \<noteq> None \<longleftrightarrow> keyTypes kv k = Some ''list'') \<and> (zset_data kv k \<noteq> None \<longleftrightarrow> keyTypes kv k = Some ''zset'') \<and>
    (expiry kv k \<noteq> None \<longrightarrow> keyTypes kv k \<noteq> None) \<and> (\<forall>ty. keyTypes kv k = Some ty \<longrightarrow> ty \<in> {''string'', ''hash'', ''list'', ''zset''})"
  using assms unfolding key_wf_def row_wf_def
  by (elim conjE, intro conjI) (assumption | erule one_of_four)+

text \<open>
  C24: every key has one type. After any list of commands from the empty store that stays clear of
  the named exceptions, a key is tagged with a type exactly when the table of that type, and no
  other, holds its data; only tagged keys have an expiration; and \<^verbatim>\<open>CheckType\<close> admits the tagged
  type and refuses every other.
\<close>

theorem keys_have_one_type:
  assumes "clean_run clk 0 ps (abs_kv NewKVStore)"
  shows "\<exists>kv. run_commands coins clk 0 ps NewKVStore = Some kv \<and>
    (\<forall>k. (str_data kv k \<noteq> None \<longleftrightarrow> keyTypes kv k = Some ''string'') \<and> (hash_data kv k \<noteq> None \<longleftrightarrow> keyTypes kv k = Some ''hash'') \<and>
       (list_data kv k \<noteq> None \<longleftrightarrow> keyTypes kv k = Some ''list'') \<and> (zset_data kv k \<noteq> None \<longleftrightarrow> keyTypes kv k = Some ''zset'') \<and>
       (expiry kv k \<noteq> None \<longrightarrow> keyTypes kv k \<noteq> None) \<and> (\<forall>ty. keyTypes kv k = Some ty \<longrightarrow> ty \<in> {''string'', ''hash'', ''list'', ''zset''})) \<and>
    (\<forall>k ty other. keyTypes kv k = Some ty \<longrightarrow> CheckType k other kv = (if other = ty then None else Some ErrWrongType))"
proof -
  obtain kv where kv: "run_commands coins clk 0 ps NewKVStore = Some kv" "kv_wf kv"
    using run_commands_refines [OF kv_wf_NewKVStore assms] by blast
  have "\<forall>k ty other. keyTypes kv k = Some ty \<longrightarrow> CheckType k other kv = (if other = ty then None else Some ErrWrongType)"
    by (intro allI impI) (rule CheckType_tagged)
  with kv(1) allI [OF key_wf_tagged [OF kv_wf_key [OF kv(2)]]] show ?thesis by (intro exI [of _ kv] conjI)
qed

theorem keys_have_one_type_witness:
  "\<exists>kv. run_commands (\<lambda>_ _. True) (\<lambda>_. (5, 5)) 0 [\<lparr>Op = ''SET'', Args = [''k'', ''1'']\<rparr>] NewKVStore = Some kv \<and>
     (str_data kv ''k'' \<noteq> None \<longleftrightarrow> keyTypes kv ''k'' = Some ''string'')"
proof -
  have "clean_run (\<lambda>_. (5, 5)) 0 [\<lparr>Op = ''SET'', Args = [''k'', ''1'']\<rparr>] (abs_kv NewKVStore)" by (simp add: clean_command_def abs_NewKVStore)
  from keys_have_one_type [OF this, of "\<lambda>_ _. True"] show ?thesis by (elim exE conjE allE [where x = "''k''"]) (rule exI, rule conjI)
qed

text \<open>
  Replicas that start from the same database and apply the same commands hold the same
  database afterwards, whatever random draws their skip lists make and whatever their clocks
  say, as long as the clocks agree on which of the addressed keys have expired.
\<close>

theorem replicas_converge:
  assumes "kv_wf kv1" "kv_wf kv2" "abs_kv kv1 = abs_kv kv2"
    "clean_run clk1 0 ps (abs_kv kv1)" "same_verdicts clk1 clk2 0 ps (abs_kv kv1)"
  shows "\<exists>kv1' kv2'. run_commands coins1 clk1 0 ps kv1 = Some kv1' \<and> run_commands coins2 clk2 0 ps kv2 = Some kv2' \<and>
           abs_kv kv1' = abs_kv kv2' \<and> kv_wf kv1' \<and> kv_wf kv2'"
proof -
  have "clean_run clk2 0 ps (abs_kv kv2)" using clean_run_clock [OF assms(5)] assms(3,4) by simp
  then obtain kv2' where "run_commands coins2 clk2 0 ps kv2 = Some kv2'" "kv_wf kv2'" "abs_kv kv2' = run_spec clk2 0 ps (abs_kv kv2)"
    using run_commands_refines [OF assms(2)] by blast
  moreover obtain kv1' where "run_commands coins1 clk1 0 ps kv1 = Some kv1'" "kv_wf kv1'" "abs_kv kv1' = run_spec clk1 0 ps (abs_kv kv1)"
    using run_commands_refines [OF assms(1,4)] by blast
  ultimately show ?thesis using run_spec_clock [OF assms(5)] assms(3) by auto
qed

theorem replicas_converge_witness:
  "\<exists>kv1' kv2'. run_commands (\<lambda>_ _. True) (\<lambda>_. (5, 5)) 0 [\<lparr>Op = ''SET'', Args = [''k'', ''1'']\<rparr>, \<lparr>Op = ''INCR'', Args = [''k'']\<rparr>] NewKVStore = Some kv1' \<and>
     run_commands (\<lambda>_ _. False) (\<lambda>_. (9, 9)) 0 [\<lparr>Op = ''SET'', Args = [''k'', ''1'']\<rparr>, \<lparr>Op = ''INCR'', Args = [''k'']\<rparr>] NewKVStore = Some kv2' \<and>
     abs_kv kv1' = abs_kv kv2' \<and> kv_wf kv1' \<and> kv_wf kv2'"
  by (rule replicas_converge)
    (simp_all add: kv_wf_NewKVStore abs_NewKVStore clean_command_def same_verdict_def spec_command_def spec_write_def
      purge_def parseAbsoluteMs_def ms_expiry_def expired_at_def written_type_def Let_def)

section \<open>Counters\<close>

text \<open>
  A counter steps through the 64-bit integers. A live key that holds the decimal text of a
  64-bit number \<open>n\<close> holds the text of \<open>n + 1\<close>, wrapped into the signed range, after \<^verbatim>\<open>Incr\<close>,
  which returns that number, and \<^verbatim>\<open>Decr\<close> then puts the old text back; the expiration stays.
\<close>

theorem Incr_Decr:
  assumes "keyTypes kv k = Some ''string''" "str_data kv k = Some (format_int n)" "is_int64 n"
    "\<not> IsExpired now k kv" "\<not> IsExpired now' k kv"
  shows "\<exists>kv1. Incr now k kv = (kv1, Inr (wrap64 (n + 1))) \<and> str_data kv1 k = Some (format_int (wrap64 (n + 1))) \<and>
           expiry kv1 k = expiry kv k \<and> Decr now' k kv1 = (kv, Inr n)"
proof -
  let ?kv1 = "put_string k (format_int (wrap64 (n + 1))) (expiry kv k) kv"
  have t: "only_type ''string'' k kv" "only_type ''string'' k ?kv1" using assms(1) by (simp_all add: only_type_def put_string_def)
  have live: "\<not> IsExpired now' k ?kv1" using assms(5) by (simp add: IsExpired_def put_string_def)
  have w: "wrap64 (wrap64 (n + 1) - 1) = n"
  proof -
    have "wrap64 (wrap64 (n + 1) - 1) = wrap64 n" by (simp add: wrap64_def mod_simps algebra_simps)
    then show ?thesis using assms(3) by simp
  qed
  have "Incr now k kv = (?kv1, Inr (wrap64 (n + 1)))"
    using assms t(1) by (simp add: Incr_def addValue_eq parse_int_format_int)
  moreover have "Decr now' k ?kv1 = (put_string k (format_int n) (expiry kv k) ?kv1, Inr n)"
    using live t(2) w by (simp add: Decr_def addValue_eq parse_int_format_int, simp add: put_string_def parse_int_format_int)
  moreover have "put_string k (format_int n) (expiry kv k) ?kv1 = kv"
    using assms(1,2) by (simp add: put_string_def fun_upd_idem)
  ultimately show ?thesis by (simp add: put_string_def)
qed

theorem Incr_Decr_witness:
  "\<exists>kv1. Incr 5 ''k'' (put_string ''k'' (format_int max_int64) None NewKVStore) = (kv1, Inr (wrap64 (max_int64 + 1))) \<and>
     str_data kv1 ''k'' = Some (format_int (wrap64 (max_int64 + 1))) \<and>
     expiry kv1 ''k'' = expiry (put_string ''k'' (format_int max_int64) None NewKVStore) ''k'' \<and>
     Decr 6 ''k'' kv1 = (put_string ''k'' (format_int max_int64) None NewKVStore, Inr max_int64)"
  by (rule Incr_Decr) (simp_all add: put_string_def NewKVStore_def is_int64_def max_int64_def min_int64_def IsExpired_def)

section \<open>Range queries\<close>

text \<open>
  \<^verbatim>\<open>LRange\<close> of a live, non-empty list never runs off its end and returns the elements
  between the two indices, both included, negative ones counted from the end.
\<close>

theorem LRange_returns_slice:
  assumes "keyTypes kv k = Some ''list''" "list_data kv k = Some l" "l \<noteq> []" "\<not> IsExpired now k kv"
  shows "LRange now k start stop kv =
           Some (kv, Inr (slice (clamp_index (int (length l)) start) (clamp_index (int (length l)) stop) l))"
proof -
  let ?n = "int (length l)" and ?a = "clamp_index (int (length l)) start" and ?b = "clamp_index (int (length l)) stop"
  have n: "0 < ?n" using assms(3) by simp
  have a: "0 \<le> ?a" "0 \<le> ?b" by (simp_all add: clamp_index_def)
  define t where "t = (if ?n \<le> ?b then ?n - 1 else ?b)"
  have sl: "slice ?a t l = slice ?a ?b l" "t < ?a \<or> ?n \<le> ?a \<Longrightarrow> slice ?a ?b l = []"
    using slice_clamp [where start = ?a and stop = ?b and xs = l, folded t_def] a by simp_all
  have loop: "lrange_loop ?a t 0 l [] = Some (slice ?a ?b l)"
    using lrange_loop_slice [of t 0 l ?a "[]"] sl(1) n by (simp add: t_def)
  have "LRange now k start stop kv =
      (if ?n \<le> ?a then Some (kv, Inr []) else if t < ?a then Some (kv, Inr [])
       else case lrange_loop ?a t 0 l [] of None \<Rightarrow> None | Some res \<Rightarrow> Some (kv, Inr res))"
    using assms n by (simp add: LRange_def CheckType_eq only_type_def Let_def t_def)
  then show ?thesis using sl(2) loop by simp
qed

theorem LRange_returns_slice_witness:
  "LRange 5 ''k'' 1 (- 1) (put_list ''k'' [''a'', ''b'', ''c''] None NewKVStore) =
     Some (put_list ''k'' [''a'', ''b'', ''c''] None NewKVStore, Inr [''b'', ''c''])"
proof -
  have "clamp_index 3 1 = 1" "clamp_index 3 (- 1) = 2" "slice 1 2 [''a'', ''b'', ''c''] = [''b'', ''c'']"
    by (simp_all add: clamp_index_def slice_def)
  then show ?thesis
    using LRange_returns_slice [of "put_list ''k'' [''a'', ''b'', ''c''] None NewKVStore" "''k''" "[''a'', ''b'', ''c'']" 5 1 "- 1"]
    by (simp add: put_list_def NewKVStore_def IsExpired_def)
qed

lemma zrange_slice:
  assumes repr: "sl_repr sl es"
    and q: "\<And>a b. query a b sl = Some (slice a b xs)" and len: "length xs = length es"
    and kv: "keyTypes kv k = Some ''zset''" "zset_data kv k = Some sl" "\<not> IsExpired now k kv"
  shows "zrange_with query now k start stop ws kv =
           Some (kv, Inr (map (show_entry ws) (slice (clamp_index (int (length es)) start) (clamp_index (int (length es)) stop) xs)))"
proof -
  let ?n = "int (length es)" and ?a = "clamp_index (int (length es)) start" and ?b = "clamp_index (int (length es)) stop"
  have a: "0 \<le> ?a" "0 \<le> ?b" by (simp_all add: clamp_index_def)
  have "slice ?a ?b xs = []" if "?b < ?a \<or> ?n \<le> ?a"
    using that a len by (auto simp: slice_def max_def)
  then show ?thesis
    using kv q by (simp add: zrange_with_def CheckType_eq only_type_def sl_repr_length [OF repr] Let_def)
qed

text \<open>
  On a live sorted set \<^verbatim>\<open>ZRange\<close> lists the entries by ascending score and member between
  two Redis indices, and \<^verbatim>\<open>ZRevRange\<close> lists the reversed order.
\<close>

theorem ZRange_ZRevRange_ordered:
  assumes "kv_wf kv" "abs_kv kv k = Some (VZSet es, e)" "\<not> IsExpired now k kv"
  shows "sorted_wrt ent_less es \<and>
     ZRange now k start stop ws kv = Some (kv, Inr (map (show_entry ws) (slice (clamp_index (int (length es)) start) (clamp_index (int (length es)) stop) es))) \<and>
     ZRevRange now k start stop ws kv = Some (kv, Inr (map (show_entry ws) (slice (clamp_index (int (length es)) start) (clamp_index (int (length es)) stop) (rev es))))"
  using kv_wf_key [OF assms(1), of k]
proof (cases rule: key_wf_cases)
  case (zset sl es')
  have r: "sl_repr sl es" using zset assms(2) by simp
  have "sorted_wrt ent_less es" using sl_repr_okD [OF r] by (simp add: entries_ok_def)
  moreover note zrange_slice [where query = rangeByRank and xs = es, OF r sl_repr_range [OF r] refl zset(1,5) assms(3)]
  moreover have "length (rev es) = length es" by simp
  note zrange_slice [where query = revRangeByRank, OF r sl_repr_rev_range [OF r] this zset(1,5) assms(3)]
  ultimately show ?thesis unfolding ZRange_def ZRevRange_def by blast
qed (use assms(2) in simp_all)

text \<open>A store with one sorted set of one member, for the examples.\<close>

definition demo_list :: skipList where
  "demo_list = the (insert_sl (\<lambda>_. False) 0 ''m'' newSkipList)"

definition demo_zset :: kvstore where
  "demo_zset = put_zset ''k'' demo_list None NewKVStore"

lemma demo_repr: "sl_repr demo_list [(0, ''m'')]"
proof -
  have "\<not> f64_isNaN 0" by (simp add: f64_isNaN_def f64_magnitude_def)
  then obtain sl where "insert_sl (\<lambda>_. False) 0 ''m'' newSkipList = Some sl" "sl_repr sl (spec_insert 0 ''m'' [])"
    using sl_repr_insert [OF sl_repr_new] by blast
  then show ?thesis by (simp add: demo_list_def spec_insert_def spec_delete_def)
qed

lemma demo_ok: "kv_wf demo_zset" "abs_kv demo_zset ''k'' = Some (VZSet [(0, ''m'')], None)" "\<not> IsExpired now ''k'' demo_zset"
  using put_zset_ok [OF kv_wf_NewKVStore _ demo_repr, of "''k''" None]
  by (simp_all add: demo_zset_def only_type_def NewKVStore_def put_zset_def IsExpired_def)

theorem ZRange_ZRevRange_ordered_witness:
  "ZRange 5 ''k'' 0 (- 1) False demo_zset = Some (demo_zset, Inr [''m''])"
  using ZRange_ZRevRange_ordered [OF demo_ok(1,2,3), of 5 0 "- 1" False]
  by (simp add: clamp_index_def slice_def show_entry_def)

text \<open>
  The three queries about one member agree. On a live sorted set a member that
  \<^verbatim>\<open>ZScore\<close> finds has the rank \<^verbatim>\<open>ZRank\<close> gives, which does not panic, and \<^verbatim>\<open>ZRange\<close> at that
  rank returns exactly that member; a member that is not there is \<^verbatim>\<open>ErrKeyNotFound\<close> for both.
\<close>

theorem ZRank_agrees:
  assumes "kv_wf kv" "abs_kv kv k = Some (VZSet es, e)" "\<not> IsExpired now k kv"
  shows "if m \<in> snd ` set es
         then \<exists>r sc. ZScore now k m kv = (kv, Inr sc) \<and> (sc, m) \<in> set es \<and> ZRank now k m kv = Some (kv, Inr (int r)) \<and>
                r < length es \<and> es ! r = (sc, m) \<and> ZRange now k (int r) (int r) False kv = Some (kv, Inr [m])
         else ZScore now k m kv = (kv, Inl ErrKeyNotFound) \<and> ZRank now k m kv = Some (kv, Inl ErrKeyNotFound)"
  using kv_wf_key [OF assms(1), of k]
proof (cases rule: key_wf_cases)
  case (zset sl es')
  have r: "sl_repr sl es" using zset assms(2) by simp
  have ok: "entries_ok es" using r by (rule sl_repr_okD)
  have base: "ZScore now k m kv = (case search_sl m sl of (score, ok) \<Rightarrow> if \<not> ok then (kv, Inl ErrKeyNotFound) else (kv, Inr score))"
    "ZRank now k m kv = (case rank_sl m sl of None \<Rightarrow> None | Some (PanicInconsistent _) \<Rightarrow> None
       | Some (Rank r ok) \<Rightarrow> if \<not> ok then Some (kv, Inl ErrKeyNotFound) else Some (kv, Inr (int r)))"
    using zset assms(3) by (simp_all add: ZScore_def ZRank_def CheckType_eq only_type_def)
  show ?thesis
  proof (cases "m \<in> snd ` set es")
    case True
    then obtain sc where sc: "(sc, m) \<in> set es" "spec_score m es = (sc, True)" using spec_score_present [OF _ ok] by blast
    note pos = rank_position [OF sc(1) ok]
    let ?r = "length (takeWhile (\<lambda>e. snd e \<noteq> m) es)"
    have "ZRange now k (int ?r) (int ?r) False kv = Some (kv, Inr [m])"
      using zrange_slice [where query = rangeByRank and xs = es, OF r sl_repr_range [OF r] refl zset(1,5) assms(3), of "int ?r" "int ?r" False]
        slice_single [OF pos(1)] pos(2) by (simp add: ZRange_def clamp_index_def show_entry_def)
    then show ?thesis
      using True pos sc sl_repr_look [OF r] sl_repr_rank [OF r, of m] by (auto simp: base)
  next
    case False
    then show ?thesis
      using spec_score_absent [OF False] sl_repr_look [OF r] sl_repr_rank [OF r, of m] by (simp add: base)
  qed
qed (use assms(2) in simp_all)

theorem ZRank_agrees_witness:
  "\<exists>r sc. ZScore 5 ''k'' ''m'' demo_zset = (demo_zset, Inr sc) \<and> ZRank 5 ''k'' ''m'' demo_zset = Some (demo_zset, Inr (int r))"
  using ZRank_agrees [OF demo_ok(1,2,3), of "''m''" 5] by auto

section \<open>Expiration\<close>

lemma cleanup_collect_eq:
  "distinct order \<Longrightarrow> cleanup_collect now order kv acc =
     (kv\<lparr>expiry := (\<lambda>k. if k \<in> set order \<and> IsExpired now k kv then None else expiry kv k)\<rparr>, acc @ filter (\<lambda>k. IsExpired now k kv) order)"
proof (induction order arbitrary: kv acc)
  case (Cons a order)
  have f: "filter (\<lambda>k. IsExpired now k (kv\<lparr>expiry := (expiry kv)(a := None)\<rparr>)) order = filter (\<lambda>k. IsExpired now k kv) order"
    using Cons.prems by (intro filter_cong) (auto simp: IsExpired_def)
  show ?case
  proof (cases "IsExpired now a kv")
    case True
    have e: "(\<lambda>k. if k \<in> set order \<and> IsExpired now k (kv\<lparr>expiry := (expiry kv)(a := None)\<rparr>) then None else expiry (kv\<lparr>expiry := (expiry kv)(a := None)\<rparr>) k) =
        (\<lambda>k. if k \<in> set (a # order) \<and> IsExpired now k kv then None else expiry kv k)"
      using True Cons.prems by (auto simp: fun_eq_iff IsExpired_def)
    from True Cons.IH [of "kv\<lparr>expiry := (expiry kv)(a := None)\<rparr>" "acc @ [a]"] Cons.prems show ?thesis
      using e by (simp add: f)
  next
    case False
    have "(\<lambda>k. if k \<in> set order \<and> IsExpired now k kv then None else expiry kv k) =
        (\<lambda>k. if k \<in> set (a # order) \<and> IsExpired now k kv then None else expiry kv k)"
      using False by auto
    with False Cons.IH [of kv acc] Cons.prems show ?thesis by simp
  qed
qed simp

lemma kv_deleteKey_ok:
  assumes wf: "kv_wf kv"
  shows "kv_wf (kv_deleteKey k kv) \<and> abs_kv (kv_deleteKey k kv) = (abs_kv kv)(k := None)"
  using kv_wf_key [OF wf, of k]
proof (cases rule: key_wf_cases)
  case absent
  then show ?thesis using wf by (simp add: kv_deleteKey_def fun_upd_idem)
next
  case (string s)
  then show ?thesis using drop_ok(1) [OF wf, of k] by (simp add: kv_deleteKey_def str_Delete_eq only_type_def)
next
  case (hash f)
  then show ?thesis using drop_ok(2) [OF wf, of k] by (simp add: kv_deleteKey_def only_type_def)
next
  case (list l)
  then show ?thesis using drop_ok(3) [OF wf, of k] by (simp add: kv_deleteKey_def only_type_def)
next
  case (zset sl es)
  then show ?thesis using drop_ok(4) [OF wf, of k] by (simp add: kv_deleteKey_def only_type_def)
qed

lemma cleanup_callbacks_ok:
  "kv_wf kv \<Longrightarrow> kv_wf (cleanup_callbacks ks kv) \<and> abs_kv (cleanup_callbacks ks kv) = (\<lambda>k. if k \<in> set ks then None else abs_kv kv k)"
proof (induction ks arbitrary: kv)
  case (Cons a ks)
  then show ?case using kv_deleteKey_ok [OF Cons.prems, of a] by (auto simp: fun_eq_iff)
qed simp

lemma drop_expiry_ok:
  assumes "kv_wf kv" "\<And>k. e k = None \<or> e k = expiry kv k"
  shows "kv_wf (kv\<lparr>expiry := e\<rparr>)" "abs_kv (kv\<lparr>expiry := e\<rparr>) k = map_option (\<lambda>c. (fst c, e k)) (abs_kv kv k)"
proof -
  have "key_wf (kv\<lparr>expiry := e\<rparr>) k" for k
    using kv_wf_key [OF assms(1), of k] assms(2) [of k] by (auto simp: key_wf_def row_wf_def)
  then show "kv_wf (kv\<lparr>expiry := e\<rparr>)" by (simp add: kv_wf_def)
  show "abs_kv (kv\<lparr>expiry := e\<rparr>) k = map_option (\<lambda>c. (fst c, e k)) (abs_kv kv k)"
    by (simp add: abs_kv_def map_option.compositionality comp_def)
qed

text \<open>
  A pass of the background cleanup removes exactly the keys whose time has passed, with
  their data, in whatever order the map iteration visits the keys.
\<close>

theorem cleanup_removes_expired:
  assumes "kv_wf kv" "distinct order" "set order = dom (expiry kv)"
  shows "kv_wf (cleanup now order kv) \<and>
     abs_kv (cleanup now order kv) = (\<lambda>k. if IsExpired now k kv then None else abs_kv kv k)"
proof -
  define e where "e = (\<lambda>k. if k \<in> set order \<and> IsExpired now k kv then None else expiry kv k)"
  have "e k = None \<or> e k = expiry kv k" for k by (simp add: e_def)
  note ok = drop_expiry_ok [OF assms(1) this]
  have exp: "IsExpired now k kv \<Longrightarrow> k \<in> set order" for k using assms(3) by (auto simp: IsExpired_def split: option.splits)
  have "cleanup now order kv = cleanup_callbacks (filter (\<lambda>k. IsExpired now k kv) order) (kv\<lparr>expiry := e\<rparr>)"
    by (simp add: cleanup_def cleanup_collect_eq [OF assms(2)] e_def)
  moreover have "map_option (\<lambda>c. (fst c, e k)) (abs_kv kv k) = abs_kv kv k" if "\<not> IsExpired now k kv" for k
    using that by (cases "abs_kv kv k") (auto simp: e_def abs_kv_def)
  ultimately show ?thesis
    using cleanup_callbacks_ok [OF ok(1)] ok(2) exp by (auto simp: fun_eq_iff)
qed

theorem cleanup_removes_expired_witness:
  "kv_wf (cleanup 9 [''k''] (put_string ''k'' ''v'' (Some 5) NewKVStore)) \<and>
   abs_kv (cleanup 9 [''k''] (put_string ''k'' ''v'' (Some 5) NewKVStore)) =
     (\<lambda>k. if IsExpired 9 k (put_string ''k'' ''v'' (Some 5) NewKVStore) then None else abs_kv (put_string ''k'' ''v'' (Some 5) NewKVStore) k)"
proof (rule cleanup_removes_expired)
  show "kv_wf (put_string ''k'' ''v'' (Some 5) NewKVStore)"
    by (rule put_string_ok [OF kv_wf_NewKVStore]) (simp add: only_type_def NewKVStore_def)
qed (auto simp: put_string_def NewKVStore_def)

section \<open>Snapshots\<close>

text \<open>
  What the codec keeps: everything but the order of a hash's fields, which travel in a
  protobuf map.
\<close>

definition snap_equiv :: "SnapshotMsg \<Rightarrow> SnapshotMsg \<Rightarrow> bool" where
  "snap_equiv s s' \<longleftrightarrow>
     KeyTypes s' = KeyTypes s \<and> Strings s' = Strings s \<and> Lists s' = Lists s \<and> SortedSets s' = SortedSets s \<and> Ttls s' = Ttls s \<and>
     (\<forall>k. case Hashes s k of
            None \<Rightarrow> Hashes s' k = None
          | Some h \<Rightarrow> (case Hashes s' k of None \<Rightarrow> False | Some h' \<Rightarrow> map_of h' = map_of h \<and> distinct (map fst h')))"

text \<open>Expirations that came through \<^verbatim>\<open>SetAbsolute\<close> are whole milliseconds.\<close>

definition ms_aligned :: "kvstore \<Rightarrow> bool" where
  "ms_aligned kv \<longleftrightarrow> (\<forall>k. case expiry kv k of None \<Rightarrow> True | Some e \<Rightarrow> is_int64 (e div 1000000) \<and> e mod 1000000 = 0)"

lemma to_unix_milli_aligned: "is_int64 (e div 1000000) \<Longrightarrow> e mod 1000000 = 0 \<Longrightarrow> unix_milli (to_unix_milli e) = e"
  using div_mult_mod_eq [of e 1000000] by (simp add: unix_milli_def to_unix_milli_def)

lemma restore_zset_repr:
  assumes "entries_ok es"
  shows "\<exists>sl. restore_zset coins es = Some sl \<and> sl_repr sl es"
  unfolding restore_zset_def using sl.insert_sorted_list [of "[]" es newSkipList coins 0] assms sl_repr_new
  by (simp only: append_Nil)

lemma snapshot_row:
  assumes "kv_wf kv"
  shows "case zset_data kv k of None \<Rightarrow> SortedSets (snapshot_msg kv) k = None
     | Some sl \<Rightarrow> \<exists>es. es \<noteq> [] \<and> sl_repr sl es \<and> SortedSets (snapshot_msg kv) k = Some es"
  using kv_wf_key [OF assms, of k]
proof (cases rule: key_wf_cases)
  case (zset sl es)
  have "rangeByRank 0 (int (sl_length sl) - 1) sl = Some (slice 0 (int (length es) - 1) es)"
    using sl_repr_range [OF zset(7)] sl_repr_length [OF zset(7)] by simp
  then show ?thesis using zset by (auto simp: snapshot_msg_def slice_def)
qed (simp_all add: snapshot_msg_def)

lemma restore_row:
  assumes wf: "kv_wf kv" and al: "ms_aligned kv" and eq: "snap_equiv (snapshot_msg kv) s"
  shows "key_wf (restore_msg coins s) k \<and> abs_kv (restore_msg coins s) k = abs_kv kv k"
proof -
  let ?r = "restore_msg coins s"
  have f: "keyTypes ?r k = keyTypes kv k" "str_data ?r k = str_data kv k" "list_data ?r k = list_data kv k"
    "hash_data ?r k = Hashes s k" "zset_data ?r k = (case SortedSets (snapshot_msg kv) k of None \<Rightarrow> None | Some es \<Rightarrow> restore_zset (coins k) es)"
    using eq by (simp_all add: restore_msg_def snap_equiv_def) (simp_all add: snapshot_msg_def)
  have e: "expiry ?r k = expiry kv k"
    using eq al to_unix_milli_aligned
    by (cases "expiry kv k") (auto simp: restore_msg_def snap_equiv_def snapshot_msg_def ms_aligned_def split: option.splits)
  have h: "case hash_data kv k of None \<Rightarrow> Hashes s k = None
     | Some h \<Rightarrow> (case Hashes s k of None \<Rightarrow> False | Some h' \<Rightarrow> map_of h' = map_of h \<and> distinct (map fst h'))"
    using eq by (simp add: snap_equiv_def snapshot_msg_def)
  from kv_wf_key [OF wf, of k] show ?thesis
  proof (cases rule: key_wf_cases)
    case (hash fs)
    then obtain h' where h': "Hashes s k = Some h'" "map_of h' = map_of fs" "distinct (map fst h')"
      using h by (auto split: option.splits)
    have "h' \<noteq> []"
    proof
      assume "h' = []"
      then have "map_of fs = Map.empty" using h'(2) by simp
      then show False using hash(4) by simp
    qed
    then show ?thesis using hash h' f e snapshot_row [OF wf, of k] by (simp add: key_wf_def row_wf_def abs_kv_def abs_val_def)
  next
    case (zset sl es)
    then obtain es' where es': "sl_repr sl es'" "SortedSets (snapshot_msg kv) k = Some es'"
      using snapshot_row [OF wf, of k] by auto
    have [simp]: "es' = es" using sl_entries_repr [OF es'(1)] sl_entries_repr [OF zset(7)] by simp
    obtain sl' where sl': "restore_zset (coins k) es = Some sl'" "sl_repr sl' es"
      using restore_zset_repr [OF sl_repr_okD [OF zset(7)]] by blast
    then show ?thesis using zset es'(2) f e h
      by (auto simp: key_wf_def row_wf_def abs_kv_def abs_val_def sl_entries_repr)
  qed (use f e h snapshot_row [OF wf, of k] in \<open>simp_all add: key_wf_def row_wf_def abs_kv_def abs_val_def\<close>)
qed

text \<open>
  A snapshot whose encoding is empty is that of an empty database, when no bytes decode to the
  message with empty maps.
\<close>

lemma empty_snapshot:
  assumes "kv_wf kv" "ms_aligned kv" and codec: "\<And>s b. marshal s = Some b \<Longrightarrow> \<exists>s'. unmarshal b = Some s' \<and> snap_equiv s s'"
    and "unmarshal [] = Some (snapshot_msg NewKVStore)" "marshal (snapshot_msg kv) = Some []"
  shows "abs_kv kv = Map.empty"
proof
  fix k
  have n: "snap_equiv (snapshot_msg NewKVStore) (snapshot_msg NewKVStore)" "ms_aligned NewKVStore"
    by (simp_all add: snap_equiv_def snapshot_msg_def ms_aligned_def NewKVStore_def)
  have "snap_equiv (snapshot_msg kv) (snapshot_msg NewKVStore)" using codec [OF assms(5)] assms(4) by simp
  then have "abs_kv (restore_msg (\<lambda>_ _ _. True) (snapshot_msg NewKVStore)) k = abs_kv kv k" using restore_row [OF assms(1,2)] by blast
  then show "abs_kv kv k = None" using restore_row [OF kv_wf_NewKVStore n(2,1)] abs_NewKVStore by metis
qed

text \<open>
  C26: \<^verbatim>\<open>Restore\<close> inverts \<^verbatim>\<open>Snapshot\<close>. For well-formed tables with expirations in whole
  milliseconds, and a codec that keeps a message, the snapshot is complete, and restoring one with
  a non-empty encoding into any store rebuilds every set and gives tables that represent the same
  database, whatever the random draws are. An empty encoding is that of an empty database, and
  restoring it leaves the store as it was.
\<close>

theorem Snapshot_Restore:
  assumes "kv_wf kv" "ms_aligned kv"
    and codec: "\<And>s b. marshal s = Some b \<Longrightarrow> \<exists>s'. unmarshal b = Some s' \<and> snap_equiv s s'"
    and empty: "unmarshal [] = Some (snapshot_msg NewKVStore)"
    and snap: "Snapshot marshal kv = Inr data"
  shows "snapshot_ok kv \<and>
     (data \<noteq> [] \<longrightarrow> (\<exists>s kv'. unmarshal data = Some s \<and> restore_ok coins s \<and> Restore unmarshal coins data old = (kv', None) \<and>
        kv_wf kv' \<and> abs_kv kv' = abs_kv kv)) \<and>
     (data = [] \<longrightarrow> abs_kv kv = Map.empty \<and> Restore unmarshal coins data old = (old, None))"
proof -
  have ok: "snapshot_ok kv"
    unfolding snapshot_ok_def
  proof
    fix k
    assume "k \<in> dom (zset_data kv)"
    then obtain sl where sl: "zset_data kv k = Some sl" by blast
    then obtain es where "sl_repr sl es" using snapshot_row [OF assms(1), of k] by auto
    then show "\<exists>es. rangeByRank 0 (int (sl_length (the (zset_data kv k))) - 1) (the (zset_data kv k)) = Some es"
      using sl sl_repr_range by auto
  qed
  obtain s where s: "unmarshal data = Some s" "snap_equiv (snapshot_msg kv) s"
    using snap codec [of "snapshot_msg kv" data] by (auto simp: Snapshot_def split: option.splits)
  have e: "abs_kv kv = Map.empty" if "data = []"
    using empty_snapshot [where marshal = marshal and unmarshal = unmarshal, OF assms(1,2) codec empty] snap that by (simp add: Snapshot_def split: option.splits)
  have "restore_ok coins s"
    unfolding restore_ok_def
  proof (intro allI impI)
    fix k es
    assume "SortedSets s k = Some es"
    then have es: "SortedSets (snapshot_msg kv) k = Some es" using s(2) by (simp add: snap_equiv_def)
    then obtain sl where sl: "zset_data kv k = Some sl" by (auto simp: snapshot_msg_def split: option.splits)
    then have "sl_repr sl es" using snapshot_row [OF assms(1), of k] es by auto
    then show "restore_zset (coins k) es \<noteq> None" using restore_zset_repr sl_repr_okD by fastforce
  qed
  moreover have "kv_wf (restore_msg coins s)" "abs_kv (restore_msg coins s) = abs_kv kv"
    using restore_row [OF assms(1,2) s(2)] by (auto simp: kv_wf_def)
  ultimately show ?thesis using ok s(1) e by (simp add: Restore_def)
qed

theorem Snapshot_Restore_witness:
  "snapshot_ok demo_zset \<and>
     (\<exists>kv'. Restore (\<lambda>b. Some (snapshot_msg (if b = [] then NewKVStore else demo_zset))) (\<lambda>_ _ _. True) [1] NewKVStore = (kv', None) \<and>
        kv_wf kv' \<and> abs_kv kv' = abs_kv demo_zset)"
proof -
  let ?m = "\<lambda>s. if s = snapshot_msg demo_zset then Some [1 :: byte] else None" and ?u = "\<lambda>b. Some (snapshot_msg (if b = [] then NewKVStore else demo_zset))"
  have s: "Snapshot ?m demo_zset = Inr [1]" by (simp add: Snapshot_def)
  have e: "snap_equiv (snapshot_msg demo_zset) (snapshot_msg demo_zset)"
    by (simp add: snap_equiv_def snapshot_msg_def demo_zset_def put_zset_def NewKVStore_def)
  have c: "\<exists>s'. ?u b = Some s' \<and> snap_equiv s s'" if "?m s = Some b" for s b
    using that e by (cases "s = snapshot_msg demo_zset") auto
  have "ms_aligned demo_zset" by (simp add: ms_aligned_def demo_zset_def put_zset_def NewKVStore_def)
  from Snapshot_Restore [where marshal = ?m and unmarshal = ?u and coins = "\<lambda>_ _ _. True" and old = NewKVStore, OF demo_ok(1) this c _ s] show ?thesis by simp
qed

section \<open>Where the code falls short of the database\<close>

text \<open>
  An empty snapshot does not empty the store. Protobuf encodes a message whose maps are
  all empty as no bytes, and \<^verbatim>\<open>Restore\<close> of no bytes keeps the state it was to replace.
\<close>

theorem Restore_empty_keeps_state:
  assumes "marshal (snapshot_msg NewKVStore) = Some []"
  shows "\<exists>data. Snapshot marshal NewKVStore = Inr data \<and> Restore unmarshal coins data kv = (kv, None)"
  using assms by (simp add: Snapshot_def Restore_def)

theorem Restore_empty_keeps_state_witness:
  "\<exists>data. Snapshot (\<lambda>_. Some []) NewKVStore = Inr data \<and>
     Restore (\<lambda>_. None) (\<lambda>_ _ _. True) data demo_zset = (demo_zset, None) \<and> demo_zset \<noteq> NewKVStore"
proof -
  have "demo_zset \<noteq> NewKVStore"
    using demo_ok(2) by (auto simp: abs_NewKVStore)
  then show ?thesis
    using Restore_empty_keeps_state [of "\<lambda>_. Some []" "\<lambda>_. None" "\<lambda>_ _ _. True" demo_zset] by auto
qed

text \<open>
  \<^verbatim>\<open>DEL\<close> does not delete a hash. After \<^verbatim>\<open>HSET\<close> and then \<^verbatim>\<open>DEL\<close> of a fresh key both commands
  report success, and \<^verbatim>\<open>HGet\<close> still returns the field.
\<close>

theorem DEL_keeps_hash:
  "\<exists>kv1 kv2. apply_HSET now [k, f, v] NewKVStore = (kv1, None) \<and> apply_DEL [k] kv1 = (kv2, None) \<and>
     keyTypes kv2 k = None \<and> HGet now' k f kv2 = (kv2, Inr v)"
proof -
  let ?kv1 = "put_hash k [(f, v)] None NewKVStore"
  have "apply_HSET now [k, f, v] NewKVStore = (?kv1, None)"
    by (simp add: apply_HSET_eq cur_hash_def only_type_def NewKVStore_def IsExpired_def parseAbsoluteMs_def ms_expiry_def)
  moreover have "apply_DEL [k] ?kv1 = (drop_string k ?kv1, None)"
    by (simp add: apply_DEL_def str_Delete_eq ignoreNotFound_def)
  moreover have "HGet now' k f (drop_string k ?kv1) = (drop_string k ?kv1, Inr v)"
    by (simp add: HGet_def CheckType_eq only_type_def IsExpired_def drop_string_def put_hash_def)
  ultimately show ?thesis by (auto simp: drop_string_def)
qed

text \<open>
  C40: the outcome of a command can depend on the local clock. Two replicas with the same
  store, in which a counter expires at \<open>t\<close>, apply the same \<^verbatim>\<open>INCR\<close>, one up to \<open>t\<close> and one
  after it: the first keeps the expiration, the second starts a new counter that never
  expires, and the databases differ.
\<close>

theorem INCR_replicas_diverge:
  assumes "now1 \<le> t" "t < now2"
  shows "\<exists>kv1 kv2. apply_INCR now1 [k] (put_string k ''41'' (Some t) NewKVStore) = (kv1, None) \<and>
     apply_INCR now2 [k] (put_string k ''41'' (Some t) NewKVStore) = (kv2, None) \<and>
     expiry kv1 k = Some t \<and> expiry kv2 k = None \<and> str_data kv1 k \<noteq> str_data kv2 k \<and> abs_kv kv1 \<noteq> abs_kv kv2"
proof -
  let ?kv = "put_string k ''41'' (Some t) NewKVStore"
  have p: "parse_int ''41'' = (41, None)"
    by (simp add: parse_signed_def parse_uint_def is_digit_def digit_val_def max_uint64_def)
  have w: "wrap64 42 = 42" "wrap64 1 = 1" by (simp_all add: is_int64_def max_int64_def min_int64_def)
  have ne: "format_int 42 \<noteq> format_int 1"
    using format_int_inj [of 42 1] by (auto simp: is_int64_def max_int64_def min_int64_def)
  have 1: "apply_INCR now1 [k] ?kv = (put_string k (format_int 42) (Some t) ?kv, None)"
    using assms(1) p w by (simp add: apply_INCR_def Incr_def addValue_eq IsExpired_def put_string_def only_type_def err_of_def)
  have 2: "apply_INCR now2 [k] ?kv = (put_string k (format_int 1) None ?kv, None)"
    using assms(2) w by (simp add: apply_INCR_def Incr_def addValue_eq IsExpired_def put_string_def only_type_def err_of_def)
  have "abs_kv (put_string k (format_int 42) (Some t) ?kv) k \<noteq> abs_kv (put_string k (format_int 1) None ?kv) k"
    by (simp add: abs_kv_def abs_val_def put_string_def)
  then have "abs_kv (put_string k (format_int 42) (Some t) ?kv) \<noteq> abs_kv (put_string k (format_int 1) None ?kv)"
    by (metis (no_types))
  then show ?thesis using 1 2 ne by (auto simp: put_string_def)
qed

theorem INCR_replicas_diverge_witness:
  "\<exists>kv1 kv2. apply_INCR 5 [''c''] (put_string ''c'' ''41'' (Some 7) NewKVStore) = (kv1, None) \<and>
     apply_INCR 9 [''c''] (put_string ''c'' ''41'' (Some 7) NewKVStore) = (kv2, None) \<and> abs_kv kv1 \<noteq> abs_kv kv2"
  using INCR_replicas_diverge [of 5 7 9 "''c''"] by auto

text \<open>
  The cleanup can delete a new value. It forgets the expiration of a key under its lock
  and calls back afterwards; a \<^verbatim>\<open>SET\<close> applied in between, with no expiration or any other, is
  acknowledged and then lost.
\<close>

theorem cleanup_loses_write:
  assumes "IsExpired now k kv" "keyTypes kv k = Some ''string''"
  shows "\<exists>kv1 kv2. cleanup_collect now [k] kv [] = (kv1, [k]) \<and> apply_SET now [k, v] kv1 = (kv2, None) \<and>
     str_Get now' k kv2 = (kv2, Inr v) \<and> abs_kv (cleanup_callbacks [k] kv2) k = None"
proof -
  let ?kv1 = "kv\<lparr>expiry := (expiry kv)(k := None)\<rparr>"
  let ?kv2 = "put_string k v None ?kv1"
  have "cleanup_collect now [k] kv [] = (?kv1, [k])" using assms by simp
  moreover have "apply_SET now [k, v] ?kv1 = (?kv2, None)"
    using assms(2) by (simp add: apply_SET_eq only_type_def parseAbsoluteMs_def ms_expiry_def)
  moreover have "str_Get now' k ?kv2 = (?kv2, Inr v)"
    by (simp add: str_Get_def CheckType_eq only_type_def IsExpired_def put_string_def)
  moreover have "abs_kv (cleanup_callbacks [k] ?kv2) k = None"
    by (simp add: kv_deleteKey_def str_Delete_eq put_string_def drop_string_def abs_kv_def abs_val_def)
  ultimately show ?thesis by blast
qed

theorem cleanup_loses_write_witness:
  "\<exists>kv1 kv2. cleanup_collect 9 [''k''] (put_string ''k'' ''old'' (Some 5) NewKVStore) [] = (kv1, [''k'']) \<and>
     apply_SET 9 [''k'', ''new''] kv1 = (kv2, None) \<and> str_Get 9 ''k'' kv2 = (kv2, Inr ''new'') \<and>
     abs_kv (cleanup_callbacks [''k''] kv2) ''k'' = None"
  by (rule cleanup_loses_write) (simp_all add: put_string_def NewKVStore_def IsExpired_def)

text \<open>The first insertion into an empty skip list compares nothing, so it takes any score.\<close>

definition single_list :: "float64 \<Rightarrow> string \<Rightarrow> skipList" where
  "single_list sc m =
     \<lparr>sl_heap = [0 \<mapsto> \<lparr>nscore = 0, nmember = [], forward = (replicate maxLevel None)[0 := Some 1], backward = None\<rparr>,
                 1 \<mapsto> \<lparr>nscore = sc, nmember = m, forward = [None], backward = None\<rparr>],
      sl_header = 0, sl_tail = Some 1, sl_level = 1, sl_length = 1, sl_dict = [m \<mapsto> sc], sl_next = 2\<rparr>"

lemma insert_first: "insert_sl (\<lambda>_. False) sc m newSkipList = Some (single_list sc m)"
proof -
  have l: "randomLevel (\<lambda>_. False) = 1" by (simp add: randomLevel_def random_level_loop.simps)
  have w: "walk (sl_heap newSkipList) 0 sc m 0 = Some 0"
    by (subst walk.simps) (simp add: newSkipList_def get_forward_def maxLevel_def)
  have d: "descend (sl_heap newSkipList) sc m 1 0 (replicate maxLevel None) = Some (0, (replicate maxLevel None)[0 := Some 0])"
    using w by (simp add: maxLevel_def)
  show ?thesis
    using d by (simp add: insert_sl_def insert_new_def l newSkipList_def single_list_def Let_def get_forward_def set_forward_def
        set_backward_def splice_back_def maxLevel_def fun_upd_twist)
qed

text \<open>
  A NaN score breaks a sorted set. \<^verbatim>\<open>ZADD\<close> of the text \<open>NaN\<close> into a fresh key succeeds,
  \<^verbatim>\<open>ZScore\<close> finds the member, and \<^verbatim>\<open>ZRank\<close> of it panics.
\<close>

theorem ZADD_NaN_rank_panics:
  "\<exists>kv1. apply_ZADD (\<lambda>_. False) now [k, ''NaN'', m] NewKVStore = Some (kv1, None) \<and>
     ZScore now' k m kv1 = (kv1, Inr f64_NaN) \<and> ZRank now' k m kv1 = None"
proof -
  have low: "map to_lower ''NaN'' = ''nan''" by code_simp
  have pf: "ParseFloat ''NaN'' = (f64_NaN, None)" by (simp add: ParseFloat_def strip_sign_def low [simplified])
  have nan: "\<not> f64_eq a f64_NaN" for a by (simp add: f64_eq_def f64_NaN_def f64_isNaN_def f64_magnitude_def)
  let ?kv = "put_zset k (single_list f64_NaN m) None NewKVStore"
  have "apply_ZADD (\<lambda>_. False) now [k, ''NaN'', m] NewKVStore = Some (?kv, None)"
    using pf insert_first [of f64_NaN m]
    by (simp add: apply_ZADD_eq cur_zset_def only_type_def NewKVStore_def IsExpired_def parseAbsoluteMs_def ms_expiry_def)
  moreover have "ZScore now' k m ?kv = (?kv, Inr f64_NaN)"
    by (simp add: ZScore_def CheckType_eq only_type_def IsExpired_def put_zset_def search_sl_def single_list_def)
  moreover have "rank_sl m (single_list f64_NaN m) = Some (PanicInconsistent m)"
  proof -
    have "rank_loop (sl_heap (single_list f64_NaN m)) f64_NaN m 0 (Some 1) = Some (PanicInconsistent m)"
      by (subst rank_loop.simps) (simp add: single_list_def nan get_forward_def rank_loop.simps [of _ _ _ _ None])
    then show ?thesis by (simp add: rank_sl_def single_list_def get_forward_def maxLevel_def)
  qed
  then have "ZRank now' k m ?kv = None"
    by (simp add: ZRank_def CheckType_eq only_type_def IsExpired_def put_zset_def)
  ultimately show ?thesis by blast
qed

end
