(* ===== verification/KVReader.thy ===== *)
theory KVReader
  imports KVProps
begin

text \<open>
  The interface through which requests read the store (\<^verbatim>\<open>reader.go\<close>), its implementation by the
  store, and that every read is a read of the database.
\<close>

section \<open>The interface\<close>

record KVReader =
  kr_Get :: "gotime \<Rightarrow> string \<Rightarrow> kvstore \<Rightarrow> kvstore \<times> (kv_error + string)"
  kr_HGet :: "gotime \<Rightarrow> string \<Rightarrow> string \<Rightarrow> kvstore \<Rightarrow> kvstore \<times> (kv_error + string)"
  kr_HGetAll :: "gotime \<Rightarrow> string \<Rightarrow> kvstore \<Rightarrow> kvstore \<times> (kv_error + (string \<rightharpoonup> string))"
  kr_HExists :: "gotime \<Rightarrow> string \<Rightarrow> string \<Rightarrow> kvstore \<Rightarrow> kvstore \<times> (kv_error + bool)"
  kr_LRange :: "gotime \<Rightarrow> string \<Rightarrow> int \<Rightarrow> int \<Rightarrow> kvstore \<Rightarrow> (kvstore \<times> (kv_error + string list)) option"
  kr_LLen :: "gotime \<Rightarrow> string \<Rightarrow> kvstore \<Rightarrow> kvstore \<times> (kv_error + int64)"
  kr_ZScore :: "gotime \<Rightarrow> string \<Rightarrow> string \<Rightarrow> kvstore \<Rightarrow> kvstore \<times> (kv_error + float64)"
  kr_ZRank :: "gotime \<Rightarrow> string \<Rightarrow> string \<Rightarrow> kvstore \<Rightarrow> (kvstore \<times> (kv_error + int)) option"
  kr_ZRange :: "gotime \<Rightarrow> string \<Rightarrow> int \<Rightarrow> int \<Rightarrow> bool \<Rightarrow> kvstore \<Rightarrow> (kvstore \<times> (kv_error + string list)) option"
  kr_ZRevRange :: "gotime \<Rightarrow> string \<Rightarrow> int \<Rightarrow> int \<Rightarrow> bool \<Rightarrow> kvstore \<Rightarrow> (kvstore \<times> (kv_error + string list)) option"

definition kvstore_reader :: KVReader where
  "kvstore_reader =
     \<lparr>kr_Get = str_Get, kr_HGet = HGet, kr_HGetAll = HGetAll, kr_HExists = HExists, kr_LRange = LRange, kr_LLen = LLen,
      kr_ZScore = ZScore, kr_ZRank = ZRank, kr_ZRange = ZRange, kr_ZRevRange = ZRevRange\<rparr>"

text \<open>A call of the interface, and what it returns; \<open>None\<close> is a panic.\<close>

datatype read_call =
    CallGet string | CallHGet string string | CallHGetAll string | CallHExists string string
  | CallLRange string int int | CallLLen string
  | CallZScore string string | CallZRank string string | CallZRange string int int bool | CallZRevRange string int int bool

datatype read_value = AString string | AMap "string \<rightharpoonup> string" | ABool bool | AStrings "string list" | AInt int | AFloat float64

definition answer :: "('a \<Rightarrow> read_value) \<Rightarrow> kvstore \<times> (kv_error + 'a) \<Rightarrow> (kvstore \<times> (kv_error + read_value)) option" where
  "answer f x = Some (fst x, map_sum id f (snd x))"

fun call_reader :: "KVReader \<Rightarrow> gotime \<Rightarrow> read_call \<Rightarrow> kvstore \<Rightarrow> (kvstore \<times> (kv_error + read_value)) option" where
  "call_reader rd now (CallGet k) kv = answer AString (kr_Get rd now k kv)"
| "call_reader rd now (CallHGet k f) kv = answer AString (kr_HGet rd now k f kv)"
| "call_reader rd now (CallHGetAll k) kv = answer AMap (kr_HGetAll rd now k kv)"
| "call_reader rd now (CallHExists k f) kv = answer ABool (kr_HExists rd now k f kv)"
| "call_reader rd now (CallLRange k i j) kv = Option.bind (kr_LRange rd now k i j kv) (answer AStrings)"
| "call_reader rd now (CallLLen k) kv = answer AInt (kr_LLen rd now k kv)"
| "call_reader rd now (CallZScore k m) kv = answer AFloat (kr_ZScore rd now k m kv)"
| "call_reader rd now (CallZRank k m) kv = Option.bind (kr_ZRank rd now k m kv) (answer AInt)"
| "call_reader rd now (CallZRange k i j ws) kv = Option.bind (kr_ZRange rd now k i j ws kv) (answer AStrings)"
| "call_reader rd now (CallZRevRange k i j ws) kv = Option.bind (kr_ZRevRange rd now k i j ws kv) (answer AStrings)"

section \<open>Reading a database\<close>

fun call_key :: "read_call \<Rightarrow> string" where
  "call_key (CallGet k) = k"
| "call_key (CallHGet k f) = k"
| "call_key (CallHGetAll k) = k"
| "call_key (CallHExists k f) = k"
| "call_key (CallLRange k i j) = k"
| "call_key (CallLLen k) = k"
| "call_key (CallZScore k m) = k"
| "call_key (CallZRank k m) = k"
| "call_key (CallZRange k i j ws) = k"
| "call_key (CallZRevRange k i j ws) = k"

definition clamped :: "int \<Rightarrow> int \<Rightarrow> 'a list \<Rightarrow> 'a list" where
  "clamped i j xs = slice (clamp_index (int (length xs)) i) (clamp_index (int (length xs)) j) xs"

definition found :: "('a \<Rightarrow> read_value) \<Rightarrow> 'a option \<Rightarrow> kv_error + read_value" where
  "found f x = (case x of None \<Rightarrow> Inl ErrKeyNotFound | Some v \<Rightarrow> Inr (f v))"

fun db_value :: "read_call \<Rightarrow> val \<Rightarrow> kv_error + read_value" where
  "db_value (CallGet k) (VString s) = Inr (AString s)"
| "db_value (CallHGet k f) (VHash h) = found AString (h f)"
| "db_value (CallHGetAll k) (VHash h) = Inr (AMap h)"
| "db_value (CallHExists k f) (VHash h) = Inr (ABool (h f \<noteq> None))"
| "db_value (CallLRange k i j) (VList l) = (if l = [] then Inl ErrEmptyList else Inr (AStrings (clamped i j l)))"
| "db_value (CallLLen k) (VList l) = Inr (AInt (int (length l)))"
| "db_value (CallZScore k m) (VZSet es) = found AFloat (map_of (map swap_entry es) m)"
| "db_value (CallZRank k m) (VZSet es) =
     (if m \<in> snd ` set es then Inr (AInt (int (length (takeWhile (\<lambda>e. snd e \<noteq> m) es)))) else Inl ErrKeyNotFound)"
| "db_value (CallZRange k i j ws) (VZSet es) = Inr (AStrings (map (show_entry ws) (clamped i j es)))"
| "db_value (CallZRevRange k i j ws) (VZSet es) = Inr (AStrings (map (show_entry ws) (clamped i j (rev es))))"
| "db_value c v = Inl ErrWrongType"

text \<open>A missing list has the length 0; anything else missing is an error.\<close>

fun db_missing :: "read_call \<Rightarrow> kv_error + read_value" where
  "db_missing (CallLLen k) = Inr (AInt 0)"
| "db_missing c = Inl ErrKeyNotFound"

text \<open>A read of an expired key of the right type takes the key for missing and removes it.\<close>

definition db_read :: "gotime \<Rightarrow> read_call \<Rightarrow> db \<Rightarrow> db \<times> (kv_error + read_value)" where
  "db_read now c d =
     (case d (call_key c) of
        None \<Rightarrow> (d, db_missing c)
      | Some (v, e) \<Rightarrow>
          if db_value c v = Inl ErrWrongType then (d, Inl ErrWrongType)
          else if expired_at now (v, e) then (d(call_key c := None), db_missing c)
          else (d, db_value c v))"

section \<open>Reads of the store\<close>

definition reads :: "gotime \<Rightarrow> read_call \<Rightarrow> kvstore \<Rightarrow> bool" where
  "reads now c kv \<longleftrightarrow> (\<exists>kv'. call_reader kvstore_reader now c kv = Some (kv', snd (db_read now c (abs_kv kv))) \<and> kv_wf kv' \<and>
     abs_kv kv' = fst (db_read now c (abs_kv kv)))"

lemma expired_abs: "abs_kv kv k = Some (v, e) \<Longrightarrow> IsExpired now k kv = expired_at now (v, e)"
  by (auto simp: abs_kv_def IsExpired_def expired_at_def)

text \<open>The result of a call by the cases of its key: nothing there, another type, expired, or there.\<close>

lemmas read_defs = reads_def kvstore_reader_def answer_def CheckType_eq only_type_def db_read_def IsExpired_def

lemma reads_get: "kv_wf kv \<Longrightarrow> reads now (CallGet k) kv"
proof -
  assume w: "kv_wf kv"
  note d = drop_ok(1) [OF w, of k]
  from kv_wf_key [OF w, of k] show ?thesis
  proof (cases rule: key_wf_cases)
    case (string s)
    have e: "str_expire now k kv = (drop_string k kv, None)" if "IsExpired now k kv" using that string
      by (simp add: str_expire_eq drop_string_def)
    show ?thesis using string d w expired_abs [OF string(6), of now] e
      by (auto simp: reads_def kvstore_reader_def answer_def str_Get_def CheckType_eq only_type_def db_read_def)
  qed (use w in \<open>auto simp: read_defs str_Get_def\<close>)
qed

lemma reads_hash:
  assumes w: "kv_wf kv"
  shows "reads now (CallHGet k f) kv" "reads now (CallHGetAll k) kv" "reads now (CallHExists k f) kv"
proof -
  note d = drop_ok(2) [OF w, of k] and k = kv_wf_key [OF w, of k]
  show "reads now (CallHGet k f) kv"
    using k
  proof (cases rule: key_wf_cases)
    case (hash h)
    show ?thesis using hash d w expired_abs [OF hash(8), of now]
      by (auto simp: reads_def kvstore_reader_def answer_def HGet_def CheckType_eq only_type_def db_read_def found_def split: option.splits)
  qed (use w in \<open>auto simp: read_defs HGet_def\<close>)
  show "reads now (CallHGetAll k) kv"
    using k
  proof (cases rule: key_wf_cases)
    case (hash h)
    show ?thesis using hash d w expired_abs [OF hash(8), of now]
      by (auto simp: reads_def kvstore_reader_def answer_def HGetAll_def CheckType_eq only_type_def db_read_def)
  qed (use w in \<open>auto simp: read_defs HGetAll_def\<close>)
  show "reads now (CallHExists k f) kv"
    using k
  proof (cases rule: key_wf_cases)
    case (hash h)
    show ?thesis using hash d w expired_abs [OF hash(8), of now]
      by (auto simp: reads_def kvstore_reader_def answer_def HExists_def CheckType_eq only_type_def db_read_def)
  qed (use w in \<open>auto simp: read_defs HExists_def\<close>)
qed

lemma reads_list:
  assumes w: "kv_wf kv"
  shows "reads now (CallLRange k i j) kv" "reads now (CallLLen k) kv"
proof -
  note d = drop_ok(3) [OF w, of k] and k = kv_wf_key [OF w, of k]
  show "reads now (CallLRange k i j) kv"
    using k
  proof (cases rule: key_wf_cases)
    case (list l)
    show ?thesis
    proof (cases "IsExpired now k kv \<or> l = []")
      case True
      then show ?thesis using list d w expired_abs [OF list(6), of now]
        by (auto simp: reads_def kvstore_reader_def answer_def LRange_def CheckType_eq only_type_def db_read_def)
    next
      case False
      then show ?thesis using list w expired_abs [OF list(6), of now] LRange_returns_slice [OF list(1,4), of now i j]
        by (simp add: reads_def kvstore_reader_def answer_def db_read_def clamped_def)
    qed
  qed (use w in \<open>auto simp: read_defs LRange_def\<close>)
  show "reads now (CallLLen k) kv"
    using k
  proof (cases rule: key_wf_cases)
    case (list l)
    show ?thesis using list d w expired_abs [OF list(6), of now]
      by (auto simp: reads_def kvstore_reader_def answer_def LLen_def CheckType_eq only_type_def db_read_def)
  qed (use w in \<open>auto simp: read_defs LLen_def\<close>)
qed

lemma reads_score:
  assumes w: "kv_wf kv"
  shows "reads now (CallZScore k m) kv"
  using kv_wf_key [OF w, of k]
proof (cases rule: key_wf_cases)
  case (zset sl es)
  note a = expired_abs [OF zset(8), of now]
  show ?thesis
  proof (cases "IsExpired now k kv")
    case True
    then show ?thesis using zset drop_ok(4) [OF w, of k] a
      by (simp add: reads_def kvstore_reader_def answer_def ZScore_def CheckType_eq only_type_def db_read_def found_def split: option.splits)
  next
    case False
    then show ?thesis using zset w a sl_repr_look [OF zset(7), of m]
      by (simp add: reads_def kvstore_reader_def answer_def ZScore_def CheckType_eq only_type_def db_read_def found_def spec_score_def split: option.splits)
  qed
qed (use w in \<open>auto simp: read_defs ZScore_def\<close>)

lemma reads_rank:
  assumes w: "kv_wf kv"
  shows "reads now (CallZRank k m) kv"
  using kv_wf_key [OF w, of k]
proof (cases rule: key_wf_cases)
  case (zset sl es)
  note a = expired_abs [OF zset(8), of now]
  show ?thesis
  proof (cases "IsExpired now k kv")
    case True
    then show ?thesis using zset drop_ok(4) [OF w, of k] a
      by (simp add: reads_def kvstore_reader_def answer_def ZRank_def CheckType_eq only_type_def db_read_def)
  next
    case False
    then show ?thesis using zset w a sl_repr_rank [OF zset(7), of m]
      by (simp add: reads_def kvstore_reader_def answer_def ZRank_def CheckType_eq only_type_def db_read_def)
  qed
qed (use w in \<open>auto simp: read_defs ZRank_def\<close>)

lemma reads_ranges:
  assumes w: "kv_wf kv"
  shows "reads now (CallZRange k i j ws) kv" "reads now (CallZRevRange k i j ws) kv"
proof -
  note k = kv_wf_key [OF w, of k] and d = drop_ok(4) [OF w, of k]
  show "reads now (CallZRange k i j ws) kv"
    using k
  proof (cases rule: key_wf_cases)
    case (zset sl es)
    note a = expired_abs [OF zset(8), of now]
    show ?thesis
    proof (cases "IsExpired now k kv")
      case True
      then show ?thesis using zset d a
        by (simp add: reads_def kvstore_reader_def answer_def ZRange_def zrange_with_def CheckType_eq only_type_def db_read_def)
    next
      case False
      show ?thesis using False zset(8) w a zrange_slice [where query = rangeByRank and xs = es, OF zset(7) sl_repr_range [OF zset(7)] refl zset(1,5) False, of i j ws]
        by (simp add: reads_def kvstore_reader_def answer_def ZRange_def db_read_def clamped_def)
    qed
  qed (use w in \<open>auto simp: read_defs ZRange_def zrange_with_def\<close>)
  show "reads now (CallZRevRange k i j ws) kv"
    using k
  proof (cases rule: key_wf_cases)
    case (zset sl es)
    note a = expired_abs [OF zset(8), of now]
    show ?thesis
    proof (cases "IsExpired now k kv")
      case True
      then show ?thesis using zset d a
        by (simp add: reads_def kvstore_reader_def answer_def ZRevRange_def zrange_with_def CheckType_eq only_type_def db_read_def)
    next
      case False
      show ?thesis using False zset(8) w a zrange_slice [where query = revRangeByRank and xs = "rev es", OF zset(7) sl_repr_rev_range [OF zset(7)] length_rev zset(1,5) False, of i j ws]
        by (simp add: reads_def kvstore_reader_def answer_def ZRevRange_def db_read_def clamped_def)
    qed
  qed (use w in \<open>auto simp: read_defs ZRevRange_def zrange_with_def\<close>)
qed

lemma reads_ok: "kv_wf kv \<Longrightarrow> reads now c kv"
  by (cases c) (simp_all add: reads_get reads_hash reads_list reads_score reads_rank reads_ranges)

text \<open>
  C20: a read is a read of the database. Every call of the read interface on a store with
  well-formed tables returns, without a panic, exactly what the database the store stands for
  answers: the value, the piece of a list or of a sorted set between two indices, the error for a
  missing key or for a key of another type. The database stays as it is, except that an expired
  key of the right type is removed and taken for missing.
\<close>

theorem reads_refine_database:
  assumes "kv_wf kv"
  shows "\<exists>kv'. call_reader kvstore_reader now c kv = Some (kv', snd (db_read now c (abs_kv kv))) \<and> kv_wf kv' \<and> abs_kv kv' = fst (db_read now c (abs_kv kv))"
  using reads_ok [OF assms] unfolding reads_def .

theorem reads_refine_database_witness:
  "\<exists>kv'. call_reader kvstore_reader 5 (CallZRevRange ''k'' 0 (- 1) False) demo_zset = Some (kv', Inr (AStrings [''m'']))"
proof -
  have "snd (db_read 5 (CallZRevRange ''k'' 0 (- 1) False) (abs_kv demo_zset)) = Inr (AStrings [''m''])"
    by (simp add: db_read_def demo_ok(2) expired_at_def clamped_def clamp_index_def slice_def show_entry_def)
  then show ?thesis using reads_refine_database [OF demo_ok(1), of 5 "CallZRevRange ''k'' 0 (- 1) False"] by auto
qed

end
