(* ===== verification/Races.thy ===== *)
theory Races
  imports CatchUp
begin

text \<open>
  What goes wrong between the goroutines of a node, for all nodes in the situation described: a
  follower commits what it was not told, a handler that was interrupted removes committed entries,
  and a batch written after its leader was deposed damages the log.
\<close>

section \<open>A follower's own entries\<close>

lemma ae_entries_present:
  "(\<And>e. e \<in> set es \<Longrightarrow> TermAt (Index e) l = Inr (Term e)) \<Longrightarrow> ae_entries marshal pf af es l = (l, EntriesApplied)"
  by (induction es) simp_all

text \<open>A follower whose log agrees with a message keeps its log, also behind the last entry of the message.\<close>

lemma agreeing_receives:
  assumes l: "log_wf (rlog r)" "baseIndex (rlog r) = 0" and m: "message_ok (\<lambda>_. H) req" "contiguous 0 H" "length H + 1 < 2 ^ 64"
    and agree: "reach req \<le> length (entries (rlog r))" "\<And>j. j < reach req \<Longrightarrow> Term (entries (rlog r) ! j) = Term (H ! j)"
  shows "ae_resume marshal pf af now req r =
     (let r' = commit_from_leader (ae_LeaderCommit req) (r\<lparr>leaderID := ae_LeaderID req, lastHeartbeat := now\<rparr>) in (r', ae_response True r', None))"
proof -
  let ?p = "ae_PrevLogIndex req" and ?es = "ae_Entries req" and ?r1 = "r\<lparr>leaderID := ae_LeaderID req, lastHeartbeat := now\<rparr>"
  obtain k where k: "?p \<le> length H" "0 < ?p \<longrightarrow> ae_PrevLogTerm req = Term (H ! (?p - 1))" "?es = take k (drop ?p H)" using m(1) by (auto simp: message_ok_def Let_def)
  have es: "contiguous ?p ?es" and b: "?p + length ?es \<le> length H" using m(2) k by (auto simp: contiguous_def)
  have start: "\<not> (?es \<noteq> [] \<and> ?p = max_uint64)" "validateEntrySequence ?es (?p + 1) = None"
    using b m(3) validate_contiguous [of ?p ?es] es by (auto simp: max_uint64_def)
  have "prev_agrees req (entries (rlog r))" using agree k(2) by (auto simp: prev_agrees_def reach_def)
  then have pc: "prev_check req ?r1 = None" using prev_check_cases [of ?r1 req] l b m(3) by simp
  have "ae_entries marshal pf af ?es (rlog r) = (rlog r, EntriesApplied)"
  proof (rule ae_entries_present)
    fix e
    assume "e \<in> set ?es"
    then obtain j where j: "j < length ?es" "e = ?es ! j" by (metis in_set_conv_nth)
    then have "Index e = Suc (?p + j)" "e = H ! (?p + j)" using es b k(1,3) by (auto simp: contiguous_def)
    then show "TermAt (Index e) (rlog r) = Inr (Term e)"
      using TermAt_above [of "rlog r" "?p + j"] l(2) agree(1) agree(2) [of "?p + j"] j(1) by (simp add: reach_def)
  qed
  then show ?thesis unfolding ae_resume_def ae_log_part_def using start pc by (cases "?es = []") (simp_all add: Let_def)
qed

text \<open>
  C33: a follower can commit entries its leader never had. The commit index is bounded by the last
  index of the follower's log and not by the last entry of the message. Take any message a leader
  sends and any follower whose log has the terms of the leader's log up to the last entry of the
  message, and an entry of its own behind it, at an index the leader has committed: the follower
  accepts the message, keeps the entry and commits it.
\<close>

theorem stale_suffix_committed:
  assumes leader: "replicateTo_request ni r = ReplSend nx req" "log_wf (rlog r)" "baseIndex (rlog r) = 0" "length (entries (rlog r)) + 1 < 2 ^ 64"
    and follower: "fatalErr f = None" "log_wf (rlog f)" "baseIndex (rlog f) = 0" "currentTerm f \<le> currentTerm r"
    and agree: "\<And>j. j < reach req \<Longrightarrow> Term (entries (rlog f) ! j) = Term (entries (rlog r) ! j)"
    and i: "reach req < i" "i \<le> LastIndex (rlog f)" "i \<le> commitIndex r" "commitIndex f < i" and own: "GetEntry i (rlog f) \<noteq> GetEntry i (rlog r)"
  shows "\<exists>f' resp. processAppendEntries marshal pf af sf now order (Some req) f = (f', resp, None) \<and> aer_Success resp \<and>
     i \<le> commitIndex f' \<and> GetEntry i (rlog f') = GetEntry i (rlog f) \<and> GetEntry i (rlog f') \<noteq> GetEntry i (rlog r)"
proof -
  let ?f0 = "if currentTerm f < ae_Term req \<or> state f \<noteq> Follower then stepDown sf now order (ae_Term req) f else f"
  have m: "message_ok (\<lambda>_. entries (rlog r)) req" using sent_message [OF leader(2,3,1)] by simp
  have req: "ae_Term req = currentTerm r" "ae_LeaderCommit req = commitIndex r"
    using leader(1) by (auto simp: replicateTo_request_def Let_def split: option.splits sum.splits if_splits)
  have c: "contiguous 0 (entries (rlog r))" using leader(2,3) by (simp add: log_wf_def)
  have L: "reach req \<le> length (entries (rlog f))" using i(1,2) LastIndex_eq [OF follower(2)] follower(3) by simp
  have run: "processAppendEntries marshal pf af sf now order (Some req) f = ae_resume marshal pf af now req ?f0"
    using follower(1,4) req(1) by (simp add: processAppendEntries_def ae_checks_def)
  have f0: "rlog ?f0 = rlog f" "commitIndex ?f0 = commitIndex f" by simp_all
  define f' where "f' = commit_from_leader (ae_LeaderCommit req) (?f0\<lparr>leaderID := ae_LeaderID req, lastHeartbeat := now\<rparr>)"
  have "ae_resume marshal pf af now req ?f0 = (f', ae_response True f', None)"
    using agreeing_receives [of ?f0 "entries (rlog r)" req, unfolded f0, OF follower(2,3) m c leader(4) L agree] by (simp add: f'_def Let_def)
  moreover have "rlog f' = rlog f" "commitIndex f' = min (commitIndex r) (LastIndex (rlog f))"
    using i req(2) f0 by (simp_all add: f'_def commit_from_leader_def)
  ultimately show ?thesis using run i own by (simp add: ae_response_def)
qed

definition stale_leader :: "unit RaftNode" where
  "stale_leader = (demo_node ''a'')\<lparr>state := Leader, currentTerm := 2, commitIndex := 2, config := (demo_cfg ''a'')\<lparr>MaxLogEntriesPerRPC := 1\<rparr>,
     rlog := newRaftLog\<lparr>entries := [demo_entry 1 1, demo_entry 2 2]\<rparr>\<rparr>"

definition stale_follower :: "unit RaftNode" where
  "stale_follower = (demo_node ''b'')\<lparr>currentTerm := 1, rlog := newRaftLog\<lparr>entries := [demo_entry 1 1, demo_entry 2 1]\<rparr>\<rparr>"

definition stale_message :: AppendEntriesRequest where
  "stale_message = demo_append 2 ''a'' [demo_entry 1 1] 2"

lemma stale_nodes:
  "replicateTo_request 1 stale_leader = ReplSend 1 stale_message" "log_wf (rlog stale_leader)" "baseIndex (rlog stale_leader) = 0"
  "length (entries (rlog stale_leader)) + 1 < 2 ^ 64" "fatalErr stale_follower = None" "log_wf (rlog stale_follower)" "baseIndex (rlog stale_follower) = 0"
  "currentTerm stale_follower \<le> currentTerm stale_leader" "reach stale_message = 1" "2 \<le> LastIndex (rlog stale_follower)" "2 \<le> commitIndex stale_leader"
  "commitIndex stale_follower < 2" "GetEntry 2 (rlog stale_follower) = Inr (demo_entry 2 1)" "GetEntry 2 (rlog stale_leader) = Inr (demo_entry 2 2)"
  "Term (entries (rlog stale_follower) ! 0) = Term (entries (rlog stale_leader) ! 0)"
  by (simp_all add: stale_leader_def stale_follower_def stale_message_def replicateTo_request_def clip_next_def limit_entries_def GetEntriesFrom_def
      reach_def log_wf_def contiguous_def All_less_Suc2 demo_eval)

theorem stale_suffix_committed_witness:
  "\<exists>f resp. processAppendEntries (\<lambda>_. []) None None False 0 [] (Some stale_message) stale_follower = (f, resp, None) \<and> aer_Success resp \<and>
     2 \<le> commitIndex f \<and> GetEntry 2 (rlog f) = Inr (demo_entry 2 1) \<and> commitIndex stale_leader = 2 \<and> GetEntry 2 (rlog stale_leader) = Inr (demo_entry 2 2)"
proof -
  have "\<And>j. j < reach stale_message \<Longrightarrow> Term (entries (rlog stale_follower) ! j) = Term (entries (rlog stale_leader) ! j)"
    using stale_nodes(9,15) by simp
  moreover have "GetEntry 2 (rlog stale_follower) \<noteq> GetEntry 2 (rlog stale_leader)" using stale_nodes(13,14) by (simp add: demo_entry_def)
  moreover have "reach stale_message < 2" using stale_nodes(9) by simp
  ultimately show ?thesis
    using stale_suffix_committed [OF stale_nodes(1-8) _ _ stale_nodes(10-12), where marshal = "\<lambda>_. []" and pf = None and af = None and sf = False and now = 0 and order = "[]"]
      stale_nodes(13,14) by (auto simp: stale_leader_def)
qed

section \<open>A handler that was interrupted\<close>

text \<open>
  C34: a handler that was interrupted can remove a committed entry. \<^verbatim>\<open>stepDown\<close> releases the node's
  lock while it writes the state file, and the term is not looked at again afterwards. Take any
  message of a leader that passes the checks and is interrupted there, and any message of a leader of
  a later term that the node handles meanwhile. The handler goes on with its state saved and the
  waiters answered. If its message fits the log at the previous index and starts with an entry that
  conflicts with one at or below the commit index, it replaces that entry and all that follow by its
  own, reports success with the later term, and its entry stands in the committed part of the log
  from then on.
\<close>

theorem interrupted_append_loses_committed:
  assumes first: "ae_checks (Some req1) r0 = Inr req1" "currentTerm r0 < ae_Term req1 \<or> state r0 \<noteq> Follower" "r1 = stepDown_begin now1 (ae_Term req1) r0"
    and second: "processAppendEntries marshal pf af sf now2 order (Some req2) r1 = (r2, resp2, err2)" "aer_Success resp2" "ae_Term req1 < ae_Term req2"
    and log: "log_wf (rlog r2)" "baseIndex (rlog r2) = 0" "log_healthy (rlog r2)"
    and msg: "ae_Entries req1 = e # es" "contiguous (ae_PrevLogIndex req1) (e # es)" "ae_PrevLogIndex req1 + length (e # es) + 1 < 2 ^ 64" "prev_agrees req1 (entries (rlog r2))"
    and conflict: "GetEntry (Index e) (rlog r2) = Inr e'" "Term e' \<noteq> Term e" "Index e \<le> commitIndex r2"
  shows "\<exists>r3 resp. ae_resume marshal None None now3 req1 (stepDown_end order1 (save_state sf1 (currentTerm r1) (votedFor r1) r2)) = (r3, resp, None) \<and> aer_Success resp \<and> aer_Term resp = ae_Term req2 \<and>
     GetEntry (Index e) (rlog r3) = Inr e \<and> entries (rlog r3) = take (ae_PrevLogIndex req1) (entries (rlog r2)) @ ae_Entries req1 \<and> Index e \<le> commitIndex r3"
proof -
  let ?p = "ae_PrevLogIndex req1" and ?held = "stepDown_end order1 (save_state sf1 (currentTerm r1) (votedFor r1) r2)" and ?es = "ae_Entries req1"
  let ?r = "?held\<lparr>leaderID := ae_LeaderID req1, lastHeartbeat := now3\<rparr>"
  have r0: "rlog ?held = rlog r2" "commitIndex ?held = commitIndex r2" "currentTerm ?held = currentTerm r2" by (simp_all add: stepDown_end_def save_state_def)
  have t: "currentTerm r2 = ae_Term req2"
    using second(1,2) by (cases rule: received_cases) (auto dest: resume_keeps)
  have p: "?p \<le> length (entries (rlog r2))" using msg(4) by (simp add: prev_agrees_def)
  have ie: "Index e = Suc ?p" using msg(2) by (simp add: contiguous_Cons)
  have start: "\<not> (?es \<noteq> [] \<and> ?p = max_uint64)" "validateEntrySequence ?es (?p + 1) = None"
    using msg(1-3) validate_contiguous [of ?p ?es] by (auto simp: max_uint64_def)
  have pc: "prev_check req1 ?r = None" using prev_check_cases [of ?r req1] log msg(3,4) r0 by simp
  obtain l' where l': "ae_entries marshal None None ?es (rlog r2) = (l', EntriesApplied)"
    using healthy_entries [OF log(3,1,2), of ?p ?es marshal] msg(1-3) p by auto
  obtain i where m: "merged ?p ?es (rlog r2) l' i" and wf: "log_wf l'"
    using ae_entries_merged [OF log(1) _ _ _ _ l', of ?p] msg(1-3) p log(2) by auto
  have "TermAt (Index e) (rlog r2) = Inr (Term e')"
    using conflict(1) TermAt_above [of "rlog r2" ?p] log(2) ie by (auto simp: GetEntry_def Let_def split: if_splits)
  then have "i = 0" using m conflict(2) msg(1) by (cases i) (auto simp: merged_def)
  then have el: "entries l' = take ?p (entries (rlog r2)) @ ?es" "baseIndex l' = 0" using m msg(1) log(2) by (auto simp: merged_def)
  define r3 where "r3 = commit_from_leader (ae_LeaderCommit req1) (?r\<lparr>rlog := l'\<rparr>)"
  have "ae_resume marshal None None now3 req1 ?held = (r3, ae_response True r3, None)"
    unfolding ae_resume_def ae_log_part_def using start pc l' r0(1) by (cases "?es = []") (simp_all add: Let_def r3_def)
  moreover have "rlog r3 = l'" "currentTerm r3 = ae_Term req2" using t r0 by (simp_all add: r3_def commit_from_leader_def)
  moreover have "Index e \<le> LastIndex l'" using LastIndex_eq [OF wf] el p msg(1) ie by simp
  then have "Index e \<le> commitIndex r3" using conflict(3) r0(2) by (simp add: r3_def commit_from_leader_def)
  moreover have "GetEntry (Index e) l' = Inr e" using GetEntry_eq [OF wf] el(1) msg(1) by simp
  ultimately show ?thesis using el(1) by (simp add: ae_response_def)
qed

definition interrupted_node :: "unit RaftNode" where
  "interrupted_node = stepDown_begin 0 1 (demo_node ''b'')"

definition overtaken_node :: "unit RaftNode" where
  "overtaken_node = fst (processAppendEntries (\<lambda>_. []) None None False 0 [] (Some (demo_append 2 ''c'' [demo_entry 1 2] 1)) interrupted_node)"

lemma overtaken_run:
  "processAppendEntries (\<lambda>_. []) None None False 0 [] (Some (demo_append 2 ''c'' [demo_entry 1 2] 1)) interrupted_node =
     (overtaken_node, \<lparr>aer_Term = 2, aer_Success = True, aer_ConflictIndex = 0, aer_ConflictTerm = 0\<rparr>, None)"
  by (simp add: overtaken_node_def interrupted_node_def stepDown_begin_def demo_eval)

lemma overtaken_fields:
  "entries (rlog overtaken_node) = [demo_entry 1 2]" "log_wf (rlog overtaken_node)" "baseIndex (rlog overtaken_node) = 0" "log_healthy (rlog overtaken_node)"
  "GetEntry 1 (rlog overtaken_node) = Inr (demo_entry 1 2)" "commitIndex overtaken_node = 1"
  by (simp_all add: overtaken_node_def interrupted_node_def stepDown_begin_def log_healthy_def log_wf_def contiguous_Cons contiguous_def demo_eval)

theorem interrupted_append_loses_committed_witness:
  "\<exists>r resp. ae_resume (\<lambda>_. []) None None 0 (demo_append 1 ''a'' [demo_entry 1 1] 0)
       (stepDown_end [] (save_state False (currentTerm interrupted_node) (votedFor interrupted_node) overtaken_node)) = (r, resp, None) \<and> aer_Success resp \<and>
     GetEntry 1 (rlog overtaken_node) = Inr (demo_entry 1 2) \<and> commitIndex overtaken_node = 1 \<and> GetEntry 1 (rlog r) = Inr (demo_entry 1 1)"
proof -
  let ?req = "demo_append 1 ''a'' [demo_entry 1 1] 0"
  have "ae_checks (Some ?req) (demo_node ''b'') = Inr ?req" "currentTerm (demo_node ''b'') < ae_Term ?req \<or> state (demo_node ''b'') \<noteq> Follower" "interrupted_node = stepDown_begin 0 (ae_Term ?req) (demo_node ''b'')"
    "ae_Term ?req < ae_Term (demo_append 2 ''c'' [demo_entry 1 2] 1)" "ae_Entries ?req = [demo_entry 1 1]" "contiguous (ae_PrevLogIndex ?req) [demo_entry 1 1]"
    "ae_PrevLogIndex ?req + length [demo_entry 1 1] + 1 < 2 ^ 64" "prev_agrees ?req (entries (rlog overtaken_node))" "Index (demo_entry 1 1) = 1"
    "Term (demo_entry 1 2) \<noteq> Term (demo_entry 1 1)"
    by (simp_all add: interrupted_node_def ae_checks_def contiguous_Cons contiguous_def prev_agrees_def demo_eval)
  note req = this
  show ?thesis
    using interrupted_append_loses_committed [OF req(1-3) overtaken_run _ req(4) overtaken_fields(2,3,4) req(5-8), unfolded req(9), OF _ overtaken_fields(5) req(10), of 0 "[]" False]
      overtaken_fields(5,6) by auto
qed

section \<open>A batch of a leader that was deposed\<close>

lemma flush_entries_hd:
  "batch \<noteq> [] \<Longrightarrow> LastIndex (rlog r) + length batch < 2 ^ 64 \<Longrightarrow>
     hd (flush_entries batch r) = \<lparr>Index = LastIndex (rlog r) + 1, Term = currentTerm r, Type = EntryKV, Command = fst (hd batch)\<rparr>"
  using flush_entries_nth [of 0 batch r] length_flush_entries [of batch r] by (simp add: hd_conv_nth flip: length_greater_0_conv)

lemma flush_entries_terms: "e \<in> set (flush_entries batch r) \<Longrightarrow> Term e = currentTerm r"
  by (auto simp: flush_entries_def)

lemma deposed_state:
  assumes "processAppendEntries marshal pf af sf now order (Some req) r = (r', resp, err)" "aer_Success resp"
  shows "state r' = Follower \<and> currentTerm r' = ae_Term req"
  using assms by (cases rule: received_cases) (auto dest: resume_keeps)

lemma proposed_entry:
  assumes "ProposeMembershipChange marshal mjson pf change r = (r1, None)" "log_wf (rlog r)" "LastIndex (rlog r) + 1 < 2 ^ 64"
  shows "GetEntry (LastIndex (rlog r) + 1) (rlog r1) =
     Inr \<lparr>Index = LastIndex (rlog r) + 1, Term = currentTerm r, Type = EntryMembership, Command = mjson change\<rparr>"
proof -
  define e where "e = \<lparr>Index = LastIndex (rlog r) + 1, Term = currentTerm r, Type = EntryMembership, Command = mjson change\<rparr>"
  have "Append marshal pf [e] (rlog r) = (rlog r1, None)"
    using assms(1,3) by (auto simp: ProposeMembershipChange_def e_def Let_def split: if_splits prod.splits option.splits)
  moreover from this have "log_wf (rlog r1)" using Append_contiguous [OF assms(2)] assms(2,3) LastIndex_eq [OF assms(2)] by simp
  ultimately show ?thesis unfolding e_def [symmetric] using Append_ok [of marshal pf "[e]" "rlog r" "rlog r1"] by (subst GetEntry_eq) (simp_all add: e_def)
qed

text \<open>
  C36: a leader that is deposed while it flushes damages its log. Take any leader and any batch whose
  entries were computed before the lock was released, a membership change that takes the first index
  of the batch meanwhile, and any message of a leader of a later term that the node accepts and that
  leaves its log as long as it was. The batch is written all the same. The callers of the batch are
  told that the node is no leader, the node holds another entry than the change at that index with the
  same term, so that log matching is broken with every node that received the change, and when the
  log had entries of the later term its last term falls: the node then calls candidates up to date
  whose logs the later leader's log is ahead of.
\<close>

theorem flush_race_breaks_log_matching:
  assumes batch: "batch \<noteq> []" "LastIndex (rlog r) + length batch < 2 ^ 64" "log_wf (rlog r)"
    and proposed: "ProposeMembershipChange marshal mjson pf change r = (r1, None)"
    and deposed: "processAppendEntries marshal tf af sf now order (Some req) r1 = (r2, resp, err)" "aer_Success resp" "currentTerm r < ae_Term req"
    and log: "log_wf (rlog r2)" "log_healthy (rlog r2)" "LastIndex (rlog r2) = LastIndex (rlog r)"
  shows "\<exists>l a e e'. Append marshal None (flush_entries batch r) (rlog r2) = (l, None) \<and> a = flush_finish (flush_entries batch r) batch None (r2\<lparr>rlog := l\<rparr>) \<and>
     notified a = notified r2 @ map (\<lambda>(_, ch). (ch, Some ErrNotLeader)) batch \<and> entries (rlog a) = entries (rlog r2) @ flush_entries batch r \<and>
     GetEntry (LastIndex (rlog r) + 1) (rlog a) = Inr e \<and> GetEntry (LastIndex (rlog r) + 1) (rlog r1) = Inr e' \<and> Term e = Term e' \<and> e \<noteq> e' \<and>
     (currentTerm r < LastTerm (rlog r2) \<longrightarrow> LastTerm (rlog a) < LastTerm (rlog r2) \<and>
        (\<forall>vote. rv_LastLogTerm vote = currentTerm r \<and> LastIndex (rlog a) \<le> rv_LastLogIndex vote \<longrightarrow>
           log_up_to_date vote (rlog a) \<and> \<not> log_up_to_date vote (rlog r2)))"
proof -
  let ?es = "flush_entries batch r"
  obtain l where l: "Append marshal None ?es (rlog r2) = (l, None)"
    using Append_healthy [of "rlog r2" ?es marshal] log flush_entries_contiguous [OF batch(2)] batch(2) by (auto simp: log_healthy_def)
  define a where "a = flush_finish ?es batch None (r2\<lparr>rlog := l\<rparr>)"
  have a: "rlog a = l" "notified a = notified r2 @ map (\<lambda>(_, ch). (ch, Some ErrNotLeader)) batch"
    using deposed_state [OF deposed(1,2)] by (simp_all add: a_def flush_finish_def answer_all_def)
  have es: "entries l = entries (rlog r2) @ ?es" using Append_ok [OF l] by simp
  have wf: "log_wf l" using Append_contiguous [OF log(1) l] log(3) LastIndex_eq [OF log(1)] batch(2) by simp
  have ne: "?es \<noteq> []" using batch(1) length_flush_entries [of batch r] by (metis length_0_conv)
  have "hd ?es \<in> set (entries l)" using es ne by simp
  then have e: "GetEntry (LastIndex (rlog r) + 1) l = Inr (hd ?es)" using GetEntry_eq [OF wf] flush_entries_hd [OF batch(1,2)] by simp
  have "LastIndex (rlog r) + 1 < 2 ^ 64" using batch(1,2) by (cases batch) simp_all
  note e' = proposed_entry [OF proposed batch(3) this]
  have last: "LastTerm l = currentTerm r" using es ne flush_entries_terms [OF last_in_set [OF ne]] by (simp add: LastTerm_def)
  show ?thesis
    using l a es e e' last flush_entries_hd [OF batch(1,2)]
    by (intro exI [of _ l] exI [of _ a] exI [of _ "hd ?es"] exI) (auto simp: a_def [symmetric] log_up_to_date_def EntryKV_def EntryMembership_def)
qed

definition racing_leader :: "unit RaftNode" where
  "racing_leader = (demo_node ''a'')\<lparr>state := Leader, currentTerm := 1, rlog := newRaftLog\<lparr>entries := [demo_entry 1 1]\<rparr>\<rparr>"

definition racing_change :: MembershipChange where
  "racing_change = \<lparr>mc_Type = AddServer, mc_NodeID = ''f'', mc_Address = ''addr''\<rparr>"

definition racing_proposed :: "unit RaftNode" where
  "racing_proposed = fst (ProposeMembershipChange (\<lambda>_. []) (\<lambda>_. [9]) None racing_change racing_leader)"

definition racing_deposed :: "unit RaftNode" where
  "racing_deposed = fst (processAppendEntries (\<lambda>_. []) None None False 0 [] (Some (demo_append 2 ''c'' [demo_entry 1 2] 1)) racing_proposed)"

lemma racing_run:
  "ProposeMembershipChange (\<lambda>_. []) (\<lambda>_. [9]) None racing_change racing_leader = (racing_proposed, None)"
  "processAppendEntries (\<lambda>_. []) None None False 0 [] (Some (demo_append 2 ''c'' [demo_entry 1 2] 1)) racing_proposed =
     (racing_deposed, \<lparr>aer_Term = 2, aer_Success = True, aer_ConflictIndex = 0, aer_ConflictTerm = 0\<rparr>, None)"
  by (simp_all add: racing_deposed_def racing_proposed_def racing_leader_def ProposeMembershipChange_def demo_eval)

lemma racing_fields:
  "LastIndex (rlog racing_leader) = 1" "currentTerm racing_leader = 1" "log_wf (rlog racing_leader)" "log_wf (rlog racing_deposed)" "log_healthy (rlog racing_deposed)"
  "LastIndex (rlog racing_deposed) = 1" "LastTerm (rlog racing_deposed) = 2" "notified racing_deposed = []"
  by (simp_all add: racing_deposed_def racing_proposed_def racing_leader_def ProposeMembershipChange_def log_healthy_def log_wf_def contiguous_Cons contiguous_def LastTerm_def demo_eval)

theorem flush_race_breaks_log_matching_witness:
  "\<exists>(a :: unit RaftNode) e e'. notified a = [(0, Some ErrNotLeader)] \<and> GetEntry 2 (rlog a) = Inr e \<and> GetEntry 2 (rlog racing_proposed) = Inr e' \<and> Term e = Term e' \<and> e \<noteq> e' \<and>
     LastTerm (rlog a) < LastTerm (rlog racing_deposed)"
proof -
  have "[([7], 0)] \<noteq> ([] :: proposeRequest list)" "LastIndex (rlog racing_leader) + length [([7] :: bytes, 0 :: nat)] < 2 ^ 64"
    "aer_Success \<lparr>aer_Term = 2, aer_Success = True, aer_ConflictIndex = 0, aer_ConflictTerm = 0\<rparr>" "currentTerm racing_leader < ae_Term (demo_append 2 ''c'' [demo_entry 1 2] 1)"
    "LastIndex (rlog racing_deposed) = LastIndex (rlog racing_leader)" "currentTerm racing_leader < LastTerm (rlog racing_deposed)" "LastIndex (rlog racing_leader) + 1 = 2"
    by (simp_all add: racing_fields demo_append_def)
  note h = this
  show ?thesis
    using flush_race_breaks_log_matching [OF h(1,2) racing_fields(3) racing_run h(3,4) racing_fields(4,5) h(5), unfolded h(7) racing_fields(8)] h(6)
    apply (elim exE conjE)
    subgoal for l a e e' by (intro exI [of _ a] exI [of _ e] exI [of _ e']) fastforce
    done
qed

end
