(* ===== verification/Batching.thy ===== *)
theory Batching
  imports LoopProps
begin

text \<open>
  The loop that collects proposals (\<^verbatim>\<open>batchLoop\<close> of \<^verbatim>\<open>internal/raft/raft.go\<close>) and the callers that wait
  for their answers: that no request is lost while the node works, and what becomes of the waiting
  callers when its disk fails.
\<close>

section \<open>The loop\<close>

text \<open>What \<^verbatim>\<open>select\<close> takes next: the stop signal, a request of \<^verbatim>\<open>proposeCh\<close>, or a tick of 5 ms.\<close>

datatype batch_event = StopSignal | Proposed proposeRequest | Ticked

record 'sm batch_loop =
  bl_batch :: "proposeRequest list"
  bl_running :: bool
  bl_node :: "'sm RaftNode"

definition batch_flush :: "(LogEntry \<Rightarrow> bytes) \<Rightarrow> append_fault option \<Rightarrow> 'sm batch_loop \<Rightarrow> 'sm batch_loop" where
  "batch_flush marshal fault s = s\<lparr>bl_batch := [], bl_node := flush marshal fault (bl_batch s) (bl_node s)\<rparr>"

definition batchLoop :: "(LogEntry \<Rightarrow> bytes) \<Rightarrow> append_fault option \<Rightarrow> batch_event \<Rightarrow> 'sm batch_loop \<Rightarrow> 'sm batch_loop" where
  "batchLoop marshal fault ev s =
     (if \<not> bl_running s then s
      else case ev of
             StopSignal \<Rightarrow> (batch_flush marshal fault s)\<lparr>bl_running := False\<rparr>
           | Proposed req \<Rightarrow>
               (let s1 = s\<lparr>bl_batch := bl_batch s @ [req]\<rparr>
                in if 100 \<le> length (bl_batch s1) then batch_flush marshal fault s1 else s1)
           | Ticked \<Rightarrow> batch_flush marshal fault s)"

section \<open>No request is lost\<close>

text \<open>
  The loop among the other goroutines. Next to its own events the apply loop takes an entry, the
  node steps down, or a handler changes the node in a way that leaves the waiting callers alone
  and does not shorten the log. \<open>got\<close> lists the callers whose requests the loop has taken.
\<close>

inductive batch_run :: "(LogEntry \<Rightarrow> bytes) \<Rightarrow> 'sm RaftNode \<Rightarrow> 'sm batch_loop \<Rightarrow> nat list \<Rightarrow> bool" for marshal r0 where
  begin_run: "batch_run marshal r0 \<lparr>bl_batch = [], bl_running = True, bl_node = r0\<rparr> []"
| take_request: "batch_run marshal r0 s got \<Longrightarrow> bl_running s \<Longrightarrow> LastIndex (rlog (bl_node s)) + 100 < 2 ^ 64 \<Longrightarrow>
    batch_run marshal r0 (batchLoop marshal fault (Proposed (cmd, ch)) s) (ch # got)"
| other_event: "batch_run marshal r0 s got \<Longrightarrow> LastIndex (rlog (bl_node s)) + 100 < 2 ^ 64 \<Longrightarrow> ev = Ticked \<or> ev = StopSignal \<Longrightarrow>
    batch_run marshal r0 (batchLoop marshal fault ev s) got"
| entry_applied: "batch_run marshal r0 s got \<Longrightarrow> set order = dom (waiters (bl_node s)) \<Longrightarrow>
    apply_one ujson sf now order sm (bl_node s) = Some (r, due) \<Longrightarrow> batch_run marshal r0 (s\<lparr>bl_node := r\<rparr>) got"
| stepped_down: "batch_run marshal r0 s got \<Longrightarrow> set order = dom (waiters (bl_node s)) \<Longrightarrow>
    batch_run marshal r0 (s\<lparr>bl_node := stepDown sf now order t (bl_node s)\<rparr>) got"
| node_changed: "batch_run marshal r0 s got \<Longrightarrow> waiters r = waiters (bl_node s) \<Longrightarrow> notified r = notified (bl_node s) \<Longrightarrow> log_wf (rlog r) \<Longrightarrow>
    LastIndex (rlog (bl_node s)) \<le> LastIndex (rlog r) \<Longrightarrow> batch_run marshal r0 (s\<lparr>bl_node := r\<rparr>) got"

text \<open>The callers that wait at an index or have had their answer.\<close>

definition known_callers :: "'sm RaftNode \<Rightarrow> nat set" where
  "known_callers r = ran (waiters r) \<union> fst ` set (notified r)"

definition waiters_wf :: "'sm RaftNode \<Rightarrow> bool" where
  "waiters_wf r \<longleftrightarrow> log_wf (rlog r) \<and> dom (waiters r) \<subseteq> {..LastIndex (rlog r)}"

lemma Append_failed_frame: "Append marshal f es l = (l', Some e) \<Longrightarrow> log_wf l \<Longrightarrow> log_wf l' \<and> LastIndex l' = LastIndex l"
  using Append_error [of marshal f es l l' e] by (simp add: log_wf_def LastIndex_def)

lemma answer_all_known: "known_callers (answer_all e batch r) = snd ` set batch \<union> known_callers r"
  by (force simp: known_callers_def answer_all_def)

lemma flush_accounts:
  assumes "waiters_wf r" "LastIndex (rlog r) + length batch < 2 ^ 64"
  shows "waiters_wf (flush marshal fault batch r) \<and> snd ` set batch \<union> known_callers r \<subseteq> known_callers (flush marshal fault batch r)"
proof (cases "batch = [] \<or> state r \<noteq> Leader")
  case True
  then show ?thesis using assms(1) answer_all_known [of "Some ErrNotLeader" batch r] by (auto simp: flush_def answer_all_def waiters_wf_def)
next
  case False
  then have f: "state r = Leader" "batch \<noteq> []" by auto
  let ?es = "flush_entries batch r" and ?r' = "flush marshal fault batch r"
  obtain l err where ap: "Append marshal fault ?es (rlog r) = (l, err)" by (cases "Append marshal fault ?es (rlog r)")
  show ?thesis
  proof (cases err)
    case (Some e)
    have r': "?r' = answer_all (Some e) batch (markStorageFailureLocked e (r\<lparr>rlog := l\<rparr>))"
      using f ap Some by (simp add: flush_def flush_finish_def)
    have "known_callers (markStorageFailureLocked e (r\<lparr>rlog := l\<rparr>)) = known_callers r"
      by (simp add: known_callers_def markStorageFailureLocked_def markFatalLocked_def)
    moreover have "waiters_wf ?r'" using assms(1) Append_failed_frame [of marshal fault ?es "rlog r" l e] ap Some
      by (auto simp: r' waiters_wf_def answer_all_def markStorageFailureLocked_def markFatalLocked_def)
    ultimately show ?thesis unfolding r' answer_all_known by simp
  next
    case None
    have "?es \<noteq> []" using f(2) by (metis length_flush_entries length_0_conv)
    then have ne: "entries (rlog ?r') \<noteq> entries (rlog r)"
      using flush_ok [OF f ap [unfolded None]] Append_ok [OF ap [unfolded None]] by auto
    have wf: "log_wf (rlog r)" "dom (waiters r) \<subseteq> {..LastIndex (rlog r)}" using assms(1) by (simp_all add: waiters_wf_def)
    from flush_registers [OF f wf(1) assms(2), of marshal fault, unfolded Let_def] ne
    have n: "notified ?r' = notified r" "LastIndex (rlog ?r') = LastIndex (rlog r) + length batch" "log_wf (rlog ?r')"
      and new: "\<And>i. i < length batch \<Longrightarrow> waiters ?r' (LastIndex (rlog r) + 1 + i) = Some (snd (batch ! i))"
      and old: "\<And>i. i \<le> LastIndex (rlog r) \<Longrightarrow> waiters ?r' i = waiters r i" by auto
    have "ran (waiters r) \<subseteq> ran (waiters ?r')" using old wf(2) by (fastforce simp: ran_def)
    moreover have "snd ` set batch \<subseteq> ran (waiters ?r')" using new by (fastforce simp: ran_def in_set_conv_nth)
    moreover have "dom (waiters ?r') \<subseteq> {..LastIndex (rlog ?r')}"
    proof -
      obtain w nx where r': "?r' = advanceCommitIndex (r\<lparr>rlog := l, waiters := w, nextIndex := nx\<rparr>)"
        and w: "w = waiters r ++ map_of (rev (map2 (\<lambda>e (_, ch). (Index e, ch)) ?es batch))"
        using flush_ok [OF f ap [unfolded None]] by blast
      obtain c b where "?r' = r\<lparr>rlog := l, waiters := w, nextIndex := nx, commitIndex := c, commitCh := b\<rparr>"
        using advance_frame [of "r\<lparr>rlog := l, waiters := w, nextIndex := nx\<rparr>"] r' by auto
      then have dw: "dom (waiters ?r') = dom w" by simp
      have "Index (?es ! i) = LastIndex (rlog r) + 1 + i" if "i < length batch" for i using flush_entries_nth [OF that assms(2)] by simp
      then have "dom (map_of (rev (map2 (\<lambda>e (_, ch). (Index e, ch)) ?es batch))) \<subseteq> {..LastIndex (rlog ?r')}"
        unfolding n(2) by (auto simp: dom_map_of_conv_image_fst set_zip split_beta)
      then show ?thesis using wf(2) n(2) unfolding dw w by auto
    qed
    ultimately show ?thesis using n(1,3) by (auto simp: known_callers_def waiters_wf_def)
  qed
qed

lemma stepDown_known:
  assumes "set order = dom (waiters r)"
  shows "known_callers r \<subseteq> known_callers (stepDown sf now order t r) \<and> waiters (stepDown sf now order t r) = Map.empty"
proof -
  have "ran (waiters r) \<subseteq> fst ` set (List.map_filter (\<lambda>i. map_option (\<lambda>w. (w, Some ErrNotLeader)) (waiters r i)) order)"
    using assms by (fastforce simp: map_filter_def ran_def dom_def image_iff)
  then show ?thesis by (auto simp: stepDown_eq Let_def known_callers_def)
qed

lemma known_same: "waiters a = waiters b \<Longrightarrow> notified a = notified b \<Longrightarrow> known_callers a = known_callers b"
  by (simp add: known_callers_def)

lemma known_updates [simp]:
  "known_callers (r\<lparr>nextIndex := x0\<rparr>) = known_callers r"
  "known_callers (r\<lparr>matchIndex := x1\<rparr>) = known_callers r"
  "known_callers (r\<lparr>transportOps := x2\<rparr>) = known_callers r"
  "known_callers (r\<lparr>clusterConfig := x3\<rparr>) = known_callers r"
  "known_callers (r\<lparr>pendingMembership := x4\<rparr>) = known_callers r"
  "known_callers (r\<lparr>stateMachine := x5\<rparr>) = known_callers r"
  "known_callers (r\<lparr>lastApplied := x6\<rparr>) = known_callers r"
  "known_callers (r\<lparr>noopCommitted := x7\<rparr>) = known_callers r"
  by (simp_all add: known_callers_def)

lemma applyMembership_known:
  assumes "set order = dom (waiters r)" "applyMembership ujson sf now order e r = (r1, err)"
  shows "known_callers r \<subseteq> known_callers r1 \<and> (waiters r1 = waiters r \<or> waiters r1 = Map.empty)"
proof (cases "ujson (Command e)")
  case (Some c)
  let ?p = "mc_NodeID c" let ?r0 = "r\<lparr>nextIndex := (nextIndex r)(?p := None), matchIndex := (matchIndex r)(?p := None),
      transportOps := transportOps r @ [TransportRemovePeer ?p]\<rparr>"
  have d: "known_callers r \<subseteq> known_callers (stepDown sf now order (currentTerm r) ?r0)"
    "waiters (stepDown sf now order (currentTerm r) ?r0) = Map.empty"
    using stepDown_known [of order ?r0 sf now "currentTerm r"] assms(1) by simp_all
  consider "mc_Type c = AddServer" | "mc_Type c \<noteq> AddServer" "mc_Type c = RemoveServer" "?p = NodeID (config r)"
    | "mc_Type c \<noteq> AddServer" "mc_Type c = RemoveServer" "?p \<noteq> NodeID (config r)" | "mc_Type c \<noteq> AddServer" "mc_Type c \<noteq> RemoveServer" by blast
  then show ?thesis
  proof cases
    case 1
    from assms(2) Some this show ?thesis by (simp add: applyMembership_def Let_def, elim conjE, hypsubst, simp)
  next
    case 2
    have "r1 = (stepDown sf now order (currentTerm r) ?r0)\<lparr>clusterConfig := RemovePeer ?p (clusterConfig r), pendingMembership := False\<rparr>"
      using assms(2) Some 2 by (simp add: applyMembership_def Let_def)
    then show ?thesis using d by simp
  next
    case 3
    from assms(2) Some this show ?thesis by (simp add: applyMembership_def Let_def, elim conjE, hypsubst, simp)
  next
    case 4
    from assms(2) Some this show ?thesis by (simp add: applyMembership_def Let_def, elim conjE, hypsubst, simp)
  qed
qed (use assms(2) in \<open>simp add: applyMembership_def\<close>)

lemma apply_answer_known:
  "known_callers r \<subseteq> known_callers (apply_answer e err r) \<and> dom (waiters (apply_answer e err r)) \<subseteq> dom (waiters r)"
proof (cases "waiters r (Index e)")
  case (Some ch)
  have "ran (waiters r) \<subseteq> insert ch (ran ((waiters r)(Index e := None)))"
  proof
    fix c
    assume "c \<in> ran (waiters r)"
    then obtain i where "waiters r i = Some c" by (auto simp: ran_def)
    then show "c \<in> insert ch (ran ((waiters r)(Index e := None)))" using Some by (cases "i = Index e") (auto simp: ran_def intro: exI [of _ i])
  qed
  then show ?thesis using Some by (auto simp: apply_answer_def known_callers_def)
qed (simp add: apply_answer_def)

lemma apply_one_known:
  assumes "set order = dom (waiters r)" "apply_one ujson sf now order sm r = Some (r', due)"
  shows "known_callers r \<subseteq> known_callers r' \<and> dom (waiters r') \<subseteq> dom (waiters r) \<and> rlog r' = rlog r"
proof -
  obtain e where rest: "apply_rest ujson sf now order sm (lastApplied r + 1) e r = Some (r', due)"
    using assms(2) by (auto simp: apply_one_def split: sum.splits)
  obtain r1 err where r1: "(if Type e = EntryMembership then Some (applyMembership ujson sf now order e r)
      else map_option (\<lambda>(s, e). (r\<lparr>stateMachine := s\<rparr>, e)) (sm_Apply sm e (stateMachine r))) = Some (r1, err)"
    using rest by (auto simp: apply_rest_def split: option.splits)
  have k1: "known_callers r \<subseteq> known_callers r1 \<and> dom (waiters r1) \<subseteq> dom (waiters r)"
    using r1 applyMembership_known [OF assms(1), of ujson sf now e r1 err] by (auto simp: known_callers_def split: if_splits)
  let ?r2 = "if Type e = EntryNoop \<and> state r1 = Leader \<and> Term e = currentTerm r1
      then r1\<lparr>lastApplied := lastApplied r + 1, noopCommitted := True\<rparr> else r1\<lparr>lastApplied := lastApplied r + 1\<rparr>"
  have r2: "r' = apply_answer e err ?r2" using rest unfolding apply_rest_def r1 by (auto simp: Let_def)
  have w: "waiters ?r2 = waiters r1" "notified ?r2 = notified r1" by simp_all
  have a: "known_callers r1 \<subseteq> known_callers r'" "dom (waiters r') \<subseteq> dom (waiters r1)"
    using apply_answer_known [of ?r2 e err] unfolding r2 known_same [OF w] w(1) by (rule conjunct1, rule conjunct2)
  show ?thesis using subset_trans [OF _ a(1)] subset_trans [OF a(2)] k1 apply_rest_frame [OF rest] by simp
qed

text \<open>One event of the loop keeps account of its callers.\<close>

definition accounted :: "nat list \<Rightarrow> 'sm batch_loop \<Rightarrow> bool" where
  "accounted got s \<longleftrightarrow> waiters_wf (bl_node s) \<and> length (bl_batch s) < 100 \<and> (\<not> bl_running s \<longrightarrow> bl_batch s = []) \<and>
     set got \<subseteq> snd ` set (bl_batch s) \<union> known_callers (bl_node s)"

lemma batch_flush_accounted:
  assumes "waiters_wf (bl_node s)" "length (bl_batch s) \<le> 100" "LastIndex (rlog (bl_node s)) + 100 < 2 ^ 64"
    "set got \<subseteq> snd ` set (bl_batch s) \<union> known_callers (bl_node s)"
  shows "accounted got (batch_flush marshal fault s)"
  using flush_accounts [OF assms(1), of "bl_batch s" marshal fault] assms(2-) by (auto simp: accounted_def batch_flush_def)

lemma accounted_running: "accounted got s \<Longrightarrow> bl_batch s = [] \<Longrightarrow> accounted got (s\<lparr>bl_running := b\<rparr>)"
  by (simp add: accounted_def)

lemma accounted_node:
  assumes "accounted got s" "waiters_wf r" "known_callers (bl_node s) \<subseteq> known_callers r"
  shows "accounted got (s\<lparr>bl_node := r\<rparr>)"
  using assms unfolding accounted_def by auto

lemma accounted_request:
  assumes "accounted got s" "bl_running s" "LastIndex (rlog (bl_node s)) + 100 < 2 ^ 64"
  shows "accounted (ch # got) (batchLoop marshal fault (Proposed (cmd, ch)) s)"
proof (cases "100 \<le> length (bl_batch s @ [(cmd, ch)])")
  case True
  then have "batchLoop marshal fault (Proposed (cmd, ch)) s = batch_flush marshal fault (s\<lparr>bl_batch := bl_batch s @ [(cmd, ch)]\<rparr>)"
    using assms(2) by (simp add: batchLoop_def)
  moreover have "accounted (ch # got) (batch_flush marshal fault (s\<lparr>bl_batch := bl_batch s @ [(cmd, ch)]\<rparr>))"
    by (rule batch_flush_accounted) (use assms in \<open>auto simp: accounted_def\<close>)
  ultimately show ?thesis by simp
next
  case False
  then have "batchLoop marshal fault (Proposed (cmd, ch)) s = s\<lparr>bl_batch := bl_batch s @ [(cmd, ch)]\<rparr>"
    using assms(2) by (simp add: batchLoop_def)
  then show ?thesis using assms False by (auto simp: accounted_def)
qed

lemma accounted_other:
  assumes "accounted got s" "LastIndex (rlog (bl_node s)) + 100 < 2 ^ 64" "ev = Ticked \<or> ev = StopSignal"
  shows "accounted got (batchLoop marshal fault ev s)"
proof -
  have "accounted got (batch_flush marshal fault s)" using assms by (intro batch_flush_accounted) (auto simp: accounted_def)
  moreover have "bl_batch (batch_flush marshal fault s) = []" by (simp add: batch_flush_def)
  ultimately show ?thesis using assms(1,3) accounted_running [of got "batch_flush marshal fault s" False] by (elim disjE) (simp_all add: batchLoop_def)
qed

lemma batch_run_accounted:
  assumes "batch_run marshal r0 s got" "log_wf (rlog r0)" "waiters r0 = Map.empty"
  shows "accounted got s"
  using assms(1)
proof induction
  case begin_run
  then show ?case using assms(2,3) by (simp add: accounted_def waiters_wf_def)
next
  case (take_request s got fault cmd ch)
  show ?case using take_request(4,2,3) by (rule accounted_request)
next
  case (other_event s got ev fault)
  show ?case using other_event(4,2,3) by (rule accounted_other)
next
  case (entry_applied s got order ujson sf now sm r due)
  have "waiters_wf (bl_node s)" using entry_applied(4) by (simp add: accounted_def)
  then have "waiters_wf r" using apply_one_known [OF entry_applied(2,3)] subset_trans [of "dom (waiters r)" "dom (waiters (bl_node s))"]
    by (simp add: waiters_wf_def)
  then show ?case using apply_one_known [OF entry_applied(2,3)] by (intro accounted_node [OF entry_applied(4)]) simp_all
next
  case (stepped_down s got order sf now t)
  have "waiters_wf (bl_node s)" using stepped_down(3) by (simp add: accounted_def)
  then show ?case using stepDown_known [OF stepped_down(2), of sf now t]
    by (intro accounted_node [OF stepped_down(3)]) (simp_all add: waiters_wf_def)
next
  case (node_changed s got r)
  have "waiters_wf (bl_node s)" using node_changed(6) by (simp add: accounted_def)
  then have "waiters_wf r" using node_changed(2-5) by (auto simp: waiters_wf_def)
  then show ?case using known_same [OF node_changed(2,3)] by (intro accounted_node [OF node_changed(6)]) simp_all
qed



section \<open>Callers of a node whose disk has failed\<close>

text \<open>
  What a node does after \<^verbatim>\<open>markFatalLocked\<close>: requests of other nodes, its election timer, its apply
  loop, snapshots, membership changes and batches, and the answers to messages it had sent before
  (votes, pre-votes, entries, heartbeats, snapshots) when they carry no higher term. \<open>served\<close> are the
  callers of those batches.
\<close>

inductive quarantined :: "nat set \<Rightarrow> 'sm RaftNode \<Rightarrow> 'sm RaftNode \<Rightarrow> bool" for served r0 where
  begin_quarantine: "quarantined served r0 r0"
| vote_asked: "quarantined served r0 r \<Longrightarrow> quarantined served r0 (fst (handleRequestVote sf1 sf2 now order req r))"
| entries_sent: "quarantined served r0 r \<Longrightarrow> quarantined served r0 (fst (processAppendEntries marshal pf af sf now order areq r))"
| snapshot_sent: "quarantined served r0 r \<Longrightarrow> quarantined served r0 (fst (handleInstallSnapshot marshal mjson sm pf wr ff sf now order ireq r))"
| timer_prevote: "quarantined served r0 r \<Longrightarrow> quarantined served r0 (fst (startPreVote now r))"
| timer_election: "quarantined served r0 r \<Longrightarrow> quarantined served r0 (fst (startElection sf now r))"
| apply_signal: "quarantined served r0 r \<Longrightarrow> applyEntriesLoop ujson sf now order sms r = Some r' \<Longrightarrow> quarantined served r0 r'"
| own_snapshot: "quarantined served r0 r \<Longrightarrow> quarantined served r0 (fst (takeSnapshot marshal mjson sm pf wr r))"
| member_change: "quarantined served r0 r \<Longrightarrow> quarantined served r0 (fst (ProposeMembershipChange marshal cjson af change r))"
| vote_answered: "quarantined served r0 r \<Longrightarrow> rvr_Term vresp \<le> currentTerm r \<Longrightarrow>
    quarantined served r0 (fst (electionResponse marshal af sf now order vresp b r))"
| prevote_answered: "quarantined served r0 r \<Longrightarrow> rvr_Term vresp \<le> u64 (b_term b + 2 ^ 64 - 1) \<Longrightarrow>
    quarantined served r0 (fst (preVoteResponse sf now order vresp b r))"
| entries_answered: "quarantined served r0 r \<Longrightarrow> aer_Term resp \<le> currentTerm r \<Longrightarrow>
    quarantined served r0 (fst (replicateTo_response sf now order peer ni sent resp r))"
| heartbeat_answered: "quarantined served r0 r \<Longrightarrow> aer_Term resp \<le> currentTerm r \<Longrightarrow>
    quarantined served r0 (heartbeat_response sf now order resp r)"
| chunk_answered: "quarantined served r0 r \<Longrightarrow> t \<le> currentTerm r \<Longrightarrow>
    quarantined served r0 (fst (sendSnapshot_response sf now order peer chunk t r))"
| change_done: "quarantined served r0 r \<Longrightarrow> quarantined served r0 (ProposeMembershipChange_finish r)"
| batch_flushed: "quarantined served r0 r \<Longrightarrow> snd ` set batch \<subseteq> served \<Longrightarrow> quarantined served r0 (flush marshal af batch r)"

lemma fatal_answers:
  assumes "fatalErr r = Some e"
  shows "fst (handleRequestVote sf1 sf2 now order req r) = r" "fst (processAppendEntries marshal pf af sf now order areq r) = r"
    "fst (startElection sf now r) = r" "fst (startPreVote now r) = r" "fst (takeSnapshot marshal mjson sm pf wr r) = r"
    "fst (handleInstallSnapshot marshal mjson sm pf wr ff sf now order ireq r) = r"
    "applyEntriesLoop ujson sf now order sms r = Some (r\<lparr>commitCh := False\<rparr>)"
  using assms by (simp_all add: handleRequestVote_eq processAppendEntries_eq startElection_eq startPreVote_def takeSnapshot_def
      handleInstallSnapshot_def applyEntriesLoop_def Let_def split: option.splits)

lemma quarantined_waits:
  assumes "quarantined served r0 r" "fatalErr r0 \<noteq> None" "state r0 = Follower"
  shows "fatalErr r \<noteq> None \<and> state r = Follower \<and> waiters r = waiters r0 \<and>
     (\<forall>ch. ch \<notin> served \<longrightarrow> filter (\<lambda>a. fst a = ch) (notified r) = filter (\<lambda>a. fst a = ch) (notified r0))"
  using assms
proof induction
  case (batch_flushed r batch marshal af)
  have "filter (\<lambda>a. fst a = ch) (map (\<lambda>(_, c). (c, Some ErrNotLeader)) batch) = []" if "ch \<notin> served" for ch
    using that batch_flushed.hyps(2) by (auto simp: filter_empty_conv)
  then show ?case using batch_flushed by (simp add: flush_def answer_all_def)
next
  case (apply_signal r ujson sf now order sms r')
  then show ?case using fatal_answers(7) [of r] by auto
next
  case (member_change r marshal cjson af change)
  then show ?case by (simp add: ProposeMembershipChange_def)
next
  case (vote_answered r vresp marshal af sf now order b)
  then show ?case by (simp add: electionResponse_eq sendRequestVote_answer_def)
next
  case (prevote_answered r vresp b sf now order)
  then show ?case by (simp add: preVoteResponse_def Let_def)
next
  case (entries_answered r resp sf now order peer ni sent)
  then show ?case by (simp add: replicateTo_response_def)
next
  case (heartbeat_answered r resp sf now order)
  then show ?case by (simp add: heartbeat_response_def)
next
  case (chunk_answered r t sf now order peer chunk)
  then show ?case by (simp add: sendSnapshot_response_def)
next
  case (change_done r)
  then show ?case by (simp add: ProposeMembershipChange_finish_def advanceCommitIndex_def)
qed (auto simp: fatal_answers)


text \<open>A leader with a caller waiting at its only entry; the seek of the next append fails.\<close>

definition stranded_leader :: "bytes RaftNode" where
  "stranded_leader = demo_lone\<lparr>waiters := [1 \<mapsto> 5],
     rlog := newRaftLog\<lparr>dataDir := ''d'', walFile := True, entries := [\<lparr>Index = 1, Term = 1, Type = EntryKV, Command = [7]\<rparr>]\<rparr>\<rparr>"


end
