(* ===== verification/KVHandler.thy ===== *)
theory KVHandler
  imports KVStore Membership GoFloat GRPC
begin

text \<open>
  The handlers of client requests (\<^verbatim>\<open>internal/server/kv_handler.go\<close>). The consensus module is the
  interface \<^verbatim>\<open>RaftProposer\<close>, a record of operations on a world \<open>'w\<close> that also holds the store; a
  call that waits may change the world. What the RPC of another server answers is the argument
  \<open>remote\<close>, a function of its address and, for a read, of whether the request carries the mark of a
  forwarded read. A panic is \<open>None\<close>.
\<close>

section \<open>Status codes\<close>

definition notFoundToGRPC :: "kv_error \<Rightarrow> grpc_error" where
  "notFoundToGRPC err =
     (if err = ErrKeyNotFound then Status NotFound ''key not found''
      else if err = ErrWrongType then Status FailedPrecondition ''wrong type operation against a key holding the wrong kind of value''
      else Status Internal [])"

section \<open>Interfaces\<close>

record 'w RaftProposer =
  rp_Propose :: "bytes \<Rightarrow> 'w \<Rightarrow> 'w \<times> raft_error option"
  rp_IsLeader :: "'w \<Rightarrow> bool"
  rp_ProposeMembershipChange :: "MembershipChange \<Rightarrow> 'w \<Rightarrow> 'w \<times> raft_error option"
  rp_ReadIndex :: "'w \<Rightarrow> 'w \<times> (raft_error + uint64)"
  rp_LeaderAddr :: "'w \<Rightarrow> string"
  rp_Term :: "'w \<Rightarrow> uint64"
  rp_State :: "'w \<Rightarrow> NodeState"
  rp_NodeID :: "'w \<Rightarrow> string"
  rd_store :: "'w \<Rightarrow> kvstore" \<comment> \<open>the store behind \<open>KVReader\<close>\<close>
  rd_put :: "kvstore \<Rightarrow> 'w \<Rightarrow> 'w"

text \<open>The cached connection to the leader, as the address it goes to.\<close>

record KVHandler =
  fwdAddr :: string
  fwdConn :: "string option"

definition newKVHandler :: KVHandler where
  "newKVHandler = \<lparr>fwdAddr = [], fwdConn = None\<rparr>"

definition handler_Close :: "KVHandler \<Rightarrow> KVHandler" where
  "handler_Close h = (if fwdConn h \<noteq> None then h\<lparr>fwdConn := None, fwdAddr := []\<rparr> else h)"

section \<open>Forwarding\<close>

text \<open>\<open>dialfails\<close> says whether \<^verbatim>\<open>grpc.NewClient\<close> fails; the client is the address it calls.\<close>

definition getLeaderClient :: "bool \<Rightarrow> string \<Rightarrow> KVHandler \<Rightarrow> KVHandler \<times> string option" where
  "getLeaderClient dialfails addr h =
     (let h1 = (if fwdConn h \<noteq> None \<and> fwdAddr h \<noteq> addr then h\<lparr>fwdConn := None\<rparr> else h)
      in case fwdConn h1 of
           Some a \<Rightarrow> (h1, Some a)
         | None \<Rightarrow> if dialfails then (h1, None) else (h1\<lparr>fwdConn := Some addr, fwdAddr := addr\<rparr>, Some addr))"

definition forward_to :: "bool \<Rightarrow> string \<Rightarrow> (string \<Rightarrow> grpc_error + 'a) \<Rightarrow> KVHandler \<Rightarrow> KVHandler \<times> (grpc_error + 'a)" where
  "forward_to dialfails leaderAddr remote h =
     (case getLeaderClient dialfails leaderAddr h of
        (h1, None) \<Rightarrow> (h1, Inl (Status Unavailable ''leader unreachable''))
      | (h1, Some client) \<Rightarrow> (h1, remote client))"

definition forwardWrite ::
  "'w RaftProposer \<Rightarrow> bool \<Rightarrow> (string \<Rightarrow> grpc_error + 'a) \<Rightarrow> 'w \<Rightarrow> KVHandler \<Rightarrow> KVHandler \<times> (grpc_error + 'a)" where
  "forwardWrite raft dialfails remote w h =
     (if rp_LeaderAddr raft w = [] then (h, Inl (Status FailedPrecondition ''not leader, no known leader''))
      else forward_to dialfails (rp_LeaderAddr raft w) remote h)"

text \<open>
  \<open>forwarded\<close> says whether the request carries the mark of a forwarded read. \<^verbatim>\<open>AppendToOutgoingContext\<close>
  sets it on the request that goes out, the argument \<open>True\<close> of \<open>remote\<close>.
\<close>

definition forwardRead ::
  "'w RaftProposer \<Rightarrow> bool \<Rightarrow> bool \<Rightarrow> (bool \<Rightarrow> string \<Rightarrow> grpc_error + 'a) \<Rightarrow> 'w \<Rightarrow> KVHandler \<Rightarrow> KVHandler \<times> (grpc_error + 'a)" where
  "forwardRead raft dialfails forwarded remote w h =
     (if forwarded then (h, Inl (Status Unavailable ''read forwarding limit reached''))
      else if rp_LeaderAddr raft w = [] then (h, Inl (Status Unavailable ''no known leader''))
      else forward_to dialfails (rp_LeaderAddr raft w) (remote True) h)"

definition propose ::
  "'w RaftProposer \<Rightarrow> (CommandPayload \<Rightarrow> bytes option) \<Rightarrow> string \<Rightarrow> string list \<Rightarrow> 'w \<Rightarrow> 'w \<times> grpc_error option" where
  "propose raft marshal op args w =
     (case marshal \<lparr>Op = op, Args = args\<rparr> of
        None \<Rightarrow> (w, Some (Status Internal ''proto marshal error''))
      | Some b \<Rightarrow>
          (case rp_Propose raft b w of
             (w1, None) \<Rightarrow> (w1, None)
           | (w1, Some err) \<Rightarrow>
               (w1, Some (if err = ErrNotLeader then Status FailedPrecondition ''not leader''
                          else if err = ErrProposeChannelFull then Status ResourceExhausted ''server is overloaded: propose channel is full''
                          else Status Internal ''propose error''))))"

section \<open>The two patterns\<close>

text \<open>
  What every handler gets from its surroundings: the consensus module, the codec of commands,
  the clock, whether dialling fails, whether the request was forwarded.
\<close>

record 'w handler_env =
  he_raft :: "'w RaftProposer"
  he_marshal :: "CommandPayload \<Rightarrow> bytes option"
  he_now :: gotime
  he_dialfails :: bool
  he_forwarded :: bool

type_synonym ('w, 'a) handled = "('w \<times> KVHandler \<times> (grpc_error + 'a)) option"

text \<open>A write: forward when this node does not lead, otherwise propose and answer.\<close>

definition write_handler ::
  "'w handler_env \<Rightarrow> (string \<Rightarrow> grpc_error + 'a) \<Rightarrow> string \<Rightarrow> string list \<Rightarrow> 'a \<Rightarrow> 'w \<Rightarrow> KVHandler \<Rightarrow> ('w, 'a) handled" where
  "write_handler env remote op args resp w h =
     (if \<not> rp_IsLeader (he_raft env) w
      then (case forwardWrite (he_raft env) (he_dialfails env) remote w h of (h1, res) \<Rightarrow> Some (w, h1, res))
      else case propose (he_raft env) (he_marshal env) op args w of
             (w1, Some e) \<Rightarrow> Some (w1, h, Inl e)
           | (w1, None) \<Rightarrow> Some (w1, h, Inr resp))"

text \<open>A read: confirm leadership, otherwise forward; then ask the store.\<close>

definition read_handler ::
  "'w handler_env \<Rightarrow> (bool \<Rightarrow> string \<Rightarrow> grpc_error + 'a) \<Rightarrow> (kvstore \<Rightarrow> (kvstore \<times> (kv_error + 'a)) option) \<Rightarrow> 'w \<Rightarrow> KVHandler \<Rightarrow> ('w, 'a) handled" where
  "read_handler env remote query w h =
     (case rp_ReadIndex (he_raft env) w of
        (w1, Inl _) \<Rightarrow>
          (case forwardRead (he_raft env) (he_dialfails env) (he_forwarded env) remote w1 h of (h1, res) \<Rightarrow> Some (w1, h1, res))
      | (w1, Inr _) \<Rightarrow>
          (case query (rd_store (he_raft env) w1) of
             None \<Rightarrow> None
           | Some (kv, Inl e) \<Rightarrow> Some (rd_put (he_raft env) kv w1, h, Inl (notFoundToGRPC e))
           | Some (kv, Inr v) \<Rightarrow> Some (rd_put (he_raft env) kv w1, h, Inr v)))"

definition expiryMilli :: "gotime \<Rightarrow> int64 \<Rightarrow> int64" where
  "expiryMilli now ttlMs = (if 0 < ttlMs then wrap64 (to_unix_milli now + ttlMs) else 0)"

section \<open>Strings\<close>

definition handle_Set :: "'w handler_env \<Rightarrow> (string \<Rightarrow> grpc_error + bool) \<Rightarrow> string \<Rightarrow> string \<Rightarrow> int64 \<Rightarrow> 'w \<Rightarrow> KVHandler \<Rightarrow> ('w, bool) handled" where
  "handle_Set env remote key val ttlMs =
     write_handler env remote ''SET'' [key, val, format_int (expiryMilli (he_now env) ttlMs)] True"

definition handle_Get :: "'w handler_env \<Rightarrow> (bool \<Rightarrow> string \<Rightarrow> grpc_error + string) \<Rightarrow> string \<Rightarrow> 'w \<Rightarrow> KVHandler \<Rightarrow> ('w, string) handled" where
  "handle_Get env remote key = read_handler env remote (\<lambda>kv. Some (str_Get (he_now env) key kv))"

definition handle_Delete :: "'w handler_env \<Rightarrow> (string \<Rightarrow> grpc_error + bool) \<Rightarrow> string \<Rightarrow> 'w \<Rightarrow> KVHandler \<Rightarrow> ('w, bool) handled" where
  "handle_Delete env remote key = write_handler env remote ''DEL'' [key] True"

text \<open>\<^verbatim>\<open>Incr\<close> and \<^verbatim>\<open>Decr\<close> read the counter after the command was applied, at the time \<open>now'\<close>.\<close>

definition counter_handler ::
  "string \<Rightarrow> 'w handler_env \<Rightarrow> gotime \<Rightarrow> (string \<Rightarrow> grpc_error + int64) \<Rightarrow> string \<Rightarrow> 'w \<Rightarrow> KVHandler \<Rightarrow> ('w, int64) handled" where
  "counter_handler op env now' remote key w h =
     (if \<not> rp_IsLeader (he_raft env) w
      then (case forwardWrite (he_raft env) (he_dialfails env) remote w h of (h1, res) \<Rightarrow> Some (w, h1, res))
      else case propose (he_raft env) (he_marshal env) op [key] w of
             (w1, Some e) \<Rightarrow> Some (w1, h, Inl e)
           | (w1, None) \<Rightarrow>
               (case str_Get now' key (rd_store (he_raft env) w1) of
                  (kv, Inl e) \<Rightarrow> Some (rd_put (he_raft env) kv w1, h, Inl (notFoundToGRPC e))
                | (kv, Inr s) \<Rightarrow> Some (rd_put (he_raft env) kv w1, h, Inr (fst (parse_int s)))))"

definition handle_Incr :: "'w handler_env \<Rightarrow> gotime \<Rightarrow> (string \<Rightarrow> grpc_error + int64) \<Rightarrow> string \<Rightarrow> 'w \<Rightarrow> KVHandler \<Rightarrow> ('w, int64) handled" where
  "handle_Incr = counter_handler ''INCR''"

definition handle_Decr :: "'w handler_env \<Rightarrow> gotime \<Rightarrow> (string \<Rightarrow> grpc_error + int64) \<Rightarrow> string \<Rightarrow> 'w \<Rightarrow> KVHandler \<Rightarrow> ('w, int64) handled" where
  "handle_Decr = counter_handler ''DECR''"

section \<open>Hashes\<close>

definition handle_HSet ::
  "'w handler_env \<Rightarrow> (string \<Rightarrow> grpc_error + bool) \<Rightarrow> string \<Rightarrow> string \<Rightarrow> string \<Rightarrow> int64 \<Rightarrow> 'w \<Rightarrow> KVHandler \<Rightarrow> ('w, bool) handled" where
  "handle_HSet env remote key field val ttlMs =
     write_handler env remote ''HSET'' [key, field, val, format_int (expiryMilli (he_now env) ttlMs)] True"

definition handle_HGet :: "'w handler_env \<Rightarrow> (bool \<Rightarrow> string \<Rightarrow> grpc_error + string) \<Rightarrow> string \<Rightarrow> string \<Rightarrow> 'w \<Rightarrow> KVHandler \<Rightarrow> ('w, string) handled" where
  "handle_HGet env remote key field = read_handler env remote (\<lambda>kv. Some (HGet (he_now env) key field kv))"

definition handle_HDelete :: "'w handler_env \<Rightarrow> (string \<Rightarrow> grpc_error + bool) \<Rightarrow> string \<Rightarrow> string \<Rightarrow> 'w \<Rightarrow> KVHandler \<Rightarrow> ('w, bool) handled" where
  "handle_HDelete env remote key field = write_handler env remote ''HDEL'' [key, field] True"

definition handle_HGetAll :: "'w handler_env \<Rightarrow> (bool \<Rightarrow> string \<Rightarrow> grpc_error + (string \<rightharpoonup> string)) \<Rightarrow> string \<Rightarrow> 'w \<Rightarrow> KVHandler \<Rightarrow> ('w, string \<rightharpoonup> string) handled" where
  "handle_HGetAll env remote key = read_handler env remote (\<lambda>kv. Some (HGetAll (he_now env) key kv))"

definition handle_HExists :: "'w handler_env \<Rightarrow> (bool \<Rightarrow> string \<Rightarrow> grpc_error + bool) \<Rightarrow> string \<Rightarrow> string \<Rightarrow> 'w \<Rightarrow> KVHandler \<Rightarrow> ('w, bool) handled" where
  "handle_HExists env remote key field = read_handler env remote (\<lambda>kv. Some (HExists (he_now env) key field kv))"

section \<open>Lists\<close>

definition handle_LPush :: "'w handler_env \<Rightarrow> (string \<Rightarrow> grpc_error + int64) \<Rightarrow> string \<Rightarrow> string list \<Rightarrow> int64 \<Rightarrow> 'w \<Rightarrow> KVHandler \<Rightarrow> ('w, int64) handled" where
  "handle_LPush env remote key vals ttlMs =
     write_handler env remote ''LPUSH'' ([key] @ vals @ [format_int (expiryMilli (he_now env) ttlMs)]) 0"

definition handle_RPush :: "'w handler_env \<Rightarrow> (string \<Rightarrow> grpc_error + int64) \<Rightarrow> string \<Rightarrow> string list \<Rightarrow> int64 \<Rightarrow> 'w \<Rightarrow> KVHandler \<Rightarrow> ('w, int64) handled" where
  "handle_RPush env remote key vals ttlMs =
     write_handler env remote ''RPUSH'' ([key] @ vals @ [format_int (expiryMilli (he_now env) ttlMs)]) 0"

text \<open>
  \<^verbatim>\<open>LPop\<close> and \<^verbatim>\<open>RPop\<close>: read the element, then propose its removal. An error of \<^verbatim>\<open>ReadIndex\<close> is
  returned as it is.
\<close>

definition pop_handler ::
  "string \<Rightarrow> int64 \<Rightarrow> 'w handler_env \<Rightarrow> (string \<Rightarrow> grpc_error + string) \<Rightarrow> string \<Rightarrow> 'w \<Rightarrow> KVHandler \<Rightarrow> ('w, string) handled" where
  "pop_handler op i env remote key w h =
     (if \<not> rp_IsLeader (he_raft env) w
      then (case forwardWrite (he_raft env) (he_dialfails env) remote w h of (h1, res) \<Rightarrow> Some (w, h1, res))
      else case rp_ReadIndex (he_raft env) w of
             (w1, Inl e) \<Rightarrow> Some (w1, h, Inl (RaftFailure e))
           | (w1, Inr _) \<Rightarrow>
               (case LRange (he_now env) key i i (rd_store (he_raft env) w1) of
                  None \<Rightarrow> None
                | Some (kv, Inl e) \<Rightarrow> Some (rd_put (he_raft env) kv w1, h, Inl (notFoundToGRPC e))
                | Some (kv, Inr []) \<Rightarrow> Some (rd_put (he_raft env) kv w1, h, Inl (Status NotFound ''list is empty''))
                | Some (kv, Inr (popVal # _)) \<Rightarrow>
                    (case propose (he_raft env) (he_marshal env) op [key] (rd_put (he_raft env) kv w1) of
                       (w2, Some e) \<Rightarrow> Some (w2, h, Inl e)
                     | (w2, None) \<Rightarrow> Some (w2, h, Inr popVal))))"

definition handle_LPop :: "'w handler_env \<Rightarrow> (string \<Rightarrow> grpc_error + string) \<Rightarrow> string \<Rightarrow> 'w \<Rightarrow> KVHandler \<Rightarrow> ('w, string) handled" where
  "handle_LPop = pop_handler ''LPOP'' 0"

definition handle_RPop :: "'w handler_env \<Rightarrow> (string \<Rightarrow> grpc_error + string) \<Rightarrow> string \<Rightarrow> 'w \<Rightarrow> KVHandler \<Rightarrow> ('w, string) handled" where
  "handle_RPop = pop_handler ''RPOP'' (- 1)"

definition handle_LRange ::
  "'w handler_env \<Rightarrow> (bool \<Rightarrow> string \<Rightarrow> grpc_error + string list) \<Rightarrow> string \<Rightarrow> int64 \<Rightarrow> int64 \<Rightarrow> 'w \<Rightarrow> KVHandler \<Rightarrow> ('w, string list) handled" where
  "handle_LRange env remote key start stop = read_handler env remote (LRange (he_now env) key start stop)"

definition handle_LLen :: "'w handler_env \<Rightarrow> (bool \<Rightarrow> string \<Rightarrow> grpc_error + int64) \<Rightarrow> string \<Rightarrow> 'w \<Rightarrow> KVHandler \<Rightarrow> ('w, int64) handled" where
  "handle_LLen env remote key = read_handler env remote (\<lambda>kv. Some (LLen (he_now env) key kv))"

section \<open>Sorted sets\<close>

text \<open>\<^verbatim>\<open>strconv.FormatFloat\<close> with the format \<^verbatim>\<open>'f'\<close> and the shortest digits.\<close>

definition format_f_pos :: "nat \<Rightarrow> string" where
  "format_f_pos mag =
     (let (ds, dp) = shortest_digits mag
      in if dp \<le> 0 then ''0.'' @ replicate (nat (- dp)) (CHR ''0'') @ ds
         else if int (length ds) \<le> dp then ds @ replicate (nat dp - length ds) (CHR ''0'')
         else take (nat dp) ds @ ''.'' @ drop (nat dp) ds)"

definition format_f :: "float64 \<Rightarrow> string" where
  "format_f f =
     (if f64_isNaN f then ''NaN''
      else if f64_magnitude f = inf_bits then (if f64_negative f then ''-Inf'' else ''+Inf'')
      else (if f64_negative f then ''-'' else '''') @
           (if f64_magnitude f = 0 then ''0'' else format_f_pos (f64_magnitude f)))"

definition handle_ZAdd ::
  "'w handler_env \<Rightarrow> (string \<Rightarrow> grpc_error + bool) \<Rightarrow> string \<Rightarrow> float64 \<Rightarrow> string \<Rightarrow> int64 \<Rightarrow> 'w \<Rightarrow> KVHandler \<Rightarrow> ('w, bool) handled" where
  "handle_ZAdd env remote key score member ttlMs =
     write_handler env remote ''ZADD'' [key, format_f score, member, format_int (expiryMilli (he_now env) ttlMs)] True"

definition handle_ZScore :: "'w handler_env \<Rightarrow> (bool \<Rightarrow> string \<Rightarrow> grpc_error + float64) \<Rightarrow> string \<Rightarrow> string \<Rightarrow> 'w \<Rightarrow> KVHandler \<Rightarrow> ('w, float64) handled" where
  "handle_ZScore env remote key member = read_handler env remote (\<lambda>kv. Some (ZScore (he_now env) key member kv))"

definition handle_ZRank :: "'w handler_env \<Rightarrow> (bool \<Rightarrow> string \<Rightarrow> grpc_error + int64) \<Rightarrow> string \<Rightarrow> string \<Rightarrow> 'w \<Rightarrow> KVHandler \<Rightarrow> ('w, int64) handled" where
  "handle_ZRank env remote key member = read_handler env remote (ZRank (he_now env) key member)"

definition handle_ZRange ::
  "'w handler_env \<Rightarrow> (bool \<Rightarrow> string \<Rightarrow> grpc_error + string list) \<Rightarrow> string \<Rightarrow> int64 \<Rightarrow> int64 \<Rightarrow> bool \<Rightarrow> 'w \<Rightarrow> KVHandler \<Rightarrow> ('w, string list) handled" where
  "handle_ZRange env remote key start stop ws = read_handler env remote (ZRange (he_now env) key start stop ws)"

definition handle_ZRevRange ::
  "'w handler_env \<Rightarrow> (bool \<Rightarrow> string \<Rightarrow> grpc_error + string list) \<Rightarrow> string \<Rightarrow> int64 \<Rightarrow> int64 \<Rightarrow> bool \<Rightarrow> 'w \<Rightarrow> KVHandler \<Rightarrow> ('w, string list) handled" where
  "handle_ZRevRange env remote key start stop ws = read_handler env remote (ZRevRange (he_now env) key start stop ws)"

definition handle_ZRem :: "'w handler_env \<Rightarrow> (string \<Rightarrow> grpc_error + bool) \<Rightarrow> string \<Rightarrow> string \<Rightarrow> 'w \<Rightarrow> KVHandler \<Rightarrow> ('w, bool) handled" where
  "handle_ZRem env remote key member = write_handler env remote ''ZREM'' [key, member] True"

section \<open>Membership and status\<close>

definition member_handler ::
  "'w handler_env \<Rightarrow> (string \<Rightarrow> grpc_error + bool) \<Rightarrow> MembershipChange \<Rightarrow> 'w \<Rightarrow> KVHandler \<Rightarrow> ('w, bool) handled" where
  "member_handler env remote change w h =
     (if \<not> rp_IsLeader (he_raft env) w
      then (case forwardWrite (he_raft env) (he_dialfails env) remote w h of (h1, res) \<Rightarrow> Some (w, h1, res))
      else case rp_ProposeMembershipChange (he_raft env) change w of
             (w1, Some _) \<Rightarrow> Some (w1, h, Inl (Status Internal ''membership change failed''))
           | (w1, None) \<Rightarrow> Some (w1, h, Inr True))"

definition handle_AddNode :: "'w handler_env \<Rightarrow> (string \<Rightarrow> grpc_error + bool) \<Rightarrow> string \<Rightarrow> string \<Rightarrow> 'w \<Rightarrow> KVHandler \<Rightarrow> ('w, bool) handled" where
  "handle_AddNode env remote nodeId address = member_handler env remote \<lparr>mc_Type = AddServer, mc_NodeID = nodeId, mc_Address = address\<rparr>"

definition handle_RemoveNode :: "'w handler_env \<Rightarrow> (string \<Rightarrow> grpc_error + bool) \<Rightarrow> string \<Rightarrow> 'w \<Rightarrow> KVHandler \<Rightarrow> ('w, bool) handled" where
  "handle_RemoveNode env remote nodeId = member_handler env remote \<lparr>mc_Type = RemoveServer, mc_NodeID = nodeId, mc_Address = []\<rparr>"

fun state_name :: "NodeState \<Rightarrow> string" where
  "state_name Follower = ''Follower''"
| "state_name Candidate = ''Candidate''"
| "state_name PreCandidate = ''PreCandidate''"
| "state_name Leader = ''Leader''"

definition handle_Ping :: "'w handler_env \<Rightarrow> 'w \<Rightarrow> string \<times> string \<times> uint64" where
  "handle_Ping env w = (rp_NodeID (he_raft env) w, state_name (rp_State (he_raft env) w), rp_Term (he_raft env) w)"

end
