(* ===== verification/Client.thy ===== *)
theory Client
  imports KVHandler
begin

text \<open>
  The client library (\<^verbatim>\<open>pkg/sdk/client.go\<close>): one call at a time of a \<^verbatim>\<open>Client\<close>, which remembers the
  leader and keeps one connection per address. The servers are the record \<open>'w KVService\<close>: what the
  RPC of an address does to the world \<open>'w\<close> and answers within the deadline of a call. Sleeping is a
  function on the world, too.
\<close>

section \<open>Services and errors\<close>

text \<open>Time as in Go, in nanoseconds.\<close>

definition Millisecond :: int64 where "Millisecond = 1000000"

definition rpcTimeout :: int64 where "rpcTimeout = 2000 * Millisecond"

type_synonym ('w, 'a) rpc = "string \<Rightarrow> 'w \<Rightarrow> 'w \<times> (grpc_error + 'a)"

text \<open>The RPCs of \<^verbatim>\<open>KVService\<close>; the first argument of each is the address.\<close>

record 'w KVService =
  svc_Set :: "string \<Rightarrow> string \<Rightarrow> int64 \<Rightarrow> ('w, bool) rpc"
  svc_Get :: "string \<Rightarrow> ('w, string) rpc"
  svc_Delete :: "string \<Rightarrow> ('w, bool) rpc"
  svc_Incr :: "string \<Rightarrow> ('w, int64) rpc"
  svc_Decr :: "string \<Rightarrow> ('w, int64) rpc"
  svc_HSet :: "string \<Rightarrow> string \<Rightarrow> string \<Rightarrow> int64 \<Rightarrow> ('w, bool) rpc"
  svc_HDelete :: "string \<Rightarrow> string \<Rightarrow> ('w, bool) rpc"
  svc_HGet :: "string \<Rightarrow> string \<Rightarrow> ('w, string) rpc"
  svc_HGetAll :: "string \<Rightarrow> ('w, string \<rightharpoonup> string) rpc"
  svc_HExists :: "string \<Rightarrow> string \<Rightarrow> ('w, bool) rpc"
  svc_LPush :: "string \<Rightarrow> string list \<Rightarrow> int64 \<Rightarrow> ('w, int64) rpc"
  svc_RPush :: "string \<Rightarrow> string list \<Rightarrow> int64 \<Rightarrow> ('w, int64) rpc"
  svc_LPop :: "string \<Rightarrow> ('w, string) rpc"
  svc_LRange :: "string \<Rightarrow> int64 \<Rightarrow> int64 \<Rightarrow> ('w, string list) rpc"
  svc_RPop :: "string \<Rightarrow> ('w, string) rpc"
  svc_LLen :: "string \<Rightarrow> ('w, int64) rpc"
  svc_ZAdd :: "string \<Rightarrow> float64 \<Rightarrow> string \<Rightarrow> int64 \<Rightarrow> ('w, bool) rpc"
  svc_ZRange :: "string \<Rightarrow> int64 \<Rightarrow> int64 \<Rightarrow> bool \<Rightarrow> ('w, string list) rpc"
  svc_ZScore :: "string \<Rightarrow> string \<Rightarrow> ('w, float64) rpc"
  svc_ZRank :: "string \<Rightarrow> string \<Rightarrow> ('w, int64) rpc"
  svc_ZRevRange :: "string \<Rightarrow> int64 \<Rightarrow> int64 \<Rightarrow> bool \<Rightarrow> ('w, string list) rpc"
  svc_ZRem :: "string \<Rightarrow> string \<Rightarrow> ('w, bool) rpc"
  svc_AddNode :: "string \<Rightarrow> string \<Rightarrow> ('w, bool) rpc"
  svc_RemoveNode :: "string \<Rightarrow> ('w, bool) rpc"
  svc_Ping :: "('w, string \<times> string \<times> uint64) rpc"

text \<open>
  What a call returns as an error: the error of an RPC, an error of \<^verbatim>\<open>grpc.NewClient\<close>, and the
  errors the library makes itself, the first of which carries the last error in its text.
\<close>

datatype client_error = RpcError grpc_error | DialError string | NoLeaderAfter client_error | NoLeader | NoNodes | ClusterUnreachable

record 'w client_env =
  ce_svc :: "'w KVService"
  ce_newclient :: "string \<Rightarrow> string option"
  ce_sleep :: "int64 \<Rightarrow> 'w \<Rightarrow> 'w"

section \<open>Connections\<close>

record Client =
  cl_nodes :: "string list"
  cl_leader :: string
  cl_conns :: "string set"

definition NewClient :: "string list \<Rightarrow> Client" where
  "NewClient nodes = \<lparr>cl_nodes = nodes, cl_leader = [], cl_conns = {}\<rparr>"

text \<open>\<open>closefails\<close> is the error of closing a connection, if any; the errors are joined.\<close>

definition Client_Close :: "(string \<Rightarrow> string option) \<Rightarrow> Client \<Rightarrow> Client \<times> (string \<times> string option) set" where
  "Client_Close closefails c =
     (c\<lparr>cl_conns := {}\<rparr>, (\<lambda>addr. (addr, closefails addr)) ` Set.filter (\<lambda>addr. closefails addr \<noteq> None) (cl_conns c))"

definition client_getConn :: "(string \<Rightarrow> string option) \<Rightarrow> string \<Rightarrow> Client \<Rightarrow> Client \<times> (client_error + string)" where
  "client_getConn newcl addr c =
     (if addr \<in> cl_conns c then (c, Inr addr)
      else case newcl addr of
             Some e \<Rightarrow> (c, Inl (DialError e))
           | None \<Rightarrow> (c\<lparr>cl_conns := insert addr (cl_conns c)\<rparr>, Inr addr))"

section \<open>Retrying\<close>

definition maxRetries :: nat where "maxRetries = 4"

definition candidates :: "Client \<Rightarrow> string list" where
  "candidates c = (if cl_leader c \<noteq> [] then [cl_leader c] else []) @ filter (\<lambda>n. n \<noteq> cl_leader c) (cl_nodes c)"

definition retryable_write :: "grpc_error \<Rightarrow> bool" where
  "retryable_write e \<longleftrightarrow> error_code e \<in> {FailedPrecondition, Unavailable, DeadlineExceeded, Canceled}"

definition isRetryableReadError :: "grpc_error \<Rightarrow> bool" where
  "isRetryableReadError e \<longleftrightarrow> error_code e = Unavailable \<or> error_code e = DeadlineExceeded"

text \<open>
  The inner loop of \<^verbatim>\<open>doWrite\<close>: \<open>None\<close> when every candidate failed, with the last error.
\<close>

fun write_round ::
  "'w client_env \<Rightarrow> ('w, 'a) rpc \<Rightarrow> string list \<Rightarrow> client_error option \<Rightarrow> 'w \<Rightarrow> Client \<Rightarrow>
     'w \<times> Client \<times> client_error option \<times> (client_error + 'a) option" where
  "write_round env rpc [] lastErr w c = (w, c, lastErr, None)"
| "write_round env rpc (addr # rest) lastErr w c =
     (case client_getConn (ce_newclient env) addr c of
        (c1, Inl e) \<Rightarrow> write_round env rpc rest (Some e) w c1
      | (c1, Inr conn) \<Rightarrow>
          (case rpc conn w of
             (w1, Inl e) \<Rightarrow>
               if retryable_write e then write_round env rpc rest (Some (RpcError e)) w1 c1
               else (w1, c1, Some (RpcError e), Some (Inl (RpcError e)))
           | (w1, Inr v) \<Rightarrow> (w1, c1\<lparr>cl_leader := addr\<rparr>, lastErr, Some (Inr v))))"

text \<open>The outer loop; the first argument counts the attempts that are left.\<close>

fun write_attempts :: "nat \<Rightarrow> 'w client_env \<Rightarrow> ('w, 'a) rpc \<Rightarrow> int64 \<Rightarrow> 'w \<Rightarrow> Client \<Rightarrow> 'w \<times> Client \<times> (client_error + 'a)" where
  "write_attempts 0 env rpc baseDelay w c = (w, c, Inl NoLeader)"
| "write_attempts (Suc n) env rpc baseDelay w c =
     (case write_round env rpc (candidates c) None w c of
        (w1, c1, lastErr, Some res) \<Rightarrow> (w1, c1, res)
      | (w1, c1, lastErr, None) \<Rightarrow>
          if 0 < n then write_attempts n env rpc (wrap64 (baseDelay * 2)) (ce_sleep env baseDelay w1) c1
          else case lastErr of
                 Some e \<Rightarrow> (w1, c1, Inl (NoLeaderAfter e))
               | None \<Rightarrow> write_attempts n env rpc baseDelay w1 c1)"

definition doWrite :: "'w client_env \<Rightarrow> ('w, 'a) rpc \<Rightarrow> 'w \<Rightarrow> Client \<Rightarrow> 'w \<times> Client \<times> (client_error + 'a)" where
  "doWrite env rpc w c = write_attempts maxRetries env rpc (50 * Millisecond) w c"

text \<open>\<^verbatim>\<open>doRead\<close> keeps the last error across attempts and never changes the leader it knows.\<close>

fun read_candidates ::
  "'w client_env \<Rightarrow> ('w, 'a) rpc \<Rightarrow> string list \<Rightarrow> client_error option \<Rightarrow> 'w \<Rightarrow> Client \<Rightarrow>
     'w \<times> Client \<times> client_error option \<times> (client_error + 'a) option" where
  "read_candidates env rpc [] lastErr w c = (w, c, lastErr, None)"
| "read_candidates env rpc (addr # rest) lastErr w c =
     (case client_getConn (ce_newclient env) addr c of
        (c1, Inl e) \<Rightarrow> (w, c1, lastErr, Some (Inl e))
      | (c1, Inr conn) \<Rightarrow>
          (case rpc conn w of
             (w1, Inr v) \<Rightarrow> (w1, c1, lastErr, Some (Inr v))
           | (w1, Inl e) \<Rightarrow>
               if \<not> isRetryableReadError e then (w1, c1, lastErr, Some (Inl (RpcError e)))
               else read_candidates env rpc rest (Some (RpcError e)) w1 c1))"

fun read_attempts ::
  "nat \<Rightarrow> 'w client_env \<Rightarrow> ('w, 'a) rpc \<Rightarrow> int64 \<Rightarrow> client_error option \<Rightarrow> 'w \<Rightarrow> Client \<Rightarrow> 'w \<times> Client \<times> (client_error + 'a)" where
  "read_attempts 0 env rpc baseDelay lastErr w c = (w, c, Inl (case lastErr of Some e \<Rightarrow> e | None \<Rightarrow> NoNodes))"
| "read_attempts (Suc n) env rpc baseDelay lastErr w c =
     (case read_candidates env rpc (candidates c) lastErr w c of
        (w1, c1, e1, Some res) \<Rightarrow> (w1, c1, res)
      | (w1, c1, e1, None) \<Rightarrow>
          if 0 < n \<and> e1 \<noteq> None then read_attempts n env rpc (wrap64 (baseDelay * 2)) e1 (ce_sleep env baseDelay w1) c1
          else read_attempts n env rpc baseDelay e1 w1 c1)"

definition doRead :: "'w client_env \<Rightarrow> ('w, 'a) rpc \<Rightarrow> 'w \<Rightarrow> Client \<Rightarrow> 'w \<times> Client \<times> (client_error + 'a)" where
  "doRead env rpc w c = read_attempts maxRetries env rpc (50 * Millisecond) None w c"

section \<open>The methods\<close>

type_synonym ('w, 'a) called = "'w \<Rightarrow> Client \<Rightarrow> 'w \<times> Client \<times> (client_error + 'a)"

text \<open>A duration in milliseconds: Go's division cuts towards zero.\<close>

definition to_millis :: "int64 \<Rightarrow> int64" where
  "to_millis ttl = (if ttl < 0 then - (- ttl div Millisecond) else ttl div Millisecond)"

subsection \<open>Strings\<close>

definition client_Set :: "'w client_env \<Rightarrow> string \<Rightarrow> string \<Rightarrow> int64 \<Rightarrow> ('w, bool) called" where
  "client_Set env key val ttl = doWrite env (svc_Set (ce_svc env) key val (to_millis ttl))"

definition client_Get :: "'w client_env \<Rightarrow> string \<Rightarrow> ('w, string) called" where
  "client_Get env key = doRead env (svc_Get (ce_svc env) key)"

definition client_Delete :: "'w client_env \<Rightarrow> string \<Rightarrow> ('w, bool) called" where
  "client_Delete env key = doWrite env (svc_Delete (ce_svc env) key)"

definition client_Incr :: "'w client_env \<Rightarrow> string \<Rightarrow> ('w, int64) called" where
  "client_Incr env key = doWrite env (svc_Incr (ce_svc env) key)"

definition client_Decr :: "'w client_env \<Rightarrow> string \<Rightarrow> ('w, int64) called" where
  "client_Decr env key = doWrite env (svc_Decr (ce_svc env) key)"

subsection \<open>Hashes\<close>

definition client_HSet :: "'w client_env \<Rightarrow> string \<Rightarrow> string \<Rightarrow> string \<Rightarrow> ('w, bool) called" where
  "client_HSet env key field val = doWrite env (svc_HSet (ce_svc env) key field val 0)"

definition client_HDelete :: "'w client_env \<Rightarrow> string \<Rightarrow> string \<Rightarrow> ('w, bool) called" where
  "client_HDelete env key field = doWrite env (svc_HDelete (ce_svc env) key field)"

definition client_HGet :: "'w client_env \<Rightarrow> string \<Rightarrow> string \<Rightarrow> ('w, string) called" where
  "client_HGet env key field = doRead env (svc_HGet (ce_svc env) key field)"

definition client_HGetAll :: "'w client_env \<Rightarrow> string \<Rightarrow> ('w, string \<rightharpoonup> string) called" where
  "client_HGetAll env key = doRead env (svc_HGetAll (ce_svc env) key)"

definition client_HExists :: "'w client_env \<Rightarrow> string \<Rightarrow> string \<Rightarrow> ('w, bool) called" where
  "client_HExists env key field = doRead env (svc_HExists (ce_svc env) key field)"

subsection \<open>Lists\<close>

definition client_LPush :: "'w client_env \<Rightarrow> string \<Rightarrow> string list \<Rightarrow> ('w, int64) called" where
  "client_LPush env key vals = doWrite env (svc_LPush (ce_svc env) key vals 0)"

definition client_RPush :: "'w client_env \<Rightarrow> string \<Rightarrow> string list \<Rightarrow> ('w, int64) called" where
  "client_RPush env key vals = doWrite env (svc_RPush (ce_svc env) key vals 0)"

definition client_LPop :: "'w client_env \<Rightarrow> string \<Rightarrow> ('w, string) called" where
  "client_LPop env key = doWrite env (svc_LPop (ce_svc env) key)"

definition client_LRange :: "'w client_env \<Rightarrow> string \<Rightarrow> int64 \<Rightarrow> int64 \<Rightarrow> ('w, string list) called" where
  "client_LRange env key start stop = doRead env (svc_LRange (ce_svc env) key start stop)"

definition client_RPop :: "'w client_env \<Rightarrow> string \<Rightarrow> ('w, string) called" where
  "client_RPop env key = doWrite env (svc_RPop (ce_svc env) key)"

definition client_LLen :: "'w client_env \<Rightarrow> string \<Rightarrow> ('w, int64) called" where
  "client_LLen env key = doRead env (svc_LLen (ce_svc env) key)"

subsection \<open>Sorted sets\<close>

definition client_ZAdd :: "'w client_env \<Rightarrow> string \<Rightarrow> float64 \<Rightarrow> string \<Rightarrow> ('w, bool) called" where
  "client_ZAdd env key score member = doWrite env (svc_ZAdd (ce_svc env) key score member 0)"

definition client_ZRange :: "'w client_env \<Rightarrow> string \<Rightarrow> int64 \<Rightarrow> int64 \<Rightarrow> ('w, string list) called" where
  "client_ZRange env key start stop = doRead env (svc_ZRange (ce_svc env) key start stop False)"

definition client_ZScore :: "'w client_env \<Rightarrow> string \<Rightarrow> string \<Rightarrow> ('w, float64) called" where
  "client_ZScore env key member = doRead env (svc_ZScore (ce_svc env) key member)"

definition client_ZRank :: "'w client_env \<Rightarrow> string \<Rightarrow> string \<Rightarrow> ('w, int64) called" where
  "client_ZRank env key member = doRead env (svc_ZRank (ce_svc env) key member)"

definition client_ZRevRange :: "'w client_env \<Rightarrow> string \<Rightarrow> int64 \<Rightarrow> int64 \<Rightarrow> ('w, string list) called" where
  "client_ZRevRange env key start stop = doRead env (svc_ZRevRange (ce_svc env) key start stop False)"

definition client_ZRem :: "'w client_env \<Rightarrow> string \<Rightarrow> string \<Rightarrow> ('w, bool) called" where
  "client_ZRem env key member = doWrite env (svc_ZRem (ce_svc env) key member)"

subsection \<open>Cluster management\<close>

text \<open>
  \<^verbatim>\<open>ClusterStatus\<close>: one ping per node, a row of the report per node, and an error when nobody
  answered. The pings run concurrently and only write the row of their node; here they run in the
  order of the nodes. The layout of the table is left out.
\<close>

datatype status_row = NodeUp string string string uint64 | NodeDown string

fun ping_nodes :: "'w client_env \<Rightarrow> string list \<Rightarrow> 'w \<Rightarrow> Client \<Rightarrow> 'w \<times> Client \<times> status_row list" where
  "ping_nodes env [] w c = (w, c, [])"
| "ping_nodes env (addr # rest) w c =
     (let (w1, c1, row) =
        (case client_getConn (ce_newclient env) addr c of
           (c1, Inl e) \<Rightarrow> (w, c1, NodeDown addr)
         | (c1, Inr conn) \<Rightarrow>
             (case svc_Ping (ce_svc env) conn w of
                (w1, Inl e) \<Rightarrow> (w1, c1, NodeDown addr)
              | (w1, Inr (nodeId, st, trm)) \<Rightarrow> (w1, c1, NodeUp addr nodeId st trm)));
          (w2, c2, rows) = ping_nodes env rest w1 c1
      in (w2, c2, row # rows))"

fun row_up :: "status_row \<Rightarrow> bool" where
  "row_up (NodeUp _ _ _ _) = True"
| "row_up (NodeDown _) = False"

definition client_ClusterStatus :: "'w client_env \<Rightarrow> 'w \<Rightarrow> Client \<Rightarrow> 'w \<times> Client \<times> status_row list \<times> client_error option" where
  "client_ClusterStatus env w c =
     (case ping_nodes env (cl_nodes c) w c of
        (w1, c1, rows) \<Rightarrow> (w1, c1, rows, if list_ex row_up rows then None else Some ClusterUnreachable))"

definition client_AddNode :: "'w client_env \<Rightarrow> string \<Rightarrow> string \<Rightarrow> ('w, bool) called" where
  "client_AddNode env nodeID addr = doWrite env (svc_AddNode (ce_svc env) nodeID addr)"

definition client_RemoveNode :: "'w client_env \<Rightarrow> string \<Rightarrow> ('w, bool) called" where
  "client_RemoveNode env nodeID = doWrite env (svc_RemoveNode (ce_svc env) nodeID)"

end
