(* ===== verification/Replica.thy ===== *)
theory Replica
  imports KVProps RestartProps
begin

text \<open>
  A node with the key-value store as its state machine, as \<^verbatim>\<open>cmd/server\<close> puts them together:
  the interface the consensus module has on a state machine, its interpretation on
  \<^verbatim>\<open>KVStore\<close>, and what follows for the databases of the replicas.
\<close>

section \<open>Interface\<close>

text \<open>The entries of a log as a specification sees them, and logs on which it is implemented.\<close>

fun clean_log :: "(LogEntry \<Rightarrow> 'd \<Rightarrow> bool) \<Rightarrow> (LogEntry \<Rightarrow> 'd \<Rightarrow> 'd) \<Rightarrow> LogEntry list \<Rightarrow> 'd \<Rightarrow> bool" where
  "clean_log clean spec [] d \<longleftrightarrow> True"
| "clean_log clean spec (e # es) d \<longleftrightarrow> clean e d \<and> clean_log clean spec es (spec e d)"

locale log_machine =
  fixes machine :: "uint64 \<Rightarrow> 's StateMachine" and ok :: "'s \<Rightarrow> bool" and abs :: "'s \<Rightarrow> 'd"
    and spec :: "LogEntry \<Rightarrow> 'd \<Rightarrow> 'd" and clean :: "LogEntry \<Rightarrow> 'd \<Rightarrow> bool"
  assumes apply_refines: "ok s \<Longrightarrow> clean e (abs s) \<Longrightarrow> Type e \<noteq> EntryMembership \<Longrightarrow>
      \<exists>s' err. sm_Apply (machine (Index e)) e s = Some (s', err) \<and> ok s' \<and> abs s' = spec e (abs s)"
    and membership_keeps: "Type e = EntryMembership \<Longrightarrow> spec e d = d"
begin

lemma run_refines:
  assumes "ok s" "clean_log clean spec es (abs s)"
  shows "\<exists>s' errs. run_log machine es s = Some (s', errs) \<and> ok s' \<and> abs s' = fold spec es (abs s)"
  using assms
proof (induction es arbitrary: s)
  case (Cons e es)
  show ?case
  proof (cases "Type e = EntryMembership")
    case True
    obtain s' errs where "run_log machine es s = Some (s', errs)" "ok s'" "abs s' = fold spec es (abs s)"
      using Cons membership_keeps [OF True] by fastforce
    then show ?thesis using True membership_keeps by auto
  next
    case False
    obtain s1 err where s1: "sm_Apply (machine (Index e)) e s = Some (s1, err)" "ok s1" "abs s1 = spec e (abs s)"
      using apply_refines [OF Cons.prems(1) _ False] Cons.prems(2) by auto
    obtain s' errs where "run_log machine es s1 = Some (s', errs)" "ok s'" "abs s' = fold spec es (abs s1)"
      using Cons.IH [OF s1(2)] Cons.prems(2) s1(3) by auto
    then show ?thesis using False s1 by auto
  qed
qed simp

text \<open>The node does what the specification does with the entries it has not applied.\<close>

lemma node_refines:
  assumes "may_apply r" "lastApplied r \<le> commitIndex r" "ok (stateMachine r)" "clean_log clean spec (unapplied r) (abs (stateMachine r))"
  shows "\<exists>r'. apply_entries ujson sf now order machine r = Some r' \<and> ok (stateMachine r') \<and> lastApplied r' = commitIndex r \<and>
     abs (stateMachine r') = fold spec (unapplied r) (abs (stateMachine r))"
proof -
  obtain s' errs where s': "run_log machine (unapplied r) (stateMachine r) = Some (s', errs)" "ok s'" "abs s' = fold spec (unapplied r) (abs (stateMachine r))"
    using run_refines [OF assms(3,4)] by blast
  have a: "map_option stateMachine (apply_entries ujson sf now order machine r) = Some s'"
    "\<forall>r'. apply_entries ujson sf now order machine r = Some r' \<longrightarrow> lastApplied r' = max (lastApplied r) (commitIndex r)"
    using apply_entries_run [OF assms(1), of ujson sf now order machine] s'(1) by auto
  then obtain r' where "apply_entries ujson sf now order machine r = Some r'" "stateMachine r' = s'" by auto
  then show ?thesis using a(2) s'(2,3) assms(2) by auto
qed

end

section \<open>The key-value store as a state machine\<close>

text \<open>An error of the store reaches the consensus module as its text.\<close>

fun error_text :: "kv_error \<Rightarrow> string" where
  "error_text ErrKeyNotFound = ''key not found''"
| "error_text ErrWrongType = ''wrong type operation against a key holding the wrong kind of value''"
| "error_text kv_error.ErrOutOfRange = ''index out of range''"
| "error_text ErrEmptyList = ''list is empty''"
| "error_text ErrUnknownCommand = ''unknown command''"
| "error_text ErrInvalidArgs = ''wrong number or type of arguments''"
| "error_text ErrProto = ''proto''"

definition as_error :: "kv_error \<Rightarrow> raft_error" where
  "as_error e = OtherError (error_text e)"

text \<open>
  The codecs of commands and snapshots, and for each call the random draws and the readings of
  the clock.
\<close>

record store_env =
  env_unmarshal :: "bytes \<Rightarrow> CommandPayload option"
  env_marshal_snap :: "SnapshotMsg \<Rightarrow> bytes option"
  env_unmarshal_snap :: "bytes \<Rightarrow> SnapshotMsg option"
  env_coin :: "uint64 \<Rightarrow> nat \<Rightarrow> bool"
  env_coins :: "string \<Rightarrow> nat \<Rightarrow> nat \<Rightarrow> bool"
  env_clock :: "uint64 \<Rightarrow> gotime \<times> gotime"

definition kv_machine :: "store_env \<Rightarrow> uint64 \<Rightarrow> kvstore StateMachine" where
  "kv_machine env i =
     \<lparr>sm_Apply = (\<lambda>e kv. map_option (apsnd (map_option as_error))
        (Apply (env_unmarshal env) (env_coin env i) (fst (env_clock env i)) (snd (env_clock env i)) e kv)),
      sm_Snapshot = (\<lambda>kv. map_sum as_error id (Snapshot (env_marshal_snap env) kv)),
      sm_Restore = (\<lambda>data kv. apsnd (map_option as_error) (Restore (env_unmarshal_snap env) (env_coins env) data kv))\<rparr>"

definition spec_entry :: "store_env \<Rightarrow> LogEntry \<Rightarrow> db \<Rightarrow> db" where
  "spec_entry env e d =
     (if Type e \<noteq> EntryKV then d
      else case env_unmarshal env (Command e) of
             None \<Rightarrow> d
           | Some p \<Rightarrow> fst (spec_command (fst (env_clock env (Index e))) (snd (env_clock env (Index e))) p d))"

definition clean_entry :: "store_env \<Rightarrow> LogEntry \<Rightarrow> db \<Rightarrow> bool" where
  "clean_entry env e d \<longleftrightarrow>
     (Type e = EntryKV \<longrightarrow> (case env_unmarshal env (Command e) of None \<Rightarrow> True | Some p \<Rightarrow> clean_command (fst (env_clock env (Index e))) p d))"

interpretation kv: log_machine "kv_machine env" kv_wf abs_kv "spec_entry env" "clean_entry env"
  for env
proof
  fix s e
  assume ok: "kv_wf s" "clean_entry env e (abs_kv s)"
  show "\<exists>s' err. sm_Apply (kv_machine env (Index e)) e s = Some (s', err) \<and> kv_wf s' \<and> abs_kv s' = spec_entry env e (abs_kv s)"
  proof (cases "Type e \<noteq> EntryKV \<or> env_unmarshal env (Command e) = None")
    case True
    then show ?thesis using ok(1) by (auto simp: kv_machine_def Apply_def spec_entry_def)
  next
    case False
    then obtain p where p: "Type e = EntryKV" "env_unmarshal env (Command e) = Some p" by auto
    then have "clean_command (fst (env_clock env (Index e))) p (abs_kv s)" using ok(2) by (simp add: clean_entry_def)
    from apply_command_refines [OF ok(1) this, of "env_coin env (Index e)" "snd (env_clock env (Index e))"]
    show ?thesis using p by (auto simp: refines_def kv_machine_def Apply_def spec_entry_def)
  qed
qed (simp add: spec_entry_def EntryKV_def EntryMembership_def)

section \<open>Replicas\<close>

text \<open>The clocks of two replicas agree on which of the addressed keys have expired.\<close>

fun agreeing_clocks :: "store_env \<Rightarrow> store_env \<Rightarrow> LogEntry list \<Rightarrow> db \<Rightarrow> bool" where
  "agreeing_clocks env1 env2 [] d \<longleftrightarrow> True"
| "agreeing_clocks env1 env2 (e # es) d \<longleftrightarrow>
     (Type e = EntryKV \<longrightarrow> (case env_unmarshal env1 (Command e) of
        None \<Rightarrow> True
      | Some p \<Rightarrow> same_verdict (env_clock env1 (Index e)) (env_clock env2 (Index e)) p d)) \<and>
     agreeing_clocks env1 env2 es (spec_entry env1 e d)"

lemma agreeing_step:
  assumes "env_unmarshal env2 = env_unmarshal env1" "agreeing_clocks env1 env2 (e # es) d"
  shows "spec_entry env2 e d = spec_entry env1 e d" "clean_entry env2 e d = clean_entry env1 e d"
proof -
  show "spec_entry env2 e d = spec_entry env1 e d"
    using assms spec_command_clock [of "fst (env_clock env1 (Index e))" "snd (env_clock env1 (Index e))" "fst (env_clock env2 (Index e))" "snd (env_clock env2 (Index e))" _ d]
    by (auto simp: spec_entry_def split: option.splits)
  show "clean_entry env2 e d = clean_entry env1 e d"
    using assms clean_command_clock [of "env_clock env1 (Index e)" "env_clock env2 (Index e)" _ d]
    by (auto simp: clean_entry_def split: option.splits)
qed

lemma agreeing_log:
  assumes "env_unmarshal env2 = env_unmarshal env1" "agreeing_clocks env1 env2 es d"
  shows "fold (spec_entry env2) es d = fold (spec_entry env1) es d \<and>
     clean_log (clean_entry env2) (spec_entry env2) es d = clean_log (clean_entry env1) (spec_entry env1) es d"
  using assms(2)
proof (induction es arbitrary: d)
  case (Cons e es)
  show ?case using Cons agreeing_step [OF assms(1) Cons.prems] by simp
qed simp

text \<open>
  C6: replicas hold the same database. Two nodes that hold the same database and have the same
  committed entries left to apply run their apply loops to the end, whatever random draws their
  skip lists make, and hold the same well-formed database afterwards, as long as their clocks
  agree on which of the addressed keys have expired and no entry is one of the excepted commands:
  \<^verbatim>\<open>DEL\<close> of a key that holds no string, a write over an expired value of another type, \<^verbatim>\<open>ZADD\<close> with
  the score NaN.
\<close>

theorem replicas_agree:
  assumes r1: "may_apply r1" "lastApplied r1 \<le> commitIndex r1" "kv_wf (stateMachine r1)" and r2: "may_apply r2" "lastApplied r2 \<le> commitIndex r2" "kv_wf (stateMachine r2)"
    and same: "unapplied r1 = unapplied r2" "abs_kv (stateMachine r1) = abs_kv (stateMachine r2)" "env_unmarshal env2 = env_unmarshal env1"
    and cl: "clean_log (clean_entry env1) (spec_entry env1) (unapplied r1) (abs_kv (stateMachine r1))" "agreeing_clocks env1 env2 (unapplied r1) (abs_kv (stateMachine r1))"
  shows "\<exists>r1' r2'. apply_entries ujson sf1 now1 order1 (kv_machine env1) r1 = Some r1' \<and> apply_entries ujson sf2 now2 order2 (kv_machine env2) r2 = Some r2' \<and>
     abs_kv (stateMachine r1') = abs_kv (stateMachine r2') \<and> kv_wf (stateMachine r1') \<and> kv_wf (stateMachine r2') \<and>
     lastApplied r1' = commitIndex r1 \<and> lastApplied r2' = commitIndex r2"
proof -
  note a = agreeing_log [OF same(3) cl(2)]
  have c2: "clean_log (clean_entry env2) (spec_entry env2) (unapplied r2) (abs_kv (stateMachine r2))" using a cl(1) same(1,2) by simp
  obtain r1' where r1': "apply_entries ujson sf1 now1 order1 (kv_machine env1) r1 = Some r1'" "kv_wf (stateMachine r1')" "lastApplied r1' = commitIndex r1"
      "abs_kv (stateMachine r1') = fold (spec_entry env1) (unapplied r1) (abs_kv (stateMachine r1))"
    using kv.node_refines [OF r1 cl(1)] by blast
  obtain r2' where r2': "apply_entries ujson sf2 now2 order2 (kv_machine env2) r2 = Some r2'" "kv_wf (stateMachine r2')" "lastApplied r2' = commitIndex r2"
      "abs_kv (stateMachine r2') = fold (spec_entry env2) (unapplied r2) (abs_kv (stateMachine r2))"
    using kv.node_refines [OF r2 c2] by blast
  have "abs_kv (stateMachine r1') = abs_kv (stateMachine r2')" using r1'(4) r2'(4) a same(1,2) by simp
  then show ?thesis using r1' r2' by blast
qed

definition demo_env :: "bool \<Rightarrow> gotime \<Rightarrow> store_env" where
  "demo_env c now = \<lparr>env_unmarshal = (\<lambda>_. Some \<lparr>Op = ''SET'', Args = [''k'', ''v'']\<rparr>), env_marshal_snap = (\<lambda>_. Some [1]), env_unmarshal_snap = (\<lambda>_. None),
     env_coin = (\<lambda>_ _. c), env_coins = (\<lambda>_ _ _. c), env_clock = (\<lambda>_. (now, now))\<rparr>"

definition demo_store :: "string \<Rightarrow> kvstore RaftNode" where
  "demo_store n =
     (new_node 0 (demo_cfg n) (newPersistentState ''./data'' None) newRaftLog NewKVStore \<lparr>nf_state = None, nf_wal = None, nf_snapshot = None, nf_meta = None\<rparr>)
       \<lparr>rlog := demo_log, commitIndex := 2\<rparr>"

theorem replicas_agree_witness:
  "\<exists>r1' r2'. apply_entries (\<lambda>_. None) False 0 [] (kv_machine (demo_env True 5)) (demo_store ''a'') = Some r1' \<and>
     apply_entries (\<lambda>_. None) False 0 [] (kv_machine (demo_env False 9)) (demo_store ''b'') = Some r2' \<and> abs_kv (stateMachine r1') = abs_kv (stateMachine r2')"
proof -
  have d: "may_apply (demo_store n)" "lastApplied (demo_store n) \<le> commitIndex (demo_store n)" "stateMachine (demo_store n) = NewKVStore" for n
    by (simp_all add: may_apply_def demo_store_def new_node_def demo_log_wf)
  have w: "kv_wf (stateMachine (demo_store n))" for n by (simp add: d kv_wf_NewKVStore)
  have u: "unapplied (demo_store n) = [\<lparr>Index = 1, Term = 1, Type = EntryKV, Command = [7]\<rparr>, \<lparr>Index = 2, Term = 1, Type = EntryKV, Command = [8]\<rparr>]" for n
    by (simp add: unapplied_def demo_store_def new_node_def demo_log_def newRaftLog_def)
  have c: "clean_log (clean_entry (demo_env True 5)) (spec_entry (demo_env True 5)) (unapplied (demo_store ''a'')) (abs_kv (stateMachine (demo_store ''a'')))"
    "agreeing_clocks (demo_env True 5) (demo_env False 9) (unapplied (demo_store ''a'')) (abs_kv (stateMachine (demo_store ''a'')))"
    by (simp_all add: u d abs_NewKVStore clean_entry_def spec_entry_def demo_env_def clean_command_def same_verdict_def spec_command_def spec_write_def
        purge_def parseAbsoluteMs_def ms_expiry_def expired_at_def written_type_def Let_def)
  have "env_unmarshal (demo_env False 9) = env_unmarshal (demo_env True 5)" by (simp add: demo_env_def)
  from replicas_agree [OF d(1,2) w d(1,2) w _ _ this c] show ?thesis by (simp add: u d(3)) blast
qed

section \<open>Catching up with a snapshot\<close>

lemma restored_database:
  assumes "kv_wf kv" "ms_aligned kv" "\<And>s b. env_marshal_snap env1 s = Some b \<Longrightarrow> \<exists>s'. env_unmarshal_snap env2 b = Some s' \<and> snap_equiv s s'"
    and "env_unmarshal_snap env2 [] = Some (snapshot_msg NewKVStore)"
    and "sm_Snapshot (kv_machine env1 i) kv = Inr data" "sm_Restore (kv_machine env2 j) data old = (s', None)"
  shows "(data \<noteq> [] \<longrightarrow> kv_wf s' \<and> abs_kv s' = abs_kv kv) \<and> (data = [] \<longrightarrow> abs_kv kv = Map.empty \<and> s' = old)"
proof -
  have m: "env_marshal_snap env1 (snapshot_msg kv) = Some data" using assms(5) by (auto simp: kv_machine_def Snapshot_def split: option.splits)
  then obtain s where s: "env_unmarshal_snap env2 data = Some s" "snap_equiv (snapshot_msg kv) s" using assms(3) by blast
  have "data \<noteq> [] \<longrightarrow> s' = restore_msg (env_coins env2) s" using assms(6) s(1) by (auto simp: kv_machine_def Restore_def)
  moreover have "data = [] \<longrightarrow> s' = old" using assms(6) by (auto simp: kv_machine_def Restore_def)
  moreover have "abs_kv kv = Map.empty" if "data = []" using empty_snapshot [where marshal = "env_marshal_snap env1" and unmarshal = "env_unmarshal_snap env2", OF assms(1,2,3,4)] m that by blast
  ultimately show ?thesis using restore_row [OF assms(1,2) s(2), of "env_coins env2"] by (auto simp: kv_wf_def)
qed

text \<open>
  C15: a follower that is too far behind gets the leader's database, if it is not empty. When the
  leader takes a snapshot of its store, whose expirations are at whole milliseconds, and sends it in
  chunks of any size, a follower that may install it accepts every chunk and continues at the
  leader's last applied index. If the encoding of the snapshot is not empty, its store is then
  well-formed and represents the database the leader had; if it is empty, so is the leader's
  database, and the follower's store stays as it was. The hypotheses on the codec are that it keeps
  a snapshot message up to the order of the fields of a hash and decodes no bytes as empty maps.
\<close>

theorem snapshot_gives_leaders_database:
  assumes snap: "takeSnapshot marshal mjson (kv_machine env1 i) None None r0 = (leader, None)" "LastIncludedIndex (snapshotMeta r0) < lastApplied r0"
      "fatalErr r0 = None" "DataDir (config r0) \<noteq> []"
    and store: "kv_wf (stateMachine r0)" "ms_aligned (stateMachine r0)" "sm_Snapshot (kv_machine env1 i) (stateMachine r0) = Inr data"
    and codec: "\<And>s b. env_marshal_snap env1 s = Some b \<Longrightarrow> \<exists>s'. env_unmarshal_snap env2 b = Some s' \<and> snap_equiv s s'"
      "env_unmarshal_snap env2 [] = Some (snapshot_msg NewKVStore)"
    and send: "sendSnapshot_start leader = Inr (t, meta, data')" "validateSnapshotMeta meta = None" "distinct (map fst (ClusterConfig meta))"
    and follower: "may_install marshal' mjson' (kv_machine env2 j) t meta data' r l' s'" "installSnapshot r = None"
  shows "\<exists>r' es. install_all marshal' mjson' (kv_machine env2 j) now (chunk_requests (config leader) t meta data' 0) r = (r', es) \<and> set es \<subseteq> {None} \<and>
     (data \<noteq> [] \<longrightarrow> kv_wf (stateMachine r') \<and> abs_kv (stateMachine r') = abs_kv (stateMachine r0)) \<and>
     (data = [] \<longrightarrow> abs_kv (stateMachine r0) = Map.empty \<and> stateMachine r' = stateMachine r) \<and>
     lastApplied r' = lastApplied r0 \<and> clusterConfig r' = clusterConfig r0"
proof -
  have l: "snapshotData leader = data" "LastIncludedIndex (snapshotMeta leader) = lastApplied r0" "ClusterConfig (snapshotMeta leader) = clusterConfig r0"
    using takeSnapshot_ok [OF snap store(3)] by (auto simp: meta_at_def)
  have d: "data' = data" "meta = snapshotMeta leader" using send(1) l(1) by (auto simp: sendSnapshot_start_def split: if_splits)
  have "sm_Restore (kv_machine env2 j) data (stateMachine r) = (s', None)" using follower(1) by (simp add: may_install_def d)
  then have s': "(data \<noteq> [] \<longrightarrow> kv_wf s' \<and> abs_kv s' = abs_kv (stateMachine r0)) \<and> (data = [] \<longrightarrow> abs_kv (stateMachine r0) = Map.empty \<and> s' = stateMachine r)"
    using restored_database [OF store(1,2) codec store(3)] by blast
  show ?thesis
    using transfer_from [OF follower(1) send(2,3), of 0 now "config leader"] follower(2) s' l(2,3) d(2) by auto
qed

definition demo_kv :: kvstore where
  "demo_kv = put_string ''k'' ''v'' None NewKVStore"

definition demo_snap_env :: store_env where
  "demo_snap_env = (demo_env True 5)\<lparr>env_marshal_snap := (\<lambda>s. if s = snapshot_msg demo_kv then Some [1] else None), 
    env_unmarshal_snap := (\<lambda>b. Some (snapshot_msg (if b = [] then NewKVStore else demo_kv)))\<rparr>"

definition demo_head :: "kvstore RaftNode" where
  "demo_head = (demo_store ''a'')\<lparr>state := Leader, currentTerm := 1, lastApplied := 2, stateMachine := demo_kv\<rparr>"

lemma demo_head_fields:
  "lastApplied demo_head = 2" "stateMachine demo_head = demo_kv" "fatalErr demo_head = None" "LastIncludedIndex (snapshotMeta demo_head) = 0"
  "DataDir (config demo_head) = ''./data''" "rlog demo_head = demo_log" "state demo_head = Leader" "currentTerm demo_head = 1" "clusterConfig demo_head = demo_peers"
  by (simp_all add: demo_head_def demo_store_def new_node_def demo_cfg_def DefaultConfig_def demo_peers_def)

lemma demo_kv_ok: "kv_wf demo_kv" "ms_aligned demo_kv" "snap_equiv (snapshot_msg demo_kv) (snapshot_msg demo_kv)"
proof -
  show "kv_wf demo_kv" unfolding demo_kv_def by (rule put_string_ok [OF kv_wf_NewKVStore]) (simp add: only_type_def NewKVStore_def)
  show "ms_aligned demo_kv" "snap_equiv (snapshot_msg demo_kv) (snapshot_msg demo_kv)"
    by (simp_all add: demo_kv_def ms_aligned_def snap_equiv_def snapshot_msg_def put_string_def NewKVStore_def)
qed

theorem snapshot_gives_leaders_database_witness:
  "\<exists>leader r' es. takeSnapshot (\<lambda>_. []) demo_mjson (kv_machine demo_snap_env 0) None None demo_head = (leader, None) \<and>
     install_all (\<lambda>_. []) demo_mjson (kv_machine demo_snap_env 0) 0 (chunk_requests (config leader) 1 (snapshotMeta leader) [1] 0) ((demo_store ''b'')\<lparr>rlog := newRaftLog, commitIndex := 0\<rparr>) = (r', es) \<and>
     abs_kv (stateMachine r') = abs_kv demo_kv \<and> lastApplied r' = 2"
proof -
  let ?r = "(demo_store ''b'')\<lparr>rlog := newRaftLog, commitIndex := 0\<rparr>" and ?sm = "kv_machine demo_snap_env 0"
  have m: "sm_Snapshot ?sm demo_kv = Inr [1]" "sm_Restore ?sm [1] (stateMachine ?r) = (restore_msg (env_coins demo_snap_env) (snapshot_msg demo_kv), None)"
    by (simp_all add: kv_machine_def demo_snap_env_def Snapshot_def Restore_def)
  have "TermAt 2 demo_log = Inr 1" "\<exists>l. CompactUpTo (\<lambda>_. []) None 2 demo_log = (l, None)"
    by (simp_all add: TermAt_def termAtLocked_def CompactUpTo_def demo_log_def newRaftLog_def persistStateToDiskLocked_def Let_def)
  then obtain leader where l: "takeSnapshot (\<lambda>_. []) demo_mjson ?sm None None demo_head = (leader, None)" "snapshotMeta leader = meta_at 1 demo_head"
      "snapshotData leader = [1]" "state leader = Leader" "currentTerm leader = 1"
    using demo_head_fields m(1) demo_codec(3)
    by (auto simp: takeSnapshot_def persistSnapshot_def encodeSnapshotArtifact_def atomicWrite_def meta_at_def Let_def simp flip: not_le)
  have send: "sendSnapshot_start leader = Inr (1, meta_at 1 demo_head, [1])" using l by (simp add: sendSnapshot_start_def meta_at_def demo_head_fields)
  obtain l' where l': "RestoreSnapshotBoundary (\<lambda>_. []) None 2 1 newRaftLog = (l', None)"
    by (simp add: RestoreSnapshotBoundary_def newRaftLog_def matching_suffix_def persistStateToDiskLocked_def Let_def)
  have f: "may_install (\<lambda>_. []) demo_mjson ?sm 1 (meta_at 1 demo_head) [1] ?r l' (restore_msg (env_coins demo_snap_env) (snapshot_msg demo_kv))"
    using l' demo_codec(3) m(2)
    by (simp add: may_install_def meta_at_def demo_head_fields demo_store_def new_node_def newPersistentState_def snapshot_limit_def demo_cfg_def DefaultConfig_def maxInt_def)
  have v: "validateSnapshotMeta (meta_at 1 demo_head) = None" "distinct (map fst (ClusterConfig (meta_at 1 demo_head)))" "installSnapshot ?r = None"
    by (simp_all add: meta_at_def demo_head_fields validateSnapshotMeta_def Size_def demo_peers_def demo_store_def new_node_def)
  have c: "\<exists>s'. env_unmarshal_snap demo_snap_env b = Some s' \<and> snap_equiv s s'" if "env_marshal_snap demo_snap_env s = Some b" for s b
    using that demo_kv_ok(3) by (auto simp: demo_snap_env_def split: if_splits)
  have e: "env_unmarshal_snap demo_snap_env [] = Some (snapshot_msg NewKVStore)" by (simp add: demo_snap_env_def)
  have "\<exists>r' es. install_all (\<lambda>_. []) demo_mjson ?sm 0 (chunk_requests (config leader) 1 (meta_at 1 demo_head) [1] 0) ?r = (r', es) \<and> set es \<subseteq> {None} \<and>
     ([1 :: byte] \<noteq> [] \<longrightarrow> kv_wf (stateMachine r') \<and> abs_kv (stateMachine r') = abs_kv (stateMachine demo_head)) \<and>
     ([1 :: byte] = [] \<longrightarrow> abs_kv (stateMachine demo_head) = Map.empty \<and> stateMachine r' = stateMachine ?r) \<and>
     lastApplied r' = lastApplied demo_head \<and> clusterConfig r' = clusterConfig demo_head"
    by (rule snapshot_gives_leaders_database [OF l(1) _ _ _ _ _ _ c e send v(1,2) f v(3), where data = "[1]"])
      (simp_all add: demo_head_fields demo_kv_ok m(1))
  then show ?thesis using l(1,2) by (auto simp: demo_head_fields)
qed

end
