(* ===== verification/HandlerProps.thy ===== *)
theory HandlerProps
  imports KVHandler Replica
begin

text \<open>
  The properties of the request handlers: forwarding, and what a client sees of its own writes.
\<close>

section \<open>Connections and forwarding\<close>

text \<open>The cached connection goes to the cached address.\<close>

definition handler_wf :: "KVHandler \<Rightarrow> bool" where
  "handler_wf h \<longleftrightarrow> (case fwdConn h of None \<Rightarrow> True | Some a \<Rightarrow> fwdAddr h = a)"

lemma handler_wf_new: "handler_wf newKVHandler" "handler_wf (handler_Close h)"
  by (simp_all add: handler_wf_def newKVHandler_def handler_Close_def)

lemma getLeaderClient_wf:
  assumes "handler_wf h" "getLeaderClient dialfails addr h = (h', c)"
  shows "handler_wf h' \<and> (c = Some addr \<or> c = None \<and> dialfails)"
  using assms by (auto simp: getLeaderClient_def handler_wf_def Let_def split: option.splits if_splits)

section \<open>Routing through several servers\<close>

record 'w server =
  sv_env :: "'w handler_env"
  sv_world :: 'w
  sv_handler :: KVHandler

text \<open>
  The answer to a write sent to the server at an address, when the RPC of another server is the
  handler of that server and the deadline of the request lets it be passed on \<open>n\<close> times. \<open>srv i\<close> are
  the servers when \<open>i\<close> hops are left: anything may happen to them in between.
\<close>

primrec write_rpc :: "(nat \<Rightarrow> string \<Rightarrow> 'w server) \<Rightarrow> string \<Rightarrow> string list \<Rightarrow> 'a \<Rightarrow> nat \<Rightarrow> string \<Rightarrow> grpc_error + 'a" where
  "write_rpc srv op args resp 0 a = Inl (Status DeadlineExceeded ''context deadline exceeded'')"
| "write_rpc srv op args resp (Suc n) a =
     (case write_handler (sv_env (srv n a)) (write_rpc srv op args resp n) op args resp (sv_world (srv n a)) (sv_handler (srv n a)) of
        None \<Rightarrow> Inl (Status Unavailable ''connection closed'')
      | Some (w, h, res) \<Rightarrow> res)"

text \<open>A server that takes the one at \<open>b\<close> for the leader and can reach it.\<close>

definition defers_to :: "string \<Rightarrow> 'w server \<Rightarrow> bool" where
  "defers_to b s \<longleftrightarrow> \<not> rp_IsLeader (he_raft (sv_env s)) (sv_world s) \<and> rp_LeaderAddr (he_raft (sv_env s)) (sv_world s) = b \<and> b \<noteq> [] \<and>
     \<not> he_dialfails (sv_env s) \<and> handler_wf (sv_handler s)"

text \<open>Such a server passes the write on, and its answer is that of the other.\<close>

lemma defers_forwards:
  assumes "defers_to b s"
  shows "\<exists>h. write_handler (sv_env s) remote op args resp (sv_world s) (sv_handler s) = Some (sv_world s, h, remote b)"
proof -
  obtain h c where g: "getLeaderClient (he_dialfails (sv_env s)) b (sv_handler s) = (h, c)" by fastforce
  then have "c = Some b" using getLeaderClient_wf [of "sv_handler s"] assms by (auto simp: defers_to_def)
  then show ?thesis using assms g by (simp add: write_handler_def forwardWrite_def forward_to_def defers_to_def)
qed

text \<open>
  C32: a write can be passed around until its deadline. Reads are marked when they are forwarded and
  are refused the second time; writes are not. Two servers that each take the other for the leader,
  as after an election neither has noticed, send a write back and forth: however often its
  deadline lets it be passed on, each answers with what the other answers, and in the end it fails
  with the deadline.
\<close>

theorem write_forwarding_loop:
  assumes "\<And>i. defers_to b (srv i a)" "\<And>i. defers_to a (srv i b)"
  shows "write_rpc srv op args resp n a = Inl (Status DeadlineExceeded ''context deadline exceeded'')"
proof -
  have "\<forall>x \<in> {a, b}. write_rpc srv op args resp n x = Inl (Status DeadlineExceeded ''context deadline exceeded'')"
  proof (induction n)
    case (Suc n)
    have "write_rpc srv op args resp (Suc n) a = write_rpc srv op args resp n b"
      using defers_forwards [OF assms(1), of n "write_rpc srv op args resp n" op args resp] by auto
    moreover have "write_rpc srv op args resp (Suc n) b = write_rpc srv op args resp n a"
      using defers_forwards [OF assms(2), of n "write_rpc srv op args resp n" op args resp] by auto
    ultimately show ?case using Suc by simp
  qed simp
  then show ?thesis by simp
qed

text \<open>
  C30: a read visits at most two servers. A read that already carries the mark is answered without
  asking another server, whatever that server would answer; one without the mark is answered
  here, or by the server at the leader's address with the mark set, over a connection to exactly
  that address.
\<close>

theorem read_forwarded_once:
  assumes "handler_wf h"
  shows "(he_forwarded env \<longrightarrow> read_handler env remote query w h = read_handler env remote' query w h) \<and>
     (\<forall>w' h' res. read_handler env remote query w h = Some (w', h', res) \<longrightarrow>
        handler_wf h' \<and> ((\<exists>e. fst (rp_ReadIndex (he_raft env) w) = w' \<and> snd (rp_ReadIndex (he_raft env) w) = Inl e \<and> \<not> he_forwarded env \<and> res = remote True (rp_LeaderAddr (he_raft env) w')) \<or>
           (\<forall>other. read_handler env other query w h = Some (w', h', res))))"
proof (cases "rp_ReadIndex (he_raft env) w")
  case (Pair w1 r)
  show ?thesis
  proof (cases r)
    case (Inl e)
    let ?a = "rp_LeaderAddr (he_raft env) w1"
    obtain h1 c where g: "getLeaderClient (he_dialfails env) ?a h = (h1, c)" by (cases "getLeaderClient (he_dialfails env) ?a h")
    note wf = getLeaderClient_wf [OF assms g]
    have ft: "forward_to (he_dialfails env) ?a rem h = (h1, case c of None \<Rightarrow> Inl (Status Unavailable ''leader unreachable'') | Some cl \<Rightarrow> rem cl)" for rem
      by (simp add: forward_to_def g split: option.split)
    show ?thesis
      unfolding read_handler_def forwardRead_def Pair Inl prod.case sum.case ft using wf assms by (auto split: option.splits)
  next
    case (Inr i)
    then show ?thesis using Pair assms by (auto simp: read_handler_def split: option.splits sum.splits)
  qed
qed

section \<open>What a client sees of its writes\<close>

text \<open>
  The interface of a consensus module that has applied a command when \<^verbatim>\<open>Propose\<close> returns. \<open>ok n w\<close>
  says that the node leads, has well-formed tables and takes \<open>n\<close> more commands; \<open>clock\<close> gives the
  readings of the clock when the next command is applied.
\<close>

locale served_store =
  fixes raft :: "'w RaftProposer" and ok :: "nat \<Rightarrow> 'w \<Rightarrow> bool" and unmarshal :: "bytes \<Rightarrow> CommandPayload option" and clock :: "'w \<Rightarrow> gotime \<times> gotime"
  assumes leads: "ok n w \<Longrightarrow> rp_IsLeader raft w"
    and confirms: "ok n w \<Longrightarrow> \<exists>i. rp_ReadIndex raft w = (w, Inr i)"
    and tables: "ok n w \<Longrightarrow> kv_wf (rd_store raft w)"
    and stores: "ok n w \<Longrightarrow> rd_put raft (rd_store raft w) w = w"
    and applies: "ok (Suc n) w \<Longrightarrow> unmarshal b = Some p \<Longrightarrow> clean_command (fst (clock w)) p (abs_kv (rd_store raft w)) \<Longrightarrow>
      \<exists>w'. rp_Propose raft b w = (w', map_option as_error (snd (spec_command (fst (clock w)) (snd (clock w)) p (abs_kv (rd_store raft w))))) \<and>
        ok n w' \<and> abs_kv (rd_store raft w') = fst (spec_command (fst (clock w)) (snd (clock w)) p (abs_kv (rd_store raft w)))"
begin

lemma write_applied:
  assumes "ok (Suc n) w" "he_raft env = raft" "he_marshal env \<lparr>Op = op, Args = args\<rparr> = Some b" "unmarshal b = Some \<lparr>Op = op, Args = args\<rparr>"
    and "clean_command (fst (clock w)) \<lparr>Op = op, Args = args\<rparr> (abs_kv (rd_store raft w))"
    and "spec_command (fst (clock w)) (snd (clock w)) \<lparr>Op = op, Args = args\<rparr> (abs_kv (rd_store raft w)) = (m, None)"
  shows "\<exists>w'. write_handler env remote op args resp w h = Some (w', h, Inr resp) \<and> ok n w' \<and> abs_kv (rd_store raft w') = m"
  using applies [OF assms(1,4,5)] leads [OF assms(1)] assms(2,3,6) by (auto simp: write_handler_def propose_def)

lemma read_answered:
  assumes "ok n w" "he_raft env = raft" "query (rd_store raft w) = Some (rd_store raft w, Inr v)"
  shows "read_handler env remote query w h = Some (w, h, Inr v)"
  using confirms [OF assms(1)] stores [OF assms(1)] assms(2,3) by (auto simp: read_handler_def)

end

text \<open>A live string is what \<^verbatim>\<open>Get\<close> returns.\<close>

lemma str_Get_live:
  assumes "kv_wf kv" "abs_kv kv k = Some (VString v, e)" "\<not> expired_at now (VString v, e)"
  shows "str_Get now k kv = (kv, Inr v)"
  using kv_wf_key [OF assms(1), of k]
proof (cases rule: key_wf_cases)
  case (string s)
  then show ?thesis using assms(2,3) by (auto simp: str_Get_def CheckType_def IsExpired_def expired_at_def split: option.splits)
qed (use assms(2) in simp_all)

section \<open>A single node behind the handlers\<close>

lemma apply_rest_keeps:
  assumes "apply_rest ujson sf now order sm n e r = Some (r1, due)" "Type e \<noteq> EntryMembership"
  shows "state r1 = state r \<and> config r1 = config r \<and> fatalErr r1 = fatalErr r \<and> clusterConfig r1 = clusterConfig r \<and> (noopCommitted r \<longrightarrow> noopCommitted r1)"
  using assms by (auto simp: apply_rest_def apply_answer_def Let_def split: option.splits if_splits)

lemma apply_entries_keeps:
  assumes "may_apply r" "\<forall>e \<in> set (unapplied r). Type e \<noteq> EntryMembership" "apply_entries ujson sf now order sms r = Some r'"
  shows "state r' = state r \<and> config r' = config r \<and> fatalErr r' = fatalErr r \<and> clusterConfig r' = clusterConfig r \<and> (noopCommitted r \<longrightarrow> noopCommitted r')"
  using assms
proof (induction ujson sf now order sms r rule: apply_entries.induct)
  case (1 ujson sf now order sms r)
  show ?case
  proof (cases "commitIndex r \<le> lastApplied r")
    case True
    then show ?thesis using 1(4) by (subst (asm) apply_entries.simps) simp
  next
    case False
    obtain e where e: "GetEntry (lastApplied r + 1) (rlog r) = Inr e"
      "unapplied r = e # take (commitIndex r - (lastApplied r + 1)) (drop (lastApplied r + 1 - baseIndex (rlog r)) (entries (rlog r)))"
      using unapplied_step [OF 1(2)] False by auto
    have ap: "apply_one ujson sf now order (sms (lastApplied r + 1)) r = apply_rest ujson sf now order (sms (lastApplied r + 1)) (lastApplied r + 1) e r"
      using e(1) by (simp add: apply_one_def)
    obtain r1 due where r1: "apply_rest ujson sf now order (sms (lastApplied r + 1)) (lastApplied r + 1) e r = Some (r1, due)"
      "apply_entries ujson sf now order sms r1 = Some r'"
      using 1(4) False ap by (subst (asm) apply_entries.simps) (auto split: option.splits)
    note f = apply_rest_frame [OF r1(1)]
    have u: "unapplied r = e # unapplied r1" using e(2) f by (simp add: unapplied_def)
    have "may_apply r1" "\<forall>e \<in> set (unapplied r1). Type e \<noteq> EntryMembership" using 1(2,3) f u by (simp_all add: may_apply_def)
    note IH = 1(1) [OF False _ refl this r1(2), unfolded ap, OF r1(1)]
    show ?thesis using IH apply_rest_keeps [OF r1(1)] 1(3) u by simp
  qed
qed

text \<open>
  The calls of the handlers on a node alone in its cluster: \<^verbatim>\<open>Propose\<close> returns after the batch
  with the command was flushed and the entry applied, \<^verbatim>\<open>ReadIndex\<close> without asking anybody.
\<close>

definition lone_propose :: "store_env \<Rightarrow> (LogEntry \<Rightarrow> bytes) \<Rightarrow> (bytes \<Rightarrow> MembershipChange option) \<Rightarrow> bytes \<Rightarrow> kvstore RaftNode \<Rightarrow> kvstore RaftNode \<times> raft_error option" where
  "lone_propose env marshal ujson cmd r =
     (case Propose 0 r of
        Some e \<Rightarrow> (r, Some e)
      | None \<Rightarrow>
          (case apply_entries ujson False 0 [] (kv_machine env) (flush marshal None [(cmd, length (notified r))] r) of
             None \<Rightarrow> (r, Some (OtherError ''panic''))
           | Some r1 \<Rightarrow> (r1, snd (last (notified r1)))))"

definition lone_read :: "'sm RaftNode \<Rightarrow> raft_error + uint64" where
  "lone_read r =
     (case ReadIndex_start r of
        Inl e \<Rightarrow> Inl e
      | Inr rr \<Rightarrow>
          (case (ReadIndex_collect rr [], waitForApply (rr_index rr) r) of
             (ReadConfirmed, Some i) \<Rightarrow> Inr i
           | (ReadNotLeader, _) \<Rightarrow> Inl ErrNotLeader
           | _ \<Rightarrow> Inl (OtherError ''context deadline exceeded'')))"

definition lone_api :: "store_env \<Rightarrow> (LogEntry \<Rightarrow> bytes) \<Rightarrow> (MembershipChange \<Rightarrow> bytes) \<Rightarrow> (bytes \<Rightarrow> MembershipChange option) \<Rightarrow> kvstore RaftNode RaftProposer" where
  "lone_api env marshal mjson ujson =
     \<lparr>rp_Propose = lone_propose env marshal ujson, rp_IsLeader = (\<lambda>r. state r = Leader),
      rp_ProposeMembershipChange = (\<lambda>change r. ProposeMembershipChange marshal mjson None change r),
      rp_ReadIndex = (\<lambda>r. (r, lone_read r)), rp_LeaderAddr = LeaderAddr, rp_Term = currentTerm, rp_State = state,
      rp_NodeID = (\<lambda>r. NodeID (config r)), rd_store = stateMachine, rd_put = (\<lambda>kv r. r\<lparr>stateMachine := kv\<rparr>)\<rparr>"

definition lone_ok :: "nat \<Rightarrow> kvstore RaftNode \<Rightarrow> bool" where
  "lone_ok n r \<longleftrightarrow> lone_leader r \<and> fatalErr r = None \<and> noopCommitted r \<and> kv_wf (stateMachine r) \<and> LastIndex (rlog r) + n < 2 ^ 64"

lemma lone_step:
  assumes ok: "lone_ok (Suc n) r" and p: "env_unmarshal env b = Some p"
    and c: "clean_command (fst (env_clock env (LastIndex (rlog r) + 1))) p (abs_kv (stateMachine r))"
  shows "\<exists>r'. lone_propose env marshal ujson b r =
       (r', map_option as_error (snd (spec_command (fst (env_clock env (LastIndex (rlog r) + 1))) (snd (env_clock env (LastIndex (rlog r) + 1))) p (abs_kv (stateMachine r))))) \<and>
     lone_ok n r' \<and> abs_kv (stateMachine r') = fst (spec_command (fst (env_clock env (LastIndex (rlog r) + 1))) (snd (env_clock env (LastIndex (rlog r) + 1))) p (abs_kv (stateMachine r)))"
proof -
  let ?i = "LastIndex (rlog r) + 1" and ?batch = "[(b, length (notified r))] :: proposeRequest list"
  let ?e = "\<lparr>Index = ?i, Term = currentTerm r, Type = EntryKV, Command = b\<rparr>"
  have lone: "lone_leader r" "fatalErr r = None" "state r = Leader" "kv_wf (stateMachine r)" "LastIndex (rlog r) + length ?batch < 2 ^ 64"
    using ok by (auto simp: lone_ok_def lone_leader_def)
  obtain kv' err where kv': "apply_command (env_coin env ?i) (fst (env_clock env ?i)) (snd (env_clock env ?i)) p (stateMachine r) = Some (kv', err)"
      "kv_wf kv'" "spec_command (fst (env_clock env ?i)) (snd (env_clock env ?i)) p (abs_kv (stateMachine r)) = (abs_kv kv', err)"
    using apply_command_refines [OF lone(4) c, of "env_coin env ?i" "snd (env_clock env ?i)"] by (auto simp: refines_def)
  have es: "flush_entries ?batch r = [?e]"
    using flush_entries_nth [of 0 ?batch r] lone(5) length_flush_entries [of ?batch r] by (cases "flush_entries ?batch r") auto
  have run: "run_log (kv_machine env) (flush_entries ?batch r) (stateMachine r) = Some (kv', [map_option as_error err])"
    using kv'(1) p unfolding es by (simp add: kv_machine_def Apply_def EntryKV_def EntryMembership_def)
  obtain r1 r' where r1: "flush marshal None ?batch r = r1" "may_apply r1" "unapplied r1 = flush_entries ?batch r" "commitIndex r1 = LastIndex (rlog r1)"
      "LastIndex (rlog r1) = LastIndex (rlog r) + length ?batch" "log_wf (rlog r1)" "storageErr (rlog r1) = None" "dataDir (rlog r1) = [] \<or> walFile (rlog r1)"
      "state r1 = state r" "config r1 = config r" "fatalErr r1 = fatalErr r" "clusterConfig r1 = clusterConfig r" "noopCommitted r1 = noopCommitted r"
    and r': "apply_entries ujson False 0 [] (kv_machine env) r1 = Some r'" "stateMachine r' = kv'"
      "notified r' = notified r @ zip (map snd ?batch) [map_option as_error err]" "lastApplied r' = LastIndex (rlog r) + length ?batch" "rlog r' = rlog r1" "commitIndex r' = commitIndex r1"
    using lone_batch [OF lone(1) _ lone(5) run, of marshal ujson False 0 "[]"] by auto
  have "\<forall>e \<in> set (unapplied r1). Type e \<noteq> EntryMembership" by (simp add: r1(3) es EntryKV_def EntryMembership_def)
  note k = apply_entries_keeps [OF r1(2) this r'(1)]
  have "lone_propose env marshal ujson b r = (r', map_option as_error err)"
    using lone(2,3) r1(1) r'(1,3) by (simp add: lone_propose_def Propose_def)
  moreover have "lone_ok n r'"
    using ok r1 r' k kv'(2) by (auto simp: lone_ok_def lone_leader_def)
  ultimately show ?thesis using kv'(3) r'(2) by (intro exI [of _ r']) simp
qed

interpretation lone: served_store "lone_api env marshal mjson ujson" lone_ok "env_unmarshal env" "\<lambda>r. env_clock env (LastIndex (rlog r) + 1)"
  for env marshal mjson ujson
proof
  fix n r
  assume ok: "lone_ok n r"
  show "rp_IsLeader (lone_api env marshal mjson ujson) r" "kv_wf (rd_store (lone_api env marshal mjson ujson) r)"
    "rd_put (lone_api env marshal mjson ujson) (rd_store (lone_api env marshal mjson ujson) r) r = r"
    using ok by (auto simp: lone_api_def lone_ok_def lone_leader_def)
  have "map fst (clusterConfig r) = [NodeID (config r)]" using ok by (simp add: lone_ok_def lone_leader_def)
  then have "length (map fst (clusterConfig r)) = length [NodeID (config r)]" by (rule arg_cong)
  then show "\<exists>i. rp_ReadIndex (lone_api env marshal mjson ujson) r = (r, Inr i)"
    using ok by (auto simp: lone_api_def lone_read_def lone_ok_def lone_leader_def ReadIndex_start_def ReadIndex_collect_def waitForApply_def Size_def)
next
  fix n r b p
  assume "lone_ok (Suc n) r" "env_unmarshal env b = Some p"
    "clean_command (fst (env_clock env (LastIndex (rlog r) + 1))) p (abs_kv (rd_store (lone_api env marshal mjson ujson) r))"
  then show "\<exists>w'. rp_Propose (lone_api env marshal mjson ujson) b r = (w', map_option as_error (snd (spec_command (fst (env_clock env (LastIndex (rlog r) + 1))) (snd (env_clock env (LastIndex (rlog r) + 1))) p (abs_kv (rd_store (lone_api env marshal mjson ujson) r))))) \<and>
      lone_ok n w' \<and> abs_kv (rd_store (lone_api env marshal mjson ujson) w') =
        fst (spec_command (fst (env_clock env (LastIndex (rlog r) + 1))) (snd (env_clock env (LastIndex (rlog r) + 1))) p (abs_kv (rd_store (lone_api env marshal mjson ujson) r)))"
    using lone_step by (simp add: lone_api_def)
qed

section \<open>Reading one's own writes\<close>

lemma spec_SET:
  assumes "case m k of None \<Rightarrow> True | Some c \<Rightarrow> type_name (fst c) = ''string''" "is_int64 ms"
  shows "clean_command now \<lparr>Op = ''SET'', Args = [k, v, format_int ms]\<rparr> m"
    "\<exists>m'. spec_command now now' \<lparr>Op = ''SET'', Args = [k, v, format_int ms]\<rparr> m = (m', None) \<and> m' k = Some (VString v, ms_expiry ms)"
proof -
  show "clean_command now \<lparr>Op = ''SET'', Args = [k, v, format_int ms]\<rparr> m"
    using assms(1) by (auto simp: clean_command_def written_type_def split: option.splits)
  have pa: "parseAbsoluteMs [k, v, format_int ms] 2 = ms" using assms(2) by (simp add: parseAbsoluteMs_def parse_int_format_int)
  have "upd_string v (map_option fst (purge now k m k)) = Some (VString v)"
    using assms(1) by (cases "m k"; cases "fst (the (m k))") (auto simp: purge_def)
  then show "\<exists>m'. spec_command now now' \<lparr>Op = ''SET'', Args = [k, v, format_int ms]\<rparr> m = (m', None) \<and> m' k = Some (VString v, ms_expiry ms)"
    by (simp add: spec_command_def spec_write_def pa)
qed

lemma is_int64_expiryMilli: "is_int64 (expiryMilli now ttl)"
  by (simp add: expiryMilli_def is_int64_wrap64) (simp add: is_int64_def min_int64_def max_int64_def)

text \<open>
  A client reads what it wrote. On a node alone in its cluster, \<^verbatim>\<open>Set\<close> of a key that is free or
  holds a string succeeds, whatever the log and the store went through before, and a \<^verbatim>\<open>Get\<close> that
  follows returns the value, unless the expiration computed from the request has passed.
\<close>

theorem own_write_is_read:
  assumes "lone_ok (Suc n) r" "he_raft env1 = lone_api senv marshal mjson ujson" "he_raft env2 = lone_api senv marshal mjson ujson"
    and codec: "he_marshal env1 \<lparr>Op = ''SET'', Args = [k, v, format_int (expiryMilli (he_now env1) ttl)]\<rparr> = Some b"
      "env_unmarshal senv b = Some \<lparr>Op = ''SET'', Args = [k, v, format_int (expiryMilli (he_now env1) ttl)]\<rparr>"
    and key: "case abs_kv (stateMachine r) k of None \<Rightarrow> True | Some c \<Rightarrow> type_name (fst c) = ''string''"
    and live: "\<not> expired_at (he_now env2) (VString v, ms_expiry (expiryMilli (he_now env1) ttl))"
  shows "\<exists>r'. handle_Set env1 remote k v ttl r h = Some (r', h, Inr True) \<and> handle_Get env2 remote' k r' h' = Some (r', h', Inr v) \<and> lone_ok n r'"
proof -
  let ?api = "lone_api senv marshal mjson ujson" and ?t = "env_clock senv (LastIndex (rlog r) + 1)"
  have st: "rd_store ?api = stateMachine" by (simp add: lone_api_def)
  obtain m where m: "spec_command (fst ?t) (snd ?t) \<lparr>Op = ''SET'', Args = [k, v, format_int (expiryMilli (he_now env1) ttl)]\<rparr> (abs_kv (stateMachine r)) = (m, None)"
      "m k = Some (VString v, ms_expiry (expiryMilli (he_now env1) ttl))"
    using spec_SET(2) [where m = "abs_kv (stateMachine r)" and k = k, OF key is_int64_expiryMilli] by blast
  have c: "clean_command (fst ?t) \<lparr>Op = ''SET'', Args = [k, v, format_int (expiryMilli (he_now env1) ttl)]\<rparr> (abs_kv (rd_store ?api r))"
    unfolding st by (rule spec_SET(1) [where m = "abs_kv (stateMachine r)" and k = k, OF key is_int64_expiryMilli])
  obtain r' where r': "handle_Set env1 remote k v ttl r h = Some (r', h, Inr True)" "lone_ok n r'" "abs_kv (stateMachine r') = m"
    using lone.write_applied [OF assms(1,2) codec c, of m remote True h] m(1) unfolding st handle_Set_def by auto
  have "str_Get (he_now env2) k (stateMachine r') = (stateMachine r', Inr v)"
    using str_Get_live [OF _ _ live] r'(2,3) m(2) by (simp add: lone_ok_def)
  then have "handle_Get env2 remote' k r' h' = Some (r', h', Inr v)"
    unfolding handle_Get_def using st by (intro lone.read_answered [OF r'(2) assms(3)]) simp
  then show ?thesis using r' by blast
qed

section \<open>Examples\<close>

text \<open>Servers that only know a leader's address.\<close>

definition demo_raft :: "string RaftProposer" where
  "demo_raft = \<lparr>rp_Propose = (\<lambda>_ w. (w, Some ErrNotLeader)), rp_IsLeader = (\<lambda>_. False), rp_ProposeMembershipChange = (\<lambda>_ w. (w, Some ErrNotLeader)),
     rp_ReadIndex = (\<lambda>w. (w, Inl ErrNotLeader)), rp_LeaderAddr = (\<lambda>w. w), rp_Term = (\<lambda>_. 1), rp_State = (\<lambda>_. Follower), rp_NodeID = (\<lambda>w. w),
     rd_store = (\<lambda>_. NewKVStore), rd_put = (\<lambda>_ w. w)\<rparr>"

definition demo_henv :: "'w RaftProposer \<Rightarrow> bool \<Rightarrow> 'w handler_env" where
  "demo_henv raft forwarded = \<lparr>he_raft = raft, he_marshal = (\<lambda>_. Some [1]), he_now = 5, he_dialfails = False, he_forwarded = forwarded\<rparr>"

definition demo_servers :: "string \<Rightarrow> string server" where
  "demo_servers a = \<lparr>sv_env = demo_henv demo_raft False, sv_world = (if a = ''a'' then ''b'' else ''a''), sv_handler = newKVHandler\<rparr>"

theorem write_forwarding_loop_witness:
  "write_rpc (\<lambda>_. demo_servers) ''DEL'' [''k''] True 7 ''a'' = Inl (Status DeadlineExceeded ''context deadline exceeded'')"
  by (rule write_forwarding_loop [where b = "''b''"])
    (simp_all add: defers_to_def demo_servers_def demo_henv_def demo_raft_def newKVHandler_def handler_wf_def)

theorem read_forwarded_once_witness:
  "read_handler (demo_henv demo_raft True) (\<lambda>_ _. Inr ''x'') (\<lambda>kv. Some (str_Get 5 ''k'' kv)) ''b'' newKVHandler =
   read_handler (demo_henv demo_raft True) (\<lambda>_ _. Inr ''y'') (\<lambda>kv. Some (str_Get 5 ''k'' kv)) ''b'' newKVHandler"
proof -
  have "he_forwarded (demo_henv demo_raft True)" by (simp add: demo_henv_def)
  with read_forwarded_once [OF handler_wf_new(1), of "demo_henv demo_raft True" "\<lambda>_ _. Inr ''x''" "\<lambda>kv. Some (str_Get 5 ''k'' kv)" "''b''" "\<lambda>_ _. Inr ''y''"]
  show ?thesis by blast
qed

definition demo_lone_store :: "kvstore RaftNode" where
  "demo_lone_store = (demo_store ''b'')\<lparr>rlog := newRaftLog, commitIndex := 0, state := Leader, currentTerm := 1, clusterConfig := [(''b'', [])], noopCommitted := True\<rparr>"

definition demo_set_env :: store_env where
  "demo_set_env = (demo_env True 5)\<lparr>env_unmarshal := (\<lambda>_. Some \<lparr>Op = ''SET'', Args = [''k'', ''v'', format_int 0]\<rparr>)\<rparr>"

theorem own_write_is_read_witness:
  "\<exists>r'. handle_Set (demo_henv (lone_api demo_set_env (\<lambda>_. []) (\<lambda>_. []) (\<lambda>_. None)) False) (\<lambda>_. Inl (Status Internal [])) ''k'' ''v'' 0 demo_lone_store newKVHandler = Some (r', newKVHandler, Inr True) \<and>
     handle_Get (demo_henv (lone_api demo_set_env (\<lambda>_. []) (\<lambda>_. []) (\<lambda>_. None)) False) (\<lambda>_ _. Inl (Status Internal [])) ''k'' r' newKVHandler = Some (r', newKVHandler, Inr ''v'')"
proof -
  let ?env = "demo_henv (lone_api demo_set_env (\<lambda>_. []) (\<lambda>_. []) (\<lambda>_. None)) False"
  have ok: "lone_ok (Suc 0) demo_lone_store"
    by (simp add: lone_ok_def lone_leader_def demo_lone_store_def demo_store_def new_node_def demo_cfg_def DefaultConfig_def newRaftLog_def LastIndex_def log_wf_def kv_wf_NewKVStore)
  have r: "he_raft ?env = lone_api demo_set_env (\<lambda>_. []) (\<lambda>_. []) (\<lambda>_. None)" by (simp add: demo_henv_def)
  have k: "case abs_kv (stateMachine demo_lone_store) ''k'' of None \<Rightarrow> True | Some c \<Rightarrow> type_name (fst c) = ''string''"
    by (simp add: demo_lone_store_def demo_store_def new_node_def abs_NewKVStore)
  have "\<exists>r'. handle_Set ?env (\<lambda>_. Inl (Status Internal [])) ''k'' ''v'' 0 demo_lone_store newKVHandler = Some (r', newKVHandler, Inr True) \<and>
     handle_Get ?env (\<lambda>_ _. Inl (Status Internal [])) ''k'' r' newKVHandler = Some (r', newKVHandler, Inr ''v'') \<and> lone_ok 0 r'"
    by (rule own_write_is_read [OF ok r r, where b = "[1]"])
      (use k in \<open>simp_all add: expiryMilli_def demo_henv_def demo_set_env_def ms_expiry_def expired_at_def\<close>)
  then show ?thesis by blast
qed

end
