(* ===== verification/ClientProps.thy ===== *)
theory ClientProps
  imports Client HandlerProps "HOL-Library.Sublist"
begin

text \<open>
  What a caller of the client library can rely on: a write reaches the server that takes it, a
  call makes a bounded number of attempts, and what its errors mean.
\<close>

section \<open>Rounds\<close>

lemma candidates_conns [simp]: "candidates (c\<lparr>cl_conns := x\<rparr>) = candidates c"
  by (simp add: candidates_def)

lemma length_candidates: "length (candidates c) \<le> Suc (length (cl_nodes c))"
  unfolding candidates_def using length_filter_le [of _ "cl_nodes c"] by (simp add: le_SucI)

lemma candidates_empty: "candidates c = [] \<longleftrightarrow> cl_leader c = [] \<and> (\<forall>n \<in> set (cl_nodes c). n = [])"
  by (auto simp: candidates_def filter_empty_conv)

definition dials :: "'w client_env \<Rightarrow> string list \<Rightarrow> bool" where
  "dials env as \<longleftrightarrow> list_all (\<lambda>a. ce_newclient env a = None) as"

lemma getConn_dials: "ce_newclient env a = None \<Longrightarrow> client_getConn (ce_newclient env) a c = (c\<lparr>cl_conns := insert a (cl_conns c)\<rparr>, Inr a)"
  by (simp add: client_getConn_def insert_absorb)

text \<open>The servers of a list that refuse a request with an error that is worth another attempt, and do nothing.\<close>

definition refuse :: "('w, 'a) rpc \<Rightarrow> (string \<Rightarrow> grpc_error) \<Rightarrow> 'w \<Rightarrow> string list \<Rightarrow> bool" where
  "refuse rpc err w as \<longleftrightarrow> list_all (\<lambda>a. rpc a w = (w, Inl (err a)) \<and> retryable_write (err a)) as"

lemma write_round_refused:
  assumes "dials env as" "refuse rpc err w as"
  shows "write_round env rpc (as @ bs) le w c =
    write_round env rpc bs (if as = [] then le else Some (RpcError (err (last as)))) w (c\<lparr>cl_conns := cl_conns c \<union> set as\<rparr>)"
  using assms
proof (induction as arbitrary: le c)
  case (Cons a as)
  then show ?case by (simp add: dials_def refuse_def getConn_dials)
qed simp

lemma doWrite_first_success:
  assumes "dials env (candidates c)" "L \<in> set (candidates c)" "rpc L w = (w', Inr v)"
    and "refuse rpc err w (filter (\<lambda>a. a \<noteq> L) (candidates c))"
  shows "\<exists>cs. doWrite env rpc w c = (w', c\<lparr>cl_conns := cs, cl_leader := L\<rparr>, Inr v)"
proof -
  obtain as bs where s: "candidates c = as @ L # bs" "L \<notin> set as" using split_list_first [OF assms(2)] by blast
  have "filter (\<lambda>a. a \<noteq> L) as = as" using s(2) by (auto simp: filter_id_conv)
  then have r: "refuse rpc err w as" "dials env as" "ce_newclient env L = None"
    using assms(1,4) s(1) by (auto simp: refuse_def dials_def)
  have "write_round env rpc (candidates c) None w c =
      (w', c\<lparr>cl_conns := insert L (cl_conns c \<union> set as), cl_leader := L\<rparr>, if as = [] then None else Some (RpcError (err (last as))), Some (Inr v))"
    unfolding s(1) write_round_refused [OF r(2,1)] using assms(3) r(3) by (simp add: getConn_dials)
  then show ?thesis by (auto simp: doWrite_def maxRetries_def eval_nat_numeral)
qed

lemma doRead_first_success:
  assumes "dials env (candidates c)" "L \<in> set (candidates c)" "rpc L w = (w', Inr v)"
    and "list_all (\<lambda>a. \<exists>e. rpc a w = (w, Inl e) \<and> isRetryableReadError e) (filter (\<lambda>a. a \<noteq> L) (candidates c))"
  shows "\<exists>c'. doRead env rpc w c = (w', c', Inr v)"
proof -
  have "\<exists>c' le'. read_candidates env rpc as le w x = (w', c', le', Some (Inr v))"
    if "dials env as" "L \<in> set as" "list_all (\<lambda>a. \<exists>e. rpc a w = (w, Inl e) \<and> isRetryableReadError e) (filter (\<lambda>a. a \<noteq> L) as)" for as le x
    using that
  proof (induction as arbitrary: le x)
    case (Cons a as)
    then show ?case using assms(3) by (cases "a = L") (auto simp: dials_def getConn_dials)
  qed simp
  from this [OF assms(1,2,4)] obtain c' le' where "read_candidates env rpc (candidates c) None w c = (w', c', le', Some (Inr v))" by blast
  then show ?thesis by (auto simp: doRead_def maxRetries_def eval_nat_numeral)
qed

text \<open>
  C22: a write finds the server that takes it. When some candidate answers the request and every
  other one refuses it as \<^verbatim>\<open>doWrite\<close> expects, not being the leader or not being reachable, the call
  returns that answer, whatever leader the client believed in; the request took effect exactly
  once, and the next write goes to that server first.
\<close>

theorem write_finds_leader:
  assumes "dials env (candidates c)" "L \<in> set (candidates c)" "rpc L w = (w', Inr v)"
    and "refuse rpc err w (filter (\<lambda>a. a \<noteq> L) (candidates c))"
  shows "\<exists>c'. doWrite env rpc w c = (w', c', Inr v) \<and> cl_leader c' = L \<and> cl_nodes c' = cl_nodes c \<and> (L \<noteq> [] \<longrightarrow> hd (candidates c') = L)"
  using doWrite_first_success [where rpc = rpc and err = err, OF assms] by (auto simp: candidates_def)

section \<open>How much a call does\<close>

text \<open>The calls and the pauses of a client, in order.\<close>

datatype client_event = Called string | Slept int64

fun is_call :: "client_event \<Rightarrow> bool" where
  "is_call (Called _) = True"
| "is_call (Slept _) = False"

definition traced_rpc :: "('w, 'a) rpc \<Rightarrow> ('w \<times> client_event list, 'a) rpc" where
  "traced_rpc rpc a s = (case rpc a (fst s) of (w, res) \<Rightarrow> ((w, snd s @ [Called a]), res))"

definition traced_sleep :: "(int64 \<Rightarrow> 'w \<Rightarrow> 'w) \<Rightarrow> int64 \<Rightarrow> 'w \<times> client_event list \<Rightarrow> 'w \<times> client_event list" where
  "traced_sleep sl d s = (sl d (fst s), snd s @ [Slept d])"

text \<open>What one round adds: at most one call per candidate.\<close>

definition round_trace :: "client_event list \<Rightarrow> client_event list \<Rightarrow> nat \<Rightarrow> bool" where
  "round_trace tr tr' n \<longleftrightarrow> (\<exists>as. tr' = tr @ map Called as \<and> length as \<le> n)"

lemma round_trace_refl: "round_trace tr tr n"
  by (auto simp: round_trace_def)

lemma round_trace_call:
  assumes "round_trace (tr @ [Called a]) tr' n"
  shows "round_trace tr tr' (Suc n)"
proof -
  obtain as where "tr' = tr @ map Called (a # as)" "length (a # as) \<le> Suc n" using assms by (auto simp: round_trace_def)
  then show ?thesis unfolding round_trace_def by blast
qed

lemma round_trace_mono: "round_trace tr tr' n \<Longrightarrow> n \<le> m \<Longrightarrow> round_trace tr tr' m"
  by (auto simp: round_trace_def)

lemma round_trace_one: "round_trace tr (tr @ [Called a]) (Suc n)"
  by (rule round_trace_call [OF round_trace_refl])

lemma getConn_addr: "client_getConn nc a c = (c1, Inr b) \<Longrightarrow> b = a"
  by (auto simp: client_getConn_def split: if_splits option.splits)

lemma getConn_same: "client_getConn nc a c = (c1, x) \<Longrightarrow> cl_nodes c1 = cl_nodes c \<and> cl_leader c1 = cl_leader c"
  by (auto simp: client_getConn_def split: if_splits option.splits)

lemma write_round_trace:
  "write_round env (traced_rpc rpc) as le s c = (s', c', le', res) \<Longrightarrow>
     round_trace (snd s) (snd s') (length as) \<and> cl_nodes c' = cl_nodes c \<and> (res = None \<longrightarrow> cl_leader c' = cl_leader c)"
proof (induction as arbitrary: le s c)
  case (Cons a as)
  obtain c1 x where g: "client_getConn (ce_newclient env) a c = (c1, x)" by fastforce
  obtain w1 y where r: "rpc a (fst s) = (w1, y)" by fastforce
  have tr: "traced_rpc rpc a s = ((w1, snd s @ [Called a]), y)" using r by (simp add: traced_rpc_def)
  note same = getConn_same [OF g]
  show ?case
  proof (cases x)
    case (Inl e)
    then have "write_round env (traced_rpc rpc) as (Some e) s c1 = (s', c', le', res)" using Cons.prems g by simp
    from Cons.IH [OF this] same show ?thesis by (auto intro: round_trace_mono)
  next
    case (Inr b)
    then have b: "b = a" using g getConn_addr by blast
    show ?thesis
    proof (cases "\<exists>e. y = Inl e \<and> retryable_write e")
      case True
      then obtain e where "write_round env (traced_rpc rpc) as (Some (RpcError e)) (w1, snd s @ [Called a]) c1 = (s', c', le', res)"
        using Cons.prems g tr Inr b by auto
      from Cons.IH [OF this] same show ?thesis by (auto intro: round_trace_call)
    next
      case False
      then show ?thesis using Cons.prems g tr Inr b same by (auto simp: round_trace_one split: sum.splits)
    qed
  qed
qed (simp add: round_trace_refl)

lemma read_candidates_trace:
  "read_candidates env (traced_rpc rpc) as le s c = (s', c', le', res) \<Longrightarrow>
     round_trace (snd s) (snd s') (length as) \<and> cl_nodes c' = cl_nodes c \<and> cl_leader c' = cl_leader c"
proof (induction as arbitrary: le s c)
  case (Cons a as)
  obtain c1 x where g: "client_getConn (ce_newclient env) a c = (c1, x)" by fastforce
  obtain w1 y where r: "rpc a (fst s) = (w1, y)" by fastforce
  have tr: "traced_rpc rpc a s = ((w1, snd s @ [Called a]), y)" using r by (simp add: traced_rpc_def)
  note same = getConn_same [OF g]
  show ?case
  proof (cases "(\<exists>b. x = Inr b) \<and> (\<exists>e. y = Inl e \<and> isRetryableReadError e)")
    case True
    then obtain b e where x: "x = Inr b" "y = Inl e" "isRetryableReadError e" by blast
    then have "b = a" using g getConn_addr by blast
    then have "read_candidates env (traced_rpc rpc) as (Some (RpcError e)) (w1, snd s @ [Called a]) c1 = (s', c', le', res)"
      using Cons.prems g tr x by simp
    from Cons.IH [OF this] same show ?thesis by (auto intro: round_trace_call)
  next
    case False
    have "b = a" if "x = Inr b" for b using g getConn_addr that by blast
    then show ?thesis using False Cons.prems g tr same
      by (cases x; cases y) (auto simp: round_trace_one round_trace_refl split: if_splits)
  qed
qed (simp add: round_trace_refl)

text \<open>
  The trace of a call with \<open>n\<close> attempts left: per attempt at most one call per candidate, and
  pauses that double, one fewer than attempts.
\<close>

fun pauses :: "nat \<Rightarrow> int64 \<Rightarrow> int64 list" where
  "pauses 0 d = []"
| "pauses (Suc n) d = d # pauses n (wrap64 (d * 2))"

lemma prefix_pauses: "prefix (pauses n d) (pauses (Suc n) d)"
  by (induction n arbitrary: d) simp_all

definition slept :: "client_event list \<Rightarrow> int64 list" where
  "slept tr = concat (map (\<lambda>e. case e of Slept d \<Rightarrow> [d] | Called _ \<Rightarrow> []) tr)"

definition call_trace :: "client_event list \<Rightarrow> client_event list \<Rightarrow> nat \<Rightarrow> int64 list \<Rightarrow> bool" where
  "call_trace tr tr' n ds \<longleftrightarrow>
     (\<exists>new. tr' = tr @ new \<and> length (filter is_call new) \<le> n \<and> prefix (slept new) ds)"

lemma slept_calls [simp]: "slept (map Called as) = []" "filter is_call (map Called as) = map Called as"
  by (induction as) (simp_all add: slept_def)

lemma slept_append [simp]: "slept (xs @ ys) = slept xs @ slept ys" "slept (Slept d # xs) = d # slept xs"
  by (simp_all add: slept_def)

lemma call_trace_last: "round_trace tr tr' n \<Longrightarrow> n \<le> m \<Longrightarrow> call_trace tr tr' m ds"
  by (auto simp: round_trace_def call_trace_def)

lemma call_trace_pause:
  assumes "round_trace tr tr1 n" "call_trace (tr1 @ [Slept d]) tr' m ds"
  shows "call_trace tr tr' (n + m) (d # ds)"
proof -
  obtain as where as: "tr1 = tr @ map Called as" "length as \<le> n" using assms(1) by (auto simp: round_trace_def)
  obtain new where new: "tr' = tr1 @ [Slept d] @ new" "length (filter is_call new) \<le> m" "prefix (slept new) ds"
    using assms(2) by (auto simp: call_trace_def)
  have "tr' = tr @ (map Called as @ Slept d # new)" using as(1) new(1) by simp
  then show ?thesis using as(2) new(2,3) unfolding call_trace_def by (intro exI [of _ "map Called as @ Slept d # new"]) simp
qed

lemma call_trace_go:
  assumes "round_trace tr tr1 n" "call_trace tr1 tr' m ds"
  shows "call_trace tr tr' (n + m) ds"
proof -
  obtain as where as: "tr1 = tr @ map Called as" "length as \<le> n" using assms(1) by (auto simp: round_trace_def)
  obtain new where new: "tr' = tr1 @ new" "length (filter is_call new) \<le> m" "prefix (slept new) ds"
    using assms(2) by (auto simp: call_trace_def)
  have "tr' = tr @ (map Called as @ new)" using as(1) new(1) by simp
  then show ?thesis using as(2) new(2,3) unfolding call_trace_def by (intro exI [of _ "map Called as @ new"]) simp
qed

lemma candidates_cong: "cl_nodes c' = cl_nodes c \<Longrightarrow> cl_leader c' = cl_leader c \<Longrightarrow> candidates c' = candidates c"
  by (simp add: candidates_def)

lemma call_trace_mono: "call_trace tr tr' n ds \<Longrightarrow> prefix ds ds' \<Longrightarrow> call_trace tr tr' n ds'"
  unfolding call_trace_def using prefix_order.trans by blast

definition traced_env :: "'w client_env \<Rightarrow> ('w \<times> client_event list) client_env \<Rightarrow> bool" where
  "traced_env env tenv \<longleftrightarrow> ce_newclient tenv = ce_newclient env \<and> ce_sleep tenv = traced_sleep (ce_sleep env)"

lemma write_attempts_trace:
  "traced_env env tenv \<Longrightarrow> write_attempts n tenv (traced_rpc rpc) d s c = (s', c', res) \<Longrightarrow>
     call_trace (snd s) (snd s') (n * length (candidates c)) (pauses (n - 1) d)"
proof (induction n arbitrary: d s c)
  case 0
  then show ?case by (simp add: call_trace_last [OF round_trace_refl])
next
  case (Suc n)
  obtain s1 c1 le1 res1 where r: "write_round tenv (traced_rpc rpc) (candidates c) None s c = (s1, c1, le1, res1)" using prod_cases4 by blast
  note t = write_round_trace [OF r]
  show ?case
  proof (cases "res1 = None \<and> 0 < n")
    case True
    then obtain m where m: "n = Suc m" using gr0_implies_Suc by blast
    have "write_attempts n tenv (traced_rpc rpc) (wrap64 (d * 2)) (ce_sleep tenv d s1) c1 = (s', c', res)"
      using Suc.prems(2) r True by simp
    from Suc.IH [OF Suc.prems(1) this] have "call_trace (snd s1 @ [Slept d]) (snd s') (n * length (candidates c)) (pauses m (wrap64 (d * 2)))"
      using Suc.prems(1) t True m candidates_cong [of c1 c] by (simp add: traced_env_def traced_sleep_def)
    from call_trace_pause [OF _ this] t m show ?thesis by simp
  next
    case False
    then have "s' = s1" using Suc.prems(2) r by (auto split: option.splits)
    then show ?thesis using t by (auto intro: call_trace_last)
  qed
qed

lemma read_attempts_trace:
  "traced_env env tenv \<Longrightarrow> read_attempts n tenv (traced_rpc rpc) d le s c = (s', c', res) \<Longrightarrow>
     call_trace (snd s) (snd s') (n * length (candidates c)) (pauses (n - 1) d) \<and> cl_leader c' = cl_leader c"
proof (induction n arbitrary: d le s c)
  case 0
  then show ?case by (auto simp: call_trace_last [OF round_trace_refl])
next
  case (Suc n)
  obtain s1 c1 le1 res1 where r: "read_candidates tenv (traced_rpc rpc) (candidates c) le s c = (s1, c1, le1, res1)" using prod_cases4 by blast
  note t = read_candidates_trace [OF r]
  have cand: "candidates c1 = candidates c" using t candidates_cong by blast
  consider (result) res2 where "res1 = Some res2" | (pause) m where "res1 = None" "le1 \<noteq> None" "n = Suc m" | (on) "res1 = None" "\<not> (0 < n \<and> le1 \<noteq> None)"
    by (cases res1; cases n) auto
  then show ?case
  proof cases
    case result
    then show ?thesis using Suc.prems(2) r t by (auto intro: call_trace_last)
  next
    case pause
    then have "read_attempts n tenv (traced_rpc rpc) (wrap64 (d * 2)) le1 (ce_sleep tenv d s1) c1 = (s', c', res)"
      using Suc.prems(2) r by simp
    from Suc.IH [OF Suc.prems(1) this]
    have "call_trace (snd s1 @ [Slept d]) (snd s') (n * length (candidates c)) (pauses m (wrap64 (d * 2)))" "cl_leader c' = cl_leader c"
      using Suc.prems(1) t cand pause(3) by (simp_all add: traced_env_def traced_sleep_def)
    with call_trace_pause [of "snd s" "snd s1", OF _ this(1)] t pause(3) show ?thesis by simp
  next
    case on
    then have "read_attempts n tenv (traced_rpc rpc) d le1 s1 c1 = (s', c', res)" using Suc.prems(2) r by auto
    from Suc.IH [OF Suc.prems(1) this] have "call_trace (snd s1) (snd s') (n * length (candidates c)) (pauses (n - 1) d)" "cl_leader c' = cl_leader c"
      using t cand by simp_all
    moreover have "prefix (pauses (n - 1) d) (pauses n d)" using prefix_pauses [of "n - 1" d] by (cases n) simp_all
    ultimately show ?thesis using call_trace_go [of "snd s" "snd s1"] call_trace_mono t by fastforce
  qed
qed

text \<open>Tracing changes nothing but the trace.\<close>

lemma traced_rpc_fst: "rpc a (fst s) = (w1, y) \<Longrightarrow> traced_rpc rpc a s = ((w1, snd s @ [Called a]), y)"
  by (simp add: traced_rpc_def)

lemma write_round_traced:
  assumes "traced_env env tenv"
  shows "write_round env rpc as le (fst s) c = (case write_round tenv (traced_rpc rpc) as le s c of (s', c', le', res) \<Rightarrow> (fst s', c', le', res))"
proof (induction as arbitrary: le s c)
  case (Cons a as)
  obtain c1 x where g: "client_getConn (ce_newclient env) a c = (c1, x)" by fastforce
  obtain w1 y where r: "rpc a (fst s) = (w1, y)" by fastforce
  have nc: "ce_newclient tenv = ce_newclient env" using assms by (simp add: traced_env_def)
  show ?case
  proof (cases x)
    case (Inl e)
    then show ?thesis using g nc Cons by simp
  next
    case (Inr b)
    then have "b = a" using g getConn_addr by blast
    then show ?thesis
      using g nc r traced_rpc_fst [where rpc = rpc, OF r] Inr Cons [of _ "(w1, snd s @ [Called a])" c1] by (cases y) simp_all
  qed
qed simp

lemma read_candidates_traced:
  assumes "traced_env env tenv"
  shows "read_candidates env rpc as le (fst s) c = (case read_candidates tenv (traced_rpc rpc) as le s c of (s', c', le', res) \<Rightarrow> (fst s', c', le', res))"
proof (induction as arbitrary: le s c)
  case (Cons a as)
  obtain c1 x where g: "client_getConn (ce_newclient env) a c = (c1, x)" by fastforce
  obtain w1 y where r: "rpc a (fst s) = (w1, y)" by fastforce
  have nc: "ce_newclient tenv = ce_newclient env" using assms by (simp add: traced_env_def)
  show ?case
  proof (cases x)
    case (Inl e)
    then show ?thesis using g nc by simp
  next
    case (Inr b)
    then have "b = a" using g getConn_addr by blast
    then show ?thesis
      using g nc r traced_rpc_fst [where rpc = rpc, OF r] Inr Cons [of _ "(w1, snd s @ [Called a])" c1] by (cases y) simp_all
  qed
qed simp

lemma write_attempts_traced:
  assumes t: "traced_env env tenv"
  shows "write_attempts n env rpc d (fst s) c = (case write_attempts n tenv (traced_rpc rpc) d s c of (s', c', res) \<Rightarrow> (fst s', c', res))"
proof (induction n arbitrary: d s c)
  case (Suc n)
  have sl: "ce_sleep env d (fst s1) = fst (ce_sleep tenv d s1)" for s1 using t by (simp add: traced_env_def traced_sleep_def)
  obtain s1 c1 le1 res1 where r: "write_round tenv (traced_rpc rpc) (candidates c) None s c = (s1, c1, le1, res1)" using prod_cases4 by blast
  show ?case using Suc r write_round_traced [OF t, of rpc "candidates c" None s c] sl [of s1] by (simp split: option.split)
qed simp

lemma read_attempts_traced:
  assumes t: "traced_env env tenv"
  shows "read_attempts n env rpc d le (fst s) c = (case read_attempts n tenv (traced_rpc rpc) d le s c of (s', c', res) \<Rightarrow> (fst s', c', res))"
proof (induction n arbitrary: d le s c)
  case (Suc n)
  have sl: "ce_sleep env d (fst s1) = fst (ce_sleep tenv d s1)" for s1 using t by (simp add: traced_env_def traced_sleep_def)
  obtain s1 c1 le1 res1 where r: "read_candidates tenv (traced_rpc rpc) (candidates c) le s c = (s1, c1, le1, res1)" using prod_cases4 by blast
  show ?case using Suc r read_candidates_traced [OF t, of rpc "candidates c" le s c] sl [of s1] by (auto split: option.split)
qed simp

lemma call_trace_bound:
  assumes "call_trace [] tr (maxRetries * length (candidates c)) (pauses (maxRetries - 1) (50 * Millisecond))"
  shows "length (filter is_call tr) \<le> 4 * Suc (length (cl_nodes c)) \<and> prefix (slept tr) [50 * Millisecond, 100 * Millisecond, 200 * Millisecond]"
proof -
  have "pauses (maxRetries - 1) (50 * Millisecond) = [50 * Millisecond, 100 * Millisecond, 200 * Millisecond]"
    by (simp add: maxRetries_def Millisecond_def eval_nat_numeral wrap64_def)
  then show ?thesis using assms length_candidates [of c] by (auto simp: call_trace_def maxRetries_def)
qed

text \<open>
  C29: a call ends after a bounded effort. Whatever the servers do, a write or a read makes at most
  four RPCs per configured node and four more to the leader it believes in, and it pauses at
  most 50, 100 and 200 milliseconds in between; a read never changes the leader the client
  believes in. The world and the result are those of the call without the trace.
\<close>

theorem client_calls_bounded:
  assumes "traced_env env tenv"
  shows "(\<exists>tr. doWrite tenv (traced_rpc rpc) (w, []) c = ((fst (doWrite env rpc w c), tr), snd (doWrite env rpc w c)) \<and>
        length (filter is_call tr) \<le> 4 * Suc (length (cl_nodes c)) \<and> prefix (slept tr) [50 * Millisecond, 100 * Millisecond, 200 * Millisecond]) \<and>
     (\<exists>tr. doRead tenv (traced_rpc rpc) (w, []) c = ((fst (doRead env rpc w c), tr), snd (doRead env rpc w c)) \<and>
        length (filter is_call tr) \<le> 4 * Suc (length (cl_nodes c)) \<and> prefix (slept tr) [50 * Millisecond, 100 * Millisecond, 200 * Millisecond] \<and>
        cl_leader (fst (snd (doRead env rpc w c))) = cl_leader c)"
proof -
  obtain w1 t1 c1 r1 where W: "doWrite tenv (traced_rpc rpc) (w, []) c = ((w1, t1), c1, r1)" by (metis prod.exhaust)
  obtain w2 t2 c2 r2 where R: "doRead tenv (traced_rpc rpc) (w, []) c = ((w2, t2), c2, r2)" by (metis prod.exhaust)
  have "doWrite env rpc w c = (w1, c1, r1)" "doRead env rpc w c = (w2, c2, r2)"
    using W R write_attempts_traced [OF assms, of maxRetries rpc _ "(w, [])" c] read_attempts_traced [OF assms, of maxRetries rpc _ _ "(w, [])" c]
    by (simp_all add: doWrite_def doRead_def)
  then show ?thesis
    using W R call_trace_bound [of t1 c] call_trace_bound [of t2 c]
      write_attempts_trace [OF assms W [unfolded doWrite_def]] read_attempts_trace [OF assms R [unfolded doRead_def]] by simp
qed

section \<open>Giving up\<close>

lemma write_gives_up:
  assumes "dials env (candidates c)" "\<And>x. refuse rpc err x (candidates c)" "candidates c \<noteq> []"
  shows "doWrite env rpc w c =
    (ce_sleep env (200 * Millisecond) (ce_sleep env (100 * Millisecond) (ce_sleep env (50 * Millisecond) w)),
     c\<lparr>cl_conns := cl_conns c \<union> set (candidates c)\<rparr>, Inl (NoLeaderAfter (RpcError (err (last (candidates c))))))"
proof -
  have r: "write_round env rpc (candidates c) None x (c\<lparr>cl_conns := cs\<rparr>) =
      (x, c\<lparr>cl_conns := cs \<union> set (candidates c)\<rparr>, Some (RpcError (err (last (candidates c)))), None)" for x cs
    using write_round_refused [OF assms(1,2), of "[]" None x "c\<lparr>cl_conns := cs\<rparr>"] assms(3) by simp
  show ?thesis
    using r [of _ "cl_conns c"] by (simp add: doWrite_def maxRetries_def eval_nat_numeral r wrap64_def Millisecond_def)
qed

section \<open>Examples\<close>

text \<open>Servers that count the requests; only \<^verbatim>\<open>b\<close> takes them.\<close>

definition demo_rpc :: "(nat, string) rpc" where
  "demo_rpc a w = (if a = ''b'' then (Suc w, Inr ''done'') else (w, Inl (Status FailedPrecondition ''not leader'')))"

text \<open>A service that implements nothing.\<close>

definition silent_service :: "'w KVService" where
  "silent_service =
     \<lparr>svc_Set = (\<lambda>_ _ _ a w. (w, Inl (Status Unimplemented []))),
      svc_Get = (\<lambda>_ a w. (w, Inl (Status Unimplemented []))),
      svc_Delete = (\<lambda>_ a w. (w, Inl (Status Unimplemented []))),
      svc_Incr = (\<lambda>_ a w. (w, Inl (Status Unimplemented []))),
      svc_Decr = (\<lambda>_ a w. (w, Inl (Status Unimplemented []))),
      svc_HSet = (\<lambda>_ _ _ _ a w. (w, Inl (Status Unimplemented []))),
      svc_HDelete = (\<lambda>_ _ a w. (w, Inl (Status Unimplemented []))),
      svc_HGet = (\<lambda>_ _ a w. (w, Inl (Status Unimplemented []))),
      svc_HGetAll = (\<lambda>_ a w. (w, Inl (Status Unimplemented []))),
      svc_HExists = (\<lambda>_ _ a w. (w, Inl (Status Unimplemented []))),
      svc_LPush = (\<lambda>_ _ _ a w. (w, Inl (Status Unimplemented []))),
      svc_RPush = (\<lambda>_ _ _ a w. (w, Inl (Status Unimplemented []))),
      svc_LPop = (\<lambda>_ a w. (w, Inl (Status Unimplemented []))),
      svc_LRange = (\<lambda>_ _ _ a w. (w, Inl (Status Unimplemented []))),
      svc_RPop = (\<lambda>_ a w. (w, Inl (Status Unimplemented []))),
      svc_LLen = (\<lambda>_ a w. (w, Inl (Status Unimplemented []))),
      svc_ZAdd = (\<lambda>_ _ _ _ a w. (w, Inl (Status Unimplemented []))),
      svc_ZRange = (\<lambda>_ _ _ _ a w. (w, Inl (Status Unimplemented []))),
      svc_ZScore = (\<lambda>_ _ a w. (w, Inl (Status Unimplemented []))),
      svc_ZRank = (\<lambda>_ _ a w. (w, Inl (Status Unimplemented []))),
      svc_ZRevRange = (\<lambda>_ _ _ _ a w. (w, Inl (Status Unimplemented []))),
      svc_ZRem = (\<lambda>_ _ a w. (w, Inl (Status Unimplemented []))),
      svc_AddNode = (\<lambda>_ _ a w. (w, Inl (Status Unimplemented []))),
      svc_RemoveNode = (\<lambda>_ a w. (w, Inl (Status Unimplemented []))),
      svc_Ping = (\<lambda>a w. (w, Inl (Status Unimplemented [])))\<rparr>"

definition demo_client_env :: "'w client_env" where
  "demo_client_env = \<lparr>ce_svc = silent_service, ce_newclient = (\<lambda>_. None), ce_sleep = (\<lambda>_ w. w)\<rparr>"

theorem write_finds_leader_witness:
  "\<exists>c'. doWrite demo_client_env demo_rpc 0 (NewClient [''a'', ''b'', ''c'']) = (1, c', Inr ''done'') \<and> cl_leader c' = ''b''"
  using write_finds_leader [of demo_client_env "NewClient [''a'', ''b'', ''c'']" "''b''" demo_rpc 0 1 "''done''" "\<lambda>_. Status FailedPrecondition ''not leader''"]
  by (auto simp: dials_def demo_client_env_def candidates_def NewClient_def demo_rpc_def refuse_def retryable_write_def)

theorem client_calls_bounded_witness:
  "\<exists>tr. length (filter is_call tr) \<le> 8 \<and>
     doWrite (demo_client_env\<lparr>ce_sleep := traced_sleep (\<lambda>_ w. w)\<rparr>) (traced_rpc demo_rpc) (0, []) (NewClient [''a'']) =
       ((fst (doWrite demo_client_env demo_rpc 0 (NewClient [''a''])), tr), snd (doWrite demo_client_env demo_rpc 0 (NewClient [''a''])))"
proof -
  have t: "traced_env (demo_client_env :: nat client_env) (demo_client_env\<lparr>ce_sleep := traced_sleep (\<lambda>_ w. w)\<rparr>)"
    by (simp add: traced_env_def demo_client_env_def)
  show ?thesis using client_calls_bounded [OF t, of demo_rpc 0 "NewClient [''a'']"] by (auto simp: NewClient_def)
qed

end
