(* ===== verification/Gateway.thy ===== *)
theory Gateway
  imports Client
begin

text \<open>
  The HTTP gateway (\<^verbatim>\<open>internal/server/gateway.go\<close>): a request is decoded, checked and turned into a
  call of the client library. The decoders of \<^verbatim>\<open>encoding/json\<close> are arguments; a JSON answer is kept
  as the value that is encoded.
\<close>

section \<open>Requests and answers\<close>

record keyReq =
  kr_Key :: string

record setReq =
  sr_Key :: string
  sr_Value :: string
  sr_TtlMs :: int64

record hsetReq =
  hr_Key :: string
  hr_Field :: string
  hr_Value :: string

record lpushReq =
  lr_Key :: string
  lr_Values :: "string list"

record zaddReq =
  zr_Key :: string
  zr_Score :: float64
  zr_Member :: string

record nodeReq =
  nr_NodeID :: string
  nr_Address :: string

text \<open>
  A decoder returns the text of its error or the struct, whose missing fields are empty; the
  request to remove a node is a struct with the node's name only.
\<close>

record json_decoders =
  dec_key :: "bytes \<Rightarrow> string + keyReq"
  dec_set :: "bytes \<Rightarrow> string + setReq"
  dec_hset :: "bytes \<Rightarrow> string + hsetReq"
  dec_lpush :: "bytes \<Rightarrow> string + lpushReq"
  dec_zadd :: "bytes \<Rightarrow> string + zaddReq"
  dec_node :: "bytes \<Rightarrow> string + nodeReq"
  dec_nodeID :: "bytes \<Rightarrow> string + string"

text \<open>\<open>rq_query\<close> is \<^verbatim>\<open>r.URL.Query().Get\<close>, which is empty for a missing parameter.\<close>

record http_request =
  rq_method :: string
  rq_path :: string
  rq_query :: "string \<Rightarrow> string"
  rq_body :: bytes

datatype http_body =
    TextBody string | ErrorBody client_error | SuccessBody | ValueBody string | NumberBody int64
  | FieldsBody "string \<rightharpoonup> string" | CountBody int64 | ValuesBody "string list" | MembersBody "string list"

record http_response =
  rs_code :: nat
  rs_body :: http_body

definition StatusOK :: nat where "StatusOK = 200"
definition StatusBadRequest :: nat where "StatusBadRequest = 400"
definition StatusNotFound :: nat where "StatusNotFound = 404"
definition StatusMethodNotAllowed :: nat where "StatusMethodNotAllowed = 405"
definition StatusInternalServerError :: nat where "StatusInternalServerError = 500"

lemmas http_status_defs = StatusOK_def StatusBadRequest_def StatusNotFound_def StatusMethodNotAllowed_def StatusInternalServerError_def

definition respondError :: "string \<Rightarrow> nat \<Rightarrow> http_response" where
  "respondError msg code = \<lparr>rs_code = code, rs_body = TextBody msg\<rparr>"

definition respondFailure :: "client_error \<Rightarrow> nat \<Rightarrow> http_response" where
  "respondFailure err code = \<lparr>rs_code = code, rs_body = ErrorBody err\<rparr>"

definition respondJSON :: "nat \<Rightarrow> http_body \<Rightarrow> http_response" where
  "respondJSON code val = \<lparr>rs_code = code, rs_body = val\<rparr>"

definition respondSuccess :: http_response where
  "respondSuccess = respondJSON StatusOK SuccessBody"

text \<open>The end every handler has: call the client, and answer with the result or the error.\<close>

type_synonym 'w served = "'w \<Rightarrow> Client \<Rightarrow> 'w \<times> Client \<times> http_response"

definition answer_call :: "('w, 'a) called \<Rightarrow> nat \<Rightarrow> ('a \<Rightarrow> http_response) \<Rightarrow> 'w served" where
  "answer_call call errcode ok w c =
     (case call w c of
        (w1, c1, Inl err) \<Rightarrow> (w1, c1, respondFailure err errcode)
      | (w1, c1, Inr v) \<Rightarrow> (w1, c1, ok v))"

definition answer_now :: "http_response \<Rightarrow> 'w served" where
  "answer_now resp w c = (w, c, resp)"

section \<open>Strings\<close>

definition gw_handleSet :: "'w client_env \<Rightarrow> json_decoders \<Rightarrow> http_request \<Rightarrow> 'w served" where
  "gw_handleSet env jd r =
     (case dec_set jd (rq_body r) of
        Inl err \<Rightarrow> answer_now (respondError err StatusBadRequest)
      | Inr req \<Rightarrow>
          if sr_Key req = [] then answer_now (respondError ''key is required'' StatusBadRequest)
          else answer_call (client_Set env (sr_Key req) (sr_Value req) (wrap64 (sr_TtlMs req * Millisecond)))
                 StatusInternalServerError (\<lambda>_. respondSuccess))"

definition gw_handleGet :: "'w client_env \<Rightarrow> http_request \<Rightarrow> 'w served" where
  "gw_handleGet env r =
     (if rq_query r ''key'' = [] then answer_now (respondError ''key is required'' StatusBadRequest)
      else answer_call (client_Get env (rq_query r ''key'')) StatusNotFound (\<lambda>v. respondJSON StatusOK (ValueBody v)))"

definition gw_handleDelete :: "'w client_env \<Rightarrow> http_request \<Rightarrow> 'w served" where
  "gw_handleDelete env r =
     (if rq_query r ''key'' = [] then answer_now (respondError ''key is required'' StatusBadRequest)
      else answer_call (client_Delete env (rq_query r ''key'')) StatusInternalServerError (\<lambda>_. respondSuccess))"

definition gw_handleIncr :: "'w client_env \<Rightarrow> json_decoders \<Rightarrow> http_request \<Rightarrow> 'w served" where
  "gw_handleIncr env jd r =
     (case dec_key jd (rq_body r) of
        Inl err \<Rightarrow> answer_now (respondError err StatusBadRequest)
      | Inr req \<Rightarrow> answer_call (client_Incr env (kr_Key req)) StatusInternalServerError (\<lambda>v. respondJSON StatusOK (NumberBody v)))"

definition gw_handleDecr :: "'w client_env \<Rightarrow> json_decoders \<Rightarrow> http_request \<Rightarrow> 'w served" where
  "gw_handleDecr env jd r =
     (case dec_key jd (rq_body r) of
        Inl err \<Rightarrow> answer_now (respondError err StatusBadRequest)
      | Inr req \<Rightarrow> answer_call (client_Decr env (kr_Key req)) StatusInternalServerError (\<lambda>v. respondJSON StatusOK (NumberBody v)))"

section \<open>Hashes\<close>

definition gw_handleHSet :: "'w client_env \<Rightarrow> json_decoders \<Rightarrow> http_request \<Rightarrow> 'w served" where
  "gw_handleHSet env jd r =
     (case dec_hset jd (rq_body r) of
        Inl err \<Rightarrow> answer_now (respondError err StatusBadRequest)
      | Inr req \<Rightarrow> answer_call (client_HSet env (hr_Key req) (hr_Field req) (hr_Value req)) StatusInternalServerError (\<lambda>_. respondSuccess))"

definition gw_handleHGet :: "'w client_env \<Rightarrow> http_request \<Rightarrow> 'w served" where
  "gw_handleHGet env r =
     (if rq_query r ''key'' = [] \<or> rq_query r ''field'' = [] then answer_now (respondError ''key and field are required'' StatusBadRequest)
      else answer_call (client_HGet env (rq_query r ''key'') (rq_query r ''field'')) StatusNotFound (\<lambda>v. respondJSON StatusOK (ValueBody v)))"

definition gw_handleHGetAll :: "'w client_env \<Rightarrow> http_request \<Rightarrow> 'w served" where
  "gw_handleHGetAll env r =
     (if rq_query r ''key'' = [] then answer_now (respondError ''key is required'' StatusBadRequest)
      else answer_call (client_HGetAll env (rq_query r ''key'')) StatusNotFound (\<lambda>v. respondJSON StatusOK (FieldsBody v)))"

section \<open>Lists\<close>

definition gw_handleLPush :: "'w client_env \<Rightarrow> json_decoders \<Rightarrow> http_request \<Rightarrow> 'w served" where
  "gw_handleLPush env jd r =
     (case dec_lpush jd (rq_body r) of
        Inl err \<Rightarrow> answer_now (respondError err StatusBadRequest)
      | Inr req \<Rightarrow> answer_call (client_LPush env (lr_Key req) (lr_Values req)) StatusInternalServerError (\<lambda>v. respondJSON StatusOK (CountBody v)))"

definition gw_handleRPush :: "'w client_env \<Rightarrow> json_decoders \<Rightarrow> http_request \<Rightarrow> 'w served" where
  "gw_handleRPush env jd r =
     (case dec_lpush jd (rq_body r) of
        Inl err \<Rightarrow> answer_now (respondError err StatusBadRequest)
      | Inr req \<Rightarrow> answer_call (client_RPush env (lr_Key req) (lr_Values req)) StatusInternalServerError (\<lambda>v. respondJSON StatusOK (CountBody v)))"

definition gw_handleLPop :: "'w client_env \<Rightarrow> json_decoders \<Rightarrow> http_request \<Rightarrow> 'w served" where
  "gw_handleLPop env jd r =
     (case dec_key jd (rq_body r) of
        Inl err \<Rightarrow> answer_now (respondError err StatusBadRequest)
      | Inr req \<Rightarrow> answer_call (client_LPop env (kr_Key req)) StatusInternalServerError (\<lambda>v. respondJSON StatusOK (ValueBody v)))"

text \<open>
  The bounds of a range: \<^verbatim>\<open>strconv.Atoi\<close> is \<open>parse_int\<close>, whose value is 0 on a syntax error and the
  nearest bound on a range error; only the error of the second bound is looked at.
\<close>

definition query_range :: "http_request \<Rightarrow> int64 \<times> int64" where
  "query_range r =
     (fst (parse_int (rq_query r ''start'')),
      case parse_int (rq_query r ''stop'') of (stop, None) \<Rightarrow> stop | (_, Some _) \<Rightarrow> - 1)"

definition gw_handleLRange :: "'w client_env \<Rightarrow> http_request \<Rightarrow> 'w served" where
  "gw_handleLRange env r =
     (if rq_query r ''key'' = [] then answer_now (respondError ''key is required'' StatusBadRequest)
      else case query_range r of
             (start, stop) \<Rightarrow> answer_call (client_LRange env (rq_query r ''key'') start stop) StatusNotFound (\<lambda>v. respondJSON StatusOK (ValuesBody v)))"

section \<open>Sorted sets\<close>

definition gw_handleZAdd :: "'w client_env \<Rightarrow> json_decoders \<Rightarrow> http_request \<Rightarrow> 'w served" where
  "gw_handleZAdd env jd r =
     (case dec_zadd jd (rq_body r) of
        Inl err \<Rightarrow> answer_now (respondError err StatusBadRequest)
      | Inr req \<Rightarrow> answer_call (client_ZAdd env (zr_Key req) (zr_Score req) (zr_Member req)) StatusInternalServerError (\<lambda>_. respondSuccess))"

definition gw_handleZRange :: "'w client_env \<Rightarrow> http_request \<Rightarrow> 'w served" where
  "gw_handleZRange env r =
     (if rq_query r ''key'' = [] then answer_now (respondError ''key is required'' StatusBadRequest)
      else case query_range r of
             (start, stop) \<Rightarrow> answer_call (client_ZRange env (rq_query r ''key'') start stop) StatusNotFound (\<lambda>v. respondJSON StatusOK (MembersBody v)))"

section \<open>Cluster management\<close>

definition gw_handleAddNode :: "'w client_env \<Rightarrow> json_decoders \<Rightarrow> http_request \<Rightarrow> 'w served" where
  "gw_handleAddNode env jd r =
     (case dec_node jd (rq_body r) of
        Inl err \<Rightarrow> answer_now (respondError ''invalid JSON'' StatusBadRequest)
      | Inr req \<Rightarrow>
          if nr_NodeID req = [] \<or> nr_Address req = [] then answer_now (respondError ''node_id and address are required'' StatusBadRequest)
          else answer_call (client_AddNode env (nr_NodeID req) (nr_Address req)) StatusInternalServerError (\<lambda>_. respondSuccess))"

definition gw_handleRemoveNode :: "'w client_env \<Rightarrow> json_decoders \<Rightarrow> http_request \<Rightarrow> 'w served" where
  "gw_handleRemoveNode env jd r =
     (case dec_nodeID jd (rq_body r) of
        Inl err \<Rightarrow> answer_now (respondError ''invalid JSON'' StatusBadRequest)
      | Inr req \<Rightarrow>
          if req = [] then answer_now (respondError ''node_id is required'' StatusBadRequest)
          else answer_call (client_RemoveNode env (req)) StatusInternalServerError (\<lambda>_. respondSuccess))"

section \<open>Routes\<close>

text \<open>
  The patterns of \<^verbatim>\<open>http.ServeMux\<close>: a method and a literal path; \<^verbatim>\<open>GET\<close> also takes \<^verbatim>\<open>HEAD\<close>. A path
  known for other methods only is answered with 405, any other with 404.
\<close>

definition gateway_routes :: "'w client_env \<Rightarrow> json_decoders \<Rightarrow> ((string \<times> string) \<times> (http_request \<Rightarrow> 'w served)) list" where
  "gateway_routes env jd =
     [((''POST'', ''/api/v1/string/set''), gw_handleSet env jd),
      ((''GET'', ''/api/v1/string/get''), gw_handleGet env),
      ((''DELETE'', ''/api/v1/string/delete''), gw_handleDelete env),
      ((''POST'', ''/api/v1/string/incr''), gw_handleIncr env jd),
      ((''POST'', ''/api/v1/string/decr''), gw_handleDecr env jd),
      ((''POST'', ''/api/v1/hash/set''), gw_handleHSet env jd),
      ((''GET'', ''/api/v1/hash/get''), gw_handleHGet env),
      ((''GET'', ''/api/v1/hash/getall''), gw_handleHGetAll env),
      ((''POST'', ''/api/v1/list/lpush''), gw_handleLPush env jd),
      ((''POST'', ''/api/v1/list/rpush''), gw_handleRPush env jd),
      ((''POST'', ''/api/v1/list/lpop''), gw_handleLPop env jd),
      ((''GET'', ''/api/v1/list/range''), gw_handleLRange env),
      ((''POST'', ''/api/v1/zset/add''), gw_handleZAdd env jd),
      ((''GET'', ''/api/v1/zset/range''), gw_handleZRange env),
      ((''POST'', ''/api/v1/cluster/add-node''), gw_handleAddNode env jd),
      ((''POST'', ''/api/v1/cluster/remove-node''), gw_handleRemoveNode env jd),
      ((''GET'', ''/health''), \<lambda>r. answer_now (respondError ''OK'' StatusOK))]"

definition gateway_ServeHTTP :: "'w client_env \<Rightarrow> json_decoders \<Rightarrow> http_request \<Rightarrow> 'w served" where
  "gateway_ServeHTTP env jd r =
     (let routes = gateway_routes env jd;
          method = (if rq_method r = ''HEAD'' then ''GET'' else rq_method r)
      in case map_of routes (method, rq_path r) of
           Some h \<Rightarrow> h r
         | None \<Rightarrow>
             if rq_path r \<in> set (map (snd \<circ> fst) routes) then answer_now (respondError ''Method Not Allowed'' StatusMethodNotAllowed)
             else answer_now (respondError ''404 page not found'' StatusNotFound))"

end
