(* ===== verification/Commands.thy ===== *)
theory Commands
  imports Gateway RaftLoop RaftRPC KVHandler
begin

text \<open>
  The two programs: the start of a server from its flags (\<^verbatim>\<open>cmd/server/main.go\<close>) and the commands
  of \<^verbatim>\<open>kvctl\<close> (\<^verbatim>\<open>cmd/kvctl/main.go\<close>). Flags and the count of the arguments are checked by the
  libraries \<^verbatim>\<open>flag\<close> and \<^verbatim>\<open>cobra\<close>; what \<^verbatim>\<open>cobra.ExactArgs\<close> and \<^verbatim>\<open>cobra.MinimumNArgs\<close> demand is part of
  each command here.
\<close>

section \<open>Splitting strings\<close>

text \<open>\<^verbatim>\<open>strings.Split\<close> at a separator of one character, and \<^verbatim>\<open>strings.SplitN(s, sep, 2)\<close>.\<close>

fun split_at :: "char \<Rightarrow> string \<Rightarrow> string list" where
  "split_at sep [] = [[]]"
| "split_at sep (c # cs) =
     (if c = sep then [] # split_at sep cs
      else case split_at sep cs of [] \<Rightarrow> [[c]] | p # ps \<Rightarrow> (c # p) # ps)"

fun split_once :: "char \<Rightarrow> string \<Rightarrow> string list" where
  "split_once sep [] = [[]]"
| "split_once sep (c # cs) =
     (if c = sep then [[], cs]
      else case split_once sep cs of [] \<Rightarrow> [[c]] | p # ps \<Rightarrow> (c # p) # ps)"

section \<open>Starting a server\<close>

text \<open>The table of peers: a part without an equals sign ends the program, \<open>Inl\<close> with that part.\<close>

fun add_peers :: "string list \<Rightarrow> peers \<Rightarrow> string + peers" where
  "add_peers [] ps = Inr ps"
| "add_peers (p # rest) ps =
     (case split_once (CHR ''='') p of
        [name, address] \<Rightarrow> add_peers rest (AList.update name address ps)
      | _ \<Rightarrow> Inl p)"

definition parse_peers :: "string \<Rightarrow> string + peers" where
  "parse_peers flag = (if flag = [] then Inr [] else add_peers (split_at (CHR '','') flag) [])"

text \<open>
  What the server is made of: the configuration of its node, the node, its transport, the handler
  of its requests (\<^verbatim>\<open>NewServer\<close>) and the client of its gateway.
\<close>

record server_parts =
  sp_config :: Config
  sp_transport :: GRPCTransport
  sp_node :: "kvstore RaftNode"
  sp_handler :: KVHandler
  sp_grpcAddr :: string
  sp_httpAddr :: string
  sp_client :: Client

datatype start_error = NodeIDRequired | InvalidPeer string | DataDirFailed string | NodeFailed raft_error

definition server_config :: "string \<Rightarrow> peers \<Rightarrow> string \<Rightarrow> Config" where
  "server_config nodeID peerMap nodeDataDir =
     \<lparr>NodeID = nodeID, Peers = peerMap, ElectionTimeoutMin = 150 * Millisecond, ElectionTimeoutMax = 300 * Millisecond,
      HeartbeatInterval = 50 * Millisecond, MaxLogEntriesPerRPC = 100, SnapshotThreshold = 1000,
      SnapshotChunkSize = 0, MaxSnapshotSize = 0, DataDir = nodeDataDir, SyncWrites = True,
      InitialElectionDelay = 1000 * Millisecond\<rparr>"

text \<open>
  The start, up to the serving of requests. \<open>mkdir\<close> is the error of \<^verbatim>\<open>os.MkdirAll\<close>, if any, \<open>order\<close> the
  order in which Go goes through the table of peers; the other arguments are those of
  \<^verbatim>\<open>NewRaftNode\<close> and the flags.
\<close>

definition server_main ::
  "(string \<Rightarrow> string option) \<Rightarrow> (peers \<Rightarrow> peers) \<Rightarrow> (LogEntry \<Rightarrow> bytes) \<Rightarrow> (bytes \<Rightarrow> LogEntry option) \<Rightarrow> (SnapshotMeta \<Rightarrow> bytes) \<Rightarrow>
     (bytes \<Rightarrow> SnapshotMeta option) \<Rightarrow> gotime \<Rightarrow> kvstore StateMachine \<Rightarrow> node_files \<Rightarrow> string \<Rightarrow> string \<Rightarrow> string \<Rightarrow> string \<Rightarrow> string \<Rightarrow>
     (start_error + server_parts) option" where
  "server_main mkdir order marshal unmarshal mjson ujson now sm files nodeID addr httpAddr peersFlag dataDirFlag =
     (if nodeID = [] then Some (Inl NodeIDRequired)
      else case parse_peers peersFlag of
             Inl p \<Rightarrow> Some (Inl (InvalidPeer p))
           | Inr peerMap \<Rightarrow>
               (let nodeDataDir = dataDirFlag @ ''/'' @ nodeID; cfg = server_config nodeID peerMap nodeDataDir
                in case mkdir nodeDataDir of
                     Some e \<Rightarrow> Some (Inl (DataDirFailed e))
                   | None \<Rightarrow>
                       (case NewRaftNode marshal unmarshal mjson ujson now cfg sm NewKVStore files of
                          None \<Rightarrow> None
                        | Some (Inl e) \<Rightarrow> Some (Inl (NodeFailed e))
                        | Some (Inr node) \<Rightarrow>
                            Some (Inr \<lparr>sp_config = cfg, sp_transport = NewGRPCTransport (map_of peerMap), sp_node = node,
                                       sp_handler = newKVHandler, sp_grpcAddr = addr, sp_httpAddr = httpAddr,
                                       sp_client = NewClient (addr # map snd (order peerMap))\<rparr>))))"

section \<open>Serving and stopping\<close>

text \<open>
  \<^verbatim>\<open>Server.Start\<close> and \<^verbatim>\<open>Gateway.Start\<close> wait until the context is cancelled or serving fails. A gateway
  that stops waits for its requests; \<open>shutdown\<close> is the error of that, if any.
\<close>

datatype serve_event = ContextDone | ServeFailed string

definition Server_Stop :: "KVHandler \<Rightarrow> KVHandler" where
  "Server_Stop h = handler_Close h"

definition Server_Start :: "string option \<Rightarrow> serve_event \<Rightarrow> KVHandler \<Rightarrow> KVHandler \<times> string option" where
  "Server_Start listen ev h =
     (case listen of
        Some e \<Rightarrow> (h, Some e)
      | None \<Rightarrow> (case ev of ContextDone \<Rightarrow> (handler_Close h, None) | ServeFailed e \<Rightarrow> (h, Some e)))"

definition Gateway_Start :: "string option \<Rightarrow> serve_event \<Rightarrow> string option" where
  "Gateway_Start shutdown ev = (case ev of ContextDone \<Rightarrow> shutdown | ServeFailed e \<Rightarrow> Some e)"

text \<open>The end of \<^verbatim>\<open>main\<close>: a server that fails ends the program at once, without the deferred calls.\<close>

definition server_end :: "(string \<Rightarrow> string option) \<Rightarrow> string option \<Rightarrow> serve_event \<Rightarrow> server_parts \<Rightarrow> server_parts \<times> string option" where
  "server_end closefails listen ev parts =
     (case Server_Start listen ev (sp_handler parts) of
        (h, Some e) \<Rightarrow> (parts\<lparr>sp_handler := h\<rparr>, Some e)
      | (h, None) \<Rightarrow>
          (parts\<lparr>sp_handler := h, sp_node := Stop (sp_node parts), sp_client := fst (Client_Close closefails (sp_client parts))\<rparr>, None))"

section \<open>The command line\<close>

text \<open>
  What a command prints is kept as the value that is printed; an error ends the program with
  status 1.
\<close>

datatype cli_error = ArgCount | InvalidScore | NodesRequired | CallFailed client_error

datatype cli_output =
    PrintNothing | PrintText string | PrintNumber int64 | PrintTruth bool | PrintFloat float64
  | PrintFields "string \<rightharpoonup> string" | PrintLines "string list" | PrintStatus "status_row list"

type_synonym 'w command = "'w \<Rightarrow> Client \<Rightarrow> 'w \<times> Client \<times> (cli_error + cli_output)"

definition ExactArgs :: "nat \<Rightarrow> string list \<Rightarrow> bool" where
  "ExactArgs n args = (length args = n)"

definition MinimumNArgs :: "nat \<Rightarrow> string list \<Rightarrow> bool" where
  "MinimumNArgs n args = (n \<le> length args)"

definition run_call :: "('w, 'a) called \<Rightarrow> ('a \<Rightarrow> cli_output) \<Rightarrow> 'w command" where
  "run_call call out w c =
     (case call w c of
        (w1, c1, Inl e) \<Rightarrow> (w1, c1, Inl (CallFailed e))
      | (w1, c1, Inr v) \<Rightarrow> (w1, c1, Inr (out v)))"

definition checked :: "bool \<Rightarrow> 'w command \<Rightarrow> 'w command" where
  "checked ok cmd w c = (if ok then cmd w c else (w, c, Inl ArgCount))"

definition kvctl_client :: "string \<Rightarrow> cli_error + Client" where
  "kvctl_client nodesFlag = (if nodesFlag = [] then Inl NodesRequired else Inr (NewClient (split_at (CHR '','') nodesFlag)))"

text \<open>The flag \<^verbatim>\<open>--ttl\<close> is a number of seconds.\<close>

definition setCmd :: "'w client_env \<Rightarrow> int64 \<Rightarrow> string list \<Rightarrow> 'w command" where
  "setCmd env ttlSec args = checked (MinimumNArgs 2 args)
     (run_call (client_Set env (args ! 0) (args ! 1) (wrap64 (ttlSec * (1000 * Millisecond)))) (\<lambda>_. PrintNothing))"

definition getCmd :: "'w client_env \<Rightarrow> string list \<Rightarrow> 'w command" where
  "getCmd env args = checked (ExactArgs 1 args) (run_call (client_Get env (args ! 0)) PrintText)"

definition delCmd :: "'w client_env \<Rightarrow> string list \<Rightarrow> 'w command" where
  "delCmd env args = checked (ExactArgs 1 args) (run_call (client_Delete env (args ! 0)) (\<lambda>_. PrintNothing))"

definition incrCmd :: "'w client_env \<Rightarrow> string list \<Rightarrow> 'w command" where
  "incrCmd env args = checked (ExactArgs 1 args) (run_call (client_Incr env (args ! 0)) PrintNumber)"

definition decrCmd :: "'w client_env \<Rightarrow> string list \<Rightarrow> 'w command" where
  "decrCmd env args = checked (ExactArgs 1 args) (run_call (client_Decr env (args ! 0)) PrintNumber)"

definition hsetCmd :: "'w client_env \<Rightarrow> string list \<Rightarrow> 'w command" where
  "hsetCmd env args = checked (ExactArgs 3 args) (run_call (client_HSet env (args ! 0) (args ! 1) (args ! 2)) (\<lambda>_. PrintNothing))"

definition hdelCmd :: "'w client_env \<Rightarrow> string list \<Rightarrow> 'w command" where
  "hdelCmd env args = checked (ExactArgs 2 args) (run_call (client_HDelete env (args ! 0) (args ! 1)) (\<lambda>_. PrintNothing))"

definition hgetCmd :: "'w client_env \<Rightarrow> string list \<Rightarrow> 'w command" where
  "hgetCmd env args = checked (ExactArgs 2 args) (run_call (client_HGet env (args ! 0) (args ! 1)) PrintText)"

definition hgetallCmd :: "'w client_env \<Rightarrow> string list \<Rightarrow> 'w command" where
  "hgetallCmd env args = checked (ExactArgs 1 args) (run_call (client_HGetAll env (args ! 0)) PrintFields)"

definition hexistsCmd :: "'w client_env \<Rightarrow> string list \<Rightarrow> 'w command" where
  "hexistsCmd env args = checked (ExactArgs 2 args) (run_call (client_HExists env (args ! 0) (args ! 1)) PrintTruth)"

definition lpushCmd :: "'w client_env \<Rightarrow> string list \<Rightarrow> 'w command" where
  "lpushCmd env args = checked (MinimumNArgs 2 args) (run_call (client_LPush env (args ! 0) (tl args)) PrintNumber)"

definition rpushCmd :: "'w client_env \<Rightarrow> string list \<Rightarrow> 'w command" where
  "rpushCmd env args = checked (MinimumNArgs 2 args) (run_call (client_RPush env (args ! 0) (tl args)) PrintNumber)"

definition lpopCmd :: "'w client_env \<Rightarrow> string list \<Rightarrow> 'w command" where
  "lpopCmd env args = checked (ExactArgs 1 args) (run_call (client_LPop env (args ! 0)) PrintText)"

definition rpopCmd :: "'w client_env \<Rightarrow> string list \<Rightarrow> 'w command" where
  "rpopCmd env args = checked (ExactArgs 1 args) (run_call (client_RPop env (args ! 0)) PrintText)"

definition lrangeCmd :: "'w client_env \<Rightarrow> string list \<Rightarrow> 'w command" where
  "lrangeCmd env args = checked (ExactArgs 3 args) (run_call (client_LRange env (args ! 0) (fst (parse_int (args ! 1))) (fst (parse_int (args ! 2)))) PrintLines)"

definition llenCmd :: "'w client_env \<Rightarrow> string list \<Rightarrow> 'w command" where
  "llenCmd env args = checked (ExactArgs 1 args) (run_call (client_LLen env (args ! 0)) PrintNumber)"

definition zaddCmd :: "'w client_env \<Rightarrow> string list \<Rightarrow> 'w command" where
  "zaddCmd env args = checked (ExactArgs 3 args)
     (case ParseFloat (args ! 1) of
        (score, None) \<Rightarrow> run_call (client_ZAdd env (args ! 0) score (args ! 2)) (\<lambda>_. PrintNothing)
      | (_, Some _) \<Rightarrow> (\<lambda>w c. (w, c, Inl InvalidScore)))"

definition zscoreCmd :: "'w client_env \<Rightarrow> string list \<Rightarrow> 'w command" where
  "zscoreCmd env args = checked (ExactArgs 2 args) (run_call (client_ZScore env (args ! 0) (args ! 1)) PrintFloat)"

definition zrankCmd :: "'w client_env \<Rightarrow> string list \<Rightarrow> 'w command" where
  "zrankCmd env args = checked (ExactArgs 2 args) (run_call (client_ZRank env (args ! 0) (args ! 1)) PrintNumber)"

definition zrangeCmd :: "'w client_env \<Rightarrow> string list \<Rightarrow> 'w command" where
  "zrangeCmd env args = checked (ExactArgs 3 args) (run_call (client_ZRange env (args ! 0) (fst (parse_int (args ! 1))) (fst (parse_int (args ! 2)))) PrintLines)"

definition zrevrangeCmd :: "'w client_env \<Rightarrow> string list \<Rightarrow> 'w command" where
  "zrevrangeCmd env args = checked (ExactArgs 3 args) (run_call (client_ZRevRange env (args ! 0) (fst (parse_int (args ! 1))) (fst (parse_int (args ! 2)))) PrintLines)"

definition zremCmd :: "'w client_env \<Rightarrow> string list \<Rightarrow> 'w command" where
  "zremCmd env args = checked (ExactArgs 2 args) (run_call (client_ZRem env (args ! 0) (args ! 1)) (\<lambda>_. PrintNothing))"

definition addNodeCmd :: "'w client_env \<Rightarrow> string list \<Rightarrow> 'w command" where
  "addNodeCmd env args = checked (ExactArgs 2 args) (run_call (client_AddNode env (args ! 0) (args ! 1)) (\<lambda>_. PrintNothing))"

definition removeNodeCmd :: "'w client_env \<Rightarrow> string list \<Rightarrow> 'w command" where
  "removeNodeCmd env args = checked (ExactArgs 1 args) (run_call (client_RemoveNode env (args ! 0)) (\<lambda>_. PrintNothing))"

definition statusCmd :: "'w client_env \<Rightarrow> 'w command" where
  "statusCmd env w c =
     (case client_ClusterStatus env w c of
        (w1, c1, _, Some e) \<Rightarrow> (w1, c1, Inl (CallFailed e))
      | (w1, c1, rows, None) \<Rightarrow> (w1, c1, Inr (PrintStatus rows)))"

end
