(* ===== verification/Served.thy ===== *)
theory Served
  imports Commands HandlerProps
begin

text \<open>
  A server as its clients see it (\<^verbatim>\<open>internal/server/server.go\<close>): the handlers of \<open>KVHandler\<close>
  registered as the RPCs of one address, on a host with a clock. Other addresses do not answer.
\<close>

text \<open>
  \<open>ho_lose\<close> is the number of answers the network is going to lose: the request is handled, and the
  caller sees its deadline pass.
\<close>

record 'w host =
  ho_world :: 'w
  ho_handler :: KVHandler
  ho_clock :: gotime
  ho_lose :: nat

definition host_rpc ::
  "string \<Rightarrow> (gotime \<Rightarrow> 'w handler_env) \<Rightarrow> ('w handler_env \<Rightarrow> 'w \<Rightarrow> KVHandler \<Rightarrow> ('w, 'a) handled) \<Rightarrow> ('w host, 'a) rpc" where
  "host_rpc self envf h a s =
     (if a \<noteq> self then (s, Inl (Status Unavailable ''connection refused''))
      else case h (envf (ho_clock s)) (ho_world s) (ho_handler s) of
             None \<Rightarrow> (s, Inl (Status Unavailable ''error reading from server''))
           | Some (w, k, res) \<Rightarrow>
               (s\<lparr>ho_world := w, ho_handler := k, ho_lose := ho_lose s - 1\<rparr>,
                if 0 < ho_lose s then Inl (Status DeadlineExceeded ''context deadline exceeded'') else res))"

abbreviation no_remote :: "string \<Rightarrow> grpc_error + 'a" where
  "no_remote \<equiv> (\<lambda>_. Inl (Status Unavailable ''connection refused''))"

definition host_service :: "string \<Rightarrow> (gotime \<Rightarrow> 'w handler_env) \<Rightarrow> 'w host KVService" where
  "host_service self envf =
     \<lparr>svc_Set = (\<lambda>key val ttlMs. host_rpc self envf (\<lambda>e. handle_Set e no_remote key val ttlMs)),
      svc_Get = (\<lambda>key. host_rpc self envf (\<lambda>e. handle_Get e (\<lambda>_. no_remote) key)),
      svc_Delete = (\<lambda>key. host_rpc self envf (\<lambda>e. handle_Delete e no_remote key)),
      svc_Incr = (\<lambda>key. host_rpc self envf (\<lambda>e. handle_Incr e (he_now e) no_remote key)),
      svc_Decr = (\<lambda>key. host_rpc self envf (\<lambda>e. handle_Decr e (he_now e) no_remote key)),
      svc_HSet = (\<lambda>key field val ttlMs. host_rpc self envf (\<lambda>e. handle_HSet e no_remote key field val ttlMs)),
      svc_HDelete = (\<lambda>key field. host_rpc self envf (\<lambda>e. handle_HDelete e no_remote key field)),
      svc_HGet = (\<lambda>key field. host_rpc self envf (\<lambda>e. handle_HGet e (\<lambda>_. no_remote) key field)),
      svc_HGetAll = (\<lambda>key. host_rpc self envf (\<lambda>e. handle_HGetAll e (\<lambda>_. no_remote) key)),
      svc_HExists = (\<lambda>key field. host_rpc self envf (\<lambda>e. handle_HExists e (\<lambda>_. no_remote) key field)),
      svc_LPush = (\<lambda>key vals ttlMs. host_rpc self envf (\<lambda>e. handle_LPush e no_remote key vals ttlMs)),
      svc_RPush = (\<lambda>key vals ttlMs. host_rpc self envf (\<lambda>e. handle_RPush e no_remote key vals ttlMs)),
      svc_LPop = (\<lambda>key. host_rpc self envf (\<lambda>e. handle_LPop e no_remote key)),
      svc_LRange = (\<lambda>key start stop. host_rpc self envf (\<lambda>e. handle_LRange e (\<lambda>_. no_remote) key start stop)),
      svc_RPop = (\<lambda>key. host_rpc self envf (\<lambda>e. handle_RPop e no_remote key)),
      svc_LLen = (\<lambda>key. host_rpc self envf (\<lambda>e. handle_LLen e (\<lambda>_. no_remote) key)),
      svc_ZAdd = (\<lambda>key score member ttlMs. host_rpc self envf (\<lambda>e. handle_ZAdd e no_remote key score member ttlMs)),
      svc_ZRange = (\<lambda>key start stop ws. host_rpc self envf (\<lambda>e. handle_ZRange e (\<lambda>_. no_remote) key start stop ws)),
      svc_ZScore = (\<lambda>key member. host_rpc self envf (\<lambda>e. handle_ZScore e (\<lambda>_. no_remote) key member)),
      svc_ZRank = (\<lambda>key member. host_rpc self envf (\<lambda>e. handle_ZRank e (\<lambda>_. no_remote) key member)),
      svc_ZRevRange = (\<lambda>key start stop ws. host_rpc self envf (\<lambda>e. handle_ZRevRange e (\<lambda>_. no_remote) key start stop ws)),
      svc_ZRem = (\<lambda>key member. host_rpc self envf (\<lambda>e. handle_ZRem e no_remote key member)),
      svc_AddNode = (\<lambda>nodeID addr. host_rpc self envf (\<lambda>e. handle_AddNode e no_remote nodeID addr)),
      svc_RemoveNode = (\<lambda>nodeID. host_rpc self envf (\<lambda>e. handle_RemoveNode e no_remote nodeID)),
      svc_Ping = host_rpc self envf (\<lambda>e w h. Some (w, h, Inr (handle_Ping e w)))\<rparr>"

definition host_env :: "string \<Rightarrow> (gotime \<Rightarrow> 'w handler_env) \<Rightarrow> 'w host client_env" where
  "host_env self envf =
     \<lparr>ce_svc = host_service self envf, ce_newclient = (\<lambda>_. None), ce_sleep = (\<lambda>d s. s\<lparr>ho_clock := ho_clock s + d\<rparr>)\<rparr>"

end
