(* ===== verification/EndToEnd.thy ===== *)
theory EndToEnd
  imports ClientProps Served
begin

text \<open>
  The whole path of a request: the HTTP gateway, the client library, the handlers of a server,
  its node and its store.
\<close>

section \<open>A served store behind an address\<close>

lemma host_rpc_self:
  "ho_lose s = 0 \<Longrightarrow> h (envf (ho_clock s)) (ho_world s) (ho_handler s) = Some (w, k, res) \<Longrightarrow>
     host_rpc self envf h self s = (s\<lparr>ho_world := w, ho_handler := k\<rparr>, res)"
  by (cases s) (simp add: host_rpc_def)

lemma host_refuses:
  "refuse (host_rpc self envf h) (\<lambda>_. Status Unavailable ''connection refused'') s (filter (\<lambda>a. a \<noteq> self) as)"
  by (induction as) (simp_all add: refuse_def host_rpc_def retryable_write_def)

lemma host_refuses_read:
  "list_all (\<lambda>a. \<exists>e. host_rpc self envf h a s = (s, Inl e) \<and> isRetryableReadError e) (filter (\<lambda>a. a \<noteq> self) as)"
  by (induction as) (simp_all add: host_rpc_def isRetryableReadError_def)

lemma host_dials: "dials (host_env self envf) as"
  by (induction as) (simp_all add: dials_def host_env_def)

lemma host_newclient [simp]: "ce_newclient (host_env self envf) a = None"
  by (simp add: host_env_def)

lemma host_services [simp]:
  "svc_Set (ce_svc (host_env self envf)) k v ttl = host_rpc self envf (\<lambda>e. handle_Set e no_remote k v ttl)"
  "svc_Get (ce_svc (host_env self envf)) k = host_rpc self envf (\<lambda>e. handle_Get e (\<lambda>_. no_remote) k)"
  "svc_Incr (ce_svc (host_env self envf)) k = host_rpc self envf (\<lambda>e. handle_Incr e (he_now e) no_remote k)"
  "svc_LPop (ce_svc (host_env self envf)) k = host_rpc self envf (\<lambda>e. handle_LPop e no_remote k)"
  by (simp_all add: host_env_def host_service_def)

lemma self_candidate: "self \<noteq> [] \<Longrightarrow> self \<in> set (cl_nodes c) \<Longrightarrow> self \<in> set (candidates c)"
  by (auto simp: candidates_def)

text \<open>A call of the client is the call of the handler, when the host is one of the configured nodes.\<close>

lemma client_write:
  assumes "self \<noteq> []" "self \<in> set (cl_nodes c)" "ho_lose s = 0"
    and "h (envf (ho_clock s)) (ho_world s) (ho_handler s) = Some (w, k, Inr v)"
  shows "\<exists>cs. doWrite (host_env self envf) (host_rpc self envf h) s c = (s\<lparr>ho_world := w, ho_handler := k\<rparr>, c\<lparr>cl_conns := cs, cl_leader := self\<rparr>, Inr v)"
  using doWrite_first_success [where rpc = "host_rpc self envf h", OF host_dials self_candidate [OF assms(1,2)] _ host_refuses]
    host_rpc_self [where h = h and envf = envf, OF assms(3,4)] by blast

lemma client_read:
  assumes "self \<noteq> []" "self \<in> set (cl_nodes c)" "ho_lose s = 0"
    and "h (envf (ho_clock s)) (ho_world s) (ho_handler s) = Some (w, k, Inr v)"
  shows "\<exists>c'. doRead (host_env self envf) (host_rpc self envf h) s c = (s\<lparr>ho_world := w, ho_handler := k\<rparr>, c', Inr v)"
  using doRead_first_success [where rpc = "host_rpc self envf h", OF host_dials self_candidate [OF assms(1,2)] _ host_refuses_read]
    host_rpc_self [where h = h and envf = envf, OF assms(3,4)] by blast

text \<open>The handlers of a host get the clock of the host.\<close>

locale served_host = served_store raft ok unmarshal clock
  for raft :: "'w RaftProposer" and ok :: "nat \<Rightarrow> 'w \<Rightarrow> bool" and unmarshal :: "bytes \<Rightarrow> CommandPayload option" and clock :: "'w \<Rightarrow> gotime \<times> gotime" +
  fixes envf :: "gotime \<Rightarrow> 'w handler_env"
  assumes envf_raft: "he_raft (envf t) = raft" and envf_now: "he_now (envf t) = t"
begin

lemma client_Set_applied:
  assumes ok: "ok (Suc n) (ho_world s)" and host: "self \<noteq> []" "self \<in> set (cl_nodes c)" "ho_lose s = 0"
    and codec: "he_marshal (envf (ho_clock s)) \<lparr>Op = ''SET'', Args = [k, v, format_int (expiryMilli (ho_clock s) (to_millis ttl))]\<rparr> = Some b"
      "unmarshal b = Some \<lparr>Op = ''SET'', Args = [k, v, format_int (expiryMilli (ho_clock s) (to_millis ttl))]\<rparr>"
    and key: "case abs_kv (rd_store raft (ho_world s)) k of None \<Rightarrow> True | Some c \<Rightarrow> type_name (fst c) = ''string''"
  shows "\<exists>w cs. client_Set (host_env self envf) k v ttl s c = (s\<lparr>ho_world := w\<rparr>, c\<lparr>cl_conns := cs, cl_leader := self\<rparr>, Inr True) \<and> ok n w \<and>
    abs_kv (rd_store raft w) k = Some (VString v, ms_expiry (expiryMilli (ho_clock s) (to_millis ttl)))"
proof -
  let ?t = "clock (ho_world s)" and ?args = "[k, v, format_int (expiryMilli (ho_clock s) (to_millis ttl))]"
  obtain m where m: "spec_command (fst ?t) (snd ?t) \<lparr>Op = ''SET'', Args = ?args\<rparr> (abs_kv (rd_store raft (ho_world s))) = (m, None)"
      "m k = Some (VString v, ms_expiry (expiryMilli (ho_clock s) (to_millis ttl)))"
    using spec_SET(2) [where m = "abs_kv (rd_store raft (ho_world s))" and k = k, OF key is_int64_expiryMilli] by blast
  have c: "clean_command (fst ?t) \<lparr>Op = ''SET'', Args = ?args\<rparr> (abs_kv (rd_store raft (ho_world s)))"
    by (rule spec_SET(1) [where m = "abs_kv (rd_store raft (ho_world s))" and k = k, OF key is_int64_expiryMilli])
  obtain w where w: "handle_Set (envf (ho_clock s)) no_remote k v (to_millis ttl) (ho_world s) (ho_handler s) = Some (w, ho_handler s, Inr True)"
      "ok n w" "abs_kv (rd_store raft w) = m"
    using write_applied [where remote = no_remote and resp = True and h = "ho_handler s", OF ok envf_raft codec c m(1)] envf_now by (auto simp: handle_Set_def)
  obtain cs where "doWrite (host_env self envf) (host_rpc self envf (\<lambda>e. handle_Set e no_remote k v (to_millis ttl))) s c =
      (s\<lparr>ho_world := w, ho_handler := ho_handler s\<rparr>, c\<lparr>cl_conns := cs, cl_leader := self\<rparr>, Inr True)"
    using client_write [where h = "\<lambda>e. handle_Set e no_remote k v (to_millis ttl)" and envf = envf, OF host w(1)] by blast
  moreover have "s\<lparr>ho_world := w, ho_handler := ho_handler s\<rparr> = s\<lparr>ho_world := w\<rparr>" by (cases s) simp
  ultimately show ?thesis using w m(2) by (auto simp: client_Set_def)
qed

lemma client_Get_answered:
  assumes ok: "ok n (ho_world s)" and host: "self \<noteq> []" "self \<in> set (cl_nodes c)" "ho_lose s = 0"
    and live: "abs_kv (rd_store raft (ho_world s)) k = Some (VString v, e)" "\<not> expired_at (ho_clock s) (VString v, e)"
  shows "\<exists>c'. client_Get (host_env self envf) k s c = (s, c', Inr v)"
proof -
  have "handle_Get (envf (ho_clock s)) (\<lambda>_. no_remote) k (ho_world s) (ho_handler s) = Some (ho_world s, ho_handler s, Inr v)"
    unfolding handle_Get_def using str_Get_live [OF tables [OF ok] live] envf_now by (intro read_answered [OF ok envf_raft]) simp
  then obtain c' where "doRead (host_env self envf) (host_rpc self envf (\<lambda>e. handle_Get e (\<lambda>_. no_remote) k)) s c =
      (s\<lparr>ho_world := ho_world s, ho_handler := ho_handler s\<rparr>, c', Inr v)"
    using client_read [where h = "\<lambda>e. handle_Get e (\<lambda>_. no_remote) k" and envf = envf, OF host] by blast
  moreover have "s\<lparr>ho_world := ho_world s, ho_handler := ho_handler s\<rparr> = s" by (cases s) simp
  ultimately show ?thesis by (auto simp: client_Get_def)
qed

text \<open>Counters: the handler answers with the number its command stored.\<close>

lemma counter_applied:
  assumes ok: "ok (Suc n) w" and codec: "he_marshal (envf t) \<lparr>Op = ''INCR'', Args = [k]\<rparr> = Some b" "unmarshal b = Some \<lparr>Op = ''INCR'', Args = [k]\<rparr>"
    and counter: "abs_kv (rd_store raft w) k = Some (VString (format_int i), None)" "is_int64 i" "is_int64 (i + 1)"
  shows "\<exists>w'. handle_Incr (envf t) t no_remote k w h = Some (w', h, Inr (i + 1)) \<and> ok n w' \<and>
    abs_kv (rd_store raft w') k = Some (VString (format_int (i + 1)), None)"
proof -
  let ?t = "clock w" and ?p = "\<lparr>Op = ''INCR'', Args = [k]\<rparr>"
  let ?m = "(abs_kv (rd_store raft w))(k \<mapsto> (VString (format_int (i + 1)), None))"
  have p: "purge x k (abs_kv (rd_store raft w)) = abs_kv (rd_store raft w)" for x
    using counter(1) by (simp add: purge_def expired_at_def)
  have spec: "spec_command (fst ?t) (snd ?t) ?p (abs_kv (rd_store raft w)) = (?m, None)"
    using counter by (simp add: spec_command_def spec_add_def p parse_int_format_int wrap64_id err_of_def)
  have clean: "clean_command (fst ?t) ?p (abs_kv (rd_store raft w))"
    using counter(1) by (simp add: clean_command_def written_type_def)
  obtain w' where w': "rp_Propose raft b w = (w', None)" "ok n w'" "abs_kv (rd_store raft w') = ?m"
    using applies [OF ok codec(2) clean] spec by auto
  have "str_Get t k (rd_store raft w') = (rd_store raft w', Inr (format_int (i + 1)))"
    using str_Get_live [OF tables [OF w'(2)]] w'(3) by (simp add: expired_at_def)
  then have "handle_Incr (envf t) t no_remote k w h = Some (w', h, Inr (i + 1))"
    using leads [OF ok] w'(1) codec(1) stores [OF w'(2)] counter(3)
    by (simp add: handle_Incr_def counter_handler_def envf_raft propose_def parse_int_format_int)
  then show ?thesis using w' by simp
qed

lemma client_Incr_resent:
  assumes ok: "ok (Suc (Suc n)) (ho_world s)" and host: "self \<noteq> []" "ho_lose s = 1"
    and codec: "\<And>t. he_marshal (envf t) \<lparr>Op = ''INCR'', Args = [k]\<rparr> = Some b" "unmarshal b = Some \<lparr>Op = ''INCR'', Args = [k]\<rparr>"
    and counter: "abs_kv (rd_store raft (ho_world s)) k = Some (VString (format_int i), None)" "is_int64 i" "is_int64 (i + 1)" "is_int64 (i + 2)"
  shows "\<exists>s' c'. client_Incr (host_env self envf) k s (NewClient [self]) = (s', c', Inr (i + 2)) \<and> ok n (ho_world s') \<and>
    abs_kv (rd_store raft (ho_world s')) k = Some (VString (format_int (i + 2)), None)"
proof -
  let ?rpc = "host_rpc self envf (\<lambda>e. handle_Incr e (he_now e) no_remote k)"
  obtain w1 where w1: "handle_Incr (envf (ho_clock s)) (ho_clock s) no_remote k (ho_world s) (ho_handler s) = Some (w1, ho_handler s, Inr (i + 1))"
      "ok (Suc n) w1" "abs_kv (rd_store raft w1) k = Some (VString (format_int (i + 1)), None)"
    using counter_applied [OF ok codec counter(1-3)] by blast
  let ?s1 = "s\<lparr>ho_world := w1, ho_lose := 0, ho_clock := ho_clock s + 50 * Millisecond\<rparr>"
  obtain w2 where w2: "handle_Incr (envf (ho_clock ?s1)) (ho_clock ?s1) no_remote k w1 (ho_handler s) = Some (w2, ho_handler s, Inr (i + 2))"
      "ok n w2" "abs_kv (rd_store raft w2) k = Some (VString (format_int (i + 2)), None)"
    using counter_applied [OF w1(2) codec w1(3)] counter(3,4) by (auto simp: add.assoc)
  have 1: "?rpc self s = (s\<lparr>ho_world := w1, ho_handler := ho_handler s, ho_lose := 0\<rparr>, Inl (Status DeadlineExceeded ''context deadline exceeded''))"
    using w1(1) host(2) envf_now by (simp add: host_rpc_def)
  have 2: "?rpc self ?s1 = (?s1\<lparr>ho_world := w2\<rparr>, Inr (i + 2))"
    using w2(1) envf_now by (cases s) (simp add: host_rpc_def)
  have c1: "candidates (NewClient [self]) = [self]" using host(1) by (simp add: candidates_def NewClient_def)
  have sleep: "ce_sleep (host_env self envf) d x = x\<lparr>ho_clock := ho_clock x + d\<rparr>" "ce_newclient (host_env self envf) a = None" for d x a
    by (simp_all add: host_env_def)
  have r1: "write_round (host_env self envf) ?rpc [self] None s (NewClient [self]) =
      (s\<lparr>ho_world := w1, ho_handler := ho_handler s, ho_lose := 0\<rparr>, (NewClient [self])\<lparr>cl_conns := {self}\<rparr>,
       Some (RpcError (Status DeadlineExceeded ''context deadline exceeded'')), None)"
    using 1 by (simp add: getConn_dials sleep retryable_write_def NewClient_def)
  have s1: "(s\<lparr>ho_world := w1, ho_handler := ho_handler s, ho_lose := 0\<rparr>)\<lparr>ho_clock := ho_clock s + 50 * Millisecond\<rparr> = ?s1" by (cases s) simp
  have r2: "write_round (host_env self envf) ?rpc [self] None ?s1 ((NewClient [self])\<lparr>cl_conns := {self}\<rparr>) =
      (?s1\<lparr>ho_world := w2\<rparr>, (NewClient [self])\<lparr>cl_conns := {self}, cl_leader := self\<rparr>, None, Some (Inr (i + 2)))"
    using 2 by (simp add: client_getConn_def)
  have "doWrite (host_env self envf) ?rpc s (NewClient [self]) = (?s1\<lparr>ho_world := w2\<rparr>, (NewClient [self])\<lparr>cl_conns := {self}, cl_leader := self\<rparr>, Inr (i + 2))"
    using r1 r2 s1 by (simp add: doWrite_def maxRetries_def eval_nat_numeral c1 sleep)
  then show ?thesis using w2 by (simp add: client_Incr_def)
qed

lemma client_LPop_wrong_type:
  assumes ok: "ok n (ho_world s)" and host: "self \<noteq> []" "ho_lose s = 0"
    and key: "keyTypes (rd_store raft (ho_world s)) k = Some ty" "ty \<noteq> ''list''"
  shows "\<exists>c'. client_LPop (host_env self envf) k s (NewClient [self]) =
    (s\<lparr>ho_clock := ho_clock s + 350 * Millisecond\<rparr>, c', Inl (NoLeaderAfter (RpcError (notFoundToGRPC ErrWrongType))))"
proof -
  let ?rpc = "host_rpc self envf (\<lambda>e. handle_LPop e no_remote k)"
  have h: "handle_LPop (envf t) no_remote k (ho_world s) (ho_handler s) = Some (ho_world s, ho_handler s, Inl (notFoundToGRPC ErrWrongType))" for t
    using leads [OF ok] confirms [OF ok] stores [OF ok] key
    by (auto simp: handle_LPop_def pop_handler_def envf_raft LRange_def CheckType_def)
  have rpc: "?rpc self (s\<lparr>ho_clock := t\<rparr>) = (s\<lparr>ho_clock := t\<rparr>, Inl (notFoundToGRPC ErrWrongType))" for t
    using h host(2) by (cases s) (simp add: host_rpc_def)
  have r: "write_round (host_env self envf) ?rpc [self] None (s\<lparr>ho_clock := t\<rparr>) ((NewClient [self])\<lparr>cl_conns := cs\<rparr>) =
      (s\<lparr>ho_clock := t\<rparr>, (NewClient [self])\<lparr>cl_conns := insert self cs\<rparr>, Some (RpcError (notFoundToGRPC ErrWrongType)), None)" for t cs
    by (simp add: getConn_dials rpc retryable_write_def notFoundToGRPC_def)
  have c1: "candidates (NewClient [self]) = [self]" using host(1) by (simp add: candidates_def NewClient_def)
  have sl: "ce_sleep (host_env self envf) d (s\<lparr>ho_clock := t\<rparr>) = s\<lparr>ho_clock := t + d\<rparr>" for d t by (simp add: host_env_def)
  have i: "s\<lparr>ho_clock := ho_clock s\<rparr> = s" "(NewClient [self])\<lparr>cl_conns := {}\<rparr> = NewClient [self]" by (simp_all add: NewClient_def)
  have r0: "write_round (host_env self envf) ?rpc [self] None s (NewClient [self]) =
      (s, (NewClient [self])\<lparr>cl_conns := {self}\<rparr>, Some (RpcError (notFoundToGRPC ErrWrongType)), None)"
    using r [of "ho_clock s" "{}"] unfolding i .
  have "doWrite (host_env self envf) ?rpc s (NewClient [self]) =
      (s\<lparr>ho_clock := ho_clock s + 350 * Millisecond\<rparr>, (NewClient [self])\<lparr>cl_conns := {self}\<rparr>, Inl (NoLeaderAfter (RpcError (notFoundToGRPC ErrWrongType))))"
    using r0 sl [of _ "ho_clock s", unfolded i] by (simp add: doWrite_def maxRetries_def eval_nat_numeral c1 sl r Millisecond_def wrap64_def del: write_round.simps)
  then show ?thesis by (simp add: client_LPop_def)
qed

end

section \<open>A node alone in its cluster\<close>

definition host_handlers :: "(CommandPayload \<Rightarrow> bytes option) \<Rightarrow> 'w RaftProposer \<Rightarrow> gotime \<Rightarrow> 'w handler_env" where
  "host_handlers cm raft t = \<lparr>he_raft = raft, he_marshal = cm, he_now = t, he_dialfails = False, he_forwarded = False\<rparr>"

interpretation lone_host: served_host "lone_api senv marshal mjson ujson" lone_ok "env_unmarshal senv" "\<lambda>r. env_clock senv (LastIndex (rlog r) + 1)"
  "host_handlers cm (lone_api senv marshal mjson ujson)" for senv marshal mjson ujson cm
  by unfold_locales (simp_all add: host_handlers_def)

lemma lone_store [simp]: "rd_store (lone_api senv marshal mjson ujson) = stateMachine"
  by (simp add: lone_api_def)

text \<open>A time to live survives the way through a duration, unless it does not fit in one.\<close>

lemma ttl_round_trip:
  assumes "\<bar>ttl\<bar> \<le> 9223372036854"
  shows "to_millis (wrap64 (ttl * Millisecond)) = ttl"
proof -
  have "is_int64 (ttl * Millisecond)" using assms by (auto simp: is_int64_def min_int64_def max_int64_def Millisecond_def abs_le_iff)
  then show ?thesis using nonzero_mult_div_cancel_right [of 1000000 "- ttl"] by (simp add: to_millis_def Millisecond_def)
qed

lemma route_set: "rq_method r = ''POST'' \<Longrightarrow> rq_path r = ''/api/v1/string/set'' \<Longrightarrow> gateway_ServeHTTP env jd r = gw_handleSet env jd r"
  by (simp add: gateway_ServeHTTP_def gateway_routes_def Let_def)

lemma route_get: "rq_method r = ''GET'' \<Longrightarrow> rq_path r = ''/api/v1/string/get'' \<Longrightarrow> gateway_ServeHTTP env jd r = gw_handleGet env r"
  by (simp add: gateway_ServeHTTP_def gateway_routes_def Let_def)

text \<open>
  C14: a value put through HTTP is read through HTTP. A \<^verbatim>\<open>POST\<close> to \<^verbatim>\<open>/api/v1/string/set\<close> at a gateway
  whose client knows the address of a node alone in its cluster, among others that do not answer,
  is answered with 200 when the key is free or holds a string: decoded, sent by the client,
  proposed by the handler, written to the log, committed and applied. A \<^verbatim>\<open>GET\<close> at any later time
  before the expiration the handler computed answers 200 with the value.
\<close>

theorem http_set_then_get:
  fixes s :: "kvstore RaftNode host"
  assumes env_def: "env = host_env self (host_handlers cm (lone_api senv marshal mjson ujson))"
    and "lone_ok (Suc n) (ho_world s)" "self \<noteq> []" "self \<in> set (cl_nodes c)" "ho_lose s = 0"
    and post: "rq_method rs = ''POST''" "rq_path rs = ''/api/v1/string/set''" "dec_set jd (rq_body rs) = Inr \<lparr>sr_Key = k, sr_Value = v, sr_TtlMs = ttl\<rparr>"
      "k \<noteq> []" "\<bar>ttl\<bar> \<le> 9223372036854"
    and codec: "cm \<lparr>Op = ''SET'', Args = [k, v, format_int (expiryMilli (ho_clock s) ttl)]\<rparr> = Some b"
      "env_unmarshal senv b = Some \<lparr>Op = ''SET'', Args = [k, v, format_int (expiryMilli (ho_clock s) ttl)]\<rparr>"
    and key: "case abs_kv (stateMachine (ho_world s)) k of None \<Rightarrow> True | Some c \<Rightarrow> type_name (fst c) = ''string''"
    and get: "rq_method rg = ''GET''" "rq_path rg = ''/api/v1/string/get''" "rq_query rg ''key'' = k"
    and live: "\<not> expired_at t (VString v, ms_expiry (expiryMilli (ho_clock s) ttl))"
  shows "\<exists>s' c' c''. gateway_ServeHTTP env jd rs s c = (s', c', \<lparr>rs_code = 200, rs_body = SuccessBody\<rparr>) \<and> cl_leader c' = self \<and>
     gateway_ServeHTTP env jd rg (s'\<lparr>ho_clock := t\<rparr>) c' = (s'\<lparr>ho_clock := t\<rparr>, c'', \<lparr>rs_code = 200, rs_body = ValueBody v\<rparr>)"
proof -
  let ?api = "lone_api senv marshal mjson ujson"
  have codec': "he_marshal (host_handlers cm ?api (ho_clock s)) \<lparr>Op = ''SET'', Args = [k, v, format_int (expiryMilli (ho_clock s) (to_millis (wrap64 (ttl * Millisecond))))]\<rparr> = Some b"
    "env_unmarshal senv b = Some \<lparr>Op = ''SET'', Args = [k, v, format_int (expiryMilli (ho_clock s) (to_millis (wrap64 (ttl * Millisecond))))]\<rparr>"
    using codec ttl_round_trip [OF post(5)] by (simp_all add: host_handlers_def)
  obtain w cs where set: "client_Set env k v (wrap64 (ttl * Millisecond)) s c = (s\<lparr>ho_world := w\<rparr>, c\<lparr>cl_conns := cs, cl_leader := self\<rparr>, Inr True)"
      "lone_ok n w" "abs_kv (stateMachine w) k = Some (VString v, ms_expiry (expiryMilli (ho_clock s) ttl))"
    using lone_host.client_Set_applied [where cm = cm, OF assms(2-5) codec'] key ttl_round_trip [OF post(5)] unfolding env_def by auto
  let ?s1 = "s\<lparr>ho_world := w\<rparr>" and ?c1 = "c\<lparr>cl_conns := cs, cl_leader := self\<rparr>"
  have 1: "gateway_ServeHTTP env jd rs s c = (?s1, ?c1, \<lparr>rs_code = 200, rs_body = SuccessBody\<rparr>)"
    unfolding route_set [OF post(1,2)] using set(1) post(3,4)
    by (simp add: gw_handleSet_def answer_call_def respondSuccess_def respondJSON_def StatusOK_def)
  obtain c2 where "client_Get env k (?s1\<lparr>ho_clock := t\<rparr>) ?c1 = (?s1\<lparr>ho_clock := t\<rparr>, c2, Inr v)"
    using lone_host.client_Get_answered [of n "?s1\<lparr>ho_clock := t\<rparr>" self ?c1 senv marshal mjson ujson k v _ cm] set(2,3) assms(3-5) live
    unfolding env_def by auto
  then have "gateway_ServeHTTP env jd rg (?s1\<lparr>ho_clock := t\<rparr>) ?c1 = (?s1\<lparr>ho_clock := t\<rparr>, c2, \<lparr>rs_code = 200, rs_body = ValueBody v\<rparr>)"
    unfolding route_get [OF get(1,2)] using get(3) post(4)
    by (simp add: gw_handleGet_def answer_call_def respondJSON_def StatusOK_def)
  with 1 show ?thesis by (intro exI [of _ ?s1] exI [of _ ?c1] exI [of _ c2]) simp
qed

text \<open>
  C38: a lost answer makes a counter count twice. The client treats an RPC whose deadline passed as
  not done and sends it again, but \<^verbatim>\<open>Incr\<close> is not idempotent and carries no identification: when
  the answer to the first attempt is lost, the call reports success and the counter has grown
  by two.
\<close>

theorem lost_answer_counts_twice:
  fixes s :: "kvstore RaftNode host"
  assumes "lone_ok (Suc (Suc n)) (ho_world s)" "self \<noteq> []" "ho_lose s = 1"
    and "cm \<lparr>Op = ''INCR'', Args = [k]\<rparr> = Some b" "env_unmarshal senv b = Some \<lparr>Op = ''INCR'', Args = [k]\<rparr>"
    and "abs_kv (stateMachine (ho_world s)) k = Some (VString (format_int i), None)" "is_int64 i" "is_int64 (i + 1)" "is_int64 (i + 2)"
  shows "\<exists>s' c'. client_Incr (host_env self (host_handlers cm (lone_api senv marshal mjson ujson))) k s (NewClient [self]) = (s', c', Inr (i + 2)) \<and>
     abs_kv (stateMachine (ho_world s')) k = Some (VString (format_int (i + 2)), None)"
  using lone_host.client_Incr_resent [where cm = cm and s = s and i = i and marshal = marshal and mjson = mjson and ujson = ujson, OF assms(1-3) _ assms(5)] assms(4,6-9) by (auto simp: host_handlers_def)

text \<open>
  A type error is reported as a missing leader. The handler of \<^verbatim>\<open>LPop\<close> answers for a key of
  another type with \<^verbatim>\<open>FailedPrecondition\<close>, the code the client takes for \<^verbatim>\<open>not leader\<close>: it asks again
  and again, waits 350 milliseconds in all, and returns \<^verbatim>\<open>no leader found in cluster\<close>, although the
  leader answered every time.
\<close>

theorem type_error_reported_as_no_leader:
  fixes s :: "kvstore RaftNode host"
  assumes "lone_ok n (ho_world s)" "self \<noteq> []" "ho_lose s = 0" "keyTypes (stateMachine (ho_world s)) k = Some ty" "ty \<noteq> ''list''"
  shows "\<exists>c'. client_LPop (host_env self (host_handlers cm (lone_api senv marshal mjson ujson))) k s (NewClient [self]) =
    (s\<lparr>ho_clock := ho_clock s + 350 * Millisecond\<rparr>, c', Inl (NoLeaderAfter (RpcError (notFoundToGRPC ErrWrongType))))"
  using lone_host.client_LPop_wrong_type [where s = s and k = k, OF assms(1-3)] assms(4,5) by simp

section \<open>Examples\<close>

definition demo_host :: "kvstore \<Rightarrow> nat \<Rightarrow> kvstore RaftNode host" where
  "demo_host kv lose = \<lparr>ho_world = demo_lone_store\<lparr>stateMachine := kv\<rparr>, ho_handler = newKVHandler, ho_clock = 5, ho_lose = lose\<rparr>"

definition demo_decoders :: json_decoders where
  "demo_decoders =
     \<lparr>dec_key = (\<lambda>_. Inl []), dec_set = (\<lambda>_. Inr \<lparr>sr_Key = ''k'', sr_Value = ''v'', sr_TtlMs = 0\<rparr>), dec_hset = (\<lambda>_. Inl []), dec_lpush = (\<lambda>_. Inl []),
      dec_zadd = (\<lambda>_. Inl []), dec_node = (\<lambda>_. Inl []), dec_nodeID = (\<lambda>_. Inl [])\<rparr>"

definition demo_http :: "string \<Rightarrow> string \<Rightarrow> http_request" where
  "demo_http method path = \<lparr>rq_method = method, rq_path = path, rq_query = (\<lambda>p. if p = ''key'' then ''k'' else []), rq_body = []\<rparr>"

definition demo_op_env :: "string \<Rightarrow> string list \<Rightarrow> store_env" where
  "demo_op_env op args = (demo_env True 5)\<lparr>env_unmarshal := (\<lambda>_. Some \<lparr>Op = op, Args = args\<rparr>)\<rparr>"

lemma demo_host_ok: "kv_wf kv \<Longrightarrow> n < 2 ^ 64 \<Longrightarrow> lone_ok n (ho_world (demo_host kv lose))"
  by (simp add: demo_host_def lone_ok_def lone_leader_def demo_lone_store_def demo_store_def new_node_def demo_cfg_def DefaultConfig_def newRaftLog_def
      LastIndex_def log_wf_def)

theorem http_set_then_get_witness:
  "\<exists>s' c' c''. gateway_ServeHTTP (host_env ''s'' (host_handlers (\<lambda>_. Some [1]) (lone_api (demo_op_env ''SET'' [''k'', ''v'', format_int 0]) (\<lambda>_. []) (\<lambda>_. []) (\<lambda>_. None))))
       demo_decoders (demo_http ''POST'' ''/api/v1/string/set'') (demo_host NewKVStore 0) (NewClient [''x'', ''s'']) = (s', c', \<lparr>rs_code = 200, rs_body = SuccessBody\<rparr>) \<and>
     cl_leader c' = ''s'' \<and>
     gateway_ServeHTTP (host_env ''s'' (host_handlers (\<lambda>_. Some [1]) (lone_api (demo_op_env ''SET'' [''k'', ''v'', format_int 0]) (\<lambda>_. []) (\<lambda>_. []) (\<lambda>_. None))))
       demo_decoders (demo_http ''GET'' ''/api/v1/string/get'') (s'\<lparr>ho_clock := 9\<rparr>) c' = (s'\<lparr>ho_clock := 9\<rparr>, c'', \<lparr>rs_code = 200, rs_body = ValueBody ''v''\<rparr>)"
  by (rule http_set_then_get [where b = "[1]" and k = "''k''" and n = 0 and ttl = 0, OF refl demo_host_ok [OF kv_wf_NewKVStore]])
    (simp_all add: demo_host_def NewClient_def demo_http_def demo_decoders_def demo_op_env_def expiryMilli_def ms_expiry_def expired_at_def abs_NewKVStore)

definition demo_counter :: kvstore where
  "demo_counter = put_string ''k'' (format_int 41) None NewKVStore"

lemma demo_counter_ok: "kv_wf demo_counter" "abs_kv demo_counter ''k'' = Some (VString (format_int 41), None)" "keyTypes demo_counter ''k'' = Some ''string''"
proof -
  show "kv_wf demo_counter" unfolding demo_counter_def by (rule put_string_ok [OF kv_wf_NewKVStore]) (simp add: only_type_def NewKVStore_def)
  show "keyTypes demo_counter ''k'' = Some ''string''" by (simp add: demo_counter_def put_string_def)
  show "abs_kv demo_counter ''k'' = Some (VString (format_int 41), None)"
    unfolding demo_counter_def by (subst put_string_ok(2) [OF kv_wf_NewKVStore]) (simp_all add: only_type_def NewKVStore_def)
qed

theorem lost_answer_counts_twice_witness:
  "\<exists>s' c'. client_Incr (host_env ''s'' (host_handlers (\<lambda>_. Some [1]) (lone_api (demo_op_env ''INCR'' [''k'']) (\<lambda>_. []) (\<lambda>_. []) (\<lambda>_. None)))) ''k''
       (demo_host demo_counter 1) (NewClient [''s'']) = (s', c', Inr (41 + 2)) \<and>
     abs_kv (stateMachine (ho_world s')) ''k'' = Some (VString (format_int (41 + 2)), None)"
  by (rule lost_answer_counts_twice [where b = "[1]" and n = 0, OF demo_host_ok [OF demo_counter_ok(1)]])
    (use demo_counter_ok in \<open>simp_all add: demo_host_def demo_op_env_def is_int64_def max_int64_def min_int64_def\<close>)

theorem type_error_reported_as_no_leader_witness:
  "\<exists>c'. client_LPop (host_env ''s'' (host_handlers (\<lambda>_. Some [1]) (lone_api (demo_op_env ''LPOP'' [''k'']) (\<lambda>_. []) (\<lambda>_. []) (\<lambda>_. None)))) ''k''
       (demo_host demo_counter 0) (NewClient [''s'']) =
     ((demo_host demo_counter 0)\<lparr>ho_clock := ho_clock (demo_host demo_counter 0) + 350 * Millisecond\<rparr>, c', Inl (NoLeaderAfter (RpcError (notFoundToGRPC ErrWrongType))))"
  by (rule type_error_reported_as_no_leader [where n = 0 and ty = "''string''", OF demo_host_ok [OF demo_counter_ok(1)]])
    (use demo_counter_ok in \<open>simp_all add: demo_host_def\<close>)

end
