(* ===== verification/CommandProps.thy ===== *)
theory CommandProps
  imports Commands RestartProps "HOL-Library.Multiset"
begin

text \<open>The flags of the server: a list of peers written out is read back.\<close>

lemma split_at_one [simp]: "sep \<notin> set x \<Longrightarrow> split_at sep x = [x]"
  by (induction x) auto

lemma split_at_more [simp]: "sep \<notin> set x \<Longrightarrow> split_at sep (x @ sep # y) = x # split_at sep y"
  by (induction x) auto

lemma split_once_at [simp]: "sep \<notin> set x \<Longrightarrow> split_once sep (x @ sep # y) = [x, y]"
  by (induction x) auto

lemma split_once_none [simp]: "sep \<notin> set x \<Longrightarrow> split_once sep x = [x]"
  by (induction x) auto

lemma update_new: "k \<notin> fst ` set al \<Longrightarrow> AList.update k v al = al @ [(k, v)]"
  by (induction al) auto

definition show_peer :: "string \<times> string \<Rightarrow> string" where
  "show_peer p = fst p @ ''='' @ snd p"

text \<open>The flag as a user writes it: the peers with commas in between.\<close>

fun show_peers :: "peers \<Rightarrow> string" where
  "show_peers [] = []"
| "show_peers [p] = show_peer p"
| "show_peers (p # q # ps) = show_peer p @ '','' @ show_peers (q # ps)"

definition plain_peer :: "string \<times> string \<Rightarrow> bool" where
  "plain_peer p \<longleftrightarrow> CHR ''='' \<notin> set (fst p) \<and> CHR '','' \<notin> set (fst p) \<and> CHR '','' \<notin> set (snd p)"

lemma split_show_peers: "ps \<noteq> [] \<Longrightarrow> list_all plain_peer ps \<Longrightarrow> split_at (CHR '','') (show_peers ps) = map show_peer ps"
proof (induction ps rule: show_peers.induct)
  case (2 p)
  then show ?case by (simp add: plain_peer_def show_peer_def)
next
  case (3 p q ps)
  have "CHR '','' \<notin> set (show_peer p)" using 3(3) by (simp add: plain_peer_def show_peer_def)
  then show ?case using 3 by simp
qed simp

lemma add_shown_peers:
  "list_all plain_peer ps \<Longrightarrow> distinct (map fst (acc @ ps)) \<Longrightarrow> add_peers (map show_peer ps) acc = Inr (acc @ ps)"
proof (induction ps arbitrary: acc)
  case (Cons p ps)
  have "split_once (CHR ''='') (show_peer p) = [fst p, snd p]" using Cons.prems(1) by (simp add: plain_peer_def show_peer_def)
  moreover have "AList.update (fst p) (snd p) acc = acc @ [p]" using Cons.prems(2) by (subst update_new) auto
  ultimately show ?case using Cons.IH [of "acc @ [p]"] Cons.prems by simp
qed simp

lemma parse_shown_peers:
  assumes "list_all plain_peer ps" "distinct (map fst ps)"
  shows "parse_peers (show_peers ps) = Inr ps"
proof (cases "ps = []")
  case False
  then have "show_peers ps \<noteq> []" by (cases ps rule: show_peers.cases) (simp_all add: show_peer_def)
  then show ?thesis using split_show_peers [OF False assms(1)] add_shown_peers [of ps "[]"] assms by (simp add: parse_peers_def)
qed (simp add: parse_peers_def)

lemma bad_peer: "\<exists>p \<in> set parts. CHR ''='' \<notin> set p \<Longrightarrow> \<exists>p. add_peers parts acc = Inl p"
proof (induction parts arbitrary: acc)
  case (Cons q parts)
  then show ?case by (cases "CHR ''='' \<in> set q") (auto split: list.splits)
qed simp

text \<open>A node started on an empty directory has no entries and no term, and the members its configuration names.\<close>

lemma fresh_node:
  assumes "DataDir cfg \<noteq> []"
  shows "\<exists>r. NewRaftNode marshal unmarshal mjson ujson now cfg sm s0 \<lparr>nf_state = None, nf_wal = None, nf_snapshot = None, nf_meta = None\<rparr> = Some (Inr r) \<and>
    state r = Follower \<and> currentTerm r = 0 \<and> votedFor r = [] \<and> entries (rlog r) = [] \<and> stateMachine r = s0 \<and>
    clusterConfig r = AList.update (NodeID cfg) [] (Peers cfg)"
proof -
  obtain l where l: "newRaftLogWithWAL marshal unmarshal None (DataDir cfg) (SyncWrites cfg) None = Inr l" "entries l = []" "baseIndex l = 0"
    using assms by (simp add: newRaftLogWithWAL_def loadFromDisk_def newRaftLog_def persistStateToDiskLocked_def Let_def)
  show ?thesis
    using assms l(2,3) by (simp add: NewRaftNode_def l(1) loadSnapshotFromDisk_def loadSnapshotArtifact_def new_node_def newPersistentState_def Let_def)
qed

text \<open>
  A server starts with the peers its flag names. On an empty directory, a list of peers with
  distinct names, written with equals signs and commas, is read back by \<^verbatim>\<open>main\<close>: the node starts as
  a follower without entries whose cluster is these peers and itself, the table of the transport
  holds exactly these peers, and the client of the gateway knows all the addresses, in whatever
  order Go goes through the table. A flag with a part that has no equals sign ends the program.
\<close>

theorem server_reads_its_peers:
  assumes "nodeID \<noteq> []" "\<forall>m. mset (order m) = mset m" "\<forall>dir. mkdir dir = None"
  shows "(list_all plain_peer ps \<and> distinct (map fst ps) \<longrightarrow>
      (\<exists>parts. server_main mkdir order marshal unmarshal mjson ujson now sm \<lparr>nf_state = None, nf_wal = None, nf_snapshot = None, nf_meta = None\<rparr>
           nodeID addr httpAddr (show_peers ps) dir = Some (Inr parts) \<and>
         state (sp_node parts) = Follower \<and> entries (rlog (sp_node parts)) = [] \<and> stateMachine (sp_node parts) = NewKVStore \<and>
         clusterConfig (sp_node parts) = AList.update nodeID [] ps \<and> tr_peers (sp_transport parts) = map_of ps \<and>
         set (cl_nodes (sp_client parts)) = {addr} \<union> snd ` set ps \<and> SyncWrites (sp_config parts))) \<and>
    (flag \<noteq> [] \<and> (\<exists>p \<in> set (split_at (CHR '','') flag). CHR ''='' \<notin> set p) \<longrightarrow>
      (\<exists>p. server_main mkdir order marshal unmarshal mjson ujson now sm files nodeID addr httpAddr flag dir = Some (Inl (InvalidPeer p))))"
proof (intro conjI impI)
  assume ps: "list_all plain_peer ps \<and> distinct (map fst ps)"
  let ?cfg = "server_config nodeID ps (dir @ ''/'' @ nodeID)"
  obtain r where r: "NewRaftNode marshal unmarshal mjson ujson now ?cfg sm NewKVStore \<lparr>nf_state = None, nf_wal = None, nf_snapshot = None, nf_meta = None\<rparr> = Some (Inr r)"
    "state r = Follower" "entries (rlog r) = []" "stateMachine r = NewKVStore" "clusterConfig r = AList.update nodeID [] ps"
    using fresh_node [of ?cfg marshal unmarshal mjson ujson now sm NewKVStore] by (auto simp: server_config_def)
  have "set (order ps) = set ps" using assms(2) by (metis set_mset_mset)
  then show "\<exists>parts. server_main mkdir order marshal unmarshal mjson ujson now sm \<lparr>nf_state = None, nf_wal = None, nf_snapshot = None, nf_meta = None\<rparr>
           nodeID addr httpAddr (show_peers ps) dir = Some (Inr parts) \<and>
         state (sp_node parts) = Follower \<and> entries (rlog (sp_node parts)) = [] \<and> stateMachine (sp_node parts) = NewKVStore \<and>
         clusterConfig (sp_node parts) = AList.update nodeID [] ps \<and> tr_peers (sp_transport parts) = map_of ps \<and>
         set (cl_nodes (sp_client parts)) = {addr} \<union> snd ` set ps \<and> SyncWrites (sp_config parts)"
    using assms(1,3) ps r by (simp add: server_main_def parse_shown_peers NewGRPCTransport_def NewClient_def, simp add: server_config_def)
next
  assume "flag \<noteq> [] \<and> (\<exists>p \<in> set (split_at (CHR '','') flag). CHR ''='' \<notin> set p)"
  then obtain q where "parse_peers flag = Inl q" using bad_peer [of "split_at (CHR '','') flag" "[]"] by (auto simp: parse_peers_def)
  then show "\<exists>p. server_main mkdir order marshal unmarshal mjson ujson now sm files nodeID addr httpAddr flag dir = Some (Inl (InvalidPeer p))"
    using assms by (simp add: server_main_def)
qed

theorem server_reads_its_peers_witness:
  "\<exists>parts. server_main (\<lambda>_. None) rev (\<lambda>_. []) (\<lambda>_. None) (\<lambda>_. []) (\<lambda>_. None) 0
       \<lparr>sm_Apply = (\<lambda>_ s. Some (s, None)), sm_Snapshot = (\<lambda>_. Inr []), sm_Restore = (\<lambda>_ s. (s, None))\<rparr>
       \<lparr>nf_state = None, nf_wal = None, nf_snapshot = None, nf_meta = None\<rparr> ''n1'' '':7001'' '':8001'' ''n2=h:7002,n3=h:7003'' ''./data'' = Some (Inr parts) \<and>
     clusterConfig (sp_node parts) = [(''n2'', ''h:7002''), (''n3'', ''h:7003''), (''n1'', [])]"
proof -
  have s: "show_peers [(''n2'', ''h:7002''), (''n3'', ''h:7003'')] = ''n2=h:7002,n3=h:7003''" by (simp add: show_peer_def)
  have p: "list_all plain_peer [(''n2'', ''h:7002''), (''n3'', ''h:7003'')]" by (simp add: plain_peer_def)
  have u: "AList.update ''n1'' [] [(''n2'', ''h:7002''), (''n3'', ''h:7003'')] = [(''n2'', ''h:7002''), (''n3'', ''h:7003''), (''n1'', [])]" by simp
  show ?thesis
    using server_reads_its_peers [where nodeID = "''n1''" and order = rev and mkdir = "\<lambda>_. None" and ps = "[(''n2'', ''h:7002''), (''n3'', ''h:7003'')]"
        and addr = "'':7001''" and httpAddr = "'':8001''" and dir = "''./data''" and flag = "[]" and now = 0
        and marshal = "\<lambda>_. []" and unmarshal = "\<lambda>_. None" and mjson = "\<lambda>_. []" and ujson = "\<lambda>_. None"
        and sm = "\<lparr>sm_Apply = (\<lambda>_ s. Some (s, None)), sm_Snapshot = (\<lambda>_. Inr []), sm_Restore = (\<lambda>_ s. (s, None))\<rparr>"]
    unfolding s u using p by auto
qed

end
