(* ===== verification/Spec2Isabelle.thy ===== *)
theory Spec2Isabelle
  imports CommitSafety MajorityCommit KVReader Races Batching RaftRPCProps EndToEnd CommandProps
begin

text \<open>
  KVer is a distributed key-value store. Programs reach it through a client library (\<^verbatim>\<open>pkg/sdk\<close>)
  that looks for the leader and repeats calls, users through an HTTP gateway or the command line
  (\<^verbatim>\<open>cmd\<close>), both on top of that library. A server takes the requests (\<^verbatim>\<open>internal/server\<close>) and passes
  writes to the leader of the cluster. A node holds tables of strings, hashes, lists and sorted
  sets (\<^verbatim>\<open>internal/kvstore\<close>), which change only when a committed entry of a replicated log is
  applied to them; the log is replicated by Raft (\<^verbatim>\<open>internal/raft\<close>): elections, replication,
  reads confirmed by a quorum, membership changes, snapshots, a write-ahead log on disk, and a
  transport that carries the messages over gRPC.

  \<^bold>\<open>How the code is modelled.\<close> A struct is a record with the fields of the source, a method is a
  function from the state to the new state and the result. Errors are values of \<open>kv_error\<close> and
  \<open>raft_error\<close>, on the wire of \<open>grpc_error\<close>, in the client of \<open>client_error\<close>; a panic, a fatal error of the run-time system and a loop that does not end are
  \<open>None\<close>. The clock, random draws, the order of map iterations and the system call that fails
  are arguments. An \<^verbatim>\<open>int64\<close> is an \<^typ>\<open>int\<close> with \<open>wrap64\<close> where it can overflow, a \<^verbatim>\<open>uint64\<close> is a
  \<^typ>\<open>nat\<close> with \<open>u64\<close>, a \<^verbatim>\<open>float64\<close> its bit pattern. Codecs of generated or library code
  (protobuf, JSON) are arguments, with what is needed of them as hypotheses of the theorems;
  little-endian integers, CRC-32, SHA-256, \<^verbatim>\<open>strconv\<close> and \<^verbatim>\<open>container/list\<close> are modelled.

  \<^bold>\<open>The theories.\<close>
  \<^item> \<open>Prelude\<close>, \<open>GoNum\<close>, \<open>GoFloat\<close>: shared lemmas and collections, Go's integers, number parsing and
    formatting, floating-point comparison.
  \<^item> \<open>SkipList\<close>, \<open>SkipListProofs\<close>, \<open>SkipListSpec\<close> (\<^verbatim>\<open>skiplist.go\<close>): the skip list as nodes and pointers
    in a heap; every loop ends and the operations implement a sorted list of entries. The
    interface a sorted set needs is the locale \<open>scored_set\<close>, interpreted on the skip list.
  \<^item> \<open>KVState\<close>, \<open>StringStore\<close>, \<open>HashStore\<close>, \<open>ListStore\<close>, \<open>SortedSetStore\<close>, \<open>KVStore\<close> (\<^verbatim>\<open>store.go\<close>,
    \<^verbatim>\<open>ttl.go\<close>, \<^verbatim>\<open>string.go\<close>, \<^verbatim>\<open>hash.go\<close>, \<^verbatim>\<open>list.go\<close>, \<^verbatim>\<open>sortedset.go\<close>): the tables, every
    operation, \<^verbatim>\<open>Apply\<close>, \<^verbatim>\<open>Snapshot\<close>, \<^verbatim>\<open>Restore\<close> and the cleanup of expired keys.
  \<^item> \<open>KVSpec\<close>, \<open>KVRows\<close>, \<open>KVRefine\<close>, \<open>KVProps\<close>: a database as a map from keys to values, the
    invariant that each key has data in one table only and of its type, and the refinement of
    the database by \<^verbatim>\<open>Apply\<close>; counters, ranges, expiration, snapshots.
  \<^item> \<open>KVReader\<close> (\<^verbatim>\<open>reader.go\<close>): the interface of reads, and that every read of the store is a read of
    the database.
  \<^item> \<open>WAL\<close>, \<open>RaftLog\<close>, \<open>RaftLogProps\<close> (\<^verbatim>\<open>log.go\<close>): the byte format of the log file, the log in
    memory and on disk, and that a restart finds the log. The locale \<open>fail_stop\<close> carries the
    argument over sequences of operations and is interpreted on the log.
  \<^item> \<open>RaftTypes\<close>, \<open>RaftNode\<close>, \<open>Election\<close>, \<open>Replication\<close>, \<open>SHA256\<close>, \<open>RaftSnapshot\<close>, \<open>Membership\<close>,
    \<open>RaftLoop\<close> (\<^verbatim>\<open>raft.go\<close>, \<^verbatim>\<open>election.go\<close>, \<^verbatim>\<open>replication.go\<close>, \<^verbatim>\<open>snapshot.go\<close>, \<^verbatim>\<open>membership.go\<close>,
    \<^verbatim>\<open>persistent_state.go\<close>, \<^verbatim>\<open>config.go\<close>, \<^verbatim>\<open>transport.go\<close>): a node and all its handlers and loops.
  \<^item> \<open>Quorum\<close>, \<open>Cluster\<close>, \<open>ClusterProps\<close>, \<open>ReplicationProps\<close>: the locales \<open>quorums\<close> and
    \<open>quorum_change\<close>, interpreted on the majorities of a configuration; a cluster as a step relation
    over nodes, messages, saves that are under way and handlers that wait for one, its invariant, and
    election safety, commitment and reads on top; what a save that comes late does.
  \<^item> \<open>SnapshotProps\<close>, \<open>LoopProps\<close>, \<open>RestartProps\<close>: snapshot files and transfers, the apply loop and
    proposals, restart from a snapshot, membership changes.
  \<^item> \<open>Replica\<close>: the locale \<open>log_machine\<close> of what the consensus module asks of a state machine, its
    interpretation on the key-value store, and the databases of replicas.
  \<^item> \<open>KVHandler\<close>, \<open>HandlerProps\<close> (\<^verbatim>\<open>internal/server/kv_handler.go\<close>): the handlers of client
    requests over the interface \<^verbatim>\<open>RaftProposer\<close>, with their cached connection; forwarding between
    servers, and, through the locale \<open>served_store\<close> interpreted on a node alone in its cluster,
    that a client reads what it wrote.
  \<^item> \<open>LogMatching\<close>: replication on top of the cluster: elections, flushes in their parts, proposals,
    messages in any order and handlers that are interrupted, failing writes and restarts as a step
    relation, its invariant, and that logs which share an entry share everything before it.
  \<^item> \<open>LeaderCompleteness\<close>, \<open>CommitSafety\<close>: the same steps with the answers of the followers, an invariant
    that what a quorum has acknowledged is in the logs of later terms, and that every later leader
    has what a leader has committed and no two leaders commit different entries.
  \<^item> \<open>Batching\<close>, \<open>Races\<close>: the batch loop among the other goroutines of a node: no request is
    lost while the node is healthy; what a failed disk does to waiting callers; what a handler or a
    flush does that goes on after its node has moved to a later term, and what a follower commits
    that its leader never had.
  \<^item> \<open>GRPC\<close>, \<open>RaftRPC\<close>, \<open>RaftRPCProps\<close> (\<^verbatim>\<open>grpc_transport.go\<close>, \<^verbatim>\<open>raft_handler.go\<close>, \<^verbatim>\<open>raft.proto\<close>): status codes, the
    messages between nodes, the server side and the transport. The locale \<open>node_service\<close> says what
    a network that delivers a call does, and is interpreted on a set of nodes that run the handlers;
    the transport's table of peers against the cluster configuration.
  \<^item> \<open>Exchange\<close>, \<open>CatchUp\<close>, \<open>Rounds\<close>, \<open>MajorityCommit\<close> (\<^verbatim>\<open>replication.go\<close>, \<^verbatim>\<open>election.go\<close>, \<^verbatim>\<open>snapshot.go\<close>, \<^verbatim>\<open>membership.go\<close>): the
    goroutines that talk to the peers as whole loops over the interface \<^verbatim>\<open>Transport\<close>: replication,
    snapshots, heartbeats, rounds of votes. The locale \<open>peer_link\<close> says what a transport that
    reaches a peer does and is interpreted on the gRPC transport; replication to a healthy server
    ends with the leader's log there, a majority without a leader elects one, heartbeats carry
    nothing, and a batch that a majority can take is committed.
  \<^item> \<open>Client\<close>, \<open>ClientProps\<close> (\<^verbatim>\<open>pkg/sdk/client.go\<close>): connections, the search for the leader, retries and
    pauses, every call; which answer a write returns and how much a call does at most.
  \<^item> \<open>Gateway\<close>, \<open>Commands\<close>, \<open>CommandProps\<close> (\<^verbatim>\<open>gateway.go\<close>, \<^verbatim>\<open>server.go\<close>, \<^verbatim>\<open>cmd/server/main.go\<close>, \<^verbatim>\<open>cmd/kvctl/main.go\<close>):
    the routes and handlers of the gateway, the start and the end of a server, the commands of \<^verbatim>\<open>kvctl\<close>.
  \<^item> \<open>Served\<close>, \<open>EndToEnd\<close>: the handlers registered as a service at an address, and the way of a request
    from HTTP through client, handler, log and store and back. The locale \<open>served_host\<close> extends
    \<open>served_store\<close> and is interpreted on a node alone in its cluster.

  \<^bold>\<open>Steps and bounds.\<close> The code holds \<^verbatim>\<open>r.mu\<close> in a handler, except while the state file is written,
  while \<^verbatim>\<open>flush\<close> writes the log, and between the reading of an entry and its application. The handlers
  are therefore composed of the parts between these releases: \<open>stepDown\<close> of \<open>stepDown_begin\<close>, \<open>save_state\<close>
  and \<open>stepDown_end\<close>, \<open>handleRequestVote\<close> of \<open>vote_checks\<close>, \<open>vote_part\<close> and the answer, \<open>startElection\<close> of
  \<open>startElection_begin\<close> and \<open>startElection_check\<close>, \<open>electionResponse\<close> of \<open>sendRequestVote_answer\<close>,
  \<open>count_vote\<close> and \<open>becomeLeader\<close>, \<open>processAppendEntries\<close> of \<open>ae_checks\<close> and \<open>ae_resume\<close>, \<open>flush\<close> of
  \<open>flush_entries\<close>, \<open>Append\<close> and \<open>flush_finish\<close>. Theorems on a single call are about the composition;
  in the step relations of the cluster each part is a step of its own and any steps of the node and
  of others may come between two parts. Goroutines and answers to messages are steps of their own.

  The cluster has a fixed configuration, and terms do not reach \<open>2 ^ 64\<close>. Messages may be lost,
  repeated, delayed and reordered; a save of the term and the vote may fail, come late, or overwrite
  a later one. A node may restart whenever its state file holds the term and the vote it has in
  memory. What happens otherwise is not safe and is stated on its own in \<open>ClusterProps\<close>: a vote
  whose save failed and a vote overwritten by an older save. In \<open>LogMatching\<close>, \<open>LeaderCompleteness\<close> and \<open>CommitSafety\<close> no snapshots are
  taken, indices stay below \<open>2 ^ 64\<close>, a restart also finds the log of memory in the file, an \<^verbatim>\<open>AppendEntries\<close>
  that was interrupted goes on in the term of its message, and a batch is written while its node
  still leads the term in which its entries were computed. These conditions are what the code would
  have to ensure and does not; the theorems of \<open>Races\<close> show what it does without them.

  Loops that may run on return an option, and the theorems show that they return. Only the printing
  of floating-point numbers uses fuel: the search for the decimal point has 700 steps from \<open>- 330\<close> on,
  which covers every double, and 17 digits always suffice to read a double back. In \<open>CatchUp\<close>,
  \<open>Rounds\<close> and \<open>MajorityCommit\<close> a goroutine runs without others of its node in between (\<open>alone\<close>); in
  \<open>Exchange\<close> what the others do is the argument \<open>su_meanwhile\<close>, and \<open>replicateTo\<close>, the one loop without a
  bound, returns an option. The number of times a write is passed on in \<open>write_rpc\<close> stands for its
  deadline and is arbitrary.

  \<^bold>\<open>What goes wrong.\<close> Some theorems state a defect of the code, each on the model's definitions: a
  vote whose saving failed, a vote overwritten by a save that comes late, a stale suffix that is committed, a handler interrupted while it saves its
  state, a snapshot installed while an entry is applied, a batch written after the node stepped
  down, callers left waiting after a failed disk, an entry that is not sent again after a failed replication, writes passed around between servers, a counter
  that counts twice after a lost answer, a type error reported as a missing leader, calls on the
  transport in the wrong order, a deletion that keeps a hash, an expiration that depends on the clock of a replica.

  \<^bold>\<open>Not modelled.\<close> Generated code (\<^verbatim>\<open>proto\<close>) is represented by the codec arguments and by records with the
  fields of its messages. The gRPC and HTTP libraries, the reading of flags and the choice of a
  command by \<^verbatim>\<open>cobra\<close> are outside the repository; deadlines and cancelled contexts appear as the
  answers they lead to. What is printed is kept as a value, without its layout, and the log
  messages are left out. The gateway's multiplexer is the choice of the route by path; its cleaning
  of paths and the newline at the end of a body are left out, as are failures of opening or
  shortening the log file at the start. Leader completeness is about what leaders commit; the
  theorem on a stale suffix shows that it does not extend to what a follower takes for committed.
\<close>

end
